(* ===== verification/Prelude.thy ===== *)
theory Prelude
  imports Main "HOL-Library.Word" "HOL-Library.Monad_Syntax"
begin

text \<open>
  Shared vocabulary of the development: the machine integers of the C code, byte memory with
  bounds-checked reads and writes, and the collections of facts that carry the component proofs.

  A C function that may have no defined result (an access outside its buffer, a lock that is
  never granted, a loop that never ends) is modelled by a function into \<open>option\<close>: the value
  \<open>None\<close> stands for \<^emph>\<open>no defined result\<close>, so a theorem that says \<open>f x = Some y\<close> says at
  once that the code returns and that it stays inside its buffers.
\<close>

unbundle bit_operations_syntax

type_synonym u8 = "8 word"
type_synonym u16 = "16 word"
type_synonym u32 = "32 word"

named_theorems mem_simps \<open>reads and writes of byte memory\<close>
named_theorems wire_simps \<open>evaluation of the wire format definitions\<close>
named_theorems queue_simps \<open>layout facts of the message queue\<close>
named_theorems client_simps \<open>frame facts of the client operations\<close>

subsection \<open>Byte memory\<close>

text \<open>A read \<open>m[i]\<close> and a write \<open>m[i] = b\<close> of the C code, undefined outside the buffer.\<close>

definition peek :: "'a list \<Rightarrow> nat \<Rightarrow> 'a option" where
  "peek m i = (if i < length m then Some (m ! i) else None)"

definition poke :: "'a list \<Rightarrow> nat \<Rightarrow> 'a \<Rightarrow> 'a list option" where
  "poke m i b = (if i < length m then Some (m[i := b]) else None)"

text \<open>
  A run of consecutive writes through one advancing pointer (\<open>*buf++ = b\<close>, \<open>memcpy\<close>): the state
  is the memory with the index the pointer stands at.
\<close>

fun emit :: "'a list \<Rightarrow> 'a list \<times> nat \<Rightarrow> ('a list \<times> nat) option" where
  "emit [] s = Some s"
| "emit (b # bs) (m, p) = Option.bind (poke m p b) (\<lambda>m'. emit bs (m', Suc p))"

text \<open>The bytes of a block \<open>[off, off + n)\<close>, undefined unless the block lies in the buffer.\<close>

definition mem_block :: "'a list \<Rightarrow> nat \<Rightarrow> nat \<Rightarrow> 'a list option" where
  "mem_block m off n = (if off + n \<le> length m then Some (take n (drop off m)) else None)"

text \<open>The memory after a block has been overwritten.\<close>

definition overwrite :: "'a list \<Rightarrow> nat \<Rightarrow> 'a list \<Rightarrow> 'a list" where
  "overwrite m p bs = take p m @ bs @ drop (p + length bs) m"

lemma peek_Some [mem_simps, simp]: "i < length m \<Longrightarrow> peek m i = Some (m ! i)"
  by (simp add: peek_def)

lemma peek_eq_Some_iff [mem_simps]: "peek m i = Some b \<longleftrightarrow> i < length m \<and> m ! i = b"
  by (auto simp: peek_def)

lemma poke_Some [mem_simps, simp]: "i < length m \<Longrightarrow> poke m i b = Some (m[i := b])"
  by (simp add: poke_def)

lemma poke_eq_Some_iff [mem_simps]: "poke m i b = Some m' \<longleftrightarrow> i < length m \<and> m' = m[i := b]"
  by (auto simp: poke_def)

lemma length_overwrite [mem_simps, simp]:
  "p + length bs \<le> length m \<Longrightarrow> length (overwrite m p bs) = length m"
  by (simp add: overwrite_def)

lemma overwrite_Nil [mem_simps, simp]: "overwrite m p [] = m"
  by (simp add: overwrite_def)

lemma overwrite_Cons:
  "p < length m \<Longrightarrow> overwrite m p (b # bs) = overwrite (m[p := b]) (Suc p) bs"
  by (simp add: overwrite_def take_Suc_conv_app_nth)

lemma overwrite_append:
  assumes "p + length as + length bs \<le> length m"
  shows "overwrite m p (as @ bs) = overwrite (overwrite m p as) (p + length as) bs"
  using assms by (simp add: overwrite_def ac_simps)

lemma take_overwrite [mem_simps]: "p \<le> length m \<Longrightarrow> take p (overwrite m p bs) = take p m"
  by (simp add: overwrite_def)

lemma mem_block_overwrite [mem_simps]:
  "p + length bs \<le> length m \<Longrightarrow> mem_block (overwrite m p bs) p (length bs) = Some bs"
  by (simp add: mem_block_def overwrite_def)

lemma mem_block_overwrite_before [mem_simps]:
  "off + n \<le> p \<Longrightarrow> p + length bs \<le> length m \<Longrightarrow> mem_block (overwrite m p bs) off n = mem_block m off n"
  by (simp add: mem_block_def overwrite_def) (metis diff_diff_left min.absorb1 take_drop take_take
      add.commute drop_take diff_is_0_eq' le_add_diff_inverse2)

text \<open>A run of writes succeeds exactly when it fits, and then its bytes are in the memory.\<close>

lemma emit_eq [mem_simps]:
  "emit bs (m, p) =
     (if bs = [] \<or> p + length bs \<le> length m then Some (overwrite m p bs, p + length bs) else None)"
proof (induction bs arbitrary: m p)
  case Nil
  then show ?case by simp
next
  case (Cons b bs)
  then show ?case
    by (cases "p < length m") (auto simp: poke_def overwrite_Cons)
qed

lemma emit_fits: "p + length bs \<le> length m \<Longrightarrow> emit bs (m, p) = Some (overwrite m p bs, p + length bs)"
  by (simp add: emit_eq)

lemma mem_block_peek: "mem_block m off n = Some bs \<Longrightarrow> i < n \<Longrightarrow> peek m (off + i) = Some (bs ! i)"
  by (auto simp: mem_block_def peek_def split: if_splits)

subsection \<open>Words and the numbers they stand for\<close>

lemma unat_and_0x7F [simp]: "unat (x AND (0x7F :: 'a::len word)) = unat x mod 128"
proof -
  have "(0x7F :: 'a word) = mask 7" by (simp add: mask_eq_exp_minus_1)
  then have "x AND 0x7F = take_bit 7 x" by (simp only: take_bit_eq_mask)
  then have "unat (x AND 0x7F) = take_bit 7 (unat x)" by (simp only: unsigned_take_bit_eq)
  then show ?thesis by (simp add: take_bit_eq_mod)
qed

lemma unat_drop_bit_word: "unat (drop_bit n (x :: 'a::len word)) = unat x div 2 ^ n"
proof -
  have "unat (drop_bit n x) = drop_bit n (unat x)" by (rule unat_drop_bit_eq)
  also have "\<dots> = unat x div 2 ^ n" by (rule drop_bit_eq_div)
  finally show ?thesis .
qed

lemma unat_add_of_nat_le: "unat (a + of_nat m :: 'a::len word) \<le> unat a + m"
proof -
  have "unat (a + of_nat m) = (unat a + m) mod 2 ^ LENGTH('a)"
    by (simp add: unat_word_ariths unat_of_nat mod_simps)
  then show ?thesis by simp
qed

end
