(* ===== verification/Mqtt_Types.thy ===== *)
theory Mqtt_Types
  imports Prelude
begin

text \<open>
  The enumerations and the error table of \<open>include/mqtt.h\<close> and \<open>src/mqtt.c\<close>.

  A control packet type is read from the high nibble of a byte, so a value of the C enumeration
  can also be 0 or 15, the two reserved types that the rule tables of \<open>mqtt.c\<close> name in their
  comments. An \<open>ssize_t\<close> that mixes byte counts and error codes is an \<open>int\<close>; \<open>mqtt_err\<close> gives the
  enumerators of \<open>enum MQTTErrors\<close> their values.
\<close>

subsection \<open>Control packet types\<close>

datatype MQTTControlPacketType =
    MQTT_CONTROL_RESERVED_0
  | MQTT_CONTROL_CONNECT
  | MQTT_CONTROL_CONNACK
  | MQTT_CONTROL_PUBLISH
  | MQTT_CONTROL_PUBACK
  | MQTT_CONTROL_PUBREC
  | MQTT_CONTROL_PUBREL
  | MQTT_CONTROL_PUBCOMP
  | MQTT_CONTROL_SUBSCRIBE
  | MQTT_CONTROL_SUBACK
  | MQTT_CONTROL_UNSUBSCRIBE
  | MQTT_CONTROL_UNSUBACK
  | MQTT_CONTROL_PINGREQ
  | MQTT_CONTROL_PINGRESP
  | MQTT_CONTROL_DISCONNECT
  | MQTT_CONTROL_RESERVED_15

fun control_type_num :: "MQTTControlPacketType \<Rightarrow> u8" where
  "control_type_num MQTT_CONTROL_RESERVED_0 = 0"
| "control_type_num MQTT_CONTROL_CONNECT = 1"
| "control_type_num MQTT_CONTROL_CONNACK = 2"
| "control_type_num MQTT_CONTROL_PUBLISH = 3"
| "control_type_num MQTT_CONTROL_PUBACK = 4"
| "control_type_num MQTT_CONTROL_PUBREC = 5"
| "control_type_num MQTT_CONTROL_PUBREL = 6"
| "control_type_num MQTT_CONTROL_PUBCOMP = 7"
| "control_type_num MQTT_CONTROL_SUBSCRIBE = 8"
| "control_type_num MQTT_CONTROL_SUBACK = 9"
| "control_type_num MQTT_CONTROL_UNSUBSCRIBE = 10"
| "control_type_num MQTT_CONTROL_UNSUBACK = 11"
| "control_type_num MQTT_CONTROL_PINGREQ = 12"
| "control_type_num MQTT_CONTROL_PINGRESP = 13"
| "control_type_num MQTT_CONTROL_DISCONNECT = 14"
| "control_type_num MQTT_CONTROL_RESERVED_15 = 15"

text \<open>The enumeration value a nibble is stored as (\<open>control_type = *buf >> 4\<close>).\<close>

definition control_type_of :: "u8 \<Rightarrow> MQTTControlPacketType" where
  "control_type_of n =
     [MQTT_CONTROL_RESERVED_0, MQTT_CONTROL_CONNECT, MQTT_CONTROL_CONNACK, MQTT_CONTROL_PUBLISH,
      MQTT_CONTROL_PUBACK, MQTT_CONTROL_PUBREC, MQTT_CONTROL_PUBREL, MQTT_CONTROL_PUBCOMP,
      MQTT_CONTROL_SUBSCRIBE, MQTT_CONTROL_SUBACK, MQTT_CONTROL_UNSUBSCRIBE,
      MQTT_CONTROL_UNSUBACK, MQTT_CONTROL_PINGREQ, MQTT_CONTROL_PINGRESP,
      MQTT_CONTROL_DISCONNECT, MQTT_CONTROL_RESERVED_15] ! unat (n AND 0x0F)"

lemma control_type_of_num [simp]: "control_type_of (control_type_num t) = t"
  by (cases t) (simp_all add: control_type_of_def)

lemma control_type_num_lt_16: "unat (control_type_num t) < 16"
  by (cases t) simp_all

instantiation MQTTControlPacketType :: linorder
begin

definition less_eq_MQTTControlPacketType where
  "(s :: MQTTControlPacketType) \<le> t \<longleftrightarrow> control_type_num s \<le> control_type_num t"

definition less_MQTTControlPacketType where
  "(s :: MQTTControlPacketType) < t \<longleftrightarrow> control_type_num s < control_type_num t"

instance
proof
  fix s t :: MQTTControlPacketType
  assume "s \<le> t" and "t \<le> s"
  then have "control_type_num s = control_type_num t"
    by (simp add: less_eq_MQTTControlPacketType_def)
  then have "control_type_of (control_type_num s) = control_type_of (control_type_num t)" by simp
  then show "s = t" by simp
qed (auto simp: less_eq_MQTTControlPacketType_def less_MQTTControlPacketType_def)

end

subsection \<open>Errors\<close>

datatype MQTTErrors =
    MQTT_ERROR_UNKNOWN
  | MQTT_ERROR_NULLPTR
  | MQTT_ERROR_CONTROL_FORBIDDEN_TYPE
  | MQTT_ERROR_CONTROL_INVALID_FLAGS
  | MQTT_ERROR_CONTROL_WRONG_TYPE
  | MQTT_ERROR_CONNECT_CLIENT_ID_REFUSED
  | MQTT_ERROR_CONNECT_NULL_WILL_MESSAGE
  | MQTT_ERROR_CONNECT_FORBIDDEN_WILL_QOS
  | MQTT_ERROR_CONNACK_FORBIDDEN_FLAGS
  | MQTT_ERROR_CONNACK_FORBIDDEN_CODE
  | MQTT_ERROR_PUBLISH_FORBIDDEN_QOS
  | MQTT_ERROR_SUBSCRIBE_TOO_MANY_TOPICS
  | MQTT_ERROR_MALFORMED_RESPONSE
  | MQTT_ERROR_UNSUBSCRIBE_TOO_MANY_TOPICS
  | MQTT_ERROR_RESPONSE_INVALID_CONTROL_TYPE
  | MQTT_ERROR_CONNECT_NOT_CALLED
  | MQTT_ERROR_SEND_BUFFER_IS_FULL
  | MQTT_ERROR_SOCKET_ERROR
  | MQTT_ERROR_MALFORMED_REQUEST
  | MQTT_ERROR_RECV_BUFFER_TOO_SMALL
  | MQTT_ERROR_ACK_OF_UNKNOWN
  | MQTT_ERROR_NOT_IMPLEMENTED
  | MQTT_ERROR_CONNECTION_REFUSED
  | MQTT_ERROR_SUBSCRIBE_FAILED
  | MQTT_ERROR_CONNECTION_CLOSED
  | MQTT_ERROR_INITIAL_RECONNECT
  | MQTT_ERROR_INVALID_REMAINING_LENGTH
  | MQTT_ERROR_CLEAN_SESSION_IS_REQUIRED
  | MQTT_ERROR_RECONNECTING
  | MQTT_OK

definition INT_MIN :: int where "INT_MIN = - 2147483648"
definition INT_MAX :: int where "INT_MAX = 2147483647"

fun mqtt_err :: "MQTTErrors \<Rightarrow> int" where
  "mqtt_err MQTT_ERROR_UNKNOWN = - 2147483648"
| "mqtt_err MQTT_ERROR_NULLPTR = - 2147483647"
| "mqtt_err MQTT_ERROR_CONTROL_FORBIDDEN_TYPE = - 2147483646"
| "mqtt_err MQTT_ERROR_CONTROL_INVALID_FLAGS = - 2147483645"
| "mqtt_err MQTT_ERROR_CONTROL_WRONG_TYPE = - 2147483644"
| "mqtt_err MQTT_ERROR_CONNECT_CLIENT_ID_REFUSED = - 2147483643"
| "mqtt_err MQTT_ERROR_CONNECT_NULL_WILL_MESSAGE = - 2147483642"
| "mqtt_err MQTT_ERROR_CONNECT_FORBIDDEN_WILL_QOS = - 2147483641"
| "mqtt_err MQTT_ERROR_CONNACK_FORBIDDEN_FLAGS = - 2147483640"
| "mqtt_err MQTT_ERROR_CONNACK_FORBIDDEN_CODE = - 2147483639"
| "mqtt_err MQTT_ERROR_PUBLISH_FORBIDDEN_QOS = - 2147483638"
| "mqtt_err MQTT_ERROR_SUBSCRIBE_TOO_MANY_TOPICS = - 2147483637"
| "mqtt_err MQTT_ERROR_MALFORMED_RESPONSE = - 2147483636"
| "mqtt_err MQTT_ERROR_UNSUBSCRIBE_TOO_MANY_TOPICS = - 2147483635"
| "mqtt_err MQTT_ERROR_RESPONSE_INVALID_CONTROL_TYPE = - 2147483634"
| "mqtt_err MQTT_ERROR_CONNECT_NOT_CALLED = - 2147483633"
| "mqtt_err MQTT_ERROR_SEND_BUFFER_IS_FULL = - 2147483632"
| "mqtt_err MQTT_ERROR_SOCKET_ERROR = - 2147483631"
| "mqtt_err MQTT_ERROR_MALFORMED_REQUEST = - 2147483630"
| "mqtt_err MQTT_ERROR_RECV_BUFFER_TOO_SMALL = - 2147483629"
| "mqtt_err MQTT_ERROR_ACK_OF_UNKNOWN = - 2147483628"
| "mqtt_err MQTT_ERROR_NOT_IMPLEMENTED = - 2147483627"
| "mqtt_err MQTT_ERROR_CONNECTION_REFUSED = - 2147483626"
| "mqtt_err MQTT_ERROR_SUBSCRIBE_FAILED = - 2147483625"
| "mqtt_err MQTT_ERROR_CONNECTION_CLOSED = - 2147483624"
| "mqtt_err MQTT_ERROR_INITIAL_RECONNECT = - 2147483623"
| "mqtt_err MQTT_ERROR_INVALID_REMAINING_LENGTH = - 2147483622"
| "mqtt_err MQTT_ERROR_CLEAN_SESSION_IS_REQUIRED = - 2147483621"
| "mqtt_err MQTT_ERROR_RECONNECTING = - 2147483620"
| "mqtt_err MQTT_OK = 1"

lemma mqtt_err_neg: "e \<noteq> MQTT_OK \<Longrightarrow> mqtt_err e < 0"
  by (cases e) simp_all

text \<open>The strings the macro \<open>GENERATE_STRING\<close> makes of the enumerators, in their order.\<close>

definition MQTT_ERRORS_STR :: "string list" where
  "MQTT_ERRORS_STR =
    [''MQTT_UNKNOWN_ERROR'',
     ''MQTT_ERROR_NULLPTR'',
     ''MQTT_ERROR_CONTROL_FORBIDDEN_TYPE'',
     ''MQTT_ERROR_CONTROL_INVALID_FLAGS'',
     ''MQTT_ERROR_CONTROL_WRONG_TYPE'',
     ''MQTT_ERROR_CONNECT_CLIENT_ID_REFUSED'',
     ''MQTT_ERROR_CONNECT_NULL_WILL_MESSAGE'',
     ''MQTT_ERROR_CONNECT_FORBIDDEN_WILL_QOS'',
     ''MQTT_ERROR_CONNACK_FORBIDDEN_FLAGS'',
     ''MQTT_ERROR_CONNACK_FORBIDDEN_CODE'',
     ''MQTT_ERROR_PUBLISH_FORBIDDEN_QOS'',
     ''MQTT_ERROR_SUBSCRIBE_TOO_MANY_TOPICS'',
     ''MQTT_ERROR_MALFORMED_RESPONSE'',
     ''MQTT_ERROR_UNSUBSCRIBE_TOO_MANY_TOPICS'',
     ''MQTT_ERROR_RESPONSE_INVALID_CONTROL_TYPE'',
     ''MQTT_ERROR_CONNECT_NOT_CALLED'',
     ''MQTT_ERROR_SEND_BUFFER_IS_FULL'',
     ''MQTT_ERROR_SOCKET_ERROR'',
     ''MQTT_ERROR_MALFORMED_REQUEST'',
     ''MQTT_ERROR_RECV_BUFFER_TOO_SMALL'',
     ''MQTT_ERROR_ACK_OF_UNKNOWN'',
     ''MQTT_ERROR_NOT_IMPLEMENTED'',
     ''MQTT_ERROR_CONNECTION_REFUSED'',
     ''MQTT_ERROR_SUBSCRIBE_FAILED'',
     ''MQTT_ERROR_CONNECTION_CLOSED'',
     ''MQTT_ERROR_INITIAL_RECONNECT'',
     ''MQTT_ERROR_INVALID_REMAINING_LENGTH'',
     ''MQTT_ERROR_CLEAN_SESSION_IS_REQUIRED'',
     ''MQTT_ERROR_RECONNECTING'']"

text \<open>
  \<open>int offset = error - MQTT_ERROR_UNKNOWN\<close> is a subtraction of two signed 32-bit integers: it
  has no defined result when it leaves the range of \<open>int\<close>.
\<close>

definition int_sub :: "int \<Rightarrow> int \<Rightarrow> int option" where
  "int_sub a b = (let d = a - b in if INT_MIN \<le> d \<and> d \<le> INT_MAX then Some d else None)"

definition mqtt_error_str :: "int \<Rightarrow> string option" where
  "mqtt_error_str error =
     Option.bind (int_sub error (mqtt_err MQTT_ERROR_UNKNOWN)) (\<lambda>offset.
       if offset \<ge> 0 then peek MQTT_ERRORS_STR (nat offset)
       else if error = 0 then Some ''MQTT_ERROR: Buffer too small.''
       else if error > 0 then Some ''MQTT_OK''
       else peek MQTT_ERRORS_STR 0)"

end
