(* ===== verification/Mqtt_Wire.thy ===== *)
theory Mqtt_Wire
  imports Mqtt_Types
begin

text \<open>
  The wire format layer of \<open>src/mqtt.c\<close>: the fixed header of a control packet with its
  variable-length remaining length, and the 16-bit integers and length-prefixed strings of the
  variable header and the payload.

  A packer writes into the block \<open>[buf, buf + bufsz)\<close>; the model is given that block as a list,
  so \<open>bufsz\<close> is its length, and returns the \<open>ssize_t\<close> of the C function with the block as the
  function leaves it (a failed packer may have written part of a packet). A C string is the list
  of its bytes before the terminating zero. A pointer that may be null is an \<open>option\<close>.
\<close>

type_synonym cstring = "u8 list"
type_synonym packed = "(int \<times> u8 list) option"

record mqtt_fixed_header =
  control_type :: MQTTControlPacketType
  control_flags :: "4 word"
  remaining_length :: u32

subsection \<open>The rules of the fixed header\<close>

fun control_type_is_valid :: "MQTTControlPacketType \<Rightarrow> bool" where
  "control_type_is_valid MQTT_CONTROL_RESERVED_0 = False"
| "control_type_is_valid MQTT_CONTROL_RESERVED_15 = False"
| "control_type_is_valid _ = True"

fun required_flags :: "MQTTControlPacketType \<Rightarrow> u8" where
  "required_flags MQTT_CONTROL_PUBREL = 0x02"
| "required_flags MQTT_CONTROL_SUBSCRIBE = 0x02"
| "required_flags MQTT_CONTROL_UNSUBSCRIBE = 0x02"
| "required_flags _ = 0x00"

fun mask_required_flags :: "MQTTControlPacketType \<Rightarrow> u8" where
  "mask_required_flags MQTT_CONTROL_RESERVED_0 = 0x00"
| "mask_required_flags MQTT_CONTROL_PUBLISH = 0x00"
| "mask_required_flags MQTT_CONTROL_RESERVED_15 = 0x00"
| "mask_required_flags _ = 0x0F"

definition mqtt_fixed_header_rule_violation :: "mqtt_fixed_header \<Rightarrow> int" where
  "mqtt_fixed_header_rule_violation h =
     (let flags = ucast (control_flags h) :: u8;
          required = required_flags (control_type h);
          mask = mask_required_flags (control_type h)
      in if \<not> control_type_is_valid (control_type h)
         then mqtt_err MQTT_ERROR_CONTROL_FORBIDDEN_TYPE
         else if (flags XOR required) AND mask \<noteq> 0
         then mqtt_err MQTT_ERROR_CONTROL_INVALID_FLAGS
         else 0)"

subsection \<open>Unpacking the fixed header\<close>

text \<open>
  The \<open>do\<close> loop over the bytes of the remaining length. Its state is the offset of \<open>buf\<close>, the
  bytes left, the shift and the value so far; it ends with \<open>Inl rv\<close> where the code returns and
  with \<open>Inr\<close> of the state after the loop otherwise.
\<close>

function unpack_remaining_length ::
  "u8 list \<Rightarrow> nat \<Rightarrow> nat \<Rightarrow> nat \<Rightarrow> u32 \<Rightarrow> ((int + nat \<times> nat) \<times> u32) option" where
  "unpack_remaining_length buf i bufsz lshift rl =
     (if lshift = 28 then Some (Inl (mqtt_err MQTT_ERROR_INVALID_REMAINING_LENGTH), rl)
      else if bufsz - 1 = 0 then Some (Inl 0, rl)
      else case peek buf (i + 1) of
             None \<Rightarrow> None
           | Some b \<Rightarrow>
               (let rl' = rl + push_bit lshift (ucast (b AND 0x7F))
                in if b AND 0x80 \<noteq> 0
                   then unpack_remaining_length buf (i + 1) (bufsz - 1) (lshift + 7) rl'
                   else Some (Inr (i + 1, bufsz - 1), rl')))"
  by pat_completeness auto
termination
  by (relation "measure (\<lambda>(buf, i, bufsz, lshift, rl). bufsz)") auto

declare unpack_remaining_length.simps [simp del]

definition mqtt_unpack_fixed_header ::
  "mqtt_fixed_header option \<Rightarrow> u8 list option \<Rightarrow> nat \<Rightarrow> (int \<times> mqtt_fixed_header option) option"
where
  "mqtt_unpack_fixed_header response bufp bufsz =
     (case (response, bufp) of
        (Some h0, Some buf) \<Rightarrow>
          if bufsz = 0 then Some (0, Some h0)
          else do {
            b \<leftarrow> peek buf 0;
            let h = h0\<lparr>control_type := control_type_of (drop_bit 4 b),
                       control_flags := ucast (b AND 0x0F),
                       remaining_length := 0\<rparr>;
            (r, rl) \<leftarrow> unpack_remaining_length buf 0 bufsz 0 0;
            let h = h\<lparr>remaining_length := rl\<rparr>;
            (case r of
               Inl rv \<Rightarrow> Some (rv, Some h)
             | Inr (i, bufsz) \<Rightarrow>
                 let bufsz = bufsz - 1; i = i + 1; errcode = mqtt_fixed_header_rule_violation h
                 in if errcode \<noteq> 0 then Some (errcode, Some h)
                    else if bufsz < unat (remaining_length h) then Some (0, Some h)
                    else Some (int i, Some h))
          }
      | _ \<Rightarrow> Some (mqtt_err MQTT_ERROR_NULLPTR, response))"

subsection \<open>Packing the fixed header\<close>

function pack_remaining_length ::
  "u8 list \<Rightarrow> nat \<Rightarrow> nat \<Rightarrow> u32 \<Rightarrow> ((int + nat \<times> nat) \<times> u8 list) option" where
  "pack_remaining_length buf i bufsz rl =
     (if bufsz - 1 = 0 then Some (Inl 0, buf)
      else let b = (if unat rl > 127 then (ucast (rl AND 0x7F)) OR 0x80 else ucast (rl AND 0x7F))
           in case poke buf (i + 1) b of
                None \<Rightarrow> None
              | Some buf' \<Rightarrow>
                  if b AND 0x80 \<noteq> 0
                  then pack_remaining_length buf' (i + 1) (bufsz - 1) (drop_bit 7 rl)
                  else Some (Inr (i + 1, bufsz - 1), buf'))"
  by pat_completeness auto
termination
  by (relation "measure (\<lambda>(buf, i, bufsz, rl). bufsz)") auto

declare pack_remaining_length.simps [simp del]

definition mqtt_pack_fixed_header ::
  "u8 list option \<Rightarrow> mqtt_fixed_header option \<Rightarrow> packed" where
  "mqtt_pack_fixed_header bufp hp =
     (case (hp, bufp) of
        (Some h, Some buf) \<Rightarrow>
          (let errcode = mqtt_fixed_header_rule_violation h; bufsz = length buf
           in if errcode \<noteq> 0 then Some (errcode, buf)
              else if bufsz = 0 then Some (0, buf)
              else do {
                buf \<leftarrow> poke buf 0
                  ((push_bit 4 (control_type_num (control_type h)) AND 0xF0)
                    OR (ucast (control_flags h) AND 0x0F));
                if unat (remaining_length h) \<ge> 256 * 1024 * 1024
                then Some (mqtt_err MQTT_ERROR_INVALID_REMAINING_LENGTH, buf)
                else do {
                  (r, buf) \<leftarrow> pack_remaining_length buf 0 bufsz (remaining_length h);
                  (case r of
                     Inl rv \<Rightarrow> Some (rv, buf)
                   | Inr (i, bufsz) \<Rightarrow>
                       let bufsz = bufsz - 1; i = i + 1
                       in if bufsz < unat (remaining_length h) then Some (0, buf)
                          else Some (int i, buf))
                }
              })
      | (_, Some buf) \<Rightarrow> Some (mqtt_err MQTT_ERROR_NULLPTR, buf)
      | (_, None) \<Rightarrow> Some (mqtt_err MQTT_ERROR_NULLPTR, []))"

subsection \<open>Integers and strings\<close>

text \<open>\<open>MQTT_PAL_HTONS\<close> and \<open>memcpy\<close>: the two bytes in network order, high byte first.\<close>

definition mqtt_pack_uint16 :: "u16 \<Rightarrow> u8 list \<times> nat \<Rightarrow> (u8 list \<times> nat) option" where
  "mqtt_pack_uint16 integer s = emit [ucast (drop_bit 8 integer), ucast integer] s"

definition mqtt_unpack_uint16 :: "u8 list \<Rightarrow> nat \<Rightarrow> u16 option" where
  "mqtt_unpack_uint16 buf i = do {
     hi \<leftarrow> peek buf i;
     lo \<leftarrow> peek buf (i + 1);
     Some (push_bit 8 (ucast hi) OR ucast lo)
   }"

text \<open>The macro \<open>__mqtt_packed_cstrlen\<close>.\<close>

definition mqtt_packed_cstrlen :: "cstring \<Rightarrow> nat" where
  "mqtt_packed_cstrlen x = 2 + length x"

text \<open>
  \<open>__mqtt_pack_str\<close> reads the length into a \<open>uint16_t\<close> and writes that many bytes; the pointer
  advances by its return value, \<open>length + 2\<close>.
\<close>

definition mqtt_pack_str :: "cstring \<Rightarrow> u8 list \<times> nat \<Rightarrow> (u8 list \<times> nat) option" where
  "mqtt_pack_str str s =
     (let len = (of_nat (length str) :: u16)
      in do {
        s \<leftarrow> mqtt_pack_uint16 len s;
        emit (take (unat len) str) s
      })"


subsection \<open>The remaining length encoding of the specification\<close>

text \<open>
  The reference encoding (MQTT 3.1.1, section 2.2.3): seven bits to a byte, least significant
  group first, the top bit set on every byte but the last.
\<close>

fun varint :: "nat \<Rightarrow> u8 list" where
  "varint n = (if n < 128 then [of_nat n] else (of_nat (n mod 128) OR 0x80) # varint (n div 128))"

declare varint.simps [simp del]

lemma u8_continue_bit: "(b :: u8) AND 0x80 \<noteq> 0 \<longleftrightarrow> 128 \<le> unat b"
proof -
  have "b AND 0x80 = b AND 2 ^ 7" by simp
  then have "b AND 0x80 \<noteq> 0 \<longleftrightarrow> bit b 7" by (simp only: and_exp_eq_0_iff_not_bit not_not)
  also have "\<dots> \<longleftrightarrow> bit (unat b) 7" by (simp add: bit_unsigned_iff)
  also have "\<dots> \<longleftrightarrow> odd (unat b div 128)" by (simp add: bit_iff_odd)
  also have "\<dots> \<longleftrightarrow> 128 \<le> unat b"
  proof -
    have "unat b < 256" using unsigned_less [of b] by simp
    then have "unat b div 128 < 2" by simp
    then show ?thesis by (cases "unat b div 128 = 0") (auto simp: div_eq_0_iff)
  qed
  finally show ?thesis .
qed

lemma unat_of_nat_mod_128 [simp]: "unat (of_nat (n mod 128) :: u8) = n mod 128"
  by (simp add: unat_of_nat)

lemma unat_of_nat_lt_128: "n < 128 \<Longrightarrow> unat (of_nat n :: u8) = n"
  by (simp add: unat_of_nat)

lemma unat_or_0x80 [simp]: "unat ((of_nat (n mod 128) :: u8) OR 0x80) = n mod 128 + 128"
proof -
  have "\<not> 128 \<le> unat (of_nat (n mod 128) :: u8)" by (simp add: not_le)
  then have "(of_nat (n mod 128) :: u8) AND 0x80 = 0"
    using u8_continue_bit by blast
  then have "(of_nat (n mod 128) :: u8) + 0x80 = of_nat (n mod 128) OR 0x80"
    by (rule disjunctive_add_eq_or)
  then have "unat ((of_nat (n mod 128) :: u8) OR 0x80) = unat ((of_nat (n mod 128) :: u8) + 0x80)"
    by simp
  also have "\<dots> = n mod 128 + 128"
    by (subst unat_add_lem [THEN iffD1]) (simp_all add: less_diff_conv)
  finally show ?thesis .
qed

lemma length_varint: "n < 2 ^ 28 \<Longrightarrow> 1 \<le> length (varint n) \<and> length (varint n) \<le> 4"
proof -
  assume n: "n < 2 ^ 28"
  show ?thesis
  proof (cases "n < 128 \<or> n div 128 < 128 \<or> n div 128 div 128 < 128")
    case True
    then show ?thesis
      by (auto simp: varint.simps [of n] varint.simps [of "n div 128"]
          varint.simps [of "n div 128 div 128"])
  next
    case False
    moreover from n have "n div 128 div 128 div 128 < 128" by simp
    ultimately show ?thesis
      by (simp add: varint.simps [of n] varint.simps [of "n div 128"]
          varint.simps [of "n div 128 div 128"] varint.simps [of "n div 128 div 128 div 128"])
  qed
qed

lemma varint_not_Nil [simp]: "varint n \<noteq> []"
  by (simp add: varint.simps [of n])

text \<open>The packing loop writes exactly the reference encoding, when it fits.\<close>

lemma pack_byte_eq:
  "(if unat rl > 127 then (ucast (rl AND 0x7F) :: u8) OR 0x80 else ucast (rl AND 0x7F)) =
     (if unat rl < 128 then of_nat (unat rl) else of_nat (unat rl mod 128) OR 0x80)"
  for rl :: u32
proof -
  have "(ucast (rl AND 0x7F) :: u8) = of_nat (unat (rl AND 0x7F))"
    by (rule of_nat_unat [symmetric])
  also have "\<dots> = of_nat (unat rl mod 128)" by (simp only: unat_and_0x7F)
  finally show ?thesis by simp
qed

lemma pack_remaining_length_fits:
  assumes "bufsz + i = length buf" and "length (varint (unat rl)) < bufsz"
  shows "pack_remaining_length buf i bufsz rl =
    Some (Inr (i + length (varint (unat rl)), bufsz - length (varint (unat rl))),
          overwrite buf (i + 1) (varint (unat rl)))"
  using assms
proof (induction buf i bufsz rl rule: pack_remaining_length.induct)
  case (1 buf i bufsz rl)
  define b where "b = (if unat rl < 128 then (of_nat (unat rl) :: u8)
    else of_nat (unat rl mod 128) OR 0x80)"
  have sz: "bufsz - 1 \<noteq> 0" and i: "i + 1 < length buf"
    using "1.prems" by (auto simp: varint.simps [of "unat rl"] split: if_splits)
  have step: "pack_remaining_length buf i bufsz rl =
     (if b AND 0x80 \<noteq> 0
      then pack_remaining_length (buf[i + 1 := b]) (i + 1) (bufsz - 1) (drop_bit 7 rl)
      else Some (Inr (i + 1, bufsz - 1), buf[i + 1 := b]))"
    using sz i by (simp add: pack_remaining_length.simps [of buf i bufsz rl] pack_byte_eq b_def)
  show ?case
  proof (cases "unat rl < 128")
    case True
    then have "unat b = unat rl" unfolding b_def by (simp only: if_True unat_of_nat_lt_128)
    with True have "\<not> b AND 0x80 \<noteq> 0" by (simp add: u8_continue_bit)
    with True step i show ?thesis
      by (simp add: varint.simps [of "unat rl"] b_def overwrite_Cons)
  next
    case False
    then have c: "b AND 0x80 \<noteq> 0" by (simp add: u8_continue_bit b_def)
    have rl: "unat (drop_bit 7 rl) = unat rl div 128" by (simp add: unat_drop_bit_word)
    have v: "varint (unat rl) = b # varint (unat rl div 128)"
      using False by (simp add: varint.simps [of "unat rl"] b_def)
    have "pack_remaining_length buf i bufsz rl =
        pack_remaining_length (buf[i + 1 := b]) (i + 1) (bufsz - 1) (drop_bit 7 rl)"
      using step c by simp
    also have "\<dots> =
      Some (Inr (i + 1 + length (varint (unat rl div 128)),
                 bufsz - 1 - length (varint (unat rl div 128))),
            overwrite (buf[i + 1 := b]) (i + 1 + 1) (varint (unat rl div 128)))"
      using "1.IH" [OF sz refl, of "buf[i + 1 := b]"] "1.prems" c i v
      by (simp add: pack_byte_eq b_def [symmetric] rl)
    also have "\<dots> = Some (Inr (i + length (varint (unat rl)), bufsz - length (varint (unat rl))),
        overwrite buf (i + 1) (varint (unat rl)))"
      using i by (simp add: v overwrite_Cons)
    finally show ?thesis .
  qed
qed

text \<open>When it does not fit the loop returns 0, having written inside the block only.\<close>

lemma pack_remaining_length_short:
  assumes "bufsz + i = length buf" and "0 < bufsz" and "bufsz \<le> length (varint (unat rl))"
  shows "\<exists>buf'. pack_remaining_length buf i bufsz rl = Some (Inl 0, buf') \<and> length buf' = length buf"
  using assms
proof (induction buf i bufsz rl rule: pack_remaining_length.induct)
  case (1 buf i bufsz rl)
  show ?case
  proof (cases "bufsz - 1 = 0")
    case True
    then show ?thesis by (simp add: pack_remaining_length.simps [of buf i bufsz rl])
  next
    case False
    let ?b = "if unat rl > 127 then (ucast (rl AND 0x7F) :: u8) OR 0x80 else ucast (rl AND 0x7F)"
    have i: "i + 1 < length buf" using False "1.prems" by simp
    have ge: "\<not> unat rl < 128"
      using False "1.prems"(3) by (auto simp: varint.simps [of "unat rl"])
    then have v: "length (varint (unat rl)) = Suc (length (varint (unat rl div 128)))"
      by (simp add: varint.simps [of "unat rl"])
    have c: "?b AND 0x80 \<noteq> 0"
      using ge by (simp only: pack_byte_eq if_False u8_continue_bit unat_or_0x80)
    have "\<exists>buf'. pack_remaining_length (buf[i + 1 := ?b]) (i + 1) (bufsz - 1) (drop_bit 7 rl) =
        Some (Inl 0, buf') \<and> length buf' = length (buf[i + 1 := ?b])"
      using False "1.prems" i c v
      by (intro "1.IH" [OF False refl]) (simp_all add: unat_drop_bit_word)
    with False i c show ?thesis
      by (simp add: pack_remaining_length.simps [of buf i bufsz rl] Let_def)
  qed
qed

text \<open>The unpacking loop reads the reference encoding back.\<close>

lemma unpack_byte_value:
  "(ucast ((of_nat (n mod 128) OR 0x80 :: u8) AND 0x7F) :: u32) = of_nat (n mod 128)"
  "n < 128 \<Longrightarrow> (ucast ((of_nat n :: u8) AND 0x7F) :: u32) = of_nat n"
proof -
  have val: "(ucast (b AND 0x7F) :: u32) = of_nat (unat b mod 128)" for b :: u8
  proof -
    have "(ucast (b AND 0x7F) :: u32) = of_nat (unat (b AND 0x7F))"
      by (rule of_nat_unat [symmetric])
    then show ?thesis by (simp only: unat_and_0x7F)
  qed
  show "(ucast ((of_nat (n mod 128) OR 0x80 :: u8) AND 0x7F) :: u32) = of_nat (n mod 128)"
    by (simp only: val unat_or_0x80) simp
  show "n < 128 \<Longrightarrow> (ucast ((of_nat n :: u8) AND 0x7F) :: u32) = of_nat n"
    by (simp only: val unat_of_nat_lt_128) simp
qed

lemma push_bit_of_nat_word: "push_bit k (of_nat n :: 'a::len word) = of_nat (n * 2 ^ k)"
  by (simp add: push_bit_eq_mult)

lemma unpack_remaining_length_varint:
  assumes "n * 2 ^ lshift < 2 ^ 28" and "lshift < 28"
    and "i + length (varint n) < length buf" and "length (varint n) < bufsz"
    and "\<And>j. j < length (varint n) \<Longrightarrow> buf ! (i + 1 + j) = varint n ! j"
  shows "unpack_remaining_length buf i bufsz lshift rl =
    Some (Inr (i + length (varint n), bufsz - length (varint n)), rl + of_nat (n * 2 ^ lshift))"
  using assms
proof (induction n arbitrary: i bufsz lshift rl rule: varint.induct)
  case (1 n)
  have sz: "lshift \<noteq> 28" "bufsz - 1 \<noteq> 0" "i + 1 < length buf"
    using "1.prems" by (auto simp: varint.simps [of n] split: if_splits)
  have b: "buf ! (i + 1) = varint n ! 0"
    using "1.prems"(5) [of 0] by (cases "varint n") auto
  show ?case
  proof (cases "n < 128")
    case True
    then have "\<not> (of_nat n :: u8) AND 0x80 \<noteq> 0"
      by (simp only: u8_continue_bit unat_of_nat_lt_128)
    with True sz b show ?thesis
      by (simp add: unpack_remaining_length.simps [of buf i] varint.simps [of n]
          unpack_byte_value push_bit_of_nat_word del: of_nat_mult of_nat_power)
  next
    case False
    let ?v = "varint (n div 128)" and ?rl = "rl + push_bit lshift (of_nat (n mod 128))"
    have v: "varint n = (of_nat (n mod 128) OR 0x80) # ?v"
      using False by (simp add: varint.simps [of n])
    have c: "(of_nat (n mod 128) OR 0x80 :: u8) AND 0x80 \<noteq> 0"
      by (simp only: u8_continue_bit unat_or_0x80)
    have p: "(2::nat) ^ (lshift + 7) = 128 * 2 ^ lshift" by (simp add: power_add)
    have le: "n div 128 * 2 ^ (lshift + 7) \<le> n * 2 ^ lshift"
      by (simp add: p mult.assoc [symmetric] del: power_Suc) 
    have shift: "lshift + 7 < 28"
    proof (rule ccontr)
      assume "\<not> lshift + 7 < 28"
      then have "(2::nat) ^ 21 \<le> 2 ^ lshift" by (intro power_increasing) auto
      with False have "128 * 2 ^ 21 \<le> n * (2::nat) ^ lshift" by (intro mult_le_mono) auto
      with "1.prems"(1) show False by simp
    qed
    have nth: "buf ! (i + 1 + 1 + j) = ?v ! j" if "j < length ?v" for j
      using "1.prems"(5) [of "Suc j"] that by (simp add: v)
    have "unpack_remaining_length buf i bufsz lshift rl =
        unpack_remaining_length buf (i + 1) (bufsz - 1) (lshift + 7) ?rl"
      using sz b c by (simp add: unpack_remaining_length.simps [of buf i] v unpack_byte_value)
    also have "\<dots> = Some (Inr (i + 1 + length ?v, bufsz - 1 - length ?v),
        ?rl + of_nat (n div 128 * 2 ^ (lshift + 7)))"
      using "1.prems" le shift v nth
      by (intro "1.IH" [OF False]) (auto intro: le_less_trans)
    also have "?rl + of_nat (n div 128 * 2 ^ (lshift + 7)) = rl + of_nat (n * 2 ^ lshift)"
    proof -
      have "n mod 128 * 2 ^ lshift + n div 128 * 2 ^ (lshift + 7) =
          (n mod 128 + n div 128 * 128) * 2 ^ lshift"
        by (simp only: p add_mult_distrib mult.assoc)
      also have "n mod 128 + n div 128 * 128 = n" by (rule mod_div_mult_eq)
      finally show ?thesis
        by (simp only: push_bit_of_nat_word add.assoc of_nat_add [symmetric])
    qed
    finally show ?thesis by (simp add: v)
  qed
qed


subsection \<open>Fixed headers\<close>

text \<open>The bytes of a fixed header.\<close>

definition header_bytes :: "mqtt_fixed_header \<Rightarrow> u8 list" where
  "header_bytes h =
     (push_bit 4 (control_type_num (control_type h)) OR ucast (control_flags h))
       # varint (unat (remaining_length h))"

definition header_valid :: "mqtt_fixed_header \<Rightarrow> bool" where
  "header_valid h \<longleftrightarrow>
     mqtt_fixed_header_rule_violation h = 0 \<and> unat (remaining_length h) < 2 ^ 28"

lemma header_nibbles:
  "(push_bit 4 (control_type_num t) AND 0xF0) OR (ucast f AND 0x0F) =
     push_bit 4 (control_type_num t) OR (ucast (f :: 4 word) :: u8)"
proof (rule bit_word_eqI)
  have f: "4 \<le> k \<Longrightarrow> \<not> bit f k" for k
    using bit_imp_le_length [of f k] by auto
  fix n assume "n < LENGTH(8)"
  then consider "n = 0" | "n = 1" | "n = 2" | "n = 3" | "n = 4" | "n = 5" | "n = 6" | "n = 7"
    by fastforce
  then show "bit ((push_bit 4 (control_type_num t) AND 0xF0) OR (ucast f AND 0x0F)) n =
     bit (push_bit 4 (control_type_num t) OR (ucast f :: u8)) n"
    by cases (simp_all add: bit_simps f)
qed


lemma rule_violation_le_0: "mqtt_fixed_header_rule_violation h \<le> 0"
  by (simp add: mqtt_fixed_header_rule_violation_def Let_def)

text \<open>The two nibbles of the first byte are read back.\<close>

lemma header_byte_type:
  "control_type_of (drop_bit 4 (push_bit 4 (control_type_num t) OR (ucast (f :: 4 word) :: u8))) = t"
proof -
  have f: "4 \<le> k \<Longrightarrow> \<not> bit f k" for k
    using bit_imp_le_length [of f k] by auto
  have t: "4 \<le> k \<Longrightarrow> \<not> bit (control_type_num t) k" for k
  proof -
    assume k: "4 \<le> k"
    have "unat (control_type_num t) < 2 ^ k"
      using control_type_num_lt_16 [of t] power_increasing [OF k, of "2::nat"] by simp
    then have "\<not> bit (unat (control_type_num t)) k" by (simp add: bit_iff_odd)
    then show ?thesis by (simp add: bit_unsigned_iff)
  qed
  then have t': "bit (control_type_num t) k \<Longrightarrow> k < 4" for k by (meson not_le)
  have "drop_bit 4 (push_bit 4 (control_type_num t) OR (ucast f :: u8)) = control_type_num t"
    by (rule bit_word_eqI) (auto simp: bit_simps f dest: t')
  then show ?thesis by simp
qed

lemma header_byte_flags:
  "ucast ((push_bit 4 (control_type_num t) OR (ucast (f :: 4 word) :: u8)) AND 0x0F) = f"
proof -
  have m: "(0x0F :: u8) = mask 4" by (simp add: mask_eq_exp_minus_1)
  show ?thesis
    unfolding m by (intro bit_word_eqI) (auto simp: bit_simps)
qed

text \<open>Packing a valid header that fits, with its packet, writes its bytes and returns their number.\<close>

lemma mqtt_pack_fixed_header_fits:
  assumes "header_valid h"
    and "length (header_bytes h) + unat (remaining_length h) \<le> length buf"
  shows "mqtt_pack_fixed_header (Some buf) (Some h) =
    Some (int (length (header_bytes h)), overwrite buf 0 (header_bytes h))"
proof -
  let ?b = "push_bit 4 (control_type_num (control_type h)) OR (ucast (control_flags h) :: u8)"
  let ?v = "varint (unat (remaining_length h))"
  have buf: "buf \<noteq> []" and len: "length ?v < length buf"
    using assms(2) by (auto simp: header_bytes_def)
  have "pack_remaining_length (buf[0 := ?b]) 0 (length buf) (remaining_length h) =
      Some (Inr (length ?v, length buf - length ?v), overwrite (buf[0 := ?b]) 1 ?v)"
    using pack_remaining_length_fits [of "length buf" 0 "buf[0 := ?b]"] len by simp
  moreover have "poke buf 0 ?b = Some (buf[0 := ?b])" using buf by simp
  moreover have "overwrite buf 0 (header_bytes h) = overwrite (buf[0 := ?b]) 1 ?v"
    using buf by (simp add: header_bytes_def overwrite_Cons)
  ultimately show ?thesis
    using assms buf
    by (simp add: mqtt_pack_fixed_header_def header_valid_def header_bytes_def header_nibbles Let_def)
qed

text \<open>Otherwise nothing is written outside the block, and the result is 0 or the violated rule.\<close>

lemma mqtt_pack_fixed_header_invalid:
  "mqtt_fixed_header_rule_violation h \<noteq> 0 \<Longrightarrow>
   mqtt_pack_fixed_header (Some buf) (Some h) = Some (mqtt_fixed_header_rule_violation h, buf)"
  by (simp add: mqtt_pack_fixed_header_def Let_def)

lemma mqtt_pack_fixed_header_short:
  assumes "header_valid h"
    and "length buf < length (header_bytes h) + unat (remaining_length h)"
  shows "\<exists>buf'. mqtt_pack_fixed_header (Some buf) (Some h) = Some (0, buf') \<and> length buf' = length buf"
proof (cases "buf = []")
  case True
  with assms show ?thesis by (simp add: mqtt_pack_fixed_header_def header_valid_def Let_def)
next
  case buf: False
  let ?b = "push_bit 4 (control_type_num (control_type h)) OR (ucast (control_flags h) :: u8)"
  let ?v = "varint (unat (remaining_length h))"
  show ?thesis
  proof (cases "length ?v < length buf")
    case True
    have "pack_remaining_length (buf[0 := ?b]) 0 (length buf) (remaining_length h) =
        Some (Inr (length ?v, length buf - length ?v), overwrite (buf[0 := ?b]) 1 ?v)"
      using pack_remaining_length_fits [of "length buf" 0 "buf[0 := ?b]"] True by simp
    moreover have "length buf - length ?v - 1 < unat (remaining_length h)"
      using assms(2) True by (simp add: header_bytes_def)
    ultimately show ?thesis
      using assms(1) buf True
      by (simp add: mqtt_pack_fixed_header_def header_valid_def header_nibbles Let_def)
  next
    case False
    then show ?thesis
      using pack_remaining_length_short [of "length buf" 0 "buf[0 := ?b]" "remaining_length h"]
        assms(1) buf
      by (auto simp: mqtt_pack_fixed_header_def header_valid_def header_nibbles Let_def)
  qed
qed

lemma mqtt_pack_fixed_header_too_long:
  assumes "mqtt_fixed_header_rule_violation h = 0" and "2 ^ 28 \<le> unat (remaining_length h)"
    and "buf \<noteq> []"
  shows "\<exists>buf'. mqtt_pack_fixed_header (Some buf) (Some h) =
      Some (mqtt_err MQTT_ERROR_INVALID_REMAINING_LENGTH, buf') \<and> length buf' = length buf"
  using assms by (simp add: mqtt_pack_fixed_header_def Let_def)

text \<open>The unpacker reads a valid header back from any buffer that starts with its bytes.\<close>

lemma mqtt_unpack_fixed_header_bytes:
  assumes "header_valid h" and "take (length (header_bytes h)) buf = header_bytes h"
    and "length (header_bytes h) \<le> bufsz" and "bufsz \<le> length buf"
  shows "mqtt_unpack_fixed_header (Some h0) (Some buf) bufsz =
    Some (if bufsz < length (header_bytes h) + unat (remaining_length h) then 0
          else int (length (header_bytes h)), Some h)"
proof -
  let ?b = "push_bit 4 (control_type_num (control_type h)) OR (ucast (control_flags h) :: u8)"
  let ?v = "varint (unat (remaining_length h))"
  have buf: "buf \<noteq> []" "bufsz \<noteq> 0" using assms(3,4) by (auto simp: header_bytes_def)
  have nth: "buf ! j = header_bytes h ! j" if "j < length (header_bytes h)" for j
    using that assms(2) by (metis nth_take)
  have b: "buf ! 0 = ?b" using nth [of 0] by (simp add: header_bytes_def)
  have h: "h0\<lparr>control_type := control_type_of (drop_bit 4 (buf ! 0)),
      control_flags := ucast (buf ! 0 AND 0x0F), remaining_length := remaining_length h\<rparr> = h"
    unfolding b header_byte_type header_byte_flags by simp
  have "unpack_remaining_length buf 0 bufsz 0 0 =
      Some (Inr (length ?v, bufsz - length ?v), remaining_length h)"
    using unpack_remaining_length_varint [of "unat (remaining_length h)" 0 0 buf bufsz 0]
      assms nth [of "Suc j" for j]
    by (simp add: header_bytes_def header_valid_def)
  then show ?thesis
    using assms(1,3) buf h
    by (auto simp: mqtt_unpack_fixed_header_def header_bytes_def header_valid_def)
qed

text \<open>The unpacker stays inside its buffer on any input, and what it accepts is valid.\<close>

lemma unpack_remaining_length_safe:
  assumes "i + bufsz = k" and "k \<le> length buf" and "0 < bufsz" and "lshift = 7 * i" and "i \<le> 4"
    and "unat rl < 2 ^ lshift"
  shows "\<exists>r rl'. unpack_remaining_length buf i bufsz lshift rl = Some (r, rl') \<and>
    (case r of Inl rv \<Rightarrow> rv \<le> 0
     | Inr (i', bufsz') \<Rightarrow> i' + bufsz' = k \<and> 0 < bufsz' \<and> 1 \<le> i' \<and> i' \<le> 4 \<and> unat rl' < 2 ^ 28)"
  using assms
proof (induction buf i bufsz lshift rl rule: unpack_remaining_length.induct)
  case (1 buf i bufsz lshift rl)
  show ?case
  proof (cases "lshift = 28 \<or> bufsz - 1 = 0")
    case True
    then show ?thesis by (auto simp: unpack_remaining_length.simps [of buf i])
  next
    case False
    let ?b = "buf ! (i + 1)"
    let ?rl = "rl + push_bit lshift (ucast (?b AND 0x7F))"
    have i: "i + 1 < length buf" "i \<le> 3" using False "1.prems" by auto
    have "(ucast (?b AND 0x7F) :: u32) = of_nat (unat ?b mod 128)"
      by (metis of_nat_unat unat_and_0x7F)
    then have push: "push_bit lshift (ucast (?b AND 0x7F) :: u32) = of_nat (unat ?b mod 128 * 2 ^ lshift)"
      by (simp only: push_bit_of_nat_word)
    have p: "(2::nat) ^ (lshift + 7) \<le> 2 ^ 28"
      using i(2) "1.prems"(4) by (intro power_increasing) auto
    have "unat ?rl \<le> unat rl + unat ?b mod 128 * 2 ^ lshift"
      by (simp only: push) (rule unat_add_of_nat_le)
    also have "\<dots> < (1 + unat ?b mod 128) * 2 ^ lshift" using "1.prems"(6) by simp
    also have "\<dots> \<le> 128 * 2 ^ lshift" by (intro mult_le_mono1) simp
    finally have rl: "unat ?rl < 2 ^ (lshift + 7)" by (simp add: power_add mult.commute)
    have IH: "?b AND 0x80 \<noteq> 0 \<Longrightarrow> \<exists>r rl'. 
        unpack_remaining_length buf (i + 1) (bufsz - 1) (lshift + 7) ?rl = Some (r, rl') \<and>
        (case r of Inl rv \<Rightarrow> rv \<le> 0
         | Inr (i', bufsz') \<Rightarrow> i' + bufsz' = k \<and> 0 < bufsz' \<and> 1 \<le> i' \<and> i' \<le> 4 \<and> unat rl' < 2 ^ 28)"
    proof -
      assume c: "?b AND 0x80 \<noteq> 0"
      have "peek buf (i + 1) = Some ?b" using i by simp
      moreover have "i + 1 + (bufsz - 1) = k" "0 < bufsz - 1" "lshift + 7 = 7 * (i + 1)" "i + 1 \<le> 4"
        using False "1.prems"(1,4) i(2) by auto
      ultimately show ?thesis
        using False c rl "1.prems"(2) by (intro "1.IH" [of ?b ?rl]) auto
    qed
    have rl28: "unat ?rl < 2 ^ 28" using rl p by (rule less_le_trans)
    have sums: "i + 1 + (bufsz - 1) = k" "0 < bufsz - 1" using False "1.prems"(1) by auto
    show ?thesis
    proof (cases "?b AND 0x80 \<noteq> 0")
      case True
      with False i IH [OF True] show ?thesis
        by (simp add: unpack_remaining_length.simps [of buf i] Let_def)
    next
      case stop: False
      have "unpack_remaining_length buf i bufsz lshift rl = Some (Inr (i + 1, bufsz - 1), ?rl)"
        using False stop i by (simp add: unpack_remaining_length.simps [of buf i] Let_def)
      with sums rl28 i(2) show ?thesis by (simp del: power_numeral)
    qed
  qed
qed

lemma mqtt_unpack_fixed_header_safe:
  assumes "bufsz \<le> length buf"
  shows "\<exists>rv h. mqtt_unpack_fixed_header (Some h0) (Some buf) bufsz = Some (rv, Some h) \<and>
    (0 < rv \<longrightarrow> header_valid h \<and> 2 \<le> rv \<and> rv \<le> 5 \<and> nat rv + unat (remaining_length h) \<le> bufsz)"
proof (cases "bufsz = 0")
  case True
  then show ?thesis by (simp add: mqtt_unpack_fixed_header_def)
next
  case False
  obtain r rl where r: "unpack_remaining_length buf 0 bufsz 0 0 = Some (r, rl)"
    and inv: "case r of Inl rv \<Rightarrow> rv \<le> 0
      | Inr (i, bufsz') \<Rightarrow> i + bufsz' = bufsz \<and> 0 < bufsz' \<and> 1 \<le> i \<and> i \<le> 4 \<and> unat rl < 2 ^ 28"
    using unpack_remaining_length_safe [of 0 bufsz bufsz buf 0 0] False assms by auto
  have "buf \<noteq> []" using False assms by auto
  with False r inv show ?thesis
    using rule_violation_le_0
    by (cases r) (auto simp: mqtt_unpack_fixed_header_def header_valid_def Let_def not_less nat_add_distrib)
qed

end
