(* ===== verification/Mqtt_Requests.thy ===== *)
theory Mqtt_Requests
  imports Mqtt_Wire
begin

text \<open>
  The packers of \<open>src/mqtt.c\<close>, one per control packet a client sends. Each computes the remaining
  length, packs the fixed header, checks that the rest fits, and writes variable header and
  payload through an advancing pointer.

  Each packer is then related to the bytes the MQTT specification prescribes: it writes exactly
  that packet when it fits into the buffer, and returns 0 when it does not.
\<close>

subsection \<open>Flags\<close>

definition MQTT_CONNECT_RESERVED :: u8 where "MQTT_CONNECT_RESERVED = 1"
definition MQTT_CONNECT_CLEAN_SESSION :: u8 where "MQTT_CONNECT_CLEAN_SESSION = 2"
definition MQTT_CONNECT_WILL_FLAG :: u8 where "MQTT_CONNECT_WILL_FLAG = 4"
definition MQTT_CONNECT_WILL_RETAIN :: u8 where "MQTT_CONNECT_WILL_RETAIN = 32"
definition MQTT_CONNECT_PASSWORD :: u8 where "MQTT_CONNECT_PASSWORD = 64"
definition MQTT_CONNECT_USER_NAME :: u8 where "MQTT_CONNECT_USER_NAME = 128"

definition MQTT_PUBLISH_DUP :: u8 where "MQTT_PUBLISH_DUP = 8"
definition MQTT_PUBLISH_QOS_1 :: u8 where "MQTT_PUBLISH_QOS_1 = push_bit 1 1 AND 0x06"
definition MQTT_PUBLISH_QOS_MASK :: u8 where "MQTT_PUBLISH_QOS_MASK = push_bit 1 3 AND 0x06"
definition MQTT_PUBLISH_RETAIN :: u8 where "MQTT_PUBLISH_RETAIN = 0x01"

definition MQTT_PROTOCOL_LEVEL :: u8 where "MQTT_PROTOCOL_LEVEL = 0x04"
definition MQTT_SUBSCRIBE_REQUEST_MAX_NUM_TOPICS :: nat where
  "MQTT_SUBSCRIBE_REQUEST_MAX_NUM_TOPICS = 8"
definition MQTT_UNSUBSCRIBE_REQUEST_MAX_NUM_TOPICS :: nat where
  "MQTT_UNSUBSCRIBE_REQUEST_MAX_NUM_TOPICS = 8"

lemmas flag_defs = MQTT_CONNECT_RESERVED_def MQTT_CONNECT_CLEAN_SESSION_def
  MQTT_CONNECT_WILL_FLAG_def MQTT_CONNECT_WILL_RETAIN_def MQTT_CONNECT_PASSWORD_def
  MQTT_CONNECT_USER_NAME_def MQTT_PUBLISH_DUP_def MQTT_PUBLISH_QOS_1_def
  MQTT_PUBLISH_QOS_MASK_def MQTT_PUBLISH_RETAIN_def MQTT_PROTOCOL_LEVEL_def

text \<open>The block a packer leaves when it returns before its first write.\<close>

definition untouched :: "u8 list option \<Rightarrow> u8 list" where
  "untouched bufp = (case bufp of None \<Rightarrow> [] | Some buf \<Rightarrow> buf)"

text \<open>
  The part that the packers have in common: pack the fixed header and return if that returned 0
  or an error, return 0 if the rest of the packet does not fit, and otherwise write it and return
  the distance the pointer has come.
\<close>

definition pack_packet ::
  "u8 list option \<Rightarrow> mqtt_fixed_header \<Rightarrow> (u8 list \<times> nat \<Rightarrow> (u8 list \<times> nat) option) \<Rightarrow> packed"
where
  "pack_packet bufp fixed_header body = do {
     (rv, buf) \<leftarrow> mqtt_pack_fixed_header bufp (Some fixed_header);
     if rv \<le> 0 then Some (rv, buf)
     else if length buf - nat rv < unat (remaining_length fixed_header) then Some (0, buf)
     else do {
       s \<leftarrow> body (buf, nat rv);
       Some (int (snd s), fst s)
     }
   }"

subsection \<open>CONNECT\<close>

definition mqtt_pack_connection_request ::
  "u8 list option \<Rightarrow> cstring option \<Rightarrow> cstring option \<Rightarrow> u8 list option \<Rightarrow> nat \<Rightarrow>
   cstring option \<Rightarrow> cstring option \<Rightarrow> u8 \<Rightarrow> u16 \<Rightarrow> packed" where
  "mqtt_pack_connection_request bufp client_id will_topic will_message will_message_size
     user_name password connect_flags keep_alive =
   (let flags = connect_flags AND NOT MQTT_CONNECT_RESERVED;
        rl = (10 :: nat);
        client_id = (case client_id of None \<Rightarrow> [] | Some c \<Rightarrow> c)
    in if client_id = [] \<and> flags AND MQTT_CONNECT_CLEAN_SESSION = 0
       then Some (mqtt_err MQTT_ERROR_CLEAN_SESSION_IS_REQUIRED, untouched bufp)
       else
    let rl = rl + mqtt_packed_cstrlen client_id;
        will = (case will_topic of
            Some topic \<Rightarrow>
              let flags = flags OR MQTT_CONNECT_WILL_FLAG;
                  rl = rl + mqtt_packed_cstrlen topic
              in if will_message = None
                 then Inl (mqtt_err MQTT_ERROR_CONNECT_NULL_WILL_MESSAGE)
                 else let rl = rl + 2 + will_message_size;
                          temp = flags AND 0x18
                      in if temp = 0x18
                         then Inl (mqtt_err MQTT_ERROR_CONNECT_FORBIDDEN_WILL_QOS)
                         else Inr (flags, rl)
          | None \<Rightarrow>
              Inr (flags AND NOT MQTT_CONNECT_WILL_FLAG AND NOT 0x18
                     AND NOT MQTT_CONNECT_WILL_RETAIN, rl))
    in case will of
         Inl rv \<Rightarrow> Some (rv, untouched bufp)
       | Inr (flags, rl) \<Rightarrow>
    let (flags, rl) = (case user_name of
            Some u \<Rightarrow> (flags OR MQTT_CONNECT_USER_NAME, rl + mqtt_packed_cstrlen u)
          | None \<Rightarrow> (flags AND NOT MQTT_CONNECT_USER_NAME, rl));
        (flags, rl) = (case password of
            Some p \<Rightarrow> (flags OR MQTT_CONNECT_PASSWORD, rl + mqtt_packed_cstrlen p)
          | None \<Rightarrow> (flags AND NOT MQTT_CONNECT_PASSWORD, rl));
        h = \<lparr>control_type = MQTT_CONTROL_CONNECT, control_flags = 0, remaining_length = of_nat rl\<rparr>
    in pack_packet bufp h (\<lambda>s. do {
        s \<leftarrow> emit [0x00, 0x04, 0x4D, 0x51, 0x54, 0x54, MQTT_PROTOCOL_LEVEL, flags] s;
        s \<leftarrow> mqtt_pack_uint16 keep_alive s;
        s \<leftarrow> mqtt_pack_str client_id s;
        s \<leftarrow> (if flags AND MQTT_CONNECT_WILL_FLAG \<noteq> 0 then do {
                topic \<leftarrow> will_topic;
                s \<leftarrow> mqtt_pack_str topic s;
                s \<leftarrow> mqtt_pack_uint16 (of_nat will_message_size) s;
                msg \<leftarrow> will_message;
                bytes \<leftarrow> mem_block msg 0 will_message_size;
                emit bytes s
              } else Some s);
        s \<leftarrow> (if flags AND MQTT_CONNECT_USER_NAME \<noteq> 0
              then Option.bind user_name (\<lambda>u. mqtt_pack_str u s) else Some s);
        if flags AND MQTT_CONNECT_PASSWORD \<noteq> 0
        then Option.bind password (\<lambda>p. mqtt_pack_str p s) else Some s
      }))"

subsection \<open>DISCONNECT and PINGREQ\<close>

definition mqtt_pack_disconnect :: "u8 list option \<Rightarrow> packed" where
  "mqtt_pack_disconnect bufp =
     mqtt_pack_fixed_header bufp (Some \<lparr>control_type = MQTT_CONTROL_DISCONNECT,
       control_flags = 0, remaining_length = 0\<rparr>)"

definition mqtt_pack_ping_request :: "u8 list option \<Rightarrow> packed" where
  "mqtt_pack_ping_request bufp =
     mqtt_pack_fixed_header bufp (Some \<lparr>control_type = MQTT_CONTROL_PINGREQ,
       control_flags = 0, remaining_length = 0\<rparr>)"

subsection \<open>PUBLISH\<close>

definition mqtt_pack_publish_request ::
  "u8 list option \<Rightarrow> cstring option \<Rightarrow> u16 \<Rightarrow> u8 list \<Rightarrow> nat \<Rightarrow> u8 \<Rightarrow> packed" where
  "mqtt_pack_publish_request bufp topic_name packet_id application_message
     application_message_size publish_flags =
   (case (bufp, topic_name) of
      (Some _, Some topic) \<Rightarrow>
        (let inspected_qos = drop_bit 1 (publish_flags AND MQTT_PUBLISH_QOS_MASK);
             rl = (of_nat (mqtt_packed_cstrlen topic) :: u32);
             rl = (if inspected_qos > 0 then rl + 2 else rl);
             rl = rl + of_nat application_message_size;
             publish_flags =
               (if inspected_qos = 0 then publish_flags AND NOT MQTT_PUBLISH_DUP else publish_flags)
         in if inspected_qos = 3
            then Some (mqtt_err MQTT_ERROR_PUBLISH_FORBIDDEN_QOS, untouched bufp)
            else pack_packet bufp \<lparr>control_type = MQTT_CONTROL_PUBLISH,
                control_flags = ucast publish_flags, remaining_length = rl\<rparr> (\<lambda>s. do {
                s \<leftarrow> mqtt_pack_str topic s;
                s \<leftarrow> (if inspected_qos > 0 then mqtt_pack_uint16 packet_id s else Some s);
                bytes \<leftarrow> mem_block application_message 0 application_message_size;
                emit bytes s
              }))
    | _ \<Rightarrow> Some (mqtt_err MQTT_ERROR_NULLPTR, untouched bufp))"

subsection \<open>PUBACK, PUBREC, PUBREL, PUBCOMP\<close>

definition mqtt_pack_pubxxx_request ::
  "u8 list option \<Rightarrow> MQTTControlPacketType \<Rightarrow> u16 \<Rightarrow> packed" where
  "mqtt_pack_pubxxx_request bufp ctype packet_id =
   (case bufp of
      None \<Rightarrow> Some (mqtt_err MQTT_ERROR_NULLPTR, [])
    | Some _ \<Rightarrow> pack_packet bufp \<lparr>control_type = ctype,
        control_flags = (if ctype = MQTT_CONTROL_PUBREL then 0x02 else 0),
        remaining_length = 2\<rparr> (mqtt_pack_uint16 packet_id))"

subsection \<open>SUBSCRIBE and UNSUBSCRIBE\<close>

text \<open>
  The variable arguments up to the null topic are a list. The loop that collects them gives up
  as soon as the count reaches the maximum.
\<close>

fun subscribe_args :: "(cstring \<times> u32) list \<Rightarrow> (cstring \<times> u8) list \<Rightarrow> (cstring \<times> u8) list option"
where
  "subscribe_args [] subs = Some subs"
| "subscribe_args ((topic, qos) # args) subs =
     (let subs = subs @ [(topic, ucast qos)]
      in if length subs \<ge> MQTT_SUBSCRIBE_REQUEST_MAX_NUM_TOPICS then None
         else subscribe_args args subs)"

fun pack_subs :: "(cstring \<times> u8) list \<Rightarrow> u8 list \<times> nat \<Rightarrow> (u8 list \<times> nat) option" where
  "pack_subs [] s = Some s"
| "pack_subs ((topic, max_qos) # subs) s = do {
     s \<leftarrow> mqtt_pack_str topic s;
     s \<leftarrow> emit [max_qos] s;
     pack_subs subs s
   }"

definition mqtt_pack_subscribe_request ::
  "u8 list option \<Rightarrow> u32 \<Rightarrow> (cstring \<times> u32) list \<Rightarrow> packed" where
  "mqtt_pack_subscribe_request bufp packet_id args =
   (case subscribe_args args [] of
      None \<Rightarrow> Some (mqtt_err MQTT_ERROR_SUBSCRIBE_TOO_MANY_TOPICS, untouched bufp)
    | Some subs \<Rightarrow>
        let rl = fold (\<lambda>(topic, q) rl. rl + of_nat (mqtt_packed_cstrlen topic + 1)) subs (2 :: u32)
        in pack_packet bufp \<lparr>control_type = MQTT_CONTROL_SUBSCRIBE,
             control_flags = 2, remaining_length = rl\<rparr> (\<lambda>s. do {
             s \<leftarrow> mqtt_pack_uint16 (ucast packet_id) s;
             pack_subs subs s
           }))"

fun unsubscribe_args :: "cstring list \<Rightarrow> cstring list \<Rightarrow> cstring list option" where
  "unsubscribe_args [] subs = Some subs"
| "unsubscribe_args (topic # args) subs =
     (let subs = subs @ [topic]
      in if length subs \<ge> MQTT_UNSUBSCRIBE_REQUEST_MAX_NUM_TOPICS then None
         else unsubscribe_args args subs)"

fun pack_topics :: "cstring list \<Rightarrow> u8 list \<times> nat \<Rightarrow> (u8 list \<times> nat) option" where
  "pack_topics [] s = Some s"
| "pack_topics (topic # topics) s = Option.bind (mqtt_pack_str topic s) (pack_topics topics)"

definition mqtt_pack_unsubscribe_request ::
  "u8 list option \<Rightarrow> u32 \<Rightarrow> cstring list \<Rightarrow> packed" where
  "mqtt_pack_unsubscribe_request bufp packet_id args =
   (case unsubscribe_args args [] of
      None \<Rightarrow> Some (mqtt_err MQTT_ERROR_UNSUBSCRIBE_TOO_MANY_TOPICS, untouched bufp)
    | Some topics \<Rightarrow>
        let rl = fold (\<lambda>topic rl. rl + of_nat (mqtt_packed_cstrlen topic)) topics (2 :: u32)
        in pack_packet bufp \<lparr>control_type = MQTT_CONTROL_UNSUBSCRIBE,
             control_flags = 2, remaining_length = rl\<rparr> (\<lambda>s. do {
             s \<leftarrow> mqtt_pack_uint16 (ucast packet_id) s;
             pack_topics topics s
           }))"

subsection \<open>Packers write the packets of the specification\<close>

lemma emit_append: "emit (as @ bs) s = Option.bind (emit as s) (emit bs)"
  by (induction as s rule: emit.induct) (auto split: Option.bind_splits)

lemma emit_append_fun: "emit (as @ bs) = (\<lambda>s. Option.bind (emit as s) (emit bs))"
  by (rule ext) (rule emit_append)

text \<open>A 16-bit integer and a string of the wire format.\<close>

definition uint16_bytes :: "u16 \<Rightarrow> u8 list" where
  "uint16_bytes x = [ucast (drop_bit 8 x), ucast x]"

definition str_bytes :: "cstring \<Rightarrow> u8 list" where
  "str_bytes t = uint16_bytes (of_nat (length t)) @ t"

lemma length_uint16_bytes [simp]: "length (uint16_bytes x) = 2"
  by (simp add: uint16_bytes_def)

lemma length_str_bytes [simp]: "length (str_bytes t) = mqtt_packed_cstrlen t"
  by (simp add: str_bytes_def mqtt_packed_cstrlen_def)

lemma mqtt_pack_uint16_emit: "mqtt_pack_uint16 x s = emit (uint16_bytes x) s"
  by (simp add: mqtt_pack_uint16_def uint16_bytes_def)

lemma mqtt_pack_str_emit: "length t < 2 ^ 16 \<Longrightarrow> mqtt_pack_str t s = emit (str_bytes t) s"
  by (simp add: mqtt_pack_str_def str_bytes_def emit_append mqtt_pack_uint16_emit unat_of_nat)

lemma length_header_bytes_pos [simp]: "0 < length (header_bytes h)" "header_bytes h \<noteq> []"
  by (simp_all add: header_bytes_def)

text \<open>The contract of a packer of the packet \<open>pkt\<close> on the block \<open>buf\<close>.\<close>

definition packs :: "packed \<Rightarrow> u8 list \<Rightarrow> u8 list \<Rightarrow> bool" where
  "packs r buf pkt \<longleftrightarrow>
     (if length pkt \<le> length buf then r = Some (int (length pkt), overwrite buf 0 pkt)
      else \<exists>buf'. r = Some (0, buf') \<and> length buf' = length buf)"

lemma pack_packet_packs:
  assumes "header_valid h" and "length body = unat (remaining_length h)" and "\<And>s. w s = emit body s"
  shows "packs (pack_packet (Some buf) h w) buf (header_bytes h @ body)"
proof (cases "length (header_bytes h) + unat (remaining_length h) \<le> length buf")
  case True
  let ?n = "length (header_bytes h)"
  have "pack_packet (Some buf) h w = do {
      s \<leftarrow> emit body (overwrite buf 0 (header_bytes h), ?n); Some (int (snd s), fst s) }"
    using mqtt_pack_fixed_header_fits [OF assms(1) True] True
    by (auto simp: pack_packet_def assms(3))
  with True assms(2) show ?thesis
    by (simp add: packs_def emit_fits overwrite_append)
next
  case False
  then obtain buf' where "mqtt_pack_fixed_header (Some buf) (Some h) = Some (0, buf')"
      and "length buf' = length buf"
    using mqtt_pack_fixed_header_short [OF assms(1)] by (metis not_le)
  with False assms(2) show ?thesis by (simp add: packs_def pack_packet_def)
qed


text \<open>
  The weaker contract of any packer on any arguments: a defined result, nothing written outside
  the block, and never more bytes reported than the block has.
\<close>

definition packer_safe :: "packed \<Rightarrow> u8 list \<Rightarrow> bool" where
  "packer_safe r buf \<longleftrightarrow>
     (\<exists>rv buf'. r = Some (rv, buf') \<and> length buf' = length buf \<and> rv \<le> int (length buf))"

lemma packer_safeI: "length buf' = length buf \<Longrightarrow> rv \<le> int (length buf) \<Longrightarrow> packer_safe (Some (rv, buf')) buf"
  by (simp add: packer_safe_def)

lemma packs_safe: "packs r buf pkt \<Longrightarrow> packer_safe r buf"
  by (auto simp: packs_def packer_safe_def split: if_splits)

lemma mqtt_pack_fixed_header_cases:
  obtains (fits) "header_valid h" "length (header_bytes h) + unat (remaining_length h) \<le> length buf"
      "mqtt_pack_fixed_header (Some buf) (Some h) =
         Some (int (length (header_bytes h)), overwrite buf 0 (header_bytes h))"
  | (stops) rv buf' where "mqtt_pack_fixed_header (Some buf) (Some h) = Some (rv, buf')"
      "rv \<le> 0" "length buf' = length buf"
proof (cases "mqtt_fixed_header_rule_violation h \<noteq> 0")
  case True
  then show ?thesis
    using stops mqtt_pack_fixed_header_invalid rule_violation_le_0 by metis
next
  case rule: False
  show ?thesis
  proof (cases "header_valid h")
    case True
    then show ?thesis
      using fits stops mqtt_pack_fixed_header_fits mqtt_pack_fixed_header_short
      by (metis not_le order_refl)
  next
    case False
    with rule have long: "2 ^ 28 \<le> unat (remaining_length h)" by (simp add: header_valid_def)
    show ?thesis
    proof (cases "buf = []")
      case True
      then show ?thesis using stops [of 0 buf] rule by (simp add: mqtt_pack_fixed_header_def)
    next
      case False
      then show ?thesis
        using stops mqtt_pack_fixed_header_too_long [of h buf] rule long mqtt_err_neg
        by (metis MQTTErrors.distinct less_imp_le)
    qed
  qed
qed

lemma pack_packet_safe:
  assumes "\<And>s. w s = emit body s" and "length body \<le> unat (remaining_length h)"
  shows "packer_safe (pack_packet (Some buf) h w) buf"
proof (cases rule: mqtt_pack_fixed_header_cases [of h buf])
  case fits
  let ?n = "length (header_bytes h)"
  have n: "?n + length body \<le> length buf" using fits(2) assms(2) by simp
  have "pack_packet (Some buf) h w = do {
      s \<leftarrow> emit body (overwrite buf 0 (header_bytes h), ?n); Some (int (snd s), fst s) }"
    using fits by (auto simp: pack_packet_def assms(1))
  also have "\<dots> = Some (int (?n + length body),
      overwrite (overwrite buf 0 (header_bytes h)) ?n body)"
    using n by (simp add: emit_fits)
  finally show ?thesis using n by (simp add: packer_safe_def)
next
  case (stops rv buf')
  then show ?thesis by (simp add: pack_packet_def packer_safe_def)
qed


subsection \<open>PUBLISH\<close>

definition publish_header :: "cstring \<Rightarrow> nat \<Rightarrow> u8 \<Rightarrow> mqtt_fixed_header" where
  "publish_header topic msz flags =
     (let qos = drop_bit 1 (flags AND MQTT_PUBLISH_QOS_MASK)
      in \<lparr>control_type = MQTT_CONTROL_PUBLISH,
          control_flags = ucast (if qos = 0 then flags AND NOT MQTT_PUBLISH_DUP else flags),
          remaining_length =
            of_nat (mqtt_packed_cstrlen topic + (if qos > 0 then 2 else 0) + msz)\<rparr>)"

definition publish_body :: "cstring \<Rightarrow> u16 \<Rightarrow> u8 list \<Rightarrow> nat \<Rightarrow> u8 \<Rightarrow> u8 list" where
  "publish_body topic packet_id msg msz flags =
     str_bytes topic
     @ (if drop_bit 1 (flags AND MQTT_PUBLISH_QOS_MASK) > 0 then uint16_bytes packet_id else [])
     @ take msz msg"

definition publish_packet :: "cstring \<Rightarrow> u16 \<Rightarrow> u8 list \<Rightarrow> nat \<Rightarrow> u8 \<Rightarrow> u8 list" where
  "publish_packet topic packet_id msg msz flags =
     header_bytes (publish_header topic msz flags) @ publish_body topic packet_id msg msz flags"

lemma mem_block_all: "n \<le> length m \<Longrightarrow> mem_block m 0 n = Some (take n m)"
  by (simp add: mem_block_def)

lemma publish_pack_packet:
  assumes "drop_bit 1 (flags AND MQTT_PUBLISH_QOS_MASK) \<noteq> 3"
  shows "mqtt_pack_publish_request (Some buf) (Some topic) packet_id msg msz flags =
    pack_packet (Some buf) (publish_header topic msz flags) (\<lambda>s. do {
      s \<leftarrow> mqtt_pack_str topic s;
      s \<leftarrow> (if drop_bit 1 (flags AND MQTT_PUBLISH_QOS_MASK) > 0
            then mqtt_pack_uint16 packet_id s else Some s);
      bytes \<leftarrow> mem_block msg 0 msz;
      emit bytes s })"
  using assms by (simp add: mqtt_pack_publish_request_def publish_header_def Let_def add.assoc)

lemma publish_header_ok:
  assumes "mqtt_packed_cstrlen topic + 2 + msz < 2 ^ 28" and "msz \<le> length msg"
  shows "header_valid (publish_header topic msz flags)"
    and "length (publish_body topic pid msg msz flags) =
      unat (remaining_length (publish_header topic msz flags))"
proof -
  have rl: "unat (remaining_length (publish_header topic msz flags)) =
      mqtt_packed_cstrlen topic + (if drop_bit 1 (flags AND MQTT_PUBLISH_QOS_MASK) > 0 then 2 else 0) + msz"
    using assms(1) by (simp add: publish_header_def Let_def unat_of_nat del: of_nat_add)
  show "header_valid (publish_header topic msz flags)"
    using assms(1) unfolding header_valid_def rl
    by (simp add: mqtt_fixed_header_rule_violation_def publish_header_def Let_def)
  show "length (publish_body topic pid msg msz flags) =
      unat (remaining_length (publish_header topic msz flags))"
    unfolding rl using assms(2) by (simp add: publish_body_def)
qed

lemma publish_packs:
  assumes "length topic < 2 ^ 16" and "msz \<le> length msg"
    and "mqtt_packed_cstrlen topic + 2 + msz < 2 ^ 28"
    and "drop_bit 1 (flags AND MQTT_PUBLISH_QOS_MASK) \<noteq> 3"
  shows "packs (mqtt_pack_publish_request (Some buf) (Some topic) packet_id msg msz flags) buf
    (publish_packet topic packet_id msg msz flags)"
  unfolding publish_packet_def publish_pack_packet [OF assms(4)]
proof (rule pack_packet_packs)
  show "header_valid (publish_header topic msz flags)"
    by (rule publish_header_ok(1) [OF assms(3,2)])
  show "length (publish_body topic packet_id msg msz flags) =
      unat (remaining_length (publish_header topic msz flags))"
    by (rule publish_header_ok(2) [OF assms(3,2)])
  show "(do { s \<leftarrow> mqtt_pack_str topic s;
      s \<leftarrow> (if drop_bit 1 (flags AND MQTT_PUBLISH_QOS_MASK) > 0
            then mqtt_pack_uint16 packet_id s else Some s);
      bytes \<leftarrow> mem_block msg 0 msz;
      emit bytes s }) = emit (publish_body topic packet_id msg msz flags) s" for s
    using assms(1,2)
    by (simp add: publish_body_def emit_append_fun mqtt_pack_str_emit mqtt_pack_uint16_emit mem_block_all)
qed

lemma publish_forbidden_qos:
  "drop_bit 1 (flags AND MQTT_PUBLISH_QOS_MASK) = 3 \<Longrightarrow>
   mqtt_pack_publish_request (Some buf) (Some topic) packet_id msg msz flags =
     Some (mqtt_err MQTT_ERROR_PUBLISH_FORBIDDEN_QOS, buf)"
  by (simp add: mqtt_pack_publish_request_def untouched_def)

subsection \<open>Acknowledgements, PINGREQ and DISCONNECT\<close>

definition pubxxx_packet :: "MQTTControlPacketType \<Rightarrow> u16 \<Rightarrow> u8 list" where
  "pubxxx_packet ctype packet_id =
     [push_bit 4 (control_type_num ctype) OR (if ctype = MQTT_CONTROL_PUBREL then 2 else 0), 2]
     @ uint16_bytes packet_id"

lemma pubxxx_packs:
  assumes "ctype \<in> {MQTT_CONTROL_PUBACK, MQTT_CONTROL_PUBREC, MQTT_CONTROL_PUBREL, MQTT_CONTROL_PUBCOMP}"
  shows "packs (mqtt_pack_pubxxx_request (Some buf) ctype packet_id) buf (pubxxx_packet ctype packet_id)"
proof -
  let ?h = "\<lparr>control_type = ctype, control_flags = (if ctype = MQTT_CONTROL_PUBREL then 0x02 else 0),
        remaining_length = 2\<rparr>"
  have "header_valid ?h" and "header_bytes ?h =
      [push_bit 4 (control_type_num ctype) OR (if ctype = MQTT_CONTROL_PUBREL then 2 else 0), 2]"
    using assms
    by (auto simp: header_valid_def mqtt_fixed_header_rule_violation_def header_bytes_def varint.simps)
  then show ?thesis
    using pack_packet_packs [of ?h "uint16_bytes packet_id" "mqtt_pack_uint16 packet_id" buf]
    by (simp add: mqtt_pack_pubxxx_request_def pubxxx_packet_def mqtt_pack_uint16_emit)
qed

lemma bare_header_packs:
  assumes "header_valid h" and "remaining_length h = 0"
  shows "packs (mqtt_pack_fixed_header (Some buf) (Some h)) buf (header_bytes h)"
  using mqtt_pack_fixed_header_fits [OF assms(1), of buf] mqtt_pack_fixed_header_short [OF assms(1), of buf]
    assms(2)
  by (cases "length (header_bytes h) \<le> length buf") (auto simp: packs_def)

lemma ping_packs: "packs (mqtt_pack_ping_request (Some buf)) buf [0xC0, 0]"
  using bare_header_packs [of "\<lparr>control_type = MQTT_CONTROL_PINGREQ, control_flags = 0, remaining_length = 0\<rparr>" buf]
  by (simp add: mqtt_pack_ping_request_def header_valid_def mqtt_fixed_header_rule_violation_def
      header_bytes_def varint.simps)

lemma disconnect_packs: "packs (mqtt_pack_disconnect (Some buf)) buf [0xE0, 0]"
  using bare_header_packs [of "\<lparr>control_type = MQTT_CONTROL_DISCONNECT, control_flags = 0, remaining_length = 0\<rparr>" buf]
  by (simp add: mqtt_pack_disconnect_def header_valid_def mqtt_fixed_header_rule_violation_def
      header_bytes_def varint.simps)


subsection \<open>CONNECT\<close>

text \<open>
  The flags byte that is sent: the reserved bit cleared, the will bits cleared unless there is a
  will, and the will, user name and password bits set exactly when the argument is given.
\<close>

definition connect_flags_sent ::
  "cstring option \<Rightarrow> cstring option \<Rightarrow> cstring option \<Rightarrow> u8 \<Rightarrow> u8" where
  "connect_flags_sent will_topic user_name password flags =
     (let flags = flags AND NOT MQTT_CONNECT_RESERVED;
          flags = (if will_topic = None
            then flags AND NOT MQTT_CONNECT_WILL_FLAG AND NOT 0x18 AND NOT MQTT_CONNECT_WILL_RETAIN
            else flags OR MQTT_CONNECT_WILL_FLAG);
          flags = (if user_name = None then flags AND NOT MQTT_CONNECT_USER_NAME
            else flags OR MQTT_CONNECT_USER_NAME)
      in if password = None then flags AND NOT MQTT_CONNECT_PASSWORD
         else flags OR MQTT_CONNECT_PASSWORD)"

definition opt_str :: "cstring option \<Rightarrow> u8 list" where
  "opt_str t = (case t of None \<Rightarrow> [] | Some t \<Rightarrow> str_bytes t)"

definition connect_name_level_flags :: "u8 \<Rightarrow> u8 list" where
  "connect_name_level_flags flags = [0x00, 0x04, 0x4D, 0x51, 0x54, 0x54, MQTT_PROTOCOL_LEVEL, flags]"

lemma length_connect_name_level_flags [simp]: "length (connect_name_level_flags flags) = 8"
  by (simp add: connect_name_level_flags_def)

definition connect_body ::
  "cstring \<Rightarrow> (cstring \<times> u8 list) option \<Rightarrow> cstring option \<Rightarrow> cstring option \<Rightarrow> u8 \<Rightarrow> u16 \<Rightarrow> u8 list"
where
  "connect_body client_id will user_name password flags keep_alive =
     connect_name_level_flags (connect_flags_sent (map_option fst will) user_name password flags)
     @ uint16_bytes keep_alive @ str_bytes client_id
     @ (case will of None \<Rightarrow> []
        | Some (topic, msg) \<Rightarrow> str_bytes topic @ uint16_bytes (of_nat (length msg)) @ msg)
     @ opt_str user_name @ opt_str password"

definition connect_packet ::
  "cstring \<Rightarrow> (cstring \<times> u8 list) option \<Rightarrow> cstring option \<Rightarrow> cstring option \<Rightarrow> u8 \<Rightarrow> u16 \<Rightarrow> u8 list"
where
  "connect_packet client_id will user_name password flags keep_alive =
     (let body = connect_body client_id will user_name password flags keep_alive
      in header_bytes \<lparr>control_type = MQTT_CONTROL_CONNECT, control_flags = 0,
           remaining_length = of_nat (length body)\<rparr> @ body)"

lemma u8_test_bit: "(x :: u8) AND 2 ^ n = 0 \<longleftrightarrow> \<not> bit x n"
  by (rule and_exp_eq_0_iff_not_bit)

lemma connect_flags_sent_bits:
  "connect_flags_sent will user password flags AND MQTT_CONNECT_WILL_FLAG = 0 \<longleftrightarrow> will = None"
  "connect_flags_sent will user password flags AND MQTT_CONNECT_USER_NAME = 0 \<longleftrightarrow> user = None"
  "connect_flags_sent will user password flags AND MQTT_CONNECT_PASSWORD = 0 \<longleftrightarrow> password = None"
  "\<not> bit (connect_flags_sent will user password flags) 0"
proof -
  let ?f = "connect_flags_sent will user password flags"
  have b: "bit ?f 2 \<longleftrightarrow> will \<noteq> None" "bit ?f 7 \<longleftrightarrow> user \<noteq> None" "bit ?f 6 \<longleftrightarrow> password \<noteq> None"
    "\<not> bit ?f 0"
    by (simp_all add: connect_flags_sent_def Let_def flag_defs bit_simps)
  show "?f AND MQTT_CONNECT_WILL_FLAG = 0 \<longleftrightarrow> will = None"
    using b(1) u8_test_bit [of ?f 2] by (simp add: flag_defs)
  show "?f AND MQTT_CONNECT_USER_NAME = 0 \<longleftrightarrow> user = None"
    using b(2) u8_test_bit [of ?f 7] by (simp add: flag_defs)
  show "?f AND MQTT_CONNECT_PASSWORD = 0 \<longleftrightarrow> password = None"
    using b(3) u8_test_bit [of ?f 6] by (simp add: flag_defs)
  show "\<not> bit ?f 0" by (rule b(4))
qed

lemma will_qos_unchanged:
  "(flags AND NOT MQTT_CONNECT_RESERVED OR MQTT_CONNECT_WILL_FLAG) AND 0x18 = flags AND (0x18 :: u8)"
proof (rule bit_word_eqI)
  fix n assume "n < LENGTH(8)"
  then consider "n = 0" | "n = 1" | "n = 2" | "n = 3" | "n = 4" | "n = 5" | "n = 6" | "n = 7"
    by fastforce
  then show "bit ((flags AND NOT MQTT_CONNECT_RESERVED OR MQTT_CONNECT_WILL_FLAG) AND 0x18) n =
      bit (flags AND 0x18) n"
    by cases (simp_all add: bit_simps flag_defs)
qed

lemma clean_session_unchanged:
  "(flags AND NOT MQTT_CONNECT_RESERVED) AND MQTT_CONNECT_CLEAN_SESSION =
     flags AND MQTT_CONNECT_CLEAN_SESSION"
  by (simp add: flag_defs and.assoc)

lemma length_connect_body:
  "length (connect_body cid will user password flags keep_alive) =
     10 + mqtt_packed_cstrlen cid
     + (case will of None \<Rightarrow> 0 | Some (t, m) \<Rightarrow> mqtt_packed_cstrlen t + 2 + length m)
     + (case user of None \<Rightarrow> 0 | Some u \<Rightarrow> mqtt_packed_cstrlen u)
     + (case password of None \<Rightarrow> 0 | Some p \<Rightarrow> mqtt_packed_cstrlen p)"
  by (auto simp: connect_body_def connect_name_level_flags_def opt_str_def split: option.splits)

lemma connect_pack_packet:
  assumes "cid \<noteq> [] \<or> flags AND MQTT_CONNECT_CLEAN_SESSION \<noteq> 0"
    and "length cid < 2 ^ 16" and "\<forall>u. user = Some u \<longrightarrow> length u < 2 ^ 16"
    and "\<forall>p. password = Some p \<longrightarrow> length p < 2 ^ 16"
    and "\<forall>w. will = Some w \<longrightarrow> length (fst w) < 2 ^ 16 \<and> flags AND 0x18 \<noteq> 0x18"
  shows "mqtt_pack_connection_request (Some buf) (Some cid) (map_option fst will)
      (map_option snd will) (case will of None \<Rightarrow> 0 | Some (t, m) \<Rightarrow> length m)
      user password flags keep_alive =
    pack_packet (Some buf) \<lparr>control_type = MQTT_CONTROL_CONNECT, control_flags = 0,
        remaining_length = of_nat (length (connect_body cid will user password flags keep_alive))\<rparr>
      (emit (connect_body cid will user password flags keep_alive))"
proof -
  have bits: "connect_flags_sent w user password flags AND MQTT_CONNECT_WILL_FLAG = 0 \<longleftrightarrow> w = None"
    "connect_flags_sent w user password flags AND MQTT_CONNECT_USER_NAME = 0 \<longleftrightarrow> user = None"
    "connect_flags_sent w user password flags AND MQTT_CONNECT_PASSWORD = 0 \<longleftrightarrow> password = None" for w
    by (rule connect_flags_sent_bits)+
  have start: "\<not> (cid = [] \<and> (flags AND NOT MQTT_CONNECT_RESERVED) AND MQTT_CONNECT_CLEAN_SESSION = 0)"
    using assms(1) by (simp add: clean_session_unchanged)
  show ?thesis
    using assms(2-5) start bits [of "map_option fst will"]
    by (cases "cid = []"; cases will; cases user; cases password)
       (simp_all add: mqtt_pack_connection_request_def connect_flags_sent_def Let_def
        connect_name_level_flags_def [symmetric] connect_body_def opt_str_def split_beta
        will_qos_unchanged and.assoc emit_append_fun mqtt_pack_str_emit mqtt_pack_uint16_emit
        mem_block_all add.assoc)
qed

lemma connect_packs:
  assumes "cid \<noteq> [] \<or> flags AND MQTT_CONNECT_CLEAN_SESSION \<noteq> 0"
    and "length cid < 2 ^ 16" and "\<forall>u. user = Some u \<longrightarrow> length u < 2 ^ 16"
    and "\<forall>p. password = Some p \<longrightarrow> length p < 2 ^ 16"
    and "\<forall>w. will = Some w \<longrightarrow> length (fst w) < 2 ^ 16 \<and> flags AND 0x18 \<noteq> 0x18"
    and "length (connect_body cid will user password flags keep_alive) < 2 ^ 28"
  shows "packs (mqtt_pack_connection_request (Some buf) (Some cid) (map_option fst will)
      (map_option snd will) (case will of None \<Rightarrow> 0 | Some (t, m) \<Rightarrow> length m)
      user password flags keep_alive) buf
    (connect_packet cid will user password flags keep_alive)"
  unfolding connect_pack_packet [OF assms(1-5)] connect_packet_def Let_def
  using assms(6)
  by (intro pack_packet_packs)
     (simp_all add: header_valid_def mqtt_fixed_header_rule_violation_def unat_of_nat)

text \<open>The argument errors of CONNECT, in the order the code checks them.\<close>

lemma connect_clean_session_required:
  "flags AND MQTT_CONNECT_CLEAN_SESSION = 0 \<Longrightarrow> cid = None \<or> cid = Some [] \<Longrightarrow>
   mqtt_pack_connection_request (Some buf) cid wt wm wsz user password flags keep_alive =
     Some (mqtt_err MQTT_ERROR_CLEAN_SESSION_IS_REQUIRED, buf)"
  by (auto simp: mqtt_pack_connection_request_def clean_session_unchanged untouched_def Let_def)

lemma connect_null_will_message:
  "cid \<noteq> [] \<or> flags AND MQTT_CONNECT_CLEAN_SESSION \<noteq> 0 \<Longrightarrow>
   mqtt_pack_connection_request (Some buf) (Some cid) (Some wt) None wsz user password flags keep_alive =
     Some (mqtt_err MQTT_ERROR_CONNECT_NULL_WILL_MESSAGE, buf)"
  by (auto simp: mqtt_pack_connection_request_def clean_session_unchanged untouched_def Let_def)

lemma connect_forbidden_will_qos:
  "cid \<noteq> [] \<or> flags AND MQTT_CONNECT_CLEAN_SESSION \<noteq> 0 \<Longrightarrow> flags AND 0x18 = 0x18 \<Longrightarrow>
   mqtt_pack_connection_request (Some buf) (Some cid) (Some wt) (Some wm) wsz user password flags keep_alive =
     Some (mqtt_err MQTT_ERROR_CONNECT_FORBIDDEN_WILL_QOS, buf)"
  by (auto simp: mqtt_pack_connection_request_def clean_session_unchanged untouched_def Let_def
      will_qos_unchanged)

subsection \<open>SUBSCRIBE and UNSUBSCRIBE\<close>

lemma subscribe_args_eq:
  "length subs < MQTT_SUBSCRIBE_REQUEST_MAX_NUM_TOPICS \<Longrightarrow>
   subscribe_args args subs =
     (if length subs + length args < MQTT_SUBSCRIBE_REQUEST_MAX_NUM_TOPICS
      then Some (subs @ map (\<lambda>(t, q). (t, ucast q)) args) else None)"
  by (induction args subs rule: subscribe_args.induct) (auto simp: Let_def)

lemma unsubscribe_args_eq:
  "length subs < MQTT_UNSUBSCRIBE_REQUEST_MAX_NUM_TOPICS \<Longrightarrow>
   unsubscribe_args args subs =
     (if length subs + length args < MQTT_UNSUBSCRIBE_REQUEST_MAX_NUM_TOPICS
      then Some (subs @ args) else None)"
  by (induction args subs rule: unsubscribe_args.induct) (auto simp: Let_def)

definition subscribe_body :: "u16 \<Rightarrow> (cstring \<times> u8) list \<Rightarrow> u8 list" where
  "subscribe_body packet_id subs =
     uint16_bytes packet_id @ concat (map (\<lambda>(t, q). str_bytes t @ [q]) subs)"

definition subscribe_packet :: "u16 \<Rightarrow> (cstring \<times> u8) list \<Rightarrow> u8 list" where
  "subscribe_packet packet_id subs =
     header_bytes \<lparr>control_type = MQTT_CONTROL_SUBSCRIBE, control_flags = 2,
       remaining_length = of_nat (length (subscribe_body packet_id subs))\<rparr>
     @ subscribe_body packet_id subs"

definition unsubscribe_body :: "u16 \<Rightarrow> cstring list \<Rightarrow> u8 list" where
  "unsubscribe_body packet_id topics = uint16_bytes packet_id @ concat (map str_bytes topics)"

definition unsubscribe_packet :: "u16 \<Rightarrow> cstring list \<Rightarrow> u8 list" where
  "unsubscribe_packet packet_id topics =
     header_bytes \<lparr>control_type = MQTT_CONTROL_UNSUBSCRIBE, control_flags = 2,
       remaining_length = of_nat (length (unsubscribe_body packet_id topics))\<rparr>
     @ unsubscribe_body packet_id topics"

lemma pack_subs_emit:
  "\<forall>(t, q) \<in> set subs. length t < 2 ^ 16 \<Longrightarrow>
   pack_subs subs s = emit (concat (map (\<lambda>(t, q). str_bytes t @ [q]) subs)) s"
  by (induction subs s rule: pack_subs.induct)
     (auto simp: emit_append mqtt_pack_str_emit intro!: Option.bind_cong)

lemma pack_topics_emit:
  "\<forall>t \<in> set topics. length t < 2 ^ 16 \<Longrightarrow>
   pack_topics topics s = emit (concat (map str_bytes topics)) s"
  by (induction topics s rule: pack_topics.induct)
     (auto simp: emit_append mqtt_pack_str_emit intro!: Option.bind_cong)

lemma subscribe_length:
  "fold (\<lambda>(t, q) rl. rl + of_nat (mqtt_packed_cstrlen t + 1)) subs rl =
     rl + (of_nat (length (concat (map (\<lambda>(t, q). str_bytes t @ [q]) subs))) :: u32)"
  by (induction subs arbitrary: rl) auto

lemma unsubscribe_length:
  "fold (\<lambda>t rl. rl + of_nat (mqtt_packed_cstrlen t)) topics rl =
     rl + (of_nat (length (concat (map str_bytes topics))) :: u32)"
  by (induction topics arbitrary: rl) auto

lemma subscribe_packs:
  assumes "length args < 8" and "\<forall>(t, q) \<in> set args. length t < 2 ^ 16"
    and "length (subscribe_body (ucast packet_id) (map (\<lambda>(t, q). (t, ucast q)) args)) < 2 ^ 28"
  shows "packs (mqtt_pack_subscribe_request (Some buf) packet_id args) buf
    (subscribe_packet (ucast packet_id) (map (\<lambda>(t, q). (t, ucast q)) args))"
proof -
  let ?subs = "map (\<lambda>(t, q). (t, ucast q :: u8)) args"
  let ?body = "subscribe_body (ucast packet_id) ?subs"
  have "\<forall>(t, q) \<in> set ?subs. length t < 2 ^ 16" using assms(2) by auto
  then have "pack_subs ?subs = emit (concat (map (\<lambda>(t, q). str_bytes t @ [q]) ?subs))"
    by (intro ext pack_subs_emit)
  then have "(\<lambda>s. Option.bind (mqtt_pack_uint16 (ucast packet_id) s) (pack_subs ?subs)) = emit ?body"
    by (simp only: subscribe_body_def emit_append_fun mqtt_pack_uint16_emit)
  moreover have "fold (\<lambda>(t, q) rl. rl + of_nat (mqtt_packed_cstrlen t + 1)) ?subs 2 =
      (of_nat (length ?body) :: u32)"
    unfolding subscribe_length by (simp add: subscribe_body_def)
  ultimately have "mqtt_pack_subscribe_request (Some buf) packet_id args =
      pack_packet (Some buf) \<lparr>control_type = MQTT_CONTROL_SUBSCRIBE, control_flags = 2,
        remaining_length = of_nat (length ?body)\<rparr> (emit ?body)"
    using assms(1)
    by (simp add: mqtt_pack_subscribe_request_def subscribe_args_eq
        MQTT_SUBSCRIBE_REQUEST_MAX_NUM_TOPICS_def)
  then show ?thesis
    using assms(3) unfolding subscribe_packet_def
    by (simp only:) (intro pack_packet_packs; simp add: header_valid_def
        mqtt_fixed_header_rule_violation_def unat_of_nat)
qed

lemma unsubscribe_packs:
  assumes "length args < 8" and "\<forall>t \<in> set args. length t < 2 ^ 16"
    and "length (unsubscribe_body (ucast packet_id) args) < 2 ^ 28"
  shows "packs (mqtt_pack_unsubscribe_request (Some buf) packet_id args) buf
    (unsubscribe_packet (ucast packet_id) args)"
proof -
  let ?body = "unsubscribe_body (ucast packet_id) args"
  have "pack_topics args = emit (concat (map str_bytes args))"
    using assms(2) by (intro ext pack_topics_emit)
  then have "(\<lambda>s. Option.bind (mqtt_pack_uint16 (ucast packet_id) s) (pack_topics args)) = emit ?body"
    by (simp only: unsubscribe_body_def emit_append_fun mqtt_pack_uint16_emit)
  moreover have "fold (\<lambda>t rl. rl + of_nat (mqtt_packed_cstrlen t)) args 2 =
      (of_nat (length ?body) :: u32)"
    unfolding unsubscribe_length by (simp add: unsubscribe_body_def)
  ultimately have "mqtt_pack_unsubscribe_request (Some buf) packet_id args =
      pack_packet (Some buf) \<lparr>control_type = MQTT_CONTROL_UNSUBSCRIBE, control_flags = 2,
        remaining_length = of_nat (length ?body)\<rparr> (emit ?body)"
    using assms(1)
    by (simp add: mqtt_pack_unsubscribe_request_def unsubscribe_args_eq
        MQTT_UNSUBSCRIBE_REQUEST_MAX_NUM_TOPICS_def)
  then show ?thesis
    using assms(3) unfolding unsubscribe_packet_def
    by (simp only:) (intro pack_packet_packs; simp add: header_valid_def
        mqtt_fixed_header_rule_violation_def unat_of_nat)
qed

lemma subscribe_too_many:
  "8 \<le> length args \<Longrightarrow> mqtt_pack_subscribe_request (Some buf) packet_id args =
     Some (mqtt_err MQTT_ERROR_SUBSCRIBE_TOO_MANY_TOPICS, buf)"
  by (simp add: mqtt_pack_subscribe_request_def subscribe_args_eq untouched_def
      MQTT_SUBSCRIBE_REQUEST_MAX_NUM_TOPICS_def)

text \<open>
  Strings of 65536 bytes and more: the length field holds the length modulo \<open>2 ^ 16\<close> and only
  that many bytes follow, while the remaining length of the fixed header counts them all.
\<close>

lemma mqtt_pack_str_long_emit:
  "mqtt_pack_str t s = emit (uint16_bytes (of_nat (length t)) @ take (length t mod 2 ^ 16) t) s"
  by (simp add: mqtt_pack_str_def emit_append mqtt_pack_uint16_emit unat_of_nat)

lemma pack_packet_partial:
  assumes "header_valid h" and "\<And>s. w s = emit body s" and "length body \<le> unat (remaining_length h)"
    and "length (header_bytes h) + unat (remaining_length h) \<le> length buf"
  shows "\<exists>buf'. pack_packet (Some buf) h w = Some (int (length (header_bytes h) + length body), buf')"
proof -
  have "pack_packet (Some buf) h w = do {
      s \<leftarrow> emit body (overwrite buf 0 (header_bytes h), length (header_bytes h));
      Some (int (snd s), fst s) }"
    using mqtt_pack_fixed_header_fits [OF assms(1,4)] assms(4)
    by (auto simp: pack_packet_def assms(2))
  with assms(3,4) show ?thesis by (simp add: emit_fits)
qed

end
