(* ===== verification/Mqtt_Responses.thy ===== *)
theory Mqtt_Responses
  imports Mqtt_Requests
begin

text \<open>
  The unpackers of \<open>src/mqtt.c\<close>, one per control packet a broker sends, and
  \<open>mqtt_unpack_response\<close>, which reads the fixed header and dispatches on its control type.

  The buffer is the memory \<open>m\<close> of the receive buffer from its start; a pointer into it is an
  offset. Every read goes through \<open>peek\<close>, so a read past the end of the memory has no defined
  result. The union \<open>decoded\<close> is a datatype with one constructor per member; it is filled when
  the unpacker succeeds. A field the unpacker leaves alone (the packet id of a QoS 0 PUBLISH) is
  \<open>None\<close>.
\<close>

subsection \<open>Responses\<close>

datatype MQTTConnackReturnCode =
    MQTT_CONNACK_ACCEPTED
  | MQTT_CONNACK_REFUSED_PROTOCOL_VERSION
  | MQTT_CONNACK_REFUSED_IDENTIFIER_REJECTED
  | MQTT_CONNACK_REFUSED_SERVER_UNAVAILABLE
  | MQTT_CONNACK_REFUSED_BAD_USER_NAME_OR_PASSWORD
  | MQTT_CONNACK_REFUSED_NOT_AUTHORIZED

definition connack_code_of :: "u8 \<Rightarrow> MQTTConnackReturnCode" where
  "connack_code_of b =
     [MQTT_CONNACK_ACCEPTED, MQTT_CONNACK_REFUSED_PROTOCOL_VERSION,
      MQTT_CONNACK_REFUSED_IDENTIFIER_REJECTED, MQTT_CONNACK_REFUSED_SERVER_UNAVAILABLE,
      MQTT_CONNACK_REFUSED_BAD_USER_NAME_OR_PASSWORD, MQTT_CONNACK_REFUSED_NOT_AUTHORIZED] ! unat b"

definition MQTT_SUBACK_FAILURE :: u8 where "MQTT_SUBACK_FAILURE = 128"

record mqtt_response_connack =
  session_present_flag :: u8
  return_code :: MQTTConnackReturnCode

record mqtt_response_publish =
  dup_flag :: u8
  qos_level :: u8
  retain_flag :: u8
  topic_name_size :: u16
  topic_name :: nat
  publish_packet_id :: "u16 option"
  application_message :: nat
  application_message_size :: nat

record mqtt_response_suback =
  suback_packet_id :: u16
  return_codes :: nat
  num_return_codes :: nat

datatype mqtt_decoded =
    Undecoded
  | Connack mqtt_response_connack
  | Publish mqtt_response_publish
  | Puback u16
  | Pubrec u16
  | Pubrel u16
  | Pubcomp u16
  | Suback mqtt_response_suback
  | Unsuback u16

record mqtt_response =
  fixed_header :: mqtt_fixed_header
  decoded :: mqtt_decoded

type_synonym unpacked = "(int \<times> mqtt_response) option"

subsection \<open>Unpackers\<close>

definition mqtt_unpack_connack_response :: "mqtt_response \<Rightarrow> u8 list \<Rightarrow> nat \<Rightarrow> unpacked" where
  "mqtt_unpack_connack_response r m buf =
     (if remaining_length (fixed_header r) \<noteq> 2
      then Some (mqtt_err MQTT_ERROR_MALFORMED_RESPONSE, r)
      else do {
        b \<leftarrow> peek m buf;
        if b AND 0xFE \<noteq> 0 then Some (mqtt_err MQTT_ERROR_CONNACK_FORBIDDEN_FLAGS, r)
        else do {
          c \<leftarrow> peek m (buf + 1);
          if c > 5 then Some (mqtt_err MQTT_ERROR_CONNACK_FORBIDDEN_CODE, r)
          else Some (2, r\<lparr>decoded := Connack \<lparr>session_present_flag = b,
                              return_code = connack_code_of c\<rparr>\<rparr>)
        }
      })"

text \<open>
  The size of the application message is computed in \<open>uint32_t\<close> arithmetic, which wraps around
  when the topic is longer than the packet.
\<close>

definition mqtt_unpack_publish_response :: "mqtt_response \<Rightarrow> u8 list \<Rightarrow> nat \<Rightarrow> unpacked" where
  "mqtt_unpack_publish_response r m start =
     (let h = fixed_header r;
          flags = ucast (control_flags h) :: u8;
          dup = drop_bit 3 (flags AND MQTT_PUBLISH_DUP);
          qos = drop_bit 1 (flags AND MQTT_PUBLISH_QOS_MASK);
          retain = flags AND MQTT_PUBLISH_RETAIN
      in if remaining_length h < 4
         then Some (mqtt_err MQTT_ERROR_MALFORMED_RESPONSE, r)
         else do {
           tsize \<leftarrow> mqtt_unpack_uint16 m start;
           let buf = start + 2;
           let topic = buf;
           let buf = buf + unat tsize;
           (pid, buf) \<leftarrow> (if qos > 0 then do {
                             pid \<leftarrow> mqtt_unpack_uint16 m buf;
                             Some (Some pid, buf + 2)
                           } else Some (None, buf));
           let msize = (if qos = 0
              then unat (remaining_length h - ucast tsize - 2)
              else unat (remaining_length h - ucast tsize - 4));
           Some (int (buf + msize - start), r\<lparr>decoded := Publish \<lparr>dup_flag = dup, qos_level = qos,
             retain_flag = retain, topic_name_size = tsize, topic_name = topic,
             publish_packet_id = pid, application_message = buf,
             application_message_size = msize\<rparr>\<rparr>)
         })"

definition mqtt_unpack_pubxxx_response :: "mqtt_response \<Rightarrow> u8 list \<Rightarrow> nat \<Rightarrow> unpacked" where
  "mqtt_unpack_pubxxx_response r m buf =
     (if remaining_length (fixed_header r) \<noteq> 2
      then Some (mqtt_err MQTT_ERROR_MALFORMED_RESPONSE, r)
      else do {
        pid \<leftarrow> mqtt_unpack_uint16 m buf;
        let ct = control_type (fixed_header r);
        Some (2, r\<lparr>decoded :=
          (if ct = MQTT_CONTROL_PUBACK then Puback pid
           else if ct = MQTT_CONTROL_PUBREC then Pubrec pid
           else if ct = MQTT_CONTROL_PUBREL then Pubrel pid
           else Pubcomp pid)\<rparr>)
      })"

definition mqtt_unpack_suback_response :: "mqtt_response \<Rightarrow> u8 list \<Rightarrow> nat \<Rightarrow> unpacked" where
  "mqtt_unpack_suback_response r m buf =
     (let rl = remaining_length (fixed_header r)
      in if rl < 3 then Some (mqtt_err MQTT_ERROR_MALFORMED_RESPONSE, r)
         else do {
           pid \<leftarrow> mqtt_unpack_uint16 m buf;
           let rl = rl - 2;
           Some (int (2 + unat rl), r\<lparr>decoded := Suback \<lparr>suback_packet_id = pid,
             return_codes = buf + 2, num_return_codes = unat rl\<rparr>\<rparr>)
         })"

definition mqtt_unpack_unsuback_response :: "mqtt_response \<Rightarrow> u8 list \<Rightarrow> nat \<Rightarrow> unpacked" where
  "mqtt_unpack_unsuback_response r m buf =
     (if remaining_length (fixed_header r) \<noteq> 2
      then Some (mqtt_err MQTT_ERROR_MALFORMED_RESPONSE, r)
      else do {
        pid \<leftarrow> mqtt_unpack_uint16 m buf;
        Some (2, r\<lparr>decoded := Unsuback pid\<rparr>)
      })"

definition unpack_by_type :: "mqtt_response \<Rightarrow> u8 list \<Rightarrow> nat \<Rightarrow> unpacked" where
  "unpack_by_type r m buf =
     (case control_type (fixed_header r) of
        MQTT_CONTROL_CONNACK \<Rightarrow> mqtt_unpack_connack_response r m buf
      | MQTT_CONTROL_PUBLISH \<Rightarrow> mqtt_unpack_publish_response r m buf
      | MQTT_CONTROL_PUBACK \<Rightarrow> mqtt_unpack_pubxxx_response r m buf
      | MQTT_CONTROL_PUBREC \<Rightarrow> mqtt_unpack_pubxxx_response r m buf
      | MQTT_CONTROL_PUBREL \<Rightarrow> mqtt_unpack_pubxxx_response r m buf
      | MQTT_CONTROL_PUBCOMP \<Rightarrow> mqtt_unpack_pubxxx_response r m buf
      | MQTT_CONTROL_SUBACK \<Rightarrow> mqtt_unpack_suback_response r m buf
      | MQTT_CONTROL_UNSUBACK \<Rightarrow> mqtt_unpack_unsuback_response r m buf
      | MQTT_CONTROL_PINGRESP \<Rightarrow> Some (0, r)
      | _ \<Rightarrow> Some (mqtt_err MQTT_ERROR_RESPONSE_INVALID_CONTROL_TYPE, r))"

definition mqtt_unpack_response ::
  "mqtt_response \<Rightarrow> u8 list option \<Rightarrow> nat \<Rightarrow> unpacked" where
  "mqtt_unpack_response r bufp bufsz = do {
     (rv, hp) \<leftarrow> mqtt_unpack_fixed_header (Some (fixed_header r)) bufp bufsz;
     h \<leftarrow> hp;
     let r = r\<lparr>fixed_header := h\<rparr>;
     if rv \<le> 0 then Some (rv, r)
     else do {
       m \<leftarrow> bufp;
       (rv', r) \<leftarrow> unpack_by_type r m (nat rv);
       if rv' < 0 then Some (rv', r) else Some (rv + rv', r)
     }
   }"

subsection \<open>Reading integers back\<close>

lemma mqtt_unpack_uint16_bytes:
  assumes "mem_block m i 2 = Some (uint16_bytes x)"
  shows "mqtt_unpack_uint16 m i = Some x"
proof -
  have "peek m (i + 0) = Some (ucast (drop_bit 8 x))" "peek m (i + 1) = Some (ucast x)"
    using mem_block_peek [OF assms, of 0] mem_block_peek [OF assms, of 1]
    by (simp_all add: uint16_bytes_def)
  moreover have "push_bit 8 (ucast ((ucast (drop_bit 8 x)) :: u8)) OR ucast ((ucast x) :: u8) = (x :: u16)"
    (is "?l = x")
  proof (rule bit_word_eqI)
    fix n assume "n < LENGTH(16)"
    then show "bit ?l n = bit x n"
      by (cases "n < 8") (auto simp: bit_simps not_less)
  qed
  ultimately show ?thesis by (simp add: mqtt_unpack_uint16_def)
qed

lemma mqtt_unpack_uint16_defined:
  "i + 2 \<le> length m \<Longrightarrow> \<exists>x. mqtt_unpack_uint16 m i = Some x"
  by (simp add: mqtt_unpack_uint16_def)

subsection \<open>Outcome of the unpackers\<close>

text \<open>
  A packet of which the fixed header says that it lies in the buffer: the bytes from \<open>buf\<close> on
  reach at least to the end of the packet.
\<close>

definition publish_fits :: "mqtt_fixed_header \<Rightarrow> u8 list \<Rightarrow> nat \<Rightarrow> bool" where
  "publish_fits h m buf \<longleftrightarrow>
     (\<forall>t. mqtt_unpack_uint16 m buf = Some t \<longrightarrow>
        2 + unat t + (if (ucast (control_flags h) :: u8) AND MQTT_PUBLISH_QOS_MASK = 0 then 0 else 2)
          \<le> unat (remaining_length h))"

definition packet_length :: "mqtt_fixed_header \<Rightarrow> nat" where
  "packet_length h =
     (if control_type h = MQTT_CONTROL_PINGRESP then 0 else unat (remaining_length h))"

lemma qos_zero_iff:
  "drop_bit 1 (f AND MQTT_PUBLISH_QOS_MASK) = 0 \<longleftrightarrow> f AND MQTT_PUBLISH_QOS_MASK = (0 :: u8)"
proof
  assume z: "drop_bit 1 (f AND MQTT_PUBLISH_QOS_MASK) = 0"
  show "f AND MQTT_PUBLISH_QOS_MASK = 0"
  proof (rule bit_word_eqI)
    fix n
    show "bit (f AND MQTT_PUBLISH_QOS_MASK) n = bit (0 :: u8) n"
    proof (cases n)
      case 0
      then show ?thesis by (simp add: flag_defs bit_simps)
    next
      case (Suc k)
      have "bit (drop_bit 1 (f AND MQTT_PUBLISH_QOS_MASK)) k = bit (0 :: u8) k" by (simp only: z)
      then have "\<not> bit (f AND MQTT_PUBLISH_QOS_MASK) (1 + k)"
        by (simp only: bit_drop_bit_eq comp_apply) simp
      with Suc show ?thesis by simp
    qed
  qed
qed simp

lemma unat_topic_sub:
  fixes rl :: u32 and t :: u16
  assumes "unat t + k \<le> unat rl" and "k < 2 ^ 16"
  shows "unat (rl - ucast t - of_nat k) = unat rl - unat t - k"
proof -
  have "unat t < 2 ^ LENGTH(16)" by (rule unsigned_less)
  then have t: "unat (ucast t :: u32) = unat t"
    by (simp add: unsigned_ucast_eq take_bit_eq_mod)
  have k: "unat (of_nat k :: u32) = k" using assms(2) by (simp add: unat_of_nat)
  have "(ucast t :: u32) \<le> rl" using assms(1) by (simp add: word_le_nat_alt t)
  then have "unat (rl - ucast t) = unat rl - unat t" by (simp add: unat_sub t)
  moreover from this have "(of_nat k :: u32) \<le> rl - ucast t"
    using assms(1) unfolding word_le_nat_alt k by simp
  then have "unat (rl - ucast t - of_nat k) = unat (rl - ucast t) - unat (of_nat k :: u32)"
    by (rule unat_sub)
  ultimately show ?thesis using k by simp
qed

lemma publish_outcome:
  assumes "buf + unat (remaining_length (fixed_header r)) \<le> length m"
    and "publish_fits (fixed_header r) m buf" and "4 \<le> unat (remaining_length (fixed_header r))"
  shows "\<exists>p. mqtt_unpack_publish_response r m buf =
      Some (int (unat (remaining_length (fixed_header r))), r\<lparr>decoded := Publish p\<rparr>) \<and>
    qos_level p = drop_bit 1 (ucast (control_flags (fixed_header r)) AND MQTT_PUBLISH_QOS_MASK) \<and>
    mqtt_unpack_uint16 m buf = Some (topic_name_size p) \<and>
    topic_name p = buf + 2 \<and>
    application_message p =
      topic_name p + unat (topic_name_size p) + (if qos_level p = 0 then 0 else 2) \<and>
    publish_packet_id p = (if qos_level p = 0 then None
      else mqtt_unpack_uint16 m (topic_name p + unat (topic_name_size p))) \<and>
    (qos_level p \<noteq> 0 \<longrightarrow> (\<exists>i. publish_packet_id p = Some i)) \<and>
    application_message p + application_message_size p = buf + unat (remaining_length (fixed_header r))"
proof -
  let ?h = "fixed_header r"
  let ?qos = "drop_bit 1 ((ucast (control_flags ?h) :: u8) AND MQTT_PUBLISH_QOS_MASK)"
  have ge: "\<not> remaining_length ?h < 4" using assms(3) by (simp add: word_less_nat_alt)
  obtain t where t: "mqtt_unpack_uint16 m buf = Some t"
    using mqtt_unpack_uint16_defined [of buf m] assms(1,3) by auto
  show ?thesis
  proof (cases "?qos = 0")
    case True
    then have fits: "unat t + 2 \<le> unat (remaining_length ?h)"
      using assms(2) t by (simp add: publish_fits_def qos_zero_iff)
    then have "unat (remaining_length ?h - ucast t - 2) = unat (remaining_length ?h) - unat t - 2"
      using unat_topic_sub [of t 2] by simp
    with True t ge fits show ?thesis
      by (auto simp: mqtt_unpack_publish_response_def Let_def simp del: of_nat_unat)
  next
    case False
    then have "(ucast (control_flags ?h) :: u8) AND MQTT_PUBLISH_QOS_MASK \<noteq> 0"
      by (simp only: qos_zero_iff not_False_eq_True)
    then have fits: "unat t + 4 \<le> unat (remaining_length ?h)"
      using assms(2) t by (simp add: publish_fits_def qos_zero_iff)
    then have sz: "unat (remaining_length ?h - ucast t - 4) = unat (remaining_length ?h) - unat t - 4"
      using unat_topic_sub [of t 4] by simp
    obtain i where pid: "mqtt_unpack_uint16 m (buf + 2 + unat t) = Some i"
      using mqtt_unpack_uint16_defined [of "buf + 2 + unat t" m] assms(1) fits by auto
    let ?flags = "ucast (control_flags ?h) :: u8"
    let ?p = "\<lparr>dup_flag = drop_bit 3 (?flags AND MQTT_PUBLISH_DUP), qos_level = ?qos,
      retain_flag = ?flags AND MQTT_PUBLISH_RETAIN, topic_name_size = t, topic_name = buf + 2,
      publish_packet_id = Some i, application_message = buf + 2 + unat t + 2,
      application_message_size = unat (remaining_length ?h) - unat t - 4\<rparr>"
    from pid False t ge fits sz
    have eq: "mqtt_unpack_publish_response r m buf =
        Some (int (unat (remaining_length ?h)), r\<lparr>decoded := Publish ?p\<rparr>)"
      by (simp add: mqtt_unpack_publish_response_def Let_def word_gt_0 del: of_nat_unat)
    show ?thesis
      by (rule exI, rule conjI, rule eq) (use False t fits pid in simp)
  qed
qed

lemma unpack_by_type_safe:
  assumes "buf + unat (remaining_length (fixed_header r)) \<le> length m"
    and "control_type (fixed_header r) = MQTT_CONTROL_PUBLISH \<Longrightarrow> publish_fits (fixed_header r) m buf"
  shows "\<exists>rv r'. unpack_by_type r m buf = Some (rv, r') \<and> fixed_header r' = fixed_header r \<and>
    (rv < 0 \<or> rv = int (packet_length (fixed_header r)))"
proof (cases "control_type (fixed_header r) = MQTT_CONTROL_PUBLISH")
  case True
  then show ?thesis
  proof (cases "remaining_length (fixed_header r) < 4")
    case lt: True
    with True show ?thesis by (simp add: unpack_by_type_def mqtt_unpack_publish_response_def Let_def)
  next
    case False
    then have "4 \<le> unat (remaining_length (fixed_header r))" by (simp add: word_less_nat_alt)
    with True publish_outcome [OF assms(1) assms(2)] show ?thesis
      by (auto simp: unpack_by_type_def packet_length_def)
  qed
next
  case False
  let ?rl = "remaining_length (fixed_header r)"
  have two: "?rl = 2 \<Longrightarrow> buf + 2 \<le> length m \<and> packet_length (fixed_header r) = 2 \<or>
      control_type (fixed_header r) = MQTT_CONTROL_PINGRESP"
    using assms(1) by (auto simp: packet_length_def)
  have sub: "\<not> ?rl < 3 \<Longrightarrow> unat (?rl - 2) = unat ?rl - 2 \<and> 3 \<le> unat ?rl"
    by (simp add: word_less_nat_alt unat_sub word_le_nat_alt)
  show ?thesis
    using False assms(1) two sub mqtt_unpack_uint16_defined [of buf m]
    by (cases "control_type (fixed_header r)")
      (auto simp: unpack_by_type_def mqtt_unpack_connack_response_def Let_def packet_length_def
        mqtt_unpack_pubxxx_response_def mqtt_unpack_suback_response_def mqtt_unpack_unsuback_response_def
        simp del: of_nat_unat)
qed


text \<open>The PUBLISH packet of which the fixed header was read, if any, holds its own topic.\<close>

definition response_fits :: "mqtt_response \<Rightarrow> u8 list \<Rightarrow> nat \<Rightarrow> bool" where
  "response_fits r m bufsz \<longleftrightarrow>
     (\<forall>n h. mqtt_unpack_fixed_header (Some (fixed_header r)) (Some m) bufsz = Some (n, Some h) \<longrightarrow>
        0 < n \<longrightarrow> control_type h = MQTT_CONTROL_PUBLISH \<longrightarrow> publish_fits h m (nat n))"

lemma mqtt_unpack_response_safe:
  assumes "bufsz \<le> length m" and "response_fits r m bufsz"
  shows "\<exists>rv r'. mqtt_unpack_response r (Some m) bufsz = Some (rv, r') \<and>
    (0 < rv \<longrightarrow> header_valid (fixed_header r') \<and>
      (\<exists>n. 2 \<le> n \<and> n \<le> 5 \<and> rv = int (n + packet_length (fixed_header r')) \<and>
        n + unat (remaining_length (fixed_header r')) \<le> bufsz))"
proof -
  obtain n h where u: "mqtt_unpack_fixed_header (Some (fixed_header r)) (Some m) bufsz = Some (n, Some h)"
    and pos: "0 < n \<longrightarrow> header_valid h \<and> 2 \<le> n \<and> n \<le> 5 \<and> nat n + unat (remaining_length h) \<le> bufsz"
    using mqtt_unpack_fixed_header_safe [OF assms(1), of "fixed_header r"] by auto
  show ?thesis
  proof (cases "0 < n")
    case False
    with u show ?thesis by (simp add: mqtt_unpack_response_def)
  next
    case True
    let ?r = "r\<lparr>fixed_header := h\<rparr>"
    have "nat n + unat (remaining_length (fixed_header ?r)) \<le> length m"
      using True pos assms(1) by simp
    moreover have "control_type (fixed_header ?r) = MQTT_CONTROL_PUBLISH \<Longrightarrow> publish_fits (fixed_header ?r) m (nat n)"
      using True u assms(2) by (simp add: response_fits_def)
    ultimately obtain rv r' where b: "unpack_by_type ?r m (nat n) = Some (rv, r')"
      and h: "fixed_header r' = h" and rv: "rv < 0 \<or> rv = int (packet_length h)"
      using unpack_by_type_safe [of "nat n" ?r m] by auto
    have "\<exists>k. 2 \<le> k \<and> k \<le> 5 \<and> n = int k \<and> k + unat (remaining_length h) \<le> bufsz"
      using True pos by (intro exI [of _ "nat n"]) auto
    with True u b h rv pos show ?thesis
      by (auto simp: mqtt_unpack_response_def)
  qed
qed

text \<open>
  Without that, the subtraction wraps around: the packet length the unpacker reports lies
  \<open>2 ^ 32\<close> past the end of the packet.
\<close>

lemma publish_overrun:
  assumes "mqtt_unpack_uint16 m buf = Some t"
    and "4 \<le> unat (remaining_length (fixed_header r))"
    and "unat (remaining_length (fixed_header r)) < unat t + 2"
    and "(ucast (control_flags (fixed_header r)) :: u8) AND MQTT_PUBLISH_QOS_MASK = 0"
  shows "\<exists>r'. mqtt_unpack_publish_response r m buf =
    Some (int (2 ^ 32 + unat (remaining_length (fixed_header r))), r')"
proof -
  let ?rl = "remaining_length (fixed_header r)"
  have ge: "\<not> ?rl < 4" using assms(2) by (simp add: word_less_nat_alt)
  have "unat t < 2 ^ LENGTH(16)" by (rule unsigned_less)
  then have t: "unat t < 2 ^ 16" "unat (ucast t :: u32) = unat t"
    by (simp_all add: unsigned_ucast_eq take_bit_eq_mod)
  have "unat (?rl - ucast t - 2) = 2 ^ 32 + unat ?rl - (unat t + 2)"
    using assms(3) t by (auto simp: unat_sub_if_size word_size)
  moreover have "drop_bit 1 ((ucast (control_flags (fixed_header r)) :: u8) AND MQTT_PUBLISH_QOS_MASK) = 0"
    using assms(4) by (simp only: drop_bit_of_0)
  ultimately show ?thesis
    using assms(1-3) ge t(1)
    by (simp add: mqtt_unpack_publish_response_def Let_def del: of_nat_unat)
qed


subsection \<open>Round trips\<close>

lemma mem_block_append:
  "mem_block m i (length (as @ bs)) = Some (as @ bs) \<Longrightarrow>
   mem_block m i (length as) = Some as \<and> mem_block m (i + length as) (length bs) = Some bs"
  by (auto simp: mem_block_def take_add drop_drop add.commute add.left_commute split: if_splits
      dest: append_eq_append_conv [THEN iffD1, rotated])

lemma publish_flag_bits:
  "(ucast (ucast f :: 4 word) :: u8) AND MQTT_PUBLISH_QOS_MASK = f AND MQTT_PUBLISH_QOS_MASK"
  "(f AND NOT MQTT_PUBLISH_DUP) AND MQTT_PUBLISH_QOS_MASK = f AND MQTT_PUBLISH_QOS_MASK"
proof -
  show "(ucast (ucast f :: 4 word) :: u8) AND MQTT_PUBLISH_QOS_MASK = f AND MQTT_PUBLISH_QOS_MASK"
  proof (rule bit_word_eqI)
    fix n assume "n < LENGTH(8)"
    then consider "n = 0" | "n = 1" | "n = 2" | "n = 3" | "n = 4" | "n = 5" | "n = 6" | "n = 7"
      by fastforce
    then show "bit ((ucast (ucast f :: 4 word) :: u8) AND MQTT_PUBLISH_QOS_MASK) n =
        bit (f AND MQTT_PUBLISH_QOS_MASK) n"
      by cases (simp_all add: bit_simps flag_defs)
  qed
  show "(f AND NOT MQTT_PUBLISH_DUP) AND MQTT_PUBLISH_QOS_MASK = f AND MQTT_PUBLISH_QOS_MASK"
    by (simp add: flag_defs and.assoc)
qed


lemma mem_block_prefix: "mem_block m i n = Some bs \<Longrightarrow> length bs = n"
  by (auto simp: mem_block_def split: if_splits)

lemma take_eq_mem_block: "take n m = bs \<and> n \<le> length m \<longleftrightarrow> mem_block m 0 n = Some bs"
  by (auto simp: mem_block_def)

text \<open>
  A packet that stands at the start of the buffer: its fixed header is read, and the dispatch
  sees the rest.
\<close>

lemma mqtt_unpack_response_packet:
  assumes "mem_block m 0 (length (header_bytes h @ body)) = Some (header_bytes h @ body)"
    and "header_valid h" and "length body = unat (remaining_length h)"
    and "length (header_bytes h @ body) \<le> bufsz" and "bufsz \<le> length m"
    and "unpack_by_type (r\<lparr>fixed_header := h\<rparr>) m (length (header_bytes h)) =
      Some (int (unat (remaining_length h)), r')"
  shows "mqtt_unpack_response r (Some m) bufsz = Some (int (length (header_bytes h @ body)), r')"
proof -
  have "mem_block m 0 (length (header_bytes h)) = Some (header_bytes h)"
    using mem_block_append [OF assms(1)] by simp
  then have "take (length (header_bytes h)) m = header_bytes h"
    by (simp add: mem_block_def split: if_splits)
  then have "mqtt_unpack_fixed_header (Some (fixed_header r)) (Some m) bufsz =
      Some (int (length (header_bytes h)), Some h)"
    using mqtt_unpack_fixed_header_bytes [OF assms(2)] assms(3-5) by simp
  with assms(3,6) show ?thesis
    by (simp add: mqtt_unpack_response_def del: of_nat_unat)
qed

lemma publish_header_flags:
  "(ucast (control_flags (publish_header topic msz flags)) :: u8) AND MQTT_PUBLISH_QOS_MASK =
     flags AND MQTT_PUBLISH_QOS_MASK"
  by (simp add: publish_header_def Let_def publish_flag_bits)

lemma publish_roundtrip:
  assumes "mem_block m 0 (length pkt) = Some pkt" and "length pkt \<le> bufsz" and "bufsz \<le> length m"
    and "pkt = publish_packet topic pid msg msz flags"
    and "length topic < 2 ^ 16" and "msz \<le> length msg"
    and "mqtt_packed_cstrlen topic + 2 + msz < 2 ^ 28"
    and "4 \<le> length (publish_body topic pid msg msz flags)"
  shows "\<exists>p r'. mqtt_unpack_response r (Some m) bufsz = Some (int (length pkt), r') \<and>
    decoded r' = Publish p \<and>
    mem_block m (topic_name p) (unat (topic_name_size p)) = Some topic \<and>
    mem_block m (application_message p) (application_message_size p) = Some (take msz msg) \<and>
    qos_level p = drop_bit 1 (flags AND MQTT_PUBLISH_QOS_MASK) \<and>
    publish_packet_id p =
      (if drop_bit 1 (flags AND MQTT_PUBLISH_QOS_MASK) = 0 then None else Some pid)"
proof -
  let ?h = "publish_header topic msz flags" and ?body = "publish_body topic pid msg msz flags"
  let ?qos = "drop_bit 1 (flags AND MQTT_PUBLISH_QOS_MASK)"
  let ?pid = "if ?qos > 0 then uint16_bytes pid else []"
  let ?r = "r\<lparr>fixed_header := ?h\<rparr>"
  define n where "n = length (header_bytes ?h)"
  note ok = publish_header_ok(1) [OF assms(7,6), where flags = flags]
    publish_header_ok(2) [OF assms(7,6), where flags = flags and pid = pid]
  have all: "mem_block m 0 (length (header_bytes ?h @ ?body)) = Some (header_bytes ?h @ ?body)"
    using assms(1) by (simp add: assms(4) publish_packet_def)
  then have body: "mem_block m n (length ?body) = Some ?body"
    using mem_block_append [OF all] by (simp add: n_def)
  have str: "mem_block m n (length (str_bytes topic)) = Some (str_bytes topic)"
    and rest: "mem_block m (n + length (str_bytes topic)) (length (?pid @ take msz msg)) = Some (?pid @ take msz msg)"
    using mem_block_append [OF body [unfolded publish_body_def]] by auto
  have size: "mem_block m n 2 = Some (uint16_bytes (of_nat (length topic)))"
    and topic: "mem_block m (n + 2) (length topic) = Some topic"
    using mem_block_append [OF str [unfolded str_bytes_def]] by auto
  have pid: "mem_block m (n + 2 + length topic) (length ?pid) = Some ?pid"
    and msg: "mem_block m (n + 2 + length topic + length ?pid) msz = Some (take msz msg)"
    using mem_block_append [OF rest] assms(6)
    by (auto simp: mqtt_packed_cstrlen_def add.assoc min.absorb2)
  define t where "t = (of_nat (length topic) :: u16)"
  have t: "unat t = length topic" using assms(5) by (simp add: t_def unat_of_nat)
  have rd: "mqtt_unpack_uint16 m n = Some t"
    using mqtt_unpack_uint16_bytes [OF size] by (simp add: t_def)
  have len: "n + unat (remaining_length (fixed_header ?r)) \<le> length m"
    using body ok(2) by (simp add: mem_block_def split: if_splits)
  have rl: "unat (remaining_length ?h) = 2 + length topic + length ?pid + msz"
    using assms(6) by (simp flip: ok(2)) (simp add: publish_body_def mqtt_packed_cstrlen_def)
  have qz: "flags AND MQTT_PUBLISH_QOS_MASK = 0 \<longleftrightarrow> ?qos = 0" by (simp only: qos_zero_iff)
  have fits: "publish_fits (fixed_header ?r) m n"
    using rl rd t qz by (auto simp: publish_fits_def publish_header_flags word_gt_0)
  have four: "4 \<le> unat (remaining_length (fixed_header ?r))" using assms(8) ok(2) by simp
  obtain p where out: "mqtt_unpack_publish_response ?r m n =
        Some (int (unat (remaining_length (fixed_header ?r))), ?r\<lparr>decoded := Publish p\<rparr>)"
    and p: "qos_level p = drop_bit 1 (ucast (control_flags (fixed_header ?r)) AND MQTT_PUBLISH_QOS_MASK)"
      "mqtt_unpack_uint16 m n = Some (topic_name_size p)" "topic_name p = n + 2"
      "application_message p = topic_name p + unat (topic_name_size p) + (if qos_level p = 0 then 0 else 2)"
      "publish_packet_id p = (if qos_level p = 0 then None
        else mqtt_unpack_uint16 m (topic_name p + unat (topic_name_size p)))"
      "application_message p + application_message_size p = n + unat (remaining_length (fixed_header ?r))"
    using publish_outcome [OF len fits four] by blast
  have h: "fixed_header ?r = ?h" by simp
  have q: "qos_level p = ?qos" using p(1) by (simp only: h publish_header_flags)
  have tn: "topic_name_size p = t" using p(2) rd by simp
  note am = p(4) [unfolded p(3) tn t q] and pp = p(5) [unfolded p(3) tn t q]
  have "mqtt_unpack_response r (Some m) bufsz =
      Some (int (length (header_bytes ?h @ ?body)), ?r\<lparr>decoded := Publish p\<rparr>)"
    using all ok assms(2,3) out
    by (intro mqtt_unpack_response_packet)
       (simp_all add: assms(4) publish_packet_def n_def unpack_by_type_def publish_header_def Let_def)
  moreover have "mqtt_unpack_uint16 m (n + 2 + length topic) = Some pid" if "?qos \<noteq> 0"
    using pid that by (simp add: mqtt_unpack_uint16_bytes word_gt_0)
  moreover have "application_message p = n + 2 + length topic + length ?pid" "application_message_size p = msz"
    using am p(6) rl by (auto simp: word_gt_0 split: if_splits)
  ultimately show ?thesis
    using topic msg q tn pp t p(3) by (auto simp: assms(4) publish_packet_def)
qed


text \<open>
  A QoS 0 PUBLISH with a topic of one byte and no payload is a packet the specification allows
  (and \<open>mqtt_pack_publish_request\<close> packs it), but the unpacker wants a remaining length of 4.
\<close>

lemma publish_short_rejected:
  assumes "unat (remaining_length (fixed_header r)) < 4"
  shows "mqtt_unpack_publish_response r m buf = Some (mqtt_err MQTT_ERROR_MALFORMED_RESPONSE, r)"
  using assms by (simp add: mqtt_unpack_publish_response_def Let_def word_less_nat_alt)

definition pubxxx_decoded :: "MQTTControlPacketType \<Rightarrow> u16 \<Rightarrow> mqtt_decoded" where
  "pubxxx_decoded ctype pid =
     (if ctype = MQTT_CONTROL_PUBACK then Puback pid
      else if ctype = MQTT_CONTROL_PUBREC then Pubrec pid
      else if ctype = MQTT_CONTROL_PUBREL then Pubrel pid else Pubcomp pid)"

lemma pubxxx_roundtrip:
  assumes "mem_block m 0 4 = Some (pubxxx_packet ctype pid)" and "4 \<le> bufsz" and "bufsz \<le> length m"
    and "ctype \<in> {MQTT_CONTROL_PUBACK, MQTT_CONTROL_PUBREC, MQTT_CONTROL_PUBREL, MQTT_CONTROL_PUBCOMP}"
  shows "\<exists>r'. mqtt_unpack_response r (Some m) bufsz = Some (4, r') \<and>
    decoded r' = pubxxx_decoded ctype pid"
proof -
  let ?h = "\<lparr>control_type = ctype, control_flags = (if ctype = MQTT_CONTROL_PUBREL then 0x02 else 0),
        remaining_length = 2\<rparr>"
  let ?r = "r\<lparr>fixed_header := ?h\<rparr>"
  have h: "header_valid ?h" "header_bytes ?h =
      [push_bit 4 (control_type_num ctype) OR (if ctype = MQTT_CONTROL_PUBREL then 2 else 0), 2]"
    using assms(4)
    by (auto simp: header_valid_def mqtt_fixed_header_rule_violation_def header_bytes_def varint.simps)
  then have p: "pubxxx_packet ctype pid = header_bytes ?h @ uint16_bytes pid"
    by (simp add: pubxxx_packet_def)
  have blk: "mem_block m 0 (length (header_bytes ?h @ uint16_bytes pid)) = Some (header_bytes ?h @ uint16_bytes pid)"
    using assms(1) h(2) by (simp add: p)
  then have "mqtt_unpack_uint16 m (length (header_bytes ?h)) = Some pid"
    using mem_block_append [OF blk] by (simp add: mqtt_unpack_uint16_bytes)
  then have "unpack_by_type ?r m (length (header_bytes ?h)) =
      Some (int (unat (remaining_length ?h)), ?r\<lparr>decoded := pubxxx_decoded ctype pid\<rparr>)"
    using assms(4) by (auto simp: unpack_by_type_def mqtt_unpack_pubxxx_response_def pubxxx_decoded_def)
  from mqtt_unpack_response_packet [OF blk h(1) _ _ assms(3) this] assms(2) h(2) show ?thesis
    by simp
qed

end
