(* ===== verification/Mqtt_Queue.thy ===== *)
theory Mqtt_Queue
  imports Mqtt_Types
begin

text \<open>
  The message queue of \<open>src/mqtt.c\<close> (\<open>struct mqtt_message_queue\<close>). One memory block holds the
  bytes of the queued packets, growing up from its start, and their descriptors, growing down
  from its end; \<open>curr\<close> is the next free byte and \<open>curr_sz\<close> the space left for a packet once one
  more descriptor is reserved.

  An address in the block is its offset from \<open>mem_start\<close>. The descriptors are a list, the
  descriptor \<open>mqtt_mq_get(mq, i)\<close> its element \<open>i\<close>; \<open>queue_tail\<close> stands at
  \<open>mem_end - length * sizeof\<close>. \<open>mqtt_mq_register\<close> does not set the control type, the packet id or
  the time of a descriptor: they start as whatever that memory holds (never written, an older
  descriptor, or bytes of an older packet). \<open>mq_slot\<close> supplies those contents, one descriptor for
  each one taken into use; nothing is assumed about it. \<open>mq_set_up\<close> tells whether the pointers of
  the structure have been assigned: \<open>mqtt_mq_init\<close> with a null buffer does not assign them.
\<close>

subsection \<open>State\<close>

datatype MQTTQueuedMessageState =
    MQTT_QUEUED_UNSENT
  | MQTT_QUEUED_AWAITING_ACK
  | MQTT_QUEUED_COMPLETE

record mqtt_queued_message =
  qm_start :: nat
  qm_size :: nat
  qm_state :: MQTTQueuedMessageState
  qm_time_sent :: int
  qm_control_type :: MQTTControlPacketType
  qm_packet_id :: u16

record mqtt_message_queue =
  mq_set_up :: bool
  mq_mem :: "u8 list"
  mq_curr :: nat
  mq_curr_sz :: nat
  mq_queue :: "mqtt_queued_message list"
  mq_slot :: "nat \<Rightarrow> mqtt_queued_message"

text \<open>\<open>sizeof(struct mqtt_queued_message)\<close> on a 64-bit platform.\<close>

definition sizeof_queued_message :: nat where
  "sizeof_queued_message = 40"

definition mqtt_mq_length :: "mqtt_message_queue \<Rightarrow> nat" where
  "mqtt_mq_length mq = length (mq_queue mq)"

text \<open>
  The macro \<open>mqtt_mq_currsz\<close>: 0 when \<open>curr\<close> has reached \<open>queue_tail - 1\<close>, otherwise the distance
  between them.
\<close>

definition mqtt_mq_currsz :: "mqtt_message_queue \<Rightarrow> nat" where
  "mqtt_mq_currsz mq =
     (let reserved = sizeof_queued_message * (mqtt_mq_length mq + 1)
      in if mq_curr mq + reserved \<ge> length (mq_mem mq) then 0
         else length (mq_mem mq) - reserved - mq_curr mq)"

subsection \<open>Operations\<close>

text \<open>\<open>mqtt_mq_init\<close>: a null buffer leaves the queue as it is.\<close>

definition mqtt_mq_init :: "mqtt_message_queue \<Rightarrow> u8 list option \<Rightarrow> mqtt_message_queue" where
  "mqtt_mq_init mq bufp =
     (case bufp of
        None \<Rightarrow> mq
      | Some buf \<Rightarrow>
          let mq = mq\<lparr>mq_set_up := True, mq_mem := buf, mq_curr := 0, mq_queue := []\<rparr>
          in mq\<lparr>mq_curr_sz := mqtt_mq_currsz mq\<rparr>)"

text \<open>\<open>mqtt_mq_register\<close>: the new descriptor is the last element.\<close>

definition mqtt_mq_register :: "mqtt_message_queue \<Rightarrow> nat \<Rightarrow> mqtt_message_queue" where
  "mqtt_mq_register mq nbytes =
     (let msg = (mq_slot mq 0)\<lparr>qm_start := mq_curr mq, qm_size := nbytes,
            qm_state := MQTT_QUEUED_UNSENT\<rparr>;
          mq = mq\<lparr>mq_queue := mq_queue mq @ [msg], mq_curr := mq_curr mq + nbytes,
            mq_slot := (\<lambda>n. mq_slot mq (Suc n))\<rparr>
      in mq\<lparr>mq_curr_sz := mqtt_mq_currsz mq\<rparr>)"

text \<open>The \<open>for\<close> loop of \<open>mqtt_mq_clean\<close>: the index of the first message that is not complete.\<close>

fun first_incomplete :: "mqtt_queued_message list \<Rightarrow> nat" where
  "first_incomplete [] = 0"
| "first_incomplete (m # ms) =
     (if qm_state m \<noteq> MQTT_QUEUED_COMPLETE then 0 else Suc (first_incomplete ms))"

text \<open>
  \<open>mqtt_mq_clean\<close>: drop the complete messages at the head of the queue and move the bytes and the
  descriptors of the others. The \<open>memmove\<close> has no defined result unless its block lies in the
  memory.
\<close>

definition mqtt_mq_clean :: "mqtt_message_queue \<Rightarrow> mqtt_message_queue option" where
  "mqtt_mq_clean mq =
     (let new_head = first_incomplete (mq_queue mq)
      in if new_head \<ge> mqtt_mq_length mq
         then let mq = mq\<lparr>mq_curr := 0, mq_queue := []\<rparr>
              in Some (mq\<lparr>mq_curr_sz := mqtt_mq_currsz mq\<rparr>)
         else if new_head = 0 then Some mq
         else let removing = qm_start (mq_queue mq ! new_head); n = mq_curr mq - removing
              in if mq_curr mq < removing then None
                 else do {
                   bytes \<leftarrow> mem_block (mq_mem mq) removing n;
                   let mq = mq\<lparr>mq_mem := overwrite (mq_mem mq) 0 bytes, mq_curr := n,
                     mq_queue := map (\<lambda>m. m\<lparr>qm_start := qm_start m - removing\<rparr>)
                       (drop new_head (mq_queue mq))\<rparr>;
                   Some (mq\<lparr>mq_curr_sz := mqtt_mq_currsz mq\<rparr>)
                 })"

text \<open>
  \<open>mqtt_mq_find\<close>: the first message of the control type that has the packet id, or, without a
  packet id, that is not complete. The pointer to a descriptor is its index.
\<close>

fun find_from :: "(mqtt_queued_message \<Rightarrow> bool) \<Rightarrow> mqtt_queued_message list \<Rightarrow> nat \<Rightarrow> nat option"
where
  "find_from P [] i = None"
| "find_from P (m # ms) i = (if P m then Some i else find_from P ms (Suc i))"

definition mqtt_mq_find ::
  "mqtt_message_queue \<Rightarrow> MQTTControlPacketType \<Rightarrow> u16 option \<Rightarrow> nat option" where
  "mqtt_mq_find mq ctype packet_id =
     find_from (\<lambda>m. qm_control_type m = ctype \<and>
       (case packet_id of None \<Rightarrow> qm_state m \<noteq> MQTT_QUEUED_COMPLETE
        | Some pid \<Rightarrow> pid = qm_packet_id m)) (mq_queue mq) 0"

text \<open>An assignment through the pointer to descriptor \<open>i\<close>.\<close>

definition mq_update ::
  "nat \<Rightarrow> (mqtt_queued_message \<Rightarrow> mqtt_queued_message) \<Rightarrow> mqtt_message_queue \<Rightarrow> mqtt_message_queue"
where
  "mq_update i f mq = mq\<lparr>mq_queue := (mq_queue mq)[i := f (mq_queue mq ! i)]\<rparr>"

subsection \<open>Layout\<close>

text \<open>The messages lie one after the other from \<open>s\<close> to \<open>e\<close>.\<close>

fun laid_out :: "nat \<Rightarrow> mqtt_queued_message list \<Rightarrow> nat \<Rightarrow> bool" where
  "laid_out s [] e \<longleftrightarrow> s = e"
| "laid_out s (m # ms) e \<longleftrightarrow> qm_start m = s \<and> laid_out (s + qm_size m) ms e"

text \<open>
  The queue invariant: the packets fill the block without gaps up to \<open>curr\<close>, they do not run into
  the descriptors, and \<open>curr_sz\<close> is the space the macro computes.
\<close>

definition mq_wf :: "mqtt_message_queue \<Rightarrow> bool" where
  "mq_wf mq \<longleftrightarrow> mq_set_up mq \<and> laid_out 0 (mq_queue mq) (mq_curr mq) \<and>
     mq_curr mq + sizeof_queued_message * mqtt_mq_length mq \<le> length (mq_mem mq) \<and>
     mq_curr_sz mq = mqtt_mq_currsz mq"

lemma laid_out_le [queue_simps]: "laid_out s ms e \<Longrightarrow> s \<le> e"
proof (induction ms arbitrary: s)
  case (Cons m ms)
  then have "s + qm_size m \<le> e" by simp
  then show ?case by simp
qed simp

lemma laid_out_append [queue_simps]:
  "laid_out s (ms @ ns) e \<longleftrightarrow> (\<exists>t. laid_out s ms t \<and> laid_out t ns e)"
  by (induction ms arbitrary: s) auto

lemma laid_out_member:
  "laid_out s ms e \<Longrightarrow> m \<in> set ms \<Longrightarrow> s \<le> qm_start m \<and> qm_start m + qm_size m \<le> e"
proof (induction ms arbitrary: s)
  case (Cons a ms)
  then have le: "s + qm_size a \<le> e" by (auto dest: laid_out_le)
  show ?case
  proof (cases "m = a")
    case True
    with Cons.prems le show ?thesis by simp
  next
    case False
    with Cons.prems have "s + qm_size a \<le> qm_start m \<and> qm_start m + qm_size m \<le> e"
      by (intro Cons.IH) simp_all
    then show ?thesis by simp
  qed
qed simp

lemma laid_out_shift:
  "laid_out s ms e \<Longrightarrow> r \<le> s \<Longrightarrow>
   laid_out (s - r) (map (\<lambda>m. m\<lparr>qm_start := qm_start m - r\<rparr>) ms) (e - r)"
proof (induction ms arbitrary: s)
  case (Cons m ms)
  then have "laid_out (s + qm_size m - r) (map (\<lambda>m. m\<lparr>qm_start := qm_start m - r\<rparr>) ms) (e - r)"
    by (intro Cons.IH) simp_all
  moreover have "s + qm_size m - r = s - r + qm_size m" using Cons.prems(2) by simp
  ultimately have "laid_out (s - r + qm_size m) (map (\<lambda>m. m\<lparr>qm_start := qm_start m - r\<rparr>) ms) (e - r)"
    by (simp only:)
  then show ?case using Cons.prems(1) by simp
qed simp

lemma laid_out_cong:
  "map (\<lambda>m. (qm_start m, qm_size m)) ms = map (\<lambda>m. (qm_start m, qm_size m)) ns \<Longrightarrow>
   laid_out s ms e = laid_out s ns e"
proof (induction ms arbitrary: ns s)
  case (Cons m ms)
  from Cons.prems obtain n ns' where ns: "ns = n # ns'" "qm_start m = qm_start n" "qm_size m = qm_size n"
    and "map (\<lambda>m. (qm_start m, qm_size m)) ms = map (\<lambda>m. (qm_start m, qm_size m)) ns'"
    by (cases ns) simp_all
  from Cons.IH [OF this(4)] show ?case by (simp add: ns)
qed simp

lemma mq_wf_laid_out: "mq_wf mq \<Longrightarrow> laid_out 0 (mq_queue mq) (mq_curr mq)"
  by (simp add: mq_wf_def)

lemma mq_wf_fits: "mq_wf mq \<Longrightarrow> mq_curr mq + sizeof_queued_message * mqtt_mq_length mq \<le> length (mq_mem mq)"
  by (simp add: mq_wf_def)

lemma mq_wf_space:
  assumes "mq_wf mq"
  shows "mq_curr mq + mq_curr_sz mq \<le> length (mq_mem mq)"
    and "0 < n \<Longrightarrow> n \<le> mq_curr_sz mq \<Longrightarrow>
      mq_curr mq + n + sizeof_queued_message * (mqtt_mq_length mq + 1) \<le> length (mq_mem mq)"
  using assms by (auto simp: mq_wf_def mqtt_mq_currsz_def Let_def split: if_splits)

text \<open>A message that lies in the memory; \<open>msg->start[0]\<close> is its first byte.\<close>

lemma mq_wf_message:
  assumes "mq_wf mq" and "m \<in> set (mq_queue mq)"
  shows "qm_start m + qm_size m \<le> mq_curr mq" and "mq_curr mq \<le> length (mq_mem mq)"
  using laid_out_member [OF mq_wf_laid_out [OF assms(1)] assms(2)] mq_wf_fits [OF assms(1)] by auto

subsection \<open>The queue as a list of packets\<close>

record queue_entry =
  en_bytes :: "u8 list"
  en_state :: MQTTQueuedMessageState
  en_type :: MQTTControlPacketType
  en_pid :: u16
  en_time :: int

definition entry_of :: "u8 list \<Rightarrow> mqtt_queued_message \<Rightarrow> queue_entry" where
  "entry_of mem m = \<lparr>en_bytes = take (qm_size m) (drop (qm_start m) mem), en_state = qm_state m,
     en_type = qm_control_type m, en_pid = qm_packet_id m, en_time = qm_time_sent m\<rparr>"

definition mq_view :: "mqtt_message_queue \<Rightarrow> queue_entry list" where
  "mq_view mq = map (entry_of (mq_mem mq)) (mq_queue mq)"

definition complete :: "queue_entry \<Rightarrow> bool" where
  "complete e \<longleftrightarrow> en_state e = MQTT_QUEUED_COMPLETE"

lemma length_mq_view [simp]: "length (mq_view mq) = mqtt_mq_length mq"
  by (simp add: mq_view_def mqtt_mq_length_def)

lemma complete_entry_of [simp]: "complete (entry_of mem m) \<longleftrightarrow> qm_state m = MQTT_QUEUED_COMPLETE"
  by (simp add: complete_def entry_of_def)

lemma first_incomplete_le: "first_incomplete ms \<le> length ms"
  by (induction ms) auto

lemma drop_first_incomplete:
  "drop (first_incomplete ms) ms = dropWhile (\<lambda>m. qm_state m = MQTT_QUEUED_COMPLETE) ms"
  by (induction ms) auto

text \<open>Packet bytes depend on the memory below \<open>curr\<close> only.\<close>

lemma entry_of_cong:
  "take e mem = take e mem' \<Longrightarrow> qm_start m + qm_size m \<le> e \<Longrightarrow> entry_of mem m = entry_of mem' m"
proof -
  assume *: "take e mem = take e mem'" "qm_start m + qm_size m \<le> e"
  have "take (qm_size m) (drop (qm_start m) l) = drop (qm_start m) (take (qm_size m + qm_start m) (take e l))"
    for l :: "u8 list"
    using *(2) by (simp add: take_drop min.absorb1 add.commute)
  from this [of mem] this [of mem'] show ?thesis unfolding entry_of_def *(1) by simp
qed

lemma view_cong:
  assumes "mq_wf mq" and "take (mq_curr mq) mem' = take (mq_curr mq) (mq_mem mq)"
  shows "map (entry_of mem') (mq_queue mq) = mq_view mq"
  unfolding mq_view_def using entry_of_cong [OF assms(2)] mq_wf_message(1) [OF assms(1)] by simp

lemma entry_of_moved:
  assumes "r \<le> qm_start m" and "qm_start m + qm_size m \<le> c" and "c \<le> length mem"
  shows "entry_of (overwrite mem 0 (take (c - r) (drop r mem))) (m\<lparr>qm_start := qm_start m - r\<rparr>) =
    entry_of mem m"
proof -
  have "take (c - r) (overwrite mem 0 (take (c - r) (drop r mem))) = take (c - r) (drop r mem)"
    using assms by (simp add: overwrite_def)
  then have "entry_of (overwrite mem 0 (take (c - r) (drop r mem))) (m\<lparr>qm_start := qm_start m - r\<rparr>) =
      entry_of (drop r mem) (m\<lparr>qm_start := qm_start m - r\<rparr>)"
    using assms by (intro entry_of_cong [of "c - r"]) (auto simp: min_def)
  also have "\<dots> = entry_of mem m" using assms(1) by (simp add: entry_of_def)
  finally show ?thesis .
qed

subsection \<open>What the operations do to the queue\<close>

lemma mqtt_mq_init_wf: "mq_wf (mqtt_mq_init mq (Some buf))" "mq_view (mqtt_mq_init mq (Some buf)) = []"
  by (simp_all add: mqtt_mq_init_def mq_wf_def mqtt_mq_length_def mqtt_mq_currsz_def mq_view_def Let_def)

text \<open>The free bytes a packer is given (\<open>mq.curr\<close>, \<open>mq.curr_sz\<close>) and the queue once it has run.\<close>

definition mq_free :: "mqtt_message_queue \<Rightarrow> u8 list" where
  "mq_free mq = take (mq_curr_sz mq) (drop (mq_curr mq) (mq_mem mq))"

definition mq_fill :: "mqtt_message_queue \<Rightarrow> u8 list \<Rightarrow> mqtt_message_queue" where
  "mq_fill mq buf = mq\<lparr>mq_mem := overwrite (mq_mem mq) (mq_curr mq) buf\<rparr>"

lemma length_mq_free: "mq_wf mq \<Longrightarrow> length (mq_free mq) = mq_curr_sz mq"
  using mq_wf_space(1) [of mq] by (simp add: mq_free_def)

lemma mem_block_mq_free: "mq_wf mq \<Longrightarrow> mem_block (mq_mem mq) (mq_curr mq) (mq_curr_sz mq) = Some (mq_free mq)"
  using mq_wf_space(1) [of mq] by (simp add: mq_free_def mem_block_def)

lemma mq_fill_law:
  assumes "mq_wf mq" and "length buf = length (mq_free mq)"
  shows "mq_wf (mq_fill mq buf) \<and> mq_view (mq_fill mq buf) = mq_view mq \<and> mq_free (mq_fill mq buf) = buf"
proof -
  have space: "mq_curr mq + length buf \<le> length (mq_mem mq)" "length buf = mq_curr_sz mq"
    using mq_wf_space(1) [OF assms(1)] assms length_mq_free by simp_all
  then have "length (mq_mem (mq_fill mq buf)) = length (mq_mem mq)"
    by (simp add: mq_fill_def)
  then have "mqtt_mq_currsz (mq_fill mq buf) = mqtt_mq_currsz mq"
    by (simp add: mqtt_mq_currsz_def mqtt_mq_length_def mq_fill_def Let_def)
  then have "mq_wf (mq_fill mq buf)"
    using assms(1) space by (simp add: mq_wf_def mqtt_mq_length_def) (simp add: mq_fill_def)
  moreover have "map (entry_of (overwrite (mq_mem mq) (mq_curr mq) buf)) (mq_queue mq) = mq_view mq"
    by (rule view_cong [OF assms(1)], rule take_overwrite) (use space in simp)
  then have "mq_view (mq_fill mq buf) = mq_view mq"
    by (simp add: mq_view_def [of "mq_fill mq buf"]) (simp add: mq_fill_def)
  moreover have "mq_free (mq_fill mq buf) = buf"
    using space by (simp add: mq_free_def mq_fill_def overwrite_def)
  ultimately show ?thesis by simp
qed

text \<open>Registering \<open>n\<close> free bytes appends the packet made of them, unsent.\<close>

definition registered_entry :: "mqtt_message_queue \<Rightarrow> nat \<Rightarrow> queue_entry" where
  "registered_entry mq n = \<lparr>en_bytes = take n (mq_free mq), en_state = MQTT_QUEUED_UNSENT,
     en_type = qm_control_type (mq_slot mq 0), en_pid = qm_packet_id (mq_slot mq 0),
     en_time = qm_time_sent (mq_slot mq 0)\<rparr>"

lemma register_law:
  assumes wf: "mq_wf mq" and n: "0 < n" "n \<le> mq_curr_sz mq"
  shows "mq_wf (mqtt_mq_register mq n)"
    and "mq_view (mqtt_mq_register mq n) = mq_view mq @ [registered_entry mq n]"
proof -
  have "laid_out 0 (mq_queue mq) (mq_curr mq)" by (rule mq_wf_laid_out [OF wf])
  then show "mq_wf (mqtt_mq_register mq n)"
    using mq_wf_space(2) [OF wf n] wf
    by (simp add: mq_wf_def mqtt_mq_register_def mqtt_mq_length_def mqtt_mq_currsz_def laid_out_append Let_def)
  show "mq_view (mqtt_mq_register mq n) = mq_view mq @ [registered_entry mq n]"
    using n(2) by (simp add: mq_view_def mqtt_mq_register_def entry_of_def registered_entry_def mq_free_def
        Let_def min.absorb2 min.absorb1)
qed

text \<open>Cleaning drops exactly the complete messages at the head.\<close>

lemma currsz_wf:
  "laid_out 0 (mq_queue mq) (mq_curr mq) \<Longrightarrow>
   mq_curr mq + sizeof_queued_message * length (mq_queue mq) \<le> length (mq_mem mq) \<Longrightarrow> mq_set_up mq \<Longrightarrow>
   mq_wf (mq\<lparr>mq_curr_sz := mqtt_mq_currsz mq\<rparr>)"
  by (simp add: mq_wf_def mqtt_mq_length_def mqtt_mq_currsz_def Let_def)

lemma mqtt_mq_clean_head:
  assumes wf: "mq_wf mq" and h: "first_incomplete (mq_queue mq) < mqtt_mq_length mq"
  shows "\<exists>mq'. mqtt_mq_clean mq = Some mq' \<and> mq_wf mq' \<and>
    mq_view mq' = drop (first_incomplete (mq_queue mq)) (mq_view mq) \<and>
    length (mq_mem mq') = length (mq_mem mq)"
proof (cases "first_incomplete (mq_queue mq)")
  case 0
  then show ?thesis using assms by (simp add: mqtt_mq_clean_def Let_def)
next
  case (Suc k)
  let ?q = "mq_queue mq" and ?h = "first_incomplete (mq_queue mq)" and ?c = "mq_curr mq"
  let ?r = "qm_start (?q ! ?h)" and ?rest = "drop ?h ?q"
  let ?move = "\<lambda>m. m\<lparr>qm_start := qm_start m - ?r\<rparr>"
  let ?bytes = "take (?c - ?r) (drop ?r (mq_mem mq))"
  have split: "?q = take ?h ?q @ ?rest" "?rest = ?q ! ?h # drop (Suc ?h) ?q"
    using h by (simp_all add: mqtt_mq_length_def Cons_nth_drop_Suc)
  have "laid_out 0 (take ?h ?q @ ?rest) ?c"
    using mq_wf_laid_out [OF wf] by simp
  then obtain t where "laid_out t ?rest ?c" by (auto simp only: laid_out_append)
  then have out: "laid_out ?r ?rest ?c" using split(2) by (metis laid_out.simps(2))
  then have rc: "?r \<le> ?c" by (rule laid_out_le)
  have cm: "?c + sizeof_queued_message * length ?q \<le> length (mq_mem mq)"
    using mq_wf_fits [OF wf] by (simp add: mqtt_mq_length_def)
  define mq1 where "mq1 = mq\<lparr>mq_mem := overwrite (mq_mem mq) 0 ?bytes, mq_curr := ?c - ?r,
      mq_queue := map ?move ?rest\<rparr>"
  have "mqtt_mq_clean mq = Some (mq1\<lparr>mq_curr_sz := mqtt_mq_currsz mq1\<rparr>)"
    using h rc cm Suc by (simp add: mqtt_mq_clean_def Let_def mem_block_def mq1_def)
  moreover have "mq_wf (mq1\<lparr>mq_curr_sz := mqtt_mq_currsz mq1\<rparr>)"
  proof (rule currsz_wf)
    show "laid_out 0 (mq_queue mq1) (mq_curr mq1)"
      using laid_out_shift [OF out order.refl] by (simp add: mq1_def)
    have "?c - ?r + sizeof_queued_message * (length ?q - ?h) \<le> ?c + sizeof_queued_message * length ?q"
      by (intro add_mono mult_le_mono) simp_all
    from le_trans [OF this cm]
    show "mq_curr mq1 + sizeof_queued_message * length (mq_queue mq1) \<le> length (mq_mem mq1)"
      using cm by (simp add: mq1_def)
    show "mq_set_up mq1" using wf by (simp add: mq1_def mq_wf_def)
  qed
  moreover have "entry_of (overwrite (mq_mem mq) 0 ?bytes) (?move m) = entry_of (mq_mem mq) m"
    if "m \<in> set ?rest" for m
    using laid_out_member [OF out that] cm by (intro entry_of_moved) simp_all
  then have "map (entry_of (overwrite (mq_mem mq) 0 ?bytes)) (map ?move ?rest) = map (entry_of (mq_mem mq)) ?rest"
    by simp
  then have "mq_view (mq1\<lparr>mq_curr_sz := mqtt_mq_currsz mq1\<rparr>) = drop ?h (mq_view mq)"
    by (simp add: mq_view_def mq1_def drop_map)
  moreover have "length (mq_mem mq1) = length (mq_mem mq)"
    using cm by (simp add: mq1_def)
  ultimately show ?thesis by simp
qed

lemma mqtt_mq_clean_law:
  assumes wf: "mq_wf mq"
  shows "\<exists>mq'. mqtt_mq_clean mq = Some mq' \<and> mq_wf mq' \<and> mq_view mq' = dropWhile complete (mq_view mq) \<and>
    length (mq_mem mq') = length (mq_mem mq)"
proof -
  have dw: "dropWhile complete (mq_view mq) = drop (first_incomplete (mq_queue mq)) (mq_view mq)"
    by (simp add: mq_view_def dropWhile_map drop_map drop_first_incomplete comp_def)
  show ?thesis
  proof (cases "first_incomplete (mq_queue mq) < mqtt_mq_length mq")
    case True
    with mqtt_mq_clean_head [OF wf] show ?thesis by (simp add: dw)
  next
    case False
    then have "drop (first_incomplete (mq_queue mq)) (mq_view mq) = []" by simp
    with False wf show ?thesis unfolding dw
      by (simp add: mqtt_mq_clean_def mq_wf_def mqtt_mq_length_def mqtt_mq_currsz_def mq_view_def Let_def)
  qed
qed

text \<open>Finding returns the first match.\<close>

lemma exists_nat_shift: "\<not> Q 0 \<Longrightarrow> (\<exists>k. Q k) \<longleftrightarrow> (\<exists>k. Q (Suc k))"
  by (metis not0_implies_Suc)

lemma find_from_None [queue_simps]: "find_from P ms i = None \<longleftrightarrow> (\<forall>m \<in> set ms. \<not> P m)"
  by (induction ms arbitrary: i) auto

lemma find_from_Some:
  "find_from P ms i = Some j \<longleftrightarrow>
     (\<exists>k. j = i + k \<and> k < length ms \<and> P (ms ! k) \<and> (\<forall>l < k. \<not> P (ms ! l)))"
proof (induction ms arbitrary: i)
  case (Cons m ms)
  show ?case
  proof (cases "P m")
    case True
    moreover have "k = 0" if "\<forall>l < k. \<not> P ((m # ms) ! l)" for k
      using that True by (cases k) auto
    ultimately show ?thesis by (auto intro: exI [of _ 0])
  next
    case False
    let ?Q = "\<lambda>k. j = i + k \<and> k < length (m # ms) \<and> P ((m # ms) ! k) \<and> (\<forall>l < k. \<not> P ((m # ms) ! l))"
    have "(\<forall>l < Suc k. \<not> P ((m # ms) ! l)) \<longleftrightarrow> (\<forall>l < k. \<not> P (ms ! l))" for k
      using False by (auto simp: less_Suc_eq_0_disj)
    then have "?Q (Suc k) \<longleftrightarrow> j = Suc i + k \<and> k < length ms \<and> P (ms ! k) \<and> (\<forall>l < k. \<not> P (ms ! l))" for k
      by simp
    moreover have "\<not> ?Q 0" using False by simp
    then have "(\<exists>k. ?Q k) \<longleftrightarrow> (\<exists>k. ?Q (Suc k))"
      using exists_nat_shift [of ?Q] by blast
    ultimately have "(\<exists>k. ?Q k) \<longleftrightarrow>
        (\<exists>k. j = Suc i + k \<and> k < length ms \<and> P (ms ! k) \<and> (\<forall>l < k. \<not> P (ms ! l)))" by simp
    with False Cons.IH show ?thesis by simp
  qed
qed simp

definition matches :: "MQTTControlPacketType \<Rightarrow> u16 option \<Rightarrow> queue_entry \<Rightarrow> bool" where
  "matches ctype packet_id e \<longleftrightarrow> en_type e = ctype \<and>
     (case packet_id of None \<Rightarrow> \<not> complete e | Some pid \<Rightarrow> en_pid e = pid)"

lemma mqtt_mq_find_view:
  "mqtt_mq_find mq ctype packet_id =
     find_from (\<lambda>m. matches ctype packet_id (entry_of (mq_mem mq) m)) (mq_queue mq) 0"
proof -
  have "(\<lambda>m. qm_control_type m = ctype \<and>
       (case packet_id of None \<Rightarrow> qm_state m \<noteq> MQTT_QUEUED_COMPLETE | Some pid \<Rightarrow> pid = qm_packet_id m)) =
     (\<lambda>m. matches ctype packet_id (entry_of (mq_mem mq) m))"
    by (auto simp: matches_def fun_eq_iff complete_def entry_of_def split: option.splits)
  then show ?thesis by (simp add: mqtt_mq_find_def)
qed

lemma mqtt_mq_find_Some:
  "mqtt_mq_find mq ctype packet_id = Some i \<longleftrightarrow> i < mqtt_mq_length mq \<and>
     matches ctype packet_id (mq_view mq ! i) \<and> (\<forall>j < i. \<not> matches ctype packet_id (mq_view mq ! j))"
  by (auto simp: mqtt_mq_find_view find_from_Some mqtt_mq_length_def mq_view_def)

lemma mqtt_mq_find_None:
  "mqtt_mq_find mq ctype packet_id = None \<longleftrightarrow> (\<forall>e \<in> set (mq_view mq). \<not> matches ctype packet_id e)"
  by (simp add: mqtt_mq_find_view find_from_None mq_view_def)

text \<open>Assigning to the fields of a descriptor that do not place it.\<close>

definition keeps_place :: "(mqtt_queued_message \<Rightarrow> mqtt_queued_message) \<Rightarrow> bool" where
  "keeps_place f \<longleftrightarrow> (\<forall>m. qm_start (f m) = qm_start m \<and> qm_size (f m) = qm_size m)"

lemma mq_update_wf:
  assumes "keeps_place f" and "mq_wf mq"
  shows "mq_wf (mq_update i f mq)"
proof -
  have "map (\<lambda>m. (qm_start m, qm_size m)) ((mq_queue mq)[i := f (mq_queue mq ! i)]) =
      map (\<lambda>m. (qm_start m, qm_size m)) (mq_queue mq)"
    using assms(1) by (cases "i < length (mq_queue mq)")
      (simp_all add: keeps_place_def map_update list_update_same_conv list_update_beyond)
  from laid_out_cong [OF this] show ?thesis
    using assms(2) by (simp add: mq_wf_def mq_update_def mqtt_mq_length_def mqtt_mq_currsz_def Let_def)
qed

lemma mq_update_view:
  "mq_view (mq_update i f mq) = (mq_view mq)[i := entry_of (mq_mem mq) (f (mq_queue mq ! i))]"
  by (simp add: mq_view_def mq_update_def map_update)

lemma mqtt_mq_length_update [simp]: "mqtt_mq_length (mq_update i f mq) = mqtt_mq_length mq"
  by (simp add: mqtt_mq_length_def mq_update_def)

lemma mq_update_frame [simp]:
  "mq_mem (mq_update i f mq) = mq_mem mq" "mq_curr (mq_update i f mq) = mq_curr mq"
  "mq_curr_sz (mq_update i f mq) = mq_curr_sz mq" "mq_free (mq_update i f mq) = mq_free mq"
  by (simp_all add: mq_update_def mq_free_def)

subsection \<open>The contract of a packet queue\<close>

text \<open>
  What the client relies on: free bytes it can fill without touching a queued packet, a commit that
  appends the filled bytes as an unfinished packet, and a clean that drops finished packets from
  the head only. Every client operation is a sequence of these, so no operation loses a packet that
  is not finished, and none reorders them.
\<close>

locale packet_queue =
  fixes inv :: "'q \<Rightarrow> bool"
    and view :: "'q \<Rightarrow> 'e list"
    and free :: "'q \<Rightarrow> 'b list"
    and fill :: "'q \<Rightarrow> 'b list \<Rightarrow> 'q"
    and commit :: "'q \<Rightarrow> nat \<Rightarrow> 'q"
    and clean :: "'q \<Rightarrow> 'q option"
    and finished :: "'e \<Rightarrow> bool"
    and payload :: "'e \<Rightarrow> 'b list"
  assumes fill_law: "inv q \<Longrightarrow> length bs = length (free q) \<Longrightarrow>
      inv (fill q bs) \<and> view (fill q bs) = view q \<and> free (fill q bs) = bs"
    and commit_law: "inv q \<Longrightarrow> 0 < n \<Longrightarrow> n \<le> length (free q) \<Longrightarrow>
      inv (commit q n) \<and> (\<exists>e. view (commit q n) = view q @ [e] \<and> payload e = take n (free q) \<and> \<not> finished e)"
    and clean_law: "inv q \<Longrightarrow> \<exists>q'. clean q = Some q' \<and> inv q' \<and> view q' = dropWhile finished (view q)"
begin

lemma filter_unfinished: "filter (\<lambda>e. \<not> finished e) (dropWhile finished es) = filter (\<lambda>e. \<not> finished e) es"
  by (induction es) auto

lemma clean_unfinished:
  assumes "inv q" and "clean q = Some q'"
  shows "inv q'" and "filter (\<lambda>e. \<not> finished e) (view q') = filter (\<lambda>e. \<not> finished e) (view q)"
    and "\<exists>ds. view q = ds @ view q' \<and> (\<forall>e \<in> set ds. finished e)"
  using clean_law [OF assms(1)] assms(2) filter_unfinished
  by (auto intro!: exI [of _ "takeWhile finished (view q)"] dest: set_takeWhileD)

lemma filled_commit:
  assumes "inv q" and "length bs = length (free q)" and "0 < n" and "n \<le> length bs"
  shows "inv (commit (fill q bs) n)"
    and "\<exists>e. view (commit (fill q bs) n) = view q @ [e] \<and> payload e = take n bs \<and> \<not> finished e"
  using fill_law [OF assms(1,2)] commit_law [of "fill q bs" n] assms(3,4) by auto

lemma stored_packet:
  assumes "inv q" and "length pkt \<le> length (free q)" and "pkt \<noteq> []"
  shows "inv (commit (fill q (overwrite (free q) 0 pkt)) (length pkt))"
    and "\<exists>e. view (commit (fill q (overwrite (free q) 0 pkt)) (length pkt)) = view q @ [e] \<and>
      payload e = pkt \<and> \<not> finished e"
  using filled_commit [OF assms(1), of "overwrite (free q) 0 pkt" "length pkt"] assms(2,3)
  by (simp_all add: overwrite_def)

end

text \<open>The model provides it, for blocks of any size.\<close>

definition mq_ok :: "nat \<Rightarrow> mqtt_message_queue \<Rightarrow> bool" where
  "mq_ok M mq \<longleftrightarrow> mq_wf mq \<and> length (mq_mem mq) = M"

interpretation mq: packet_queue "mq_ok M" mq_view mq_free mq_fill mqtt_mq_register mqtt_mq_clean complete en_bytes
  for M
proof unfold_locales
  show "mq_ok M (mq_fill q bs) \<and> mq_view (mq_fill q bs) = mq_view q \<and> mq_free (mq_fill q bs) = bs"
    if "mq_ok M q" "length bs = length (mq_free q)" for q bs
    using mq_fill_law [of q bs] that length_mq_free [of q] mq_wf_space(1) [of q]
    by (simp add: mq_ok_def) (simp add: mq_fill_def)
  show "mq_ok M (mqtt_mq_register q n) \<and> (\<exists>e. mq_view (mqtt_mq_register q n) = mq_view q @ [e] \<and>
      en_bytes e = take n (mq_free q) \<and> \<not> complete e)"
    if "mq_ok M q" "0 < n" "n \<le> length (mq_free q)" for q n
    using register_law [of q n] that length_mq_free [of q]
    by (simp add: registered_entry_def complete_def mq_ok_def) (simp add: mqtt_mq_register_def Let_def)
  show "\<exists>q'. mqtt_mq_clean q = Some q' \<and> mq_ok M q' \<and> mq_view q' = dropWhile complete (mq_view q)"
    if "mq_ok M q" for q
    using mqtt_mq_clean_law [of q] that by (auto simp: mq_ok_def)
qed

text \<open>The space left is what the packets and the descriptors do not take.\<close>

definition queue_space :: "nat \<Rightarrow> queue_entry list \<Rightarrow> nat" where
  "queue_space M es =
     M - sizeof_queued_message * (length es + 1) - sum_list (map (\<lambda>e. length (en_bytes e)) es)"

lemma laid_out_sum: "laid_out s ms e \<Longrightarrow> e = s + sum_list (map qm_size ms)"
proof (induction ms arbitrary: s)
  case (Cons m ms)
  then have "e = (s + qm_size m) + sum_list (map qm_size ms)" by (intro Cons.IH) simp
  then show ?case by simp
qed simp

lemma mq_view_sizes:
  assumes "mq_wf mq"
  shows "map (\<lambda>e. length (en_bytes e)) (mq_view mq) = map qm_size (mq_queue mq)"
proof -
  have "length (en_bytes (entry_of (mq_mem mq) m)) = qm_size m" if "m \<in> set (mq_queue mq)" for m
    using mq_wf_message [OF assms that] by (simp add: entry_of_def)
  then show ?thesis by (simp add: mq_view_def)
qed

lemma mq_space:
  assumes "mq_ok M mq"
  shows "length (mq_free mq) = queue_space M (mq_view mq)"
proof -
  have wf: "mq_wf mq" using assms by (simp add: mq_ok_def)
  have "mq_curr mq = sum_list (map (\<lambda>e. length (en_bytes e)) (mq_view mq))"
    using laid_out_sum [OF mq_wf_laid_out [OF wf]] mq_view_sizes [OF wf] by simp
  then show ?thesis
    using assms length_mq_free [OF wf]
    by (simp add: mq_ok_def mq_wf_def queue_space_def mqtt_mq_currsz_def Let_def)
qed

lemma mq_update_ok: "keeps_place f \<Longrightarrow> mq_ok M mq \<Longrightarrow> mq_ok M (mq_update i f mq)"
  using mq_update_wf [of f mq i] by (simp add: mq_ok_def)

subsection \<open>Writing into a queued packet\<close>

text \<open>Two messages do not overlap, so a write into one leaves the others alone.\<close>

lemma laid_out_ordered:
  "laid_out s ms e \<Longrightarrow> j < i \<Longrightarrow> i < length ms \<Longrightarrow> qm_start (ms ! j) + qm_size (ms ! j) \<le> qm_start (ms ! i)"
proof (induction ms arbitrary: s i j)
  case (Cons m ms)
  obtain i' where i: "i = Suc i'" using Cons.prems(2) by (cases i) simp_all
  have tail: "laid_out (s + qm_size m) ms e" and start: "qm_start m = s" using Cons.prems(1) by simp_all
  have i': "i' < length ms" using Cons.prems(3) i by simp
  show ?case
  proof (cases j)
    case 0
    with laid_out_member [OF tail nth_mem [OF i']] start i show ?thesis by simp
  next
    case (Suc j')
    with Cons.IH [OF tail, of j' i'] Cons.prems(2) i i' show ?thesis by simp
  qed
qed simp

lemma poke_first_view:
  assumes ok: "mq_ok M mq" and i: "i < mqtt_mq_length mq" and ne: "en_bytes (mq_view mq ! i) \<noteq> []"
  defines "s \<equiv> qm_start (mq_queue mq ! i)"
  shows "s < length (mq_mem mq)" and "mq_mem mq ! s = hd (en_bytes (mq_view mq ! i))"
    and "mq_ok M (mq\<lparr>mq_mem := (mq_mem mq)[s := b]\<rparr>)"
    and "mq_view (mq\<lparr>mq_mem := (mq_mem mq)[s := b]\<rparr>) =
      (mq_view mq)[i := (mq_view mq ! i)\<lparr>en_bytes := b # tl (en_bytes (mq_view mq ! i))\<rparr>]"
proof -
  let ?m = "mq_queue mq ! i"
  have wf: "mq_wf mq" using ok by (simp add: mq_ok_def)
  have i': "i < length (mq_queue mq)" using i by (simp add: mqtt_mq_length_def)
  have out: "laid_out 0 (mq_queue mq) (mq_curr mq)" by (rule mq_wf_laid_out [OF wf])
  have end_le: "s + qm_size ?m \<le> length (mq_mem mq)"
    using mq_wf_message [OF wf nth_mem [OF i']] by (simp add: s_def)
  have bytes: "en_bytes (mq_view mq ! i) = take (qm_size ?m) (drop s (mq_mem mq))"
    using i' by (simp add: mq_view_def entry_of_def s_def)
  have pos: "0 < qm_size ?m" using ne bytes by (cases "qm_size ?m") simp_all
  show s: "s < length (mq_mem mq)" using pos end_le by simp
  show "mq_mem mq ! s = hd (en_bytes (mq_view mq ! i))"
    using s pos unfolding bytes by (simp add: hd_conv_nth)
  show "mq_ok M (mq\<lparr>mq_mem := (mq_mem mq)[s := b]\<rparr>)"
    using ok by (simp add: mq_ok_def mq_wf_def mqtt_mq_length_def mqtt_mq_currsz_def Let_def)
  show "mq_view (mq\<lparr>mq_mem := (mq_mem mq)[s := b]\<rparr>) =
      (mq_view mq)[i := (mq_view mq ! i)\<lparr>en_bytes := b # tl (en_bytes (mq_view mq ! i))\<rparr>]"
  proof (rule nth_equalityI)
    fix j
    assume "j < length (mq_view (mq\<lparr>mq_mem := (mq_mem mq)[s := b]\<rparr>))"
    then have j: "j < length (mq_queue mq)" by (simp add: mqtt_mq_length_def)
    let ?n = "mq_queue mq ! j"
    show "mq_view (mq\<lparr>mq_mem := (mq_mem mq)[s := b]\<rparr>) ! j =
        ((mq_view mq)[i := (mq_view mq ! i)\<lparr>en_bytes := b # tl (en_bytes (mq_view mq ! i))\<rparr>]) ! j"
    proof (cases "j = i")
      case True
      obtain k where k: "qm_size ?m = Suc k" using pos by (cases "qm_size ?m") simp_all
      have "take (qm_size ?m) (drop s ((mq_mem mq)[s := b])) = b # take k (drop (Suc s) (mq_mem mq))"
        using s unfolding k by (simp add: drop_update_swap Cons_nth_drop_Suc [symmetric])
      moreover have "tl (en_bytes (mq_view mq ! i)) = take k (drop (Suc s) (mq_mem mq))"
        using s unfolding bytes k by (simp add: Cons_nth_drop_Suc [symmetric])
      ultimately show ?thesis
        using True i' by (simp add: mq_view_def entry_of_def s_def)
    next
      case False
      then have "qm_start ?n + qm_size ?n \<le> s \<or> s < qm_start ?n"
        using laid_out_ordered [OF out, of j i] laid_out_ordered [OF out, of i j] i' j pos
        by (cases "j < i") (auto simp: s_def)
      then have "take (qm_size ?n) (drop (qm_start ?n) ((mq_mem mq)[s := b])) =
          take (qm_size ?n) (drop (qm_start ?n) (mq_mem mq))"
        by (auto simp: drop_update_swap not_less intro: take_update_cancel)
      with False j show ?thesis by (simp add: mq_view_def entry_of_def)
    qed
  qed (use i in \<open>simp add: mqtt_mq_length_def\<close>)
qed

end
