(* ===== verification/Mqtt_Pid.thy ===== *)
theory Mqtt_Pid
  imports Mqtt_Queue
begin

text \<open>
  The packet id generator of \<open>__mqtt_next_pid\<close> (\<open>src/mqtt.c\<close>): a 16-bit Galois shift register with
  the taps 0xB400, stepped until it shows an id that no queued message has. The loop is modelled by
  a partial function, so that its termination is a theorem: the register runs through all 65535
  non-zero values before it repeats one, and the queue holds fewer messages than that.
\<close>

subsection \<open>The generator\<close>

text \<open>One pass of the shift register.\<close>

definition lfsr_step :: "u16 \<Rightarrow> u16" where
  "lfsr_step l = (if l AND 1 \<noteq> 0 then drop_bit 1 l XOR 0xB400 else drop_bit 1 l)"

text \<open>The inner loop: does a queued message have this packet id?\<close>

fun pid_exists :: "u16 \<Rightarrow> mqtt_queued_message list \<Rightarrow> bool" where
  "pid_exists pid [] = False"
| "pid_exists pid (m # ms) = (if qm_packet_id m = pid then True else pid_exists pid ms)"

text \<open>The \<open>do ... while (pid_exists)\<close> loop.\<close>

partial_function (option) next_pid_loop :: "mqtt_queued_message list \<Rightarrow> u16 \<Rightarrow> u16 option" where
  [code]: "next_pid_loop ms l =
     (let l' = lfsr_step l in if pid_exists l' ms then next_pid_loop ms l' else Some l')"

definition next_pid :: "mqtt_queued_message list \<Rightarrow> u16 \<Rightarrow> u16 option" where
  "next_pid ms pid_lfsr = next_pid_loop ms (if pid_lfsr = 0 then 163 else pid_lfsr)"

lemma pid_exists_iff: "pid_exists pid ms \<longleftrightarrow> pid \<in> qm_packet_id ` set ms"
  by (induction ms) auto

subsection \<open>The register is linear\<close>

lemma bit_lfsr_step: "bit (lfsr_step l) n \<longleftrightarrow> (bit l (Suc n) \<noteq> (bit l 0 \<and> bit (0xB400 :: u16) n))"
proof -
  have "l AND 1 \<noteq> 0 \<longleftrightarrow> bit l 0" by (simp add: bit_0 and_one_eq odd_iff_mod_2_eq_one)
  then show ?thesis by (simp add: lfsr_step_def bit_xor_iff bit_drop_bit_eq)
qed

lemma lfsr_step_0 [simp]: "lfsr_step 0 = 0"
  by (simp add: lfsr_step_def)

lemma lfsr_step_xor: "lfsr_step (x XOR y) = lfsr_step x XOR lfsr_step y"
  by (rule bit_word_eqI) (auto simp: bit_lfsr_step bit_xor_iff)

lemma lfsr_step_eq_0_iff: "lfsr_step x = 0 \<longleftrightarrow> x = 0"
proof
  assume 0: "lfsr_step x = 0"
  have "bit (lfsr_step x) 15 \<longleftrightarrow> bit x 0"
    by (simp add: bit_lfsr_step impossible_bit)
  then have "\<not> bit x 0" using 0 by simp
  then have "\<not> bit x (Suc n)" for n using 0 bit_lfsr_step [of x n] by simp
  with \<open>\<not> bit x 0\<close> show "x = 0" by (intro bit_word_eqI) (metis bit_0_eq bot_apply bot_bool_def not0_implies_Suc)
qed simp

lemma xor_eq_0: "x XOR y = 0 \<longleftrightarrow> x = (y :: 'a::len word)"
  by (metis xor.assoc xor.right_neutral xor_self_eq xor.left_neutral)

abbreviation lfsr :: "nat \<Rightarrow> u16 \<Rightarrow> u16" where
  "lfsr n \<equiv> lfsr_step ^^ n"

lemma lfsr_xor: "lfsr n (x XOR y) = lfsr n x XOR lfsr n y"
  by (induction n) (simp_all add: lfsr_step_xor)

lemma lfsr_0 [simp]: "lfsr n 0 = 0"
  by (induction n) simp_all

lemma lfsr_eq_0_iff: "lfsr n x = 0 \<longleftrightarrow> x = 0"
  by (induction n) (simp_all add: lfsr_step_eq_0_iff)

lemma lfsr_inject: "lfsr n x = lfsr n y \<longleftrightarrow> x = y"
  by (metis lfsr_xor lfsr_eq_0_iff xor_eq_0)

subsection \<open>Powers of the register\<close>

text \<open>
  The register started at 0x8000 is a cyclic vector: every value \<open>u\<close> is a sum of its first sixteen
  states, so \<open>lfsr n u\<close> is the same sum of \<open>lfsr n 0x8000\<close>. This makes large powers computable by
  squaring.
\<close>

fun comb :: "nat \<Rightarrow> u16 \<Rightarrow> u16 \<Rightarrow> u16" where
  "comb 0 u v = 0"
| "comb (Suc n) u v = (if bit u n then v else 0) XOR comb n u (lfsr_step v)"

lemma comb_0 [simp]: "comb n u 0 = 0"
  by (induction n arbitrary: u) simp_all

lemma comb_xor: "comb n u (v XOR w) = comb n u v XOR comb n u w"
  by (induction n arbitrary: u v w) (simp_all add: lfsr_step_xor ac_simps)

lemma lfsr_step_comb: "lfsr_step (comb n u v) = comb n u (lfsr_step v)"
  by (induction n arbitrary: u v) (simp_all add: lfsr_step_xor)

lemma lfsr_comb: "lfsr k (comb n u v) = comb n u (lfsr k v)"
  by (induction k) (simp_all add: lfsr_step_comb)

lemma comb_numeral:
  "comb (numeral k) u v =
     (if bit u (pred_numeral k) then v else 0) XOR comb (pred_numeral k) u (lfsr_step v)"
  by (simp add: numeral_eq_Suc)

lemma comb_basis:
  "comb 16 u 0x8000 = (if bit u 15 then 32768 else 0) XOR (if bit u 14 then 16384 else 0) XOR (if bit u 13 then 8192 else 0) XOR 
     (if bit u 12 then 4096 else 0) XOR (if bit u 11 then 2048 else 0) XOR (if bit u 10 then 1024 else 0) XOR 
     (if bit u 9 then 512 else 0) XOR (if bit u 8 then 256 else 0) XOR (if bit u 7 then 128 else 0) XOR 
     (if bit u 6 then 64 else 0) XOR (if bit u 5 then 32 else 0) XOR (if bit u 4 then 16 else 0) XOR 
     (if bit u 3 then 8 else 0) XOR (if bit u 2 then 4 else 0) XOR (if bit u 1 then 2 else 0) XOR 
     (if bit u 0 then 1 else 0)"
  by (simp add: comb_numeral lfsr_step_def split del: if_split)

lemma bit_if: "bit (if c then v else 0) n \<longleftrightarrow> c \<and> bit (v :: u16) n"
  by simp

lemma comb_cyclic: "comb 16 u 0x8000 = u"
proof (rule bit_word_eqI)
  fix n assume "n < LENGTH(16)"
  then have "n \<in> {0, 1, 2, 3, 4, 5, 6, 7, 8, 9, 10, 11, 12, 13, 14, 15}"
    by (simp del: One_nat_def, presburger)
  then show "bit (comb 16 u 0x8000) n = bit u n"
    by (elim insertE emptyE) (simp_all add: comb_basis bit_xor_iff bit_if)
qed

lemma lfsr_add:
  assumes "lfsr a 0x8000 = u" and "lfsr b 0x8000 = v"
  shows "lfsr (a + b) 0x8000 = comb 16 u v"
proof -
  have "lfsr (a + b) 0x8000 = lfsr b (lfsr a 0x8000)"
    by (simp add: funpow_add add.commute [of a])
  also have "\<dots> = lfsr b (comb 16 u 0x8000)" by (simp only: assms(1) comb_cyclic)
  also have "\<dots> = comb 16 u v" by (simp only: lfsr_comb assms(2))
  finally show ?thesis .
qed

lemma lfsr_addI:
  "lfsr a 0x8000 = u \<Longrightarrow> lfsr b 0x8000 = v \<Longrightarrow> c = a + b \<Longrightarrow> comb 16 u v = w \<Longrightarrow> lfsr c 0x8000 = w"
  using lfsr_add by blast

text \<open>The powers of two, by squaring, and the five powers the period argument needs.\<close>

lemma lfsr_1: "lfsr 1 0x8000 = 0x4000"
  by (simp add: lfsr_step_def)

lemmas comb_16 = comb_numeral lfsr_step_def

lemma lfsr_2: "lfsr 2 0x8000 = 0x2000"
  by (rule lfsr_addI [OF lfsr_1 lfsr_1]) (simp_all add: comb_16)

lemma lfsr_4: "lfsr 4 0x8000 = 0x0800"
  by (rule lfsr_addI [OF lfsr_2 lfsr_2]) (simp_all add: comb_16)

lemma lfsr_8: "lfsr 8 0x8000 = 0x0080"
  by (rule lfsr_addI [OF lfsr_4 lfsr_4]) (simp_all add: comb_16)

lemma lfsr_16: "lfsr 16 0x8000 = 0xB400"
  by (rule lfsr_addI [OF lfsr_8 lfsr_8]) (simp_all add: comb_16)

lemma lfsr_32: "lfsr 32 0x8000 = 0x8A20"
  by (rule lfsr_addI [OF lfsr_16 lfsr_16]) (simp_all add: comb_16)

lemma lfsr_64: "lfsr 64 0x8000 = 0x8BC8"
  by (rule lfsr_addI [OF lfsr_32 lfsr_32]) (simp_all add: comb_16)

lemma lfsr_128: "lfsr 128 0x8000 = 0x193E"
  by (rule lfsr_addI [OF lfsr_64 lfsr_64]) (simp_all add: comb_16)

lemma lfsr_256: "lfsr 256 0x8000 = 0x5180"
  by (rule lfsr_addI [OF lfsr_128 lfsr_128]) (simp_all add: comb_16)

lemma lfsr_512: "lfsr 512 0x8000 = 0x9602"
  by (rule lfsr_addI [OF lfsr_256 lfsr_256]) (simp_all add: comb_16)

lemma lfsr_1024: "lfsr 1024 0x8000 = 0xD823"
  by (rule lfsr_addI [OF lfsr_512 lfsr_512]) (simp_all add: comb_16)

lemma lfsr_2048: "lfsr 2048 0x8000 = 0x0B49"
  by (rule lfsr_addI [OF lfsr_1024 lfsr_1024]) (simp_all add: comb_16)

lemma lfsr_4096: "lfsr 4096 0x8000 = 0xD5BC"
  by (rule lfsr_addI [OF lfsr_2048 lfsr_2048]) (simp_all add: comb_16)

lemma lfsr_8192: "lfsr 8192 0x8000 = 0x1F2B"
  by (rule lfsr_addI [OF lfsr_4096 lfsr_4096]) (simp_all add: comb_16)

lemma lfsr_16384: "lfsr 16384 0x8000 = 0xABD7"
  by (rule lfsr_addI [OF lfsr_8192 lfsr_8192]) (simp_all add: comb_16)

lemma lfsr_32768: "lfsr 32768 0x8000 = 0xB1FE"
  by (rule lfsr_addI [OF lfsr_16384 lfsr_16384]) (simp_all add: comb_16)

lemma lfsr_65535: "lfsr 65535 0x8000 = 0x8000"
proof -
  have s3: "lfsr 3 0x8000 = 0x1000"
    by (rule lfsr_addI [OF lfsr_1 lfsr_2]) (simp_all add: comb_16)
  have s7: "lfsr 7 0x8000 = 0x0100"
    by (rule lfsr_addI [OF s3 lfsr_4]) (simp_all add: comb_16)
  have s15: "lfsr 15 0x8000 = 0x0001"
    by (rule lfsr_addI [OF s7 lfsr_8]) (simp_all add: comb_16)
  have s31: "lfsr 31 0x8000 = 0x7C41"
    by (rule lfsr_addI [OF s15 lfsr_16]) (simp_all add: comb_16)
  have s63: "lfsr 63 0x8000 = 0x7F91"
    by (rule lfsr_addI [OF s31 lfsr_32]) (simp_all add: comb_16)
  have s127: "lfsr 127 0x8000 = 0x327C"
    by (rule lfsr_addI [OF s63 lfsr_64]) (simp_all add: comb_16)
  have s255: "lfsr 255 0x8000 = 0xA300"
    by (rule lfsr_addI [OF s127 lfsr_128]) (simp_all add: comb_16)
  have s511: "lfsr 511 0x8000 = 0x4405"
    by (rule lfsr_addI [OF s255 lfsr_256]) (simp_all add: comb_16)
  have s1023: "lfsr 1023 0x8000 = 0xD847"
    by (rule lfsr_addI [OF s511 lfsr_512]) (simp_all add: comb_16)
  have s2047: "lfsr 2047 0x8000 = 0x1692"
    by (rule lfsr_addI [OF s1023 lfsr_1024]) (simp_all add: comb_16)
  have s4095: "lfsr 4095 0x8000 = 0xC379"
    by (rule lfsr_addI [OF s2047 lfsr_2048]) (simp_all add: comb_16)
  have s8191: "lfsr 8191 0x8000 = 0x3E56"
    by (rule lfsr_addI [OF s4095 lfsr_4096]) (simp_all add: comb_16)
  have s16383: "lfsr 16383 0x8000 = 0x3FAF"
    by (rule lfsr_addI [OF s8191 lfsr_8192]) (simp_all add: comb_16)
  have s32767: "lfsr 32767 0x8000 = 0x0BFD"
    by (rule lfsr_addI [OF s16383 lfsr_16384]) (simp_all add: comb_16)
  have s65535: "lfsr 65535 0x8000 = 0x8000"
    by (rule lfsr_addI [OF s32767 lfsr_32768]) (simp_all add: comb_16)
  show ?thesis by (rule s65535)
qed

lemma lfsr_43690: "lfsr 43690 0x8000 = 0xD335"
proof -
  have s10: "lfsr 10 0x8000 = 0x0020"
    by (rule lfsr_addI [OF lfsr_2 lfsr_8]) (simp_all add: comb_16)
  have s42: "lfsr 42 0x8000 = 0xBF62"
    by (rule lfsr_addI [OF s10 lfsr_32]) (simp_all add: comb_16)
  have s170: "lfsr 170 0x8000 = 0x843A"
    by (rule lfsr_addI [OF s42 lfsr_128]) (simp_all add: comb_16)
  have s682: "lfsr 682 0x8000 = 0xB406"
    by (rule lfsr_addI [OF s170 lfsr_512]) (simp_all add: comb_16)
  have s2730: "lfsr 2730 0x8000 = 0x8A09"
    by (rule lfsr_addI [OF s682 lfsr_2048]) (simp_all add: comb_16)
  have s10922: "lfsr 10922 0x8000 = 0x8760"
    by (rule lfsr_addI [OF s2730 lfsr_8192]) (simp_all add: comb_16)
  have s43690: "lfsr 43690 0x8000 = 0xD335"
    by (rule lfsr_addI [OF s10922 lfsr_32768]) (simp_all add: comb_16)
  show ?thesis by (rule s43690)
qed

lemma lfsr_61166: "lfsr 61166 0x8000 = 0xDF61"
proof -
  have s6: "lfsr 6 0x8000 = 0x0200"
    by (rule lfsr_addI [OF lfsr_2 lfsr_4]) (simp_all add: comb_16)
  have s14: "lfsr 14 0x8000 = 0x0002"
    by (rule lfsr_addI [OF s6 lfsr_8]) (simp_all add: comb_16)
  have s46: "lfsr 46 0x8000 = 0x26F6"
    by (rule lfsr_addI [OF s14 lfsr_32]) (simp_all add: comb_16)
  have s110: "lfsr 110 0x8000 = 0xACFF"
    by (rule lfsr_addI [OF s46 lfsr_64]) (simp_all add: comb_16)
  have s238: "lfsr 238 0x8000 = 0x7B8F"
    by (rule lfsr_addI [OF s110 lfsr_128]) (simp_all add: comb_16)
  have s750: "lfsr 750 0x8000 = 0x5268"
    by (rule lfsr_addI [OF s238 lfsr_512]) (simp_all add: comb_16)
  have s1774: "lfsr 1774 0x8000 = 0x13DB"
    by (rule lfsr_addI [OF s750 lfsr_1024]) (simp_all add: comb_16)
  have s3822: "lfsr 3822 0x8000 = 0xCD66"
    by (rule lfsr_addI [OF s1774 lfsr_2048]) (simp_all add: comb_16)
  have s12014: "lfsr 12014 0x8000 = 0xFAA9"
    by (rule lfsr_addI [OF s3822 lfsr_8192]) (simp_all add: comb_16)
  have s28398: "lfsr 28398 0x8000 = 0x1911"
    by (rule lfsr_addI [OF s12014 lfsr_16384]) (simp_all add: comb_16)
  have s61166: "lfsr 61166 0x8000 = 0xDF61"
    by (rule lfsr_addI [OF s28398 lfsr_32768]) (simp_all add: comb_16)
  show ?thesis by (rule s61166)
qed

lemma lfsr_8481: "lfsr 8481 0x8000 = 0xAD35"
proof -
  have s33: "lfsr 33 0x8000 = 0x4510"
    by (rule lfsr_addI [OF lfsr_1 lfsr_32]) (simp_all add: comb_16)
  have s289: "lfsr 289 0x8000 = 0x1165"
    by (rule lfsr_addI [OF s33 lfsr_256]) (simp_all add: comb_16)
  have s8481: "lfsr 8481 0x8000 = 0xAD35"
    by (rule lfsr_addI [OF s289 lfsr_8192]) (simp_all add: comb_16)
  show ?thesis by (rule s8481)
qed

lemma lfsr_12849: "lfsr 12849 0x8000 = 0x2300"
proof -
  have s17: "lfsr 17 0x8000 = 0x5A00"
    by (rule lfsr_addI [OF lfsr_1 lfsr_16]) (simp_all add: comb_16)
  have s49: "lfsr 49 0x8000 = 0xEADE"
    by (rule lfsr_addI [OF s17 lfsr_32]) (simp_all add: comb_16)
  have s561: "lfsr 561 0x8000 = 0xDDA9"
    by (rule lfsr_addI [OF s49 lfsr_512]) (simp_all add: comb_16)
  have s4657: "lfsr 4657 0x8000 = 0x9C98"
    by (rule lfsr_addI [OF s561 lfsr_4096]) (simp_all add: comb_16)
  have s12849: "lfsr 12849 0x8000 = 0x2300"
    by (rule lfsr_addI [OF s4657 lfsr_8192]) (simp_all add: comb_16)
  show ?thesis by (rule s12849)
qed

lemma lfsr_21845: "lfsr 21845 0x8000 = 0x5335"
proof -
  have s5: "lfsr 5 0x8000 = 0x0400"
    by (rule lfsr_addI [OF lfsr_1 lfsr_4]) (simp_all add: comb_16)
  have s21: "lfsr 21 0x8000 = 0x05A0"
    by (rule lfsr_addI [OF s5 lfsr_16]) (simp_all add: comb_16)
  have s85: "lfsr 85 0x8000 = 0xCF70"
    by (rule lfsr_addI [OF s21 lfsr_64]) (simp_all add: comb_16)
  have s341: "lfsr 341 0x8000 = 0xDD87"
    by (rule lfsr_addI [OF s85 lfsr_256]) (simp_all add: comb_16)
  have s1365: "lfsr 1365 0x8000 = 0x6803"
    by (rule lfsr_addI [OF s341 lfsr_1024]) (simp_all add: comb_16)
  have s5461: "lfsr 5461 0x8000 = 0x3C5F"
    by (rule lfsr_addI [OF s1365 lfsr_4096]) (simp_all add: comb_16)
  have s21845: "lfsr 21845 0x8000 = 0x5335"
    by (rule lfsr_addI [OF s5461 lfsr_16384]) (simp_all add: comb_16)
  show ?thesis by (rule s21845)
qed

lemma lfsr_13107: "lfsr 13107 0x8000 = 0x5F61"
proof -
  have s3: "lfsr 3 0x8000 = 0x1000"
    by (rule lfsr_addI [OF lfsr_1 lfsr_2]) (simp_all add: comb_16)
  have s19: "lfsr 19 0x8000 = 0x1680"
    by (rule lfsr_addI [OF s3 lfsr_16]) (simp_all add: comb_16)
  have s51: "lfsr 51 0x8000 = 0x8EB7"
    by (rule lfsr_addI [OF s19 lfsr_32]) (simp_all add: comb_16)
  have s307: "lfsr 307 0x8000 = 0xD2B6"
    by (rule lfsr_addI [OF s51 lfsr_256]) (simp_all add: comb_16)
  have s819: "lfsr 819 0x8000 = 0xE21F"
    by (rule lfsr_addI [OF s307 lfsr_512]) (simp_all add: comb_16)
  have s4915: "lfsr 4915 0x8000 = 0x878E"
    by (rule lfsr_addI [OF s819 lfsr_4096]) (simp_all add: comb_16)
  have s13107: "lfsr 13107 0x8000 = 0x5F61"
    by (rule lfsr_addI [OF s4915 lfsr_8192]) (simp_all add: comb_16)
  show ?thesis by (rule s13107)
qed

lemma lfsr_3855: "lfsr 3855 0x8000 = 0x2D35"
proof -
  have s3: "lfsr 3 0x8000 = 0x1000"
    by (rule lfsr_addI [OF lfsr_1 lfsr_2]) (simp_all add: comb_16)
  have s7: "lfsr 7 0x8000 = 0x0100"
    by (rule lfsr_addI [OF s3 lfsr_4]) (simp_all add: comb_16)
  have s15: "lfsr 15 0x8000 = 0x0001"
    by (rule lfsr_addI [OF s7 lfsr_8]) (simp_all add: comb_16)
  have s271: "lfsr 271 0x8000 = 0x9AB8"
    by (rule lfsr_addI [OF s15 lfsr_256]) (simp_all add: comb_16)
  have s783: "lfsr 783 0x8000 = 0xDC01"
    by (rule lfsr_addI [OF s271 lfsr_512]) (simp_all add: comb_16)
  have s1807: "lfsr 1807 0x8000 = 0xAF69"
    by (rule lfsr_addI [OF s783 lfsr_1024]) (simp_all add: comb_16)
  have s3855: "lfsr 3855 0x8000 = 0x2D35"
    by (rule lfsr_addI [OF s1807 lfsr_2048]) (simp_all add: comb_16)
  show ?thesis by (rule s3855)
qed

lemma lfsr_255: "lfsr 255 0x8000 = 0xA300"
proof -
  have s3: "lfsr 3 0x8000 = 0x1000"
    by (rule lfsr_addI [OF lfsr_1 lfsr_2]) (simp_all add: comb_16)
  have s7: "lfsr 7 0x8000 = 0x0100"
    by (rule lfsr_addI [OF s3 lfsr_4]) (simp_all add: comb_16)
  have s15: "lfsr 15 0x8000 = 0x0001"
    by (rule lfsr_addI [OF s7 lfsr_8]) (simp_all add: comb_16)
  have s31: "lfsr 31 0x8000 = 0x7C41"
    by (rule lfsr_addI [OF s15 lfsr_16]) (simp_all add: comb_16)
  have s63: "lfsr 63 0x8000 = 0x7F91"
    by (rule lfsr_addI [OF s31 lfsr_32]) (simp_all add: comb_16)
  have s127: "lfsr 127 0x8000 = 0x327C"
    by (rule lfsr_addI [OF s63 lfsr_64]) (simp_all add: comb_16)
  have s255: "lfsr 255 0x8000 = 0xA300"
    by (rule lfsr_addI [OF s127 lfsr_128]) (simp_all add: comb_16)
  show ?thesis by (rule s255)
qed

subsection \<open>The period\<close>

lemma lfsr_sum:
  assumes "lfsr k 0x8000 XOR 0x8000 = lfsr j 0x8000"
  shows "lfsr k x XOR x = lfsr j x"
proof -
  have "lfsr k x XOR x = lfsr k (comb 16 x 0x8000) XOR comb 16 x 0x8000" by (simp only: comb_cyclic)
  also have "\<dots> = comb 16 x (lfsr k 0x8000 XOR 0x8000)" by (simp only: lfsr_comb comb_xor)
  also have "\<dots> = lfsr j (comb 16 x 0x8000)" by (simp only: assms lfsr_comb)
  finally show ?thesis by (simp only: comb_cyclic)
qed

lemma lfsr_moves:
  assumes "lfsr k 0x8000 XOR 0x8000 = lfsr j 0x8000" and "x \<noteq> 0"
  shows "lfsr k x \<noteq> x"
  using lfsr_sum [OF assms(1), of x] assms(2) lfsr_eq_0_iff [of j x] by auto

lemma lfsr_no_short_period:
  assumes "x \<noteq> 0"
  shows "lfsr 21845 x \<noteq> x" "lfsr 13107 x \<noteq> x" "lfsr 3855 x \<noteq> x" "lfsr 255 x \<noteq> x"
  by (rule lfsr_moves [OF _ assms, of _ 43690], simp only: lfsr_21845 lfsr_43690, simp)
    (rule lfsr_moves [OF _ assms, of _ 61166], simp only: lfsr_13107 lfsr_61166, simp,
     rule lfsr_moves [OF _ assms, of _ 8481], simp only: lfsr_3855 lfsr_8481, simp,
     rule lfsr_moves [OF _ assms, of _ 12849], simp only: lfsr_255 lfsr_12849, simp)

lemma lfsr_period: "lfsr 65535 x = x"
proof -
  have "lfsr 65535 (comb 16 x 0x8000) = comb 16 x 0x8000" by (simp only: lfsr_comb lfsr_65535)
  then show ?thesis by (simp only: comb_cyclic)
qed

lemma lfsr_mult: "lfsr d x = x \<Longrightarrow> lfsr (d * k) x = x"
  by (induction k) (simp_all add: funpow_add)

lemma lfsr_gcd:
  assumes "lfsr a x = x" and "lfsr b x = x" and "a \<noteq> 0"
  shows "lfsr (gcd a b) x = x"
proof -
  obtain u v where "a * u = b * v + gcd a b" using bezout_nat [OF assms(3)] by blast
  moreover have "lfsr (b * v + gcd a b) x = lfsr (gcd a b) (lfsr (b * v) x)"
    by (simp add: funpow_add add.commute [of "b * v"])
  ultimately show ?thesis using lfsr_mult [OF assms(1), of u] lfsr_mult [OF assms(2), of v] by simp
qed

text \<open>A proper divisor of 65535 divides one of its four quotients by a prime.\<close>

lemma prime_step:
  assumes "(c :: nat) dvd p * n" and "\<And>k. k dvd p \<Longrightarrow> k = 1 \<or> k = p"
  shows "p dvd c \<or> c dvd n"
proof -
  have "gcd c p = 1 \<or> gcd c p = p" by (rule assms(2)) simp
  then show ?thesis
  proof
    assume "gcd c p = 1"
    then have "coprime c p" by (simp add: coprime_iff_gcd_eq_1)
    with assms(1) show ?thesis using coprime_dvd_mult_right_iff by blast
  next
    assume "gcd c p = p"
    then show ?thesis by (metis gcd_dvd1)
  qed
qed

lemma divisors_of:
  assumes "\<forall>k \<in> set [0..<Suc b]. k dvd p \<longrightarrow> k = 1" and "p < Suc b * Suc b" and "k dvd p" and "0 < p"
  shows "k = 1 \<or> k = p"
proof -
  obtain m where m: "p = k * m" by (rule dvdE [OF assms(3)])
  have "k < Suc b \<or> m < Suc b"
    using assms(2) m mult_le_mono [of "Suc b" k "Suc b" m] by linarith
  then show ?thesis
  proof
    assume "k < Suc b"
    with assms(1,3) show ?thesis by (simp only: set_upt) simp
  next
    assume "m < Suc b"
    moreover have "m dvd p" using m by simp
    ultimately have "m = 1" using assms(1) by (simp only: set_upt) simp
    with m show ?thesis by simp
  qed
qed

lemma small_primes:
  "k dvd 3 \<Longrightarrow> k = 1 \<or> k = (3 :: nat)" "k dvd 5 \<Longrightarrow> k = 1 \<or> k = (5 :: nat)"
  "k dvd 17 \<Longrightarrow> k = 1 \<or> k = (17 :: nat)" "k dvd 257 \<Longrightarrow> k = 1 \<or> k = (257 :: nat)"
  by (rule divisors_of [of 1], code_simp, simp, assumption, simp)
    (rule divisors_of [of 2], code_simp, simp, assumption, simp,
     rule divisors_of [of 4], code_simp, simp, assumption, simp,
     rule divisors_of [of 16], code_simp, simp, assumption, simp)

lemma factor_of_65535:
  assumes "c dvd (65535 :: nat)" and "c \<noteq> 1"
  obtains "3 dvd c" | "5 dvd c" | "17 dvd c" | "257 dvd c"
proof -
  have "3 dvd c \<or> c dvd 21845" by (rule prime_step [OF _ small_primes(1)]) (use assms(1) in simp)
  moreover have "5 dvd c \<or> c dvd 4369" if "c dvd 21845"
    by (rule prime_step [OF _ small_primes(2)]) (use that in simp)
  moreover have "17 dvd c \<or> c dvd 257" if "c dvd 4369"
    by (rule prime_step [OF _ small_primes(3)]) (use that in simp)
  moreover have "257 dvd c" if "c dvd 257" using small_primes(4) [OF that] assms(2) by simp
  ultimately show thesis using that by blast
qed

lemma lfsr_full_period:
  assumes "x \<noteq> 0" and "0 < d" and "d < 65535"
  shows "lfsr d x \<noteq> x"
proof
  assume "lfsr d x = x"
  let ?g = "gcd d 65535"
  have fixed: "lfsr ?g x = x"
    by (rule lfsr_gcd [OF \<open>lfsr d x = x\<close> lfsr_period]) (use assms(2) in simp)
  obtain c where c: "65535 = ?g * c" by (rule dvdE [OF gcd_dvd2])
  have "?g \<le> d" using assms(2) by (intro dvd_imp_le gcd_dvd1)
  with c assms(3) have "c \<noteq> 1" by auto
  have "c dvd 65535" by (rule dvdI [of _ _ ?g]) (use c in \<open>simp only: mult.commute\<close>)
  have quotient: "lfsr n x = x" if pc: "p dvd c" and pn: "65535 = p * n" "0 < p" for p n
  proof -
    obtain k where "c = p * k" by (rule dvdE [OF pc])
    with c pn have "p * n = p * (?g * k)" by (simp only: mult.left_commute [of p])
    with pn(2) have "n = ?g * k" by simp
    then show ?thesis using lfsr_mult [OF fixed, of k] by simp
  qed
  from \<open>c dvd 65535\<close> \<open>c \<noteq> 1\<close> show False
    by (rule factor_of_65535)
      (use quotient [of 3 21845] quotient [of 5 13107] quotient [of 17 3855] quotient [of 257 255]
        lfsr_no_short_period [OF assms(1)] in simp_all)
qed

lemma lfsr_distinct:
  assumes "x \<noteq> 0" and "i < 65535" and "j < 65535" and "lfsr i x = lfsr j x"
  shows "i = j"
proof -
  have *: "i = j" if "i \<le> j" "j < 65535" "lfsr i x = lfsr j x" for i j
  proof (rule ccontr)
    assume "i \<noteq> j"
    have "lfsr j x = lfsr i (lfsr (j - i) x)" using that(1) by (simp flip: funpow_add [THEN fun_cong, unfolded comp_def])
    with that(3) have "lfsr (j - i) x = x" by (simp add: lfsr_inject)
    moreover have "0 < j - i" "j - i < 65535" using that \<open>i \<noteq> j\<close> by linarith+
    ultimately show False using lfsr_full_period [OF assms(1)] by blast
  qed
  show ?thesis using * [of i j] * [of j i] assms by (cases "i \<le> j") auto
qed

subsection \<open>The generator returns a fresh id\<close>

lemma next_pid_loop_unroll:
  "(\<And>i. 0 < i \<Longrightarrow> i < n \<Longrightarrow> pid_exists (lfsr i l) ms) \<Longrightarrow> 0 < n \<Longrightarrow> \<not> pid_exists (lfsr n l) ms \<Longrightarrow>
   next_pid_loop ms l = Some (lfsr n l)"
proof (induction n arbitrary: l)
  case (Suc n)
  show ?case
  proof (cases "n = 0")
    case True
    with Suc.prems show ?thesis by (simp add: next_pid_loop.simps)
  next
    case False
    have "next_pid_loop ms l = next_pid_loop ms (lfsr_step l)"
      using Suc.prems(1) [of 1] False by (subst next_pid_loop.simps) (simp add: Let_def)
    also have "\<dots> = Some (lfsr n (lfsr_step l))"
    proof (rule Suc.IH)
      show "pid_exists (lfsr i (lfsr_step l)) ms" if "0 < i" "i < n" for i
        using Suc.prems(1) [of "Suc i"] that by (simp add: funpow_swap1)
    qed (use False Suc.prems(3) in \<open>simp_all add: funpow_swap1\<close>)
    finally show ?thesis by (simp add: funpow_swap1)
  qed
qed simp

lemma next_pid_loop_fresh:
  assumes "l \<noteq> 0" and "length ms < 65535"
  obtains n where "0 < n" "n < 65536" "next_pid_loop ms l = Some (lfsr n l)" "\<not> pid_exists (lfsr n l) ms"
proof -
  let ?used = "qm_packet_id ` set ms" and ?orbit = "(\<lambda>i. lfsr (Suc i) l) ` {..<65535}"
  have "lfsr_step l \<noteq> 0" using assms(1) by (simp add: lfsr_step_eq_0_iff)
  then have "inj_on (\<lambda>i. lfsr (Suc i) l) {..<65535}"
    by (intro inj_onI) (auto simp: funpow_swap1 intro: lfsr_distinct)
  then have "card ?orbit = 65535" by (simp add: card_image)
  moreover have "card ?used \<le> length ms" by (rule order.trans [OF card_image_le card_length]) simp
  ultimately have "\<not> ?orbit \<subseteq> ?used"
    using assms(2) card_mono [of ?used ?orbit] by auto
  then obtain i where i: "i < 65535" "\<not> pid_exists (lfsr (Suc i) l) ms" by (auto simp: pid_exists_iff)
  let ?P = "\<lambda>n. 0 < n \<and> \<not> pid_exists (lfsr n l) ms"
  define n where "n = (LEAST n. ?P n)"
  have hit: "?P (Suc i)" using i(2) by simp
  have "?P n" unfolding n_def by (rule LeastI [of ?P, OF hit])
  moreover have "n \<le> Suc i" unfolding n_def by (rule Least_le [of ?P, OF hit])
  moreover have "pid_exists (lfsr j l) ms" if "0 < j" "j < n" for j
    using that not_less_Least [of j ?P] by (auto simp: n_def)
  ultimately have "next_pid_loop ms l = Some (lfsr n l)" by (intro next_pid_loop_unroll) simp_all
  with \<open>?P n\<close> \<open>n \<le> Suc i\<close> i(1) show ?thesis by (intro that [of n]) simp_all
qed

lemma next_pid_fresh:
  assumes "length ms < 65535"
  shows "\<exists>pid. next_pid ms l = Some pid \<and> pid \<noteq> 0 \<and> pid \<notin> qm_packet_id ` set ms"
proof -
  let ?l = "if l = 0 then 163 else l"
  have nz: "?l \<noteq> 0" by simp
  obtain n where "next_pid_loop ms ?l = Some (lfsr n ?l)" "\<not> pid_exists (lfsr n ?l) ms"
    by (rule next_pid_loop_fresh [OF nz assms])
  moreover have "lfsr n ?l \<noteq> 0" unfolding lfsr_eq_0_iff by (rule nz)
  ultimately show ?thesis unfolding next_pid_def pid_exists_iff by blast
qed

end
