(* ===== verification/Mqtt_Pal.thy ===== *)
theory Mqtt_Pal
  imports Mqtt_Responses
begin

text \<open>
  The platform layer of \<open>src/mqtt_pal.c\<close> in the configuration the Makefile builds
  (\<open>MQTT_USE_BIO\<close>): \<open>mqtt_pal_sendall\<close> and \<open>mqtt_pal_recvall\<close> over an OpenSSL BIO.

  What is outside the repository is a record of functions over a state \<open>'w\<close> of the outside world:
  the clock, the BIO, and the callback of the application. Nothing is assumed about them in the
  definitions; what the OpenSSL manual promises (\<open>BIO_write\<close> and \<open>BIO_read\<close> transfer at most as
  many bytes as they are given room for) is the hypothesis \<open>bio_laws\<close> of the theorems that need it.
\<close>

subsection \<open>The outside world\<close>

record 'w mqtt_env =
  pal_time :: "'w \<Rightarrow> int \<times> 'w"
  bio_write :: "nat \<Rightarrow> u8 list \<Rightarrow> 'w \<Rightarrow> int \<times> 'w"
  bio_read :: "nat \<Rightarrow> nat \<Rightarrow> 'w \<Rightarrow> u8 list \<times> 'w"
  bio_should_retry :: "nat \<Rightarrow> 'w \<Rightarrow> bool"
  bio_should_read :: "nat \<Rightarrow> 'w \<Rightarrow> bool"
  publish_callback :: "nat \<Rightarrow> u8 list \<Rightarrow> mqtt_response_publish \<Rightarrow> 'w \<Rightarrow> 'w"

text \<open>
  \<open>bio_read\<close> gives the bytes it has stored; no bytes stand for a result that is not positive, the
  only distinction the code makes.
\<close>

definition bio_laws :: "'w mqtt_env \<Rightarrow> bool" where
  "bio_laws env \<longleftrightarrow>
     (\<forall>fd bs w. fst (bio_write env fd bs w) \<le> int (length bs)) \<and>
     (\<forall>fd n w. length (fst (bio_read env fd n w)) \<le> n)"

subsection \<open>Sending and receiving\<close>

text \<open>The loop of \<open>mqtt_pal_sendall\<close>: it only stops when everything is sent or on an error.\<close>

partial_function (option) sendall_loop ::
  "'w mqtt_env \<Rightarrow> nat \<Rightarrow> u8 list \<Rightarrow> nat \<Rightarrow> 'w \<Rightarrow> (int \<times> 'w) option" where
  [code]: "sendall_loop env fd buf sent w =
     (if sent < length buf
      then let (tmp, w) = bio_write env fd (drop sent buf) w
           in if tmp > 0 then sendall_loop env fd buf (sent + nat tmp) w
              else if \<not> bio_should_retry env fd w
              then Some (mqtt_err MQTT_ERROR_SOCKET_ERROR, w)
              else sendall_loop env fd buf sent w
      else Some (int sent, w))"

definition mqtt_pal_sendall :: "'w mqtt_env \<Rightarrow> nat \<Rightarrow> u8 list \<Rightarrow> 'w \<Rightarrow> (int \<times> 'w) option" where
  "mqtt_pal_sendall env fd buf w = sendall_loop env fd buf 0 w"

text \<open>
  The loop of \<open>mqtt_pal_recvall\<close>. The result is the return value and the bytes stored at \<open>buf\<close>, in
  the error case too; bytes beyond the buffer are an access outside it.
\<close>

partial_function (option) recvall_loop ::
  "'w mqtt_env \<Rightarrow> nat \<Rightarrow> nat \<Rightarrow> u8 list \<Rightarrow> 'w \<Rightarrow> (int \<times> u8 list \<times> 'w) option" where
  [code]: "recvall_loop env fd bufsz got w =
     (let (bs, w) = bio_read env fd bufsz w
      in if length bs > bufsz then None
         else if bs = [] \<and> \<not> bio_should_retry env fd w
         then Some (mqtt_err MQTT_ERROR_SOCKET_ERROR, got, w)
         else let got = got @ bs; bufsz = bufsz - length bs
              in if \<not> bio_should_read env fd w \<and> bufsz > 0 then recvall_loop env fd bufsz got w
                 else Some (int (length got), got, w))"

definition mqtt_pal_recvall :: "'w mqtt_env \<Rightarrow> nat \<Rightarrow> nat \<Rightarrow> 'w \<Rightarrow> (int \<times> u8 list \<times> 'w) option" where
  "mqtt_pal_recvall env fd bufsz w = recvall_loop env fd bufsz [] w"

subsection \<open>What they return\<close>

lemma socket_error_neg [simp]: "mqtt_err MQTT_ERROR_SOCKET_ERROR < 0"
  by (rule mqtt_err_neg) simp

text \<open>When \<open>mqtt_pal_sendall\<close> returns, everything has been sent or the result is the socket error.\<close>

lemma sendall_loop_result:
  assumes laws: "bio_laws env" and ret: "sendall_loop env fd buf sent w = Some (rv, w')"
  shows "sent \<le> length buf \<longrightarrow> rv = mqtt_err MQTT_ERROR_SOCKET_ERROR \<or> rv = int (length buf)"
proof -
  let ?ok = "\<lambda>buf sent r. sent \<le> length buf \<longrightarrow>
      fst r = mqtt_err MQTT_ERROR_SOCKET_ERROR \<or> fst r = int (length buf)"
  have "env = env \<longrightarrow> ?ok buf sent (rv, w')"
  proof (rule sendall_loop.raw_induct [where P = "\<lambda>e fd buf sent w r. e = env \<longrightarrow> ?ok buf sent r", OF _ ret])
    fix f e fd buf sent and w :: 'a and r
    assume IH: "\<And>e fd buf sent w r. f e fd buf sent w = Some r \<Longrightarrow> e = env \<longrightarrow> ?ok buf sent r"
      and body: "(if sent < length buf
        then let (tmp, w) = bio_write e fd (drop sent buf) w
             in if tmp > 0 then f e fd buf (sent + nat tmp) w
                else if \<not> bio_should_retry e fd w then Some (mqtt_err MQTT_ERROR_SOCKET_ERROR, w)
                else f e fd buf sent w
        else Some (int sent, w)) = Some r"
    show "e = env \<longrightarrow> ?ok buf sent r"
    proof (intro impI)
      assume e: "e = env" and le: "sent \<le> length buf"
      obtain tmp w1 where bw: "bio_write env fd (drop sent buf) w = (tmp, w1)" by fastforce
      then have "fst (tmp, w1) \<le> int (length (drop sent buf))"
        using laws unfolding bio_laws_def by metis
      then have "sent + nat tmp \<le> length buf" if "tmp > 0" using le that by simp
      then show "fst r = mqtt_err MQTT_ERROR_SOCKET_ERROR \<or> fst r = int (length buf)"
        using body e le bw IH [of env fd buf "sent + nat tmp" w1 r] IH [of env fd buf sent w1 r]
        by (auto split: if_splits)
    qed
  qed
  then show ?thesis by simp
qed

lemma mqtt_pal_sendall_result:
  assumes "bio_laws env" and "mqtt_pal_sendall env fd buf w = Some (rv, w')"
  shows "rv = mqtt_err MQTT_ERROR_SOCKET_ERROR \<or> rv = int (length buf)"
  using sendall_loop_result [OF assms(1) assms(2) [unfolded mqtt_pal_sendall_def]] by simp

text \<open>
  It returns if the BIO is never blocked for ever: some measure of the world goes down with every
  call that asks for a retry. Without that hypothesis it does not: the loop spins.
\<close>

definition bio_unblocks :: "'w mqtt_env \<Rightarrow> ('w \<Rightarrow> nat) \<Rightarrow> bool" where
  "bio_unblocks env blocked \<longleftrightarrow>
     (\<forall>fd bs w tmp w'. bs \<noteq> [] \<longrightarrow> bio_write env fd bs w = (tmp, w') \<longrightarrow> tmp \<le> 0 \<longrightarrow> bio_should_retry env fd w' \<longrightarrow>
        blocked w' < blocked w) \<and>
     (\<forall>fd n w w'. bio_read env fd n w = ([], w') \<longrightarrow> bio_should_retry env fd w' \<longrightarrow>
        bio_should_read env fd w' \<or> blocked w' < blocked w)"

lemma sendall_loop_returns:
  assumes "bio_unblocks env blocked"
  shows "\<exists>rv w'. sendall_loop env fd buf sent w = Some (rv, w')"
proof (induction "(length buf - sent, blocked w)" arbitrary: sent w rule: wf_induct_rule [OF wf_lex_prod [OF wf_less_than wf_less_than]])
  case 1
  obtain tmp w1 where bw: "bio_write env fd (drop sent buf) w = (tmp, w1)" by fastforce
  show ?case
  proof (cases "sent < length buf")
    case True
    have "\<exists>rv w'. sendall_loop env fd buf (sent + nat tmp) w1 = Some (rv, w')" if "tmp > 0"
    proof (rule 1)
      have "length buf - (sent + nat tmp) < length buf - sent" using True that by linarith
      then show "((length buf - (sent + nat tmp), blocked w1), length buf - sent, blocked w)
          \<in> less_than <*lex*> less_than" by simp
    qed
    moreover have "\<exists>rv w'. sendall_loop env fd buf sent w1 = Some (rv, w')"
      if "\<not> tmp > 0" "bio_should_retry env fd w1"
    proof (rule 1)
      have "drop sent buf \<noteq> []" using True by simp
      then have "blocked w1 < blocked w"
        using assms bw that unfolding bio_unblocks_def by (meson not_less)
      then show "((length buf - sent, blocked w1), length buf - sent, blocked w)
          \<in> less_than <*lex*> less_than" by simp
    qed
    ultimately show ?thesis by (subst sendall_loop.simps) (simp add: bw)
  qed (subst sendall_loop.simps, simp)
qed

lemma mqtt_pal_sendall_returns:
  assumes "bio_unblocks env blocked"
  shows "\<exists>rv w'. mqtt_pal_sendall env fd buf w = Some (rv, w')"
  unfolding mqtt_pal_sendall_def by (rule sendall_loop_returns [OF assms])

lemma sendall_loop_spins:
  assumes stuck: "\<And>bs w. fst (bio_write env fd bs w) \<le> 0 \<and> bio_should_retry env fd (snd (bio_write env fd bs w))"
    and "sent < length buf"
  shows "sendall_loop env fd buf sent w = None"
proof (rule ccontr)
  assume "sendall_loop env fd buf sent w \<noteq> None"
  then obtain r where ret: "sendall_loop env fd buf sent w = Some r" by blast
  have "env = env \<longrightarrow> fd = fd \<longrightarrow> \<not> sent < length buf"
  proof (rule sendall_loop.raw_induct [where P = "\<lambda>e d buf sent w r. e = env \<longrightarrow> d = fd \<longrightarrow> \<not> sent < length buf", OF _ ret])
    fix f e d buf sent and w :: 'a and r
    assume IH: "\<And>e d buf sent w r. f e d buf sent w = Some r \<Longrightarrow> e = env \<longrightarrow> d = fd \<longrightarrow> \<not> sent < length buf"
      and body: "(if sent < length buf
        then let (tmp, w) = bio_write e d (drop sent buf) w
             in if tmp > 0 then f e d buf (sent + nat tmp) w
                else if \<not> bio_should_retry e d w then Some (mqtt_err MQTT_ERROR_SOCKET_ERROR, w)
                else f e d buf sent w
        else Some (int sent, w)) = Some r"
    obtain tmp w1 where bw: "bio_write env fd (drop sent buf) w = (tmp, w1)" by fastforce
    show "e = env \<longrightarrow> d = fd \<longrightarrow> \<not> sent < length buf"
      using body bw stuck [of "drop sent buf" w] IH [of env fd buf sent w1 r] by auto
  qed
  with assms(2) show False by simp
qed

text \<open>\<open>mqtt_pal_recvall\<close> returns the socket error or the number of bytes it stored.\<close>

lemma recvall_loop_result:
  assumes ret: "recvall_loop env fd bufsz got w = Some (rv, bs, w')"
  shows "\<exists>new. bs = got @ new \<and> length new \<le> bufsz \<and>
    (rv = mqtt_err MQTT_ERROR_SOCKET_ERROR \<or> rv = int (length bs))"
proof -
  let ?ok = "\<lambda>bufsz got r. \<exists>new. fst (snd r) = got @ new \<and> length new \<le> bufsz \<and>
      (fst r = mqtt_err MQTT_ERROR_SOCKET_ERROR \<or> fst r = int (length (fst (snd r))))"
  have "?ok bufsz got (rv, bs, w')"
  proof (rule recvall_loop.raw_induct [where P = "\<lambda>e fd bufsz got w r. ?ok bufsz got r", OF _ ret])
    fix f and e :: "'a mqtt_env" and fd bufsz got w r
    assume IH: "\<And>e fd bufsz got w r. f e fd bufsz got w = Some r \<Longrightarrow> ?ok bufsz got r"
      and body: "(let (bs, w) = bio_read e fd bufsz w
        in if length bs > bufsz then None
           else if bs = [] \<and> \<not> bio_should_retry e fd w then Some (mqtt_err MQTT_ERROR_SOCKET_ERROR, got, w)
           else let got = got @ bs; bufsz = bufsz - length bs
                in if \<not> bio_should_read e fd w \<and> bufsz > 0 then f e fd bufsz got w
                   else Some (int (length got), got, w)) = Some r"
    obtain bs w1 where br: "bio_read e fd bufsz w = (bs, w1)" by fastforce
    show "?ok bufsz got r"
      using body br IH [of e fd "bufsz - length bs" "got @ bs" w1 r]
      by (fastforce simp: Let_def split: if_splits)
  qed
  then show ?thesis by simp
qed

lemma recvall_loop_returns:
  assumes "bio_laws env" and "bio_unblocks env blocked"
  shows "\<exists>rv bs w'. recvall_loop env fd bufsz got w = Some (rv, bs, w')"
proof (induction "(bufsz, blocked w)" arbitrary: bufsz got w rule: wf_induct_rule [OF wf_lex_prod [OF wf_less_than wf_less_than]])
  case 1
  obtain bs w1 where br: "bio_read env fd bufsz w = (bs, w1)" by fastforce
  then have len: "length bs \<le> bufsz" using assms(1) unfolding bio_laws_def by (metis fst_conv)
  have "\<exists>rv bs' w'. recvall_loop env fd (bufsz - length bs) (got @ bs) w1 = Some (rv, bs', w')"
    if "bs \<noteq> [] \<or> bio_should_retry env fd w1" "\<not> bio_should_read env fd w1" "bufsz - length bs > 0"
  proof (rule 1)
    show "((bufsz - length bs, blocked w1), bufsz, blocked w) \<in> less_than <*lex*> less_than"
    proof (cases "bs = []")
      case True
      with that br have "blocked w1 < blocked w"
        using assms(2) unfolding bio_unblocks_def by blast
      with True show ?thesis by simp
    next
      case False
      with that(3) len show ?thesis by simp
    qed
  qed
  then show ?case by (subst recvall_loop.simps) (use br len in \<open>auto simp: Let_def\<close>)
qed

lemma mqtt_pal_recvall_result:
  assumes "mqtt_pal_recvall env fd bufsz w = Some (rv, bs, w')"
  shows "length bs \<le> bufsz" and "rv = mqtt_err MQTT_ERROR_SOCKET_ERROR \<or> rv = int (length bs)"
  using recvall_loop_result [OF assms [unfolded mqtt_pal_recvall_def]] by auto

lemma mqtt_pal_recvall_returns:
  assumes "bio_laws env" and "bio_unblocks env blocked"
  shows "\<exists>rv bs w'. mqtt_pal_recvall env fd bufsz w = Some (rv, bs, w')"
  unfolding mqtt_pal_recvall_def by (rule recvall_loop_returns [OF assms])

end
