(* ===== verification/Mqtt_Client.thy ===== *)
theory Mqtt_Client
  imports Mqtt_Requests Mqtt_Responses Mqtt_Pid Mqtt_Pal
begin

text \<open>
  The client of \<open>src/mqtt.c\<close> (\<open>struct mqtt_client\<close>) and the operations an application calls: the
  three initialisers, and the requests that pack a packet into the message queue.

  The mutex is a flag. Locking it when it is held and unlocking it when it is not have no defined
  result (\<open>None\<close>): the mutex is a default POSIX mutex and there is one thread. Pointers to
  functions and to their states, and socket handles, are numbers. The \<open>double\<close> that averages the
  response time is the expression that computes it; no other code reads it. Counters of type
  \<open>int\<close> and times are unbounded integers.
\<close>

subsection \<open>State\<close>

datatype response_time =
    RespUnset
  | RespSample int
  | RespAvg response_time int

record recv_buffer =
  rb_mem :: "u8 list option"
  rb_curr :: nat
  rb_curr_sz :: nat

record mqtt_client =
  cl_socketfd :: nat
  cl_pid_lfsr :: u16
  cl_keep_alive :: u16
  cl_number_of_keep_alives :: int
  cl_send_offset :: nat
  cl_time_of_last_send :: int
  cl_error :: int
  cl_response_timeout :: int
  cl_number_of_timeouts :: int
  cl_typical_response_time :: response_time
  cl_publish_response_callback :: nat
  cl_inspector_callback :: "nat option"
  cl_reconnect_callback :: "nat option"
  cl_reconnect_state :: nat
  cl_recv_buffer :: recv_buffer
  cl_mutex :: bool
  cl_mq :: mqtt_message_queue

definition mutex_lock :: "mqtt_client \<Rightarrow> mqtt_client option" where
  "mutex_lock cl = (if cl_mutex cl then None else Some (cl\<lparr>cl_mutex := True\<rparr>))"

definition mutex_unlock :: "mqtt_client \<Rightarrow> mqtt_client option" where
  "mutex_unlock cl = (if cl_mutex cl then Some (cl\<lparr>cl_mutex := False\<rparr>) else None)"

subsection \<open>Initialisers\<close>

text \<open>The socket handle \<open>-1\<close> of a client that has no connection yet.\<close>

definition no_socket :: nat where
  "no_socket = 2 ^ 64 - 1"

definition fresh_recv_buffer :: "u8 list \<Rightarrow> recv_buffer" where
  "fresh_recv_buffer buf = \<lparr>rb_mem = Some buf, rb_curr = 0, rb_curr_sz = length buf\<rparr>"

text \<open>
  \<open>mqtt_init\<close> takes the structure as it finds it: the fields that it does not assign (the time of
  the last send, the keep-alive time) keep what was there. It returns with the mutex held.
\<close>

definition mqtt_init ::
  "mqtt_client option \<Rightarrow> nat \<Rightarrow> u8 list option \<Rightarrow> u8 list option \<Rightarrow> nat \<Rightarrow> int \<times> mqtt_client option"
where
  "mqtt_init client sockfd sendbuf recvbuf publish_response_callback =
     (case (client, sendbuf, recvbuf) of
        (Some cl, Some sbuf, Some rbuf) \<Rightarrow>
          (mqtt_err MQTT_OK, Some (cl\<lparr>
             cl_mutex := True,
             cl_socketfd := sockfd,
             cl_mq := mqtt_mq_init (cl_mq cl) (Some sbuf),
             cl_recv_buffer := fresh_recv_buffer rbuf,
             cl_error := mqtt_err MQTT_ERROR_CONNECT_NOT_CALLED,
             cl_response_timeout := 30,
             cl_number_of_timeouts := 0,
             cl_number_of_keep_alives := 0,
             cl_typical_response_time := RespUnset,
             cl_publish_response_callback := publish_response_callback,
             cl_pid_lfsr := 0,
             cl_send_offset := 0,
             cl_inspector_callback := None,
             cl_reconnect_callback := None,
             cl_reconnect_state := 0\<rparr>))
      | _ \<Rightarrow> (mqtt_err MQTT_ERROR_NULLPTR, client))"

definition mqtt_init_reconnect :: "mqtt_client \<Rightarrow> nat option \<Rightarrow> nat \<Rightarrow> nat \<Rightarrow> mqtt_client" where
  "mqtt_init_reconnect cl reconnect reconnect_state publish_response_callback = cl\<lparr>
     cl_mutex := False,
     cl_socketfd := no_socket,
     cl_mq := mqtt_mq_init (cl_mq cl) None,
     cl_recv_buffer := \<lparr>rb_mem = None, rb_curr = 0, rb_curr_sz = 0\<rparr>,
     cl_error := mqtt_err MQTT_ERROR_INITIAL_RECONNECT,
     cl_response_timeout := 30,
     cl_number_of_timeouts := 0,
     cl_number_of_keep_alives := 0,
     cl_typical_response_time := RespUnset,
     cl_publish_response_callback := publish_response_callback,
     cl_send_offset := 0,
     cl_inspector_callback := None,
     cl_reconnect_callback := reconnect,
     cl_reconnect_state := reconnect_state\<rparr>"

definition mqtt_reinit :: "mqtt_client \<Rightarrow> nat \<Rightarrow> u8 list option \<Rightarrow> u8 list \<Rightarrow> mqtt_client" where
  "mqtt_reinit cl socketfd sendbuf recvbuf = cl\<lparr>
     cl_error := mqtt_err MQTT_ERROR_CONNECT_NOT_CALLED,
     cl_socketfd := socketfd,
     cl_mq := mqtt_mq_init (cl_mq cl) sendbuf,
     cl_recv_buffer := fresh_recv_buffer recvbuf\<rparr>"

subsection \<open>Packing into the queue\<close>

text \<open>\<open>__mqtt_next_pid\<close>; the queue must have been set up, its descriptors are read.\<close>

definition mqtt_next_pid :: "mqtt_client \<Rightarrow> (u16 \<times> mqtt_client) option" where
  "mqtt_next_pid cl =
     (if \<not> mq_set_up (cl_mq cl) then None
      else do {
        pid \<leftarrow> next_pid (mq_queue (cl_mq cl)) (cl_pid_lfsr cl);
        Some (pid, cl\<lparr>cl_pid_lfsr := pid\<rparr>)
      })"

text \<open>
  A pack call on the free bytes of the queue (\<open>client->mq.curr\<close>, \<open>client->mq.curr_sz\<close>); in a queue that has
  not been set up \<open>curr\<close> is the null pointer.
\<close>

definition pack_call ::
  "(u8 list option \<Rightarrow> packed) \<Rightarrow> mqtt_message_queue \<Rightarrow> (int \<times> mqtt_message_queue) option" where
  "pack_call pack mq =
     (if \<not> mq_set_up mq then do { (tmp, buf) \<leftarrow> pack None; Some (tmp, mq) }
      else do {
        buf \<leftarrow> mem_block (mq_mem mq) (mq_curr mq) (mq_curr_sz mq);
        (tmp, buf) \<leftarrow> pack (Some buf);
        Some (tmp, mq_fill mq buf)
      })"

definition release_mutex :: "bool \<Rightarrow> mqtt_client \<Rightarrow> mqtt_client option" where
  "release_mutex release cl = (if release then mutex_unlock cl else Some cl)"

text \<open>
  The macro \<open>MQTT_CLIENT_TRY_PACK\<close>. The result \<open>Some rv\<close> is a \<open>return rv\<close> out of the function that
  uses the macro; after \<open>None\<close> the function goes on, with the new message registered last.
\<close>

definition try_pack_fail :: "bool \<Rightarrow> int \<Rightarrow> mqtt_client \<Rightarrow> (int option \<times> mqtt_client) option" where
  "try_pack_fail release err cl = do {
     cl \<leftarrow> release_mutex release (cl\<lparr>cl_error := err\<rparr>);
     Some (Some err, cl)
   }"

definition try_pack ::
  "bool \<Rightarrow> (u8 list option \<Rightarrow> packed) \<Rightarrow> mqtt_client \<Rightarrow> (int option \<times> mqtt_client) option" where
  "try_pack release pack cl =
     (if cl_error cl < 0
      then do { cl' \<leftarrow> release_mutex release cl; Some (Some (cl_error cl'), cl') }
      else do {
        (tmp, mq) \<leftarrow> pack_call pack (cl_mq cl);
        if tmp < 0 then try_pack_fail release tmp (cl\<lparr>cl_mq := mq\<rparr>)
        else if tmp = 0 then do {
          mq \<leftarrow> mqtt_mq_clean mq;
          (tmp, mq) \<leftarrow> pack_call pack mq;
          if tmp < 0 then try_pack_fail release tmp (cl\<lparr>cl_mq := mq\<rparr>)
          else if tmp = 0
          then try_pack_fail release (mqtt_err MQTT_ERROR_SEND_BUFFER_IS_FULL) (cl\<lparr>cl_mq := mq\<rparr>)
          else Some (None, cl\<lparr>cl_mq := mqtt_mq_register mq (nat tmp)\<rparr>)
        }
        else Some (None, cl\<lparr>cl_mq := mqtt_mq_register mq (nat tmp)\<rparr>)
      })"

text \<open>
  What every request does with it: pack, save the control type and the packet id in the new
  descriptor, unlock if the request holds the lock, and return.
\<close>

definition submit ::
  "bool \<Rightarrow> (u8 list option \<Rightarrow> packed) \<Rightarrow> MQTTControlPacketType \<Rightarrow> u16 option \<Rightarrow> mqtt_client \<Rightarrow>
   (int \<times> mqtt_client) option" where
  "submit release pack ctype packet_id cl = do {
     (rv, cl) \<leftarrow> try_pack release pack cl;
     case rv of
       Some rv \<Rightarrow> Some (rv, cl)
     | None \<Rightarrow> do {
         let msg = mqtt_mq_length (cl_mq cl) - 1;
         let cl = cl\<lparr>cl_mq := mq_update msg (\<lambda>m. m\<lparr>qm_control_type := ctype,
           qm_packet_id := (case packet_id of None \<Rightarrow> qm_packet_id m | Some pid \<Rightarrow> pid)\<rparr>) (cl_mq cl)\<rparr>;
         cl \<leftarrow> release_mutex release cl;
         Some (mqtt_err MQTT_OK, cl)
       }
   }"

subsection \<open>Requests\<close>

text \<open>\<open>mqtt_connect\<close> runs with the mutex held (by \<open>mqtt_init\<close> or \<open>mqtt_sync\<close>) and releases it.\<close>

definition mqtt_connect ::
  "mqtt_client \<Rightarrow> cstring option \<Rightarrow> cstring option \<Rightarrow> u8 list option \<Rightarrow> nat \<Rightarrow>
   cstring option \<Rightarrow> cstring option \<Rightarrow> u8 \<Rightarrow> u16 \<Rightarrow> (int \<times> mqtt_client) option" where
  "mqtt_connect cl client_id will_topic will_message will_message_size user_name password
     connect_flags keep_alive =
   (let cl = cl\<lparr>cl_keep_alive := keep_alive\<rparr>;
        cl = (if cl_error cl = mqtt_err MQTT_ERROR_CONNECT_NOT_CALLED
              then cl\<lparr>cl_error := mqtt_err MQTT_OK\<rparr> else cl)
    in submit True (\<lambda>buf. mqtt_pack_connection_request buf client_id will_topic will_message
         will_message_size user_name password connect_flags keep_alive)
         MQTT_CONTROL_CONNECT None cl)"

definition mqtt_publish ::
  "mqtt_client \<Rightarrow> cstring option \<Rightarrow> u8 list \<Rightarrow> nat \<Rightarrow> u8 \<Rightarrow> (int \<times> mqtt_client) option" where
  "mqtt_publish cl topic msg msg_size publish_flags = do {
     cl \<leftarrow> mutex_lock cl;
     (packet_id, cl) \<leftarrow> mqtt_next_pid cl;
     submit True (\<lambda>buf. mqtt_pack_publish_request buf topic packet_id msg msg_size publish_flags) MQTT_CONTROL_PUBLISH (Some packet_id) cl
   }"

text \<open>The acknowledgements are packed with the mutex held, and leave it held.\<close>

definition mqtt_puback :: "mqtt_client \<Rightarrow> u16 \<Rightarrow> (int \<times> mqtt_client) option" where
  "mqtt_puback cl packet_id =
     submit False (\<lambda>buf. mqtt_pack_pubxxx_request buf MQTT_CONTROL_PUBACK packet_id)
       MQTT_CONTROL_PUBACK (Some packet_id) cl"

definition mqtt_pubrec :: "mqtt_client \<Rightarrow> u16 \<Rightarrow> (int \<times> mqtt_client) option" where
  "mqtt_pubrec cl packet_id =
     submit False (\<lambda>buf. mqtt_pack_pubxxx_request buf MQTT_CONTROL_PUBREC packet_id)
       MQTT_CONTROL_PUBREC (Some packet_id) cl"

definition mqtt_pubrel :: "mqtt_client \<Rightarrow> u16 \<Rightarrow> (int \<times> mqtt_client) option" where
  "mqtt_pubrel cl packet_id =
     submit False (\<lambda>buf. mqtt_pack_pubxxx_request buf MQTT_CONTROL_PUBREL packet_id)
       MQTT_CONTROL_PUBREL (Some packet_id) cl"

definition mqtt_pubcomp :: "mqtt_client \<Rightarrow> u16 \<Rightarrow> (int \<times> mqtt_client) option" where
  "mqtt_pubcomp cl packet_id =
     submit False (\<lambda>buf. mqtt_pack_pubxxx_request buf MQTT_CONTROL_PUBCOMP packet_id)
       MQTT_CONTROL_PUBCOMP (Some packet_id) cl"

text \<open>
  \<open>mqtt_subscribe\<close> passes one topic to the variadic packer. \<open>mqtt_unsubscribe\<close> draws its packet id
  before it takes the lock.
\<close>

definition mqtt_subscribe :: "mqtt_client \<Rightarrow> cstring option \<Rightarrow> u32 \<Rightarrow> (int \<times> mqtt_client) option" where
  "mqtt_subscribe cl topic max_qos_level = do {
     cl \<leftarrow> mutex_lock cl;
     (packet_id, cl) \<leftarrow> mqtt_next_pid cl;
     submit True (\<lambda>buf. mqtt_pack_subscribe_request buf (ucast packet_id)
       (case topic of None \<Rightarrow> [] | Some t \<Rightarrow> [(t, max_qos_level)]))
       MQTT_CONTROL_SUBSCRIBE (Some packet_id) cl
   }"

definition mqtt_unsubscribe :: "mqtt_client \<Rightarrow> cstring option \<Rightarrow> (int \<times> mqtt_client) option" where
  "mqtt_unsubscribe cl topic = do {
     (packet_id, cl) \<leftarrow> mqtt_next_pid cl;
     cl \<leftarrow> mutex_lock cl;
     submit True (\<lambda>buf. mqtt_pack_unsubscribe_request buf (ucast packet_id)
       (case topic of None \<Rightarrow> [] | Some t \<Rightarrow> [t]))
       MQTT_CONTROL_UNSUBSCRIBE (Some packet_id) cl
   }"

text \<open>\<open>__mqtt_ping\<close> runs with the mutex held; \<open>mqtt_ping\<close> takes it.\<close>

definition mqtt_ping_locked :: "mqtt_client \<Rightarrow> (int \<times> mqtt_client) option" where
  "mqtt_ping_locked cl = submit False mqtt_pack_ping_request MQTT_CONTROL_PINGREQ None cl"

definition mqtt_ping :: "mqtt_client \<Rightarrow> (int \<times> mqtt_client) option" where
  "mqtt_ping cl = do {
     cl \<leftarrow> mutex_lock cl;
     (rv, cl) \<leftarrow> mqtt_ping_locked cl;
     cl \<leftarrow> mutex_unlock cl;
     Some (rv, cl)
   }"

definition mqtt_disconnect :: "mqtt_client \<Rightarrow> (int \<times> mqtt_client) option" where
  "mqtt_disconnect cl = do {
     cl \<leftarrow> mutex_lock cl;
     submit True mqtt_pack_disconnect MQTT_CONTROL_DISCONNECT None cl
   }"

definition mqtt_reconnect :: "mqtt_client \<Rightarrow> (int \<times> mqtt_client) option" where
  "mqtt_reconnect cl = do {
     (err, cl) \<leftarrow> mqtt_disconnect cl;
     if err = mqtt_err MQTT_OK then do {
       cl \<leftarrow> mutex_lock cl;
       cl \<leftarrow> mutex_unlock (cl\<lparr>cl_error := mqtt_err MQTT_ERROR_RECONNECTING\<rparr>);
       Some (err, cl)
     } else Some (err, cl)
   }"

subsection \<open>The queue as the client sees it\<close>

abbreviation cl_view :: "mqtt_client \<Rightarrow> queue_entry list" where
  "cl_view cl \<equiv> mq_view (cl_mq cl)"

abbreviation cl_ok :: "nat \<Rightarrow> mqtt_client \<Rightarrow> bool" where
  "cl_ok M cl \<equiv> mq_ok M (cl_mq cl)"

text \<open>The packets that are still to be sent or acknowledged.\<close>

definition unfinished :: "queue_entry list \<Rightarrow> queue_entry list" where
  "unfinished es = filter (\<lambda>e. \<not> complete e) es"

lemma unfinished_simps [simp]:
  "unfinished [] = []" "unfinished (es @ fs) = unfinished es @ unfinished fs"
  "unfinished (dropWhile complete es) = unfinished es"
  by (simp_all add: unfinished_def mq.filter_unfinished)

text \<open>A queue that may have been cleaned.\<close>

definition cleaned :: "queue_entry list \<Rightarrow> queue_entry list \<Rightarrow> bool" where
  "cleaned es es' \<longleftrightarrow> es' = es \<or> es' = dropWhile complete es"

lemma cleaned_simps [simp]: "cleaned es es" "cleaned es (dropWhile complete es)"
  by (simp_all add: cleaned_def)

lemma cleaned_unfinished: "cleaned es es' \<Longrightarrow> unfinished es' = unfinished es"
  by (auto simp: cleaned_def)

lemma cleaned_set: "cleaned es es' \<Longrightarrow> set es' \<subseteq> set es"
  by (auto simp: cleaned_def dest: set_dropWhileD)

text \<open>
  Where a packet goes, on the list of entries: behind the entries if it fits, behind what cleaning
  leaves if it fits then, and nowhere otherwise.
\<close>

definition make_room :: "nat \<Rightarrow> queue_entry list \<Rightarrow> nat \<Rightarrow> queue_entry list option" where
  "make_room M es n =
     (if n \<le> queue_space M es then Some es
      else if n \<le> queue_space M (dropWhile complete es) then Some (dropWhile complete es)
      else None)"

lemma make_room_cleaned: "make_room M es n = Some kept \<Longrightarrow> cleaned es kept"
  by (auto simp: make_room_def split: if_splits)

subsection \<open>Packing\<close>

lemma pack_call_ok:
  assumes ok: "mq_ok M mq" and safe: "packer_safe (pack (Some (mq_free mq))) (mq_free mq)"
  obtains rv buf where "pack (Some (mq_free mq)) = Some (rv, buf)" "length buf = length (mq_free mq)"
    "rv \<le> int (length (mq_free mq))" "pack_call pack mq = Some (rv, mq_fill mq buf)"
    "mq_ok M (mq_fill mq buf)" "mq_view (mq_fill mq buf) = mq_view mq" "mq_free (mq_fill mq buf) = buf"
proof -
  from safe obtain rv buf where p: "pack (Some (mq_free mq)) = Some (rv, buf)"
    "length buf = length (mq_free mq)" "rv \<le> int (length (mq_free mq))"
    by (auto simp: packer_safe_def)
  have wf: "mq_wf mq" using ok by (simp add: mq_ok_def)
  then have "mq_set_up mq" by (simp add: mq_wf_def)
  then have "pack_call pack mq = Some (rv, mq_fill mq buf)"
    using p(1) mem_block_mq_free [OF wf] by (simp add: pack_call_def)
  with p show thesis using mq.fill_law [OF ok p(2)] by (intro that) auto
qed

lemma release_mutex_held: "(release \<Longrightarrow> cl_mutex cl) \<Longrightarrow>
    release_mutex release cl = Some (if release then cl\<lparr>cl_mutex := False\<rparr> else cl)"
  by (simp add: release_mutex_def mutex_unlock_def)

text \<open>The entry of a packet that has just been registered.\<close>

definition new_entry :: "queue_entry \<Rightarrow> u8 list \<Rightarrow> bool" where
  "new_entry e pkt \<longleftrightarrow> pkt \<noteq> [] \<and> en_bytes e = pkt \<and> en_state e = MQTT_QUEUED_UNSENT"

lemma new_entry_unfinished: "new_entry e pkt \<Longrightarrow> unfinished [e] = [e]"
  by (simp add: new_entry_def unfinished_def complete_def)

lemma register_fill:
  assumes ok: "mq_ok M mq" and len: "length buf = length (mq_free mq)" and n: "0 < n" "n \<le> length buf"
  shows "mq_ok M (mqtt_mq_register (mq_fill mq buf) n)"
    and "\<exists>e. mq_view (mqtt_mq_register (mq_fill mq buf) n) = mq_view mq @ [e] \<and> new_entry e (take n buf)"
proof -
  have fill: "mq_ok M (mq_fill mq buf)" "mq_view (mq_fill mq buf) = mq_view mq" "mq_free (mq_fill mq buf) = buf"
    using mq.fill_law [OF ok len] by simp_all
  have wf: "mq_wf (mq_fill mq buf)" using fill(1) by (simp add: mq_ok_def)
  show "mq_ok M (mqtt_mq_register (mq_fill mq buf) n)"
    using mq.commit_law [OF fill(1) n(1)] n(2) fill(3) by simp
  have "n \<le> mq_curr_sz (mq_fill mq buf)" using n(2) fill(3) length_mq_free [OF wf] by simp
  from register_law(2) [OF wf n(1) this]
  show "\<exists>e. mq_view (mqtt_mq_register (mq_fill mq buf) n) = mq_view mq @ [e] \<and> new_entry e (take n buf)"
    using n by (auto simp add: fill new_entry_def registered_entry_def)
qed

text \<open>The four ways the macro ends.\<close>

lemma try_pack_error:
  assumes "cl_error cl < 0" and "release \<Longrightarrow> cl_mutex cl"
  shows "try_pack release pack cl =
    Some (Some (cl_error cl), if release then cl\<lparr>cl_mutex := False\<rparr> else cl)"
  using assms by (simp add: try_pack_def release_mutex_held)

lemma try_pack_fail_held:
  "(release \<Longrightarrow> cl_mutex cl) \<Longrightarrow> try_pack_fail release err cl =
     Some (Some err, if release then cl\<lparr>cl_error := err, cl_mutex := False\<rparr> else cl\<lparr>cl_error := err\<rparr>)"
  by (simp add: try_pack_fail_def release_mutex_held)

text \<open>What a client operation may change, and the outcome of packing.\<close>

definition queue_step :: "mqtt_client \<Rightarrow> mqtt_client \<Rightarrow> bool" where
  "queue_step cl cl' \<longleftrightarrow>
     cl' = cl\<lparr>cl_mq := cl_mq cl', cl_error := cl_error cl', cl_mutex := cl_mutex cl'\<rparr>"

lemma queue_step_refl [simp]: "queue_step cl cl"
  by (simp add: queue_step_def)

lemma queue_step_trans: "queue_step a b \<Longrightarrow> queue_step b c \<Longrightarrow> queue_step a c"
  by (cases a, cases b, cases c) (simp add: queue_step_def)

lemma queue_step_updates [simp]:
  "queue_step cl (cl\<lparr>cl_mq := mq\<rparr>)" "queue_step cl (cl\<lparr>cl_mq := mq, cl_error := err\<rparr>)"
  "queue_step cl (cl\<lparr>cl_mq := mq, cl_mutex := b\<rparr>)" "queue_step cl (cl\<lparr>cl_mutex := b\<rparr>)"
  "queue_step cl (cl\<lparr>cl_mq := mq, cl_error := err, cl_mutex := b\<rparr>)" "queue_step cl (cl\<lparr>cl_error := err\<rparr>)"
  by (simp_all add: queue_step_def)

definition try_packed :: "nat \<Rightarrow> bool \<Rightarrow> mqtt_client \<Rightarrow> int option \<Rightarrow> mqtt_client \<Rightarrow> bool" where
  "try_packed M release cl r cl' \<longleftrightarrow> cl_ok M cl' \<and> queue_step cl cl' \<and>
     (case r of
        Some rv \<Rightarrow> rv < 0 \<and> cl_error cl' = rv \<and> cl_mutex cl' = (cl_mutex cl \<and> \<not> release) \<and>
          cleaned (cl_view cl) (cl_view cl')
      | None \<Rightarrow> 0 \<le> cl_error cl \<and> cl_error cl' = cl_error cl \<and> cl_mutex cl' = cl_mutex cl \<and>
          (\<exists>kept e pkt. cl_view cl' = kept @ [e] \<and> cleaned (cl_view cl) kept \<and> new_entry e pkt))"

lemma full_error_neg: "mqtt_err MQTT_ERROR_SEND_BUFFER_IS_FULL < 0"
  by (rule mqtt_err_neg) simp

lemma try_pack_safe:
  assumes ok: "cl_ok M cl" and safe: "\<And>buf. packer_safe (pack (Some buf)) buf"
    and held: "release \<Longrightarrow> cl_mutex cl"
  shows "\<exists>r cl'. try_pack release pack cl = Some (r, cl') \<and> try_packed M release cl r cl'"
proof (cases "cl_error cl < 0")
  case True
  with ok held show ?thesis by (auto simp: try_pack_error try_packed_def)
next
  case False
  obtain rv buf where len: "length buf = length (mq_free (cl_mq cl))" "rv \<le> int (length (mq_free (cl_mq cl)))"
    and call: "pack_call pack (cl_mq cl) = Some (rv, mq_fill (cl_mq cl) buf)"
    and fill: "mq_ok M (mq_fill (cl_mq cl) buf)" "mq_view (mq_fill (cl_mq cl) buf) = cl_view cl"
    by (rule pack_call_ok [where pack = pack, OF ok safe])
  consider (neg) "rv < 0" | (pos) "0 < rv" | (zero) "rv = 0" by linarith
  then show ?thesis
  proof cases
    case neg
    with False call fill held show ?thesis
      by (auto simp: try_pack_def try_pack_fail_held try_packed_def)
  next
    case pos
    then have n: "0 < nat rv" "nat rv \<le> length buf" using len by linarith+
    obtain e where "mq_ok M (mqtt_mq_register (mq_fill (cl_mq cl) buf) (nat rv))"
      "mq_view (mqtt_mq_register (mq_fill (cl_mq cl) buf) (nat rv)) = cl_view cl @ [e]"
      "new_entry e (take (nat rv) buf)"
      using register_fill [OF ok len(1) n] by blast
    with pos False call show ?thesis
      by (auto simp: try_pack_def try_packed_def)
  next
    case zero
    obtain mq where clean: "mqtt_mq_clean (mq_fill (cl_mq cl) buf) = Some mq" "mq_ok M mq"
      "mq_view mq = dropWhile complete (cl_view cl)"
      using mq.clean_law [OF fill(1)] fill(2) by auto
    obtain rv' buf' where len': "length buf' = length (mq_free mq)" "rv' \<le> int (length (mq_free mq))"
      and call': "pack_call pack mq = Some (rv', mq_fill mq buf')"
      and fill': "mq_ok M (mq_fill mq buf')" "mq_view (mq_fill mq buf') = mq_view mq"
      by (rule pack_call_ok [where pack = pack, OF clean(2) safe])
    show ?thesis
    proof (cases "0 < rv'")
      case True
      then have n: "0 < nat rv'" "nat rv' \<le> length buf'" using len' by linarith+
      obtain e where "mq_ok M (mqtt_mq_register (mq_fill mq buf') (nat rv'))"
        "mq_view (mqtt_mq_register (mq_fill mq buf') (nat rv')) = mq_view mq @ [e]"
        "new_entry e (take (nat rv') buf')"
        using register_fill [OF clean(2) len'(1) n] by blast
      with True zero False call clean call' show ?thesis
        by (auto simp: try_pack_def try_packed_def intro!: exI [of _ "dropWhile complete (cl_view cl)"])
    next
      case False
      with zero \<open>\<not> cl_error cl < 0\<close> call clean call' fill' held full_error_neg show ?thesis
        by (auto simp: try_pack_def try_pack_fail_held try_packed_def)
    qed
  qed
qed

text \<open>With a packer of a known packet the outcome is determined by the room there is.\<close>

lemma pack_call_exact:
  assumes ok: "mq_ok M mq" and packs: "\<And>buf. packs (pack (Some buf)) buf pkt" and ne: "pkt \<noteq> []"
  shows "length pkt \<le> queue_space M (mq_view mq) \<Longrightarrow>
      \<exists>mq' e. pack_call pack mq = Some (int (length pkt), mq') \<and>
        mq_ok M (mqtt_mq_register mq' (length pkt)) \<and>
        mq_view (mqtt_mq_register mq' (length pkt)) = mq_view mq @ [e] \<and> new_entry e pkt"
    and "\<not> length pkt \<le> queue_space M (mq_view mq) \<Longrightarrow>
      \<exists>mq'. pack_call pack mq = Some (0, mq') \<and> mq_ok M mq' \<and> mq_view mq' = mq_view mq"
proof -
  note space = mq_space [OF ok]
  obtain rv buf where pack: "pack (Some (mq_free mq)) = Some (rv, buf)"
    and len: "length buf = length (mq_free mq)"
    and call: "pack_call pack mq = Some (rv, mq_fill mq buf)"
    and fill: "mq_ok M (mq_fill mq buf)" "mq_view (mq_fill mq buf) = mq_view mq"
    by (rule pack_call_ok [where pack = pack, OF ok packs_safe [OF packs]])
  note p = packs [of "mq_free mq", unfolded packs_def pack]
  {
    assume fits: "length pkt \<le> queue_space M (mq_view mq)"
    with p space have rv: "rv = int (length pkt)" and buf: "buf = overwrite (mq_free mq) 0 pkt" by simp_all
    have "take (length pkt) buf = pkt" by (simp add: buf overwrite_def)
    with register_fill [OF ok len, of "length pkt"] ne fits space len call rv
    show "\<exists>mq' e. pack_call pack mq = Some (int (length pkt), mq') \<and>
        mq_ok M (mqtt_mq_register mq' (length pkt)) \<and>
        mq_view (mqtt_mq_register mq' (length pkt)) = mq_view mq @ [e] \<and> new_entry e pkt"
      by auto
  next
    assume "\<not> length pkt \<le> queue_space M (mq_view mq)"
    with p space have "rv = 0" by simp
    with call fill show "\<exists>mq'. pack_call pack mq = Some (0, mq') \<and> mq_ok M mq' \<and> mq_view mq' = mq_view mq"
      by auto
  }
qed

lemma try_pack_exact:
  assumes ok: "cl_ok M cl" and packs: "\<And>buf. packs (pack (Some buf)) buf pkt" and ne: "pkt \<noteq> []"
    and held: "release \<Longrightarrow> cl_mutex cl" and err: "0 \<le> cl_error cl"
  shows "\<exists>mq. cl_ok M (cl\<lparr>cl_mq := mq\<rparr>) \<and>
    (case make_room M (cl_view cl) (length pkt) of
       Some kept \<Rightarrow> try_pack release pack cl = Some (None, cl\<lparr>cl_mq := mq\<rparr>) \<and>
         (\<exists>e. mq_view mq = kept @ [e] \<and> new_entry e pkt)
     | None \<Rightarrow> try_pack release pack cl = Some (Some (mqtt_err MQTT_ERROR_SEND_BUFFER_IS_FULL),
           cl\<lparr>cl_mq := mq, cl_error := mqtt_err MQTT_ERROR_SEND_BUFFER_IS_FULL,
              cl_mutex := cl_mutex cl \<and> \<not> release\<rparr>) \<and>
         mq_view mq = dropWhile complete (cl_view cl))"
proof (cases "length pkt \<le> queue_space M (cl_view cl)")
  case True
  then obtain mq' e where "pack_call pack (cl_mq cl) = Some (int (length pkt), mq')"
    "mq_ok M (mqtt_mq_register mq' (length pkt))"
    "mq_view (mqtt_mq_register mq' (length pkt)) = cl_view cl @ [e]" "new_entry e pkt"
    using pack_call_exact(1) [OF ok packs ne] by blast
  with True ne err show ?thesis
    by (intro exI [of _ "mqtt_mq_register mq' (length pkt)"]) (simp add: make_room_def try_pack_def)
next
  case False
  then obtain mq1 where first: "pack_call pack (cl_mq cl) = Some (0, mq1)" "mq_ok M mq1" "mq_view mq1 = cl_view cl"
    using pack_call_exact(2) [OF ok packs ne] by blast
  obtain mq2 where clean: "mqtt_mq_clean mq1 = Some mq2" "mq_ok M mq2" "mq_view mq2 = dropWhile complete (cl_view cl)"
    using mq.clean_law [OF first(2)] first(3) by auto
  show ?thesis
  proof (cases "length pkt \<le> queue_space M (mq_view mq2)")
    case True
    then obtain mq' e where "pack_call pack mq2 = Some (int (length pkt), mq')"
      "mq_ok M (mqtt_mq_register mq' (length pkt))"
      "mq_view (mqtt_mq_register mq' (length pkt)) = mq_view mq2 @ [e]" "new_entry e pkt"
      using pack_call_exact(1) [OF clean(2) packs ne] by blast
    with False True ne err first clean show ?thesis
      by (intro exI [of _ "mqtt_mq_register mq' (length pkt)"]) (simp add: make_room_def try_pack_def)
  next
    case full: False
    then obtain mq' where "pack_call pack mq2 = Some (0, mq')" "mq_ok M mq'" "mq_view mq' = mq_view mq2"
      using pack_call_exact(2) [OF clean(2) packs ne] by blast
    with False full err first clean held show ?thesis
      by (intro exI [of _ mq']) (auto simp: make_room_def try_pack_def try_pack_fail_held)
  qed
qed

subsection \<open>Submitting a packet\<close>

lemma entry_of_fields [simp]:
  "entry_of mem (m\<lparr>qm_control_type := t, qm_packet_id := i\<rparr>) = (entry_of mem m)\<lparr>en_type := t, en_pid := i\<rparr>"
  "entry_of mem (m\<lparr>qm_state := st\<rparr>) = (entry_of mem m)\<lparr>en_state := st\<rparr>"
  "entry_of mem (m\<lparr>qm_time_sent := n\<rparr>) = (entry_of mem m)\<lparr>en_time := n\<rparr>"
  by (simp_all add: entry_of_def)

lemma last_update_view:
  assumes "mq_view mq = kept @ [e]"
  shows "mq_view (mq_update (mqtt_mq_length mq - 1) (\<lambda>m. m\<lparr>qm_control_type := t, qm_packet_id := p m\<rparr>) mq) =
    kept @ [e\<lparr>en_type := t, en_pid := p (mq_queue mq ! (mqtt_mq_length mq - 1))\<rparr>]"
proof -
  let ?i = "mqtt_mq_length mq - 1"
  have len: "mqtt_mq_length mq = Suc (length kept)" using arg_cong [OF assms, of length] by simp
  then have i: "?i = length kept" "?i < length (mq_queue mq)" by (simp_all add: mqtt_mq_length_def)
  have "entry_of (mq_mem mq) (mq_queue mq ! ?i) = mq_view mq ! ?i" using i(2) by (simp add: mq_view_def)
  then have "entry_of (mq_mem mq) (mq_queue mq ! ?i) = e" using assms i(1) by simp
  then show ?thesis unfolding mq_update_view assms i(1) by (simp add: list_update_append)
qed

lemma keeps_place_fields [simp]:
  "keeps_place (\<lambda>m. m\<lparr>qm_control_type := t, qm_packet_id := p m\<rparr>)"
  "keeps_place (\<lambda>m. m\<lparr>qm_state := st\<rparr>)" "keeps_place (\<lambda>m. m\<lparr>qm_time_sent := n\<rparr>)"
  by (simp_all add: keeps_place_def)

text \<open>The entry a request leaves in the queue.\<close>

definition request_entry :: "queue_entry \<Rightarrow> MQTTControlPacketType \<Rightarrow> u16 option \<Rightarrow> bool" where
  "request_entry e ctype packet_id \<longleftrightarrow> en_bytes e \<noteq> [] \<and> en_state e = MQTT_QUEUED_UNSENT \<and> en_type e = ctype \<and>
     (\<forall>pid. packet_id = Some pid \<longrightarrow> en_pid e = pid)"

lemma request_entry_unfinished: "request_entry e ctype packet_id \<Longrightarrow> unfinished [e] = [e]"
  by (simp add: request_entry_def unfinished_def complete_def)

definition submitted ::
  "nat \<Rightarrow> bool \<Rightarrow> MQTTControlPacketType \<Rightarrow> u16 option \<Rightarrow> mqtt_client \<Rightarrow> int \<Rightarrow> mqtt_client \<Rightarrow> bool" where
  "submitted M release ctype packet_id cl rv cl' \<longleftrightarrow>
     cl_ok M cl' \<and> queue_step cl cl' \<and> cl_mutex cl' = (cl_mutex cl \<and> \<not> release) \<and>
     (if rv = mqtt_err MQTT_OK
      then 0 \<le> cl_error cl \<and> cl_error cl' = cl_error cl \<and>
        (\<exists>kept e. cl_view cl' = kept @ [e] \<and> cleaned (cl_view cl) kept \<and> request_entry e ctype packet_id)
      else rv < 0 \<and> cl_error cl' = rv \<and> cleaned (cl_view cl) (cl_view cl'))"

lemma mqtt_ok_not_neg: "\<not> mqtt_err MQTT_OK < 0"
  by simp

lemma submit_safe:
  assumes ok: "cl_ok M cl" and safe: "\<And>buf. packer_safe (pack (Some buf)) buf"
    and held: "release \<Longrightarrow> cl_mutex cl"
  shows "\<exists>rv cl'. submit release pack ctype packet_id cl = Some (rv, cl') \<and>
    submitted M release ctype packet_id cl rv cl'"
proof -
  obtain r cl1 where tp: "try_pack release pack cl = Some (r, cl1)" and out: "try_packed M release cl r cl1"
    using try_pack_safe [where pack = pack, OF ok safe held] by blast
  show ?thesis
  proof (cases r)
    case (Some rv)
    with out have "rv < 0" by (simp add: try_packed_def)
    then have "rv \<noteq> mqtt_err MQTT_OK" using mqtt_ok_not_neg by blast
    with Some tp out show ?thesis by (auto simp: submit_def submitted_def try_packed_def)
  next
    case None
    let ?p = "\<lambda>m. case packet_id of None \<Rightarrow> qm_packet_id m | Some pid \<Rightarrow> pid"
    let ?mq = "mq_update (mqtt_mq_length (cl_mq cl1) - 1)
      (\<lambda>m. m\<lparr>qm_control_type := ctype, qm_packet_id := ?p m\<rparr>) (cl_mq cl1)"
    obtain kept e pkt where v: "cl_view cl1 = kept @ [e]" "cleaned (cl_view cl) kept" "new_entry e pkt"
      using out None by (auto simp: try_packed_def)
    have "mq_ok M ?mq" using out by (intro mq_update_ok) (simp_all add: try_packed_def)
    moreover have "cl_mutex cl1 = cl_mutex cl" "cl_error cl1 = cl_error cl" "0 \<le> cl_error cl" "queue_step cl cl1"
      using out None by (simp_all add: try_packed_def)
    moreover have "\<exists>e'. mq_view ?mq = kept @ [e'] \<and> request_entry e' ctype packet_id"
      using last_update_view [OF v(1), where t = ctype and p = ?p] v(3) by (auto simp: request_entry_def new_entry_def)
    moreover have "queue_step cl (cl1\<lparr>cl_mq := ?mq\<rparr>)" "queue_step cl (cl1\<lparr>cl_mq := ?mq, cl_mutex := False\<rparr>)"
      using queue_step_trans [OF \<open>queue_step cl cl1\<close>] by simp_all
    ultimately show ?thesis using tp None v(2) held
      by (auto simp: submit_def submitted_def release_mutex_held Let_def)
  qed
qed

text \<open>
  The exact outcome for a packer of a known packet: it is in the queue, last and unsent, when there
  is room, and the client is in the error state when there is not.
\<close>

definition stored ::
  "nat \<Rightarrow> bool \<Rightarrow> MQTTControlPacketType \<Rightarrow> u16 option \<Rightarrow> u8 list \<Rightarrow> mqtt_client \<Rightarrow> int \<Rightarrow> mqtt_client \<Rightarrow> bool" where
  "stored M release ctype packet_id pkt cl rv cl' \<longleftrightarrow>
     cl_ok M cl' \<and> queue_step cl cl' \<and> cl_mutex cl' = (cl_mutex cl \<and> \<not> release) \<and>
     (case make_room M (cl_view cl) (length pkt) of
        Some kept \<Rightarrow> rv = mqtt_err MQTT_OK \<and> cl_error cl' = cl_error cl \<and>
          (\<exists>e. cl_view cl' = kept @ [e] \<and> en_bytes e = pkt \<and> request_entry e ctype packet_id)
      | None \<Rightarrow> rv = mqtt_err MQTT_ERROR_SEND_BUFFER_IS_FULL \<and>
          cl_error cl' = mqtt_err MQTT_ERROR_SEND_BUFFER_IS_FULL \<and>
          cl_view cl' = dropWhile complete (cl_view cl))"

lemma submit_exact:
  assumes ok: "cl_ok M cl" and packs: "\<And>buf. packs (pack (Some buf)) buf pkt" and ne: "pkt \<noteq> []"
    and held: "release \<Longrightarrow> cl_mutex cl" and err: "0 \<le> cl_error cl"
  shows "\<exists>rv cl'. submit release pack ctype packet_id cl = Some (rv, cl') \<and>
    stored M release ctype packet_id pkt cl rv cl'"
proof (cases "make_room M (cl_view cl) (length pkt)")
  case None
  from try_pack_exact [where pack = pack and release = release, OF ok packs ne held err] None
  obtain mq where "mq_ok M mq" "mq_view mq = dropWhile complete (cl_view cl)"
    "try_pack release pack cl = Some (Some (mqtt_err MQTT_ERROR_SEND_BUFFER_IS_FULL),
       cl\<lparr>cl_mq := mq, cl_error := mqtt_err MQTT_ERROR_SEND_BUFFER_IS_FULL, cl_mutex := cl_mutex cl \<and> \<not> release\<rparr>)"
    by auto
  with None show ?thesis by (simp add: submit_def stored_def del: mqtt_err.simps)
next
  case (Some kept)
  then obtain mq e where tp: "try_pack release pack cl = Some (None, cl\<lparr>cl_mq := mq\<rparr>)"
    and mq: "mq_ok M mq" "mq_view mq = kept @ [e]" "new_entry e pkt"
    using try_pack_exact [where pack = pack and release = release, OF ok packs ne held err] by auto
  let ?p = "\<lambda>m. case packet_id of None \<Rightarrow> qm_packet_id m | Some pid \<Rightarrow> pid"
  let ?mq = "mq_update (mqtt_mq_length mq - 1)
    (\<lambda>m. m\<lparr>qm_control_type := ctype, qm_packet_id := ?p m\<rparr>) mq"
  have "mq_ok M ?mq" using mq(1) by (intro mq_update_ok) simp_all
  moreover have "\<exists>e'. mq_view ?mq = kept @ [e'] \<and> en_bytes e' = pkt \<and> request_entry e' ctype packet_id"
    using last_update_view [OF mq(2), where t = ctype and p = ?p] mq(3)
    by (auto simp: request_entry_def new_entry_def)
  ultimately show ?thesis using tp Some held
    by (auto simp: submit_def stored_def release_mutex_held Let_def simp del: mqtt_err.simps)
qed

lemma submit_error:
  "cl_error cl < 0 \<Longrightarrow> (release \<Longrightarrow> cl_mutex cl) \<Longrightarrow>
   submit release pack ctype packet_id cl =
     Some (cl_error cl, if release then cl\<lparr>cl_mutex := False\<rparr> else cl)"
  by (simp add: submit_def try_pack_error)

subsection \<open>The requests\<close>

text \<open>
  A send buffer of less than \<open>65535 * 40\<close> bytes has room for fewer descriptors than there are packet
  ids, so that the generator always finds one.
\<close>

definition max_sendbuf :: nat where
  "max_sendbuf = sizeof_queued_message * 65535"

lemma queue_pids: "qm_packet_id ` set (mq_queue mq) = en_pid ` set (mq_view mq)"
  by (simp add: mq_view_def image_image entry_of_def)

lemma queue_length_bound: "mq_ok M mq \<Longrightarrow> M < max_sendbuf \<Longrightarrow> length (mq_queue mq) < 65535"
  by (auto simp: mq_ok_def mq_wf_def max_sendbuf_def mqtt_mq_length_def sizeof_queued_message_def)

lemma mqtt_next_pid_ok:
  assumes "cl_ok M cl" and "M < max_sendbuf"
  obtains pid where "mqtt_next_pid cl = Some (pid, cl\<lparr>cl_pid_lfsr := pid\<rparr>)" "pid \<noteq> 0"
    "pid \<notin> en_pid ` set (cl_view cl)"
proof -
  have "mq_set_up (cl_mq cl)" using assms(1) by (simp add: mq_ok_def mq_wf_def)
  moreover obtain pid where "next_pid (mq_queue (cl_mq cl)) (cl_pid_lfsr cl) = Some pid" "pid \<noteq> 0"
    "pid \<notin> qm_packet_id ` set (mq_queue (cl_mq cl))"
    using next_pid_fresh [OF queue_length_bound [OF assms]] by blast
  ultimately show thesis using that by (simp add: mqtt_next_pid_def queue_pids)
qed

definition publish_args_ok :: "cstring \<Rightarrow> u8 list \<Rightarrow> nat \<Rightarrow> bool" where
  "publish_args_ok topic msg msz \<longleftrightarrow> length topic < 2 ^ 16 \<and> msz \<le> length msg \<and>
     mqtt_packed_cstrlen topic + 2 + msz < 2 ^ 28"

lemma publish_packet_ne [simp]: "publish_packet topic pid msg msz flags \<noteq> []"
  by (simp add: publish_packet_def)

lemma mqtt_publish_stored:
  assumes ok: "cl_ok M cl" and small: "M < max_sendbuf" and free: "\<not> cl_mutex cl"
    and err: "0 \<le> cl_error cl" and args: "publish_args_ok topic msg msz"
    and qos: "drop_bit 1 (flags AND MQTT_PUBLISH_QOS_MASK) \<noteq> 3"
  shows "\<exists>pid rv cl'. pid \<noteq> 0 \<and> pid \<notin> en_pid ` set (cl_view cl) \<and>
    mqtt_publish cl (Some topic) msg msz flags = Some (rv, cl') \<and>
    stored M True MQTT_CONTROL_PUBLISH (Some pid) (publish_packet topic pid msg msz flags)
      (cl\<lparr>cl_mutex := True, cl_pid_lfsr := pid\<rparr>) rv cl'"
proof -
  let ?cl = "cl\<lparr>cl_mutex := True\<rparr>"
  have "cl_ok M ?cl" using ok by simp
  then obtain pid where pid: "mqtt_next_pid ?cl = Some (pid, ?cl\<lparr>cl_pid_lfsr := pid\<rparr>)" "pid \<noteq> 0"
    "pid \<notin> en_pid ` set (cl_view ?cl)"
    by (rule mqtt_next_pid_ok [OF _ small])
  let ?pack = "\<lambda>buf. mqtt_pack_publish_request buf (Some topic) pid msg msz flags"
  have "packs (?pack (Some buf)) buf (publish_packet topic pid msg msz flags)" for buf
    using publish_packs [OF _ _ _ qos] args by (simp add: publish_args_ok_def)
  then have "\<exists>rv cl'. submit True ?pack MQTT_CONTROL_PUBLISH (Some pid) (?cl\<lparr>cl_pid_lfsr := pid\<rparr>) = Some (rv, cl') \<and>
      stored M True MQTT_CONTROL_PUBLISH (Some pid) (publish_packet topic pid msg msz flags)
        (?cl\<lparr>cl_pid_lfsr := pid\<rparr>) rv cl'"
    by (intro submit_exact) (use ok err in simp_all)
  with pid free show ?thesis by (auto simp: mqtt_publish_def mutex_lock_def)
qed

lemma publish_packer_safe:
  assumes "\<And>t. topic = Some t \<Longrightarrow> publish_args_ok t msg msz"
  shows "packer_safe (mqtt_pack_publish_request (Some buf) topic pid msg msz flags) buf"
proof (cases topic)
  case None
  then show ?thesis by (simp add: mqtt_pack_publish_request_def untouched_def packer_safe_def)
next
  case (Some t)
  show ?thesis
  proof (cases "drop_bit 1 (flags AND MQTT_PUBLISH_QOS_MASK) = 3")
    case True
    with Some show ?thesis using publish_forbidden_qos [OF True]
      by (auto simp: packer_safe_def)
  next
    case False
    with Some assms show ?thesis
      by (auto simp: publish_args_ok_def intro: packs_safe [OF publish_packs])
  qed
qed

lemma mqtt_publish_safe:
  assumes ok: "cl_ok M cl" and small: "M < max_sendbuf" and free: "\<not> cl_mutex cl"
    and args: "\<And>t. topic = Some t \<Longrightarrow> publish_args_ok t msg msz"
  shows "\<exists>pid rv cl'. mqtt_publish cl topic msg msz flags = Some (rv, cl') \<and>
    submitted M True MQTT_CONTROL_PUBLISH (Some pid) (cl\<lparr>cl_mutex := True, cl_pid_lfsr := pid\<rparr>) rv cl'"
proof -
  let ?cl = "cl\<lparr>cl_mutex := True\<rparr>"
  have "cl_ok M ?cl" using ok by simp
  then obtain pid where pid: "mqtt_next_pid ?cl = Some (pid, ?cl\<lparr>cl_pid_lfsr := pid\<rparr>)"
    by (rule mqtt_next_pid_ok [OF _ small])
  let ?pack = "\<lambda>buf. mqtt_pack_publish_request buf topic pid msg msz flags"
  have "\<exists>rv cl'. submit True ?pack MQTT_CONTROL_PUBLISH (Some pid) (?cl\<lparr>cl_pid_lfsr := pid\<rparr>) = Some (rv, cl') \<and>
      submitted M True MQTT_CONTROL_PUBLISH (Some pid) (?cl\<lparr>cl_pid_lfsr := pid\<rparr>) rv cl'"
    by (intro submit_safe) (use ok publish_packer_safe [OF args] in simp_all)
  with pid free show ?thesis by (auto simp: mqtt_publish_def mutex_lock_def)
qed

definition topic_arg_ok :: "cstring \<Rightarrow> bool" where
  "topic_arg_ok topic \<longleftrightarrow> length topic < 2 ^ 16"

lemma subscribe_packet_ne [simp]: "subscribe_packet pid subs \<noteq> []"
  by (simp add: subscribe_packet_def)

lemma unsubscribe_packet_ne [simp]: "unsubscribe_packet pid subs \<noteq> []"
  by (simp add: unsubscribe_packet_def)

lemma subscribe_one_packs:
  assumes "length topic < 2 ^ 16"
  shows "packs (mqtt_pack_subscribe_request (Some buf) (ucast (pid :: u16)) [(topic, qos)]) buf
    (subscribe_packet pid [(topic, ucast qos)])"
proof -
  have "packs (mqtt_pack_subscribe_request (Some buf) (ucast pid) [(topic, qos)]) buf
    (subscribe_packet (ucast (ucast pid :: u32)) (map (\<lambda>(t, q). (t, ucast q)) [(topic, qos)]))"
    by (rule subscribe_packs)
      (use assms in \<open>simp_all add: subscribe_body_def mqtt_packed_cstrlen_def\<close>)
  then show ?thesis by (simp add: ucast_down_ucast_id is_down)
qed

lemma unsubscribe_one_packs:
  assumes "length topic < 2 ^ 16"
  shows "packs (mqtt_pack_unsubscribe_request (Some buf) (ucast (pid :: u16)) [topic]) buf
    (unsubscribe_packet pid [topic])"
proof -
  have "packs (mqtt_pack_unsubscribe_request (Some buf) (ucast pid) [topic]) buf
    (unsubscribe_packet (ucast (ucast pid :: u32)) [topic])"
    by (rule unsubscribe_packs)
      (use assms in \<open>simp_all add: unsubscribe_body_def mqtt_packed_cstrlen_def\<close>)
  then show ?thesis by (simp add: ucast_down_ucast_id is_down)
qed

lemma mqtt_subscribe_stored:
  assumes ok: "cl_ok M cl" and small: "M < max_sendbuf" and free: "\<not> cl_mutex cl"
    and err: "0 \<le> cl_error cl" and topic: "length topic < 2 ^ 16"
  shows "\<exists>pid rv cl'. pid \<noteq> 0 \<and> pid \<notin> en_pid ` set (cl_view cl) \<and>
    mqtt_subscribe cl (Some topic) qos = Some (rv, cl') \<and>
    stored M True MQTT_CONTROL_SUBSCRIBE (Some pid) (subscribe_packet pid [(topic, ucast qos)])
      (cl\<lparr>cl_mutex := True, cl_pid_lfsr := pid\<rparr>) rv cl'"
proof -
  let ?cl = "cl\<lparr>cl_mutex := True\<rparr>"
  have "cl_ok M ?cl" using ok by simp
  then obtain pid where pid: "mqtt_next_pid ?cl = Some (pid, ?cl\<lparr>cl_pid_lfsr := pid\<rparr>)" "pid \<noteq> 0"
    "pid \<notin> en_pid ` set (cl_view ?cl)"
    by (rule mqtt_next_pid_ok [OF _ small])
  let ?pack = "\<lambda>buf. mqtt_pack_subscribe_request buf (ucast pid) [(topic, qos)]"
  have "\<exists>rv cl'. submit True ?pack MQTT_CONTROL_SUBSCRIBE (Some pid) (?cl\<lparr>cl_pid_lfsr := pid\<rparr>) = Some (rv, cl') \<and>
      stored M True MQTT_CONTROL_SUBSCRIBE (Some pid) (subscribe_packet pid [(topic, ucast qos)])
        (?cl\<lparr>cl_pid_lfsr := pid\<rparr>) rv cl'"
    by (intro submit_exact) (use ok err subscribe_one_packs [OF topic] in simp_all)
  with pid free show ?thesis by (auto simp: mqtt_subscribe_def mutex_lock_def)
qed

text \<open>\<open>mqtt_unsubscribe\<close> draws the id first; on one thread that makes no difference.\<close>

lemma mqtt_unsubscribe_stored:
  assumes ok: "cl_ok M cl" and small: "M < max_sendbuf" and free: "\<not> cl_mutex cl"
    and err: "0 \<le> cl_error cl" and topic: "length topic < 2 ^ 16"
  shows "\<exists>pid rv cl'. pid \<noteq> 0 \<and> pid \<notin> en_pid ` set (cl_view cl) \<and>
    mqtt_unsubscribe cl (Some topic) = Some (rv, cl') \<and>
    stored M True MQTT_CONTROL_UNSUBSCRIBE (Some pid) (unsubscribe_packet pid [topic])
      (cl\<lparr>cl_pid_lfsr := pid, cl_mutex := True\<rparr>) rv cl'"
proof -
  obtain pid where pid: "mqtt_next_pid cl = Some (pid, cl\<lparr>cl_pid_lfsr := pid\<rparr>)" "pid \<noteq> 0"
    "pid \<notin> en_pid ` set (cl_view cl)"
    by (rule mqtt_next_pid_ok [OF ok small])
  let ?cl = "cl\<lparr>cl_pid_lfsr := pid, cl_mutex := True\<rparr>"
  let ?pack = "\<lambda>buf. mqtt_pack_unsubscribe_request buf (ucast pid) [topic]"
  have "\<exists>rv cl'. submit True ?pack MQTT_CONTROL_UNSUBSCRIBE (Some pid) ?cl = Some (rv, cl') \<and>
      stored M True MQTT_CONTROL_UNSUBSCRIBE (Some pid) (unsubscribe_packet pid [topic]) ?cl rv cl'"
    by (intro submit_exact) (use ok err unsubscribe_one_packs [OF topic] in simp_all)
  with pid free show ?thesis by (auto simp: mqtt_unsubscribe_def mutex_lock_def)
qed

text \<open>The packets without a payload.\<close>

lemma ack_safe:
  assumes "cl_ok M cl" and "ctype \<in> {MQTT_CONTROL_PUBACK, MQTT_CONTROL_PUBREC, MQTT_CONTROL_PUBREL, MQTT_CONTROL_PUBCOMP}"
  shows "\<exists>rv cl'. submit False (\<lambda>buf. mqtt_pack_pubxxx_request buf ctype pid) ctype (Some pid) cl = Some (rv, cl') \<and>
    submitted M False ctype (Some pid) cl rv cl'"
  by (intro submit_safe) (use assms packs_safe [OF pubxxx_packs [OF assms(2)]] in simp_all)

lemma ack_stored:
  assumes "cl_ok M cl" and "ctype \<in> {MQTT_CONTROL_PUBACK, MQTT_CONTROL_PUBREC, MQTT_CONTROL_PUBREL, MQTT_CONTROL_PUBCOMP}"
    and "0 \<le> cl_error cl"
  shows "\<exists>rv cl'. submit False (\<lambda>buf. mqtt_pack_pubxxx_request buf ctype pid) ctype (Some pid) cl = Some (rv, cl') \<and>
    stored M False ctype (Some pid) (pubxxx_packet ctype pid) cl rv cl'"
  by (intro submit_exact) (use assms pubxxx_packs [OF assms(2)] in \<open>simp_all add: pubxxx_packet_def\<close>)

lemma ping_safe:
  assumes "cl_ok M cl"
  shows "\<exists>rv cl'. mqtt_ping_locked cl = Some (rv, cl') \<and> submitted M False MQTT_CONTROL_PINGREQ None cl rv cl'"
  unfolding mqtt_ping_locked_def by (intro submit_safe) (use assms packs_safe [OF ping_packs] in simp_all)

lemma ping_stored:
  assumes "cl_ok M cl" and "0 \<le> cl_error cl"
  shows "\<exists>rv cl'. mqtt_ping_locked cl = Some (rv, cl') \<and>
    stored M False MQTT_CONTROL_PINGREQ None [0xC0, 0] cl rv cl'"
  unfolding mqtt_ping_locked_def by (intro submit_exact) (use assms ping_packs in simp_all)

lemma disconnect_stored:
  assumes "cl_ok M cl" and "\<not> cl_mutex cl" and "0 \<le> cl_error cl"
  shows "\<exists>rv cl'. mqtt_disconnect cl = Some (rv, cl') \<and>
    stored M True MQTT_CONTROL_DISCONNECT None [0xE0, 0] (cl\<lparr>cl_mutex := True\<rparr>) rv cl'"
proof -
  have "\<exists>rv cl'. submit True mqtt_pack_disconnect MQTT_CONTROL_DISCONNECT None (cl\<lparr>cl_mutex := True\<rparr>) = Some (rv, cl') \<and>
      stored M True MQTT_CONTROL_DISCONNECT None [0xE0, 0] (cl\<lparr>cl_mutex := True\<rparr>) rv cl'"
    by (intro submit_exact) (use assms disconnect_packs in simp_all)
  with assms(2) show ?thesis by (simp add: mqtt_disconnect_def mutex_lock_def)
qed

lemma mqtt_reconnect_outcome:
  assumes "cl_ok M cl" and "\<not> cl_mutex cl" and "0 \<le> cl_error cl"
  shows "\<exists>rv cl'. mqtt_reconnect cl = Some (rv, cl') \<and> cl_ok M cl' \<and> \<not> cl_mutex cl' \<and>
    cl_error cl' = (if rv = mqtt_err MQTT_OK then mqtt_err MQTT_ERROR_RECONNECTING
      else mqtt_err MQTT_ERROR_SEND_BUFFER_IS_FULL)"
proof -
  obtain rv cl' where "mqtt_disconnect cl = Some (rv, cl')"
    and st: "stored M True MQTT_CONTROL_DISCONNECT None [0xE0, 0] (cl\<lparr>cl_mutex := True\<rparr>) rv cl'"
    using disconnect_stored [OF assms] by blast
  moreover from st have "\<not> cl_mutex cl'" "cl_ok M cl'" by (simp_all add: stored_def)
  moreover from st have "rv \<noteq> mqtt_err MQTT_OK \<Longrightarrow> cl_error cl' = mqtt_err MQTT_ERROR_SEND_BUFFER_IS_FULL"
    by (auto simp: stored_def split: option.splits)
  ultimately show ?thesis
    by (simp add: mqtt_reconnect_def mutex_lock_def mutex_unlock_def del: mqtt_err.simps)
qed

text \<open>CONNECT: the client leaves the state it was initialised in, and the lock is released.\<close>

definition connect_started :: "mqtt_client \<Rightarrow> u16 \<Rightarrow> mqtt_client" where
  "connect_started cl keep_alive =
     cl\<lparr>cl_keep_alive := keep_alive,
        cl_error := (if cl_error cl = mqtt_err MQTT_ERROR_CONNECT_NOT_CALLED then mqtt_err MQTT_OK else cl_error cl)\<rparr>"

lemma connect_packet_ne [simp]: "connect_packet cid will user password flags keep_alive \<noteq> []"
  by (simp add: connect_packet_def Let_def)

lemma mqtt_connect_stored:
  assumes ok: "cl_ok M cl" and held: "cl_mutex cl"
    and err: "cl_error cl = mqtt_err MQTT_ERROR_CONNECT_NOT_CALLED \<or> 0 \<le> cl_error cl"
    and args: "cid \<noteq> [] \<or> flags AND MQTT_CONNECT_CLEAN_SESSION \<noteq> 0"
      "length cid < 2 ^ 16" "\<forall>u. user = Some u \<longrightarrow> length u < 2 ^ 16"
      "\<forall>p. password = Some p \<longrightarrow> length p < 2 ^ 16"
      "\<forall>w. will = Some w \<longrightarrow> length (fst w) < 2 ^ 16 \<and> flags AND 0x18 \<noteq> 0x18"
      "length (connect_body cid will user password flags keep_alive) < 2 ^ 28"
  shows "\<exists>rv cl'. mqtt_connect cl (Some cid) (map_option fst will) (map_option snd will)
      (case will of None \<Rightarrow> 0 | Some (t, m) \<Rightarrow> length m) user password flags keep_alive = Some (rv, cl') \<and>
    stored M True MQTT_CONTROL_CONNECT None (connect_packet cid will user password flags keep_alive)
      (connect_started cl keep_alive) rv cl'"
proof -
  let ?pack = "\<lambda>buf. mqtt_pack_connection_request buf (Some cid) (map_option fst will) (map_option snd will)
      (case will of None \<Rightarrow> 0 | Some (t, m) \<Rightarrow> length m) user password flags keep_alive"
  have "mqtt_connect cl (Some cid) (map_option fst will) (map_option snd will)
      (case will of None \<Rightarrow> 0 | Some (t, m) \<Rightarrow> length m) user password flags keep_alive =
    submit True ?pack MQTT_CONTROL_CONNECT None (connect_started cl keep_alive)"
    by (cases cl) (simp add: mqtt_connect_def connect_started_def Let_def)
  moreover have "\<exists>rv cl'. submit True ?pack MQTT_CONTROL_CONNECT None (connect_started cl keep_alive) = Some (rv, cl') \<and>
      stored M True MQTT_CONTROL_CONNECT None (connect_packet cid will user password flags keep_alive)
        (connect_started cl keep_alive) rv cl'"
    by (intro submit_exact connect_packs args) (use ok held err in \<open>auto simp: connect_started_def\<close>)
  ultimately show ?thesis by simp
qed

subsection \<open>Initialisation\<close>

definition recv_ok :: "recv_buffer \<Rightarrow> bool" where
  "recv_ok rb \<longleftrightarrow> (\<exists>m. rb_mem rb = Some m \<and> rb_curr rb + rb_curr_sz rb = length m)"

lemma fresh_recv_buffer_ok [simp]: "recv_ok (fresh_recv_buffer buf)"
  by (simp add: recv_ok_def fresh_recv_buffer_def)

lemma mqtt_init_ok:
  "\<exists>cl'. mqtt_init (Some cl) fd (Some sendbuf) (Some recvbuf) cb = (mqtt_err MQTT_OK, Some cl') \<and>
     cl_ok (length sendbuf) cl' \<and> cl_view cl' = [] \<and> recv_ok (cl_recv_buffer cl') \<and> cl_send_offset cl' = 0 \<and>
     cl_mutex cl' \<and> cl_error cl' = mqtt_err MQTT_ERROR_CONNECT_NOT_CALLED"
  using mqtt_mq_init_wf [of "cl_mq cl" sendbuf]
  by (simp add: mqtt_init_def mq_ok_def) (simp add: mqtt_mq_init_def Let_def)

lemma mqtt_reinit_ok:
  "cl_ok (length sendbuf) (mqtt_reinit cl fd (Some sendbuf) recvbuf)"
  "cl_view (mqtt_reinit cl fd (Some sendbuf) recvbuf) = []"
  "recv_ok (cl_recv_buffer (mqtt_reinit cl fd (Some sendbuf) recvbuf))"
  "cl_error (mqtt_reinit cl fd (Some sendbuf) recvbuf) = mqtt_err MQTT_ERROR_CONNECT_NOT_CALLED"
  "cl_mutex (mqtt_reinit cl fd (Some sendbuf) recvbuf) = cl_mutex cl"
  using mqtt_mq_init_wf [of "cl_mq cl" sendbuf]
  by (simp_all add: mqtt_reinit_def mq_ok_def) (simp_all add: mqtt_mq_init_def Let_def)

text \<open>
  After \<open>mqtt_init_reconnect\<close> and before the reconnect callback has run, a publish reads the
  descriptors of a queue that does not exist.
\<close>

lemma publish_before_reconnect:
  "\<not> mq_set_up (cl_mq cl) \<Longrightarrow>
   mqtt_publish (mqtt_init_reconnect cl cb st pcb) topic msg msz flags = None"
  by (simp add: mqtt_publish_def mqtt_init_reconnect_def mutex_lock_def mqtt_next_pid_def mqtt_mq_init_def)

end
