(* ===== verification/Mqtt_Sync.thy ===== *)
theory Mqtt_Sync
  imports Mqtt_Client
begin

text \<open>
  The traffic of the client (\<open>src/mqtt.c\<close>): \<open>__mqtt_send\<close>, \<open>__mqtt_recv\<close> and \<open>mqtt_sync\<close>.

  A pass of \<open>__mqtt_send\<close> is a recursion over the indices of the queued messages, one body per
  message. The loop of \<open>__mqtt_recv\<close> is a partial function, as it only ends when the broker stops
  sending. The callbacks that get the client (inspector, reconnect) are parameters of \<open>mqtt_sync\<close>.
\<close>

subsection \<open>Sending\<close>

datatype send_result = Send_Next | Send_Break | Send_Return int

text \<open>Is message \<open>msg\<close> to be sent: it is unsent, or its acknowledgement is overdue.\<close>

definition send_due ::
  "'w mqtt_env \<Rightarrow> mqtt_queued_message \<Rightarrow> mqtt_client \<Rightarrow> 'w \<Rightarrow> bool \<times> mqtt_client \<times> 'w" where
  "send_due env msg cl w =
     (if qm_state msg = MQTT_QUEUED_UNSENT then (True, cl, w)
      else if qm_state msg = MQTT_QUEUED_AWAITING_ACK
      then let (now, w) = pal_time env w
           in if now > qm_time_sent msg + cl_response_timeout cl
              then (True, cl\<lparr>cl_number_of_timeouts := cl_number_of_timeouts cl + 1,
                cl_send_offset := 0\<rparr>, w)
              else (False, cl, w)
      else (False, cl, w))"

text \<open>Only one QoS 2 PUBLISH may be in flight: \<open>(resend, inflight_qos2)\<close> after the check.\<close>

definition qos2_gate ::
  "u8 list \<Rightarrow> mqtt_queued_message \<Rightarrow> bool \<Rightarrow> bool \<Rightarrow> (bool \<times> bool) option" where
  "qos2_gate mem msg resend inflight_qos2 =
     (if qm_control_type msg = MQTT_CONTROL_PUBLISH \<and>
         (qm_state msg = MQTT_QUEUED_UNSENT \<or> qm_state msg = MQTT_QUEUED_AWAITING_ACK)
      then do {
        b \<leftarrow> peek mem (qm_start msg);
        let inspected = 0x03 AND drop_bit 1 b;
        if inspected = 2 then Some (resend \<and> \<not> inflight_qos2, True)
        else Some (resend, inflight_qos2)
      } else Some (resend, inflight_qos2))"

text \<open>The state of message \<open>i\<close> once it has been sent; \<open>Some rv\<close> leaves the function.\<close>

definition mark_sent :: "nat \<Rightarrow> mqtt_message_queue \<Rightarrow> (int option \<times> mqtt_message_queue) option" where
  "mark_sent i mq =
     (let msg = mq_queue mq ! i;
          set_state = (\<lambda>st. mq_update i (\<lambda>m. m\<lparr>qm_state := st\<rparr>))
      in if qm_control_type msg \<in> {MQTT_CONTROL_PUBACK, MQTT_CONTROL_PUBCOMP, MQTT_CONTROL_DISCONNECT}
         then Some (None, set_state MQTT_QUEUED_COMPLETE mq)
         else if qm_control_type msg = MQTT_CONTROL_PUBLISH
         then do {
           b \<leftarrow> peek (mq_mem mq) (qm_start msg);
           let inspected = drop_bit 1 (MQTT_PUBLISH_QOS_MASK AND b);
           if inspected = 0 then Some (None, set_state MQTT_QUEUED_COMPLETE mq)
           else if inspected = 1 then do {
             mem \<leftarrow> poke (mq_mem mq) (qm_start msg) (b OR MQTT_PUBLISH_DUP);
             Some (None, (set_state MQTT_QUEUED_AWAITING_ACK mq)\<lparr>mq_mem := mem\<rparr>)
           }
           else Some (None, set_state MQTT_QUEUED_AWAITING_ACK mq)
         }
         else if qm_control_type msg \<in> {MQTT_CONTROL_CONNECT, MQTT_CONTROL_PUBREC, MQTT_CONTROL_PUBREL,
             MQTT_CONTROL_SUBSCRIBE, MQTT_CONTROL_UNSUBSCRIBE, MQTT_CONTROL_PINGREQ}
         then Some (None, set_state MQTT_QUEUED_AWAITING_ACK mq)
         else Some (Some (mqtt_err MQTT_ERROR_MALFORMED_REQUEST), mq))"

text \<open>The body of the loop for message \<open>i\<close>.\<close>

definition send_message ::
  "'w mqtt_env \<Rightarrow> nat \<Rightarrow> bool \<Rightarrow> mqtt_client \<Rightarrow> 'w \<Rightarrow>
   (send_result \<times> bool \<times> mqtt_client \<times> 'w) option" where
  "send_message env i inflight_qos2 cl w = do {
     let msg = mq_queue (cl_mq cl) ! i;
     let (resend, cl, w) = send_due env msg cl w;
     (resend, inflight_qos2) \<leftarrow> qos2_gate (mq_mem (cl_mq cl)) msg resend inflight_qos2;
     if \<not> resend then Some (Send_Next, inflight_qos2, cl, w)
     else if cl_send_offset cl > qm_size msg then None
     else do {
       buf \<leftarrow> mem_block (mq_mem (cl_mq cl)) (qm_start msg + cl_send_offset cl)
               (qm_size msg - cl_send_offset cl);
       (tmp, w) \<leftarrow> mqtt_pal_sendall env (cl_socketfd cl) buf w;
       if tmp < 0 then Some (Send_Return tmp, inflight_qos2, cl\<lparr>cl_error := tmp\<rparr>, w)
       else if cl_send_offset cl + nat tmp < qm_size msg
       then Some (Send_Break, inflight_qos2, cl\<lparr>cl_send_offset := cl_send_offset cl + nat tmp\<rparr>, w)
       else do {
         let (now, w) = pal_time env w;
         let cl = cl\<lparr>cl_send_offset := 0, cl_time_of_last_send := now,
           cl_mq := mq_update i (\<lambda>m. m\<lparr>qm_time_sent := now\<rparr>) (cl_mq cl)\<rparr>;
         (rv, mq) \<leftarrow> mark_sent i (cl_mq cl);
         case rv of
           None \<Rightarrow> Some (Send_Next, inflight_qos2, cl\<lparr>cl_mq := mq\<rparr>, w)
         | Some rv \<Rightarrow> Some (Send_Return rv, inflight_qos2, cl\<lparr>cl_error := rv\<rparr>, w)
       }
     }
   }"

fun send_loop ::
  "'w mqtt_env \<Rightarrow> nat list \<Rightarrow> bool \<Rightarrow> mqtt_client \<Rightarrow> 'w \<Rightarrow> (int option \<times> mqtt_client \<times> 'w) option"
where
  "send_loop env [] inflight_qos2 cl w = Some (None, cl, w)"
| "send_loop env (i # is) inflight_qos2 cl w = do {
     (r, inflight_qos2, cl, w) \<leftarrow> send_message env i inflight_qos2 cl w;
     case r of
       Send_Next \<Rightarrow> send_loop env is inflight_qos2 cl w
     | Send_Break \<Rightarrow> Some (None, cl, w)
     | Send_Return rv \<Rightarrow> Some (Some rv, cl, w)
   }"

text \<open>The keep-alive check: three quarters of the keep-alive time, rounded down.\<close>

definition keep_alive_check :: "'w mqtt_env \<Rightarrow> mqtt_client \<Rightarrow> 'w \<Rightarrow> (int \<times> mqtt_client \<times> 'w) option" where
  "keep_alive_check env cl w = do {
     let keep_alive_timeout = cl_time_of_last_send cl + int (unat (cl_keep_alive cl) * 3 div 4);
     let (now, w) = pal_time env w;
     if now > keep_alive_timeout then do {
       (rv, cl) \<leftarrow> mqtt_ping_locked cl;
       if rv \<noteq> mqtt_err MQTT_OK then Some (rv, cl\<lparr>cl_error := rv\<rparr>, w)
       else Some (mqtt_err MQTT_OK, cl, w)
     } else Some (mqtt_err MQTT_OK, cl, w)
   }"

definition mqtt_send :: "'w mqtt_env \<Rightarrow> mqtt_client \<Rightarrow> 'w \<Rightarrow> (int \<times> mqtt_client \<times> 'w) option" where
  "mqtt_send env cl w = do {
     cl \<leftarrow> mutex_lock cl;
     if cl_error cl < 0 \<and> cl_error cl \<noteq> mqtt_err MQTT_ERROR_SEND_BUFFER_IS_FULL
     then do { cl' \<leftarrow> mutex_unlock cl; Some (cl_error cl', cl', w) }
     else if \<not> mq_set_up (cl_mq cl) then None
     else do {
       (r, cl, w) \<leftarrow> send_loop env [0..<mqtt_mq_length (cl_mq cl)] False cl w;
       case r of
         Some rv \<Rightarrow> do { cl \<leftarrow> mutex_unlock cl; Some (rv, cl, w) }
       | None \<Rightarrow> do {
           (rv, cl, w) \<leftarrow> keep_alive_check env cl w;
           cl \<leftarrow> mutex_unlock cl;
           Some (rv, cl, w)
         }
     }
   }"

subsection \<open>Receiving\<close>

definition client_find ::
  "mqtt_client \<Rightarrow> MQTTControlPacketType \<Rightarrow> u16 option \<Rightarrow> nat option option" where
  "client_find cl ctype packet_id =
     (if mq_set_up (cl_mq cl) then Some (mqtt_mq_find (cl_mq cl) ctype packet_id) else None)"

text \<open>
  The acknowledgement of a message: it becomes complete and the response time is averaged. The
  flag tells whether there is such a message; if not, the client is in the error state.
\<close>

definition release_acked ::
  "'w mqtt_env \<Rightarrow> MQTTControlPacketType \<Rightarrow> u16 option \<Rightarrow> mqtt_client \<Rightarrow> 'w \<Rightarrow>
   (bool \<times> mqtt_client \<times> 'w) option" where
  "release_acked env ctype packet_id cl w = do {
     msg \<leftarrow> client_find cl ctype packet_id;
     case msg of
       None \<Rightarrow> Some (False, cl\<lparr>cl_error := mqtt_err MQTT_ERROR_ACK_OF_UNKNOWN\<rparr>, w)
     | Some i \<Rightarrow>
         let mq = mq_update i (\<lambda>m. m\<lparr>qm_state := MQTT_QUEUED_COMPLETE\<rparr>) (cl_mq cl);
             (now, w) = pal_time env w;
             sample = now - qm_time_sent (mq_queue mq ! i)
         in Some (True, cl\<lparr>cl_mq := mq, cl_typical_response_time :=
              (if ctype = MQTT_CONTROL_CONNECT then RespSample sample
               else RespAvg (cl_typical_response_time cl) sample)\<rparr>, w)
   }"

text \<open>The end of a branch that stages a reply: its error is the error of the client.\<close>

definition staged :: "int \<times> mqtt_client \<Rightarrow> 'w \<Rightarrow> int \<times> mqtt_client \<times> 'w" where
  "staged r w = (case r of (rv, cl) \<Rightarrow>
     if rv \<noteq> mqtt_err MQTT_OK then (rv, cl\<lparr>cl_error := rv\<rparr>, w) else (mqtt_err MQTT_OK, cl, w))"

definition recv_connack ::
  "'w mqtt_env \<Rightarrow> MQTTConnackReturnCode \<Rightarrow> mqtt_client \<Rightarrow> 'w \<Rightarrow> (int \<times> mqtt_client \<times> 'w) option" where
  "recv_connack env code cl w = do {
     (found, cl, w) \<leftarrow> release_acked env MQTT_CONTROL_CONNECT None cl w;
     if \<not> found then Some (mqtt_err MQTT_ERROR_ACK_OF_UNKNOWN, cl, w)
     else if code \<noteq> MQTT_CONNACK_ACCEPTED then
       if code = MQTT_CONNACK_REFUSED_IDENTIFIER_REJECTED
       then Some (mqtt_err MQTT_ERROR_CONNECT_CLIENT_ID_REFUSED,
         cl\<lparr>cl_error := mqtt_err MQTT_ERROR_CONNECT_CLIENT_ID_REFUSED\<rparr>, w)
       else Some (mqtt_err MQTT_ERROR_CONNECTION_REFUSED,
         cl\<lparr>cl_error := mqtt_err MQTT_ERROR_CONNECTION_REFUSED\<rparr>, w)
     else Some (mqtt_err MQTT_OK, cl, w)
   }"

definition recv_publish ::
  "'w mqtt_env \<Rightarrow> u8 list \<Rightarrow> mqtt_response_publish \<Rightarrow> mqtt_client \<Rightarrow> 'w \<Rightarrow> (int \<times> mqtt_client \<times> 'w) option"
where
  "recv_publish env mem p cl w =
     (let deliver = (\<lambda>(rv, cl). let (rv, cl, w) = staged (rv, cl) w
            in if rv \<noteq> mqtt_err MQTT_OK then Some (rv, cl, w)
               else Some (mqtt_err MQTT_OK, cl,
                 publish_callback env (cl_publish_response_callback cl) mem p w))
      in if qos_level p = 1 then do {
           pid \<leftarrow> publish_packet_id p;
           r \<leftarrow> mqtt_puback cl pid;
           deliver r
         }
         else if qos_level p = 2 then do {
           pid \<leftarrow> publish_packet_id p;
           dup \<leftarrow> client_find cl MQTT_CONTROL_PUBREC (Some pid);
           if dup \<noteq> None then Some (mqtt_err MQTT_OK, cl, w)
           else do { r \<leftarrow> mqtt_pubrec cl pid; deliver r }
         }
         else deliver (mqtt_err MQTT_OK, cl))"

definition recv_ack ::
  "'w mqtt_env \<Rightarrow> MQTTControlPacketType \<Rightarrow> u16 option \<Rightarrow> mqtt_client \<Rightarrow> 'w \<Rightarrow>
   (int \<times> mqtt_client \<times> 'w) option" where
  "recv_ack env ctype packet_id cl w = do {
     (found, cl, w) \<leftarrow> release_acked env ctype packet_id cl w;
     Some (if found then mqtt_err MQTT_OK else mqtt_err MQTT_ERROR_ACK_OF_UNKNOWN, cl, w)
   }"

definition recv_pubrec :: "'w mqtt_env \<Rightarrow> u16 \<Rightarrow> mqtt_client \<Rightarrow> 'w \<Rightarrow> (int \<times> mqtt_client \<times> 'w) option" where
  "recv_pubrec env pid cl w = do {
     dup \<leftarrow> client_find cl MQTT_CONTROL_PUBREL (Some pid);
     if dup \<noteq> None then Some (mqtt_err MQTT_OK, cl, w)
     else do {
       (found, cl, w) \<leftarrow> release_acked env MQTT_CONTROL_PUBLISH (Some pid) cl w;
       if \<not> found then Some (mqtt_err MQTT_ERROR_ACK_OF_UNKNOWN, cl, w)
       else do { r \<leftarrow> mqtt_pubrel cl pid; Some (staged r w) }
     }
   }"

definition recv_pubrel :: "'w mqtt_env \<Rightarrow> u16 \<Rightarrow> mqtt_client \<Rightarrow> 'w \<Rightarrow> (int \<times> mqtt_client \<times> 'w) option" where
  "recv_pubrel env pid cl w = do {
     (found, cl, w) \<leftarrow> release_acked env MQTT_CONTROL_PUBREC (Some pid) cl w;
     if \<not> found then Some (mqtt_err MQTT_ERROR_ACK_OF_UNKNOWN, cl, w)
     else do { r \<leftarrow> mqtt_pubcomp cl pid; Some (staged r w) }
   }"

definition recv_suback ::
  "'w mqtt_env \<Rightarrow> u8 list \<Rightarrow> mqtt_response_suback \<Rightarrow> mqtt_client \<Rightarrow> 'w \<Rightarrow> (int \<times> mqtt_client \<times> 'w) option"
where
  "recv_suback env mem s cl w = do {
     (found, cl, w) \<leftarrow> release_acked env MQTT_CONTROL_SUBSCRIBE (Some (suback_packet_id s)) cl w;
     if \<not> found then Some (mqtt_err MQTT_ERROR_ACK_OF_UNKNOWN, cl, w)
     else do {
       code \<leftarrow> peek mem (return_codes s);
       if code = MQTT_SUBACK_FAILURE
       then Some (mqtt_err MQTT_ERROR_SUBSCRIBE_FAILED,
         cl\<lparr>cl_error := mqtt_err MQTT_ERROR_SUBSCRIBE_FAILED\<rparr>, w)
       else Some (mqtt_err MQTT_OK, cl, w)
     }
   }"

text \<open>
  The \<open>switch\<close> over the control type. The unpacker has stored the member of the union that belongs
  to the control type; reading another one has no defined result here.
\<close>

definition handle_response ::
  "'w mqtt_env \<Rightarrow> mqtt_response \<Rightarrow> u8 list \<Rightarrow> mqtt_client \<Rightarrow> 'w \<Rightarrow> (int \<times> mqtt_client \<times> 'w) option"
where
  "handle_response env r mem cl w =
     (case control_type (fixed_header r) of
        MQTT_CONTROL_CONNACK \<Rightarrow>
          (case decoded r of Connack c \<Rightarrow> recv_connack env (return_code c) cl w | _ \<Rightarrow> None)
      | MQTT_CONTROL_PUBLISH \<Rightarrow>
          (case decoded r of Publish p \<Rightarrow> recv_publish env mem p cl w | _ \<Rightarrow> None)
      | MQTT_CONTROL_PUBACK \<Rightarrow>
          (case decoded r of Puback pid \<Rightarrow> recv_ack env MQTT_CONTROL_PUBLISH (Some pid) cl w | _ \<Rightarrow> None)
      | MQTT_CONTROL_PUBREC \<Rightarrow>
          (case decoded r of Pubrec pid \<Rightarrow> recv_pubrec env pid cl w | _ \<Rightarrow> None)
      | MQTT_CONTROL_PUBREL \<Rightarrow>
          (case decoded r of Pubrel pid \<Rightarrow> recv_pubrel env pid cl w | _ \<Rightarrow> None)
      | MQTT_CONTROL_PUBCOMP \<Rightarrow>
          (case decoded r of Pubcomp pid \<Rightarrow> recv_ack env MQTT_CONTROL_PUBREL (Some pid) cl w | _ \<Rightarrow> None)
      | MQTT_CONTROL_SUBACK \<Rightarrow>
          (case decoded r of Suback s \<Rightarrow> recv_suback env mem s cl w | _ \<Rightarrow> None)
      | MQTT_CONTROL_UNSUBACK \<Rightarrow>
          (case decoded r of Unsuback pid \<Rightarrow> recv_ack env MQTT_CONTROL_UNSUBSCRIBE (Some pid) cl w | _ \<Rightarrow> None)
      | MQTT_CONTROL_PINGRESP \<Rightarrow> recv_ack env MQTT_CONTROL_PINGREQ None cl w
      | _ \<Rightarrow> Some (mqtt_err MQTT_ERROR_MALFORMED_RESPONSE,
               cl\<lparr>cl_error := mqtt_err MQTT_ERROR_MALFORMED_RESPONSE\<rparr>, w))"

text \<open>The bytes \<open>mqtt_pal_recvall\<close> stores at \<open>recv_buffer.curr\<close>.\<close>

definition rb_store :: "u8 list \<Rightarrow> recv_buffer \<Rightarrow> recv_buffer option" where
  "rb_store bs rb =
     (case rb_mem rb of
        None \<Rightarrow> if bs = [] then Some rb else None
      | Some m \<Rightarrow> if rb_curr rb + length bs \<le> length m
                  then Some (rb\<lparr>rb_mem := Some (overwrite m (rb_curr rb) bs)\<rparr>) else None)"

text \<open>Cleaning the buffer: the \<open>memmove\<close> of what follows the packet.\<close>

definition rb_consume :: "nat \<Rightarrow> recv_buffer \<Rightarrow> recv_buffer option" where
  "rb_consume consumed rb = do {
     m \<leftarrow> rb_mem rb;
     if consumed > rb_curr rb then None
     else do {
       bytes \<leftarrow> mem_block m consumed (rb_curr rb - consumed);
       Some (rb\<lparr>rb_mem := Some (overwrite m 0 bytes), rb_curr := rb_curr rb - consumed,
         rb_curr_sz := rb_curr_sz rb + consumed\<rparr>)
     }
   }"

text \<open>One pass of the \<open>while\<close> loop: \<open>Some rv\<close> is the value the function returns.\<close>

definition recv_one ::
  "'w mqtt_env \<Rightarrow> mqtt_response \<Rightarrow> mqtt_client \<Rightarrow> 'w \<Rightarrow>
   (int option \<times> mqtt_response \<times> mqtt_client \<times> 'w) option" where
  "recv_one env r cl w = do {
     (rv, bs, w) \<leftarrow> mqtt_pal_recvall env (cl_socketfd cl) (rb_curr_sz (cl_recv_buffer cl)) w;
     rb \<leftarrow> rb_store bs (cl_recv_buffer cl);
     if rv < 0 then Some (Some rv, r, cl\<lparr>cl_recv_buffer := rb, cl_error := rv\<rparr>, w)
     else do {
       let rb = rb\<lparr>rb_curr := rb_curr rb + nat rv, rb_curr_sz := rb_curr_sz rb - nat rv\<rparr>;
       let cl = cl\<lparr>cl_recv_buffer := rb\<rparr>;
       (consumed, r) \<leftarrow> mqtt_unpack_response r (rb_mem rb) (rb_curr rb);
       if consumed < 0 then Some (Some consumed, r, cl\<lparr>cl_error := consumed\<rparr>, w)
       else if consumed = 0 then
         (if rb_curr_sz rb = 0
          then Some (Some (mqtt_err MQTT_ERROR_RECV_BUFFER_TOO_SMALL), r,
            cl\<lparr>cl_error := mqtt_err MQTT_ERROR_RECV_BUFFER_TOO_SMALL\<rparr>, w)
          else Some (Some (mqtt_err MQTT_OK), r, cl, w))
       else do {
         mem \<leftarrow> rb_mem rb;
         (ret, cl, w) \<leftarrow> handle_response env r mem cl w;
         rb \<leftarrow> rb_consume (nat consumed) (cl_recv_buffer cl);
         Some (if ret = mqtt_err MQTT_OK then None else Some ret, r, cl\<lparr>cl_recv_buffer := rb\<rparr>, w)
       }
     }
   }"

partial_function (option) recv_loop ::
  "'w mqtt_env \<Rightarrow> mqtt_response \<Rightarrow> mqtt_client \<Rightarrow> 'w \<Rightarrow> (int \<times> mqtt_client \<times> 'w) option" where
  [code]: "recv_loop env r cl w = do {
     (ret, r, cl, w) \<leftarrow> recv_one env r cl w;
     case ret of
       None \<Rightarrow> recv_loop env r cl w
     | Some rv \<Rightarrow> Some (rv, cl, w)
   }"

text \<open>\<open>response\<close> is the local variable of the function, which holds anything at first.\<close>

definition mqtt_recv ::
  "'w mqtt_env \<Rightarrow> mqtt_response \<Rightarrow> mqtt_client \<Rightarrow> 'w \<Rightarrow> (int \<times> mqtt_client \<times> 'w) option" where
  "mqtt_recv env response cl w = do {
     cl \<leftarrow> mutex_lock cl;
     (rv, cl, w) \<leftarrow> recv_loop env response cl w;
     cl \<leftarrow> mutex_unlock cl;
     Some (rv, cl, w)
   }"

subsection \<open>Synchronising\<close>

text \<open>
  The parts of \<open>mqtt_sync\<close>. The start recovers from an error: the reconnect callback gets the client
  with the mutex held (and is to release it by calling \<open>mqtt_connect\<close>). The result tells whether a
  reconnection has been asked for.
\<close>

definition sync_start ::
  "(nat \<Rightarrow> mqtt_client \<Rightarrow> 'w \<Rightarrow> (mqtt_client \<times> 'w) option) \<Rightarrow> mqtt_client \<Rightarrow> 'w \<Rightarrow>
   (bool \<times> mqtt_client \<times> 'w) option" where
  "sync_start reconnect cl w =
     (if cl_error cl \<noteq> mqtt_err MQTT_ERROR_RECONNECTING \<and> cl_error cl \<noteq> mqtt_err MQTT_OK \<and>
         cl_reconnect_callback cl \<noteq> None
      then do {
        cb \<leftarrow> cl_reconnect_callback cl;
        (cl, w) \<leftarrow> reconnect cb cl w;
        Some (False, cl, w)
      } else do {
        let reconnecting = (cl_error cl = mqtt_err MQTT_ERROR_RECONNECTING);
        let cl = (if reconnecting then cl\<lparr>cl_error := mqtt_err MQTT_OK\<rparr> else cl);
        cl \<leftarrow> mutex_unlock cl;
        Some (reconnecting, cl, w)
      })"

text \<open>The inspector callback runs with the mutex held.\<close>

definition sync_inspect ::
  "(nat \<Rightarrow> mqtt_client \<Rightarrow> 'w \<Rightarrow> (int \<times> mqtt_client \<times> 'w) option) \<Rightarrow> mqtt_client \<Rightarrow> 'w \<Rightarrow>
   (int \<times> mqtt_client \<times> 'w) option" where
  "sync_inspect inspector cl w =
     (case cl_inspector_callback cl of
        None \<Rightarrow> Some (mqtt_err MQTT_OK, cl, w)
      | Some cb \<Rightarrow> do {
          cl \<leftarrow> mutex_lock cl;
          (err, cl, w) \<leftarrow> inspector cb cl w;
          cl \<leftarrow> mutex_unlock cl;
          Some (err, cl, w)
        })"

text \<open>After the disconnect packet of \<open>mqtt_reconnect\<close> has been sent, the connection is set up again.\<close>

definition sync_finish ::
  "bool \<Rightarrow> (nat \<Rightarrow> mqtt_client \<Rightarrow> 'w \<Rightarrow> (mqtt_client \<times> 'w) option) \<Rightarrow> int \<times> mqtt_client \<times> 'w \<Rightarrow>
   (int \<times> mqtt_client \<times> 'w) option" where
  "sync_finish reconnecting reconnect res = (case res of (err, cl, w) \<Rightarrow>
     if reconnecting \<and> cl_reconnect_callback cl \<noteq> None then do {
       cl \<leftarrow> mutex_lock cl;
       cb \<leftarrow> cl_reconnect_callback cl;
       (cl, w) \<leftarrow> reconnect cb cl w;
       Some (err, cl, w)
     } else Some (err, cl, w))"

definition mqtt_sync ::
  "'w mqtt_env \<Rightarrow> (nat \<Rightarrow> mqtt_client \<Rightarrow> 'w \<Rightarrow> (int \<times> mqtt_client \<times> 'w) option) \<Rightarrow>
   (nat \<Rightarrow> mqtt_client \<Rightarrow> 'w \<Rightarrow> (mqtt_client \<times> 'w) option) \<Rightarrow> mqtt_response \<Rightarrow>
   mqtt_client \<Rightarrow> 'w \<Rightarrow> (int \<times> mqtt_client \<times> 'w) option" where
  "mqtt_sync env inspector reconnect response cl w = do {
     cl \<leftarrow> mutex_lock cl;
     (reconnecting, cl, w) \<leftarrow> sync_start reconnect cl w;
     (err, cl, w) \<leftarrow> sync_inspect inspector cl w;
     if err \<noteq> mqtt_err MQTT_OK then Some (err, cl, w)
     else do {
       (err, cl, w) \<leftarrow> mqtt_recv env response cl w;
       if err \<noteq> mqtt_err MQTT_OK then Some (err, cl, w)
       else do { res \<leftarrow> mqtt_send env cl w; sync_finish reconnecting reconnect res }
     }
   }"

end
