(* ===== verification/Mqtt_Send.thy ===== *)
theory Mqtt_Send
  imports Mqtt_Sync
begin

text \<open>
  What a pass of \<open>__mqtt_send\<close> does to the queue, seen as a list of packets: which packets it may
  send, what becomes of them, and that it leaves all others as they are.
\<close>

subsection \<open>Sending one packet\<close>

definition sendable_types :: "MQTTControlPacketType set" where
  "sendable_types = {MQTT_CONTROL_CONNECT, MQTT_CONTROL_PUBLISH, MQTT_CONTROL_PUBACK,
     MQTT_CONTROL_PUBREC, MQTT_CONTROL_PUBREL, MQTT_CONTROL_PUBCOMP, MQTT_CONTROL_SUBSCRIBE,
     MQTT_CONTROL_UNSUBSCRIBE, MQTT_CONTROL_PINGREQ, MQTT_CONTROL_DISCONNECT}"

definition sendable :: "queue_entry \<Rightarrow> bool" where
  "sendable e \<longleftrightarrow> en_bytes e \<noteq> [] \<and> en_type e \<in> sendable_types"

definition publish_qos :: "queue_entry \<Rightarrow> u8" where
  "publish_qos e = 0x03 AND drop_bit 1 (hd (en_bytes e))"

definition qos2_pending :: "queue_entry \<Rightarrow> bool" where
  "qos2_pending e \<longleftrightarrow> en_type e = MQTT_CONTROL_PUBLISH \<and> \<not> complete e \<and> publish_qos e = 2"

text \<open>
  A packet that needs no answer is done once it is sent. A QoS 1 PUBLISH gets the DUP flag, for the
  case that it has to be sent again.
\<close>

definition sent_entry :: "int \<Rightarrow> queue_entry \<Rightarrow> queue_entry" where
  "sent_entry now e =
     (let e = e\<lparr>en_time := now\<rparr>
      in if en_type e \<in> {MQTT_CONTROL_PUBACK, MQTT_CONTROL_PUBCOMP, MQTT_CONTROL_DISCONNECT}
         then e\<lparr>en_state := MQTT_QUEUED_COMPLETE\<rparr>
         else if en_type e = MQTT_CONTROL_PUBLISH \<and> publish_qos e = 0
         then e\<lparr>en_state := MQTT_QUEUED_COMPLETE\<rparr>
         else if en_type e = MQTT_CONTROL_PUBLISH \<and> publish_qos e = 1
         then e\<lparr>en_state := MQTT_QUEUED_AWAITING_ACK,
                en_bytes := (hd (en_bytes e) OR MQTT_PUBLISH_DUP) # tl (en_bytes e)\<rparr>
         else e\<lparr>en_state := MQTT_QUEUED_AWAITING_ACK\<rparr>)"

lemma qos_mask_shifted: "drop_bit (Suc 0) MQTT_PUBLISH_QOS_MASK = 0x03"
  by (simp add: flag_defs)

lemma mq_view_nth: "i < mqtt_mq_length mq \<Longrightarrow> mq_view mq ! i = entry_of (mq_mem mq) (mq_queue mq ! i)"
  by (simp add: mq_view_def mqtt_mq_length_def)

lemma mark_sent_view:
  assumes ok: "mq_ok M mq" and i: "i < mqtt_mq_length mq" and s: "sendable (mq_view mq ! i)"
  shows "\<exists>mq'. mark_sent i (mq_update i (\<lambda>m. m\<lparr>qm_time_sent := now\<rparr>) mq) = Some (None, mq') \<and> mq_ok M mq' \<and>
    mq_view mq' = (mq_view mq)[i := sent_entry now (mq_view mq ! i)]"
proof -
  let ?e = "mq_view mq ! i" and ?mq = "mq_update i (\<lambda>m. m\<lparr>qm_time_sent := now\<rparr>) mq"
  have i': "i < length (mq_queue mq)" using i by (simp add: mqtt_mq_length_def)
  have ok1: "mq_ok M ?mq" using ok by (simp add: mq_update_ok)
  have v1: "mq_view ?mq = (mq_view mq)[i := ?e\<lparr>en_time := now\<rparr>]"
    by (simp add: mq_update_view mq_view_nth [OF i])
  have q1: "mq_queue ?mq ! i = (mq_queue mq ! i)\<lparr>qm_time_sent := now\<rparr>"
    using i' by (simp add: mq_update_def)
  have ty: "qm_control_type (mq_queue ?mq ! i) = en_type ?e"
    unfolding q1 by (simp add: mq_view_nth [OF i] entry_of_def)
  have st: "mq_ok M (mq_update i (\<lambda>m. m\<lparr>qm_state := st\<rparr>) ?mq)"
    "mq_view (mq_update i (\<lambda>m. m\<lparr>qm_state := st\<rparr>) ?mq) = (mq_view mq)[i := ?e\<lparr>en_time := now, en_state := st\<rparr>]"
    for st
    using ok1 by (simp_all add: mq_update_ok mq_update_view v1 q1 mq_view_nth [OF i])
  have start: "qm_start (mq_queue ?mq ! i) < length (mq_mem mq)"
    "mq_mem mq ! qm_start (mq_queue ?mq ! i) = hd (en_bytes ?e)"
    using poke_first_view(1,2) [OF ok i] s unfolding q1 by (simp_all add: sendable_def)
  note defs = mark_sent_def Let_def ty start qos_mask_shifted sent_entry_def publish_qos_def
  show ?thesis
  proof (cases "en_type ?e = MQTT_CONTROL_PUBLISH \<and> publish_qos ?e = 1")
    case True
    let ?mq2 = "mq_update i (\<lambda>m. m\<lparr>qm_state := MQTT_QUEUED_AWAITING_ACK\<rparr>) ?mq"
    let ?b = "hd (en_bytes ?e) OR MQTT_PUBLISH_DUP"
    let ?mem = "(mq_mem ?mq2)[qm_start (mq_queue ?mq2 ! i) := ?b]"
    have q2: "qm_start (mq_queue ?mq2 ! i) = qm_start (mq_queue ?mq ! i)" "mq_mem ?mq2 = mq_mem ?mq"
      using i' by (simp_all add: mq_update_def)
    have len: "i < mqtt_mq_length ?mq2" using i by simp
    have e2: "mq_view ?mq2 ! i = ?e\<lparr>en_time := now, en_state := MQTT_QUEUED_AWAITING_ACK\<rparr>"
      unfolding st(2) using i by simp
    have ne: "en_bytes (mq_view ?mq2 ! i) \<noteq> []" unfolding e2 using s by (simp add: sendable_def)
    note poke = poke_first_view(3,4) [OF st(1) len ne, of ?b]
    have "mark_sent i ?mq = Some (None, ?mq2\<lparr>mq_mem := ?mem\<rparr>)"
      using True start unfolding q2 by (simp add: defs mqtt_mq_length_def)
    moreover have "mq_view (?mq2\<lparr>mq_mem := ?mem\<rparr>) = (mq_view mq)[i := sent_entry now ?e]"
      unfolding poke(2) unfolding e2 unfolding st(2) using True by (simp add: sent_entry_def publish_qos_def)
    ultimately show ?thesis using poke(1) by blast
  next
    case False
    let ?st = "en_state (sent_entry now ?e)"
    have "mark_sent i ?mq = Some (None, mq_update i (\<lambda>m. m\<lparr>qm_state := ?st\<rparr>) ?mq)"
      using False s by (auto simp: defs sendable_def sendable_types_def)
    moreover have "sent_entry now ?e = ?e\<lparr>en_time := now, en_state := ?st\<rparr>"
      using False by (auto simp: sent_entry_def Let_def publish_qos_def)
    ultimately show ?thesis using st [of ?st] by auto
  qed
qed

subsection \<open>What reaches the BIO\<close>

text \<open>
  The calls of \<open>BIO_write\<close> that hand the bytes \<open>bs\<close> to the transport, all of them and in order: every
  call offers what is left, and takes some bytes off its front or asks for a retry. A failed transfer
  starts in the same way and ends with a call that takes nothing and asks for no retry.
\<close>

inductive bio_sends :: "'w mqtt_env \<Rightarrow> nat \<Rightarrow> u8 list \<Rightarrow> 'w \<Rightarrow> 'w \<Rightarrow> bool" for env :: "'w mqtt_env" and fd :: nat where
  Sends_All: "bio_sends env fd [] w w"
| Sends_Some: "bs \<noteq> [] \<Longrightarrow> bio_write env fd bs w = (tmp, w1) \<Longrightarrow> 0 < tmp \<Longrightarrow> nat tmp \<le> length bs \<Longrightarrow>
    bio_sends env fd (drop (nat tmp) bs) w1 w' \<Longrightarrow> bio_sends env fd bs w w'"
| Sends_Retry: "bs \<noteq> [] \<Longrightarrow> bio_write env fd bs w = (tmp, w1) \<Longrightarrow> tmp \<le> 0 \<Longrightarrow> bio_should_retry env fd w1 \<Longrightarrow>
    bio_sends env fd bs w1 w' \<Longrightarrow> bio_sends env fd bs w w'"

inductive bio_fails :: "'w mqtt_env \<Rightarrow> nat \<Rightarrow> u8 list \<Rightarrow> 'w \<Rightarrow> 'w \<Rightarrow> bool" for env :: "'w mqtt_env" and fd :: nat where
  Fails_Now: "bs \<noteq> [] \<Longrightarrow> bio_write env fd bs w = (tmp, w') \<Longrightarrow> tmp \<le> 0 \<Longrightarrow> \<not> bio_should_retry env fd w' \<Longrightarrow>
    bio_fails env fd bs w w'"
| Fails_After: "bs \<noteq> [] \<Longrightarrow> bio_write env fd bs w = (tmp, w1) \<Longrightarrow> 0 < tmp \<Longrightarrow> nat tmp \<le> length bs \<Longrightarrow>
    bio_fails env fd (drop (nat tmp) bs) w1 w' \<Longrightarrow> bio_fails env fd bs w w'"
| Fails_Retry: "bs \<noteq> [] \<Longrightarrow> bio_write env fd bs w = (tmp, w1) \<Longrightarrow> tmp \<le> 0 \<Longrightarrow> bio_should_retry env fd w1 \<Longrightarrow>
    bio_fails env fd bs w1 w' \<Longrightarrow> bio_fails env fd bs w w'"

inductive_simps bio_sends_Nil: "bio_sends env fd [] w w'"
inductive_simps bio_fails_Nil: "bio_fails env fd [] w w'"

lemma sendall_loop_sends:
  assumes laws: "bio_laws env" and ret: "sendall_loop env fd buf sent w = Some (rv, w')"
  shows "sent \<le> length buf \<longrightarrow>
    rv = int (length buf) \<and> bio_sends env fd (drop sent buf) w w' \<or>
    rv = mqtt_err MQTT_ERROR_SOCKET_ERROR \<and> bio_fails env fd (drop sent buf) w w'"
proof -
  let ?ok = "\<lambda>fd buf sent w r. sent \<le> length buf \<longrightarrow>
      fst r = int (length buf) \<and> bio_sends env fd (drop sent buf) w (snd r) \<or>
      fst r = mqtt_err MQTT_ERROR_SOCKET_ERROR \<and> bio_fails env fd (drop sent buf) w (snd r)"
  have "env = env \<longrightarrow> ?ok fd buf sent w (rv, w')"
  proof (rule sendall_loop.raw_induct [where P = "\<lambda>e fd buf sent w r. e = env \<longrightarrow> ?ok fd buf sent w r", OF _ ret])
    fix f e fd buf sent and w :: 'a and r
    assume IH: "\<And>e fd buf sent w r. f e fd buf sent w = Some r \<Longrightarrow> e = env \<longrightarrow> ?ok fd buf sent w r"
      and body: "(if sent < length buf
        then let (tmp, w) = bio_write e fd (drop sent buf) w
             in if tmp > 0 then f e fd buf (sent + nat tmp) w
                else if \<not> bio_should_retry e fd w then Some (mqtt_err MQTT_ERROR_SOCKET_ERROR, w)
                else f e fd buf sent w
        else Some (int sent, w)) = Some r"
    show "e = env \<longrightarrow> ?ok fd buf sent w r"
    proof (intro impI)
      assume e: "e = env" and le: "sent \<le> length buf"
      obtain tmp w1 where bw: "bio_write env fd (drop sent buf) w = (tmp, w1)" by fastforce
      then have "fst (tmp, w1) \<le> int (length (drop sent buf))"
        using laws unfolding bio_laws_def by metis
      then have room: "nat tmp \<le> length (drop sent buf)" "sent + nat tmp \<le> length buf" if "tmp > 0"
        using le that by simp_all
      show "fst r = int (length buf) \<and> bio_sends env fd (drop sent buf) w (snd r) \<or>
          fst r = mqtt_err MQTT_ERROR_SOCKET_ERROR \<and> bio_fails env fd (drop sent buf) w (snd r)"
      proof (cases "sent < length buf")
        case False
        with body le show ?thesis by (auto simp: Sends_All)
      next
        case True
        then have ne: "drop sent buf \<noteq> []" by simp
        consider "0 < tmp" "f env fd buf (sent + nat tmp) w1 = Some r"
          | "tmp \<le> 0" "bio_should_retry env fd w1" "f env fd buf sent w1 = Some r"
          | "tmp \<le> 0" "\<not> bio_should_retry env fd w1" "r = (mqtt_err MQTT_ERROR_SOCKET_ERROR, w1)"
          using body e bw True by (auto split: if_splits)
        then show ?thesis
        proof cases
          case 1
          have "drop (nat tmp) (drop sent buf) = drop (sent + nat tmp) buf" by (simp add: add.commute)
          with 1 IH [OF 1(2)] room ne bw show ?thesis
            by (auto intro: Sends_Some Fails_After simp del: drop_drop)
        next
          case 2
          with IH [OF 2(3)] le ne bw show ?thesis by (blast intro: Sends_Retry Fails_Retry)
        next
          case 3
          with Fails_Now [OF ne bw] show ?thesis by simp
        qed
      qed
    qed
  qed
  then show ?thesis by simp
qed

lemma mqtt_pal_sendall_sends:
  assumes "bio_laws env" and "mqtt_pal_sendall env fd buf w = Some (rv, w')"
  shows "rv = int (length buf) \<and> bio_sends env fd buf w w' \<or>
    rv = mqtt_err MQTT_ERROR_SOCKET_ERROR \<and> bio_fails env fd buf w w'"
  using sendall_loop_sends [OF assms(1) assms(2) [unfolded mqtt_pal_sendall_def]] by simp

subsection \<open>One message of the pass\<close>

text \<open>
  Whether the pass sends a packet, with the clock it reads in the world \<open>w\<close>: the packet is unsent, or
  waits for its answer and the clock has passed its time-out. A QoS 2 PUBLISH behind another that is
  not complete is held back. The clock is read only for a packet that waits.
\<close>

definition message_due :: "'w mqtt_env \<Rightarrow> int \<Rightarrow> bool \<Rightarrow> queue_entry \<Rightarrow> 'w \<Rightarrow> bool" where
  "message_due env timeout inflight e w \<longleftrightarrow>
     (en_state e = MQTT_QUEUED_UNSENT \<or>
      en_state e = MQTT_QUEUED_AWAITING_ACK \<and> fst (pal_time env w) > en_time e + timeout) \<and>
     \<not> (inflight \<and> qos2_pending e)"

definition clock_asked :: "'w mqtt_env \<Rightarrow> queue_entry \<Rightarrow> 'w \<Rightarrow> 'w" where
  "clock_asked env e w = (if en_state e = MQTT_QUEUED_AWAITING_ACK then snd (pal_time env w) else w)"

text \<open>
  What becomes of a packet when the pass comes to it, and of the time of the last transmission and the
  world. A due packet is sent: exactly its bytes reach the BIO, and it carries the time read after
  that. A packet that is not due stays as it is.
\<close>

definition message_pass ::
  "'w mqtt_env \<Rightarrow> nat \<Rightarrow> int \<Rightarrow> bool \<Rightarrow> queue_entry \<Rightarrow> int \<times> 'w \<Rightarrow> queue_entry \<Rightarrow> int \<times> 'w \<Rightarrow> bool" where
  "message_pass env fd timeout inflight e s e' s' \<longleftrightarrow>
     (if message_due env timeout inflight e (snd s)
      then \<exists>w1. bio_sends env fd (en_bytes e) (clock_asked env e (snd s)) w1 \<and>
        s' = pal_time env w1 \<and> e' = sent_entry (fst s') e
      else e' = e \<and> s' = (fst s, clock_asked env e (snd s)))"

text \<open>What the pass leaves alone outside the queue.\<close>

definition send_frame :: "mqtt_client \<Rightarrow> mqtt_client \<Rightarrow> bool" where
  "send_frame cl cl' \<longleftrightarrow>
     cl' = cl\<lparr>cl_mq := cl_mq cl', cl_error := cl_error cl', cl_send_offset := cl_send_offset cl',
        cl_time_of_last_send := cl_time_of_last_send cl', cl_number_of_timeouts := cl_number_of_timeouts cl'\<rparr>"

lemma send_frame_refl [simp]: "send_frame cl cl"
  by (simp add: send_frame_def)

lemma send_frame_trans: "send_frame a b \<Longrightarrow> send_frame b c \<Longrightarrow> send_frame a c"
  by (cases a, cases b, cases c) (simp add: send_frame_def)

lemma send_frame_fields:
  "send_frame cl cl' \<Longrightarrow> cl_mutex cl' = cl_mutex cl \<and> cl_recv_buffer cl' = cl_recv_buffer cl \<and>
     cl_response_timeout cl' = cl_response_timeout cl \<and> cl_socketfd cl' = cl_socketfd cl \<and>
     cl_reconnect_callback cl' = cl_reconnect_callback cl \<and> cl_keep_alive cl' = cl_keep_alive cl"
  by (cases cl, cases cl') (simp add: send_frame_def)

lemma send_due_cases:
  obtains n off where
    "send_due env msg cl w = (True, cl\<lparr>cl_number_of_timeouts := n, cl_send_offset := off\<rparr>,
       clock_asked env (entry_of mem msg) w)"
    "cl_send_offset cl = 0 \<Longrightarrow> off = 0"
    "qm_state msg = MQTT_QUEUED_UNSENT \<or>
       qm_state msg = MQTT_QUEUED_AWAITING_ACK \<and> fst (pal_time env w) > qm_time_sent msg + cl_response_timeout cl"
  | "send_due env msg cl w = (False, cl, clock_asked env (entry_of mem msg) w)"
    "qm_state msg \<noteq> MQTT_QUEUED_UNSENT"
    "qm_state msg = MQTT_QUEUED_AWAITING_ACK \<longrightarrow> \<not> fst (pal_time env w) > qm_time_sent msg + cl_response_timeout cl"
proof -
  have "en_state (entry_of mem msg) = qm_state msg" by (simp add: entry_of_def)
  then have asked: "clock_asked env (entry_of mem msg) w =
      (if qm_state msg = MQTT_QUEUED_AWAITING_ACK then snd (pal_time env w) else w)"
    by (simp add: clock_asked_def)
  show thesis
  proof (cases "qm_state msg")
    case MQTT_QUEUED_UNSENT
    with asked show thesis
      using that(1) [where n = "cl_number_of_timeouts cl" and off = "cl_send_offset cl"] by (simp add: send_due_def)
  next
    case MQTT_QUEUED_AWAITING_ACK
    with asked show thesis
      using that(1) [where n = "cl_number_of_timeouts cl + 1" and off = 0] that(2)
      by (cases "fst (pal_time env w) > qm_time_sent msg + cl_response_timeout cl")
        (simp_all add: send_due_def case_prod_unfold)
  next
    case MQTT_QUEUED_COMPLETE
    with asked show thesis using that(2) by (simp add: send_due_def)
  qed
qed

lemma qos2_gate_view:
  assumes ok: "mq_ok M mq" and i: "i < mqtt_mq_length mq" and s: "sendable (mq_view mq ! i)"
  shows "qos2_gate (mq_mem mq) (mq_queue mq ! i) resend inflight =
    Some (resend \<and> \<not> (inflight \<and> qos2_pending (mq_view mq ! i)), inflight \<or> qos2_pending (mq_view mq ! i))"
proof -
  let ?m = "mq_queue mq ! i" and ?e = "mq_view mq ! i"
  have e: "?e = entry_of (mq_mem mq) ?m" by (rule mq_view_nth [OF i])
  have ty: "en_type ?e = qm_control_type ?m" "complete ?e \<longleftrightarrow> qm_state ?m = MQTT_QUEUED_COMPLETE"
    unfolding e by (simp_all only: complete_entry_of) (simp_all add: entry_of_def)
  have start: "qm_start ?m < length (mq_mem mq)" "mq_mem mq ! qm_start ?m = hd (en_bytes ?e)"
    using poke_first_view(1,2) [OF ok i] s by (simp_all add: sendable_def)
  show ?thesis
    using start ty by (cases "qm_state ?m") (auto simp: qos2_gate_def qos2_pending_def publish_qos_def Let_def)
qed

lemma message_block:
  assumes ok: "mq_ok M mq" and i: "i < mqtt_mq_length mq"
  shows "mem_block (mq_mem mq) (qm_start (mq_queue mq ! i)) (qm_size (mq_queue mq ! i)) =
      Some (en_bytes (mq_view mq ! i))"
    and "length (en_bytes (mq_view mq ! i)) = qm_size (mq_queue mq ! i)"
proof -
  have "mq_wf mq" using ok by (simp add: mq_ok_def)
  then have "qm_start (mq_queue mq ! i) + qm_size (mq_queue mq ! i) \<le> length (mq_mem mq)"
    using mq_wf_message [of mq "mq_queue mq ! i"] i by (simp add: mqtt_mq_length_def)
  then show "mem_block (mq_mem mq) (qm_start (mq_queue mq ! i)) (qm_size (mq_queue mq ! i)) =
      Some (en_bytes (mq_view mq ! i))"
    and "length (en_bytes (mq_view mq ! i)) = qm_size (mq_queue mq ! i)"
    by (simp_all add: mq_view_nth [OF i] entry_of_def mem_block_def)
qed

lemma send_message_ok:
  assumes env: "bio_laws env" "bio_unblocks env blocked"
    and ok: "cl_ok M cl" and i: "i < mqtt_mq_length (cl_mq cl)" and s: "sendable (cl_view cl ! i)"
    and off: "cl_send_offset cl = 0"
  shows "\<exists>r inflight' cl' w'. send_message env i inflight cl w = Some (r, inflight', cl', w') \<and>
    cl_ok M cl' \<and> cl_send_offset cl' = 0 \<and> send_frame cl cl' \<and>
    (case r of
       Send_Next \<Rightarrow> inflight' = (inflight \<or> qos2_pending (cl_view cl ! i)) \<and> cl_error cl' = cl_error cl \<and>
         (\<exists>e'. cl_view cl' = (cl_view cl)[i := e'] \<and>
           message_pass env (cl_socketfd cl) (cl_response_timeout cl) inflight (cl_view cl ! i)
             (cl_time_of_last_send cl, w) e' (cl_time_of_last_send cl', w'))
     | Send_Break \<Rightarrow> False
     | Send_Return rv \<Rightarrow> rv = mqtt_err MQTT_ERROR_SOCKET_ERROR \<and> cl_error cl' = rv \<and> cl_view cl' = cl_view cl \<and>
         cl_time_of_last_send cl' = cl_time_of_last_send cl \<and>
         message_due env (cl_response_timeout cl) inflight (cl_view cl ! i) w \<and>
         bio_fails env (cl_socketfd cl) (en_bytes (cl_view cl ! i)) (clock_asked env (cl_view cl ! i) w) w')"
proof -
  let ?m = "mq_queue (cl_mq cl) ! i" and ?e = "cl_view cl ! i"
  let ?due = "message_due env (cl_response_timeout cl) inflight ?e w" and ?w = "clock_asked env ?e w"
  have e: "?e = entry_of (mq_mem (cl_mq cl)) ?m" by (rule mq_view_nth [OF i])
  have st: "en_state ?e = qm_state ?m" "en_time ?e = qm_time_sent ?m"
    unfolding e by (simp_all add: entry_of_def)
  note gate = qos2_gate_view [OF ok i s]
  have stays: "\<exists>e'. cl_view cl = (cl_view cl)[i := e'] \<and> message_pass env (cl_socketfd cl)
      (cl_response_timeout cl) inflight ?e (cl_time_of_last_send cl, w) e' (cl_time_of_last_send cl, ?w)"
    if "\<not> ?due"
    using that by (intro exI [of _ ?e]) (simp add: message_pass_def)
  show ?thesis
  proof (cases rule: send_due_cases [of env ?m cl w "mq_mem (cl_mq cl)", folded e])
    case 2
    then have "\<not> ?due" by (auto simp: message_due_def st)
    from stays [OF this] show ?thesis using 2 gate ok off
      by (simp add: send_message_def Let_def)
  next
    case (1 n off')
    let ?cl = "cl\<lparr>cl_number_of_timeouts := n, cl_send_offset := 0\<rparr>"
    have due: "send_due env ?m cl w = (True, ?cl, ?w)" using 1(1,2) off by simp
    have frame: "send_frame cl ?cl" by (simp add: send_frame_def)
    show ?thesis
    proof (cases "inflight \<and> qos2_pending ?e")
      case True
      then have "\<not> ?due" by (simp add: message_due_def)
      from stays [OF this] show ?thesis using due gate True ok frame
        by (simp add: send_message_def Let_def) blast
    next
      case False
      with 1(3) have is_due: ?due by (auto simp: message_due_def st)
      obtain rv w2 where sent: "mqtt_pal_sendall env (cl_socketfd cl) (en_bytes ?e) ?w = Some (rv, w2)"
        using mqtt_pal_sendall_returns [OF env(2)] by blast
      note out = mqtt_pal_sendall_sends [OF env(1) sent, unfolded message_block(2) [OF ok i]]
      show ?thesis
      proof (cases "rv = mqtt_err MQTT_ERROR_SOCKET_ERROR")
        case True
        then have "rv < 0" by simp
        moreover from this out have "bio_fails env (cl_socketfd cl) (en_bytes ?e) ?w w2" by linarith
        ultimately show ?thesis using due gate False ok sent message_block(1) [OF ok i] True is_due
          by (simp add: send_message_def Let_def send_frame_def del: mqtt_err.simps)
      next
        case full: False
        with out have rv: "rv = int (qm_size ?m)" "bio_sends env (cl_socketfd cl) (en_bytes ?e) ?w w2" by blast+
        obtain now w3 where t: "pal_time env w2 = (now, w3)" by fastforce
        obtain mq' where mark: "mark_sent i (mq_update i (\<lambda>m. m\<lparr>qm_time_sent := now\<rparr>) (cl_mq cl)) = Some (None, mq')"
          "mq_ok M mq'" "mq_view mq' = (cl_view cl)[i := sent_entry now ?e]"
          using mark_sent_view [OF ok i s] by blast
        have "message_pass env (cl_socketfd cl) (cl_response_timeout cl) inflight ?e
            (cl_time_of_last_send cl, w) (sent_entry now ?e) (now, w3)"
          using is_due rv(2) t unfolding message_pass_def by auto
        moreover have "send_frame cl (?cl\<lparr>cl_time_of_last_send := now, cl_mq := mq'\<rparr>)"
          by (simp add: send_frame_def)
        ultimately show ?thesis
          using due gate False ok sent message_block(1) [OF ok i] rv(1) t mark
          by (auto simp: send_message_def Let_def send_frame_def)
      qed
    qed
  qed
qed

subsection \<open>The pass over the queue\<close>

text \<open>
  The pass comes to the packets in order, until the end or until a transfer fails. A failed packet,
  and those behind it, stay as they are; the flag tells whether there is one.
\<close>

inductive queue_pass ::
  "'w mqtt_env \<Rightarrow> nat \<Rightarrow> int \<Rightarrow> bool \<Rightarrow> queue_entry list \<Rightarrow> int \<times> 'w \<Rightarrow> queue_entry list \<Rightarrow> int \<times> 'w \<Rightarrow> bool \<Rightarrow> bool"
  for env :: "'w mqtt_env" and fd :: nat and timeout :: int where
  Pass_End: "queue_pass env fd timeout inflight [] s [] s False"
| Pass_Next: "message_pass env fd timeout inflight e s e' s1 \<Longrightarrow>
    queue_pass env fd timeout (inflight \<or> qos2_pending e) es s1 es' s' failed \<Longrightarrow>
    queue_pass env fd timeout inflight (e # es) s (e' # es') s' failed"
| Pass_Fail: "message_due env timeout inflight e w \<Longrightarrow> bio_fails env fd (en_bytes e) (clock_asked env e w) w' \<Longrightarrow>
    queue_pass env fd timeout inflight (e # es) (sent_at, w) (e # es) (sent_at, w') True"

inductive_simps queue_pass_Nil: "queue_pass env fd timeout inflight [] s es' s' failed"
inductive_simps queue_pass_Cons: "queue_pass env fd timeout inflight (e # es) s es' s' failed"
inductive_cases queue_pass_Cons_elim: "queue_pass env fd timeout inflight (e # es) s es' s' failed"

lemma queue_pass_length: "queue_pass env fd timeout inflight es s es' s' failed \<Longrightarrow> length es' = length es"
  by (induction rule: queue_pass.induct) simp_all

lemma sent_entry_sendable: "sendable e \<Longrightarrow> sendable (sent_entry now e)"
  by (auto simp: sendable_def sent_entry_def Let_def)

lemma message_pass_sendable: "message_pass env fd timeout inflight e s e' s' \<Longrightarrow> sendable e \<Longrightarrow> sendable e'"
  by (auto simp: message_pass_def sent_entry_sendable split: if_splits)

lemma queue_pass_sendable:
  "queue_pass env fd timeout inflight es s es' s' failed \<Longrightarrow> \<forall>e \<in> set es. sendable e \<Longrightarrow> \<forall>e \<in> set es'. sendable e"
  by (induction rule: queue_pass.induct) (auto dest: message_pass_sendable)

text \<open>The state the loop over the indices from \<open>i\<close> on leaves, from the client and the world it starts in.\<close>

definition send_loop_result ::
  "nat \<Rightarrow> 'w mqtt_env \<Rightarrow> nat \<Rightarrow> bool \<Rightarrow> mqtt_client \<Rightarrow> 'w \<Rightarrow> int option \<Rightarrow> mqtt_client \<Rightarrow> 'w \<Rightarrow> bool" where
  "send_loop_result M env i inflight cl w r cl' w' \<longleftrightarrow>
     cl_ok M cl' \<and> cl_send_offset cl' = 0 \<and> send_frame cl cl' \<and>
     (\<exists>es'. cl_view cl' = take i (cl_view cl) @ es' \<and>
        queue_pass env (cl_socketfd cl) (cl_response_timeout cl) inflight (drop i (cl_view cl))
          (cl_time_of_last_send cl, w) es' (cl_time_of_last_send cl', w') (r \<noteq> None)) \<and>
     (case r of
        None \<Rightarrow> cl_error cl' = cl_error cl
      | Some rv \<Rightarrow> rv = mqtt_err MQTT_ERROR_SOCKET_ERROR \<and> cl_error cl' = rv)"

lemma send_loop_result_step:
  assumes i: "i < length (cl_view cl)"
    and first: "cl_view cl1 = (cl_view cl)[i := e']"
      "message_pass env (cl_socketfd cl) (cl_response_timeout cl) inflight (cl_view cl ! i)
        (cl_time_of_last_send cl, w) e' (cl_time_of_last_send cl1, w1)"
      "cl_error cl1 = cl_error cl" "send_frame cl cl1"
    and rest: "send_loop_result M env (Suc i) (inflight \<or> qos2_pending (cl_view cl ! i)) cl1 w1 r cl' w'"
  shows "send_loop_result M env i inflight cl w r cl' w'"
proof -
  have same: "cl_response_timeout cl1 = cl_response_timeout cl" "cl_socketfd cl1 = cl_socketfd cl"
    using send_frame_fields [OF first(4)] by simp_all
  obtain es' where v: "cl_view cl' = take (Suc i) (cl_view cl1) @ es'"
    and pass: "queue_pass env (cl_socketfd cl) (cl_response_timeout cl) (inflight \<or> qos2_pending (cl_view cl ! i))
      (drop (Suc i) (cl_view cl1)) (cl_time_of_last_send cl1, w1) es' (cl_time_of_last_send cl', w') (r \<noteq> None)"
    and r: "case r of None \<Rightarrow> cl_error cl' = cl_error cl1
      | Some rv \<Rightarrow> rv = mqtt_err MQTT_ERROR_SOCKET_ERROR \<and> cl_error cl' = rv"
    using rest unfolding send_loop_result_def same by blast
  have t: "take (Suc i) (cl_view cl1) = take i (cl_view cl) @ [e']"
    using i unfolding first(1) by (simp add: take_Suc_conv_app_nth)
  have d: "drop (Suc i) (cl_view cl1) = drop (Suc i) (cl_view cl)" unfolding first(1) by simp
  have "cl_view cl' = take i (cl_view cl) @ e' # es'" using v t by simp
  moreover have "queue_pass env (cl_socketfd cl) (cl_response_timeout cl) inflight (drop i (cl_view cl))
      (cl_time_of_last_send cl, w) (e' # es') (cl_time_of_last_send cl', w') (r \<noteq> None)"
    unfolding Cons_nth_drop_Suc [OF i, symmetric] by (rule Pass_Next [OF first(2) pass [unfolded d]])
  moreover have "cl_ok M cl'" "cl_send_offset cl' = 0" "send_frame cl cl'"
    using rest send_frame_trans [OF first(4)] unfolding send_loop_result_def by simp_all
  ultimately show ?thesis using r unfolding send_loop_result_def first(3) by blast
qed

lemma send_loop_ok:
  assumes env: "bio_laws env" "bio_unblocks env blocked"
  shows "cl_ok M cl \<Longrightarrow> \<forall>e \<in> set (cl_view cl). sendable e \<Longrightarrow> cl_send_offset cl = 0 \<Longrightarrow> i + n = mqtt_mq_length (cl_mq cl) \<Longrightarrow>
    \<exists>r cl' w'. send_loop env [i..<i + n] inflight cl w = Some (r, cl', w') \<and>
      send_loop_result M env i inflight cl w r cl' w'"
proof (induction n arbitrary: i inflight cl w)
  case 0
  then show ?case by (auto simp: send_loop_result_def Pass_End)
next
  case (Suc n)
  have i: "i < mqtt_mq_length (cl_mq cl)" using Suc.prems(4) by simp
  have s: "sendable (cl_view cl ! i)" using Suc.prems(2) i by simp
  obtain r inflight' cl1 w1 where step: "send_message env i inflight cl w = Some (r, inflight', cl1, w1)"
    and cl1: "cl_ok M cl1" "cl_send_offset cl1 = 0" "send_frame cl cl1"
    and out: "case r of
       Send_Next \<Rightarrow> inflight' = (inflight \<or> qos2_pending (cl_view cl ! i)) \<and> cl_error cl1 = cl_error cl \<and>
         (\<exists>e'. cl_view cl1 = (cl_view cl)[i := e'] \<and>
           message_pass env (cl_socketfd cl) (cl_response_timeout cl) inflight (cl_view cl ! i)
             (cl_time_of_last_send cl, w) e' (cl_time_of_last_send cl1, w1))
     | Send_Break \<Rightarrow> False
     | Send_Return rv \<Rightarrow> rv = mqtt_err MQTT_ERROR_SOCKET_ERROR \<and> cl_error cl1 = rv \<and> cl_view cl1 = cl_view cl \<and>
         cl_time_of_last_send cl1 = cl_time_of_last_send cl \<and>
         message_due env (cl_response_timeout cl) inflight (cl_view cl ! i) w \<and>
         bio_fails env (cl_socketfd cl) (en_bytes (cl_view cl ! i)) (clock_asked env (cl_view cl ! i) w) w1"
    using send_message_ok [OF env Suc.prems(1) i s Suc.prems(3)] by blast
  have upt: "[i..<i + Suc n] = i # [Suc i..<Suc i + n]" by (simp add: upt_conv_Cons)
  show ?case
  proof (cases r)
    case Send_Next
    with out obtain e' where e': "cl_view cl1 = (cl_view cl)[i := e']"
      "message_pass env (cl_socketfd cl) (cl_response_timeout cl) inflight (cl_view cl ! i)
        (cl_time_of_last_send cl, w) e' (cl_time_of_last_send cl1, w1)"
      and err: "cl_error cl1 = cl_error cl" and inf: "inflight' = (inflight \<or> qos2_pending (cl_view cl ! i))"
      by auto
    have "\<forall>e \<in> set (cl_view cl1). sendable e"
      using Suc.prems(2) message_pass_sendable [OF e'(2) s] unfolding e'(1)
      by (auto dest: set_update_subset_insert [THEN subsetD])
    moreover have "mqtt_mq_length (cl_mq cl1) = mqtt_mq_length (cl_mq cl)"
      using arg_cong [OF e'(1), of length] by simp
    then have "Suc i + n = mqtt_mq_length (cl_mq cl1)" using Suc.prems(4) by simp
    ultimately obtain r' cl' w' where "send_loop env [Suc i..<Suc i + n] inflight' cl1 w1 = Some (r', cl', w')"
      and rest: "send_loop_result M env (Suc i) inflight' cl1 w1 r' cl' w'"
      using Suc.IH [OF cl1(1) _ cl1(2)] by blast
    moreover have "send_loop_result M env i inflight cl w r' cl' w'"
      by (rule send_loop_result_step [OF _ e' err cl1(3) rest [unfolded inf]]) (use i in simp)
    ultimately show ?thesis unfolding upt using step Send_Next by simp
  next
    case Send_Break
    with out show ?thesis by simp
  next
    case (Send_Return rv)
    have split: "drop i (cl_view cl) = cl_view cl ! i # drop (Suc i) (cl_view cl)"
      by (rule Cons_nth_drop_Suc [symmetric]) (use i in simp)
    have "queue_pass env (cl_socketfd cl) (cl_response_timeout cl) inflight (drop i (cl_view cl))
        (cl_time_of_last_send cl, w) (drop i (cl_view cl)) (cl_time_of_last_send cl1, w1) True"
      unfolding split using out Send_Return by (simp add: Pass_Fail)
    with out Send_Return cl1 have "send_loop_result M env i inflight cl w (Some rv) cl1 w1"
      unfolding send_loop_result_def by (intro conjI exI [of _ "drop i (cl_view cl)"]) simp_all
    with step Send_Return show ?thesis unfolding upt by simp
  qed
qed

subsection \<open>The whole of sending\<close>

text \<open>The invariant of a connected client.\<close>

definition client_inv :: "nat \<Rightarrow> mqtt_client \<Rightarrow> bool" where
  "client_inv M cl \<longleftrightarrow> cl_ok M cl \<and> (\<forall>e \<in> set (cl_view cl). sendable e) \<and> cl_send_offset cl = 0"

text \<open>What submitting a request keeps, for the requests the client makes.\<close>

lemma submitted_sendable:
  assumes "submitted M release ctype packet_id cl rv cl'" and "ctype \<in> sendable_types"
    and "\<forall>e \<in> set (cl_view cl). sendable e"
  shows "\<forall>e \<in> set (cl_view cl'). sendable e"
proof (cases "rv = mqtt_err MQTT_OK")
  case True
  with assms(1) obtain kept e where "cl_view cl' = kept @ [e]" "cleaned (cl_view cl) kept" "request_entry e ctype packet_id"
    by (auto simp: submitted_def)
  with assms(2,3) cleaned_set show ?thesis by (fastforce simp: request_entry_def sendable_def)
next
  case False
  with assms(1) have "cleaned (cl_view cl) (cl_view cl')" by (simp add: submitted_def del: mqtt_err.simps)
  with assms(3) cleaned_set show ?thesis by blast
qed

lemma queue_step_frame:
  "queue_step cl cl' \<Longrightarrow> cl_send_offset cl' = cl_send_offset cl \<and> cl_recv_buffer cl' = cl_recv_buffer cl \<and>
     cl_response_timeout cl' = cl_response_timeout cl \<and> cl_reconnect_callback cl' = cl_reconnect_callback cl"
  by (cases cl, cases cl') (simp add: queue_step_def)

lemma submitted_inv:
  assumes "submitted M release ctype packet_id cl rv cl'" and "ctype \<in> sendable_types" and "client_inv M cl"
  shows "client_inv M cl'"
  using submitted_sendable [OF assms(1,2)] assms(1,3) queue_step_frame [of cl cl']
  by (auto simp: client_inv_def submitted_def)

lemma stored_submitted:
  assumes "stored M release ctype packet_id pkt cl rv cl'" and "0 \<le> cl_error cl"
  shows "submitted M release ctype packet_id cl rv cl'"
proof (cases "make_room M (cl_view cl) (length pkt)")
  case None
  with assms(1) show ?thesis
    using full_error_neg mqtt_ok_not_neg by (auto simp: stored_def submitted_def simp del: mqtt_err.simps)
next
  case (Some kept)
  then have "cleaned (cl_view cl) kept" by (rule make_room_cleaned)
  with Some assms show ?thesis by (auto simp: stored_def submitted_def simp del: mqtt_err.simps)
qed

text \<open>
  The outcome of \<open>__mqtt_send\<close>. A failed transfer is reported. Without one, the clock is read once
  more, and if three quarters of the keep-alive time have passed since the last transmission a ping is
  queued behind the packets.
\<close>

definition ping_due :: "mqtt_client \<Rightarrow> int \<Rightarrow> int \<Rightarrow> bool" where
  "ping_due cl sent_at now \<longleftrightarrow> now > sent_at + int (unat (cl_keep_alive cl) * 3 div 4)"

definition ping_outcome :: "bool \<Rightarrow> queue_entry list \<Rightarrow> int \<Rightarrow> int \<Rightarrow> mqtt_client \<Rightarrow> bool" where
  "ping_outcome due es err rv cl' \<longleftrightarrow>
     (if rv = mqtt_err MQTT_OK
      then cl_error cl' = err \<and>
        (if due then \<exists>kept ping. cl_view cl' = kept @ [ping] \<and> cleaned es kept \<and>
           request_entry ping MQTT_CONTROL_PINGREQ None
         else cl_view cl' = es)
      else due \<and> rv < 0 \<and> cl_error cl' = rv \<and> cleaned es (cl_view cl'))"

definition sent_outcome :: "'w mqtt_env \<Rightarrow> mqtt_client \<Rightarrow> 'w \<Rightarrow> int \<Rightarrow> mqtt_client \<Rightarrow> 'w \<Rightarrow> bool" where
  "sent_outcome env cl w rv cl' w' \<longleftrightarrow>
     (\<exists>es' sent_at w1 failed.
        queue_pass env (cl_socketfd cl) (cl_response_timeout cl) False (cl_view cl)
          (cl_time_of_last_send cl, w) es' (sent_at, w1) failed \<and>
        (if failed
         then rv = mqtt_err MQTT_ERROR_SOCKET_ERROR \<and> cl_error cl' = rv \<and> cl_view cl' = es' \<and> w' = w1
         else w' = snd (pal_time env w1) \<and>
           ping_outcome (ping_due cl sent_at (fst (pal_time env w1))) es' (cl_error cl) rv cl'))"

lemma keep_alive_check_ok:
  assumes inv: "client_inv M cl"
  shows "\<exists>rv cl'. keep_alive_check env cl w = Some (rv, cl', snd (pal_time env w)) \<and> client_inv M cl' \<and>
    queue_step cl cl' \<and> cl_mutex cl' = cl_mutex cl \<and>
    ping_outcome (ping_due cl (cl_time_of_last_send cl) (fst (pal_time env w))) (cl_view cl) (cl_error cl) rv cl'"
proof -
  obtain now w1 where t: "pal_time env w = (now, w1)" by fastforce
  show ?thesis
  proof (cases "ping_due cl (cl_time_of_last_send cl) now")
    case False
    with t inv show ?thesis by (simp add: keep_alive_check_def Let_def ping_outcome_def ping_due_def)
  next
    case True
    obtain rv cl' where ping: "mqtt_ping_locked cl = Some (rv, cl')"
      and out: "submitted M False MQTT_CONTROL_PINGREQ None cl rv cl'"
      using ping_safe [of M cl] inv unfolding client_inv_def by blast
    have inv': "client_inv M cl'"
      by (rule submitted_inv [OF out _ inv]) (simp add: sendable_types_def)
    show ?thesis
    proof (cases "rv = mqtt_err MQTT_OK")
      case ok: True
      with True t ping out inv' show ?thesis
        by (auto simp: keep_alive_check_def Let_def submitted_def ping_outcome_def ping_due_def)
    next
      case False
      with out have err: "rv < 0" "cl_error cl' = rv" "cleaned (cl_view cl) (cl_view cl')" "queue_step cl cl'"
        "cl_mutex cl' = cl_mutex cl"
        by (simp_all add: submitted_def del: mqtt_err.simps)
      have same: "cl'\<lparr>cl_error := rv\<rparr> = cl'" using err(2) by (cases cl') simp
      have "keep_alive_check env cl w = Some (rv, cl', w1)"
        using True t ping False same by (simp add: keep_alive_check_def Let_def ping_due_def del: mqtt_err.simps)
      with err inv' False True t show ?thesis by (simp add: ping_outcome_def)
    qed
  qed
qed

lemma mqtt_send_error:
  assumes "\<not> cl_mutex cl" and "cl_error cl < 0" and "cl_error cl \<noteq> mqtt_err MQTT_ERROR_SEND_BUFFER_IS_FULL"
  shows "mqtt_send env cl w = Some (cl_error cl, cl, w)"
  using assms by (cases cl) (simp add: mqtt_send_def mutex_lock_def mutex_unlock_def del: mqtt_err.simps)

lemma mqtt_send_ok:
  assumes env: "bio_laws env" "bio_unblocks env blocked"
    and inv: "client_inv M cl" and free: "\<not> cl_mutex cl"
    and err: "0 \<le> cl_error cl \<or> cl_error cl = mqtt_err MQTT_ERROR_SEND_BUFFER_IS_FULL"
  shows "\<exists>rv cl' w'. mqtt_send env cl w = Some (rv, cl', w') \<and> client_inv M cl' \<and> \<not> cl_mutex cl' \<and>
    cl_recv_buffer cl' = cl_recv_buffer cl \<and> cl_reconnect_callback cl' = cl_reconnect_callback cl \<and>
    sent_outcome env cl w rv cl' w'"
proof -
  let ?cl = "cl\<lparr>cl_mutex := True\<rparr>"
  have go: "\<not> (cl_error cl < 0 \<and> cl_error cl \<noteq> mqtt_err MQTT_ERROR_SEND_BUFFER_IS_FULL)" using err by linarith
  have is_set_up: "mq_set_up (cl_mq cl)" using inv by (simp add: client_inv_def mq_ok_def mq_wf_def)
  have "cl_ok M ?cl" "\<forall>e \<in> set (cl_view ?cl). sendable e" "cl_send_offset ?cl = 0"
    using inv by (simp_all add: client_inv_def)
  then obtain r cl1 w1 where loop: "send_loop env [0..<0 + mqtt_mq_length (cl_mq cl)] False ?cl w = Some (r, cl1, w1)"
    and res: "send_loop_result M env 0 False ?cl w r cl1 w1"
    using send_loop_ok [OF env, of M ?cl 0 "mqtt_mq_length (cl_mq cl)" False w] by auto
  have pass: "queue_pass env (cl_socketfd cl) (cl_response_timeout cl) False (cl_view cl)
      (cl_time_of_last_send cl, w) (cl_view cl1) (cl_time_of_last_send cl1, w1) (r \<noteq> None)"
    and r: "case r of None \<Rightarrow> cl_error cl1 = cl_error cl
        | Some rv \<Rightarrow> rv = mqtt_err MQTT_ERROR_SOCKET_ERROR \<and> cl_error cl1 = rv"
    using res by (auto simp: send_loop_result_def split: option.splits)
  have cl1: "cl_ok M cl1" "cl_send_offset cl1 = 0" "cl_mutex cl1" "cl_keep_alive cl1 = cl_keep_alive cl"
    "cl_recv_buffer cl1 = cl_recv_buffer cl" "cl_reconnect_callback cl1 = cl_reconnect_callback cl"
    using res send_frame_fields [of ?cl cl1] by (auto simp: send_loop_result_def)
  have inv1: "client_inv M cl1"
    using cl1 queue_pass_sendable [OF pass] inv by (simp add: client_inv_def)
  show ?thesis
  proof (cases r)
    case (Some rv)
    let ?cl' = "cl1\<lparr>cl_mutex := False\<rparr>"
    have "mqtt_send env cl w = Some (rv, ?cl', w1)"
      using free go is_set_up loop Some cl1(3)
      by (auto simp add: mqtt_send_def mutex_lock_def mutex_unlock_def simp del: mqtt_err.simps)
    moreover have "client_inv M ?cl'" using inv1 by (simp add: client_inv_def)
    moreover have "sent_outcome env cl w rv ?cl' w1"
      using pass r Some unfolding sent_outcome_def by auto
    ultimately show ?thesis using cl1 by simp
  next
    case None
    with r have err1: "cl_error cl1 = cl_error cl" by simp
    obtain rv cl2 where check: "keep_alive_check env cl1 w1 = Some (rv, cl2, snd (pal_time env w1))"
      and inv2: "client_inv M cl2" and mtx: "cl_mutex cl2 = cl_mutex cl1" and fr: "queue_step cl1 cl2"
      and out: "ping_outcome (ping_due cl1 (cl_time_of_last_send cl1) (fst (pal_time env w1))) (cl_view cl1) (cl_error cl) rv cl2"
      using keep_alive_check_ok [OF inv1, of env w1] unfolding err1 by blast
    let ?cl' = "cl2\<lparr>cl_mutex := False\<rparr>"
    have "mqtt_send env cl w = Some (rv, ?cl', snd (pal_time env w1))"
      using free go is_set_up loop None check cl1(3) mtx
      by (auto simp add: mqtt_send_def mutex_lock_def mutex_unlock_def simp del: mqtt_err.simps)
    moreover have "client_inv M ?cl'" using inv2 by (simp add: client_inv_def)
    moreover have "ping_outcome (ping_due cl (cl_time_of_last_send cl1) (fst (pal_time env w1))) (cl_view cl1) (cl_error cl) rv ?cl'"
      using out cl1(4) by (simp add: ping_outcome_def ping_due_def)
    then have "sent_outcome env cl w rv ?cl' (snd (pal_time env w1))"
      using pass None unfolding sent_outcome_def by auto
    ultimately show ?thesis using cl1 queue_step_frame [OF fr] by simp
  qed
qed

text \<open>The pass, packet by packet.\<close>

lemma queue_pass_nth:
  "queue_pass env fd timeout inflight es s es' s' failed \<Longrightarrow> i < length es \<Longrightarrow> \<not> failed \<Longrightarrow>
   \<exists>s1 s2. message_pass env fd timeout (inflight \<or> (\<exists>j < i. qos2_pending (es ! j))) (es ! i) s1 (es' ! i) s2"
proof (induction arbitrary: i rule: queue_pass.induct)
  case (Pass_Next inflight e s e' s1 es es' s' failed)
  show ?case
  proof (cases i)
    case 0
    with Pass_Next.hyps(1) show ?thesis by (intro exI [of _ s] exI [of _ s1]) simp
  next
    case (Suc k)
    have "(inflight \<or> qos2_pending e \<or> (\<exists>j < k. qos2_pending (es ! j))) \<longleftrightarrow>
        (inflight \<or> (\<exists>j < Suc k. qos2_pending ((e # es) ! j)))"
      by (auto simp: less_Suc_eq_0_disj)
    with Pass_Next.IH [of k] Pass_Next.prems Suc show ?thesis by simp
  qed
qed simp_all

text \<open>The specification leaves no choice: the queue, the clock and the BIO determine the outcome.\<close>

lemma bio_sends_step:
  assumes "bs \<noteq> []" and "bio_write env fd bs w = (tmp, w1)"
  shows "bio_sends env fd bs w w' \<longleftrightarrow>
    (if 0 < tmp then nat tmp \<le> length bs \<and> bio_sends env fd (drop (nat tmp) bs) w1 w'
     else bio_should_retry env fd w1 \<and> bio_sends env fd bs w1 w')"
  by (subst bio_sends.simps) (use assms in simp)

lemma bio_fails_step:
  assumes "bs \<noteq> []" and "bio_write env fd bs w = (tmp, w1)"
  shows "bio_fails env fd bs w w' \<longleftrightarrow>
    (if 0 < tmp then nat tmp \<le> length bs \<and> bio_fails env fd (drop (nat tmp) bs) w1 w'
     else if bio_should_retry env fd w1 then bio_fails env fd bs w1 w' else w' = w1)"
  by (subst bio_fails.simps) (use assms in auto)

lemma bio_sends_determined: "bio_sends env fd bs w w1 \<Longrightarrow> bio_sends env fd bs w w2 \<Longrightarrow> w1 = w2"
  by (induction rule: bio_sends.induct) (simp_all add: bio_sends_Nil bio_sends_step)

lemma bio_fails_determined: "bio_fails env fd bs w w1 \<Longrightarrow> bio_fails env fd bs w w2 \<Longrightarrow> w1 = w2"
  by (induction rule: bio_fails.induct) (simp_all add: bio_fails_step)

lemma bio_fails_not_sends: "bio_fails env fd bs w w1 \<Longrightarrow> \<not> bio_sends env fd bs w w2"
  by (induction rule: bio_fails.induct) (simp_all add: bio_sends_step)

lemma message_pass_determined:
  "message_pass env fd timeout inflight e s e1 s1 \<Longrightarrow> message_pass env fd timeout inflight e s e2 s2 \<Longrightarrow> e1 = e2 \<and> s1 = s2"
  unfolding message_pass_def by (auto split: if_splits dest: bio_sends_determined)

lemma queue_pass_determined:
  "queue_pass env fd timeout inflight es s es1 s1 f1 \<Longrightarrow> queue_pass env fd timeout inflight es s es2 s2 f2 \<Longrightarrow>
   es1 = es2 \<and> s1 = s2 \<and> f1 = f2"
proof (induction arbitrary: es2 s2 f2 rule: queue_pass.induct)
  case (Pass_End inflight s)
  then show ?case by (simp add: queue_pass_Nil)
next
  case (Pass_Next inflight e s e' s1 es es' s' failed)
  have no_fail: "\<not> (message_due env timeout inflight e w \<and> bio_fails env fd (en_bytes e) (clock_asked env e w) w' \<and> s = (t, w))"
    for w w' t
    using Pass_Next.hyps(1) by (auto simp: message_pass_def dest: bio_fails_not_sends)
  from Pass_Next.prems show ?case
    by (rule queue_pass_Cons_elim) (use Pass_Next.IH message_pass_determined [OF Pass_Next.hyps(1)] no_fail in blast)+
next
  case (Pass_Fail inflight e w w' es t)
  have no_pass: "\<not> message_pass env fd timeout inflight e (t, w) e' s'" for e' s'
    using Pass_Fail.hyps by (auto simp: message_pass_def dest: bio_fails_not_sends)
  from Pass_Fail.prems show ?case
    by (rule queue_pass_Cons_elim) (use no_pass bio_fails_determined [OF Pass_Fail.hyps(2)] in blast)+
qed

end
