(* ===== verification/Mqtt_Recv.thy ===== *)
theory Mqtt_Recv
  imports Mqtt_Send
begin

text \<open>
  What the client does with the packets of the broker: each handler of \<open>__mqtt_recv\<close> on the queue
  seen as a list of packets, the safety of a pass of its loop, and the invariant of the client over
  \<open>__mqtt_recv\<close> and \<open>mqtt_sync\<close>.
\<close>

subsection \<open>Acknowledgements\<close>

text \<open>The first packet that matches becomes complete.\<close>

fun ack_first :: "(queue_entry \<Rightarrow> bool) \<Rightarrow> queue_entry list \<Rightarrow> queue_entry list option" where
  "ack_first P [] = None"
| "ack_first P (e # es) =
     (if P e then Some (e\<lparr>en_state := MQTT_QUEUED_COMPLETE\<rparr> # es)
      else map_option ((#) e) (ack_first P es))"

lemma ack_first_None: "ack_first P es = None \<longleftrightarrow> (\<forall>e \<in> set es. \<not> P e)"
  by (induction es) auto

lemma ack_first_nth:
  "i < length es \<Longrightarrow> P (es ! i) \<Longrightarrow> \<forall>j < i. \<not> P (es ! j) \<Longrightarrow>
   ack_first P es = Some (es[i := (es ! i)\<lparr>en_state := MQTT_QUEUED_COMPLETE\<rparr>])"
proof (induction es arbitrary: i)
  case (Cons e es)
  show ?case
  proof (cases i)
    case 0
    with Cons.prems show ?thesis by simp
  next
    case (Suc k)
    then have "\<not> P e" "\<forall>j < k. \<not> P (es ! j)" using Cons.prems(3) by auto
    with Suc Cons show ?thesis by simp
  qed
qed simp

lemma ack_first_sendable:
  "ack_first P es = Some es' \<Longrightarrow> \<forall>e \<in> set es. sendable e \<Longrightarrow> \<forall>e \<in> set es'. sendable e"
  by (induction es arbitrary: es') (auto simp: sendable_def split: if_splits)

lemma mqtt_mq_find_ack:
  "mqtt_mq_find mq ctype pid = Some i \<Longrightarrow> ack_first (matches ctype pid) (mq_view mq) =
     Some ((mq_view mq)[i := (mq_view mq ! i)\<lparr>en_state := MQTT_QUEUED_COMPLETE\<rparr>])"
  "mqtt_mq_find mq ctype pid = None \<Longrightarrow> ack_first (matches ctype pid) (mq_view mq) = None"
  by (auto simp: mqtt_mq_find_Some mqtt_mq_find_None ack_first_None intro!: ack_first_nth)

text \<open>What a handler leaves alone.\<close>

definition recv_frame :: "mqtt_client \<Rightarrow> mqtt_client \<Rightarrow> bool" where
  "recv_frame cl cl' \<longleftrightarrow>
     cl' = cl\<lparr>cl_mq := cl_mq cl', cl_error := cl_error cl', cl_typical_response_time := cl_typical_response_time cl'\<rparr>"

lemma recv_frame_refl [simp]: "recv_frame cl cl"
  by (simp add: recv_frame_def)

lemma recv_frame_trans: "recv_frame a b \<Longrightarrow> recv_frame b c \<Longrightarrow> recv_frame a c"
  by (cases a, cases b, cases c) (simp add: recv_frame_def)

lemma recv_frame_error [simp]: "recv_frame cl (cl\<lparr>cl_error := err\<rparr>)"
  by (simp add: recv_frame_def)

lemma recv_frame_fields:
  "recv_frame cl cl' \<Longrightarrow> cl_mutex cl' = cl_mutex cl \<and> cl_recv_buffer cl' = cl_recv_buffer cl \<and>
     cl_send_offset cl' = cl_send_offset cl \<and> cl_reconnect_callback cl' = cl_reconnect_callback cl \<and>
     cl_publish_response_callback cl' = cl_publish_response_callback cl"
  by (cases cl, cases cl') (simp add: recv_frame_def)

lemma queue_step_recv_frame: "queue_step cl cl' \<Longrightarrow> cl_mutex cl' = cl_mutex cl \<Longrightarrow> recv_frame cl cl'"
  by (cases cl, cases cl') (simp add: recv_frame_def queue_step_def)

lemma client_inv_set_up: "client_inv M cl \<Longrightarrow> mq_set_up (cl_mq cl)"
  by (simp add: client_inv_def mq_ok_def mq_wf_def)

lemma client_inv_error [simp]: "client_inv M (cl\<lparr>cl_error := err\<rparr>) = client_inv M cl"
  by (simp add: client_inv_def)

lemma client_find_view:
  "client_inv M cl \<Longrightarrow> client_find cl ctype pid = Some (mqtt_mq_find (cl_mq cl) ctype pid)"
  by (simp add: client_find_def client_inv_set_up)

lemma release_acked_ok:
  assumes inv: "client_inv M cl"
  shows "\<exists>cl' w'. release_acked env ctype pid cl w =
      Some (ack_first (matches ctype pid) (cl_view cl) \<noteq> None, cl', w') \<and>
    client_inv M cl' \<and> recv_frame cl cl' \<and>
    (case ack_first (matches ctype pid) (cl_view cl) of
       None \<Rightarrow> cl_view cl' = cl_view cl \<and> cl_error cl' = mqtt_err MQTT_ERROR_ACK_OF_UNKNOWN
     | Some es \<Rightarrow> cl_view cl' = es \<and> cl_error cl' = cl_error cl)"
proof (cases "mqtt_mq_find (cl_mq cl) ctype pid")
  case None
  with mqtt_mq_find_ack(2) [OF None] inv show ?thesis
    by (simp add: release_acked_def client_find_view [OF inv])
next
  case (Some i)
  let ?mq = "mq_update i (\<lambda>m. m\<lparr>qm_state := MQTT_QUEUED_COMPLETE\<rparr>) (cl_mq cl)"
  let ?es = "(cl_view cl)[i := (cl_view cl ! i)\<lparr>en_state := MQTT_QUEUED_COMPLETE\<rparr>]"
  obtain now w' where t: "pal_time env w = (now, w')" by fastforce
  have ack: "ack_first (matches ctype pid) (cl_view cl) = Some ?es" by (rule mqtt_mq_find_ack(1) [OF Some])
  have i: "i < mqtt_mq_length (cl_mq cl)" using Some by (simp add: mqtt_mq_find_Some)
  have view: "mq_view ?mq = ?es" by (simp add: mq_update_view mq_view_nth [OF i])
  have ok: "mq_ok M ?mq" using inv by (simp add: client_inv_def mq_update_ok)
  have "\<forall>e \<in> set ?es. sendable e"
    using ack_first_sendable [OF ack] inv by (simp add: client_inv_def)
  with ok view inv have "client_inv M (cl\<lparr>cl_mq := ?mq, cl_typical_response_time := t\<rparr>)" for t
    by (simp add: client_inv_def)
  moreover have "recv_frame cl (cl\<lparr>cl_mq := ?mq, cl_typical_response_time := t\<rparr>)" for t
    by (simp add: recv_frame_def)
  ultimately show ?thesis using Some t view ack
    by (simp add: release_acked_def client_find_view [OF inv] Let_def)
qed

subsection \<open>The handlers\<close>

text \<open>The branches that only release a message: PUBACK, PUBCOMP, UNSUBACK and PINGRESP.\<close>

lemma recv_ack_ok:
  assumes inv: "client_inv M cl"
  shows "\<exists>rv cl' w'. recv_ack env ctype pid cl w = Some (rv, cl', w') \<and> client_inv M cl' \<and> recv_frame cl cl' \<and>
    (case ack_first (matches ctype pid) (cl_view cl) of
       None \<Rightarrow> rv = mqtt_err MQTT_ERROR_ACK_OF_UNKNOWN \<and> cl_error cl' = rv \<and> cl_view cl' = cl_view cl
     | Some es \<Rightarrow> rv = mqtt_err MQTT_OK \<and> cl_error cl' = cl_error cl \<and> cl_view cl' = es)"
  using release_acked_ok [OF inv, of env ctype pid w]
  by (cases "ack_first (matches ctype pid) (cl_view cl)") (auto simp: recv_ack_def simp del: mqtt_err.simps)

text \<open>CONNACK: a refused connection is an error, after the CONNECT has been released.\<close>

definition connack_error :: "MQTTConnackReturnCode \<Rightarrow> MQTTErrors" where
  "connack_error code =
     (if code = MQTT_CONNACK_ACCEPTED then MQTT_OK
      else if code = MQTT_CONNACK_REFUSED_IDENTIFIER_REJECTED then MQTT_ERROR_CONNECT_CLIENT_ID_REFUSED
      else MQTT_ERROR_CONNECTION_REFUSED)"

lemma recv_connack_ok:
  assumes inv: "client_inv M cl"
  shows "\<exists>rv cl' w'. recv_connack env code cl w = Some (rv, cl', w') \<and> client_inv M cl' \<and> recv_frame cl cl' \<and>
    (case ack_first (matches MQTT_CONTROL_CONNECT None) (cl_view cl) of
       None \<Rightarrow> rv = mqtt_err MQTT_ERROR_ACK_OF_UNKNOWN \<and> cl_error cl' = rv \<and> cl_view cl' = cl_view cl
     | Some es \<Rightarrow> rv = mqtt_err (connack_error code) \<and> cl_view cl' = es \<and>
         cl_error cl' = (if code = MQTT_CONNACK_ACCEPTED then cl_error cl else rv))"
proof -
  obtain cl1 w1 where rel: "release_acked env MQTT_CONTROL_CONNECT None cl w =
      Some (ack_first (matches MQTT_CONTROL_CONNECT None) (cl_view cl) \<noteq> None, cl1, w1)"
    and cl1: "client_inv M cl1" "recv_frame cl cl1"
    and out: "case ack_first (matches MQTT_CONTROL_CONNECT None) (cl_view cl) of
       None \<Rightarrow> cl_view cl1 = cl_view cl \<and> cl_error cl1 = mqtt_err MQTT_ERROR_ACK_OF_UNKNOWN
     | Some es \<Rightarrow> cl_view cl1 = es \<and> cl_error cl1 = cl_error cl"
    using release_acked_ok [OF inv, of env MQTT_CONTROL_CONNECT None w] by blast
  have frame: "recv_frame cl (cl1\<lparr>cl_error := err\<rparr>)" for err
    using recv_frame_trans [OF cl1(2)] by simp
  show ?thesis
    using rel cl1 out frame by (cases "ack_first (matches MQTT_CONTROL_CONNECT None) (cl_view cl)")
      (simp_all add: recv_connack_def connack_error_def del: mqtt_err.simps)
qed

text \<open>
  The replies the handlers stage. Together with the outcome of the staging they give the outcome of
  the handler: the packet \<open>pkt\<close> is queued if there is room, and the client is in the error state if
  there is not.
\<close>

definition reply_outcome ::
  "nat \<Rightarrow> queue_entry list \<Rightarrow> int \<Rightarrow> MQTTControlPacketType \<Rightarrow> u16 \<Rightarrow> int \<Rightarrow> mqtt_client \<Rightarrow> bool" where
  "reply_outcome M es err ctype pid rv cl' \<longleftrightarrow>
     (if err < 0 then rv = err \<and> cl_view cl' = es \<and> cl_error cl' = err
      else case make_room M es (length (pubxxx_packet ctype pid)) of
        Some kept \<Rightarrow> rv = mqtt_err MQTT_OK \<and> cl_error cl' = err \<and>
          (\<exists>e. cl_view cl' = kept @ [e] \<and> en_bytes e = pubxxx_packet ctype pid \<and> request_entry e ctype (Some pid))
      | None \<Rightarrow> rv = mqtt_err MQTT_ERROR_SEND_BUFFER_IS_FULL \<and> cl_error cl' = rv \<and>
          cl_view cl' = dropWhile complete es)"

definition ack_types :: "MQTTControlPacketType set" where
  "ack_types = {MQTT_CONTROL_PUBACK, MQTT_CONTROL_PUBREC, MQTT_CONTROL_PUBREL, MQTT_CONTROL_PUBCOMP}"

lemma reply_ok:
  assumes inv: "client_inv M cl" and ty: "ctype \<in> ack_types"
  shows "\<exists>rv cl'. submit False (\<lambda>buf. mqtt_pack_pubxxx_request buf ctype pid) ctype (Some pid) cl = Some (rv, cl') \<and>
    client_inv M cl' \<and> recv_frame cl cl' \<and> reply_outcome M (cl_view cl) (cl_error cl) ctype pid rv cl' \<and>
    (rv \<noteq> mqtt_err MQTT_OK \<longrightarrow> cl_error cl' = rv)"
proof (cases "cl_error cl < 0")
  case True
  with inv show ?thesis by (simp add: submit_error reply_outcome_def)
next
  case False
  then obtain rv cl' where st: "submit False (\<lambda>buf. mqtt_pack_pubxxx_request buf ctype pid) ctype (Some pid) cl = Some (rv, cl')"
    "stored M False ctype (Some pid) (pubxxx_packet ctype pid) cl rv cl'"
    using ack_stored [of M cl ctype pid] inv ty by (auto simp: client_inv_def ack_types_def)
  have sub: "submitted M False ctype (Some pid) cl rv cl'"
    by (rule stored_submitted [OF st(2)]) (use False in simp)
  have "client_inv M cl'"
    by (rule submitted_inv [OF sub _ inv]) (use ty in \<open>auto simp: ack_types_def sendable_types_def\<close>)
  moreover have "recv_frame cl cl'" using sub by (intro queue_step_recv_frame) (simp_all add: submitted_def)
  moreover have "reply_outcome M (cl_view cl) (cl_error cl) ctype pid rv cl'"
    using st(2) False by (auto simp: stored_def reply_outcome_def split: option.splits simp del: mqtt_err.simps)
  moreover have "rv \<noteq> mqtt_err MQTT_OK \<longrightarrow> cl_error cl' = rv"
    using sub by (simp add: submitted_def del: mqtt_err.simps)
  ultimately show ?thesis using st(1) by blast
qed

lemma staged_id: "(rv \<noteq> mqtt_err MQTT_OK \<Longrightarrow> cl_error cl = rv) \<Longrightarrow> staged (rv, cl) w = (rv, cl, w)"
  by (cases cl) (simp add: staged_def del: mqtt_err.simps)

text \<open>PUBREC and PUBREL: release one message, stage the next of the QoS 2 exchange.\<close>

definition exchange_outcome ::
  "nat \<Rightarrow> (queue_entry \<Rightarrow> bool) \<Rightarrow> MQTTControlPacketType \<Rightarrow> u16 \<Rightarrow> mqtt_client \<Rightarrow> int \<Rightarrow> mqtt_client \<Rightarrow> bool" where
  "exchange_outcome M P ctype pid cl rv cl' \<longleftrightarrow>
     (case ack_first P (cl_view cl) of
        None \<Rightarrow> rv = mqtt_err MQTT_ERROR_ACK_OF_UNKNOWN \<and> cl_error cl' = rv \<and> cl_view cl' = cl_view cl
      | Some es \<Rightarrow> reply_outcome M es (cl_error cl) ctype pid rv cl')"

lemma exchange_ok:
  assumes inv: "client_inv M cl" and ty: "ctype \<in> ack_types"
    and act: "\<And>cl w. act cl w = do {
      (found, cl, w) \<leftarrow> release_acked env old (Some pid) cl w;
      if \<not> found then Some (mqtt_err MQTT_ERROR_ACK_OF_UNKNOWN, cl, w)
      else do { r \<leftarrow> submit False (\<lambda>buf. mqtt_pack_pubxxx_request buf ctype pid) ctype (Some pid) cl; Some (staged r w) } }"
  shows "\<exists>rv cl' w'. act cl w = Some (rv, cl', w') \<and> client_inv M cl' \<and> recv_frame cl cl' \<and>
    exchange_outcome M (matches old (Some pid)) ctype pid cl rv cl'"
proof -
  obtain cl1 w1 where rel: "release_acked env old (Some pid) cl w =
      Some (ack_first (matches old (Some pid)) (cl_view cl) \<noteq> None, cl1, w1)"
    and cl1: "client_inv M cl1" "recv_frame cl cl1"
    and out: "case ack_first (matches old (Some pid)) (cl_view cl) of
       None \<Rightarrow> cl_view cl1 = cl_view cl \<and> cl_error cl1 = mqtt_err MQTT_ERROR_ACK_OF_UNKNOWN
     | Some es \<Rightarrow> cl_view cl1 = es \<and> cl_error cl1 = cl_error cl"
    using release_acked_ok [OF inv, of env old "Some pid" w] by blast
  show ?thesis
  proof (cases "ack_first (matches old (Some pid)) (cl_view cl)")
    case None
    with rel cl1 out show ?thesis by (simp add: act exchange_outcome_def del: mqtt_err.simps)
  next
    case (Some es)
    obtain rv cl2 where sub: "submit False (\<lambda>buf. mqtt_pack_pubxxx_request buf ctype pid) ctype (Some pid) cl1 = Some (rv, cl2)"
      and cl2: "client_inv M cl2" "recv_frame cl1 cl2" "reply_outcome M (cl_view cl1) (cl_error cl1) ctype pid rv cl2"
      and err: "rv \<noteq> mqtt_err MQTT_OK \<longrightarrow> cl_error cl2 = rv"
      using reply_ok [OF cl1(1) ty] by blast
    have "staged (rv, cl2) w1 = (rv, cl2, w1)" by (rule staged_id) (use err in blast)
    with rel sub Some have "act cl w = Some (rv, cl2, w1)" by (simp add: act)
    with cl2 out Some recv_frame_trans [OF cl1(2) cl2(2)] show ?thesis
      by (simp add: exchange_outcome_def del: mqtt_err.simps)
  qed
qed

lemma recv_pubrel_ok:
  assumes "client_inv M cl"
  shows "\<exists>rv cl' w'. recv_pubrel env pid cl w = Some (rv, cl', w') \<and> client_inv M cl' \<and> recv_frame cl cl' \<and>
    exchange_outcome M (matches MQTT_CONTROL_PUBREC (Some pid)) MQTT_CONTROL_PUBCOMP pid cl rv cl'"
  unfolding recv_pubrel_def mqtt_pubcomp_def
  by (rule exchange_ok [where env = env, OF assms]) (simp_all add: ack_types_def)

lemma recv_pubrec_ok:
  assumes inv: "client_inv M cl"
  shows "\<exists>rv cl' w'. recv_pubrec env pid cl w = Some (rv, cl', w') \<and> client_inv M cl' \<and> recv_frame cl cl' \<and>
    (if \<exists>e \<in> set (cl_view cl). matches MQTT_CONTROL_PUBREL (Some pid) e
     then rv = mqtt_err MQTT_OK \<and> cl' = cl
     else exchange_outcome M (matches MQTT_CONTROL_PUBLISH (Some pid)) MQTT_CONTROL_PUBREL pid cl rv cl')"
proof (cases "mqtt_mq_find (cl_mq cl) MQTT_CONTROL_PUBREL (Some pid)")
  case (Some i)
  then have "\<exists>e \<in> set (cl_view cl). matches MQTT_CONTROL_PUBREL (Some pid) e"
    by (auto simp: mqtt_mq_find_Some intro: nth_mem)
  with Some inv show ?thesis by (simp add: recv_pubrec_def client_find_view [OF inv])
next
  case None
  then have "\<not> (\<exists>e \<in> set (cl_view cl). matches MQTT_CONTROL_PUBREL (Some pid) e)"
    by (simp add: mqtt_mq_find_None)
  moreover have "\<exists>rv cl' w'. (\<lambda>cl w. do {
      (found, cl, w) \<leftarrow> release_acked env MQTT_CONTROL_PUBLISH (Some pid) cl w;
      if \<not> found then Some (mqtt_err MQTT_ERROR_ACK_OF_UNKNOWN, cl, w)
      else do { r \<leftarrow> mqtt_pubrel cl pid; Some (staged r w) } }) cl w = Some (rv, cl', w') \<and>
      client_inv M cl' \<and> recv_frame cl cl' \<and>
      exchange_outcome M (matches MQTT_CONTROL_PUBLISH (Some pid)) MQTT_CONTROL_PUBREL pid cl rv cl'"
    unfolding mqtt_pubrel_def
    by (rule exchange_ok [where env = env, OF inv]) (simp_all add: ack_types_def)
  ultimately show ?thesis using None by (simp add: recv_pubrec_def client_find_view [OF inv] del: mqtt_err.simps)
qed

text \<open>
  PUBLISH: the message is delivered to the application exactly when its acknowledgement, if it asks
  for one, has been staged; a QoS 2 message whose PUBREC is still in the queue is a duplicate and
  is dropped.
\<close>

definition publish_reply :: "mqtt_response_publish \<Rightarrow> MQTTControlPacketType option" where
  "publish_reply p =
     (if qos_level p = 1 then Some MQTT_CONTROL_PUBACK
      else if qos_level p = 2 then Some MQTT_CONTROL_PUBREC else None)"

definition publish_duplicate :: "queue_entry list \<Rightarrow> mqtt_response_publish \<Rightarrow> bool" where
  "publish_duplicate es p \<longleftrightarrow> qos_level p = 2 \<and> (\<exists>e \<in> set es. matches MQTT_CONTROL_PUBREC (publish_packet_id p) e)"

definition publish_received ::
  "nat \<Rightarrow> 'w mqtt_env \<Rightarrow> u8 list \<Rightarrow> mqtt_response_publish \<Rightarrow> mqtt_client \<Rightarrow> 'w \<Rightarrow> int \<Rightarrow> mqtt_client \<Rightarrow> 'w \<Rightarrow> bool"
where
  "publish_received M env mem p cl w rv cl' w' \<longleftrightarrow>
     (if publish_duplicate (cl_view cl) p then rv = mqtt_err MQTT_OK \<and> cl' = cl \<and> w' = w
      else w' = (if rv = mqtt_err MQTT_OK
          then publish_callback env (cl_publish_response_callback cl) mem p w else w) \<and>
        (case publish_reply p of
           None \<Rightarrow> rv = mqtt_err MQTT_OK \<and> cl' = cl
         | Some ctype \<Rightarrow> reply_outcome M (cl_view cl) (cl_error cl) ctype (the (publish_packet_id p)) rv cl'))"

lemma recv_publish_ok:
  assumes inv: "client_inv M cl" and pid: "qos_level p \<noteq> 0 \<Longrightarrow> \<exists>i. publish_packet_id p = Some i"
  shows "\<exists>rv cl' w'. recv_publish env mem p cl w = Some (rv, cl', w') \<and> client_inv M cl' \<and> recv_frame cl cl' \<and>
    publish_received M env mem p cl w rv cl' w'"
proof (cases "qos_level p = 1 \<or> qos_level p = 2")
  case False
  with inv show ?thesis
    by (simp add: recv_publish_def staged_def publish_received_def publish_duplicate_def publish_reply_def Let_def)
next
  case True
  then obtain i where i: "publish_packet_id p = Some i" using pid by force
  let ?ty = "if qos_level p = 1 then MQTT_CONTROL_PUBACK else MQTT_CONTROL_PUBREC"
  have ty: "?ty \<in> ack_types" by (simp add: ack_types_def)
  have reply: "publish_reply p = Some ?ty" using True by (auto simp add: publish_reply_def)
  obtain rv cl' where sub: "submit False (\<lambda>buf. mqtt_pack_pubxxx_request buf ?ty i) ?ty (Some i) cl = Some (rv, cl')"
    and cl': "client_inv M cl'" "recv_frame cl cl'" "reply_outcome M (cl_view cl) (cl_error cl) ?ty i rv cl'"
    and err: "rv \<noteq> mqtt_err MQTT_OK \<longrightarrow> cl_error cl' = rv"
    using reply_ok [OF inv ty, of i] by blast
  have st: "staged (rv, cl') w = (rv, cl', w)" by (rule staged_id) (use err in blast)
  have cb: "cl_publish_response_callback cl' = cl_publish_response_callback cl"
    using recv_frame_fields [OF cl'(2)] by simp
  let ?w' = "if rv = mqtt_err MQTT_OK then publish_callback env (cl_publish_response_callback cl) mem p w else w"
  show ?thesis
  proof (cases "publish_duplicate (cl_view cl) p")
    case dup: True
    then obtain k where "mqtt_mq_find (cl_mq cl) MQTT_CONTROL_PUBREC (Some i) = Some k"
      unfolding publish_duplicate_def i
      by (cases "mqtt_mq_find (cl_mq cl) MQTT_CONTROL_PUBREC (Some i)") (auto simp: mqtt_mq_find_None)
    with dup i inv show ?thesis
      by (simp add: recv_publish_def client_find_view [OF inv] publish_received_def publish_duplicate_def)
  next
    case False
    have "recv_publish env mem p cl w = Some (rv, cl', ?w')"
    proof (cases "qos_level p = 1")
      case one: True
      with sub st cb i show ?thesis by (simp add: recv_publish_def mqtt_puback_def del: mqtt_err.simps)
    next
      case two: False
      with True have "qos_level p = 2" by simp
      with False have "mqtt_mq_find (cl_mq cl) MQTT_CONTROL_PUBREC (Some i) = None"
        by (simp add: publish_duplicate_def i mqtt_mq_find_None)
      with two sub st cb i \<open>qos_level p = 2\<close> show ?thesis
        by (simp add: recv_publish_def mqtt_pubrec_def client_find_view [OF inv] del: mqtt_err.simps)
    qed
    with False reply cl' i show ?thesis
      by (auto simp: publish_received_def simp del: mqtt_err.simps)
  qed
qed

lemma recv_suback_ok:
  assumes inv: "client_inv M cl" and code: "return_codes s < length mem"
  shows "\<exists>rv cl' w'. recv_suback env mem s cl w = Some (rv, cl', w') \<and> client_inv M cl' \<and> recv_frame cl cl' \<and>
    (case ack_first (matches MQTT_CONTROL_SUBSCRIBE (Some (suback_packet_id s))) (cl_view cl) of
       None \<Rightarrow> rv = mqtt_err MQTT_ERROR_ACK_OF_UNKNOWN \<and> cl_error cl' = rv \<and> cl_view cl' = cl_view cl
     | Some es \<Rightarrow> cl_view cl' = es \<and>
         (if mem ! return_codes s = MQTT_SUBACK_FAILURE
          then rv = mqtt_err MQTT_ERROR_SUBSCRIBE_FAILED \<and> cl_error cl' = rv
          else rv = mqtt_err MQTT_OK \<and> cl_error cl' = cl_error cl))"
proof -
  let ?P = "matches MQTT_CONTROL_SUBSCRIBE (Some (suback_packet_id s))"
  obtain cl1 w1 where rel: "release_acked env MQTT_CONTROL_SUBSCRIBE (Some (suback_packet_id s)) cl w =
      Some (ack_first ?P (cl_view cl) \<noteq> None, cl1, w1)"
    and cl1: "client_inv M cl1" "recv_frame cl cl1"
    and out: "case ack_first ?P (cl_view cl) of
       None \<Rightarrow> cl_view cl1 = cl_view cl \<and> cl_error cl1 = mqtt_err MQTT_ERROR_ACK_OF_UNKNOWN
     | Some es \<Rightarrow> cl_view cl1 = es \<and> cl_error cl1 = cl_error cl"
    using release_acked_ok [OF inv, of env MQTT_CONTROL_SUBSCRIBE "Some (suback_packet_id s)" w] by blast
  have frame: "recv_frame cl (cl1\<lparr>cl_error := err\<rparr>)" for err
    using recv_frame_trans [OF cl1(2)] by simp
  show ?thesis
    using rel cl1 out frame code by (cases "ack_first ?P (cl_view cl)")
      (simp_all add: recv_suback_def del: mqtt_err.simps)
qed

subsection \<open>Any response\<close>

text \<open>The unpacker stores the member that belongs to the control type.\<close>

definition decoded_ok :: "nat \<Rightarrow> mqtt_response \<Rightarrow> bool" where
  "decoded_ok n r \<longleftrightarrow>
     (case control_type (fixed_header r) of
        MQTT_CONTROL_CONNACK \<Rightarrow> \<exists>c. decoded r = Connack c
      | MQTT_CONTROL_PUBLISH \<Rightarrow>
          \<exists>p. decoded r = Publish p \<and> (qos_level p \<noteq> 0 \<longrightarrow> (\<exists>i. publish_packet_id p = Some i))
      | MQTT_CONTROL_PUBACK \<Rightarrow> \<exists>i. decoded r = Puback i
      | MQTT_CONTROL_PUBREC \<Rightarrow> \<exists>i. decoded r = Pubrec i
      | MQTT_CONTROL_PUBREL \<Rightarrow> \<exists>i. decoded r = Pubrel i
      | MQTT_CONTROL_PUBCOMP \<Rightarrow> \<exists>i. decoded r = Pubcomp i
      | MQTT_CONTROL_SUBACK \<Rightarrow> \<exists>s. decoded r = Suback s \<and> return_codes s < n
      | MQTT_CONTROL_UNSUBACK \<Rightarrow> \<exists>i. decoded r = Unsuback i
      | _ \<Rightarrow> True)"

lemma unpack_publish_decoded:
  assumes "mqtt_unpack_publish_response r m buf = Some (rv, r')" and "0 \<le> rv"
  shows "fixed_header r' = fixed_header r \<and>
    (\<exists>p. decoded r' = Publish p \<and> (qos_level p \<noteq> 0 \<longrightarrow> (\<exists>i. publish_packet_id p = Some i)))"
  using assms by (auto simp: mqtt_unpack_publish_response_def Let_def word_gt_0
      split: if_splits option.splits bind_splits)

lemma unpack_by_type_decoded:
  assumes "unpack_by_type r m buf = Some (rv, r')" and "0 \<le> rv"
    and "buf + unat (remaining_length (fixed_header r)) \<le> length m"
  shows "fixed_header r' = fixed_header r \<and> decoded_ok (length m) r'"
proof (cases "control_type (fixed_header r)")
  case MQTT_CONTROL_CONNACK
  with assms show ?thesis
    by (auto simp: unpack_by_type_def mqtt_unpack_connack_response_def decoded_ok_def split: if_splits bind_splits)
next
  case MQTT_CONTROL_PUBLISH
  with assms(1,2) unpack_publish_decoded [of r m buf rv r'] show ?thesis
    by (simp add: unpack_by_type_def decoded_ok_def)
next
  case MQTT_CONTROL_SUBACK
  with assms show ?thesis
    by (auto simp: unpack_by_type_def mqtt_unpack_suback_response_def decoded_ok_def Let_def word_less_nat_alt
        split: if_splits bind_splits)
qed (use assms in \<open>auto simp: unpack_by_type_def mqtt_unpack_pubxxx_response_def mqtt_unpack_unsuback_response_def
      decoded_ok_def Let_def split: if_splits bind_splits\<close>)

lemma unpack_response_decoded:
  assumes u: "mqtt_unpack_response r (Some m) n = Some (rv, r')" and "0 < rv" and n: "n \<le> length m"
  shows "decoded_ok (length m) r'"
proof -
  obtain k h where hd: "mqtt_unpack_fixed_header (Some (fixed_header r)) (Some m) n = Some (k, Some h)"
    and pos: "0 < k \<longrightarrow> header_valid h \<and> 2 \<le> k \<and> k \<le> 5 \<and> nat k + unat (remaining_length h) \<le> n"
    using mqtt_unpack_fixed_header_safe [OF n, of "fixed_header r"] by auto
  have k: "0 < k" using u hd assms(2) by (auto simp: mqtt_unpack_response_def Let_def split: if_splits)
  then obtain rv' where body: "unpack_by_type (r\<lparr>fixed_header := h\<rparr>) m (nat k) = Some (rv', r')" "0 \<le> rv'"
    using u hd assms(2) by (auto simp: mqtt_unpack_response_def Let_def split: if_splits bind_splits)
  show ?thesis
    using unpack_by_type_decoded [OF body] pos k n by simp
qed

lemma handle_response_ok:
  assumes inv: "client_inv M cl" and dec: "decoded_ok (length mem) r"
  shows "\<exists>rv cl' w'. handle_response env r mem cl w = Some (rv, cl', w') \<and> client_inv M cl' \<and> recv_frame cl cl'"
proof (cases "control_type (fixed_header r)")
  case MQTT_CONTROL_CONNACK
  with dec obtain c where d: "decoded r = Connack c" by (auto simp: decoded_ok_def)
  have "\<exists>rv cl' w'. recv_connack env (return_code c) cl w = Some (rv, cl', w') \<and> client_inv M cl' \<and> recv_frame cl cl'"
    using recv_connack_ok [OF inv, of env "return_code c" w] by blast
  with MQTT_CONTROL_CONNACK d show ?thesis by (simp add: handle_response_def)
next
  case MQTT_CONTROL_PUBLISH
  with dec obtain p where d: "decoded r = Publish p" "qos_level p \<noteq> 0 \<longrightarrow> (\<exists>i. publish_packet_id p = Some i)" by (auto simp: decoded_ok_def)
  have "\<exists>rv cl' w'. recv_publish env mem p cl w = Some (rv, cl', w') \<and> client_inv M cl' \<and> recv_frame cl cl'"
    using recv_publish_ok [OF inv, of p env mem w] d(2) by blast
  with MQTT_CONTROL_PUBLISH d show ?thesis by (simp add: handle_response_def)
next
  case MQTT_CONTROL_SUBACK
  with dec obtain s where d: "decoded r = Suback s" "return_codes s < length mem" by (auto simp: decoded_ok_def)
  have "\<exists>rv cl' w'. recv_suback env mem s cl w = Some (rv, cl', w') \<and> client_inv M cl' \<and> recv_frame cl cl'"
    using recv_suback_ok [OF inv d(2), of env w] by blast
  with MQTT_CONTROL_SUBACK d show ?thesis by (simp add: handle_response_def)
next
  case MQTT_CONTROL_PUBREC
  with dec obtain i where d: "decoded r = Pubrec i" by (auto simp: decoded_ok_def)
  have "\<exists>rv cl' w'. recv_pubrec env i cl w = Some (rv, cl', w') \<and> client_inv M cl' \<and> recv_frame cl cl'"
    using recv_pubrec_ok [OF inv, of env i w] by blast
  with MQTT_CONTROL_PUBREC d show ?thesis by (simp add: handle_response_def)
next
  case MQTT_CONTROL_PUBREL
  with dec obtain i where d: "decoded r = Pubrel i" by (auto simp: decoded_ok_def)
  have "\<exists>rv cl' w'. recv_pubrel env i cl w = Some (rv, cl', w') \<and> client_inv M cl' \<and> recv_frame cl cl'"
    using recv_pubrel_ok [OF inv, of env i w] by blast
  with MQTT_CONTROL_PUBREL d show ?thesis by (simp add: handle_response_def)
next
  case MQTT_CONTROL_PUBACK
  with dec obtain i where d: "decoded r = Puback i" by (auto simp: decoded_ok_def)
  have "\<exists>rv cl' w'. recv_ack env MQTT_CONTROL_PUBLISH (Some i) cl w = Some (rv, cl', w') \<and> client_inv M cl' \<and> recv_frame cl cl'"
    using recv_ack_ok [OF inv, of env MQTT_CONTROL_PUBLISH "Some i" w] by blast
  with MQTT_CONTROL_PUBACK d show ?thesis by (simp add: handle_response_def)
next
  case MQTT_CONTROL_PUBCOMP
  with dec obtain i where d: "decoded r = Pubcomp i" by (auto simp: decoded_ok_def)
  have "\<exists>rv cl' w'. recv_ack env MQTT_CONTROL_PUBREL (Some i) cl w = Some (rv, cl', w') \<and> client_inv M cl' \<and> recv_frame cl cl'"
    using recv_ack_ok [OF inv, of env MQTT_CONTROL_PUBREL "Some i" w] by blast
  with MQTT_CONTROL_PUBCOMP d show ?thesis by (simp add: handle_response_def)
next
  case MQTT_CONTROL_UNSUBACK
  with dec obtain i where d: "decoded r = Unsuback i" by (auto simp: decoded_ok_def)
  have "\<exists>rv cl' w'. recv_ack env MQTT_CONTROL_UNSUBSCRIBE (Some i) cl w = Some (rv, cl', w') \<and> client_inv M cl' \<and> recv_frame cl cl'"
    using recv_ack_ok [OF inv, of env MQTT_CONTROL_UNSUBSCRIBE "Some i" w] by blast
  with MQTT_CONTROL_UNSUBACK d show ?thesis by (simp add: handle_response_def)
next
  case MQTT_CONTROL_PINGRESP
  have "\<exists>rv cl' w'. recv_ack env MQTT_CONTROL_PINGREQ None cl w = Some (rv, cl', w') \<and> client_inv M cl' \<and> recv_frame cl cl'"
    using recv_ack_ok [OF inv, of env MQTT_CONTROL_PINGREQ None w] by blast
  with MQTT_CONTROL_PINGRESP show ?thesis by (simp add: handle_response_def)
qed (use inv in \<open>simp_all add: handle_response_def del: mqtt_err.simps\<close>)

subsection \<open>A pass of the receive loop\<close>

definition recv_inv :: "nat \<Rightarrow> mqtt_client \<Rightarrow> bool" where
  "recv_inv M cl \<longleftrightarrow> client_inv M cl \<and> recv_ok (cl_recv_buffer cl)"

definition rb_advance :: "nat \<Rightarrow> recv_buffer \<Rightarrow> recv_buffer" where
  "rb_advance n rb = rb\<lparr>rb_curr := rb_curr rb + n, rb_curr_sz := rb_curr_sz rb - n\<rparr>"

lemma rb_store_ok:
  assumes "rb_mem rb = Some m" and "rb_curr rb + rb_curr_sz rb = length m" and "length bs \<le> rb_curr_sz rb"
  shows "rb_store bs rb = Some (rb\<lparr>rb_mem := Some (overwrite m (rb_curr rb) bs)\<rparr>)"
    and "recv_ok (rb\<lparr>rb_mem := Some (overwrite m (rb_curr rb) bs)\<rparr>)"
    and "recv_ok (rb_advance (length bs) (rb\<lparr>rb_mem := Some (overwrite m (rb_curr rb) bs)\<rparr>))"
  using assms by (simp_all add: rb_store_def recv_ok_def rb_advance_def)

lemma rb_consume_ok:
  assumes "recv_ok rb" and "n \<le> rb_curr rb"
  shows "\<exists>rb'. rb_consume n rb = Some rb' \<and> recv_ok rb'"
  using assms by (auto simp: recv_ok_def rb_consume_def mem_block_def)

lemma rb_consume_recv_ok:
  "rb_consume n rb = Some rb' \<Longrightarrow> recv_ok rb \<Longrightarrow> n \<le> rb_curr rb \<and> recv_ok rb'"
  by (auto simp: recv_ok_def rb_consume_def mem_block_def split: if_splits bind_splits)

text \<open>What a pass does once \<open>mqtt_pal_recvall\<close> has returned \<open>n\<close> bytes \<open>bs\<close>.\<close>

definition recv_rest ::
  "'w mqtt_env \<Rightarrow> mqtt_response \<Rightarrow> mqtt_client \<Rightarrow> 'w \<Rightarrow> (int option \<times> mqtt_response \<times> mqtt_client \<times> 'w) option" where
  "recv_rest env r cl w = do {
     let rb = cl_recv_buffer cl;
     (consumed, r) \<leftarrow> mqtt_unpack_response r (rb_mem rb) (rb_curr rb);
     if consumed < 0 then Some (Some consumed, r, cl\<lparr>cl_error := consumed\<rparr>, w)
     else if consumed = 0 then
       (if rb_curr_sz rb = 0
        then Some (Some (mqtt_err MQTT_ERROR_RECV_BUFFER_TOO_SMALL), r,
          cl\<lparr>cl_error := mqtt_err MQTT_ERROR_RECV_BUFFER_TOO_SMALL\<rparr>, w)
        else Some (Some (mqtt_err MQTT_OK), r, cl, w))
     else do {
       mem \<leftarrow> rb_mem rb;
       (ret, cl, w) \<leftarrow> handle_response env r mem cl w;
       rb \<leftarrow> rb_consume (nat consumed) (cl_recv_buffer cl);
       Some (if ret = mqtt_err MQTT_OK then None else Some ret, r, cl\<lparr>cl_recv_buffer := rb\<rparr>, w)
     }
   }"

lemma recv_one_split:
  assumes "mqtt_pal_recvall env (cl_socketfd cl) (rb_curr_sz (cl_recv_buffer cl)) w = Some (rv, bs, w1)"
    and "rb_mem (cl_recv_buffer cl) = Some m" and "rb_curr (cl_recv_buffer cl) + rb_curr_sz (cl_recv_buffer cl) = length m"
  defines "rb \<equiv> (cl_recv_buffer cl)\<lparr>rb_mem := Some (overwrite m (rb_curr (cl_recv_buffer cl)) bs)\<rparr>"
  shows "recv_one env r cl w =
    (if rv < 0 then Some (Some rv, r, cl\<lparr>cl_recv_buffer := rb, cl_error := rv\<rparr>, w1)
     else recv_rest env r (cl\<lparr>cl_recv_buffer := rb_advance (length bs) rb\<rparr>) w1)"
proof -
  note res = mqtt_pal_recvall_result [OF assms(1)]
  have store: "rb_store bs (cl_recv_buffer cl) = Some rb"
    unfolding rb_def by (rule rb_store_ok(1) [OF assms(2,3) res(1)])
  have "\<not> rv < 0 \<Longrightarrow> nat rv = length bs" using res(2) socket_error_neg by auto
  with store show ?thesis
    by (simp add: recv_one_def assms(1) recv_rest_def rb_advance_def Let_def del: mqtt_err.simps)
qed

lemma recv_rest_inv:
  assumes inv: "recv_inv M cl" and ret: "recv_rest env r cl w = Some (out, r', cl', w')"
  shows "recv_inv M cl' \<and> cl_mutex cl' = cl_mutex cl \<and> cl_reconnect_callback cl' = cl_reconnect_callback cl"
proof -
  obtain m where m: "rb_mem (cl_recv_buffer cl) = Some m"
    and len: "rb_curr (cl_recv_buffer cl) + rb_curr_sz (cl_recv_buffer cl) = length m"
    using inv by (auto simp: recv_inv_def recv_ok_def)
  have ci: "client_inv M cl" using inv by (simp add: recv_inv_def)
  obtain consumed r1 where u: "mqtt_unpack_response r (Some m) (rb_curr (cl_recv_buffer cl)) = Some (consumed, r1)"
    using ret m by (auto simp: recv_rest_def Let_def split: bind_splits)
  consider (neg) "consumed < 0" | (zero) "consumed = 0" | (pos) "0 < consumed" by linarith
  then show ?thesis
  proof cases
    case neg
    with ret u m inv show ?thesis by (auto simp: recv_rest_def recv_inv_def)
  next
    case zero
    with ret u m inv show ?thesis by (auto simp: recv_rest_def recv_inv_def split: if_splits)
  next
    case pos
    have dec: "decoded_ok (length m) r1" by (rule unpack_response_decoded [OF u pos]) (use len in simp)
    obtain rv cl1 w1 where h: "handle_response env r1 m cl w = Some (rv, cl1, w1)"
      and cl1: "client_inv M cl1" "recv_frame cl cl1"
      using handle_response_ok [OF ci dec, of env w] by blast
    note fr = recv_frame_fields [OF cl1(2)]
    from ret u m pos h obtain rb where rb: "rb_consume (nat consumed) (cl_recv_buffer cl) = Some rb"
      and cl': "cl' = cl1\<lparr>cl_recv_buffer := rb\<rparr>"
      using fr by (auto simp: recv_rest_def split: bind_splits)
    have "recv_ok rb" using rb_consume_recv_ok [OF rb] inv by (simp add: recv_inv_def)
    with cl' cl1(1) fr show ?thesis by (simp add: recv_inv_def client_inv_def)
  qed
qed

lemma packet_length_le: "packet_length h \<le> unat (remaining_length h)"
  by (simp add: packet_length_def)

lemma recv_rest_safe:
  assumes inv: "recv_inv M cl"
    and fits: "\<And>m. rb_mem (cl_recv_buffer cl) = Some m \<Longrightarrow> response_fits r m (rb_curr (cl_recv_buffer cl))"
  shows "\<exists>out r' cl' w'. recv_rest env r cl w = Some (out, r', cl', w')"
proof -
  obtain m where m: "rb_mem (cl_recv_buffer cl) = Some m"
    and len: "rb_curr (cl_recv_buffer cl) + rb_curr_sz (cl_recv_buffer cl) = length m"
    using inv by (auto simp: recv_inv_def recv_ok_def)
  have ci: "client_inv M cl" using inv by (simp add: recv_inv_def)
  have le: "rb_curr (cl_recv_buffer cl) \<le> length m" using len by simp
  obtain consumed r1 where u: "mqtt_unpack_response r (Some m) (rb_curr (cl_recv_buffer cl)) = Some (consumed, r1)"
    and size: "0 < consumed \<longrightarrow> (\<exists>n. consumed = int (n + packet_length (fixed_header r1)) \<and>
        n + unat (remaining_length (fixed_header r1)) \<le> rb_curr (cl_recv_buffer cl))"
    using mqtt_unpack_response_safe [OF le fits [OF m]] by blast
  then have small: "0 < consumed \<longrightarrow> nat consumed \<le> rb_curr (cl_recv_buffer cl)"
    using packet_length_le [of "fixed_header r1"] by (auto simp del: of_nat_add)
  show ?thesis
  proof (cases "0 < consumed")
    case False
    with u m show ?thesis by (auto simp: recv_rest_def Let_def)
  next
    case True
    have dec: "decoded_ok (length m) r1" by (rule unpack_response_decoded [OF u True le])
    obtain rv cl1 w1 where h: "handle_response env r1 m cl w = Some (rv, cl1, w1)"
      and cl1: "client_inv M cl1" "recv_frame cl cl1"
      using handle_response_ok [OF ci dec, of env w] by blast
    have "recv_ok (cl_recv_buffer cl)" using inv by (simp add: recv_inv_def)
    then obtain rb where "rb_consume (nat consumed) (cl_recv_buffer cl) = Some rb"
      using rb_consume_ok [of "cl_recv_buffer cl" "nat consumed"] True small by auto
    with u m True h recv_frame_fields [OF cl1(2)] show ?thesis by (auto simp: recv_rest_def Let_def)
  qed
qed

lemma recv_one_inv:
  assumes inv: "recv_inv M cl" and ret: "recv_one env r cl w = Some (out, r', cl', w')"
  shows "recv_inv M cl' \<and> cl_mutex cl' = cl_mutex cl \<and> cl_reconnect_callback cl' = cl_reconnect_callback cl"
proof -
  obtain m where m: "rb_mem (cl_recv_buffer cl) = Some m"
    and len: "rb_curr (cl_recv_buffer cl) + rb_curr_sz (cl_recv_buffer cl) = length m"
    using inv by (auto simp: recv_inv_def recv_ok_def)
  obtain rv bs w1 where rd: "mqtt_pal_recvall env (cl_socketfd cl) (rb_curr_sz (cl_recv_buffer cl)) w = Some (rv, bs, w1)"
    using ret by (auto simp: recv_one_def split: bind_splits)
  note rb = rb_store_ok [OF m len mqtt_pal_recvall_result(1) [OF rd]]
  note split = recv_one_split [OF rd m len, of r]
  show ?thesis
  proof (cases "rv < 0")
    case True
    with ret split rb(2) inv show ?thesis by (auto simp: recv_inv_def client_inv_def)
  next
    case False
    let ?cl = "cl\<lparr>cl_recv_buffer := rb_advance (length bs)
      ((cl_recv_buffer cl)\<lparr>rb_mem := Some (overwrite m (rb_curr (cl_recv_buffer cl)) bs)\<rparr>)\<rparr>"
    have "recv_inv M ?cl" using rb(3) inv by (simp add: recv_inv_def client_inv_def)
    moreover have "recv_rest env r ?cl w1 = Some (out, r', cl', w')" using ret split False by simp
    ultimately show ?thesis using recv_rest_inv [of M ?cl] by fastforce
  qed
qed

text \<open>
  A pass has a defined result if the PUBLISH that has arrived, if one has, holds its own topic: the
  code does not check that, see \<open>publish_overrun\<close>.
\<close>

lemma recv_one_safe:
  assumes env: "bio_laws env" "bio_unblocks env blocked" and inv: "recv_inv M cl"
    and fits: "\<And>m rv bs w1. rb_mem (cl_recv_buffer cl) = Some m \<Longrightarrow>
      mqtt_pal_recvall env (cl_socketfd cl) (rb_curr_sz (cl_recv_buffer cl)) w = Some (rv, bs, w1) \<Longrightarrow>
      response_fits r (overwrite m (rb_curr (cl_recv_buffer cl)) bs) (rb_curr (cl_recv_buffer cl) + length bs)"
  shows "\<exists>out r' cl' w'. recv_one env r cl w = Some (out, r', cl', w')"
proof -
  obtain m where m: "rb_mem (cl_recv_buffer cl) = Some m"
    and len: "rb_curr (cl_recv_buffer cl) + rb_curr_sz (cl_recv_buffer cl) = length m"
    using inv by (auto simp: recv_inv_def recv_ok_def)
  obtain rv bs w1 where rd: "mqtt_pal_recvall env (cl_socketfd cl) (rb_curr_sz (cl_recv_buffer cl)) w = Some (rv, bs, w1)"
    using mqtt_pal_recvall_returns [OF env] by blast
  note bs = mqtt_pal_recvall_result(1) [OF rd]
  note rb = rb_store_ok [OF m len bs]
  note split = recv_one_split [OF rd m len, of r]
  let ?cl = "cl\<lparr>cl_recv_buffer := rb_advance (length bs)
      ((cl_recv_buffer cl)\<lparr>rb_mem := Some (overwrite m (rb_curr (cl_recv_buffer cl)) bs)\<rparr>)\<rparr>"
  have "recv_inv M ?cl" using rb(3) inv by (simp add: recv_inv_def client_inv_def)
  then have "\<exists>out r' cl' w'. recv_rest env r ?cl w1 = Some (out, r', cl', w')"
    by (rule recv_rest_safe) (use fits [OF m rd] in \<open>simp add: rb_advance_def\<close>)
  then show ?thesis unfolding split by (cases "rv < 0") simp_all
qed

subsection \<open>The invariant over a synchronisation\<close>

lemma recv_loop_inv:
  assumes inv: "recv_inv M cl" and ret: "recv_loop env r cl w = Some (rv, cl', w')"
  shows "recv_inv M cl' \<and> cl_mutex cl' = cl_mutex cl \<and> cl_reconnect_callback cl' = cl_reconnect_callback cl"
proof -
  let ?ok = "\<lambda>cl res. recv_inv M cl \<longrightarrow> recv_inv M (fst (snd res)) \<and> cl_mutex (fst (snd res)) = cl_mutex cl \<and>
      cl_reconnect_callback (fst (snd res)) = cl_reconnect_callback cl"
  have "?ok cl (rv, cl', w')"
  proof (rule recv_loop.raw_induct [where P = "\<lambda>env r cl w res. ?ok cl res", OF _ ret])
    fix f and env :: "'a mqtt_env" and r cl w res
    assume IH: "\<And>env r cl w res. f env r cl w = Some res \<Longrightarrow> ?ok cl res"
      and body: "recv_one env r cl w \<bind> (\<lambda>(ret, r, cl, w). case ret of
          None \<Rightarrow> f env r cl w | Some rv \<Rightarrow> Some (rv, cl, w)) = Some res"
    show "?ok cl res"
    proof
      assume inv: "recv_inv M cl"
      from body obtain out r1 cl1 w1 where one: "recv_one env r cl w = Some (out, r1, cl1, w1)"
        and cont: "(case out of None \<Rightarrow> f env r1 cl1 w1 | Some rv \<Rightarrow> Some (rv, cl1, w1)) = Some res"
        by (auto split: bind_splits)
      note step = recv_one_inv [OF inv one]
      show "recv_inv M (fst (snd res)) \<and> cl_mutex (fst (snd res)) = cl_mutex cl \<and>
          cl_reconnect_callback (fst (snd res)) = cl_reconnect_callback cl"
        using cont step IH [of env r1 cl1 w1 res] by (cases out) auto
    qed
  qed
  with inv show ?thesis by simp
qed

lemma mqtt_recv_inv:
  assumes "recv_inv M cl" and "mqtt_recv env r cl w = Some (rv, cl', w')"
  shows "recv_inv M cl'" and "\<not> cl_mutex cl'" and "cl_reconnect_callback cl' = cl_reconnect_callback cl"
    and "\<not> cl_mutex cl"
proof -
  have free: "\<not> cl_mutex cl" using assms(2) by (auto simp: mqtt_recv_def mutex_lock_def split: if_splits)
  let ?cl = "cl\<lparr>cl_mutex := True\<rparr>"
  obtain cl1 where loop: "recv_loop env r ?cl w = Some (rv, cl1, w')" and cl': "cl' = cl1\<lparr>cl_mutex := False\<rparr>"
    using assms(2) free by (auto simp: mqtt_recv_def mutex_lock_def mutex_unlock_def split: bind_splits if_splits)
  have "recv_inv M ?cl" using assms(1) by (simp add: recv_inv_def client_inv_def)
  from recv_loop_inv [OF this loop] cl' free
  show "recv_inv M cl'" and "\<not> cl_mutex cl'" and "cl_reconnect_callback cl' = cl_reconnect_callback cl"
    and "\<not> cl_mutex cl"
    by (simp_all add: recv_inv_def client_inv_def)
qed

lemma mqtt_send_inv:
  assumes env: "bio_laws env" "bio_unblocks env blocked" and inv: "recv_inv M cl" and free: "\<not> cl_mutex cl"
  shows "\<exists>rv cl' w'. mqtt_send env cl w = Some (rv, cl', w') \<and> recv_inv M cl' \<and> \<not> cl_mutex cl' \<and>
    cl_reconnect_callback cl' = cl_reconnect_callback cl"
proof (cases "cl_error cl < 0 \<and> cl_error cl \<noteq> mqtt_err MQTT_ERROR_SEND_BUFFER_IS_FULL")
  case True
  with mqtt_send_error [OF free, of env w] inv free show ?thesis by (simp del: mqtt_err.simps)
next
  case False
  then have "0 \<le> cl_error cl \<or> cl_error cl = mqtt_err MQTT_ERROR_SEND_BUFFER_IS_FULL" by linarith
  moreover have "client_inv M cl" using inv by (simp add: recv_inv_def)
  ultimately show ?thesis using mqtt_send_ok [OF env _ free, of M w] inv
    by (auto simp: recv_inv_def simp del: mqtt_err.simps)
qed

text \<open>
  What \<open>mqtt_sync\<close> relies on: the reconnect callback gets the client locked, sets it up and unlocks
  it; the inspector keeps the client set up and locked.
\<close>

definition callback_laws ::
  "nat \<Rightarrow> (nat \<Rightarrow> mqtt_client \<Rightarrow> 'w \<Rightarrow> (int \<times> mqtt_client \<times> 'w) option) \<Rightarrow>
   (nat \<Rightarrow> mqtt_client \<Rightarrow> 'w \<Rightarrow> (mqtt_client \<times> 'w) option) \<Rightarrow> bool" where
  "callback_laws M inspector reconnect \<longleftrightarrow>
     (\<forall>cb cl w cl' w'. reconnect cb cl w = Some (cl', w') \<longrightarrow> cl_mutex cl \<longrightarrow> \<not> cl_mutex cl' \<and> recv_inv M cl') \<and>
     (\<forall>cb cl w rv cl' w'. inspector cb cl w = Some (rv, cl', w') \<longrightarrow> recv_inv M cl \<longrightarrow> cl_mutex cl \<longrightarrow>
        cl_mutex cl' \<and> recv_inv M cl')"

lemma recv_inv_fields [simp]:
  "recv_inv M (cl\<lparr>cl_mutex := b\<rparr>) = recv_inv M cl" "recv_inv M (cl\<lparr>cl_error := err\<rparr>) = recv_inv M cl"
  "recv_inv M (cl\<lparr>cl_error := err, cl_mutex := b\<rparr>) = recv_inv M cl"
  "recv_inv M (cl\<lparr>cl_mutex := b, cl_error := err\<rparr>) = recv_inv M cl"
  by (simp_all add: recv_inv_def client_inv_def)

lemma sync_start_inv:
  assumes laws: "callback_laws M inspector reconnect" and held: "cl_mutex cl"
    and inv: "recv_inv M cl \<or> cl_error cl \<noteq> mqtt_err MQTT_OK \<and>
      cl_error cl \<noteq> mqtt_err MQTT_ERROR_RECONNECTING \<and> cl_reconnect_callback cl \<noteq> None"
    and ret: "sync_start reconnect cl w = Some (reconnecting, cl', w')"
  shows "recv_inv M cl' \<and> \<not> cl_mutex cl'"
proof (cases "cl_error cl \<noteq> mqtt_err MQTT_ERROR_RECONNECTING \<and> cl_error cl \<noteq> mqtt_err MQTT_OK \<and>
         cl_reconnect_callback cl \<noteq> None")
  case True
  then obtain cb where "cl_reconnect_callback cl = Some cb" by blast
  with ret True have "reconnect cb cl w = Some (cl', w')"
    by (auto simp: sync_start_def split: bind_splits simp del: mqtt_err.simps)
  with laws held show ?thesis unfolding callback_laws_def by blast
next
  case False
  with inv have "recv_inv M cl" by blast
  with ret False held show ?thesis
    by (auto simp: sync_start_def mutex_unlock_def Let_def split: if_splits simp del: mqtt_err.simps)
qed

lemma sync_inspect_inv:
  assumes "callback_laws M inspector reconnect" and "recv_inv M cl" and "\<not> cl_mutex cl"
    and "sync_inspect inspector cl w = Some (err, cl', w')"
  shows "recv_inv M cl' \<and> \<not> cl_mutex cl'"
proof (cases "cl_inspector_callback cl")
  case None
  with assms show ?thesis by (simp add: sync_inspect_def)
next
  case (Some cb)
  with assms(3,4) obtain cl1 where i: "inspector cb (cl\<lparr>cl_mutex := True\<rparr>) w = Some (err, cl1, w')"
    and cl': "cl' = cl1\<lparr>cl_mutex := False\<rparr>"
    by (auto simp: sync_inspect_def mutex_lock_def mutex_unlock_def split: bind_splits if_splits)
  have "recv_inv M (cl\<lparr>cl_mutex := True\<rparr>)" "cl_mutex (cl\<lparr>cl_mutex := True\<rparr>)" using assms(2) by simp_all
  with assms(1) i have "recv_inv M cl1" unfolding callback_laws_def by blast
  with cl' show ?thesis by simp
qed

lemma mqtt_sync_inv:
  assumes env: "bio_laws env" "bio_unblocks env blocked" and laws: "callback_laws M inspector reconnect"
    and inv: "recv_inv M cl \<or> cl_error cl \<noteq> mqtt_err MQTT_OK \<and>
      cl_error cl \<noteq> mqtt_err MQTT_ERROR_RECONNECTING \<and> cl_reconnect_callback cl \<noteq> None"
    and ret: "mqtt_sync env inspector reconnect response cl w = Some (rv, cl', w')"
  shows "recv_inv M cl' \<and> \<not> cl_mutex cl'"
proof -
  have free: "\<not> cl_mutex cl" using ret by (auto simp: mqtt_sync_def mutex_lock_def split: if_splits)
  let ?cl = "cl\<lparr>cl_mutex := True\<rparr>"
  obtain reconnecting cl1 w1 err cl2 w2 where start: "sync_start reconnect ?cl w = Some (reconnecting, cl1, w1)"
    and insp: "sync_inspect inspector cl1 w1 = Some (err, cl2, w2)"
    and rest: "(if err \<noteq> mqtt_err MQTT_OK then Some (err, cl2, w2)
     else do {
       (err, cl, w) \<leftarrow> mqtt_recv env response cl2 w2;
       if err \<noteq> mqtt_err MQTT_OK then Some (err, cl, w)
       else do { res \<leftarrow> mqtt_send env cl w; sync_finish reconnecting reconnect res }
     }) = Some (rv, cl', w')"
    using ret free unfolding mqtt_sync_def
    by (auto simp: mutex_lock_def split: bind_splits simp del: mqtt_err.simps)
  have inv1: "recv_inv M cl1 \<and> \<not> cl_mutex cl1"
    by (rule sync_start_inv [OF laws _ _ start]) (use inv in simp_all)
  then have inv2: "recv_inv M cl2 \<and> \<not> cl_mutex cl2"
    using sync_inspect_inv [OF laws _ _ insp] by blast
  show ?thesis
  proof (cases "err = mqtt_err MQTT_OK")
    case False
    with rest inv2 show ?thesis by (simp del: mqtt_err.simps)
  next
    case True
    with rest obtain err3 cl3 w3 where rc: "mqtt_recv env response cl2 w2 = Some (err3, cl3, w3)"
      and rest3: "(if err3 \<noteq> mqtt_err MQTT_OK then Some (err3, cl3, w3)
        else do { res \<leftarrow> mqtt_send env cl3 w3; sync_finish reconnecting reconnect res }) = Some (rv, cl', w')"
      by (auto split: bind_splits simp del: mqtt_err.simps)
    have inv3: "recv_inv M cl3" "\<not> cl_mutex cl3" using mqtt_recv_inv [OF _ rc] inv2 by blast+
    obtain err4 cl4 w4 where snd: "mqtt_send env cl3 w3 = Some (err4, cl4, w4)" and inv4: "recv_inv M cl4" "\<not> cl_mutex cl4"
      using mqtt_send_inv [OF env inv3] by blast
    show ?thesis
    proof (cases "err3 = mqtt_err MQTT_OK")
      case False
      with rest3 inv3 show ?thesis by (simp del: mqtt_err.simps)
    next
      case ok: True
      with rest3 snd have fin: "sync_finish reconnecting reconnect (err4, cl4, w4) = Some (rv, cl', w')" by simp
      show ?thesis
      proof (cases "reconnecting \<and> cl_reconnect_callback cl4 \<noteq> None")
        case True
        then obtain cb where "cl_reconnect_callback cl4 = Some cb" by blast
        with fin True inv4 have "reconnect cb (cl4\<lparr>cl_mutex := True\<rparr>) w4 = Some (cl', w')"
          by (auto simp: sync_finish_def mutex_lock_def split: bind_splits)
        moreover have "cl_mutex (cl4\<lparr>cl_mutex := True\<rparr>)" by simp
        ultimately show ?thesis using laws unfolding callback_laws_def by blast
      next
        case False
        with fin inv4 show ?thesis by (auto simp: sync_finish_def split: if_splits)
      qed
    qed
  qed
qed

end
