(* ===== verification/Mqtt_Pal_Variants.thy ===== *)
theory Mqtt_Pal_Variants
  imports Mqtt_Pal
begin

text \<open>
  The other variants of the platform layer in \<open>src/mqtt_pal.c\<close>: mbedTLS, wolfSSL, BearSSL, POSIX sockets
  and Windows sockets. The program is not built with them, but the MQTT client is written against all of them: each is
  shown to keep the contract that the client relies on.
\<close>

unbundle bit_operations_syntax

subsection \<open>The libraries and the sockets\<close>

text \<open>
  \<open>nt_write\<close> stands for \<open>mbedtls_ssl_write\<close>, \<open>wolfSSL_write\<close> and \<open>send\<close>, \<open>nt_read\<close> for what reads: the result and the bytes
  it has stored. \<open>nt_error\<close> is the code of the last failure (\<open>wolfSSL_get_error\<close>, \<open>errno\<close>, \<open>WSAGetLastError\<close>), \<open>nt_again\<close> says
  which codes mean that the call is to be repeated later, for reading and for writing.
\<close>

record 'w net =
  nt_write :: "nat \<Rightarrow> u8 list \<Rightarrow> 'w \<Rightarrow> int \<times> 'w"
  nt_read :: "nat \<Rightarrow> nat \<Rightarrow> 'w \<Rightarrow> int \<times> u8 list \<times> 'w"
  nt_error :: "nat \<Rightarrow> int \<Rightarrow> 'w \<Rightarrow> int"
  nt_again_send :: "int \<Rightarrow> bool"
  nt_again_recv :: "int \<Rightarrow> bool"

definition net_laws :: "'w net \<Rightarrow> bool" where
  "net_laws N \<longleftrightarrow> (\<forall>fd bs w. fst (nt_write N fd bs w) \<le> int (length bs)) \<and>
     (\<forall>fd n w. case nt_read N fd n w of (rv, bs, w') \<Rightarrow> length bs \<le> n \<and> int (length bs) = max 0 rv)"

subsection \<open>mbedTLS\<close>

partial_function (option) mbedtls_send_loop :: "'w net \<Rightarrow> nat \<Rightarrow> u8 list \<Rightarrow> nat \<Rightarrow> 'w \<Rightarrow> (int \<times> 'w) option" where
  [code]: "mbedtls_send_loop N fd buf sent w =
     (if sent < length buf
      then let (rv, w) = nt_write N fd (drop sent buf) w
           in if rv < 0 then Some (if nt_again_send N rv then int sent else mqtt_err MQTT_ERROR_SOCKET_ERROR, w)
              else mbedtls_send_loop N fd buf (sent + nat rv) w
      else Some (int sent, w))"

partial_function (option) mbedtls_recv_loop :: "'w net \<Rightarrow> nat \<Rightarrow> nat \<Rightarrow> u8 list \<Rightarrow> 'w \<Rightarrow> (int \<times> u8 list \<times> 'w) option" where
  [code]: "mbedtls_recv_loop N fd bufsz got w =
     (let (rv, bs, w) = nt_read N fd bufsz w
      in if length bs > bufsz then None
         else if rv = 0 then Some (if got = [] then mqtt_err MQTT_ERROR_SOCKET_ERROR else int (length got), got, w)
         else if rv < 0 then Some (if nt_again_recv N rv then int (length got) else mqtt_err MQTT_ERROR_SOCKET_ERROR, got, w)
         else if bufsz - length bs > 0 then mbedtls_recv_loop N fd (bufsz - length bs) (got @ bs) w
         else Some (int (length (got @ bs)), got @ bs, w))"

subsection \<open>wolfSSL\<close>

text \<open>The length is cast to \<open>int\<close>, which is not defined for two gigabytes and more.\<close>

partial_function (option) wolfssl_send_loop :: "'w net \<Rightarrow> nat \<Rightarrow> u8 list \<Rightarrow> nat \<Rightarrow> 'w \<Rightarrow> (int \<times> 'w) option" where
  [code]: "wolfssl_send_loop N fd buf sent w =
     (if sent < length buf
      then if length buf - sent \<ge> 2 ^ 31 then None
           else let (tmp, w) = nt_write N fd (drop sent buf) w
                in if tmp \<le> 0
                   then Some (if nt_again_send N (nt_error N fd tmp w) then int sent else mqtt_err MQTT_ERROR_SOCKET_ERROR, w)
                   else wolfssl_send_loop N fd buf (sent + nat tmp) w
      else Some (int sent, w))"

partial_function (option) wolfssl_recv_loop :: "'w net \<Rightarrow> nat \<Rightarrow> nat \<Rightarrow> u8 list \<Rightarrow> 'w \<Rightarrow> (int \<times> u8 list \<times> 'w) option" where
  [code]: "wolfssl_recv_loop N fd bufsz got w =
     (if bufsz \<ge> 2 ^ 31 then None
      else let (tmp, bs, w) = nt_read N fd bufsz w
           in if length bs > bufsz then None
              else if tmp \<le> 0
              then Some (if nt_again_recv N (nt_error N fd tmp w) then int (length got) else mqtt_err MQTT_ERROR_SOCKET_ERROR, got, w)
              else if bufsz - length bs > 0 then wolfssl_recv_loop N fd (bufsz - length bs) (got @ bs) w
              else Some (int (length (got @ bs)), got @ bs, w))"

subsection \<open>POSIX sockets\<close>

partial_function (option) posix_send_loop :: "'w net \<Rightarrow> nat \<Rightarrow> u8 list \<Rightarrow> nat \<Rightarrow> 'w \<Rightarrow> (int \<times> 'w) option" where
  [code]: "posix_send_loop N fd buf sent w =
     (if sent < length buf
      then let (tmp, w) = nt_write N fd (drop sent buf) w
           in if tmp < 1
              then if \<not> nt_again_send N (nt_error N fd tmp w) then Some (mqtt_err MQTT_ERROR_SOCKET_ERROR, w)
                   else posix_send_loop N fd buf sent w
              else posix_send_loop N fd buf (sent + nat tmp) w
      else Some (int sent, w))"

partial_function (option) posix_recv_loop :: "'w net \<Rightarrow> nat \<Rightarrow> nat \<Rightarrow> u8 list \<Rightarrow> 'w \<Rightarrow> (int \<times> u8 list \<times> 'w) option" where
  [code]: "posix_recv_loop N fd bufsz got w =
     (let (rv, bs, w) = nt_read N fd bufsz w
      in if length bs > bufsz then None
         else if rv > 0
         then if bufsz - length bs > 0 then posix_recv_loop N fd (bufsz - length bs) (got @ bs) w
              else Some (int (length (got @ bs)), got @ bs, w)
         else if rv = 0 \<or> \<not> nt_again_recv N (nt_error N fd rv w) then Some (mqtt_err MQTT_ERROR_SOCKET_ERROR, got, w)
         else Some (int (length got), got, w))"

subsection \<open>Windows sockets\<close>

partial_function (option) windows_send_loop :: "'w net \<Rightarrow> nat \<Rightarrow> u8 list \<Rightarrow> nat \<Rightarrow> 'w \<Rightarrow> (int \<times> 'w) option" where
  [code]: "windows_send_loop N fd buf sent w =
     (if sent < length buf
      then let (tmp, w) = nt_write N fd (drop sent buf) w
           in if tmp < 1 then Some (mqtt_err MQTT_ERROR_SOCKET_ERROR, w)
              else windows_send_loop N fd buf (sent + nat tmp) w
      else Some (int sent, w))"

partial_function (option) windows_recv_loop :: "'w net \<Rightarrow> nat \<Rightarrow> nat \<Rightarrow> u8 list \<Rightarrow> 'w \<Rightarrow> (int \<times> u8 list \<times> 'w) option" where
  [code]: "windows_recv_loop N fd bufsz got w =
     (let (rv, bs, w) = nt_read N fd bufsz w
      in if length bs > bufsz then None
         else if rv < 0 \<and> \<not> nt_again_recv N (nt_error N fd rv w) then Some (mqtt_err MQTT_ERROR_SOCKET_ERROR, got, w)
         else if rv > 0
         then if bufsz - length bs > 0 then windows_recv_loop N fd (bufsz - length bs) (got @ bs) w
              else Some (int (length (got @ bs)), got @ bs, w)
         else Some (int (length got), got, w))"

subsection \<open>BearSSL\<close>

text \<open>
  The engine of BearSSL and the two functions of the context that move records. The engine owns its buffers: what it
  has to send, the room it has for a record, for application data to send, and the application data it has received.
\<close>

record 'w bearssl =
  BR_SSL_CLOSED :: u32
  BR_SSL_SENDREC :: u32
  BR_SSL_RECVREC :: u32
  BR_SSL_SENDAPP :: u32
  BR_SSL_RECVAPP :: u32
  br_last_error :: "'w \<Rightarrow> int"
  br_current_state :: "'w \<Rightarrow> u32"
  br_sendrec_buf :: "'w \<Rightarrow> u8 list"
  br_sendrec_ack :: "nat \<Rightarrow> 'w \<Rightarrow> 'w"
  br_recvrec_buf :: "'w \<Rightarrow> nat"
  br_recvrec_put :: "u8 list \<Rightarrow> 'w \<Rightarrow> 'w"
  br_recvrec_ack :: "nat \<Rightarrow> 'w \<Rightarrow> 'w"
  br_sendapp_buf :: "'w \<Rightarrow> nat"
  br_sendapp_put :: "u8 list \<Rightarrow> 'w \<Rightarrow> 'w"
  br_sendapp_ack :: "nat \<Rightarrow> 'w \<Rightarrow> 'w"
  br_flush :: "'w \<Rightarrow> 'w"
  br_recvapp_buf :: "'w \<Rightarrow> u8 list"
  br_recvapp_ack :: "nat \<Rightarrow> 'w \<Rightarrow> 'w"
  low_write :: "u8 list \<Rightarrow> 'w \<Rightarrow> int \<times> 'w"
  low_read :: "nat \<Rightarrow> 'w \<Rightarrow> int \<times> u8 list \<times> 'w"

text \<open>The last test compares a truth value with the flag: \<open>&&\<close> is written for \<open>&\<close>.\<close>

definition do_rec_data :: "'w bearssl \<Rightarrow> u32 \<Rightarrow> 'w \<Rightarrow> (int \<times> 'w) option" where
  "do_rec_data B status w =
     (if br_last_error B w \<noteq> 0 then Some (mqtt_err MQTT_ERROR_SOCKET_ERROR, w)
      else if status AND BR_SSL_SENDREC B = BR_SSL_SENDREC B
      then let buffer = br_sendrec_buf B w
           in if buffer \<noteq> []
              then let (rc, w) = low_write B buffer w
                   in Some (if rc < 0 then (mqtt_err MQTT_ERROR_SOCKET_ERROR, w) else (mqtt_err MQTT_OK, br_sendrec_ack B (nat rc) w))
              else Some (mqtt_err MQTT_OK, w)
      else if status AND BR_SSL_RECVREC B = BR_SSL_RECVREC B
      then if br_recvrec_buf B w > 0
           then let (rc, bs, w') = low_read B (br_recvrec_buf B w) w
                in if length bs > br_recvrec_buf B w then None
                   else let w = br_recvrec_put B bs w'
                        in Some (if rc < 0 then (mqtt_err MQTT_ERROR_SOCKET_ERROR, w) else (mqtt_err MQTT_OK, br_recvrec_ack B (nat rc) w))
           else Some (mqtt_err MQTT_OK, w)
      else if (if status \<noteq> 0 \<and> BR_SSL_CLOSED B \<noteq> 0 then 1 else 0) = BR_SSL_CLOSED B
      then Some (mqtt_err MQTT_ERROR_SOCKET_ERROR, w)
      else Some (mqtt_err MQTT_OK, w))"

text \<open>The records are moved, if the state asks for it, and the state is read again.\<close>

definition bear_records :: "'w bearssl \<Rightarrow> u32 \<Rightarrow> 'w \<Rightarrow> (int \<times> u32 \<times> 'w) option" where
  "bear_records B status w =
     (if status AND (BR_SSL_RECVREC B OR BR_SSL_SENDREC B) \<noteq> 0
      then do { (rc, w) \<leftarrow> do_rec_data B status w; Some (rc, if rc \<noteq> mqtt_err MQTT_OK then status else br_current_state B w, w) }
      else Some (mqtt_err MQTT_OK, status, w))"

partial_function (option) bear_send_loop :: "'w bearssl \<Rightarrow> u8 list \<Rightarrow> u8 list \<Rightarrow> 'w \<Rightarrow> (int \<times> 'w) option" where
  [code]: "bear_send_loop B buf walker w =
     (if walker = [] then Some (int (length buf), w)
      else let status = br_current_state B w
           in if status AND BR_SSL_CLOSED B \<noteq> 0 then Some (mqtt_err MQTT_ERROR_SOCKET_ERROR, w)
              else do {
                (rc, status, w) \<leftarrow> bear_records B status w;
                if rc \<noteq> mqtt_err MQTT_OK then Some (rc, w)
                else if status AND BR_SSL_SENDAPP B = BR_SSL_SENDAPP B \<and> br_sendapp_buf B w > 0
                then let n = min (br_sendapp_buf B w) (length walker);
                         w = br_flush B (br_sendapp_ack B n (br_sendapp_put B (take n walker) w))
                     in bear_send_loop B buf (drop n walker) w
                else bear_send_loop B buf walker w
              })"

definition bear_recvall :: "'w bearssl \<Rightarrow> nat \<Rightarrow> nat \<Rightarrow> 'w \<Rightarrow> (int \<times> u8 list \<times> 'w) option" where
  "bear_recvall B fd bufsz w = do {
     (rc, status, w) \<leftarrow> bear_records B (br_current_state B w) w;
     if rc \<noteq> mqtt_err MQTT_OK then Some (rc, [], w)
     else if status AND BR_SSL_RECVAPP B = BR_SSL_RECVAPP B
     then let buffer = br_recvapp_buf B w; n = min (length buffer) bufsz
          in Some (int n, take n buffer, if buffer \<noteq> [] then br_recvapp_ack B n w else w)
     else Some (0, [], w)
   }"

subsection \<open>The functions of each variant\<close>

definition mbedtls_sendall :: "'w net \<Rightarrow> nat \<Rightarrow> u8 list \<Rightarrow> 'w \<Rightarrow> (int \<times> 'w) option" where
  "mbedtls_sendall N fd buf w = mbedtls_send_loop N fd buf 0 w"

definition mbedtls_recvall :: "'w net \<Rightarrow> nat \<Rightarrow> nat \<Rightarrow> 'w \<Rightarrow> (int \<times> u8 list \<times> 'w) option" where
  "mbedtls_recvall N fd bufsz w = mbedtls_recv_loop N fd bufsz [] w"

definition wolfssl_sendall :: "'w net \<Rightarrow> nat \<Rightarrow> u8 list \<Rightarrow> 'w \<Rightarrow> (int \<times> 'w) option" where
  "wolfssl_sendall N fd buf w = wolfssl_send_loop N fd buf 0 w"

definition wolfssl_recvall :: "'w net \<Rightarrow> nat \<Rightarrow> nat \<Rightarrow> 'w \<Rightarrow> (int \<times> u8 list \<times> 'w) option" where
  "wolfssl_recvall N fd bufsz w = wolfssl_recv_loop N fd bufsz [] w"

definition posix_sendall :: "'w net \<Rightarrow> nat \<Rightarrow> u8 list \<Rightarrow> 'w \<Rightarrow> (int \<times> 'w) option" where
  "posix_sendall N fd buf w = posix_send_loop N fd buf 0 w"

definition posix_recvall :: "'w net \<Rightarrow> nat \<Rightarrow> nat \<Rightarrow> 'w \<Rightarrow> (int \<times> u8 list \<times> 'w) option" where
  "posix_recvall N fd bufsz w = posix_recv_loop N fd bufsz [] w"

definition windows_sendall :: "'w net \<Rightarrow> nat \<Rightarrow> u8 list \<Rightarrow> 'w \<Rightarrow> (int \<times> 'w) option" where
  "windows_sendall N fd buf w = windows_send_loop N fd buf 0 w"

definition windows_recvall :: "'w net \<Rightarrow> nat \<Rightarrow> nat \<Rightarrow> 'w \<Rightarrow> (int \<times> u8 list \<times> 'w) option" where
  "windows_recvall N fd bufsz w = windows_recv_loop N fd bufsz [] w"

definition bear_sendall :: "'w bearssl \<Rightarrow> nat \<Rightarrow> u8 list \<Rightarrow> 'w \<Rightarrow> (int \<times> 'w) option" where
  "bear_sendall B fd buf w = bear_send_loop B buf buf w"

subsection \<open>The contract\<close>

text \<open>What the client relies on: no more is reported as sent than there was, and no more is stored than there is room for.\<close>

definition transport_contract ::
  "(nat \<Rightarrow> u8 list \<Rightarrow> 'w \<Rightarrow> (int \<times> 'w) option) \<Rightarrow> (nat \<Rightarrow> nat \<Rightarrow> 'w \<Rightarrow> (int \<times> u8 list \<times> 'w) option) \<Rightarrow> bool" where
  "transport_contract send recv \<longleftrightarrow>
     (\<forall>fd buf w rv w'. send fd buf w = Some (rv, w') \<longrightarrow> rv = mqtt_err MQTT_ERROR_SOCKET_ERROR \<or> 0 \<le> rv \<and> rv \<le> int (length buf)) \<and>
     (\<forall>fd n w rv bs w'. recv fd n w = Some (rv, bs, w') \<longrightarrow>
        length bs \<le> n \<and> (rv = mqtt_err MQTT_ERROR_SOCKET_ERROR \<or> rv = int (length bs)))"

definition sends_all :: "(nat \<Rightarrow> u8 list \<Rightarrow> 'w \<Rightarrow> (int \<times> 'w) option) \<Rightarrow> bool" where
  "sends_all send \<longleftrightarrow>
     (\<forall>fd buf w rv w'. send fd buf w = Some (rv, w') \<longrightarrow> rv = mqtt_err MQTT_ERROR_SOCKET_ERROR \<or> rv = int (length buf))"

definition sent_ok :: "u8 list \<Rightarrow> nat \<Rightarrow> int \<Rightarrow> bool" where
  "sent_ok buf sent rv \<longleftrightarrow> (sent \<le> length buf \<longrightarrow> rv = mqtt_err MQTT_ERROR_SOCKET_ERROR \<or> 0 \<le> rv \<and> rv \<le> int (length buf))"

definition sent_all :: "u8 list \<Rightarrow> nat \<Rightarrow> int \<Rightarrow> bool" where
  "sent_all buf sent rv \<longleftrightarrow> (sent \<le> length buf \<longrightarrow> rv = mqtt_err MQTT_ERROR_SOCKET_ERROR \<or> rv = int (length buf))"

definition stored_ok :: "nat \<Rightarrow> u8 list \<Rightarrow> int \<Rightarrow> u8 list \<Rightarrow> bool" where
  "stored_ok bufsz got rv bs \<longleftrightarrow> (\<exists>new. bs = got @ new \<and> length new \<le> bufsz) \<and> (rv = mqtt_err MQTT_ERROR_SOCKET_ERROR \<or> rv = int (length bs))"

lemma written: "net_laws N \<Longrightarrow> nt_write N fd (drop sent buf) w = (tmp, w') \<Longrightarrow> sent \<le> length buf \<Longrightarrow> sent + nat tmp \<le> length buf"
  unfolding net_laws_def by (drule conjunct1) (metis fst_conv length_drop nat_int_comparison(3) le_diff_conv2 add.commute nat_le_iff)

subsection \<open>Each variant keeps it\<close>

lemma mbedtls_send_result:
  assumes "mbedtls_send_loop N fd buf sent w = Some r"
  shows "net_laws N \<longrightarrow> sent_ok buf sent (fst r)"
proof (rule mbedtls_send_loop.raw_induct [where P = "\<lambda>N fd buf sent w r. net_laws N \<longrightarrow> sent_ok buf sent (fst r)", OF _ assms], goal_cases)
  case (1 f N fd buf sent w r)
  obtain tmp w1 where wr: "nt_write N fd (drop sent buf) w = (tmp, w1)" by fastforce
  show ?case using 1(2) 1(1) [of N fd buf "sent + nat tmp" w1 r] 1(1) [of N fd buf sent w1 r] wr written [OF _ wr]
    by (auto simp: sent_ok_def split: if_splits)
qed

lemma mbedtls_recv_result:
  assumes "mbedtls_recv_loop N fd bufsz got w = Some r"
  shows "stored_ok bufsz got (fst r) (fst (snd r))"
proof (rule mbedtls_recv_loop.raw_induct [where P = "\<lambda>N fd bufsz got w r. stored_ok bufsz got (fst r) (fst (snd r))", OF _ assms], goal_cases)
  case (1 f N fd bufsz got w r)
  obtain rv new w1 where rd: "nt_read N fd bufsz w = (rv, new, w1)" by (metis prod_cases3)
  show ?case using 1(2) 1(1) [of N fd "bufsz - length new" "got @ new" w1 r] rd
    by (auto simp: stored_ok_def split: if_splits)
qed

lemma wolfssl_send_result:
  assumes "wolfssl_send_loop N fd buf sent w = Some r"
  shows "net_laws N \<longrightarrow> sent_ok buf sent (fst r)"
proof (rule wolfssl_send_loop.raw_induct [where P = "\<lambda>N fd buf sent w r. net_laws N \<longrightarrow> sent_ok buf sent (fst r)", OF _ assms], goal_cases)
  case (1 f N fd buf sent w r)
  obtain tmp w1 where wr: "nt_write N fd (drop sent buf) w = (tmp, w1)" by fastforce
  show ?case using 1(2) 1(1) [of N fd buf "sent + nat tmp" w1 r] 1(1) [of N fd buf sent w1 r] wr written [OF _ wr]
    by (auto simp: sent_ok_def split: if_splits)
qed

lemma wolfssl_recv_result:
  assumes "wolfssl_recv_loop N fd bufsz got w = Some r"
  shows "stored_ok bufsz got (fst r) (fst (snd r))"
proof (rule wolfssl_recv_loop.raw_induct [where P = "\<lambda>N fd bufsz got w r. stored_ok bufsz got (fst r) (fst (snd r))", OF _ assms], goal_cases)
  case (1 f N fd bufsz got w r)
  obtain rv new w1 where rd: "nt_read N fd bufsz w = (rv, new, w1)" by (metis prod_cases3)
  show ?case using 1(2) 1(1) [of N fd "bufsz - length new" "got @ new" w1 r] rd
    by (auto simp: stored_ok_def split: if_splits)
qed

lemma posix_send_result:
  assumes "posix_send_loop N fd buf sent w = Some r"
  shows "net_laws N \<longrightarrow> sent_all buf sent (fst r)"
proof (rule posix_send_loop.raw_induct [where P = "\<lambda>N fd buf sent w r. net_laws N \<longrightarrow> sent_all buf sent (fst r)", OF _ assms], goal_cases)
  case (1 f N fd buf sent w r)
  obtain tmp w1 where wr: "nt_write N fd (drop sent buf) w = (tmp, w1)" by fastforce
  show ?case using 1(2) 1(1) [of N fd buf "sent + nat tmp" w1 r] 1(1) [of N fd buf sent w1 r] wr written [OF _ wr]
    by (auto simp: sent_all_def split: if_splits)
qed

lemma posix_recv_result:
  assumes "posix_recv_loop N fd bufsz got w = Some r"
  shows "stored_ok bufsz got (fst r) (fst (snd r))"
proof (rule posix_recv_loop.raw_induct [where P = "\<lambda>N fd bufsz got w r. stored_ok bufsz got (fst r) (fst (snd r))", OF _ assms], goal_cases)
  case (1 f N fd bufsz got w r)
  obtain rv new w1 where rd: "nt_read N fd bufsz w = (rv, new, w1)" by (metis prod_cases3)
  show ?case using 1(2) 1(1) [of N fd "bufsz - length new" "got @ new" w1 r] rd
    by (auto simp: stored_ok_def split: if_splits)
qed

lemma windows_send_result:
  assumes "windows_send_loop N fd buf sent w = Some r"
  shows "net_laws N \<longrightarrow> sent_all buf sent (fst r)"
proof (rule windows_send_loop.raw_induct [where P = "\<lambda>N fd buf sent w r. net_laws N \<longrightarrow> sent_all buf sent (fst r)", OF _ assms], goal_cases)
  case (1 f N fd buf sent w r)
  obtain tmp w1 where wr: "nt_write N fd (drop sent buf) w = (tmp, w1)" by fastforce
  show ?case using 1(2) 1(1) [of N fd buf "sent + nat tmp" w1 r] 1(1) [of N fd buf sent w1 r] wr written [OF _ wr]
    by (auto simp: sent_all_def split: if_splits)
qed

lemma windows_recv_result:
  assumes "windows_recv_loop N fd bufsz got w = Some r"
  shows "stored_ok bufsz got (fst r) (fst (snd r))"
proof (rule windows_recv_loop.raw_induct [where P = "\<lambda>N fd bufsz got w r. stored_ok bufsz got (fst r) (fst (snd r))", OF _ assms], goal_cases)
  case (1 f N fd bufsz got w r)
  obtain rv new w1 where rd: "nt_read N fd bufsz w = (rv, new, w1)" by (metis prod_cases3)
  show ?case using 1(2) 1(1) [of N fd "bufsz - length new" "got @ new" w1 r] rd
    by (auto simp: stored_ok_def split: if_splits)
qed

lemma do_rec_data_result: "do_rec_data B status w = Some (rc, w') \<Longrightarrow> rc = mqtt_err MQTT_ERROR_SOCKET_ERROR \<or> rc = mqtt_err MQTT_OK"
  by (auto simp: do_rec_data_def Let_def split: if_splits prod.splits)

lemma bear_records_result: "bear_records B status w = Some (rc, status', w') \<Longrightarrow> rc = mqtt_err MQTT_ERROR_SOCKET_ERROR \<or> rc = mqtt_err MQTT_OK"
  unfolding bear_records_def using do_rec_data_result by (fastforce split: if_splits bind_splits)

lemma bear_send_result:
  assumes "bear_send_loop B buf walker w = Some r"
  shows "fst r = mqtt_err MQTT_ERROR_SOCKET_ERROR \<or> fst r = int (length buf)"
proof (rule bear_send_loop.raw_induct [where P = "\<lambda>B buf walker w r. fst r = mqtt_err MQTT_ERROR_SOCKET_ERROR \<or> fst r = int (length buf)", OF _ assms], goal_cases)
  case (1 f B buf walker w r)
  let ?ok = "fst r = mqtt_err MQTT_ERROR_SOCKET_ERROR \<or> fst r = int (length buf)"
  show ?case
  proof (cases "walker = [] \<or> br_current_state B w AND BR_SSL_CLOSED B \<noteq> 0")
    case True
    then show ?thesis using 1(2) by (auto split: if_splits)
  next
    case False
    then obtain rc status w1 where rec: "bear_records B (br_current_state B w) w = Some (rc, status, w1)"
      using 1(2) by (auto simp: Let_def split: bind_splits)
    show ?thesis
    proof (cases "rc = mqtt_err MQTT_OK")
      case True
      then show ?thesis using 1(2) False rec
        by (auto simp: Let_def split: if_splits dest!: 1(1))
    next
      case False
      then show ?thesis using 1(2) \<open>\<not> (walker = [] \<or> _)\<close> rec bear_records_result [OF rec] by (auto simp: Let_def)
    qed
  qed
qed

lemma bear_recv_result: "bear_recvall B fd bufsz w = Some (rv, bs, w') \<Longrightarrow>
  length bs \<le> bufsz \<and> (rv = mqtt_err MQTT_ERROR_SOCKET_ERROR \<or> rv = int (length bs))"
  unfolding bear_recvall_def using bear_records_result by (fastforce simp: Let_def split: if_splits bind_splits)

lemma variants_contract:
  assumes "net_laws N"
  shows "transport_contract (mbedtls_sendall N) (mbedtls_recvall N)" "transport_contract (wolfssl_sendall N) (wolfssl_recvall N)"
    "transport_contract (posix_sendall N) (posix_recvall N)" "transport_contract (windows_sendall N) (windows_recvall N)"
    "transport_contract (bear_sendall B) (bear_recvall B)" "sends_all (posix_sendall N)" "sends_all (windows_sendall N)"
    "sends_all (bear_sendall B)"
proof -
  show "transport_contract (mbedtls_sendall N) (mbedtls_recvall N)"
    using mbedtls_send_result [of N] mbedtls_recv_result [of N] assms
    by (fastforce simp: transport_contract_def mbedtls_sendall_def mbedtls_recvall_def sent_ok_def stored_ok_def)
  show "transport_contract (wolfssl_sendall N) (wolfssl_recvall N)"
    using wolfssl_send_result [of N] wolfssl_recv_result [of N] assms
    by (fastforce simp: transport_contract_def wolfssl_sendall_def wolfssl_recvall_def sent_ok_def stored_ok_def)
  show posix: "sends_all (posix_sendall N)"
    using posix_send_result [of N] assms by (fastforce simp: sends_all_def posix_sendall_def sent_all_def)
  then show "transport_contract (posix_sendall N) (posix_recvall N)"
    using posix_recv_result [of N] by (fastforce simp: transport_contract_def sends_all_def posix_recvall_def stored_ok_def)
  show windows: "sends_all (windows_sendall N)"
    using windows_send_result [of N] assms by (fastforce simp: sends_all_def windows_sendall_def sent_all_def)
  then show "transport_contract (windows_sendall N) (windows_recvall N)"
    using windows_recv_result [of N] by (fastforce simp: transport_contract_def sends_all_def windows_recvall_def stored_ok_def)
  show bear: "sends_all (bear_sendall B)" using bear_send_result [of B] by (fastforce simp: sends_all_def bear_sendall_def)
  then show "transport_contract (bear_sendall B) (bear_recvall B)"
    using bear_recv_result [of B] by (fastforce simp: transport_contract_def sends_all_def)
qed

subsection \<open>Reading always returns\<close>

lemma read_law:
  assumes "net_laws N" and "nt_read N fd n w = (rv, bs, w')"
  shows "length bs \<le> n" "int (length bs) = max 0 rv"
proof -
  have all: "\<forall>fd n w. case nt_read N fd n w of (rv, bs, w') \<Rightarrow> length bs \<le> n \<and> int (length bs) = max 0 rv"
    using assms(1) unfolding net_laws_def by (rule conjunct2)
  from all [rule_format, of n fd w] show "length bs \<le> n" "int (length bs) = max 0 rv" using assms(2) by simp_all
qed

lemma mbedtls_recv_returns:
  assumes "net_laws N"
  shows "\<exists>r. mbedtls_recv_loop N fd bufsz got w = Some r"
  using assms
proof (induction bufsz arbitrary: got w rule: less_induct)
  case (less bufsz)
  obtain rv new w1 where rd: "nt_read N fd bufsz w = (rv, new, w1)" by (metis prod_cases3)
  note law = read_law [OF less.prems(1) rd]
  have "\<exists>r. mbedtls_recv_loop N fd (bufsz - length new) (got @ new) w1 = Some r" if "rv > 0" "bufsz - length new > 0"
    using that law less.prems by (intro less.IH) auto
  then show ?case by (subst mbedtls_recv_loop.simps) (use rd law less.prems in \<open>auto simp: Let_def\<close>)
qed

lemma wolfssl_recv_returns:
  assumes "net_laws N" and "bufsz < 2 ^ 31"
  shows "\<exists>r. wolfssl_recv_loop N fd bufsz got w = Some r"
  using assms
proof (induction bufsz arbitrary: got w rule: less_induct)
  case (less bufsz)
  obtain rv new w1 where rd: "nt_read N fd bufsz w = (rv, new, w1)" by (metis prod_cases3)
  note law = read_law [OF less.prems(1) rd]
  have "\<exists>r. wolfssl_recv_loop N fd (bufsz - length new) (got @ new) w1 = Some r" if "rv > 0" "bufsz - length new > 0"
    using that law less.prems by (intro less.IH) auto
  then show ?case by (subst wolfssl_recv_loop.simps) (use rd law less.prems in \<open>auto simp: Let_def\<close>)
qed

lemma posix_recv_returns:
  assumes "net_laws N"
  shows "\<exists>r. posix_recv_loop N fd bufsz got w = Some r"
  using assms
proof (induction bufsz arbitrary: got w rule: less_induct)
  case (less bufsz)
  obtain rv new w1 where rd: "nt_read N fd bufsz w = (rv, new, w1)" by (metis prod_cases3)
  note law = read_law [OF less.prems(1) rd]
  have "\<exists>r. posix_recv_loop N fd (bufsz - length new) (got @ new) w1 = Some r" if "rv > 0" "bufsz - length new > 0"
    using that law less.prems by (intro less.IH) auto
  then show ?case by (subst posix_recv_loop.simps) (use rd law less.prems in \<open>auto simp: Let_def\<close>)
qed

lemma windows_recv_returns:
  assumes "net_laws N"
  shows "\<exists>r. windows_recv_loop N fd bufsz got w = Some r"
  using assms
proof (induction bufsz arbitrary: got w rule: less_induct)
  case (less bufsz)
  obtain rv new w1 where rd: "nt_read N fd bufsz w = (rv, new, w1)" by (metis prod_cases3)
  note law = read_law [OF less.prems(1) rd]
  have "\<exists>r. windows_recv_loop N fd (bufsz - length new) (got @ new) w1 = Some r" if "rv > 0" "bufsz - length new > 0"
    using that law less.prems by (intro less.IH) auto
  then show ?case by (subst windows_recv_loop.simps) (use rd law less.prems in \<open>auto simp: Let_def\<close>)
qed

text \<open>All variants, the one that the program is built with first.\<close>

lemma bio_contract:
  assumes "bio_laws E"
  shows "transport_contract (mqtt_pal_sendall E) (mqtt_pal_recvall E)" "sends_all (mqtt_pal_sendall E)"
proof -
  show all: "sends_all (mqtt_pal_sendall E)" unfolding sends_all_def using mqtt_pal_sendall_result [OF assms] by blast
  have "length bs \<le> n \<and> (rv = mqtt_err MQTT_ERROR_SOCKET_ERROR \<or> rv = int (length bs))"
    if "mqtt_pal_recvall E fd n w = Some (rv, bs, w')" for fd n w rv bs w'
    using mqtt_pal_recvall_result [OF that] by blast
  with all show "transport_contract (mqtt_pal_sendall E) (mqtt_pal_recvall E)"
    unfolding transport_contract_def sends_all_def by (metis of_nat_0_le_iff order_refl)
qed

lemma variants_return:
  assumes "net_laws N"
  shows "\<exists>r. mbedtls_recvall N fd n w = Some r" "n < 2 ^ 31 \<Longrightarrow> \<exists>r. wolfssl_recvall N fd n w = Some r"
    "\<exists>r. posix_recvall N fd n w = Some r" "\<exists>r. windows_recvall N fd n w = Some r"
  unfolding mbedtls_recvall_def wolfssl_recvall_def posix_recvall_def windows_recvall_def
  by (rule mbedtls_recv_returns [OF assms] wolfssl_recv_returns [OF assms] posix_recv_returns [OF assms]
      windows_recv_returns [OF assms] | assumption)+

text \<open>Over BearSSL a read moves at most one record, so it comes back if the socket stores no more than there is room for.\<close>

definition bear_laws :: "'w bearssl \<Rightarrow> bool" where
  "bear_laws B \<longleftrightarrow> (\<forall>n w. case low_read B n w of (rc, bs, w') \<Rightarrow> length bs \<le> n)"

lemma bear_recv_returns:
  assumes "bear_laws B"
  shows "\<exists>r. bear_recvall B fd bufsz w = Some r"
proof -
  have "\<exists>r. do_rec_data B status w = Some r" for status
    using assms [unfolded bear_laws_def, rule_format, of "br_recvrec_buf B w" w]
    by (auto simp: do_rec_data_def Let_def split: prod.splits)
  then obtain rc status w1 where "bear_records B (br_current_state B w) w = Some (rc, status, w1)"
    unfolding bear_records_def by (metis (no_types, lifting) bind.bind_lunit case_prod_conv surj_pair)
  then show ?thesis by (simp add: bear_recvall_def Let_def)
qed

text \<open>Over a BIO that has nothing and asks for a retry that is not a read, the loop of a read does not end.\<close>

lemma recvall_loop_spins:
  assumes stuck: "\<And>w. fst (bio_read env fd bufsz w) = [] \<and> bio_should_retry env fd (snd (bio_read env fd bufsz w)) \<and>
      \<not> bio_should_read env fd (snd (bio_read env fd bufsz w))"
    and "0 < bufsz"
  shows "recvall_loop env fd bufsz got w = None"
proof (rule ccontr)
  assume "recvall_loop env fd bufsz got w \<noteq> None"
  then obtain r where ret: "recvall_loop env fd bufsz got w = Some r" by blast
  have "\<not> (env = env \<and> fd = fd \<and> bufsz = bufsz)"
  proof (rule recvall_loop.raw_induct [where P = "\<lambda>e d n got w r. \<not> (e = env \<and> d = fd \<and> n = bufsz)", OF _ ret], goal_cases)
    case (1 f e d n got w r)
    show ?case
    proof
      assume same: "e = env \<and> d = fd \<and> n = bufsz"
      obtain w1 where "bio_read e d n w = ([], w1)" "bio_should_retry e d w1" "\<not> bio_should_read e d w1"
        using stuck [of w] same by (metis prod.collapse)
      with 1(2) same assms(2) have "f e d n got w1 = Some r" by (simp add: Let_def)
      from 1(1) [OF this] same show False by simp
    qed
  qed
  then show False by simp
qed

end
