(* ===== verification/Mqtt_Properties.thy ===== *)
theory Mqtt_Properties
  imports Mqtt_Recv Mqtt_Pal_Variants
begin

text \<open>
  The properties of the MQTT client, each with a witness on a concrete client: requests, traffic, the
  wire format, the queue and the transport.
\<close>

section \<open>A client to apply the properties to\<close>

text \<open>
  A client with a send buffer of 256 bytes and a receive buffer of 64, connected and with an empty
  queue, and a world with a clock that stands still, a socket that takes everything and has nothing
  to read.
\<close>

definition blank_client :: mqtt_client where
  "blank_client = \<lparr>cl_socketfd = 0, cl_pid_lfsr = 0, cl_keep_alive = 0, cl_number_of_keep_alives = 0,
     cl_send_offset = 0, cl_time_of_last_send = 0, cl_error = 0, cl_response_timeout = 0,
     cl_number_of_timeouts = 0, cl_typical_response_time = RespUnset, cl_publish_response_callback = 0,
     cl_inspector_callback = None, cl_reconnect_callback = None, cl_reconnect_state = 0,
     cl_recv_buffer = \<lparr>rb_mem = None, rb_curr = 0, rb_curr_sz = 0\<rparr>, cl_mutex = False,
     cl_mq = \<lparr>mq_set_up = False, mq_mem = [], mq_curr = 0, mq_curr_sz = 0, mq_queue = [],
       mq_slot = (\<lambda>_. \<lparr>qm_start = 0, qm_size = 0, qm_state = MQTT_QUEUED_UNSENT, qm_time_sent = 0,
         qm_control_type = MQTT_CONTROL_RESERVED_0, qm_packet_id = 0\<rparr>)\<rparr>\<rparr>"

definition example_client :: mqtt_client where
  "example_client = (mqtt_reinit blank_client 3 (Some (replicate 256 0)) (replicate 64 0))
     \<lparr>cl_error := mqtt_err MQTT_OK\<rparr>"

definition example_env :: "nat mqtt_env" where
  "example_env = \<lparr>pal_time = (\<lambda>w. (int w, w)), bio_write = (\<lambda>fd bs w. (int (length bs), w)),
     bio_read = (\<lambda>fd n w. ([], w)), bio_should_retry = (\<lambda>fd w. True), bio_should_read = (\<lambda>fd w. True),
     publish_callback = (\<lambda>cb mem p w. Suc w)\<rparr>"

lemma example_client_ok:
  "cl_ok 256 example_client" "\<not> cl_mutex example_client" "cl_error example_client = 1"
  "cl_view example_client = []" "recv_inv 256 example_client" "client_inv 256 example_client"
proof -
  show ok: "cl_ok 256 example_client" and v: "cl_view example_client = []"
    using mqtt_reinit_ok(1,2) [where sendbuf = "replicate 256 0" and cl = blank_client and fd = 3 and recvbuf = "replicate 64 0"]
    by (simp_all add: example_client_def)
  show "\<not> cl_mutex example_client" "cl_error example_client = 1"
    by (simp_all add: example_client_def mqtt_reinit_def blank_client_def)
  have "cl_send_offset example_client = 0" by (simp add: example_client_def mqtt_reinit_def blank_client_def)
  with ok v show ci: "client_inv 256 example_client" by (simp add: client_inv_def)
  have "recv_ok (cl_recv_buffer example_client)" by (simp add: example_client_def mqtt_reinit_def)
  with ci show "recv_inv 256 example_client" by (simp add: recv_inv_def)
qed

lemma example_env_laws: "bio_laws example_env" "bio_unblocks example_env (\<lambda>_. 0)"
  by (auto simp: bio_laws_def bio_unblocks_def example_env_def)

lemma max_sendbuf_256: "256 < max_sendbuf"
  by (simp add: max_sendbuf_def sizeof_queued_message_def)

lemma example_publish_length [simp]:
  "length (publish_packet [0x61, 0x2F] pid [1, 2, 3] 3 2) = 11"
  by (simp add: publish_packet_def header_bytes_def publish_header_def publish_body_def varint.simps
      mqtt_packed_cstrlen_def flag_defs)

lemma example_room [simp]: "n \<le> 216 \<Longrightarrow> make_room 256 [] n = Some []"
  by (simp add: make_room_def queue_space_def sizeof_queued_message_def)

text \<open>The same client with two QoS 2 PUBLISH packets of two bytes in the queue, and a PUBREC.\<close>

definition example_message :: "nat \<Rightarrow> nat \<Rightarrow> MQTTControlPacketType \<Rightarrow> u16 \<Rightarrow> mqtt_queued_message" where
  "example_message start n ctype pid = \<lparr>qm_start = start, qm_size = n, qm_state = MQTT_QUEUED_UNSENT,
     qm_time_sent = 0, qm_control_type = ctype, qm_packet_id = pid\<rparr>"

definition example_queue :: mqtt_message_queue where
  "example_queue = \<lparr>mq_set_up = True, mq_mem = [0x34, 0, 0x34, 0, 0x50, 2, 0, 9] @ replicate 248 0, mq_curr = 8,
     mq_curr_sz = 88, mq_queue = [example_message 0 2 MQTT_CONTROL_PUBLISH 7,
       example_message 2 2 MQTT_CONTROL_PUBLISH 8, example_message 4 4 MQTT_CONTROL_PUBREC 9],
     mq_slot = (\<lambda>_. example_message 0 0 MQTT_CONTROL_RESERVED_0 0)\<rparr>"

definition example_busy :: mqtt_client where
  "example_busy = example_client\<lparr>cl_mq := example_queue\<rparr>"

lemma example_queue_view:
  "mq_view example_queue =
     [\<lparr>en_bytes = [0x34, 0], en_state = MQTT_QUEUED_UNSENT, en_type = MQTT_CONTROL_PUBLISH, en_pid = 7, en_time = 0\<rparr>,
      \<lparr>en_bytes = [0x34, 0], en_state = MQTT_QUEUED_UNSENT, en_type = MQTT_CONTROL_PUBLISH, en_pid = 8, en_time = 0\<rparr>,
      \<lparr>en_bytes = [0x50, 2, 0, 9], en_state = MQTT_QUEUED_UNSENT, en_type = MQTT_CONTROL_PUBREC, en_pid = 9, en_time = 0\<rparr>]"
  by (simp add: mq_view_def example_queue_def example_message_def entry_of_def)

lemma example_busy_ok:
  "mq_ok 256 example_queue" "client_inv 256 example_busy" "recv_inv 256 example_busy" "\<not> cl_mutex example_busy"
  "cl_view example_busy = mq_view example_queue" "cl_error example_busy = 1"
proof -
  show ok: "mq_ok 256 example_queue"
    by (simp add: mq_ok_def mq_wf_def example_queue_def example_message_def mqtt_mq_length_def
        mqtt_mq_currsz_def sizeof_queued_message_def)
  then show inv: "client_inv 256 example_busy"
    using example_client_ok(6)
    by (simp add: client_inv_def example_busy_def example_queue_view sendable_def sendable_types_def)
  then show "recv_inv 256 example_busy"
    using example_client_ok(5) by (simp add: recv_inv_def example_busy_def)
  show "\<not> cl_mutex example_busy" "cl_view example_busy = mq_view example_queue" "cl_error example_busy = 1"
    using example_client_ok(2,3) by (simp_all add: example_busy_def)
qed

lemma example_time: "pal_time example_env w = (int w, w)"
  by (simp add: example_env_def)

lemma example_sendall: "mqtt_pal_sendall example_env fd bs w = Some (int (length bs), w)"
proof -
  have stop: "sendall_loop example_env fd bs (length bs) w = Some (int (length bs), w)"
    by (subst sendall_loop.simps) simp
  show ?thesis
  proof (cases "bs = []")
    case True
    with stop show ?thesis by (simp add: mqtt_pal_sendall_def)
  next
    case False
    then show ?thesis unfolding mqtt_pal_sendall_def
      by (subst sendall_loop.simps) (use stop in \<open>simp add: example_env_def\<close>)
  qed
qed

section \<open>Requests\<close>

text \<open>
  C1. \<open>mqtt_publish\<close> on a client that is not in an error state returns with the mutex free, and has
  put exactly the PUBLISH packet of its arguments, unsent, behind the queue, under a packet id that
  no queued message has; nothing that was still to be sent or acknowledged is lost or reordered. If
  there is no room even after cleaning, it returns the error and enters that error state.
\<close>

theorem publish_queues_packet:
  assumes "cl_ok M cl" and "M < max_sendbuf" and "\<not> cl_mutex cl" and "0 \<le> cl_error cl"
    and "length topic < 2 ^ 16" and "msz \<le> length msg" and "mqtt_packed_cstrlen topic + 2 + msz < 2 ^ 28"
    and "drop_bit 1 (flags AND MQTT_PUBLISH_QOS_MASK) \<noteq> 3"
  shows "\<exists>pid rv cl'. mqtt_publish cl (Some topic) msg msz flags = Some (rv, cl') \<and>
    pid \<noteq> 0 \<and> pid \<notin> en_pid ` set (cl_view cl) \<and> cl_ok M cl' \<and> \<not> cl_mutex cl' \<and>
    (case make_room M (cl_view cl) (length (publish_packet topic pid msg msz flags)) of
       Some kept \<Rightarrow> rv = mqtt_err MQTT_OK \<and> cl_error cl' = cl_error cl \<and>
         unfinished kept = unfinished (cl_view cl) \<and>
         (\<exists>e. cl_view cl' = kept @ [e] \<and> en_bytes e = publish_packet topic pid msg msz flags \<and>
           en_state e = MQTT_QUEUED_UNSENT \<and> en_type e = MQTT_CONTROL_PUBLISH \<and> en_pid e = pid)
     | None \<Rightarrow> rv = mqtt_err MQTT_ERROR_SEND_BUFFER_IS_FULL \<and> cl_error cl' = rv \<and>
         unfinished (cl_view cl') = unfinished (cl_view cl))"
proof -
  have "publish_args_ok topic msg msz" using assms(5-7) by (simp add: publish_args_ok_def)
  from mqtt_publish_stored [OF assms(1-4) this assms(8)] obtain pid rv cl' where
    "pid \<noteq> 0" "pid \<notin> en_pid ` set (cl_view cl)" "mqtt_publish cl (Some topic) msg msz flags = Some (rv, cl')"
    and st: "stored M True MQTT_CONTROL_PUBLISH (Some pid) (publish_packet topic pid msg msz flags)
      (cl\<lparr>cl_mutex := True, cl_pid_lfsr := pid\<rparr>) rv cl'" by blast
  then show ?thesis
    by (intro exI [of _ pid] exI [of _ rv] exI [of _ cl'])
      (auto simp: stored_def request_entry_def dest: make_room_cleaned cleaned_unfinished
        split: option.splits simp del: mqtt_err.simps)
qed

theorem publish_queues_packet_witness:
  "\<exists>pid rv cl'. mqtt_publish example_client (Some [0x61, 0x2F]) [1, 2, 3] 3 2 = Some (rv, cl') \<and>
    pid \<noteq> 0 \<and> rv = mqtt_err MQTT_OK \<and>
    (\<exists>e. cl_view cl' = [e] \<and> en_bytes e = publish_packet [0x61, 0x2F] pid [1, 2, 3] 3 2 \<and> en_pid e = pid)"
proof -
  have "\<exists>pid rv cl'. mqtt_publish example_client (Some [0x61, 0x2F]) [1, 2, 3] 3 2 = Some (rv, cl') \<and>
    pid \<noteq> 0 \<and> pid \<notin> en_pid ` set (cl_view example_client) \<and> cl_ok 256 cl' \<and> \<not> cl_mutex cl' \<and>
    (case make_room 256 (cl_view example_client) (length (publish_packet [0x61, 0x2F] pid [1, 2, 3] 3 2)) of
       Some kept \<Rightarrow> rv = mqtt_err MQTT_OK \<and> cl_error cl' = cl_error example_client \<and>
         unfinished kept = unfinished (cl_view example_client) \<and>
         (\<exists>e. cl_view cl' = kept @ [e] \<and> en_bytes e = publish_packet [0x61, 0x2F] pid [1, 2, 3] 3 2 \<and>
           en_state e = MQTT_QUEUED_UNSENT \<and> en_type e = MQTT_CONTROL_PUBLISH \<and> en_pid e = pid)
     | None \<Rightarrow> rv = mqtt_err MQTT_ERROR_SEND_BUFFER_IS_FULL \<and> cl_error cl' = rv \<and>
         unfinished (cl_view cl') = unfinished (cl_view example_client))"
    by (rule publish_queues_packet)
      (use example_client_ok max_sendbuf_256 in \<open>simp_all add: mqtt_packed_cstrlen_def flag_defs\<close>)
  then show ?thesis unfolding example_client_ok(4) example_publish_length
    by (auto simp del: mqtt_err.simps)
qed

text \<open>
  C2. A request with any arguments its packer can be called with, in any state of the client, has a
  defined result, releases the mutex if it is to, changes nothing but the queue, the error and the
  mutex, and keeps every message that is not complete, in order. It returns MQTT_OK exactly when a
  new unsent message of its control type stands at the end, and otherwise the negative error that
  the client is then in.
\<close>

theorem submit_keeps_unfinished:
  assumes "cl_ok M cl" and "\<And>buf. packer_safe (pack (Some buf)) buf" and "release \<Longrightarrow> cl_mutex cl"
  shows "\<exists>rv cl'. submit release pack ctype packet_id cl = Some (rv, cl') \<and> cl_ok M cl' \<and>
    cl' = cl\<lparr>cl_mq := cl_mq cl', cl_error := cl_error cl', cl_mutex := cl_mutex cl \<and> \<not> release\<rparr> \<and>
    (if rv = mqtt_err MQTT_OK
     then cl_error cl' = cl_error cl \<and> (\<exists>e. unfinished (cl_view cl') = unfinished (cl_view cl) @ [e] \<and>
       last (cl_view cl') = e \<and> en_state e = MQTT_QUEUED_UNSENT \<and> en_type e = ctype)
     else rv < 0 \<and> cl_error cl' = rv \<and> unfinished (cl_view cl') = unfinished (cl_view cl))"
proof -
  obtain rv cl' where sub: "submit release pack ctype packet_id cl = Some (rv, cl')"
    and out: "submitted M release ctype packet_id cl rv cl'"
    using submit_safe [where pack = pack, OF assms] by blast
  have mutex: "cl_mutex cl' = (cl_mutex cl \<and> \<not> release)" and step: "queue_step cl cl'"
    using out by (simp_all add: submitted_def)
  have "cl' = cl\<lparr>cl_mq := cl_mq cl', cl_error := cl_error cl', cl_mutex := cl_mutex cl \<and> \<not> release\<rparr>"
    using step [unfolded queue_step_def] unfolding mutex .
  with sub out show ?thesis
    by (intro exI [of _ rv] exI [of _ cl'])
      (auto simp: submitted_def cleaned_unfinished request_entry_unfinished request_entry_def
        simp del: mqtt_err.simps)
qed

theorem submit_keeps_unfinished_witness:
  "\<exists>rv cl'. submit False mqtt_pack_ping_request MQTT_CONTROL_PINGREQ None example_client = Some (rv, cl') \<and>
    cl_ok 256 cl'"
  using submit_keeps_unfinished [where pack = mqtt_pack_ping_request and release = False
      and ctype = MQTT_CONTROL_PINGREQ and packet_id = None, OF example_client_ok(1) packs_safe [OF ping_packs]]
  by blast

text \<open>
  C5. \<open>__mqtt_next_pid\<close> always returns: as long as fewer than 65535 messages are queued, its loop ends
  with an id that is not zero and that no queued message has.
\<close>

theorem next_pid_terminates_fresh:
  assumes "mq_set_up (cl_mq cl)" and "mqtt_mq_length (cl_mq cl) < 65535"
  shows "\<exists>pid. mqtt_next_pid cl = Some (pid, cl\<lparr>cl_pid_lfsr := pid\<rparr>) \<and> pid \<noteq> 0 \<and>
    (\<forall>m \<in> set (mq_queue (cl_mq cl)). qm_packet_id m \<noteq> pid)"
  using next_pid_fresh [of "mq_queue (cl_mq cl)" "cl_pid_lfsr cl"] assms
  by (fastforce simp: mqtt_next_pid_def mqtt_mq_length_def)

theorem next_pid_terminates_fresh_witness:
  "\<exists>pid. mqtt_next_pid example_client = Some (pid, example_client\<lparr>cl_pid_lfsr := pid\<rparr>) \<and> pid \<noteq> 0"
  using next_pid_terminates_fresh [of example_client] example_client_ok(1,4)
  by (auto simp: mq_ok_def mq_wf_def simp flip: length_mq_view)

text \<open>
  C27. The shift register has the full period: started at any value but zero it shows all 65535 of
  them before it repeats the first.
\<close>

theorem pid_generator_full_period:
  assumes "x \<noteq> 0"
  shows "(lfsr_step ^^ 65535) x = x \<and> (\<forall>d. 0 < d \<and> d < 65535 \<longrightarrow> (lfsr_step ^^ d) x \<noteq> x)"
  using lfsr_period lfsr_full_period [OF assms] by blast

theorem pid_generator_full_period_witness: "(lfsr_step ^^ 2) 163 \<noteq> 163"
  using pid_generator_full_period [of 163] by simp

text \<open>
  \<open>mqtt_connect\<close> runs with the mutex held and releases it; it takes a client that has been
  initialised out of the state in which CONNECT has not been called, and queues the CONNECT packet
  of its arguments if there is room.
\<close>

theorem connect_queues_packet:
  assumes "cl_ok M cl" and "cl_mutex cl" and "cl_error cl = mqtt_err MQTT_ERROR_CONNECT_NOT_CALLED"
    and "cid \<noteq> [] \<or> flags AND MQTT_CONNECT_CLEAN_SESSION \<noteq> 0"
    and "length cid < 2 ^ 16" and "\<forall>u. user = Some u \<longrightarrow> length u < 2 ^ 16"
    and "\<forall>p. password = Some p \<longrightarrow> length p < 2 ^ 16"
    and "\<forall>w. will = Some w \<longrightarrow> length (fst w) < 2 ^ 16 \<and> flags AND 0x18 \<noteq> 0x18"
    and "length (connect_body cid will user password flags keep_alive) < 2 ^ 28"
  shows "\<exists>rv cl'. mqtt_connect cl (Some cid) (map_option fst will) (map_option snd will)
      (case will of None \<Rightarrow> 0 | Some (t, m) \<Rightarrow> length m) user password flags keep_alive = Some (rv, cl') \<and>
    cl_ok M cl' \<and> \<not> cl_mutex cl' \<and> cl_keep_alive cl' = keep_alive \<and>
    (case make_room M (cl_view cl) (length (connect_packet cid will user password flags keep_alive)) of
       Some kept \<Rightarrow> rv = mqtt_err MQTT_OK \<and> cl_error cl' = mqtt_err MQTT_OK \<and>
         (\<exists>e. cl_view cl' = kept @ [e] \<and> en_bytes e = connect_packet cid will user password flags keep_alive \<and>
           en_state e = MQTT_QUEUED_UNSENT \<and> en_type e = MQTT_CONTROL_CONNECT)
     | None \<Rightarrow> rv = mqtt_err MQTT_ERROR_SEND_BUFFER_IS_FULL \<and> cl_error cl' = rv)"
proof -
  obtain rv cl' where c: "mqtt_connect cl (Some cid) (map_option fst will) (map_option snd will)
      (case will of None \<Rightarrow> 0 | Some (t, m) \<Rightarrow> length m) user password flags keep_alive = Some (rv, cl')"
    and st: "stored M True MQTT_CONTROL_CONNECT None (connect_packet cid will user password flags keep_alive)
      (connect_started cl keep_alive) rv cl'"
    using mqtt_connect_stored [OF assms(1,2) disjI1 [OF assms(3)] assms(4-9)] by blast
  have "queue_step (connect_started cl keep_alive) cl'" using st by (simp add: stored_def)
  then have "cl_keep_alive cl' = keep_alive"
    by (cases cl, cases cl') (simp add: queue_step_def connect_started_def)
  with c st assms(3) show ?thesis
    by (auto simp: stored_def connect_started_def request_entry_def split: option.splits simp del: mqtt_err.simps)
qed

theorem connect_queues_packet_witness:
  "\<exists>rv cl'. mqtt_connect (example_client\<lparr>cl_mutex := True, cl_error := mqtt_err MQTT_ERROR_CONNECT_NOT_CALLED\<rparr>)
      (Some [0x61]) None None 0 None None 2 60 = Some (rv, cl') \<and> \<not> cl_mutex cl' \<and> cl_keep_alive cl' = 60"
  using connect_queues_packet [of 256
      "example_client\<lparr>cl_mutex := True, cl_error := mqtt_err MQTT_ERROR_CONNECT_NOT_CALLED\<rparr>"
      "[0x61]" 2 None None None 60] example_client_ok(1)
  by (auto simp: connect_body_def mqtt_packed_cstrlen_def opt_str_def simp del: mqtt_err.simps)

text \<open>
  \<open>mqtt_subscribe\<close> queues the SUBSCRIBE packet of its topic under a fresh packet id.
\<close>

theorem subscribe_queues_packet:
  assumes "cl_ok M cl" and "M < max_sendbuf" and "\<not> cl_mutex cl" and "0 \<le> cl_error cl"
    and "length topic < 2 ^ 16"
  shows "\<exists>pid rv cl'. mqtt_subscribe cl (Some topic) qos = Some (rv, cl') \<and>
    pid \<noteq> 0 \<and> pid \<notin> en_pid ` set (cl_view cl) \<and> cl_ok M cl' \<and> \<not> cl_mutex cl' \<and>
    (case make_room M (cl_view cl) (length (subscribe_packet pid [(topic, ucast qos)])) of
       Some kept \<Rightarrow> rv = mqtt_err MQTT_OK \<and> cl_error cl' = cl_error cl \<and>
         (\<exists>e. cl_view cl' = kept @ [e] \<and> en_bytes e = subscribe_packet pid [(topic, ucast qos)] \<and>
           request_entry e MQTT_CONTROL_SUBSCRIBE (Some pid))
     | None \<Rightarrow> rv = mqtt_err MQTT_ERROR_SEND_BUFFER_IS_FULL \<and> cl_error cl' = rv \<and>
         unfinished (cl_view cl') = unfinished (cl_view cl))"
proof -
  from mqtt_subscribe_stored [OF assms, of qos] obtain pid rv cl' where
    "pid \<noteq> 0" "pid \<notin> en_pid ` set (cl_view cl)" "mqtt_subscribe cl (Some topic) qos = Some (rv, cl')"
    and st: "stored M True MQTT_CONTROL_SUBSCRIBE (Some pid) (subscribe_packet pid [(topic, ucast qos)])
      (cl\<lparr>cl_mutex := True, cl_pid_lfsr := pid\<rparr>) rv cl'" by blast
  then show ?thesis
    by (intro exI [of _ pid] exI [of _ rv] exI [of _ cl'])
      (auto simp: stored_def split: option.splits simp del: mqtt_err.simps)
qed

theorem subscribe_queues_packet_witness:
  "\<exists>pid rv cl'. mqtt_subscribe example_client (Some [0x61]) 1 = Some (rv, cl') \<and> pid \<noteq> (0 :: u16) \<and> \<not> cl_mutex cl'"
  using subscribe_queues_packet [of 256 example_client "[0x61]" 1] example_client_ok max_sendbuf_256
  by fastforce

text \<open>
  \<open>mqtt_unsubscribe\<close> does the same with the UNSUBSCRIBE packet (on one thread: it draws the packet
  id before it takes the mutex).
\<close>

theorem unsubscribe_queues_packet:
  assumes "cl_ok M cl" and "M < max_sendbuf" and "\<not> cl_mutex cl" and "0 \<le> cl_error cl"
    and "length topic < 2 ^ 16"
  shows "\<exists>pid rv cl'. mqtt_unsubscribe cl (Some topic) = Some (rv, cl') \<and>
    pid \<noteq> 0 \<and> pid \<notin> en_pid ` set (cl_view cl) \<and> cl_ok M cl' \<and> \<not> cl_mutex cl' \<and>
    (case make_room M (cl_view cl) (length (unsubscribe_packet pid [topic])) of
       Some kept \<Rightarrow> rv = mqtt_err MQTT_OK \<and> cl_error cl' = cl_error cl \<and>
         (\<exists>e. cl_view cl' = kept @ [e] \<and> en_bytes e = unsubscribe_packet pid [topic] \<and>
           request_entry e MQTT_CONTROL_UNSUBSCRIBE (Some pid))
     | None \<Rightarrow> rv = mqtt_err MQTT_ERROR_SEND_BUFFER_IS_FULL \<and> cl_error cl' = rv \<and>
         unfinished (cl_view cl') = unfinished (cl_view cl))"
proof -
  from mqtt_unsubscribe_stored [OF assms] obtain pid rv cl' where
    "pid \<noteq> 0" "pid \<notin> en_pid ` set (cl_view cl)" "mqtt_unsubscribe cl (Some topic) = Some (rv, cl')"
    and st: "stored M True MQTT_CONTROL_UNSUBSCRIBE (Some pid) (unsubscribe_packet pid [topic])
      (cl\<lparr>cl_pid_lfsr := pid, cl_mutex := True\<rparr>) rv cl'" by blast
  then show ?thesis
    by (intro exI [of _ pid] exI [of _ rv] exI [of _ cl'])
      (auto simp: stored_def split: option.splits simp del: mqtt_err.simps)
qed

theorem unsubscribe_queues_packet_witness:
  "\<exists>pid rv cl'. mqtt_unsubscribe example_client (Some [0x61]) = Some (rv, cl') \<and> pid \<noteq> (0 :: u16) \<and> \<not> cl_mutex cl'"
  using unsubscribe_queues_packet [of 256 example_client "[0x61]"] example_client_ok max_sendbuf_256
  by fastforce

text \<open>
  \<open>mqtt_reconnect\<close> queues a DISCONNECT packet and, if that succeeds, asks \<open>mqtt_sync\<close> for a
  reconnection; the mutex is free afterwards.
\<close>

theorem reconnect_requests_disconnect:
  assumes "cl_ok M cl" and "\<not> cl_mutex cl" and "0 \<le> cl_error cl"
  shows "\<exists>rv cl'. mqtt_reconnect cl = Some (rv, cl') \<and> cl_ok M cl' \<and> \<not> cl_mutex cl' \<and>
    cl_error cl' = (if rv = mqtt_err MQTT_OK then mqtt_err MQTT_ERROR_RECONNECTING
      else mqtt_err MQTT_ERROR_SEND_BUFFER_IS_FULL)"
  by (rule mqtt_reconnect_outcome [OF assms])

theorem reconnect_requests_disconnect_witness:
  "\<exists>rv cl'. mqtt_reconnect example_client = Some (rv, cl') \<and> \<not> cl_mutex cl'"
  using reconnect_requests_disconnect [OF example_client_ok(1,2)] example_client_ok(3) by auto

section \<open>Traffic\<close>








text \<open>
  C7. A pass never sends a QoS 2 PUBLISH while an earlier one in the queue is not complete: the later
  packet stays as it is.
\<close>

theorem one_qos2_in_flight:
  assumes "bio_laws env" and "bio_unblocks env blocked" and "client_inv M cl"
    and "send_loop env [0..<mqtt_mq_length (cl_mq cl)] False cl w = Some (None, cl', w')"
    and "j < i" and "i < mqtt_mq_length (cl_mq cl)"
    and "qos2_pending (cl_view cl ! j)" and "qos2_pending (cl_view cl ! i)"
  shows "cl_view cl' ! i = cl_view cl ! i"
proof -
  have inv: "cl_ok M cl" "\<forall>e \<in> set (cl_view cl). sendable e" "cl_send_offset cl = 0"
    using assms(3) by (simp_all add: client_inv_def)
  have "send_loop_result M env 0 False cl w None cl' w'"
    using send_loop_ok [OF assms(1,2) inv, of 0 "mqtt_mq_length (cl_mq cl)" False w] assms(4) by simp
  then have pass: "queue_pass env (cl_socketfd cl) (cl_response_timeout cl) False (cl_view cl)
      (cl_time_of_last_send cl, w) (cl_view cl') (cl_time_of_last_send cl', w') False"
    by (simp add: send_loop_result_def)
  then obtain s1 s2 where "message_pass env (cl_socketfd cl) (cl_response_timeout cl)
      (\<exists>j < i. qos2_pending (cl_view cl ! j)) (cl_view cl ! i) s1 (cl_view cl' ! i) s2"
    using queue_pass_nth [OF pass, of i] assms(6) by auto
  moreover have "\<exists>j < i. qos2_pending (cl_view cl ! j)" using assms(5,7) by blast
  ultimately show ?thesis using assms(8) by (simp add: message_pass_def message_due_def)
qed

theorem one_qos2_in_flight_witness:
  "\<exists>cl' w'. send_loop example_env [0..<3] False example_busy 5 = Some (None, cl', w') \<and>
    cl_view cl' ! 1 = cl_view example_busy ! 1"
proof -
  have len: "mqtt_mq_length (cl_mq example_busy) = 3"
    by (simp add: example_busy_def example_queue_def mqtt_mq_length_def)
  have q: "qos2_pending (cl_view example_busy ! 0)" "qos2_pending (cl_view example_busy ! 1)"
    by (simp_all add: example_busy_ok(5) example_queue_view qos2_pending_def complete_def publish_qos_def)
  have inv: "cl_ok 256 example_busy" "\<forall>e \<in> set (cl_view example_busy). sendable e" "cl_send_offset example_busy = 0"
    using example_busy_ok(2) by (simp_all add: client_inv_def)
  have "\<exists>cl' w'. send_loop example_env [0..<mqtt_mq_length (cl_mq example_busy)] False example_busy 5 = Some (None, cl', w')"
    unfolding len
    by (simp add: upt_rec send_message_def send_due_def qos2_gate_def example_sendall mark_sent_def
        example_busy_def example_queue_def example_message_def example_client_def mqtt_reinit_def blank_client_def
        mq_update_def mem_block_def example_time Let_def flag_defs)
  then obtain cl' w' where loop: "send_loop example_env [0..<mqtt_mq_length (cl_mq example_busy)] False example_busy 5 = Some (None, cl', w')"
    by blast
  have "cl_view cl' ! 1 = cl_view example_busy ! 1"
    by (rule one_qos2_in_flight [OF example_env_laws example_busy_ok(2) loop _ _ q]) (simp_all add: len)
  with loop show ?thesis unfolding len by blast
qed

text \<open>
  C8. A PUBLISH from the broker is delivered to the application exactly once it has been answered: at
  QoS 0 at once, at QoS 1 when its PUBACK and at QoS 2 when its PUBREC is queued. If the reply finds
  no room it is not delivered and the client is in the error state; a QoS 2 message for which the
  queue holds a PUBREC is not delivered and changes nothing.
\<close>

theorem publish_delivered_when_answered:
  assumes "client_inv M cl" and "qos_level p \<noteq> 0 \<Longrightarrow> \<exists>i. publish_packet_id p = Some i"
  shows "\<exists>rv cl' w'. recv_publish env mem p cl w = Some (rv, cl', w') \<and> client_inv M cl' \<and>
    cl_mutex cl' = cl_mutex cl \<and>
    (if qos_level p = 2 \<and> (\<exists>e \<in> set (cl_view cl). en_type e = MQTT_CONTROL_PUBREC \<and> publish_packet_id p = Some (en_pid e))
     then rv = mqtt_err MQTT_OK \<and> cl' = cl \<and> w' = w
     else w' = (if rv = mqtt_err MQTT_OK
          then publish_callback env (cl_publish_response_callback cl) mem p w else w) \<and>
       (case publish_reply p of
          None \<Rightarrow> rv = mqtt_err MQTT_OK \<and> cl' = cl
        | Some ctype \<Rightarrow> reply_outcome M (cl_view cl) (cl_error cl) ctype (the (publish_packet_id p)) rv cl'))"
proof -
  obtain rv cl' w' where r: "recv_publish env mem p cl w = Some (rv, cl', w')" "client_inv M cl'" "recv_frame cl cl'"
    and out: "publish_received M env mem p cl w rv cl' w'"
    using recv_publish_ok [OF assms, of env mem w] by blast
  have "publish_duplicate (cl_view cl) p \<longleftrightarrow> qos_level p = 2 \<and>
      (\<exists>e \<in> set (cl_view cl). en_type e = MQTT_CONTROL_PUBREC \<and> publish_packet_id p = Some (en_pid e))"
  proof (cases "qos_level p = 2")
    case True
    then obtain i where "publish_packet_id p = Some i" using assms(2) by auto
    then show ?thesis by (auto simp: publish_duplicate_def matches_def)
  qed (simp add: publish_duplicate_def)
  with r out recv_frame_fields [OF r(3)] show ?thesis
    unfolding publish_received_def by (intro exI [of _ rv] exI [of _ cl'] exI [of _ w']) simp
qed

definition example_publish :: "u8 \<Rightarrow> u16 \<Rightarrow> mqtt_response_publish" where
  "example_publish qos pid = \<lparr>dup_flag = 0, qos_level = qos, retain_flag = 0, topic_name_size = 1, topic_name = 4,
     publish_packet_id = (if qos = 0 then None else Some pid), application_message = 5, application_message_size = 0\<rparr>"

theorem publish_delivered_when_answered_witness:
  "\<exists>rv cl' w'. recv_publish example_env [] (example_publish 2 9) example_busy 5 = Some (rv, cl', w') \<and> w' = 5"
proof -
  have "qos_level (example_publish 2 9) \<noteq> 0 \<Longrightarrow> \<exists>i. publish_packet_id (example_publish 2 9) = Some i"
    by (simp add: example_publish_def)
  from publish_delivered_when_answered [OF example_busy_ok(2) this, of example_env "[]" 5]
  show ?thesis unfolding example_busy_ok(5) example_queue_view
    by (auto simp: example_publish_def simp del: mqtt_err.simps)
qed

text \<open>
  C9. The sending side of a QoS 2 exchange: PUBREC completes the first PUBLISH that has its packet id
  and stages a PUBREL with that id; a PUBREC whose PUBREL is already in the queue changes nothing,
  and one of no PUBLISH is an error.
\<close>

theorem pubrec_releases_publish:
  assumes "client_inv M cl"
  shows "\<exists>rv cl' w'. recv_pubrec env pid cl w = Some (rv, cl', w') \<and> client_inv M cl' \<and> cl_mutex cl' = cl_mutex cl \<and>
    (if \<exists>e \<in> set (cl_view cl). en_type e = MQTT_CONTROL_PUBREL \<and> en_pid e = pid
     then rv = mqtt_err MQTT_OK \<and> cl' = cl
     else case ack_first (\<lambda>e. en_type e = MQTT_CONTROL_PUBLISH \<and> en_pid e = pid) (cl_view cl) of
        None \<Rightarrow> rv = mqtt_err MQTT_ERROR_ACK_OF_UNKNOWN \<and> cl_error cl' = rv \<and> cl_view cl' = cl_view cl
      | Some es \<Rightarrow> reply_outcome M es (cl_error cl) MQTT_CONTROL_PUBREL pid rv cl')"
proof -
  obtain rv cl' w' where r: "recv_pubrec env pid cl w = Some (rv, cl', w')" "client_inv M cl'" "recv_frame cl cl'"
    and out: "if \<exists>e \<in> set (cl_view cl). matches MQTT_CONTROL_PUBREL (Some pid) e
     then rv = mqtt_err MQTT_OK \<and> cl' = cl
     else exchange_outcome M (matches MQTT_CONTROL_PUBLISH (Some pid)) MQTT_CONTROL_PUBREL pid cl rv cl'"
    using recv_pubrec_ok [OF assms, of env pid w] by blast
  have m: "matches ctype (Some pid) = (\<lambda>e. en_type e = ctype \<and> en_pid e = pid)" for ctype
    by (simp add: matches_def fun_eq_iff)
  from r out recv_frame_fields [OF r(3)] show ?thesis
    unfolding exchange_outcome_def m by (intro exI [of _ rv] exI [of _ cl'] exI [of _ w'] conjI) simp_all
qed

theorem pubrec_releases_publish_witness:
  "\<exists>rv cl' w'. recv_pubrec example_env 7 example_busy 5 = Some (rv, cl', w') \<and> client_inv 256 cl'"
  using pubrec_releases_publish [OF example_busy_ok(2), of example_env 7 5] by blast

text \<open>
  The receiving side of a QoS 2 exchange: PUBREL completes the PUBREC that has its packet id and
  stages a PUBCOMP with that id.
\<close>

theorem pubrel_releases_pubrec:
  assumes "client_inv M cl"
  shows "\<exists>rv cl' w'. recv_pubrel env pid cl w = Some (rv, cl', w') \<and> client_inv M cl' \<and> cl_mutex cl' = cl_mutex cl \<and>
    (case ack_first (\<lambda>e. en_type e = MQTT_CONTROL_PUBREC \<and> en_pid e = pid) (cl_view cl) of
        None \<Rightarrow> rv = mqtt_err MQTT_ERROR_ACK_OF_UNKNOWN \<and> cl_error cl' = rv \<and> cl_view cl' = cl_view cl
      | Some es \<Rightarrow> reply_outcome M es (cl_error cl) MQTT_CONTROL_PUBCOMP pid rv cl')"
proof -
  obtain rv cl' w' where r: "recv_pubrel env pid cl w = Some (rv, cl', w')" "client_inv M cl'" "recv_frame cl cl'"
    and out: "exchange_outcome M (matches MQTT_CONTROL_PUBREC (Some pid)) MQTT_CONTROL_PUBCOMP pid cl rv cl'"
    using recv_pubrel_ok [OF assms, of env pid w] by blast
  have m: "matches ctype (Some pid) = (\<lambda>e. en_type e = ctype \<and> en_pid e = pid)" for ctype
    by (simp add: matches_def fun_eq_iff)
  from r out recv_frame_fields [OF r(3)] show ?thesis
    unfolding exchange_outcome_def m by (intro exI [of _ rv] exI [of _ cl'] exI [of _ w'] conjI) simp_all
qed

theorem pubrel_releases_pubrec_witness:
  "\<exists>rv cl' w'. recv_pubrel example_env 9 example_busy 5 = Some (rv, cl', w') \<and> client_inv 256 cl'"
  using pubrel_releases_pubrec [OF example_busy_ok(2), of example_env 9 5] by blast

text \<open>
  The other acknowledgements complete the first packet of their kind with their packet id (for
  a PINGRESP: the first ping that is not complete) and nothing else; one of no packet is an error
  and leaves the queue as it is.
\<close>

theorem ack_completes_first_match:
  assumes "client_inv M cl"
  shows "\<exists>rv cl' w'. recv_ack env ctype packet_id cl w = Some (rv, cl', w') \<and> client_inv M cl' \<and>
    cl_mutex cl' = cl_mutex cl \<and>
    (case ack_first (matches ctype packet_id) (cl_view cl) of
       None \<Rightarrow> rv = mqtt_err MQTT_ERROR_ACK_OF_UNKNOWN \<and> cl_error cl' = rv \<and> cl_view cl' = cl_view cl
     | Some es \<Rightarrow> rv = mqtt_err MQTT_OK \<and> cl_error cl' = cl_error cl \<and> cl_view cl' = es)"
  using recv_ack_ok [OF assms, of env ctype packet_id w] recv_frame_fields [of cl] by metis

theorem ack_completes_first_match_witness:
  "\<exists>rv cl' w'. recv_ack example_env MQTT_CONTROL_PUBLISH (Some 8) example_busy 5 = Some (rv, cl', w') \<and>
    rv = mqtt_err MQTT_OK \<and> cl_view cl' = [cl_view example_busy ! 0,
      (cl_view example_busy ! 1)\<lparr>en_state := MQTT_QUEUED_COMPLETE\<rparr>, cl_view example_busy ! 2]"
  using ack_completes_first_match [OF example_busy_ok(2), of example_env MQTT_CONTROL_PUBLISH "Some 8" 5]
  unfolding example_busy_ok(5) example_queue_view by (auto simp: matches_def simp del: mqtt_err.simps)

text \<open>
  CONNACK completes the first CONNECT that is not complete; a refusal is an error of the client,
  of its own when the client id was rejected.
\<close>

theorem connack_outcome:
  assumes "client_inv M cl"
  shows "\<exists>rv cl' w'. recv_connack env code cl w = Some (rv, cl', w') \<and> client_inv M cl' \<and>
    (case ack_first (\<lambda>e. en_type e = MQTT_CONTROL_CONNECT \<and> \<not> complete e) (cl_view cl) of
       None \<Rightarrow> rv = mqtt_err MQTT_ERROR_ACK_OF_UNKNOWN \<and> cl_error cl' = rv \<and> cl_view cl' = cl_view cl
     | Some es \<Rightarrow> cl_view cl' = es \<and>
         (if code = MQTT_CONNACK_ACCEPTED then rv = mqtt_err MQTT_OK \<and> cl_error cl' = cl_error cl
          else if code = MQTT_CONNACK_REFUSED_IDENTIFIER_REJECTED
          then rv = mqtt_err MQTT_ERROR_CONNECT_CLIENT_ID_REFUSED \<and> cl_error cl' = rv
          else rv = mqtt_err MQTT_ERROR_CONNECTION_REFUSED \<and> cl_error cl' = rv))"
proof -
  have m: "matches MQTT_CONTROL_CONNECT None = (\<lambda>e. en_type e = MQTT_CONTROL_CONNECT \<and> \<not> complete e)"
    by (simp add: matches_def fun_eq_iff)
  from recv_connack_ok [OF assms, of env code w] obtain rv cl' w' where
    "recv_connack env code cl w = Some (rv, cl', w')" "client_inv M cl'"
    "case ack_first (matches MQTT_CONTROL_CONNECT None) (cl_view cl) of
       None \<Rightarrow> rv = mqtt_err MQTT_ERROR_ACK_OF_UNKNOWN \<and> cl_error cl' = rv \<and> cl_view cl' = cl_view cl
     | Some es \<Rightarrow> rv = mqtt_err (connack_error code) \<and> cl_view cl' = es \<and>
         cl_error cl' = (if code = MQTT_CONNACK_ACCEPTED then cl_error cl else rv)" by blast
  then show ?thesis unfolding m
    by (intro exI [of _ rv] exI [of _ cl'] exI [of _ w'])
      (auto simp: connack_error_def split: option.splits if_splits simp del: mqtt_err.simps)
qed

theorem connack_outcome_witness:
  "\<exists>rv cl' w'. recv_connack example_env MQTT_CONNACK_ACCEPTED example_busy 5 = Some (rv, cl', w') \<and>
    rv = mqtt_err MQTT_ERROR_ACK_OF_UNKNOWN"
  using connack_outcome [OF example_busy_ok(2), of example_env MQTT_CONNACK_ACCEPTED 5]
  unfolding example_busy_ok(5) example_queue_view by (auto simp del: mqtt_err.simps)

text \<open>
  SUBACK completes the first SUBSCRIBE that has its packet id; the failure code of the broker is
  an error of the client.
\<close>

theorem suback_outcome:
  assumes "client_inv M cl" and "return_codes s < length mem"
  shows "\<exists>rv cl' w'. recv_suback env mem s cl w = Some (rv, cl', w') \<and> client_inv M cl' \<and>
    (case ack_first (\<lambda>e. en_type e = MQTT_CONTROL_SUBSCRIBE \<and> en_pid e = suback_packet_id s) (cl_view cl) of
       None \<Rightarrow> rv = mqtt_err MQTT_ERROR_ACK_OF_UNKNOWN \<and> cl_error cl' = rv \<and> cl_view cl' = cl_view cl
     | Some es \<Rightarrow> cl_view cl' = es \<and>
         (if mem ! return_codes s = MQTT_SUBACK_FAILURE
          then rv = mqtt_err MQTT_ERROR_SUBSCRIBE_FAILED \<and> cl_error cl' = rv
          else rv = mqtt_err MQTT_OK \<and> cl_error cl' = cl_error cl))"
proof -
  have m: "matches MQTT_CONTROL_SUBSCRIBE (Some (suback_packet_id s)) =
      (\<lambda>e. en_type e = MQTT_CONTROL_SUBSCRIBE \<and> en_pid e = suback_packet_id s)"
    by (simp add: matches_def fun_eq_iff)
  from recv_suback_ok [OF assms, of env w] show ?thesis unfolding m by blast
qed

theorem suback_outcome_witness:
  "\<exists>rv cl' w'. recv_suback example_env [0x90, 3, 0, 9, 0x80]
      \<lparr>suback_packet_id = 9, return_codes = 4, num_return_codes = 1\<rparr> example_busy 5 = Some (rv, cl', w') \<and>
    rv = mqtt_err MQTT_ERROR_ACK_OF_UNKNOWN \<and> cl_view cl' = cl_view example_busy"
  using suback_outcome [OF example_busy_ok(2), of
      "\<lparr>suback_packet_id = 9, return_codes = 4, num_return_codes = 1\<rparr>" "[0x90, 3, 0, 9, 0x80]" example_env 5]
  unfolding example_busy_ok(5) example_queue_view by (auto simp del: mqtt_err.simps)

text \<open>
  C4. One pass of the receive loop stays inside the receive buffer and the queue, whatever bytes the
  broker sends, provided that a PUBLISH packet whose fixed header has arrived is as long as its own
  topic name says: it has a defined result, and the client is set up for the next one.
\<close>

theorem receive_pass_memory_safe:
  assumes "bio_laws env" and "bio_unblocks env blocked" and "recv_inv M cl"
    and "\<And>m rv bs w1. rb_mem (cl_recv_buffer cl) = Some m \<Longrightarrow>
      mqtt_pal_recvall env (cl_socketfd cl) (rb_curr_sz (cl_recv_buffer cl)) w = Some (rv, bs, w1) \<Longrightarrow>
      response_fits r (overwrite m (rb_curr (cl_recv_buffer cl)) bs) (rb_curr (cl_recv_buffer cl) + length bs)"
  shows "\<exists>out r' cl' w'. recv_one env r cl w = Some (out, r', cl', w') \<and> recv_inv M cl' \<and>
    cl_mutex cl' = cl_mutex cl"
proof -
  have "\<exists>out r' cl' w'. recv_one env r cl w = Some (out, r', cl', w')"
    by (rule recv_one_safe [OF assms(1-3)]) (rule assms(4))
  then obtain out r' cl' w' where one: "recv_one env r cl w = Some (out, r', cl', w')" by blast
  with recv_one_inv [OF assms(3) one] show ?thesis by blast
qed

lemma example_recvall: "mqtt_pal_recvall example_env fd n w = Some (0, [], w)"
  unfolding mqtt_pal_recvall_def by (subst recvall_loop.simps) (simp add: example_env_def)

definition example_response :: mqtt_response where
  "example_response = \<lparr>fixed_header = \<lparr>control_type = MQTT_CONTROL_RESERVED_0, control_flags = 0,
     remaining_length = 0\<rparr>, decoded = Undecoded\<rparr>"

text \<open>A broker that sends a QoS 0 PUBLISH with the topic \<open>a\<close> and one byte.\<close>

definition sending_env :: "nat mqtt_env" where
  "sending_env = example_env\<lparr>bio_read := (\<lambda>fd n w. (take n [0x30, 4, 0, 1, 0x61, 0x62], w))\<rparr>"

lemma sending_env_laws: "bio_laws sending_env" "bio_unblocks sending_env (\<lambda>_. 0)"
  by (auto simp: bio_laws_def bio_unblocks_def example_env_def sending_env_def)

lemma sending_recvall: "mqtt_pal_recvall sending_env fd 64 w = Some (6, [0x30, 4, 0, 1, 0x61, 0x62], w)"
  unfolding mqtt_pal_recvall_def by (subst recvall_loop.simps) (simp add: sending_env_def example_env_def)

theorem receive_pass_memory_safe_witness:
  "\<exists>out r' cl' w'. recv_one sending_env example_response example_client 5 = Some (out, r', cl', w') \<and>
    recv_inv 256 cl'"
proof -
  have buf: "rb_curr (cl_recv_buffer example_client) = 0" "rb_curr_sz (cl_recv_buffer example_client) = 64"
    "rb_mem (cl_recv_buffer example_client) = Some (replicate 64 0)"
    by (simp_all add: example_client_def mqtt_reinit_def fresh_recv_buffer_def)
  let ?h = "\<lparr>control_type = MQTT_CONTROL_PUBLISH, control_flags = 0, remaining_length = 4\<rparr>"
  let ?m = "overwrite (replicate 64 0) 0 [0x30, 4, 0, 1, 0x61, 0x62 :: u8]"
  have h: "header_valid ?h" "header_bytes ?h = [0x30, 4]"
    by (simp_all add: header_valid_def mqtt_fixed_header_rule_violation_def header_bytes_def varint.simps)
  have m: "take (Suc (Suc 0)) ?m = [0x30, 4 :: u8]" "peek ?m 2 = Some 0" "peek ?m 3 = Some 1"
    by (simp_all add: overwrite_def peek_def)
  have "mqtt_unpack_fixed_header (Some (fixed_header example_response)) (Some ?m) 6 = Some (2, Some ?h)"
    using mqtt_unpack_fixed_header_bytes [OF h(1), of ?m 6 "fixed_header example_response"] m(1) by (simp add: h(2))
  then have fits: "response_fits example_response ?m 6"
    using m by (simp add: response_fits_def publish_fits_def mqtt_unpack_uint16_def)
  have "\<exists>out r' cl' w'. recv_one sending_env example_response example_client 5 = Some (out, r', cl', w') \<and>
      recv_inv 256 cl' \<and> cl_mutex cl' = cl_mutex example_client"
  proof (rule receive_pass_memory_safe [OF sending_env_laws example_client_ok(5)])
    fix m rv bs w1
    assume "rb_mem (cl_recv_buffer example_client) = Some m"
      and "mqtt_pal_recvall sending_env (cl_socketfd example_client) (rb_curr_sz (cl_recv_buffer example_client)) 5 = Some (rv, bs, w1)"
    then have "m = replicate 64 0" "bs = [0x30, 4, 0, 1, 0x61, 0x62]" by (simp_all add: buf sending_recvall)
    with fits show "response_fits example_response (overwrite m (rb_curr (cl_recv_buffer example_client)) bs)
        (rb_curr (cl_recv_buffer example_client) + length bs)" by (simp add: buf numeral_eq_Suc)
  qed
  then show ?thesis by blast
qed

text \<open>
  C3. \<open>mqtt_sync\<close> keeps the client set up and leaves the mutex free on every return, errors and
  reconnection included, if the callbacks keep their part: the reconnect callback sets the client up
  and releases the mutex it got locked, the inspector keeps both.
\<close>

theorem sync_preserves_client:
  assumes "bio_laws env" and "bio_unblocks env blocked" and "callback_laws M inspector reconnect"
    and "recv_inv M cl \<or> cl_error cl \<noteq> mqtt_err MQTT_OK \<and>
      cl_error cl \<noteq> mqtt_err MQTT_ERROR_RECONNECTING \<and> cl_reconnect_callback cl \<noteq> None"
    and "mqtt_sync env inspector reconnect response cl w = Some (rv, cl', w')"
  shows "recv_inv M cl' \<and> \<not> cl_mutex cl'"
  by (rule mqtt_sync_inv [OF assms])

text \<open>The callbacks of the example: the inspector does nothing, the reconnect callback starts anew.\<close>

definition example_inspector :: "nat \<Rightarrow> mqtt_client \<Rightarrow> nat \<Rightarrow> (int \<times> mqtt_client \<times> nat) option" where
  "example_inspector cb cl w = Some (mqtt_err MQTT_OK, cl, w)"

definition example_reconnect :: "nat \<Rightarrow> mqtt_client \<Rightarrow> nat \<Rightarrow> (mqtt_client \<times> nat) option" where
  "example_reconnect cb cl w = Some (example_client, w)"

theorem sync_preserves_client_witness:
  "\<exists>rv cl' w'. mqtt_sync example_env example_inspector example_reconnect example_response
      (example_client\<lparr>cl_error := mqtt_err MQTT_ERROR_SOCKET_ERROR, cl_reconnect_callback := Some 1\<rparr>) 5 =
        Some (rv, cl', w') \<and> recv_inv 256 cl' \<and> \<not> cl_mutex cl'"
proof -
  let ?cl = "example_client\<lparr>cl_error := mqtt_err MQTT_ERROR_SOCKET_ERROR, cl_reconnect_callback := Some 1\<rparr>"
  have laws: "callback_laws 256 example_inspector example_reconnect"
    using example_client_ok(2,5) by (simp add: callback_laws_def example_inspector_def example_reconnect_def)
  have insp: "cl_inspector_callback example_client = None"
    and err: "cl_error example_client = mqtt_err MQTT_OK"
    by (simp_all add: example_client_def mqtt_reinit_def blank_client_def)
  have one: "recv_one example_env example_response (example_client\<lparr>cl_mutex := True\<rparr>) 5 =
      Some (Some (mqtt_err MQTT_OK), example_response, example_client\<lparr>cl_mutex := True\<rparr>, 5)"
    by (simp add: recv_one_def example_recvall example_client_def mqtt_reinit_def fresh_recv_buffer_def
        rb_store_def mqtt_unpack_response_def mqtt_unpack_fixed_header_def example_response_def Let_def
        del: mqtt_err.simps)
  have recv: "mqtt_recv example_env example_response example_client 5 = Some (mqtt_err MQTT_OK, example_client, 5)"
  proof -
    have "recv_loop example_env example_response (example_client\<lparr>cl_mutex := True\<rparr>) 5 =
        Some (mqtt_err MQTT_OK, example_client\<lparr>cl_mutex := True\<rparr>, 5)"
      by (subst recv_loop.simps) (simp add: one del: mqtt_err.simps)
    then show ?thesis using example_client_ok(2)
      by (cases example_client) (simp add: mqtt_recv_def mutex_lock_def mutex_unlock_def)
  qed
  obtain rv cl' w' where "mqtt_send example_env example_client 5 = Some (rv, cl', w')"
    using mqtt_send_inv [OF example_env_laws example_client_ok(5,2)] by blast
  then have "mqtt_sync example_env example_inspector example_reconnect example_response ?cl 5 = Some (rv, cl', w')"
    using example_client_ok(2) insp recv
    by (simp add: mqtt_sync_def mutex_lock_def sync_start_def example_reconnect_def sync_inspect_def
        sync_finish_def)
  with sync_preserves_client [OF example_env_laws laws _ this] show ?thesis by auto
qed

section \<open>Wire format\<close>

text \<open>
  A PUBLISH with fewer than four bytes behind its fixed header is refused, although it may be valid at
  QoS 0: the check for four bytes counts a packet id that such a packet does not have.
\<close>

lemma publish_short_unpack:
  assumes pkt: "mem_block m 0 (length (publish_packet topic pid msg msz flags)) = Some (publish_packet topic pid msg msz flags)"
    and size: "mqtt_packed_cstrlen topic + 2 + msz < 2 ^ 28" "msz \<le> length msg"
    and short: "length (publish_body topic pid msg msz flags) < 4"
  shows "\<exists>r'. mqtt_unpack_response r (Some m) (length (publish_packet topic pid msg msz flags)) =
    Some (mqtt_err MQTT_ERROR_MALFORMED_RESPONSE, r')"
proof -
  let ?h = "publish_header topic msz flags" and ?pkt = "publish_packet topic pid msg msz flags"
  note ok = publish_header_ok(1) [OF size, of flags] publish_header_ok(2) [OF size, of pid flags]
  have len: "length ?pkt = length (header_bytes ?h) + unat (remaining_length ?h)"
    using ok(2) by (simp add: publish_packet_def)
  have m: "length ?pkt \<le> length m" "take (length ?pkt) m = ?pkt"
    using pkt by (auto simp: mem_block_def split: if_splits)
  have "take (length (header_bytes ?h)) m = take (length (header_bytes ?h)) (take (length ?pkt) m)" by (simp add: len)
  also have "\<dots> = header_bytes ?h" unfolding m(2) by (simp add: publish_packet_def)
  finally have "mqtt_unpack_fixed_header (Some (fixed_header r)) (Some m) (length ?pkt) =
      Some (int (length (header_bytes ?h)), Some ?h)"
    using mqtt_unpack_fixed_header_bytes [OF ok(1), of m "length ?pkt" "fixed_header r"] m(1) len by simp
  moreover have "0 < length (header_bytes ?h)" by (simp add: header_bytes_def)
  moreover have "mqtt_unpack_publish_response (r\<lparr>fixed_header := ?h\<rparr>) m (length (header_bytes ?h)) =
      Some (mqtt_err MQTT_ERROR_MALFORMED_RESPONSE, r\<lparr>fixed_header := ?h\<rparr>)"
    by (rule publish_short_rejected) (use short ok(2) in simp)
  moreover have "control_type ?h = MQTT_CONTROL_PUBLISH" by (simp add: publish_header_def Let_def)
  ultimately show ?thesis
    using mqtt_err_neg [of MQTT_ERROR_MALFORMED_RESPONSE]
    by (simp add: mqtt_unpack_response_def unpack_by_type_def del: mqtt_err.simps)
qed

text \<open>
  C25. \<open>mqtt_pack_publish_request\<close> writes a PUBLISH into a buffer with room for it and leaves the rest of
  the buffer alone. If the packet has at least four bytes after its fixed header, \<open>mqtt_unpack_response\<close>
  reads back what was packed: the packet length, the topic, the payload, the QoS level and the packet id.
  A shorter one, which can only be a QoS 0 PUBLISH with at most one byte of topic and payload together,
  it refuses as malformed.
\<close>

theorem publish_pack_unpack:
  assumes "length topic < 2 ^ 16" and "msz \<le> length msg" and "mqtt_packed_cstrlen topic + 2 + msz < 2 ^ 28"
    and "drop_bit 1 (flags AND MQTT_PUBLISH_QOS_MASK) \<noteq> 3"
    and "length (publish_packet topic pid msg msz flags) \<le> length buf"
  shows "\<exists>rv buf' r'. mqtt_pack_publish_request (Some buf) (Some topic) pid msg msz flags = Some (rv, buf') \<and>
    0 < rv \<and> length buf' = length buf \<and> drop (nat rv) buf' = drop (nat rv) buf \<and>
    (if 4 \<le> length (publish_body topic pid msg msz flags)
     then mqtt_unpack_response r (Some buf') (nat rv) = Some (rv, r') \<and>
       (\<exists>p. decoded r' = Publish p \<and>
         mem_block buf' (topic_name p) (unat (topic_name_size p)) = Some topic \<and>
         mem_block buf' (application_message p) (application_message_size p) = Some (take msz msg) \<and>
         qos_level p = drop_bit 1 (flags AND MQTT_PUBLISH_QOS_MASK) \<and>
         publish_packet_id p = (if qos_level p = 0 then None else Some pid))
     else mqtt_unpack_response r (Some buf') (nat rv) = Some (mqtt_err MQTT_ERROR_MALFORMED_RESPONSE, r'))"
proof -
  let ?pkt = "publish_packet topic pid msg msz flags" and ?buf = "overwrite buf 0 (publish_packet topic pid msg msz flags)"
  let ?n = "nat (int (length ?pkt))"
  have pack: "mqtt_pack_publish_request (Some buf) (Some topic) pid msg msz flags = Some (int (length ?pkt), ?buf)"
    using publish_packs [OF assms(1-4), of buf pid] assms(5) by (simp add: packs_def)
  have block: "mem_block ?buf 0 (length ?pkt) = Some ?pkt"
    using assms(5) by (intro mem_block_overwrite) simp
  have frame: "0 < int (length ?pkt)" "length ?buf = length buf" "drop ?n ?buf = drop ?n buf"
    using assms(5) by (simp_all add: overwrite_def)
  have "\<exists>r'. if 4 \<le> length (publish_body topic pid msg msz flags)
     then mqtt_unpack_response r (Some ?buf) ?n = Some (int (length ?pkt), r') \<and>
       (\<exists>p. decoded r' = Publish p \<and>
         mem_block ?buf (topic_name p) (unat (topic_name_size p)) = Some topic \<and>
         mem_block ?buf (application_message p) (application_message_size p) = Some (take msz msg) \<and>
         qos_level p = drop_bit 1 (flags AND MQTT_PUBLISH_QOS_MASK) \<and>
         publish_packet_id p = (if qos_level p = 0 then None else Some pid))
     else mqtt_unpack_response r (Some ?buf) ?n = Some (mqtt_err MQTT_ERROR_MALFORMED_RESPONSE, r')"
  proof (cases "4 \<le> length (publish_body topic pid msg msz flags)")
    case True
    from publish_roundtrip [OF block order.refl _ refl assms(1-3) this, of r] assms(5) True
    show ?thesis by fastforce
  next
    case False
    with publish_short_unpack [OF block assms(3,2), of r] show ?thesis by (simp del: mqtt_err.simps)
  qed
  with pack frame show ?thesis by blast
qed

theorem publish_pack_unpack_witness:
  "(\<exists>rv buf' p r'. mqtt_pack_publish_request (Some (replicate 20 0)) (Some [0x61, 0x2F]) 7 [1, 2, 3] 3 2 = Some (rv, buf') \<and>
    mqtt_unpack_response example_response (Some buf') (nat rv) = Some (rv, r') \<and> decoded r' = Publish p \<and>
    publish_packet_id p = Some 7) \<and>
   (\<exists>rv buf' r'. mqtt_pack_publish_request (Some (replicate 20 0)) (Some [0x61]) 7 [] 0 0 = Some (rv, buf') \<and>
    mqtt_unpack_response example_response (Some buf') (nat rv) = Some (mqtt_err MQTT_ERROR_MALFORMED_RESPONSE, r'))"
proof -
  have short: "length (publish_packet [0x61] 7 [] 0 0) = 5" "length (publish_body [0x61] 7 [] 0 0) = 3"
    by (simp_all add: publish_packet_def header_bytes_def publish_header_def publish_body_def varint.simps
        mqtt_packed_cstrlen_def flag_defs)
  show ?thesis
    using publish_pack_unpack [of "[0x61, 0x2F]" 3 "[1, 2, 3]" 2 7 "replicate 20 0" example_response]
      publish_pack_unpack [of "[0x61]" 0 "[]" 0 7 "replicate 20 0" example_response] short
    by (auto simp: mqtt_packed_cstrlen_def flag_defs publish_body_def simp del: mqtt_err.simps)
qed

text \<open>
  The unpacker refuses a PUBLISH with QoS 0, a topic of one character and no payload, a packet
  that the packer writes and the protocol allows: its check for four bytes counts a packet id that a
  QoS 0 packet does not have.
\<close>

theorem short_publish_refused:
  "\<exists>buf r'. mqtt_pack_publish_request (Some [0, 0, 0, 0, 0, 0, 0, 0]) (Some [c]) pid [] 0 0 = Some (5, buf) \<and>
    take 5 buf = [0x30, 3, 0, 1, c] \<and>
    mqtt_unpack_response r (Some buf) 5 = Some (mqtt_err MQTT_ERROR_MALFORMED_RESPONSE, r')"
proof -
  let ?h = "\<lparr>control_type = MQTT_CONTROL_PUBLISH, control_flags = 0, remaining_length = 3\<rparr>"
  let ?buf = "[0x30, 3, 0, 1, c, 0, 0, 0]"
  have pkt: "publish_packet [c] pid [] 0 0 = [0x30, 3, 0, 1, c]"
    by (simp add: publish_packet_def header_bytes_def publish_header_def publish_body_def varint.simps
        mqtt_packed_cstrlen_def flag_defs str_bytes_def uint16_bytes_def)
  have "mqtt_pack_publish_request (Some [0, 0, 0, 0, 0, 0, 0, 0]) (Some [c]) pid [] 0 0 = Some (5, ?buf)"
    using publish_packs [of "[c]" 0 "[]" 0 "[0, 0, 0, 0, 0, 0, 0, 0]" pid]
    by (simp add: packs_def pkt flag_defs mqtt_packed_cstrlen_def overwrite_def)
  moreover have h: "header_valid ?h" "header_bytes ?h = [0x30, 3]"
    by (simp_all add: header_valid_def mqtt_fixed_header_rule_violation_def header_bytes_def varint.simps)
  have "mqtt_unpack_fixed_header (Some (fixed_header r)) (Some ?buf) 5 = Some (2, Some ?h)"
    using mqtt_unpack_fixed_header_bytes [OF h(1), of ?buf 5 "fixed_header r"] by (simp add: h(2))
  then have "mqtt_unpack_response r (Some ?buf) 5 =
      Some (mqtt_err MQTT_ERROR_MALFORMED_RESPONSE, r\<lparr>fixed_header := ?h\<rparr>)"
    using publish_short_rejected [of "r\<lparr>fixed_header := ?h\<rparr>" ?buf 2] mqtt_err_neg [of MQTT_ERROR_MALFORMED_RESPONSE]
    by (simp add: mqtt_unpack_response_def unpack_by_type_def del: mqtt_err.simps)
  ultimately show ?thesis by (intro exI [of _ ?buf]) simp
qed

text \<open>
  The acknowledgement packets: what \<open>mqtt_pack_pubxxx_request\<close> writes,
  \<open>mqtt_unpack_response\<close> reads back as the same kind of packet with the same packet id.
\<close>

theorem pubxxx_pack_unpack:
  assumes "ctype \<in> {MQTT_CONTROL_PUBACK, MQTT_CONTROL_PUBREC, MQTT_CONTROL_PUBREL, MQTT_CONTROL_PUBCOMP}"
    and "4 \<le> length buf"
  shows "\<exists>buf' r'. mqtt_pack_pubxxx_request (Some buf) ctype pid = Some (4, buf') \<and>
    mqtt_unpack_response r (Some buf') 4 = Some (4, r') \<and> decoded r' = pubxxx_decoded ctype pid"
proof -
  let ?pkt = "pubxxx_packet ctype pid"
  have len: "length ?pkt = 4" by (simp add: pubxxx_packet_def)
  have pack: "mqtt_pack_pubxxx_request (Some buf) ctype pid = Some (4, overwrite buf 0 ?pkt)"
    using pubxxx_packs [OF assms(1), of buf pid] assms(2) by (simp add: packs_def len)
  have "mem_block (overwrite buf 0 ?pkt) 0 4 = Some ?pkt"
    using mem_block_overwrite [of 0 ?pkt buf] assms(2) by (simp add: len)
  from pubxxx_roundtrip [OF this order.refl _ assms(1), of r] assms(2) len pack show ?thesis by auto
qed

theorem pubxxx_pack_unpack_witness:
  "\<exists>buf' r'. mqtt_pack_pubxxx_request (Some [1, 2, 3, 4]) MQTT_CONTROL_PUBREL 9 = Some (4, buf') \<and>
    mqtt_unpack_response example_response (Some buf') 4 = Some (4, r') \<and> decoded r' = Pubrel 9"
  using pubxxx_pack_unpack [of MQTT_CONTROL_PUBREL "[1, 2, 3, 4]" 9 example_response]
  by (simp add: pubxxx_decoded_def)

text \<open>
  A fixed header that obeys the flag rules and whose remaining length fits its four bytes
  survives packing and unpacking; with the whole packet in the buffer the unpacker returns the
  length of the header, otherwise zero.
\<close>

theorem fixed_header_roundtrip:
  assumes "header_valid h" and "length (header_bytes h) + unat (remaining_length h) \<le> length buf"
    and "length (header_bytes h) \<le> n" and "n \<le> length buf"
  shows "\<exists>rv buf'. mqtt_pack_fixed_header (Some buf) (Some h) = Some (rv, buf') \<and> 2 \<le> rv \<and> rv \<le> 5 \<and>
    mqtt_unpack_fixed_header (Some h0) (Some buf') n =
      Some (if n < nat rv + unat (remaining_length h) then 0 else rv, Some h)"
proof -
  let ?n = "length (header_bytes h)" and ?buf = "overwrite buf 0 (header_bytes h)"
  have le: "?n \<le> length buf" using assms(2) by simp
  have "mqtt_unpack_fixed_header (Some h0) (Some ?buf) n =
      Some (if n < ?n + unat (remaining_length h) then 0 else int ?n, Some h)"
    by (rule mqtt_unpack_fixed_header_bytes [OF assms(1) _ assms(3)])
      (use le assms(4) in \<open>simp_all add: overwrite_def\<close>)
  moreover have "2 \<le> ?n" "?n \<le> 5"
    using length_varint [of "unat (remaining_length h)"] assms(1)
    by (simp_all add: header_valid_def header_bytes_def)
  ultimately show ?thesis
    by (intro exI [of _ "int ?n"] exI [of _ ?buf])
      (simp add: mqtt_pack_fixed_header_fits [OF assms(1,2)])
qed

theorem fixed_header_roundtrip_witness:
  "\<exists>rv buf'. mqtt_pack_fixed_header (Some (replicate 8 0))
      (Some \<lparr>control_type = MQTT_CONTROL_SUBSCRIBE, control_flags = 2, remaining_length = 5\<rparr>) = Some (rv, buf') \<and>
    mqtt_unpack_fixed_header (Some (fixed_header example_response)) (Some buf') 8 =
      Some (rv, Some \<lparr>control_type = MQTT_CONTROL_SUBSCRIBE, control_flags = 2, remaining_length = 5\<rparr>)"
proof -
  let ?h = "\<lparr>control_type = MQTT_CONTROL_SUBSCRIBE, control_flags = 2, remaining_length = 5\<rparr>"
  have h: "header_valid ?h" "length (header_bytes ?h) = 2"
    by (simp_all add: header_valid_def mqtt_fixed_header_rule_violation_def header_bytes_def varint.simps)
  obtain rv buf' where *: "mqtt_pack_fixed_header (Some (replicate 8 0)) (Some ?h) = Some (rv, buf')"
    "mqtt_unpack_fixed_header (Some (fixed_header example_response)) (Some buf') 8 =
      Some (if 8 < nat rv + unat (remaining_length ?h) then 0 else rv, Some ?h)"
    using fixed_header_roundtrip [of ?h "replicate 8 0" 8 "fixed_header example_response", OF h(1)] h(2) by auto
  have "rv = 2" using *(1) mqtt_pack_fixed_header_fits [OF h(1), of "replicate 8 0"] h(2) by simp
  with * show ?thesis by auto
qed

text \<open>
  \<open>mqtt_unpack_response\<close> reads no byte outside the received ones, whatever they are, as long as a
  PUBLISH packet is as long as its own topic name says; the length it reports is that of a packet
  that has arrived whole.
\<close>

theorem unpack_stays_in_buffer:
  assumes "bufsz \<le> length m" and "response_fits r m bufsz"
  shows "\<exists>rv r'. mqtt_unpack_response r (Some m) bufsz = Some (rv, r') \<and> rv \<le> int bufsz"
proof -
  obtain rv r' where u: "mqtt_unpack_response r (Some m) bufsz = Some (rv, r')"
    and len: "0 < rv \<longrightarrow> (\<exists>n. rv = int (n + packet_length (fixed_header r')) \<and>
      n + unat (remaining_length (fixed_header r')) \<le> bufsz)"
    using mqtt_unpack_response_safe [OF assms] by blast
  have "packet_length (fixed_header r') \<le> unat (remaining_length (fixed_header r'))"
    by (simp add: packet_length_def)
  with len have "rv \<le> int bufsz" by (cases "0 < rv") (fastforce, simp)
  with u show ?thesis by blast
qed

theorem unpack_stays_in_buffer_witness:
  "\<exists>rv r'. mqtt_unpack_response example_response (Some [0x20, 2, 0, 0]) 3 = Some (rv, r') \<and> rv \<le> 3"
proof -
  let ?h = "\<lparr>control_type = MQTT_CONTROL_CONNACK, control_flags = 0, remaining_length = 2\<rparr>"
  have h: "header_valid ?h" "header_bytes ?h = [0x20, 2]"
    by (simp_all add: header_valid_def mqtt_fixed_header_rule_violation_def header_bytes_def varint.simps)
  have "response_fits example_response [0x20, 2, 0, 0] 3"
    using mqtt_unpack_fixed_header_bytes [OF h(1), of "[0x20, 2, 0, 0]" 3 "fixed_header example_response"] h(2)
    by (simp add: response_fits_def)
  from unpack_stays_in_buffer [OF _ this] show ?thesis by simp
qed

text \<open>
  C36. Without that proviso the receive loop leaves its buffer: the six bytes of a QoS 0 PUBLISH whose
  topic name claims to be 65535 bytes long make the unpacker report a packet of more than four
  gigabytes, and cleaning the buffer is an access outside it.
\<close>

definition hostile_env :: "nat mqtt_env" where
  "hostile_env = example_env\<lparr>bio_read := (\<lambda>fd n w. (take n [0x30, 4, 0xFF, 0xFF, 0, 0], w))\<rparr>"

theorem publish_topic_length_overrun:
  "\<exists>w1 m r'. mqtt_pal_recvall hostile_env (cl_socketfd example_client) (rb_curr_sz (cl_recv_buffer example_client)) 5 =
      Some (6, [0x30, 4, 0xFF, 0xFF, 0, 0], w1) \<and>
    mqtt_unpack_response example_response (Some ([0x30, 4, 0xFF, 0xFF, 0, 0] @ m)) 6 = Some (2 ^ 32 + 6, r') \<and>
    recv_one hostile_env example_response example_client 5 = None"
proof -
  let ?bytes = "[0x30, 4, 0xFF, 0xFF, 0, 0] :: u8 list" and ?m = "replicate 58 0 :: u8 list"
  let ?h = "\<lparr>control_type = MQTT_CONTROL_PUBLISH, control_flags = 0, remaining_length = 4\<rparr>"
  let ?r = "example_response\<lparr>fixed_header := ?h\<rparr>"
  let ?buf = "0x30 # 4 # 0xFF # 0xFF # 0 # 0 # ?m"
  let ?cl = "example_client\<lparr>cl_recv_buffer := \<lparr>rb_mem = Some ?buf, rb_curr = 6, rb_curr_sz = 58\<rparr>\<rparr>"
  have rb: "cl_recv_buffer example_client = \<lparr>rb_mem = Some (replicate 64 0), rb_curr = 0, rb_curr_sz = 64\<rparr>"
    by (simp add: example_client_def mqtt_reinit_def fresh_recv_buffer_def)
  have rd: "mqtt_pal_recvall hostile_env fd 64 5 = Some (6, ?bytes, 5)" for fd
    unfolding mqtt_pal_recvall_def by (subst recvall_loop.simps) (simp add: hostile_env_def example_env_def)
  have h: "header_valid ?h" "header_bytes ?h = [0x30, 4]"
    by (simp_all add: header_valid_def mqtt_fixed_header_rule_violation_def header_bytes_def varint.simps)
  have hd: "mqtt_unpack_fixed_header (Some (fixed_header example_response)) (Some ?buf) 6 = Some (2, Some ?h)"
    using mqtt_unpack_fixed_header_bytes [OF h(1), of ?buf 6 "fixed_header example_response"] by (simp add: h(2))
  have size: "mqtt_unpack_uint16 ?buf 2 = Some 0xFFFF"
    by (simp add: mqtt_unpack_uint16_def)
  obtain r' where "mqtt_unpack_publish_response ?r ?buf 2 = Some (int (2 ^ 32 + 4), r')"
    using publish_overrun [OF size, of ?r] by (auto simp: flag_defs)
  then have un: "mqtt_unpack_response example_response (Some ?buf) 6 = Some (2 ^ 32 + 6, r')"
    by (simp add: mqtt_unpack_response_def hd unpack_by_type_def)
  have buf: "overwrite (replicate 64 0) 0 ?bytes = ?buf"
    by (simp add: overwrite_def drop_replicate)
  have adv: "rb_advance (length ?bytes) \<lparr>rb_mem = Some ?buf, rb_curr = 0, rb_curr_sz = 64\<rparr> =
      \<lparr>rb_mem = Some ?buf, rb_curr = 6, rb_curr_sz = 58\<rparr>"
    by (simp add: rb_advance_def)
  have split: "recv_one hostile_env example_response example_client 5 =
      recv_rest hostile_env example_response ?cl 5"
    using recv_one_split [of hostile_env example_client 5 6 ?bytes 5 "replicate 64 0" example_response] rd rb adv
    by (simp add: buf del: list.size)
  have "recv_one hostile_env example_response example_client 5 = None"
  proof (rule ccontr)
    assume "recv_one hostile_env example_response example_client 5 \<noteq> None"
    then obtain ret cl' w' rb' where
      h: "handle_response hostile_env r' ?buf ?cl 5 = Some (ret, cl', w')"
      and consume: "rb_consume (nat (2 ^ 32 + 6)) (cl_recv_buffer cl') = Some rb'"
      unfolding split by (auto simp: recv_rest_def Let_def un split: bind_splits)
    have "decoded_ok (length ?buf) r'" by (rule unpack_response_decoded [OF un]) simp_all
    moreover have "client_inv 256 ?cl" using example_client_ok(6) by (simp add: client_inv_def)
    ultimately have "recv_frame ?cl cl'" using handle_response_ok [of 256 ?cl ?buf r' hostile_env 5] h by auto
    then have "rb_curr (cl_recv_buffer cl') = 6" using recv_frame_fields by fastforce
    with consume show False by (simp add: rb_consume_def split: bind_splits)
  qed
  then show ?thesis using rd un rb by auto
qed

text \<open>The handlers on a queue that has, or has not, a PUBREC with the packet id of a message.\<close>

lemma duplicate_changes_nothing:
  assumes "client_inv M cl" and "qos_level p = 2" and "publish_packet_id p = Some (en_pid e)"
    and "e \<in> set (cl_view cl)" and "en_type e = MQTT_CONTROL_PUBREC"
  shows "recv_publish env mem p cl w = Some (mqtt_err MQTT_OK, cl, w)"
proof -
  obtain rv cl' w' where r: "recv_publish env mem p cl w = Some (rv, cl', w')"
    and out: "publish_received M env mem p cl w rv cl' w'"
    using recv_publish_ok [OF assms(1), of p env mem w] assms(3) by blast
  have "publish_duplicate (cl_view cl) p"
    using assms(2-5) by (auto simp: publish_duplicate_def matches_def)
  with r out show ?thesis by (simp add: publish_received_def)
qed

lemma reply_with_room:
  assumes "reply_outcome M es err ctype pid rv cl'" and "0 \<le> err" and "4 \<le> queue_space M es"
  shows "rv = mqtt_err MQTT_OK \<and> cl_error cl' = err \<and>
    (\<exists>e. cl_view cl' = es @ [e] \<and> en_bytes e = pubxxx_packet ctype pid \<and> request_entry e ctype (Some pid))"
  using assms by (simp add: reply_outcome_def make_room_def pubxxx_packet_def del: mqtt_err.simps)

lemma ack_first_last: "\<forall>e \<in> set es. \<not> P e \<Longrightarrow> P e \<Longrightarrow> ack_first P (es @ [e]) = Some (es @ [e\<lparr>en_state := MQTT_QUEUED_COMPLETE\<rparr>])"
  by (induction es) auto

text \<open>
  C37. The receiving side of a QoS 2 exchange, with room in the queue for its two answers. The first
  PUBLISH is delivered and its PUBREC queued; while the PUBREC is there, the same PUBLISH is not delivered
  again. The PUBREL completes the PUBREC and queues the PUBCOMP, which ends the exchange. But the PUBREC stays in
  the queue until the queue is cleaned, and so the next message that uses the packet id, which is free
  again, is neither delivered nor answered.
\<close>

theorem qos2_exchange_then_id_reuse:
  assumes inv: "client_inv M cl" "0 \<le> cl_error cl"
    and p: "qos_level p = 2" "publish_packet_id p = Some pid"
    and new: "\<forall>e \<in> set (cl_view cl). \<not> (en_type e = MQTT_CONTROL_PUBREC \<and> en_pid e = pid)"
    and room: "sizeof_queued_message + 8 \<le> queue_space M (cl_view cl)"
  shows "\<exists>cl1 pubrec. recv_publish env mem p cl w =
      Some (mqtt_err MQTT_OK, cl1, publish_callback env (cl_publish_response_callback cl) mem p w) \<and>
    cl_view cl1 = cl_view cl @ [pubrec] \<and> en_bytes pubrec = pubxxx_packet MQTT_CONTROL_PUBREC pid \<and>
    (\<forall>w1. recv_publish env mem p cl1 w1 = Some (mqtt_err MQTT_OK, cl1, w1)) \<and>
    (\<forall>w1. \<exists>cl2 w2 pubcomp. recv_pubrel env pid cl1 w1 = Some (mqtt_err MQTT_OK, cl2, w2) \<and>
      cl_view cl2 = cl_view cl @ [pubrec\<lparr>en_state := MQTT_QUEUED_COMPLETE\<rparr>, pubcomp] \<and>
      en_bytes pubcomp = pubxxx_packet MQTT_CONTROL_PUBCOMP pid \<and>
      (\<forall>q mem w3. qos_level q = 2 \<longrightarrow> publish_packet_id q = Some pid \<longrightarrow>
        recv_publish env mem q cl2 w3 = Some (mqtt_err MQTT_OK, cl2, w3)))"
proof -
  obtain rv cl1 w' where r: "recv_publish env mem p cl w = Some (rv, cl1, w')" "client_inv M cl1"
    and out: "publish_received M env mem p cl w rv cl1 w'"
    using recv_publish_ok [OF inv(1), of p env mem w] p(2) by blast
  have "\<not> publish_duplicate (cl_view cl) p" using new p by (simp add: publish_duplicate_def matches_def)
  then have "reply_outcome M (cl_view cl) (cl_error cl) MQTT_CONTROL_PUBREC pid rv cl1" and
    w': "w' = (if rv = mqtt_err MQTT_OK then publish_callback env (cl_publish_response_callback cl) mem p w else w)"
    using out p by (simp_all add: publish_received_def publish_reply_def)
  from reply_with_room [OF this(1) inv(2)] room obtain pubrec where 1: "rv = mqtt_err MQTT_OK" "cl_error cl1 = cl_error cl"
    "cl_view cl1 = cl_view cl @ [pubrec]" "en_bytes pubrec = pubxxx_packet MQTT_CONTROL_PUBREC pid"
    "request_entry pubrec MQTT_CONTROL_PUBREC (Some pid)" by auto
  have rec: "en_type pubrec = MQTT_CONTROL_PUBREC" "en_pid pubrec = pid" using 1(5) by (simp_all add: request_entry_def)
  let ?done = "pubrec\<lparr>en_state := MQTT_QUEUED_COMPLETE\<rparr>"
  have ack: "ack_first (matches MQTT_CONTROL_PUBREC (Some pid)) (cl_view cl1) = Some (cl_view cl @ [?done])"
    unfolding 1(3) by (rule ack_first_last) (use new rec in \<open>simp_all add: matches_def\<close>)
  have "length (en_bytes ?done) = 4" by (simp add: 1(4) pubxxx_packet_def)
  then have room2: "4 \<le> queue_space M (cl_view cl @ [?done])"
    using room by (simp add: queue_space_def sizeof_queued_message_def)
  have "\<exists>cl2 w2 pubcomp. recv_pubrel env pid cl1 w1 = Some (mqtt_err MQTT_OK, cl2, w2) \<and>
      cl_view cl2 = cl_view cl @ [?done, pubcomp] \<and> en_bytes pubcomp = pubxxx_packet MQTT_CONTROL_PUBCOMP pid \<and>
      (\<forall>q mem w3. qos_level q = 2 \<longrightarrow> publish_packet_id q = Some pid \<longrightarrow>
        recv_publish env mem q cl2 w3 = Some (mqtt_err MQTT_OK, cl2, w3))" for w1
  proof -
    obtain rv2 cl2 w2 where 2: "recv_pubrel env pid cl1 w1 = Some (rv2, cl2, w2)" "client_inv M cl2"
      and "exchange_outcome M (matches MQTT_CONTROL_PUBREC (Some pid)) MQTT_CONTROL_PUBCOMP pid cl1 rv2 cl2"
      using recv_pubrel_ok [OF r(2), of env pid w1] by blast
    then have "reply_outcome M (cl_view cl @ [?done]) (cl_error cl1) MQTT_CONTROL_PUBCOMP pid rv2 cl2"
      by (simp add: exchange_outcome_def ack)
    from reply_with_room [OF this _ room2] obtain pubcomp where 3: "rv2 = mqtt_err MQTT_OK"
      "cl_view cl2 = cl_view cl @ [?done, pubcomp]" "en_bytes pubcomp = pubxxx_packet MQTT_CONTROL_PUBCOMP pid"
      using inv(2) 1(2) by auto
    have "recv_publish env mem q cl2 w3 = Some (mqtt_err MQTT_OK, cl2, w3)"
      if "qos_level q = 2" "publish_packet_id q = Some pid" for q mem w3
      by (rule duplicate_changes_nothing [OF 2(2) that(1), where e = ?done]) (use that(2) 3(2) rec in simp_all)
    with 2(1) 3 show ?thesis by (intro exI [of _ cl2] exI [of _ w2] exI [of _ pubcomp]) simp
  qed
  moreover have "recv_publish env mem p cl1 w1 = Some (mqtt_err MQTT_OK, cl1, w1)" for w1
    by (rule duplicate_changes_nothing [OF r(2) p(1), where e = pubrec]) (use p(2) 1(3) rec in simp_all)
  ultimately show ?thesis
    using r(1) 1(1,3,4) w' by (intro exI [of _ cl1] exI [of _ pubrec]) (simp del: mqtt_err.simps)
qed

theorem qos2_exchange_then_id_reuse_witness:
  "\<exists>cl1 cl2 w2. recv_publish example_env [] (example_publish 2 9) example_client 5 = Some (1, cl1, 6) \<and>
    recv_pubrel example_env 9 cl1 6 = Some (1, cl2, w2) \<and>
    recv_publish example_env [0] (example_publish 2 9) cl2 w2 = Some (1, cl2, w2)"
proof -
  have room: "sizeof_queued_message + 8 \<le> queue_space 256 (cl_view example_client)"
    by (simp add: example_client_ok(4) queue_space_def sizeof_queued_message_def)
  have p: "qos_level (example_publish 2 9) = 2" "publish_packet_id (example_publish 2 9) = Some 9"
    by (simp_all add: example_publish_def)
  have cb: "publish_callback example_env c mem q 5 = 6" for c mem q by (simp add: example_env_def)
  have "\<exists>cl1. recv_publish example_env [] (example_publish 2 9) example_client 5 = Some (1, cl1, 6) \<and>
      (\<forall>w1. \<exists>cl2 w2. recv_pubrel example_env 9 cl1 w1 = Some (1, cl2, w2) \<and>
        (\<forall>q mem w3. qos_level q = 2 \<longrightarrow> publish_packet_id q = Some 9 \<longrightarrow> recv_publish example_env mem q cl2 w3 = Some (1, cl2, w3)))"
    using qos2_exchange_then_id_reuse [OF example_client_ok(6) _ p _ room, of example_env "[]" 5] example_client_ok(3,4)
    unfolding cb mqtt_err.simps by fastforce
  with p show ?thesis by blast
qed

section \<open>The message queue\<close>

text \<open>
  C26. \<open>mqtt_mq_clean\<close> drops the complete messages from the head of the queue, no other, and keeps
  the bytes and the order of those that stay, although it moves them.
\<close>

theorem queue_clean_drops_finished_head:
  assumes "mq_wf mq"
  shows "\<exists>mq'. mqtt_mq_clean mq = Some mq' \<and> mq_wf mq' \<and> mq_view mq' = dropWhile complete (mq_view mq) \<and>
    length (mq_mem mq') = length (mq_mem mq)"
  by (rule mqtt_mq_clean_law [OF assms])

theorem queue_clean_drops_finished_head_witness:
  "\<exists>mq'. mqtt_mq_clean (mq_update 0 (\<lambda>m. m\<lparr>qm_state := MQTT_QUEUED_COMPLETE\<rparr>) example_queue) = Some mq' \<and>
    map en_pid (mq_view mq') = [8, 9]"
proof -
  let ?q = "mq_update 0 (\<lambda>m. m\<lparr>qm_state := MQTT_QUEUED_COMPLETE\<rparr>) example_queue"
  have "mq_wf ?q" using example_busy_ok(1) by (intro mq_update_wf) (auto simp: keeps_place_def mq_ok_def)
  from queue_clean_drops_finished_head [OF this] show ?thesis
    unfolding mq_update_view example_queue_view
    by (auto simp: example_queue_def example_message_def entry_of_def complete_def)
qed

text \<open>
  \<open>mqtt_mq_find\<close> finds the first message of the control type that has the packet id, or that is
  not complete if no packet id is given, and returns null exactly if there is none.
\<close>

theorem queue_find_first_match:
  "case mqtt_mq_find mq ctype packet_id of
     None \<Rightarrow> \<forall>e \<in> set (mq_view mq). \<not> matches ctype packet_id e
   | Some i \<Rightarrow> i < mqtt_mq_length mq \<and> matches ctype packet_id (mq_view mq ! i) \<and>
       (\<forall>j < i. \<not> matches ctype packet_id (mq_view mq ! j))"
  by (auto split: option.split simp: mqtt_mq_find_None mqtt_mq_find_Some)

theorem queue_find_first_match_witness:
  "mqtt_mq_find example_queue MQTT_CONTROL_PUBREC (Some 9) = Some 2 \<and>
    matches MQTT_CONTROL_PUBREC (Some 9) (mq_view example_queue ! 2)"
proof -
  have f: "mqtt_mq_find example_queue MQTT_CONTROL_PUBREC (Some 9) = Some 2"
    by (simp add: mqtt_mq_find_def example_queue_def example_message_def)
  with queue_find_first_match [of example_queue MQTT_CONTROL_PUBREC "Some 9"] show ?thesis by simp
qed

section \<open>The transport\<close>

text \<open>
  C29. \<open>mqtt_pal_sendall\<close> returns if the transport does not block for ever, and then it has sent
  everything or failed; it never returns while a transport that blocks asks to retry.
\<close>

theorem sendall_returns_all_or_error:
  assumes "bio_laws env"
  shows "(bio_unblocks env blocked \<longrightarrow> (\<exists>rv w'. mqtt_pal_sendall env fd buf w = Some (rv, w') \<and>
      (rv = int (length buf) \<or> rv = mqtt_err MQTT_ERROR_SOCKET_ERROR))) \<and>
    ((\<forall>bs w. fst (bio_write env fd bs w) \<le> 0 \<and> bio_should_retry env fd (snd (bio_write env fd bs w))) \<longrightarrow>
      buf \<noteq> [] \<longrightarrow> mqtt_pal_sendall env fd buf w = None)"
proof (intro conjI impI)
  assume "bio_unblocks env blocked"
  from mqtt_pal_sendall_returns [OF this, of fd buf w] mqtt_pal_sendall_result [OF assms, of fd buf w]
  show "\<exists>rv w'. mqtt_pal_sendall env fd buf w = Some (rv, w') \<and>
      (rv = int (length buf) \<or> rv = mqtt_err MQTT_ERROR_SOCKET_ERROR)" by blast
next
  assume stuck: "\<forall>bs w. fst (bio_write env fd bs w) \<le> 0 \<and> bio_should_retry env fd (snd (bio_write env fd bs w))"
    and "buf \<noteq> []"
  then show "mqtt_pal_sendall env fd buf w = None"
    unfolding mqtt_pal_sendall_def by (intro sendall_loop_spins) auto
qed

theorem sendall_returns_all_or_error_witness:
  "\<exists>rv w'. mqtt_pal_sendall example_env 3 [1, 2] 5 = Some (rv, w') \<and> (rv = 2 \<or> rv = mqtt_err MQTT_ERROR_SOCKET_ERROR)"
  using sendall_returns_all_or_error [OF example_env_laws(1), of "\<lambda>_. 0" 3 "[1, 2]" 5] example_env_laws(2) by simp

text \<open>
  C30. Whatever transport the client is built with, what it is told is true: no transport reports more bytes as sent than it was
  given, or stores more than there is room for, and what it reports as received is what it has stored. Over a BIO, BearSSL, POSIX
  and Windows sockets a send that succeeds has sent everything; over mbedTLS and wolfSSL it may be a part. A read comes back over
  mbedTLS, wolfSSL (for less than two gigabytes), POSIX and Windows sockets, and over BearSSL if the socket below stores no more
  than there is room for. Over a BIO, the transport that the program is built with, it comes back if the BIO does not block for
  ever: one that has nothing, and asks for a retry that is not a read, keeps the loop going.
\<close>

theorem transports_keep_contract:
  assumes "bio_laws E" and "net_laws N"
  shows "transport_contract (mqtt_pal_sendall E) (mqtt_pal_recvall E) \<and> sends_all (mqtt_pal_sendall E) \<and>
    transport_contract (mbedtls_sendall N) (mbedtls_recvall N) \<and> transport_contract (wolfssl_sendall N) (wolfssl_recvall N) \<and>
    transport_contract (bear_sendall B) (bear_recvall B) \<and> sends_all (bear_sendall B) \<and>
    transport_contract (posix_sendall N) (posix_recvall N) \<and> sends_all (posix_sendall N) \<and>
    transport_contract (windows_sendall N) (windows_recvall N) \<and> sends_all (windows_sendall N) \<and>
    (\<forall>fd w. (\<exists>r. mbedtls_recvall N fd n w = Some r) \<and> (n < 2 ^ 31 \<longrightarrow> (\<exists>r. wolfssl_recvall N fd n w = Some r)) \<and>
      (\<exists>r. posix_recvall N fd n w = Some r) \<and> (\<exists>r. windows_recvall N fd n w = Some r)) \<and>
    (bear_laws B \<longrightarrow> (\<forall>fd w. \<exists>r. bear_recvall B fd n w = Some r)) \<and>
    (\<forall>blocked. bio_unblocks E blocked \<longrightarrow> (\<forall>fd w. \<exists>r. mqtt_pal_recvall E fd n w = Some r)) \<and>
    (\<forall>fd w. (\<forall>w. fst (bio_read E fd n w) = [] \<and> bio_should_retry E fd (snd (bio_read E fd n w)) \<and>
        \<not> bio_should_read E fd (snd (bio_read E fd n w))) \<longrightarrow> 0 < n \<longrightarrow> mqtt_pal_recvall E fd n w = None)"
proof (intro conjI allI impI bio_contract [OF assms(1)] variants_contract [OF assms(2)] variants_return [OF assms(2)])
  show "\<exists>r. bear_recvall B fd n w = Some r" if "bear_laws B" for fd w by (rule bear_recv_returns [OF that])
  show "\<exists>r. mqtt_pal_recvall E fd n w = Some r" if "bio_unblocks E blocked" for blocked fd w
    using mqtt_pal_recvall_returns [OF assms(1) that, of fd n w] by blast
  show "mqtt_pal_recvall E fd n w = None"
    if "\<forall>w. fst (bio_read E fd n w) = [] \<and> bio_should_retry E fd (snd (bio_read E fd n w)) \<and>
        \<not> bio_should_read E fd (snd (bio_read E fd n w))" "0 < n" for fd w
    unfolding mqtt_pal_recvall_def by (rule recvall_loop_spins) (use that in auto)
qed

text \<open>
  A socket that takes two bytes at a time and has one byte to read, then none; an engine of BearSSL that has one byte
  for the application and room for the records of both directions.
\<close>

definition example_net :: "nat net" where
  "example_net = \<lparr>nt_write = (\<lambda>fd bs w. (int (min 2 (length bs)), w)),
     nt_read = (\<lambda>fd n w. if w > 0 \<and> n > 0 then (1, [0x61], w - 1) else (- 1, [], w)),
     nt_error = (\<lambda>fd rv w. 11), nt_again_send = (\<lambda>e. e = 11), nt_again_recv = (\<lambda>e. e = 11)\<rparr>"

definition example_bearssl :: "nat bearssl" where
  "example_bearssl = \<lparr>BR_SSL_CLOSED = 1, BR_SSL_SENDREC = 2, BR_SSL_RECVREC = 4, BR_SSL_SENDAPP = 8, BR_SSL_RECVAPP = 16,
     br_last_error = (\<lambda>w. 0), br_current_state = (\<lambda>w. 28), br_sendrec_buf = (\<lambda>w. []), br_sendrec_ack = (\<lambda>n w. w),
     br_recvrec_buf = (\<lambda>w. 4), br_recvrec_put = (\<lambda>bs w. w + length bs), br_recvrec_ack = (\<lambda>n w. w),
     br_sendapp_buf = (\<lambda>w. 4), br_sendapp_put = (\<lambda>bs w. w), br_sendapp_ack = (\<lambda>n w. w), br_flush = (\<lambda>w. w),
     br_recvapp_buf = (\<lambda>w. [0x61]), br_recvapp_ack = (\<lambda>n w. w),
     low_write = (\<lambda>bs w. (int (length bs), w)), low_read = (\<lambda>n w. (int (min 2 n), replicate (min 2 n) 0, w))\<rparr>"

theorem transports_keep_contract_witness:
  "posix_sendall example_net 3 [1, 2, 3] 5 = Some (3, 5) \<and> sends_all (posix_sendall example_net) \<and>
   posix_recvall example_net 3 4 2 = Some (2, [0x61, 0x61], 0) \<and> transport_contract (posix_sendall example_net) (posix_recvall example_net) \<and>
   (\<exists>r. bear_recvall example_bearssl 3 4 5 = Some r) \<and> (\<exists>r. mqtt_pal_recvall example_env 3 4 5 = Some r)"
proof -
  have laws: "net_laws example_net" "bear_laws example_bearssl"
    by (simp_all add: net_laws_def example_net_def bear_laws_def example_bearssl_def)
  note c = transports_keep_contract [OF example_env_laws(1) laws(1), of example_bearssl 4]
  have "sends_all (posix_sendall example_net)" "transport_contract (posix_sendall example_net) (posix_recvall example_net)"
    "\<exists>r. bear_recvall example_bearssl 3 4 5 = Some r" "\<exists>r. mqtt_pal_recvall example_env 3 4 5 = Some r"
    using c laws(2) example_env_laws(2) by blast+
  moreover have "posix_sendall example_net 3 [1, 2, 3] 5 = Some (3, 5)" "posix_recvall example_net 3 4 2 = Some (2, [0x61, 0x61], 0)"
    by (simp_all add: posix_sendall_def posix_recvall_def example_net_def posix_send_loop.simps posix_recv_loop.simps)
  ultimately show ?thesis by simp
qed

text \<open>
  \<open>mqtt_pack_subscribe_request\<close> takes up to seven topics, and writes exactly their packet or
  reports that the buffer is too small; eight topics, the number the header file gives as the
  maximum, are refused.
\<close>

theorem subscribe_topic_bound:
  "if length args < 8
   then (\<forall>(t, q) \<in> set args. length t < 2 ^ 16) \<longrightarrow>
     length (subscribe_body (ucast pid) (map (\<lambda>(t, q). (t, ucast q)) args)) < 2 ^ 28 \<longrightarrow>
     packs (mqtt_pack_subscribe_request (Some buf) pid args) buf
       (subscribe_packet (ucast pid) (map (\<lambda>(t, q). (t, ucast q)) args))
   else mqtt_pack_subscribe_request (Some buf) pid args =
     Some (mqtt_err MQTT_ERROR_SUBSCRIBE_TOO_MANY_TOPICS, buf)"
  using subscribe_packs [of args pid buf] subscribe_too_many [of args buf pid]
  by (simp add: not_less del: mqtt_err.simps)

theorem subscribe_topic_bound_witness:
  "packs (mqtt_pack_subscribe_request (Some (replicate 20 0)) 9 [([0x61], 1)]) (replicate 20 0)
     (subscribe_packet 9 [([0x61], 1)])"
  using subscribe_topic_bound [of "[([0x61], 1)]" 9 "replicate 20 0"]
  by (simp add: subscribe_body_def mqtt_packed_cstrlen_def)

end
