(* ===== verification/Eloop.thy ===== *)
theory Eloop
  imports Prelude
begin

text \<open>
  The event loop (\<open>src/eloop.c\<close>): timeouts, read sockets and signals, and the operations on them.

  The timeouts are a linked list, and the code leaves dangling pointers behind (\<open>eloop_destroy\<close>), so
  the nodes live in an explicit heap: a map from addresses to nodes, with address 0 for \<open>NULL\<close>.
  Following a pointer to a node that has been freed has no defined result. The two tables are
  arrays that the code reallocates; they are lists, and \<open>el_freed\<close> tells whether their memory is
  gone. Handlers and context pointers are numbers.
\<close>

subsection \<open>Times\<close>

datatype timeval = Timeval (tv_sec: int) (tv_usec: int)

text \<open>\<open>timercmp\<close> is the lexicographic order.\<close>

instantiation timeval :: linorder
begin

definition less_timeval where
  "a < b \<longleftrightarrow> (if tv_sec a = tv_sec b then tv_usec a < tv_usec b else tv_sec a < tv_sec b)"

definition less_eq_timeval where
  "(a :: timeval) \<le> b \<longleftrightarrow> a = b \<or> a < b"

instance
proof
  fix a b c :: timeval
  show "(a < b) = (a \<le> b \<and> \<not> b \<le> a)"
    by (cases a, cases b) (auto simp: less_eq_timeval_def less_timeval_def)
  show "a \<le> a" by (simp add: less_eq_timeval_def)
  show "a \<le> b \<Longrightarrow> b \<le> c \<Longrightarrow> a \<le> c"
    by (cases a, cases b, cases c) (auto simp: less_eq_timeval_def less_timeval_def split: if_splits)
  show "a \<le> b \<Longrightarrow> b \<le> a \<Longrightarrow> a = b"
    by (cases a, cases b) (auto simp: less_eq_timeval_def less_timeval_def split: if_splits)
  show "a \<le> b \<or> b \<le> a"
    by (cases a, cases b) (auto simp: less_eq_timeval_def less_timeval_def)
qed

end

definition timersub :: "timeval \<Rightarrow> timeval \<Rightarrow> timeval" where
  "timersub a b =
     (let s = tv_sec a - tv_sec b; u = tv_usec a - tv_usec b
      in if u < 0 then Timeval (s - 1) (u + 1000000) else Timeval s u)"

text \<open>The time in microseconds, and a time as the clock gives it.\<close>

definition micros :: "timeval \<Rightarrow> int" where
  "micros t = tv_sec t * 1000000 + tv_usec t"

definition normal :: "timeval \<Rightarrow> bool" where
  "normal t \<longleftrightarrow> 0 \<le> tv_usec t \<and> tv_usec t < 1000000"

lemma less_timeval_micros: "normal a \<Longrightarrow> normal b \<Longrightarrow> a < b \<longleftrightarrow> micros a < micros b"
  by (cases a, cases b) (auto simp: less_timeval_def micros_def normal_def)

lemma micros_timersub: "micros (timersub a b) = micros a - micros b"
  by (simp add: timersub_def micros_def Let_def)

lemma normal_timersub: "normal a \<Longrightarrow> normal b \<Longrightarrow> normal (timersub a b)"
  by (auto simp: normal_def timersub_def Let_def)

subsection \<open>State\<close>

record eloop_timeout =
  to_time :: timeval
  to_eloop_data :: nat
  to_user_data :: nat
  to_handler :: nat
  to_next :: nat

record eloop_sock =
  es_sock :: int
  es_eloop_data :: nat
  es_user_data :: nat
  es_handler :: nat

record eloop_signal =
  sg_sig :: int
  sg_user_data :: nat
  sg_handler :: nat
  sg_signaled :: int

record eloop_data =
  el_user_data :: nat
  el_max_sock :: int
  el_readers :: "eloop_sock list"
  el_timeout :: nat
  el_signals :: "eloop_signal list"
  el_signaled :: int
  el_pending_terminate :: bool
  el_terminate :: bool
  el_reader_table_changed :: bool
  el_heap :: "nat \<Rightarrow> eloop_timeout option"
  el_freed :: bool

text \<open>\<open>ELOOP_ALL_CTX\<close> is the pointer \<open>(void *) -1\<close>.\<close>

definition ELOOP_ALL_CTX :: nat where
  "ELOOP_ALL_CTX = 2 ^ 64 - 1"

text \<open>
  The outside world: the monotonic clock (seconds and nanoseconds), the allocator (an address, 0 if
  it fails; whether a reallocation succeeds), \<open>select\<close> (its result, whether \<open>errno\<close> is \<open>EINTR\<close>, the
  sockets that are ready, the signals that came in while it waited), \<open>alarm\<close>, \<open>signal\<close>, and the
  handlers, which may call back into the event loop.
\<close>

record 'w eloop_env =
  clock_gettime :: "'w \<Rightarrow> (int \<times> int) \<times> 'w"
  malloc_timeout :: "(nat \<Rightarrow> eloop_timeout option) \<Rightarrow> 'w \<Rightarrow> nat \<times> 'w"
  alloc_ok :: "'w \<Rightarrow> bool \<times> 'w"
  select_read :: "int \<Rightarrow> int list \<Rightarrow> timeval option \<Rightarrow> 'w \<Rightarrow> (int \<times> bool \<times> int list \<times> int list) \<times> 'w"
  set_alarm :: "nat \<Rightarrow> 'w \<Rightarrow> 'w"
  install_signal :: "int \<Rightarrow> 'w \<Rightarrow> 'w"
  timeout_handler :: "nat \<Rightarrow> nat \<Rightarrow> nat \<Rightarrow> eloop_data \<Rightarrow> 'w \<Rightarrow> (eloop_data \<times> 'w) option"
  read_handler :: "nat \<Rightarrow> int \<Rightarrow> nat \<Rightarrow> nat \<Rightarrow> eloop_data \<Rightarrow> 'w \<Rightarrow> (eloop_data \<times> 'w) option"
  signal_handler :: "nat \<Rightarrow> int \<Rightarrow> nat \<Rightarrow> nat \<Rightarrow> eloop_data \<Rightarrow> 'w \<Rightarrow> (eloop_data \<times> 'w) option"

definition xgettimeofday :: "'w eloop_env \<Rightarrow> 'w \<Rightarrow> timeval \<times> 'w" where
  "xgettimeofday env w = (case clock_gettime env w of ((sec, nsec), w) \<Rightarrow> (Timeval sec (nsec div 1000), w))"

subsection \<open>Read sockets\<close>

text \<open>\<open>memset\<close> leaves every pointer null; nodes and tables that were there before are lost.\<close>

definition eloop_init :: "nat \<Rightarrow> eloop_data \<Rightarrow> eloop_data" where
  "eloop_init user_data el = \<lparr>el_user_data = user_data, el_max_sock = 0, el_readers = [], el_timeout = 0,
     el_signals = [], el_signaled = 0, el_pending_terminate = False, el_terminate = False,
     el_reader_table_changed = False, el_heap = el_heap el, el_freed = False\<rparr>"

definition eloop_register_read_sock ::
  "'w eloop_env \<Rightarrow> int \<Rightarrow> nat \<Rightarrow> nat \<Rightarrow> nat \<Rightarrow> eloop_data \<Rightarrow> 'w \<Rightarrow> (int \<times> eloop_data \<times> 'w) option" where
  "eloop_register_read_sock env sock handler eloop_data user_data el w =
     (if el_freed el then None
      else let (ok, w) = alloc_ok env w
           in if \<not> ok then Some (- 1, el, w)
              else Some (0, el\<lparr>
                el_readers := el_readers el @ [\<lparr>es_sock = sock, es_eloop_data = eloop_data,
                  es_user_data = user_data, es_handler = handler\<rparr>],
                el_max_sock := (if sock > el_max_sock el then sock else el_max_sock el),
                el_reader_table_changed := True\<rparr>, w))"

text \<open>The index at which the search loop of \<open>eloop_unregister_read_sock\<close> stops.\<close>

fun reader_index :: "int \<Rightarrow> eloop_sock list \<Rightarrow> nat" where
  "reader_index sock [] = 0"
| "reader_index sock (r # rs) = (if es_sock r = sock then 0 else Suc (reader_index sock rs))"

definition eloop_unregister_read_sock :: "int \<Rightarrow> eloop_data \<Rightarrow> eloop_data option" where
  "eloop_unregister_read_sock sock el =
     (if el_readers el = [] then Some el
      else if el_freed el then None
      else let i = reader_index sock (el_readers el)
           in if i = length (el_readers el) then Some el
              else Some (el\<lparr>el_readers := take i (el_readers el) @ drop (i + 1) (el_readers el),
                el_reader_table_changed := True\<rparr>))"

subsection \<open>Timeouts\<close>

text \<open>The loop that carries microseconds over, and the time of a new timeout.\<close>

function carry_usec :: "timeval \<Rightarrow> timeval" where
  "carry_usec t = (if tv_usec t \<ge> 1000000 then carry_usec (Timeval (tv_sec t + 1) (tv_usec t - 1000000)) else t)"
  by pat_completeness auto
termination by (relation "measure (\<lambda>t. nat (tv_usec t))") auto

declare carry_usec.simps [simp del]

definition timeout_time :: "timeval \<Rightarrow> u32 \<Rightarrow> u32 \<Rightarrow> timeval" where
  "timeout_time now secs usecs =
     carry_usec (Timeval (tv_sec now + uint secs) (tv_usec now + uint usecs))"

text \<open>
  The loop that looks for the place of a new timeout: \<open>(prev, tmp)\<close> when it stops, at the first node
  that is later than the new one, or at the end.
\<close>

partial_function (option) find_place ::
  "(nat \<Rightarrow> eloop_timeout option) \<Rightarrow> timeval \<Rightarrow> nat \<Rightarrow> nat \<Rightarrow> (nat \<times> nat) option" where
  [code]: "find_place heap t prev tmp =
     (if tmp = 0 then Some (prev, tmp)
      else do {
        node \<leftarrow> heap tmp;
        if t < to_time node then Some (prev, tmp)
        else find_place heap t tmp (to_next node)
      })"

definition eloop_register_timeout ::
  "'w eloop_env \<Rightarrow> u32 \<Rightarrow> u32 \<Rightarrow> nat \<Rightarrow> nat \<Rightarrow> nat \<Rightarrow> eloop_data \<Rightarrow> 'w \<Rightarrow> (int \<times> eloop_data \<times> 'w) option" where
  "eloop_register_timeout env secs usecs handler eloop_data user_data el w =
     (let (timeout, w) = malloc_timeout env (el_heap el) w
      in if timeout = 0 then Some (- 1, el, w)
         else let (now, w) = xgettimeofday env w;
                  node = \<lparr>to_time = timeout_time now secs usecs, to_eloop_data = eloop_data,
                    to_user_data = user_data, to_handler = handler, to_next = 0\<rparr>;
                  heap = (el_heap el)(timeout \<mapsto> node)
              in if el_timeout el = 0 then Some (0, el\<lparr>el_timeout := timeout, el_heap := heap\<rparr>, w)
                 else do {
                   (prev, tmp) \<leftarrow> find_place heap (to_time node) 0 (el_timeout el);
                   if prev = 0
                   then Some (0, el\<lparr>el_timeout := timeout,
                     el_heap := heap(timeout \<mapsto> node\<lparr>to_next := el_timeout el\<rparr>)\<rparr>, w)
                   else do {
                     p \<leftarrow> heap prev;
                     Some (0, el\<lparr>el_heap := heap(timeout \<mapsto> node\<lparr>to_next := to_next p\<rparr>,
                       prev \<mapsto> p\<lparr>to_next := timeout\<rparr>)\<rparr>, w)
                   }
                 })"

text \<open>Does a cancellation match a timeout?\<close>

definition cancels :: "nat \<Rightarrow> nat \<Rightarrow> nat \<Rightarrow> eloop_timeout \<Rightarrow> bool" where
  "cancels handler eloop_data user_data t \<longleftrightarrow> to_handler t = handler \<and>
     (to_eloop_data t = eloop_data \<or> eloop_data = ELOOP_ALL_CTX) \<and>
     (to_user_data t = user_data \<or> user_data = ELOOP_ALL_CTX)"

text \<open>The loop of \<open>eloop_cancel_timeout\<close>: the nodes it removes are freed.\<close>

partial_function (option) cancel_loop ::
  "nat \<Rightarrow> nat \<Rightarrow> nat \<Rightarrow> nat \<Rightarrow> nat \<Rightarrow> int \<Rightarrow> eloop_data \<Rightarrow> (int \<times> eloop_data) option" where
  [code]: "cancel_loop handler eloop_data user_data prev timeout removed el =
     (if timeout = 0 then Some (removed, el)
      else do {
        node \<leftarrow> el_heap el timeout;
        if cancels handler eloop_data user_data node
        then if prev = 0
          then cancel_loop handler eloop_data user_data prev (to_next node) (removed + 1)
            (el\<lparr>el_timeout := to_next node, el_heap := (el_heap el)(timeout := None)\<rparr>)
          else do {
            p \<leftarrow> el_heap el prev;
            cancel_loop handler eloop_data user_data prev (to_next node) (removed + 1)
              (el\<lparr>el_heap := (el_heap el)(prev \<mapsto> p\<lparr>to_next := to_next node\<rparr>, timeout := None)\<rparr>)
          }
        else cancel_loop handler eloop_data user_data timeout (to_next node) removed el
      })"

definition eloop_cancel_timeout :: "nat \<Rightarrow> nat \<Rightarrow> nat \<Rightarrow> eloop_data \<Rightarrow> (int \<times> eloop_data) option" where
  "eloop_cancel_timeout handler eloop_data user_data el =
     cancel_loop handler eloop_data user_data 0 (el_timeout el) 0 el"

subsection \<open>Signals\<close>

definition SIGINT :: int where "SIGINT = 2"
definition SIGALRM :: int where "SIGALRM = 14"
definition SIGTERM :: int where "SIGTERM = 15"

text \<open>The first entry of a signal counts it.\<close>

fun mark_signaled :: "int \<Rightarrow> eloop_signal list \<Rightarrow> eloop_signal list" where
  "mark_signaled sig [] = []"
| "mark_signaled sig (s # ss) =
     (if sg_sig s = sig then s\<lparr>sg_signaled := sg_signaled s + 1\<rparr> # ss else s # mark_signaled sig ss)"

definition eloop_handle_signal :: "'w eloop_env \<Rightarrow> int \<Rightarrow> eloop_data \<Rightarrow> 'w \<Rightarrow> (eloop_data \<times> 'w) option" where
  "eloop_handle_signal env sig el w =
     (let (el, w) = (if (sig = SIGINT \<or> sig = SIGTERM) \<and> \<not> el_pending_terminate el
            then (el\<lparr>el_pending_terminate := True\<rparr>, set_alarm env 10 (install_signal env SIGALRM w))
            else (el, w));
          el = el\<lparr>el_signaled := el_signaled el + 1\<rparr>
      in if el_freed el \<and> el_signals el \<noteq> [] then None
         else Some (el\<lparr>el_signals := mark_signaled sig (el_signals el)\<rparr>, w))"

definition eloop_register_signal ::
  "'w eloop_env \<Rightarrow> int \<Rightarrow> nat \<Rightarrow> nat \<Rightarrow> eloop_data \<Rightarrow> 'w \<Rightarrow> (int \<times> eloop_data \<times> 'w) option" where
  "eloop_register_signal env sig handler user_data el w =
     (if el_freed el then None
      else let (ok, w) = alloc_ok env w
           in if \<not> ok then Some (- 1, el, w)
              else Some (0, el\<lparr>el_signals := el_signals el @ [\<lparr>sg_sig = sig, sg_user_data = user_data,
                sg_handler = handler, sg_signaled = 0\<rparr>]\<rparr>, install_signal env sig w))"

text \<open>
  The loop over the signals that came in; a handler may register further ones, so the table is read
  again in every pass.
\<close>

partial_function (option) signal_loop ::
  "'w eloop_env \<Rightarrow> nat \<Rightarrow> eloop_data \<Rightarrow> 'w \<Rightarrow> (eloop_data \<times> 'w) option" where
  [code]: "signal_loop env i el w =
     (if i \<ge> length (el_signals el) then Some (el, w)
      else if el_freed el then None
      else let s = el_signals el ! i
           in if sg_signaled s \<noteq> 0 then do {
                (el, w) \<leftarrow> signal_handler env (sg_handler s) (sg_sig s) (el_user_data el) (sg_user_data s)
                  (el\<lparr>el_signals := (el_signals el)[i := s\<lparr>sg_signaled := 0\<rparr>]\<rparr>) w;
                signal_loop env (i + 1) el w
              } else signal_loop env (i + 1) el w)"

definition eloop_process_pending_signals :: "'w eloop_env \<Rightarrow> eloop_data \<Rightarrow> 'w \<Rightarrow> (eloop_data \<times> 'w) option" where
  "eloop_process_pending_signals env el w =
     (if el_signaled el = 0 then Some (el, w)
      else let el = el\<lparr>el_signaled := 0\<rparr>;
               (el, w) = (if el_pending_terminate el
                 then (el\<lparr>el_pending_terminate := False\<rparr>, set_alarm env 0 w) else (el, w))
           in signal_loop env 0 el w)"

subsection \<open>The loop\<close>

definition FD_SETSIZE :: int where "FD_SETSIZE = 1024"

text \<open>
  What the loop waits for: the time to the first timeout if there is one. \<open>FD_SET\<close> on a descriptor
  that does not fit the set is an access outside it.
\<close>

definition wait_time :: "'w eloop_env \<Rightarrow> eloop_data \<Rightarrow> 'w \<Rightarrow> (timeval option \<times> 'w) option" where
  "wait_time env el w =
     (if el_timeout el = 0 then Some (None, w)
      else let (now, w) = xgettimeofday env w
           in do {
             node \<leftarrow> el_heap el (el_timeout el);
             Some (Some (if now < to_time node then timersub (to_time node) now else Timeval 0 0), w)
           })"

text \<open>The signals that came in, in their order.\<close>

fun take_signals :: "'w eloop_env \<Rightarrow> int list \<Rightarrow> eloop_data \<Rightarrow> 'w \<Rightarrow> (eloop_data \<times> 'w) option" where
  "take_signals env [] el w = Some (el, w)"
| "take_signals env (s # ss) el w = do {
     (el, w) \<leftarrow> eloop_handle_signal env s el w;
     take_signals env ss el w
   }"

text \<open>At most one timeout is run in a pass: the first one, if it is due.\<close>

definition run_due_timeout :: "'w eloop_env \<Rightarrow> eloop_data \<Rightarrow> 'w \<Rightarrow> (eloop_data \<times> 'w) option" where
  "run_due_timeout env el w =
     (if el_timeout el = 0 then Some (el, w)
      else let (now, w) = xgettimeofday env w
           in do {
             tmp \<leftarrow> el_heap el (el_timeout el);
             if now < to_time tmp then Some (el, w)
             else do {
               let p = el_timeout el;
               (el, w) \<leftarrow> timeout_handler env (to_handler tmp) (to_eloop_data tmp) (to_user_data tmp)
                 (el\<lparr>el_timeout := to_next tmp\<rparr>) w;
               if el_heap el p = None then None
               else Some (el\<lparr>el_heap := (el_heap el)(p := None)\<rparr>, w)
             }
           })"

text \<open>The readers that are ready; a handler that changes the table ends the pass.\<close>

partial_function (option) reader_loop ::
  "'w eloop_env \<Rightarrow> int list \<Rightarrow> nat \<Rightarrow> eloop_data \<Rightarrow> 'w \<Rightarrow> (eloop_data \<times> 'w) option" where
  [code]: "reader_loop env ready i el w =
     (if i \<ge> length (el_readers el) then Some (el, w)
      else if el_freed el then None
      else let r = el_readers el ! i
           in if es_sock r < 0 \<or> es_sock r \<ge> FD_SETSIZE then None
              else if es_sock r \<in> set ready then do {
                (el, w) \<leftarrow> read_handler env (es_handler r) (es_sock r) (es_eloop_data r) (es_user_data r) el w;
                if el_reader_table_changed el then Some (el, w)
                else reader_loop env ready (i + 1) el w
              } else reader_loop env ready (i + 1) el w)"

text \<open>A pass of the loop: \<open>False\<close> ends it (\<open>select\<close> has failed).\<close>

definition run_pass :: "'w eloop_env \<Rightarrow> eloop_data \<Rightarrow> 'w \<Rightarrow> (bool \<times> eloop_data \<times> 'w) option" where
  "run_pass env el w = do {
     (tv, w) \<leftarrow> wait_time env el w;
     let socks = map es_sock (el_readers el);
     if el_freed el \<and> socks \<noteq> [] \<or> (\<exists>s \<in> set socks. s < 0 \<or> s \<ge> FD_SETSIZE) then None
     else do {
       let ((res, eintr, ready, sigs), w) = select_read env (el_max_sock el + 1) socks tv w;
       (el, w) \<leftarrow> take_signals env sigs el w;
       if res < 0 \<and> \<not> eintr then Some (False, el, w)
       else do {
         (el, w) \<leftarrow> eloop_process_pending_signals env el w;
         (el, w) \<leftarrow> run_due_timeout env el w;
         if res \<le> 0 then Some (True, el, w)
         else do {
           (el, w) \<leftarrow> reader_loop env ready 0 (el\<lparr>el_reader_table_changed := False\<rparr>) w;
           Some (True, el, w)
         }
       }
     }
   }"

partial_function (option) run_loop :: "'w eloop_env \<Rightarrow> eloop_data \<Rightarrow> 'w \<Rightarrow> (eloop_data \<times> 'w) option" where
  [code]: "run_loop env el w =
     (if \<not> el_terminate el \<and> (el_timeout el \<noteq> 0 \<or> el_readers el \<noteq> []) then do {
        (go, el, w) \<leftarrow> run_pass env el w;
        if go then run_loop env el w else Some (el, w)
      } else Some (el, w))"

definition eloop_run :: "'w eloop_env \<Rightarrow> eloop_data \<Rightarrow> 'w \<Rightarrow> (eloop_data \<times> 'w) option" where
  "eloop_run env el w =
     (let (ok, w) = alloc_ok env w in if \<not> ok then Some (el, w) else run_loop env el w)"

definition eloop_terminate :: "eloop_data \<Rightarrow> eloop_data" where
  "eloop_terminate el = el\<lparr>el_terminate := True\<rparr>"

definition eloop_terminated :: "eloop_data \<Rightarrow> bool" where
  "eloop_terminated el = el_terminate el"

text \<open>
  \<open>eloop_destroy\<close> frees the nodes and the tables and leaves every pointer as it was; the tables are
  gone from then on, and freeing them again has no defined result.
\<close>

partial_function (option) free_timeouts ::
  "nat \<Rightarrow> (nat \<Rightarrow> eloop_timeout option) \<Rightarrow> (nat \<Rightarrow> eloop_timeout option) option" where
  [code]: "free_timeouts timeout heap =
     (if timeout = 0 then Some heap
      else do { node \<leftarrow> heap timeout; free_timeouts (to_next node) (heap(timeout := None)) })"

definition eloop_destroy :: "eloop_data \<Rightarrow> eloop_data option" where
  "eloop_destroy el =
     (if el_freed el then None
      else do {
        heap \<leftarrow> free_timeouts (el_timeout el) (el_heap el);
        Some (el\<lparr>el_heap := heap, el_freed := True\<rparr>)
      })"

end
