(* ===== verification/Eloop_Timers.thy ===== *)
theory Eloop_Timers
  imports Eloop
begin

text \<open>
  The timeout list of the event loop as a queue: the linked list in the heap is a list of timers in
  the order of their times, \<open>eloop_register_timeout\<close> inserts behind the timers that are not later,
  \<open>eloop_cancel_timeout\<close> filters, and taking the head gives the earliest. The locale \<open>timer_queue\<close> is
  the contract; it is interpreted on the pointer code.
\<close>

subsection \<open>Linked lists in the heap\<close>

type_synonym timeout_heap = "nat \<Rightarrow> eloop_timeout option"

text \<open>The addresses from \<open>p\<close> to \<open>q\<close>.\<close>

fun seg :: "timeout_heap \<Rightarrow> nat \<Rightarrow> nat list \<Rightarrow> nat \<Rightarrow> bool" where
  "seg h p [] q \<longleftrightarrow> p = q"
| "seg h p (a # as) q \<longleftrightarrow> p = a \<and> a \<noteq> 0 \<and> (\<exists>n. h a = Some n \<and> seg h (to_next n) as q)"

abbreviation chain :: "timeout_heap \<Rightarrow> nat \<Rightarrow> nat list \<Rightarrow> bool" where
  "chain h p as \<equiv> seg h p as 0"

named_theorems seg_simps \<open>segments of the timeout list\<close>

lemma seg_append [seg_simps]: "seg h p (as @ bs) q \<longleftrightarrow> (\<exists>r. seg h p as r \<and> seg h r bs q)"
  by (induction as arbitrary: p) auto

lemma seg_update [seg_simps]: "a \<notin> set as \<Longrightarrow> seg (h(a := x)) p as q \<longleftrightarrow> seg h p as q"
  by (induction as arbitrary: p) auto

lemma seg_nodes: "seg h p as q \<Longrightarrow> a \<in> set as \<Longrightarrow> a \<noteq> 0 \<and> (\<exists>n. h a = Some n)"
  by (induction as arbitrary: p) auto

lemma chain_null [simp]: "chain h 0 as \<longleftrightarrow> as = []"
  by (cases as) auto

lemma chain_unique: "chain h p as \<Longrightarrow> chain h p bs \<Longrightarrow> as = bs"
proof (induction as arbitrary: p bs)
  case Nil
  then show ?case by simp
next
  case (Cons a as)
  then obtain bs' where "bs = a # bs'" by (cases bs) auto
  with Cons show ?case by auto
qed

lemma chain_distinct: "chain h p as \<Longrightarrow> distinct as"
proof (induction as arbitrary: p)
  case (Cons a as)
  have "a \<notin> set as"
  proof
    assume "a \<in> set as"
    then obtain xs ys where as: "as = xs @ a # ys" by (meson split_list)
    with Cons.prems have "chain h a (a # ys)" by (auto simp: seg_append)
    moreover have "chain h a (a # as)" using Cons.prems by simp
    ultimately have "a # ys = a # as" by (rule chain_unique)
    then show False by (simp add: as)
  qed
  with Cons show ?case by auto
qed simp

text \<open>Appending at the end of a segment whose last node is redirected.\<close>

lemma seg_redirect:
  assumes "seg h p (as @ [a]) q" and "distinct (as @ [a])" and "h a = Some n"
  shows "seg (h(a \<mapsto> n\<lparr>to_next := r\<rparr>)) p (as @ [a]) r"
  using assms by (auto simp: seg_simps)

lemma chain_last_next:
  assumes "chain h p (xs @ ys)" and "xs \<noteq> []" and "h (last xs) = Some m"
  shows "to_next m = hd (ys @ [0])"
proof -
  obtain zs z where "xs = zs @ [z]" using assms(2) by (cases xs rule: rev_cases) auto
  with assms show ?thesis by (cases ys) (auto simp: seg_append)
qed

subsection \<open>The timers of an event loop\<close>

text \<open>A timer is a node without its link.\<close>

definition timer :: "eloop_timeout \<Rightarrow> eloop_timeout" where
  "timer n = n\<lparr>to_next := 0\<rparr>"

lemma timer_fields [simp]: "to_time (timer n) = to_time n" "to_eloop_data (timer n) = to_eloop_data n"
  "to_user_data (timer n) = to_user_data n" "to_handler (timer n) = to_handler n"
  "timer (n\<lparr>to_next := q\<rparr>) = timer n" "cancels h d u (timer n) = cancels h d u n" "timer (timer n) = timer n"
  by (simp_all add: timer_def cancels_def)

text \<open>The list that following the pointers gives; none if they do not end or are dangling.\<close>

partial_function (option) walk :: "timeout_heap \<Rightarrow> nat \<Rightarrow> eloop_timeout list option" where
  [code]: "walk h p =
     (if p = 0 then Some []
      else do { n \<leftarrow> h p; ts \<leftarrow> walk h (to_next n); Some (timer n # ts) })"

definition timers_at :: "timeout_heap \<Rightarrow> nat list \<Rightarrow> eloop_timeout list" where
  "timers_at h as = map (\<lambda>a. timer (the (h a))) as"

lemma walk_chain: "chain h p as \<Longrightarrow> walk h p = Some (timers_at h as)"
proof (induction as arbitrary: p)
  case Nil
  then show ?case by (subst walk.simps) (simp add: timers_at_def)
next
  case (Cons a as)
  then show ?case by (subst walk.simps) (auto simp: timers_at_def)
qed

lemma walk_Some:
  assumes "walk h p = Some ts"
  obtains as where "chain h p as" and "ts = timers_at h as"
proof -
  have "\<exists>as. chain h p as \<and> ts = timers_at h as"
  proof (rule walk.raw_induct [where P = "\<lambda>h p ts. \<exists>as. chain h p as \<and> ts = timers_at h as", OF _ assms])
    fix f and h :: timeout_heap and p ts
    assume IH: "\<And>h p ts. f h p = Some ts \<Longrightarrow> \<exists>as. chain h p as \<and> ts = timers_at h as"
      and body: "(if p = 0 then Some [] else h p \<bind> (\<lambda>n. f h (to_next n) \<bind> (\<lambda>ts. Some (timer n # ts)))) = Some ts"
    show "\<exists>as. chain h p as \<and> ts = timers_at h as"
    proof (cases "p = 0")
      case True
      with body show ?thesis by (auto simp: timers_at_def)
    next
      case False
      with body obtain n ts' where n: "h p = Some n" "f h (to_next n) = Some ts'" "ts = timer n # ts'"
        by (auto split: bind_splits)
      with IH obtain as where "chain h (to_next n) as" "ts' = timers_at h as" by blast
      with n False show ?thesis by (intro exI [of _ "p # as"]) (simp add: timers_at_def)
    qed
  qed
  with that show thesis by blast
qed

definition timers :: "eloop_data \<Rightarrow> eloop_timeout list" where
  "timers el = (case walk (el_heap el) (el_timeout el) of Some ts \<Rightarrow> ts | None \<Rightarrow> [])"

definition timers_ok :: "eloop_data \<Rightarrow> bool" where
  "timers_ok el \<longleftrightarrow> walk (el_heap el) (el_timeout el) \<noteq> None"

lemma timers_chain: "chain (el_heap el) (el_timeout el) as \<Longrightarrow> timers_ok el \<and> timers el = timers_at (el_heap el) as"
  by (simp add: timers_def timers_ok_def walk_chain)

lemma timers_ok_chain:
  assumes "timers_ok el"
  obtains as where "chain (el_heap el) (el_timeout el) as" "timers el = timers_at (el_heap el) as" "distinct as"
proof -
  from assms obtain ts where "walk (el_heap el) (el_timeout el) = Some ts" by (auto simp: timers_ok_def)
  from walk_Some [OF this] obtain as where as: "chain (el_heap el) (el_timeout el) as" .
  show thesis by (rule that [OF as _ chain_distinct [OF as]]) (use timers_chain [OF as] in simp)
qed

lemma timers_at_cong:
  assumes "\<And>a. a \<in> set as \<Longrightarrow> \<exists>n n'. h a = Some n \<and> h' a = Some n' \<and> timer n = timer n'"
  shows "timers_at h as = timers_at h' as"
  unfolding timers_at_def using assms by (intro map_cong) fastforce+

text \<open>What an operation leaves alone: the nodes that are not in the list, and the address they have.\<close>

definition nodes :: "eloop_data \<Rightarrow> nat set" where
  "nodes el = {p. \<exists>as. chain (el_heap el) (el_timeout el) as \<and> p \<in> set as}"

lemma nodes_chain: "chain (el_heap el) (el_timeout el) as \<Longrightarrow> nodes el = set as"
  using chain_unique unfolding nodes_def by blast

definition keeps_others :: "eloop_data \<Rightarrow> eloop_data \<Rightarrow> bool" where
  "keeps_others el el' \<longleftrightarrow>
     (\<forall>p n. el_heap el p = Some n \<longrightarrow> p \<notin> nodes el \<longrightarrow> el_heap el' p = Some n \<and> p \<notin> nodes el')"

lemma keeps_others_refl [simp]: "keeps_others el el"
  by (simp add: keeps_others_def)

lemma keeps_others_trans: "keeps_others a b \<Longrightarrow> keeps_others b c \<Longrightarrow> keeps_others a c"
  by (auto simp: keeps_others_def)

text \<open>Updates of the state that do not touch the list.\<close>

lemma timers_cong:
  assumes "el_heap el' = el_heap el" and "el_timeout el' = el_timeout el"
  shows "timers el' = timers el" and "timers_ok el' = timers_ok el" and "nodes el' = nodes el"
  using assms by (simp_all add: timers_def timers_ok_def nodes_def)

subsection \<open>Registering a timeout\<close>

lemma carry_usec_micros: "micros (carry_usec t) = micros t"
  by (induction t rule: carry_usec.induct) (subst carry_usec.simps, simp add: micros_def)

lemma carry_usec_normal: "0 \<le> tv_usec t \<Longrightarrow> normal (carry_usec t)"
  by (induction t rule: carry_usec.induct) (subst carry_usec.simps, simp add: normal_def)

text \<open>A new timeout is exactly the given time from now.\<close>

lemma timeout_time_micros:
  "micros (timeout_time now secs usecs) = micros now + uint secs * 1000000 + uint usecs"
  by (simp add: timeout_time_def carry_usec_micros) (simp add: micros_def algebra_simps)

lemma timeout_time_normal: "normal now \<Longrightarrow> normal (timeout_time now secs usecs)"
  unfolding timeout_time_def by (rule carry_usec_normal) (simp add: normal_def)

lemma find_place_chain:
  assumes "chain h p as"
  shows "find_place h t prev p = Some (last (prev # takeWhile (\<lambda>a. to_time (the (h a)) \<le> t) as),
    hd (dropWhile (\<lambda>a. to_time (the (h a)) \<le> t) as @ [0]))"
  using assms
proof (induction as arbitrary: p prev)
  case Nil
  then show ?case by (subst find_place.simps) simp
next
  case (Cons a as)
  then show ?case by (subst find_place.simps) (auto simp: not_less)
qed

definition insert_timer :: "eloop_timeout \<Rightarrow> eloop_timeout list \<Rightarrow> eloop_timeout list" where
  "insert_timer t ts = takeWhile (\<lambda>u. to_time u \<le> to_time t) ts @ t # dropWhile (\<lambda>u. to_time u \<le> to_time t) ts"

text \<open>Linking a new node into the chain, at the place the loop has found.\<close>

lemma chain_insert:
  assumes ch: "chain h p (xs @ ys)" and fresh: "h a = None" "a \<noteq> 0" and n: "to_next n = hd (ys @ [0])"
  defines "h' \<equiv> (if xs = [] then h(a \<mapsto> n) else h(a \<mapsto> n, last xs \<mapsto> (the (h (last xs)))\<lparr>to_next := a\<rparr>))"
  shows "chain h' (if xs = [] then a else p) (xs @ a # ys)"
    and "timers_at h' (xs @ a # ys) = timers_at h xs @ timer n # timers_at h ys"
proof -
  have dist: "distinct (xs @ ys)" by (rule chain_distinct [OF ch])
  have new: "a \<notin> set (xs @ ys)" using seg_nodes [OF ch] fresh(1) by fastforce
  obtain r where r: "seg h p xs r" "chain h r ys" using ch by (auto simp: seg_append)
  have hd: "r = hd (ys @ [0])" using r(2) by (cases ys) auto
  have tail: "chain (h(a \<mapsto> n)) a (a # ys)"
    using new r(2) fresh(2) n hd by (simp add: seg_update)
  show "chain h' (if xs = [] then a else p) (xs @ a # ys)"
  proof (cases xs rule: rev_cases)
    case Nil
    then show ?thesis using tail by (simp add: h'_def)
  next
    case (snoc zs z)
    obtain m where m: "h z = Some m" using seg_nodes [OF r(1), of z] snoc by auto
    have z: "z \<noteq> a" "z \<notin> set ys" "z \<notin> set zs" "a \<notin> set zs" using new dist snoc by auto
    have "seg (h(a \<mapsto> n, z \<mapsto> m\<lparr>to_next := a\<rparr>)) p (zs @ [z]) a"
      by (rule seg_redirect [of _ _ _ _ r]) (use r(1) snoc m z dist in \<open>auto simp: seg_simps\<close>)
    moreover have "chain (h(a \<mapsto> n, z \<mapsto> m\<lparr>to_next := a\<rparr>)) a (a # ys)"
      using tail z by (simp add: seg_update)
    ultimately have "chain (h(a \<mapsto> n, z \<mapsto> m\<lparr>to_next := a\<rparr>)) p ((zs @ [z]) @ a # ys)"
      unfolding seg_append by blast
    then show ?thesis unfolding h'_def snoc using m by (simp del: seg.simps)
  qed
  have same: "timers_at h' bs = timers_at h bs" if "set bs \<subseteq> set (xs @ ys)" for bs
  proof (rule timers_at_cong [symmetric])
    fix b assume "b \<in> set bs"
    then have "b \<in> set (xs @ ys)" using that by blast
    then obtain k where k: "h b = Some k" "b \<noteq> a" using seg_nodes [OF ch] new by blast
    show "\<exists>m m'. h b = Some m \<and> h' b = Some m' \<and> timer m = timer m'"
      using k by (cases "xs \<noteq> [] \<and> b = last xs") (auto simp: h'_def)
  qed
  moreover have "xs \<noteq> [] \<Longrightarrow> a \<noteq> last xs" using new by auto
  then have "h' a = Some n" by (simp add: h'_def)
  ultimately have "timers_at h' xs = timers_at h xs" "timers_at h' ys = timers_at h ys" "h' a = Some n"
    by (auto intro: same)
  then show "timers_at h' (xs @ a # ys) = timers_at h xs @ timer n # timers_at h ys"
    by (simp add: timers_at_def)
qed

lemma takeWhile_timers_at:
  "takeWhile (\<lambda>u. to_time u \<le> t) (timers_at h as) = timers_at h (takeWhile (\<lambda>a. to_time (the (h a)) \<le> t) as)"
  "dropWhile (\<lambda>u. to_time u \<le> t) (timers_at h as) = timers_at h (dropWhile (\<lambda>a. to_time (the (h a)) \<le> t) as)"
  by (simp_all add: timers_at_def takeWhile_map dropWhile_map comp_def)

text \<open>
  What the allocator promises: a null pointer or the address of no node; the clock: a time with less
  than a million microseconds.
\<close>

definition alloc_laws :: "'w eloop_env \<Rightarrow> bool" where
  "alloc_laws env \<longleftrightarrow> (\<forall>h w. fst (malloc_timeout env h w) = 0 \<or> h (fst (malloc_timeout env h w)) = None)"

definition clock_laws :: "'w eloop_env \<Rightarrow> bool" where
  "clock_laws env \<longleftrightarrow> (\<forall>w. 0 \<le> snd (fst (clock_gettime env w)) \<and> snd (fst (clock_gettime env w)) < 1000000000)"

lemma xgettimeofday_normal: "clock_laws env \<Longrightarrow> normal (fst (xgettimeofday env w))"
  unfolding clock_laws_def
  by (drule spec [of _ w]) (auto simp: xgettimeofday_def normal_def split: prod.splits)

text \<open>The timer a registration asks for, with the clock read after the allocation.\<close>

definition new_timer :: "'w eloop_env \<Rightarrow> u32 \<Rightarrow> u32 \<Rightarrow> nat \<Rightarrow> nat \<Rightarrow> nat \<Rightarrow> (nat \<Rightarrow> eloop_timeout option) \<Rightarrow> 'w \<Rightarrow> eloop_timeout"
where
  "new_timer env secs usecs handler eloop_data user_data heap w =
     \<lparr>to_time = timeout_time (fst (xgettimeofday env (snd (malloc_timeout env heap w)))) secs usecs,
      to_eloop_data = eloop_data, to_user_data = user_data, to_handler = handler, to_next = 0\<rparr>"

definition list_frame :: "eloop_data \<Rightarrow> eloop_data \<Rightarrow> bool" where
  "list_frame el el' \<longleftrightarrow> el' = el\<lparr>el_timeout := el_timeout el', el_heap := el_heap el'\<rparr>"

lemma register_timeout_law:
  assumes ok: "timers_ok el" and laws: "alloc_laws env"
  shows "\<exists>rv el' w'. eloop_register_timeout env secs usecs handler eloop_data user_data el w = Some (rv, el', w') \<and>
    timers_ok el' \<and> keeps_others el el' \<and> list_frame el el' \<and>
    (if fst (malloc_timeout env (el_heap el) w) = 0 then rv = - 1 \<and> el' = el
     else rv = 0 \<and> timers el' =
       insert_timer (new_timer env secs usecs handler eloop_data user_data (el_heap el) w) (timers el))"
proof -
  obtain a w1 where al: "malloc_timeout env (el_heap el) w = (a, w1)" by (cases "malloc_timeout env (el_heap el) w")
  obtain now w2 where clk: "xgettimeofday env w1 = (now, w2)" by (cases "xgettimeofday env w1")
  obtain as where as: "chain (el_heap el) (el_timeout el) as" "timers el = timers_at (el_heap el) as" "distinct as"
    using timers_ok_chain [OF ok] by blast
  show ?thesis
  proof (cases "a = 0")
    case True
    then show ?thesis using ok by (simp add: eloop_register_timeout_def al list_frame_def)
  next
    case a: False
    have fresh: "el_heap el a = None"
      using laws [unfolded alloc_laws_def, rule_format, of "el_heap el" w] a by (simp add: al)
    define n where "n = new_timer env secs usecs handler eloop_data user_data (el_heap el) w"
    have n: "to_time n = timeout_time now secs usecs" "timer n = n"
      "n = \<lparr>to_time = timeout_time now secs usecs, to_eloop_data = eloop_data, to_user_data = user_data,
        to_handler = handler, to_next = 0\<rparr>"
      by (simp_all add: n_def new_timer_def al clk timer_def)
    let ?P = "\<lambda>b. to_time (the (el_heap el b)) \<le> to_time n"
    let ?xs = "takeWhile ?P as" and ?ys = "dropWhile ?P as"
    define h' where "h' = (if ?xs = [] then (el_heap el)(a \<mapsto> n\<lparr>to_next := hd (?ys @ [0])\<rparr>)
      else (el_heap el)(a \<mapsto> n\<lparr>to_next := hd (?ys @ [0])\<rparr>, last ?xs \<mapsto> (the (el_heap el (last ?xs)))\<lparr>to_next := a\<rparr>))"
    define el' where "el' = el\<lparr>el_timeout := (if ?xs = [] then a else el_timeout el), el_heap := h'\<rparr>"
    have ch: "chain (el_heap el) (el_timeout el) (?xs @ ?ys)" using as(1) by simp
    note ins = chain_insert [OF ch fresh a, of "n\<lparr>to_next := hd (?ys @ [0])\<rparr>", folded h'_def]
    have ch': "chain (el_heap el') (el_timeout el') (?xs @ a # ?ys)" unfolding el'_def using ins(1) by simp
    from timers_chain [OF ch'] have view: "timers_ok el'" "timers el' = insert_timer n (timers el)"
      using ins(2) by (simp_all add: insert_timer_def as(2) takeWhile_timers_at n(2) el'_def)
    have keeps: "keeps_others el el'"
      unfolding keeps_others_def nodes_chain [OF ch'] nodes_chain [OF as(1)]
    proof (intro allI impI)
      fix p m assume p: "el_heap el p = Some m" "p \<notin> set as"
      have "set (xs @ a # ys) = insert a (set (xs @ ys))" for xs ys :: "nat list" by simp
      from this [of ?xs ?ys] have "set (?xs @ a # ?ys) = insert a (set as)" unfolding takeWhile_dropWhile_id .
      moreover have "p \<noteq> a" using p fresh by auto
      moreover have "?xs \<noteq> [] \<Longrightarrow> p \<noteq> last ?xs" using p(2) last_in_set [of ?xs] set_takeWhileD by fastforce
      ultimately show "el_heap el' p = Some m \<and> p \<notin> set (?xs @ a # ?ys)"
        using p by (auto simp: el'_def h'_def)
    qed
    let ?h = "(el_heap el)(a \<mapsto> n)"
    have reg: "eloop_register_timeout env secs usecs handler eloop_data user_data el w =
        (if el_timeout el = 0 then Some (0, el\<lparr>el_timeout := a, el_heap := ?h\<rparr>, w2)
         else do {
           (prev, tmp) \<leftarrow> find_place ?h (to_time n) 0 (el_timeout el);
           if prev = 0
           then Some (0, el\<lparr>el_timeout := a, el_heap := ?h(a \<mapsto> n\<lparr>to_next := el_timeout el\<rparr>)\<rparr>, w2)
           else do {
             p \<leftarrow> ?h prev;
             Some (0, el\<lparr>el_heap := ?h(a \<mapsto> n\<lparr>to_next := to_next p\<rparr>, prev \<mapsto> p\<lparr>to_next := a\<rparr>)\<rparr>, w2)
           }
         })"
      by (simp only: eloop_register_timeout_def al clk a n(3) Let_def prod.case if_False eloop_timeout.simps)
    have "eloop_register_timeout env secs usecs handler eloop_data user_data el w = Some (0, el', w2)"
    proof (cases "as = []")
      case True
      then have "el_timeout el = 0" using as(1) by simp
      then show ?thesis using True by (simp add: reg el'_def h'_def) (simp add: n(3))
    next
      case False
      then have ne: "el_timeout el \<noteq> 0" using as(1) by (cases as) auto
      have new: "a \<notin> set as" using seg_nodes [OF as(1)] fresh by fastforce
      have same: "takeWhile (\<lambda>b. to_time (the (?h b)) \<le> to_time n) as = ?xs"
        "dropWhile (\<lambda>b. to_time (the (?h b)) \<le> to_time n) as = ?ys"
        using new by (auto intro!: takeWhile_cong dropWhile_cong)
      have "chain ?h (el_timeout el) as" using as(1) new by (simp add: seg_update)
      from find_place_chain [OF this, of "to_time n" 0] have place:
        "find_place ?h (to_time n) 0 (el_timeout el) = Some (last (0 # ?xs), hd (?ys @ [0]))"
        by (simp only: same)
      show ?thesis
      proof (cases "?xs = []")
        case True
        then have "?ys = as" by (metis append_self_conv2 takeWhile_dropWhile_id)
        then have "hd (?ys @ [0]) = el_timeout el" using as(1) False by (cases as) auto
        with True place ne show ?thesis by (simp add: reg el'_def h'_def)
      next
        case xs: False
        have last: "last ?xs \<in> set as" "last ?xs \<noteq> 0" "last ?xs \<noteq> a"
        proof -
          show in_as: "last ?xs \<in> set as" using last_in_set [OF xs] by (blast dest: set_takeWhileD)
          show "last ?xs \<noteq> 0" using seg_nodes [OF as(1) in_as] by simp
          show "last ?xs \<noteq> a" using in_as new by blast
        qed
        then obtain m where m: "el_heap el (last ?xs) = Some m" using seg_nodes [OF as(1)] by blast
        note chain_last_next [OF ch xs m]
        with xs place ne m last show ?thesis by (simp add: reg el'_def h'_def)
      qed
    qed
    then show ?thesis using view keeps a al
      by (intro exI [of _ 0] exI [of _ el'] exI [of _ w2]) (simp add: n_def el'_def list_frame_def)
  qed
qed

subsection \<open>Cancelling timeouts\<close>

text \<open>
  The state of the loop: \<open>ks\<close> are the nodes it has kept, \<open>as\<close> those it still has to look at. What it
  has done in the end: the nodes that match are gone, the others are linked in their order.
\<close>

definition cancelled ::
  "(eloop_timeout \<Rightarrow> bool) \<Rightarrow> nat list \<Rightarrow> nat list \<Rightarrow> eloop_data \<Rightarrow> eloop_data \<Rightarrow> bool" where
  "cancelled P ks as el el' \<longleftrightarrow>
     chain (el_heap el') (el_timeout el') (ks @ filter (\<lambda>a. \<not> P (the (el_heap el a))) as) \<and>
     list_frame el el' \<and> (\<forall>p. p \<notin> set (ks @ as) \<longrightarrow> el_heap el' p = el_heap el p) \<and>
     (\<forall>p \<in> set (ks @ filter (\<lambda>a. \<not> P (the (el_heap el a))) as).
        map_option timer (el_heap el' p) = map_option timer (el_heap el p))"

lemma list_frame_trans: "list_frame a b \<Longrightarrow> list_frame b c \<Longrightarrow> list_frame a c"
  by (cases a, cases b, cases c) (simp add: list_frame_def)

lemma cancelled_step:
  assumes "cancelled P ks as el1 el'" and "list_frame el el1"
    and "\<And>b. b \<in> set as \<Longrightarrow> el_heap el1 b = el_heap el b"
    and "\<And>b. b \<notin> set (ks @ a # as) \<Longrightarrow> el_heap el1 b = el_heap el b"
    and "\<And>b. b \<in> set ks \<Longrightarrow> map_option timer (el_heap el1 b) = map_option timer (el_heap el b)"
    and "P (the (el_heap el a))"
  shows "cancelled P ks (a # as) el el'"
proof -
  have "filter (\<lambda>a. \<not> P (the (el_heap el1 a))) as = filter (\<lambda>a. \<not> P (the (el_heap el a))) as"
    using assms(3) by (intro filter_cong) auto
  with assms show ?thesis unfolding cancelled_def
    by (auto intro: list_frame_trans)
qed

lemma cancel_loop_chain:
  fixes handler eloop_data user_data :: nat
  assumes "seg (el_heap el) (el_timeout el) ks timeout" and "chain (el_heap el) timeout as"
    and "distinct (ks @ as)" and "prev = (if ks = [] then 0 else last ks)"
  defines "P \<equiv> cancels handler eloop_data user_data"
  shows "\<exists>el'. cancel_loop handler eloop_data user_data prev timeout removed el =
      Some (removed + int (length (filter (\<lambda>a. P (the (el_heap el a))) as)), el') \<and> cancelled P ks as el el'"
  using assms(1-4)
proof (induction as arbitrary: ks timeout prev removed el)
  case Nil
  then show ?case
    by (subst cancel_loop.simps) (simp add: cancelled_def list_frame_def)
next
  case (Cons a as)
  from Cons.prems(2) obtain n where n: "timeout = a" "a \<noteq> 0" "el_heap el a = Some n" "chain (el_heap el) (to_next n) as"
    by auto
  have new: "a \<notin> set as" "a \<notin> set ks" using Cons.prems(3) by auto
  show ?case
  proof (cases "P n")
    case False
    have "seg (el_heap el) (el_timeout el) (ks @ [a]) (to_next n)"
      using Cons.prems(1) n by (auto simp: seg_append)
    moreover have "distinct ((ks @ [a]) @ as)" using Cons.prems(3) by simp
    ultimately obtain el' where "cancel_loop handler eloop_data user_data a (to_next n) removed el =
        Some (removed + int (length (filter (\<lambda>a. P (the (el_heap el a))) as)), el')" "cancelled P (ks @ [a]) as el el'"
      using Cons.IH [of el "ks @ [a]" "to_next n" a removed] n(4) by auto
    then show ?thesis using n False
      by (subst cancel_loop.simps) (auto simp: P_def cancelled_def)
  next
    case True
    show ?thesis
    proof (cases ks rule: rev_cases)
      case Nil
      let ?el = "el\<lparr>el_timeout := to_next n, el_heap := (el_heap el)(a := None)\<rparr>"
      have ch: "chain (el_heap ?el) (to_next n) as" using n(4) new by (simp add: seg_update)
      have "seg (el_heap ?el) (el_timeout ?el) [] (to_next n)" "distinct ([] @ as)" using Cons.prems(3) by simp_all
      from Cons.IH [OF this(1) ch this(2) refl, of "removed + 1"] obtain el' where loop: "cancel_loop handler eloop_data user_data 0 (to_next n) (removed + 1) ?el =
          Some (removed + 1 + int (length (filter (\<lambda>a. P (the (el_heap ?el a))) as)), el')" and c: "cancelled P [] as ?el el'"
        by (simp only: if_True simp_thms) blast
      have "cancelled P [] (a # as) el el'"
        by (rule cancelled_step [OF c]) (use new n True in \<open>auto simp: list_frame_def\<close>)
      moreover have "filter (\<lambda>a. P (the (el_heap ?el a))) as = filter (\<lambda>a. P (the (el_heap el a))) as"
        using new by (intro filter_cong) auto
      ultimately show ?thesis using n True loop Nil Cons.prems(4)
        by (subst cancel_loop.simps) (auto simp: P_def)
    next
      case (snoc zs z)
      obtain m where m: "el_heap el z = Some m" "z \<noteq> 0" using seg_nodes [OF Cons.prems(1), of z] snoc by auto
      let ?h = "(el_heap el)(z \<mapsto> m\<lparr>to_next := to_next n\<rparr>, a := None)"
      let ?el = "el\<lparr>el_heap := ?h\<rparr>"
      have z: "z \<noteq> a" "z \<notin> set as" "distinct (zs @ [z])" using Cons.prems(3) new snoc by auto
      have "seg ((el_heap el)(z \<mapsto> m\<lparr>to_next := to_next n\<rparr>)) (el_timeout el) (zs @ [z]) (to_next n)"
        by (rule seg_redirect) (use Cons.prems(1) snoc z m in auto)
      then have sg: "seg (el_heap ?el) (el_timeout ?el) ks (to_next n)"
        using new snoc by (simp add: seg_update)
      have ch: "chain (el_heap ?el) (to_next n) as" using n(4) new z by (simp add: seg_update)
      have "distinct (ks @ as)" "z = (if ks = [] then 0 else last ks)" using Cons.prems(3) snoc by simp_all
      from Cons.IH [OF sg ch this, of "removed + 1"] obtain el' where loop: "cancel_loop handler eloop_data user_data z (to_next n) (removed + 1) ?el =
          Some (removed + 1 + int (length (filter (\<lambda>a. P (the (el_heap ?el a))) as)), el')" and c: "cancelled P ks as ?el el'"
        by blast
      have "cancelled P ks (a # as) el el'"
        by (rule cancelled_step [OF c]) (use new n True z m snoc in \<open>auto simp: list_frame_def\<close>)
      moreover have "filter (\<lambda>a. P (the (el_heap ?el a))) as = filter (\<lambda>a. P (the (el_heap el a))) as"
        using new z by (intro filter_cong) auto
      ultimately show ?thesis using n True loop snoc m Cons.prems(4)
        by (subst cancel_loop.simps) (auto simp: P_def)
    qed
  qed
qed

lemma cancel_timeout_law:
  assumes "timers_ok el"
  shows "\<exists>el'. eloop_cancel_timeout handler eloop_data user_data el =
      Some (int (length (filter (cancels handler eloop_data user_data) (timers el))), el') \<and>
    timers_ok el' \<and> keeps_others el el' \<and> list_frame el el' \<and>
    timers el' = filter (\<lambda>t. \<not> cancels handler eloop_data user_data t) (timers el)"
proof -
  let ?P = "cancels handler eloop_data user_data"
  obtain as where as: "chain (el_heap el) (el_timeout el) as" "timers el = timers_at (el_heap el) as" "distinct as"
    using timers_ok_chain [OF assms] by blast
  let ?keep = "filter (\<lambda>a. \<not> ?P (the (el_heap el a))) as"
  obtain el' where loop: "eloop_cancel_timeout handler eloop_data user_data el =
      Some (int (length (filter (\<lambda>a. ?P (the (el_heap el a))) as)), el')" and c: "cancelled ?P [] as el el'"
    using cancel_loop_chain [of el "[]" "el_timeout el" as 0 handler eloop_data user_data 0] as
    by (auto simp: eloop_cancel_timeout_def)
  have ch: "chain (el_heap el') (el_timeout el') ?keep" using c by (simp add: cancelled_def)
  have "timers_at (el_heap el') ?keep = timers_at (el_heap el) ?keep"
  proof (rule timers_at_cong)
    fix a assume a: "a \<in> set ?keep"
    then obtain n where "el_heap el a = Some n" using seg_nodes [OF as(1)] by auto
    moreover have "map_option timer (el_heap el' a) = map_option timer (el_heap el a)"
      using c a by (simp add: cancelled_def)
    ultimately show "\<exists>n n'. el_heap el' a = Some n \<and> el_heap el a = Some n' \<and> timer n = timer n'" by auto
  qed
  moreover have "timers_at (el_heap el) ?keep = filter (\<lambda>t. \<not> ?P t) (timers el)"
    by (simp add: timers_at_def as(2) filter_map comp_def)
  moreover have "length (filter ?P (timers el)) = length (filter (\<lambda>a. ?P (the (el_heap el a))) as)"
    by (simp add: timers_at_def as(2) filter_map comp_def)
  moreover have "keeps_others el el'"
    unfolding keeps_others_def nodes_chain [OF ch] nodes_chain [OF as(1)]
    using c by (auto simp: cancelled_def)
  ultimately show ?thesis using timers_chain [OF ch] loop c by (simp add: cancelled_def)
qed

subsection \<open>Taking the first timeout, and destroying them all\<close>

lemma timers_head:
  assumes "timers_ok el" and "el_timeout el \<noteq> 0"
  obtains n where "el_heap el (el_timeout el) = Some n"
    and "timers_ok (el\<lparr>el_timeout := to_next n\<rparr>)" and "timers el = timer n # timers (el\<lparr>el_timeout := to_next n\<rparr>)"
    and "el_timeout el \<notin> nodes (el\<lparr>el_timeout := to_next n\<rparr>)"
    and "nodes (el\<lparr>el_timeout := to_next n\<rparr>) \<subseteq> nodes el"
proof -
  obtain as where as: "chain (el_heap el) (el_timeout el) as" "timers el = timers_at (el_heap el) as" "distinct as"
    using timers_ok_chain [OF assms(1)] by blast
  obtain a as' where *: "as = a # as'" using as(1) assms(2) by (cases as) auto
  have "chain (el_heap el) (el_timeout el) (a # as')" using as(1) unfolding * .
  then obtain n where n: "el_heap el (el_timeout el) = Some n" "chain (el_heap el) (to_next n) as'"
    and a: "a = el_timeout el" unfolding seg.simps by metis
  have as': "as = el_timeout el # as'" using * a by simp
  have notin: "el_timeout el \<notin> set as'" using as(3) as' by simp
  let ?el = "el\<lparr>el_timeout := to_next n\<rparr>"
  have ch: "chain (el_heap ?el) (el_timeout ?el) as'" using n(2) by simp
  show thesis
  proof (rule that [OF n(1)])
    show "timers_ok ?el" "timers el = timer n # timers ?el"
      using timers_chain [OF ch] as(2) as' n(1) by (simp_all add: timers_at_def)
    show "el_timeout el \<notin> nodes ?el" "nodes ?el \<subseteq> nodes el"
      using nodes_chain [OF ch] nodes_chain [OF as(1)] as' notin by auto
  qed
qed

lemma timers_Nil_iff: "timers_ok el \<Longrightarrow> timers el = [] \<longleftrightarrow> el_timeout el = 0"
proof -
  assume ok: "timers_ok el"
  show ?thesis
  proof (cases "el_timeout el = 0")
    case True
    have "walk (el_heap el) 0 = Some []" by (subst walk.simps) simp
    with True show ?thesis by (simp add: timers_def)
  next
    case False
    from timers_head [OF ok this] obtain n where "timers el = timer n # timers (el\<lparr>el_timeout := to_next n\<rparr>)" .
    with False show ?thesis by simp
  qed
qed

lemma free_timeouts_chain:
  "chain h p as \<Longrightarrow> distinct as \<Longrightarrow> free_timeouts p h = Some (\<lambda>a. if a \<in> set as then None else h a)"
proof (induction as arbitrary: p h)
  case Nil
  then show ?case by (subst free_timeouts.simps) simp
next
  case (Cons a as)
  then obtain n where n: "p = a" "a \<noteq> 0" "h a = Some n" "chain (h(a := None)) (to_next n) as"
    by (auto simp: seg_update)
  have "free_timeouts p h = free_timeouts (to_next n) (h(a := None))"
    using n by (subst free_timeouts.simps) simp
  also have "\<dots> = Some (\<lambda>b. if b \<in> set as then None else (h(a := None)) b)"
    by (rule Cons.IH [OF n(4)]) (use Cons.prems(2) in simp)
  also have "(\<lambda>b. if b \<in> set as then None else (h(a := None)) b) = (\<lambda>b. if b \<in> set (a # as) then None else h b)"
    by auto
  finally show ?case .
qed

lemma eloop_destroy_law:
  assumes "timers_ok el" and "\<not> el_freed el"
  shows "\<exists>h. eloop_destroy el = Some (el\<lparr>el_heap := h, el_freed := True\<rparr>) \<and>
    h = (\<lambda>a. if a \<in> nodes el then None else el_heap el a)"
proof -
  obtain as where as: "chain (el_heap el) (el_timeout el) as" "distinct as"
    using timers_ok_chain [OF assms(1)] by blast
  with free_timeouts_chain [OF as] assms(2) show ?thesis by (simp add: eloop_destroy_def nodes_chain)
qed

subsection \<open>The contract of a timer queue\<close>

text \<open>
  What the event loop relies on: registering puts a timer behind those that are not later, cancelling
  filters, and taking one takes the head. From that it follows that the queue stays in the order of
  the times, that timers of the same time keep the order of their registration, and that the one
  taken is the earliest.
\<close>

locale timer_queue =
  fixes inv :: "'q \<Rightarrow> bool"
    and view :: "'q \<Rightarrow> 't list"
    and due :: "'t \<Rightarrow> 'k::linorder"
    and added :: "'t \<Rightarrow> 'q \<Rightarrow> 'q \<Rightarrow> bool"
    and dropped :: "('t \<Rightarrow> bool) \<Rightarrow> 'q \<Rightarrow> 'q \<Rightarrow> bool"
    and taken :: "'t \<Rightarrow> 'q \<Rightarrow> 'q \<Rightarrow> bool"
  assumes add_law: "inv q \<Longrightarrow> added t q q' \<Longrightarrow> inv q' \<and>
      view q' = takeWhile (\<lambda>u. due u \<le> due t) (view q) @ t # dropWhile (\<lambda>u. due u \<le> due t) (view q)"
    and drop_law: "inv q \<Longrightarrow> dropped P q q' \<Longrightarrow> inv q' \<and> view q' = filter (\<lambda>u. \<not> P u) (view q)"
    and take_law: "inv q \<Longrightarrow> taken t q q' \<Longrightarrow> inv q' \<and> view q = t # view q'"
begin

lemma sorted_insert:
  "sorted (map due ts) \<Longrightarrow>
   sorted (map due (takeWhile (\<lambda>u. due u \<le> due t) ts @ t # dropWhile (\<lambda>u. due u \<le> due t) ts))"
proof (induction ts)
  case (Cons u ts)
  show ?case
  proof (cases "due u \<le> due t")
    case True
    have "\<forall>x \<in> set (takeWhile (\<lambda>u. due u \<le> due t) ts @ t # dropWhile (\<lambda>u. due u \<le> due t) ts). due u \<le> due x"
      using Cons.prems True by (auto dest: set_takeWhileD set_dropWhileD)
    with Cons True show ?thesis by auto
  qed (use Cons.prems in auto)
qed simp

lemma add_sorted: "inv q \<Longrightarrow> added t q q' \<Longrightarrow> sorted (map due (view q)) \<Longrightarrow> sorted (map due (view q'))"
  using sorted_insert [of "view q" t] add_law by simp

lemma drop_sorted: "inv q \<Longrightarrow> dropped P q q' \<Longrightarrow> sorted (map due (view q)) \<Longrightarrow> sorted (map due (view q'))"
  using drop_law [of q P q'] by (simp add: sorted_filter)

lemma take_sorted: "inv q \<Longrightarrow> taken t q q' \<Longrightarrow> sorted (map due (view q)) \<Longrightarrow> sorted (map due (view q'))"
  using take_law [of q t q'] by simp

lemma take_earliest:
  "inv q \<Longrightarrow> taken t q q' \<Longrightarrow> sorted (map due (view q)) \<Longrightarrow> u \<in> set (view q') \<Longrightarrow> due t \<le> due u"
  using take_law [of q t q'] by simp

lemma add_set: "inv q \<Longrightarrow> added t q q' \<Longrightarrow> set (view q') = insert t (set (view q))"
proof -
  assume *: "inv q" "added t q q'"
  have "set (xs @ t # ys) = insert t (set (xs @ ys))" for xs ys by simp
  then have "set (view q') = insert t (set (takeWhile (\<lambda>u. due u \<le> due t) (view q) @ dropWhile (\<lambda>u. due u \<le> due t) (view q)))"
    using add_law [OF *] by metis
  then show ?thesis unfolding takeWhile_dropWhile_id .
qed

lemma add_fifo:
  assumes "inv q" and "added t q q'" and "sorted (map due (view q))"
  shows "filter (\<lambda>u. due u = due t) (view q') = filter (\<lambda>u. due u = due t) (view q) @ [t]"
proof -
  let ?same = "filter (\<lambda>u. due u = due t)" and ?early = "\<lambda>u. due u \<le> due t"
  have late: "?same (dropWhile ?early ts) = []" if "sorted (map due ts)" for ts
    using that by (induction ts) (auto simp: filter_empty_conv)
  have "?same (view q) = ?same (takeWhile ?early (view q)) @ ?same (dropWhile ?early (view q))"
    by (simp only: takeWhile_dropWhile_id flip: filter_append)
  then have "?same (view q) = ?same (takeWhile ?early (view q))" unfolding late [OF assms(3)] append_Nil2 .
  with add_law [OF assms(1,2)] late [OF assms(3)] show ?thesis by simp
qed

end

text \<open>The operations of the event loop as steps on its timers.\<close>

definition timer_added :: "'w eloop_env \<Rightarrow> eloop_timeout \<Rightarrow> eloop_data \<Rightarrow> eloop_data \<Rightarrow> bool" where
  "timer_added env t el el' \<longleftrightarrow> alloc_laws env \<and> (\<exists>w w' secs usecs h d u.
     fst (malloc_timeout env (el_heap el) w) \<noteq> 0 \<and>
     eloop_register_timeout env secs usecs h d u el w = Some (0, el', w') \<and>
     t = new_timer env secs usecs h d u (el_heap el) w)"

definition timer_dropped :: "(eloop_timeout \<Rightarrow> bool) \<Rightarrow> eloop_data \<Rightarrow> eloop_data \<Rightarrow> bool" where
  "timer_dropped P el el' \<longleftrightarrow> (\<exists>h d u n. P = cancels h d u \<and> eloop_cancel_timeout h d u el = Some (n, el'))"

definition timer_taken :: "eloop_timeout \<Rightarrow> eloop_data \<Rightarrow> eloop_data \<Rightarrow> bool" where
  "timer_taken t el el' \<longleftrightarrow> (\<exists>n. el_timeout el \<noteq> 0 \<and> el_heap el (el_timeout el) = Some n \<and> t = timer n \<and>
     el' = el\<lparr>el_timeout := to_next n\<rparr>)"

interpretation tq: timer_queue timers_ok timers to_time "timer_added env" timer_dropped timer_taken
  for env :: "'w eloop_env"
proof
  fix q q' :: eloop_data and t
  assume ok: "timers_ok q" and "timer_added env t q q'"
  then obtain w w' secs usecs h d u where laws: "alloc_laws env" "fst (malloc_timeout env (el_heap q) w) \<noteq> 0"
    and reg: "eloop_register_timeout env secs usecs h d u q w = Some (0, q', w')"
    and t: "t = new_timer env secs usecs h d u (el_heap q) w"
    unfolding timer_added_def by blast
  from register_timeout_law [OF ok laws(1), of secs usecs h d u w] reg laws(2)
  show "timers_ok q' \<and> timers q' =
      takeWhile (\<lambda>u. to_time u \<le> to_time t) (timers q) @ t # dropWhile (\<lambda>u. to_time u \<le> to_time t) (timers q)"
    by (auto simp: t insert_timer_def)
next
  fix q q' :: eloop_data and P
  assume ok: "timers_ok q" and "timer_dropped P q q'"
  then obtain h d u n where "P = cancels h d u" "eloop_cancel_timeout h d u q = Some (n, q')"
    unfolding timer_dropped_def by blast
  with cancel_timeout_law [OF ok, of h d u]
  show "timers_ok q' \<and> timers q' = filter (\<lambda>u. \<not> P u) (timers q)" by auto
next
  fix q q' :: eloop_data and t
  assume ok: "timers_ok q" and "timer_taken t q q'"
  then obtain n where n: "el_timeout q \<noteq> 0" "el_heap q (el_timeout q) = Some n" "t = timer n"
    "q' = q\<lparr>el_timeout := to_next n\<rparr>"
    unfolding timer_taken_def by blast
  show "timers_ok q' \<and> timers q = t # timers q'"
    using timers_head [OF ok n(1)] n(2-4) by (metis option.inject)
qed

end
