(* ===== verification/Eloop_Run.thy ===== *)
theory Eloop_Run
  imports Eloop_Timers
begin

text \<open>
  The loop of the event loop: what a handler may do to it, the invariant that every operation and
  every pass keeps, and that a pass always comes to its end.
\<close>

subsection \<open>The invariant\<close>

text \<open>
  The pointers lead through live nodes to a null pointer, the timers are in the order of their times,
  every registered socket fits a descriptor set and the bound that \<open>select\<close> is given, and no signal
  is counted while the count of all of them is zero.
\<close>

definition reader_ok :: "int \<Rightarrow> eloop_sock \<Rightarrow> bool" where
  "reader_ok max_sock r \<longleftrightarrow> 0 \<le> es_sock r \<and> es_sock r < FD_SETSIZE \<and> es_sock r \<le> max_sock"

definition timers_sorted :: "eloop_data \<Rightarrow> bool" where
  "timers_sorted el \<longleftrightarrow> sorted (map to_time (timers el)) \<and> (\<forall>t \<in> set (timers el). normal (to_time t))"

definition signals_ok :: "eloop_data \<Rightarrow> bool" where
  "signals_ok el \<longleftrightarrow> 0 \<le> el_signaled el \<and> (\<forall>s \<in> set (el_signals el). 0 \<le> sg_signaled s) \<and>
     (el_signaled el = 0 \<longrightarrow> (\<forall>s \<in> set (el_signals el). sg_signaled s = 0))"

definition eloop_ok :: "eloop_data \<Rightarrow> bool" where
  "eloop_ok el \<longleftrightarrow> \<not> el_freed el \<and> timers_ok el \<and> timers_sorted el \<and>
     (\<forall>r \<in> set (el_readers el). reader_ok (el_max_sock el) r)"

lemma eloop_init_ok: "eloop_ok (eloop_init user_data el)" "signals_ok (eloop_init user_data el)"
  "timers (eloop_init user_data el) = []"
proof -
  have "walk (el_heap el) 0 = Some []" by (subst walk.simps) simp
  then show "timers (eloop_init user_data el) = []" by (simp add: timers_def eloop_init_def)
  then show "eloop_ok (eloop_init user_data el)" "signals_ok (eloop_init user_data el)"
    using \<open>walk (el_heap el) 0 = Some []\<close>
    by (simp_all add: eloop_ok_def signals_ok_def timers_ok_def timers_sorted_def eloop_init_def)
qed

text \<open>Updates that touch no timer and no reader.\<close>

lemma eloop_ok_cong:
  assumes "el_heap el' = el_heap el" "el_timeout el' = el_timeout el" "el_readers el' = el_readers el"
    "el_max_sock el' = el_max_sock el" "el_freed el' = el_freed el"
  shows "eloop_ok el' = eloop_ok el"
  using assms timers_cong [of el' el] by (simp add: eloop_ok_def timers_sorted_def)

subsection \<open>What a handler may do\<close>

text \<open>
  A handler works on the event loop by its operations only. A call is one of them; sockets are ones
  that fit a descriptor set.
\<close>

inductive eloop_call :: "'w eloop_env \<Rightarrow> eloop_data \<times> 'w \<Rightarrow> eloop_data \<times> 'w \<Rightarrow> bool" for env where
  call_world: "eloop_call env (el, w) (el, w')"
| call_register_sock: "0 \<le> sock \<Longrightarrow> sock < FD_SETSIZE \<Longrightarrow>
    eloop_register_read_sock env sock h d u el w = Some (rv, el', w') \<Longrightarrow> eloop_call env (el, w) (el', w')"
| call_unregister_sock: "eloop_unregister_read_sock sock el = Some el' \<Longrightarrow> eloop_call env (el, w) (el', w)"
| call_register_timeout: "eloop_register_timeout env secs usecs h d u el w = Some (rv, el', w') \<Longrightarrow>
    eloop_call env (el, w) (el', w')"
| call_cancel_timeout: "eloop_cancel_timeout h d u el = Some (n, el') \<Longrightarrow> eloop_call env (el, w) (el', w)"
| call_register_signal: "eloop_register_signal env sig h u el w = Some (rv, el', w') \<Longrightarrow>
    eloop_call env (el, w) (el', w')"
| call_terminate: "eloop_call env (el, w) (eloop_terminate el, w)"

text \<open>What such calls leave alone: nodes outside the list, and the readers unless the flag is set.\<close>

definition call_frame :: "eloop_data \<Rightarrow> eloop_data \<Rightarrow> bool" where
  "call_frame el el' \<longleftrightarrow> keeps_others el el' \<and> el_signaled el' = el_signaled el \<and>
     (el_readers el' \<noteq> el_readers el \<longrightarrow> el_reader_table_changed el') \<and>
     (el_reader_table_changed el \<longrightarrow> el_reader_table_changed el') \<and>
     (\<exists>ss. el_signals el' = el_signals el @ ss \<and> (\<forall>s \<in> set ss. sg_signaled s = 0))"

lemma call_frame_refl [simp]: "call_frame el el"
  by (simp add: call_frame_def)

lemma call_frame_trans:
  assumes "call_frame a b" and "call_frame b c"
  shows "call_frame a c"
proof -
  obtain s1 where "el_signals b = el_signals a @ s1" "\<forall>s \<in> set s1. sg_signaled s = 0"
    using assms(1) unfolding call_frame_def by blast
  moreover obtain s2 where "el_signals c = el_signals b @ s2" "\<forall>s \<in> set s2. sg_signaled s = 0"
    using assms(2) unfolding call_frame_def by blast
  ultimately have "\<exists>ss. el_signals c = el_signals a @ ss \<and> (\<forall>s \<in> set ss. sg_signaled s = 0)"
    by (intro exI [of _ "s1 @ s2"]) auto
  moreover have "el_readers c \<noteq> el_readers a \<longrightarrow> el_reader_table_changed c"
    using assms by (cases "el_readers b = el_readers a") (simp_all add: call_frame_def)
  ultimately show ?thesis using assms keeps_others_trans [of a b c] by (simp add: call_frame_def)
qed

lemma list_frame_fields:
  "list_frame el el' \<Longrightarrow> el_readers el' = el_readers el \<and> el_max_sock el' = el_max_sock el \<and>
     el_signals el' = el_signals el \<and> el_signaled el' = el_signaled el \<and> el_freed el' = el_freed el \<and>
     el_reader_table_changed el' = el_reader_table_changed el \<and> el_terminate el' = el_terminate el"
  by (cases el, cases el') (simp add: list_frame_def)

lemma set_take_drop_subset: "set (take i xs @ drop j xs) \<subseteq> set xs"
  by (auto dest: in_set_takeD in_set_dropD)

text \<open>One call keeps the invariant and the frame.\<close>

lemma register_timeout_ok:
  assumes ok: "eloop_ok el" and laws: "alloc_laws env" "clock_laws env"
    and reg: "eloop_register_timeout env secs usecs h d u el w = Some (rv, el', w')"
  shows "eloop_ok el' \<and> call_frame el el'"
proof -
  have t: "timers_ok el" using ok by (simp add: eloop_ok_def)
  from register_timeout_law [OF t laws(1), of secs usecs h d u w] reg
  have *: "timers_ok el'" "keeps_others el el'" "list_frame el el'"
    and out: "if fst (malloc_timeout env (el_heap el) w) = 0 then el' = el else rv = 0 \<and>
      timers el' = insert_timer (new_timer env secs usecs h d u (el_heap el) w) (timers el)" by auto
  note frame = list_frame_fields [OF *(3)]
  have "timers_sorted el'"
  proof (cases "fst (malloc_timeout env (el_heap el) w) = 0")
    case True
    then show ?thesis using out ok by (simp add: eloop_ok_def)
  next
    case False
    let ?t = "new_timer env secs usecs h d u (el_heap el) w"
    have add: "timer_added env ?t el el'"
      unfolding timer_added_def using laws(1) False reg out by (simp only: if_False) blast
    have "normal (to_time ?t)"
      by (simp add: new_timer_def timeout_time_normal xgettimeofday_normal [OF laws(2)])
    with tq.add_sorted [OF t add] tq.add_set [OF t add] ok show ?thesis
      by (auto simp: timers_sorted_def eloop_ok_def)
  qed
  then show ?thesis using * frame ok by (simp add: eloop_ok_def call_frame_def)
qed

lemma cancel_timeout_ok:
  assumes ok: "eloop_ok el" and can: "eloop_cancel_timeout h d u el = Some (n, el')"
  shows "eloop_ok el' \<and> call_frame el el'"
proof -
  have t: "timers_ok el" using ok by (simp add: eloop_ok_def)
  from cancel_timeout_law [OF t, of h d u] can
  have *: "timers_ok el'" "keeps_others el el'" "list_frame el el'"
    "timers el' = filter (\<lambda>t. \<not> cancels h d u t) (timers el)" by auto
  have "timer_dropped (cancels h d u) el el'" unfolding timer_dropped_def using can by blast
  from tq.drop_sorted [OF t this] have "timers_sorted el'"
    using ok *(4) by (auto simp: timers_sorted_def eloop_ok_def)
  then show ?thesis using * list_frame_fields [OF *(3)] ok by (simp add: eloop_ok_def call_frame_def)
qed

lemma eloop_call_ok:
  assumes laws: "alloc_laws env" "clock_laws env" and call: "eloop_call env s s'" and ok: "eloop_ok (fst s)"
  shows "eloop_ok (fst s') \<and> call_frame (fst s) (fst s')"
  using call ok
proof cases
  case (call_register_sock sock h d u el w rv el' w')
  have "reader_ok (el_max_sock el) r \<Longrightarrow> el_max_sock el < sock \<Longrightarrow> reader_ok sock r" for r
    by (simp add: reader_ok_def)
  moreover have "reader_ok m \<lparr>es_sock = sock, es_eloop_data = d, es_user_data = u, es_handler = h\<rparr> \<longleftrightarrow> sock \<le> m" for m
    using call_register_sock by (simp add: reader_ok_def)
  ultimately show ?thesis using call_register_sock ok timers_cong [of el' el]
    by (auto simp: eloop_register_read_sock_def eloop_ok_def timers_sorted_def call_frame_def
        keeps_others_def split: if_splits prod.splits)
next
  case (call_unregister_sock sock el el' w)
  then have "set (el_readers el') \<subseteq> set (el_readers el)" and
    "el' = el \<or> el' = el\<lparr>el_readers := el_readers el', el_reader_table_changed := True\<rparr>"
    by (auto simp: eloop_unregister_read_sock_def Let_def split: if_splits dest: in_set_takeD in_set_dropD)
  then have f: "set (el_readers el') \<subseteq> set (el_readers el)" "el_heap el' = el_heap el" "el_timeout el' = el_timeout el"
    "el_freed el' = el_freed el" "el_max_sock el' = el_max_sock el" "el_signals el' = el_signals el"
    "el_signaled el' = el_signaled el" "el_reader_table_changed el' \<or> el' = el"
    by (cases el', auto)+
  then show ?thesis using call_unregister_sock(1,2) ok timers_cong [OF f(2,3)]
    by (auto simp: eloop_ok_def timers_sorted_def call_frame_def keeps_others_def)
next
  case (call_register_timeout secs usecs h d u el w rv el' w')
  with register_timeout_ok [OF _ laws] ok show ?thesis by auto
next
  case (call_cancel_timeout h d u el n el' w)
  with cancel_timeout_ok ok show ?thesis by auto
next
  case (call_register_signal sig h u el w rv el' w')
  then show ?thesis using ok timers_cong [of el' el]
    by (auto simp: eloop_register_signal_def eloop_ok_def timers_sorted_def call_frame_def
        keeps_others_def split: if_splits prod.splits)
next
  case (call_terminate el w)
  then show ?thesis using ok timers_cong [of "eloop_terminate el" el]
    by (auto simp: eloop_terminate_def eloop_ok_def timers_sorted_def call_frame_def keeps_others_def)
qed auto

lemma eloop_calls_ok:
  assumes "alloc_laws env" "clock_laws env" and "(eloop_call env)\<^sup>*\<^sup>* s s'" and "eloop_ok (fst s)"
  shows "eloop_ok (fst s') \<and> call_frame (fst s) (fst s')"
  using assms(3)
proof (induction rule: rtranclp_induct)
  case (step s1 s2)
  with eloop_call_ok [OF assms(1,2) step.hyps(2)] show ?case by (blast intro: call_frame_trans)
qed (use assms(4) in simp)

subsection \<open>The handlers\<close>

text \<open>
  Every handler returns, and has worked on the event loop by calls. \<open>select\<close> returns signals and ready
  sockets as it likes.
\<close>

definition handler_laws :: "'w eloop_env \<Rightarrow> bool" where
  "handler_laws env \<longleftrightarrow> alloc_laws env \<and> clock_laws env \<and>
     (\<forall>h d u el w. eloop_ok el \<longrightarrow> (\<exists>s. timeout_handler env h d u el w = Some s \<and> (eloop_call env)\<^sup>*\<^sup>* (el, w) s)) \<and>
     (\<forall>h sock d u el w. eloop_ok el \<longrightarrow> (\<exists>s. read_handler env h sock d u el w = Some s \<and> (eloop_call env)\<^sup>*\<^sup>* (el, w) s)) \<and>
     (\<forall>h sig d u el w. eloop_ok el \<longrightarrow> (\<exists>s. signal_handler env h sig d u el w = Some s \<and> (eloop_call env)\<^sup>*\<^sup>* (el, w) s))"

lemma handler_result:
  assumes "handler_laws env" and "eloop_ok el" and "(eloop_call env)\<^sup>*\<^sup>* (el, w) s"
  shows "eloop_ok (fst s) \<and> call_frame el (fst s)"
  using eloop_calls_ok [OF _ _ assms(3)] assms(1,2) by (simp add: handler_laws_def)

lemma timeout_handler_ok:
  assumes "handler_laws env" and "eloop_ok el"
  obtains el' w' where "timeout_handler env h d u el w = Some (el', w')" "eloop_ok el'" "call_frame el el'"
proof -
  obtain s where s: "timeout_handler env h d u el w = Some s" "(eloop_call env)\<^sup>*\<^sup>* (el, w) s"
    using assms unfolding handler_laws_def by meson
  with handler_result [OF assms s(2)] that show thesis by (cases s) auto
qed

lemma read_handler_ok:
  assumes "handler_laws env" and "eloop_ok el"
  obtains el' w' where "read_handler env h sock d u el w = Some (el', w')" "eloop_ok el'" "call_frame el el'"
proof -
  obtain s where s: "read_handler env h sock d u el w = Some s" "(eloop_call env)\<^sup>*\<^sup>* (el, w) s"
    using assms unfolding handler_laws_def by meson
  with handler_result [OF assms s(2)] that show thesis by (cases s) auto
qed

lemma signal_handler_ok:
  assumes "handler_laws env" and "eloop_ok el"
  obtains el' w' where "signal_handler env h sig d u el w = Some (el', w')" "eloop_ok el'" "call_frame el el'"
proof -
  obtain s where s: "signal_handler env h sig d u el w = Some s" "(eloop_call env)\<^sup>*\<^sup>* (el, w) s"
    using assms unfolding handler_laws_def by meson
  with handler_result [OF assms s(2)] that show thesis by (cases s) auto
qed

subsection \<open>Signals\<close>

definition pending :: "eloop_signal list \<Rightarrow> eloop_signal list" where
  "pending ss = filter (\<lambda>s. sg_signaled s \<noteq> 0) ss"

lemma pending_drop_update:
  "i < length ss \<Longrightarrow> pending (drop (Suc i) (ss[i := s])) = pending (drop (Suc i) ss)"
  by (simp add: drop_update_swap)

text \<open>
  The loop over the signals ends, although a handler may register further ones: those are not
  pending. Afterwards no signal is pending.
\<close>

lemma signal_loop_ok:
  assumes laws: "handler_laws env"
  shows "eloop_ok el \<Longrightarrow> \<forall>s \<in> set (take i (el_signals el)). sg_signaled s = 0 \<Longrightarrow>
    \<exists>el' w'. signal_loop env i el w = Some (el', w') \<and> eloop_ok el' \<and> el_signaled el' = el_signaled el \<and>
      (\<forall>s \<in> set (el_signals el'). sg_signaled s = 0)"
proof (induction "(length (pending (drop i (el_signals el))), length (el_signals el) - i)" arbitrary: i el w
    rule: wf_induct_rule [OF wf_lex_prod [OF wf_less_than wf_less_than]])
  case 1
  let ?ss = "el_signals el"
  show ?case
  proof (cases "i < length ?ss")
    case False
    then show ?thesis using 1(2,3) by (subst signal_loop.simps) simp
  next
    case i: True
    let ?s = "?ss ! i"
    have drop: "drop i ?ss = ?s # drop (Suc i) ?ss" using i by (simp add: Cons_nth_drop_Suc)
    have take: "take (Suc i) ss = take i ss @ [ss ! i]" if "i < length ss" for ss :: "eloop_signal list"
      using that by (simp add: take_Suc_conv_app_nth)
    show ?thesis
    proof (cases "sg_signaled ?s = 0")
      case True
      have "((length (pending (drop (Suc i) ?ss)), length ?ss - Suc i), (length (pending (drop i ?ss)), length ?ss - i))
          \<in> less_than <*lex*> less_than"
        using i True by (simp add: drop pending_def)
      moreover have "\<forall>s \<in> set (take (Suc i) ?ss). sg_signaled s = 0" using 1(3) True i by (simp add: take)
      ultimately obtain el' w' where "signal_loop env (Suc i) el w = Some (el', w')" "eloop_ok el'"
        "el_signaled el' = el_signaled el" "\<forall>s \<in> set (el_signals el'). sg_signaled s = 0"
        using 1(1) [of "Suc i" el w] 1(2) by auto
      moreover have "signal_loop env i el w = signal_loop env (Suc i) el w"
        using i True 1(2) by (subst signal_loop.simps) (simp add: eloop_ok_def)
      ultimately show ?thesis by simp
    next
      case False
      let ?el = "el\<lparr>el_signals := ?ss[i := ?s\<lparr>sg_signaled := 0\<rparr>]\<rparr>"
      have ok: "eloop_ok ?el" using 1(2) by (simp add: eloop_ok_cong [of ?el el])
      obtain el1 w1 where h: "signal_handler env (sg_handler ?s) (sg_sig ?s) (el_user_data el) (sg_user_data ?s) ?el w = Some (el1, w1)"
        and ok1: "eloop_ok el1" and frame: "call_frame ?el el1"
        using signal_handler_ok [OF laws ok] by metis
      from frame obtain ns where ns: "el_signals el1 = ?ss[i := ?s\<lparr>sg_signaled := 0\<rparr>] @ ns" "\<forall>s \<in> set ns. sg_signaled s = 0"
        and sg: "el_signaled el1 = el_signaled el" by (auto simp: call_frame_def)
      have "pending ns = []" using ns(2) by (simp add: pending_def filter_empty_conv)
      then have "pending (drop (Suc i) (el_signals el1)) = pending (drop (Suc i) ?ss)"
        using i pending_drop_update [OF i] unfolding ns(1) by (simp add: pending_def)
      moreover have "length (pending (drop i ?ss)) = Suc (length (pending (drop (Suc i) ?ss)))"
        using False by (simp add: drop pending_def)
      ultimately have less: "((length (pending (drop (Suc i) (el_signals el1))), length (el_signals el1) - Suc i),
          (length (pending (drop i ?ss)), length ?ss - i)) \<in> less_than <*lex*> less_than" by simp
      have "\<forall>s \<in> set (take (Suc i) (el_signals el1)). sg_signaled s = 0"
        using 1(3) i unfolding ns(1) by (simp add: take take_update_swap list_update_append)
      with 1(1) [OF less ok1, of w1] obtain el' w' where "signal_loop env (Suc i) el1 w1 = Some (el', w')"
        "eloop_ok el'" "el_signaled el' = el_signaled el" "\<forall>s \<in> set (el_signals el'). sg_signaled s = 0"
        unfolding sg by blast
      moreover have "signal_loop env i el w = signal_loop env (Suc i) el1 w1"
        using i False 1(2) h by (subst signal_loop.simps) (simp add: eloop_ok_def)
      ultimately show ?thesis by simp
    qed
  qed
qed

lemma process_pending_signals_ok:
  assumes "handler_laws env" and "eloop_ok el" and "signals_ok el"
  shows "\<exists>el' w'. eloop_process_pending_signals env el w = Some (el', w') \<and> eloop_ok el' \<and>
    el_signaled el' = 0 \<and> (\<forall>s \<in> set (el_signals el'). sg_signaled s = 0)"
proof (cases "el_signaled el = 0")
  case True
  with assms(2,3) show ?thesis by (simp add: eloop_process_pending_signals_def signals_ok_def)
next
  case False
  define el1 where "el1 = (if el_pending_terminate el then el\<lparr>el_signaled := 0, el_pending_terminate := False\<rparr> else el\<lparr>el_signaled := 0\<rparr>)"
  define w1 where "w1 = (if el_pending_terminate el then set_alarm env 0 w else w)"
  have "eloop_ok el1" using assms(2) eloop_ok_cong [of el1 el] by (simp add: el1_def)
  moreover have "eloop_process_pending_signals env el w = signal_loop env 0 el1 w1"
    using False by (simp add: eloop_process_pending_signals_def el1_def w1_def)
  moreover have "el_signaled el1 = 0" by (simp add: el1_def)
  ultimately show ?thesis using signal_loop_ok [OF assms(1), of el1 0 w1] by simp
qed

lemma mark_signaled_ok:
  "\<forall>s \<in> set ss. 0 \<le> sg_signaled s \<Longrightarrow> \<forall>s \<in> set (mark_signaled sig ss). 0 \<le> sg_signaled s"
  by (induction ss) auto

lemma handle_signal_ok:
  assumes "eloop_ok el" and "signals_ok el"
  shows "\<exists>el' w'. eloop_handle_signal env sig el w = Some (el', w') \<and> eloop_ok el' \<and> signals_ok el' \<and>
    list_frame el (el'\<lparr>el_signals := el_signals el, el_signaled := el_signaled el, el_pending_terminate := el_pending_terminate el\<rparr>)"
proof -
  obtain el' w' where r: "eloop_handle_signal env sig el w = Some (el', w')"
    using assms(1) by (cases "(sig = SIGINT \<or> sig = SIGTERM) \<and> \<not> el_pending_terminate el")
      (auto simp: eloop_handle_signal_def eloop_ok_def Let_def)
  then have "\<exists>p. el' = el\<lparr>el_signals := mark_signaled sig (el_signals el), el_signaled := el_signaled el + 1,
      el_pending_terminate := p\<rparr>"
    using assms(1) by (cases el) (auto simp: eloop_handle_signal_def eloop_ok_def Let_def split: if_splits)
  then obtain p where el': "el' = el\<lparr>el_signals := mark_signaled sig (el_signals el), el_signaled := el_signaled el + 1,
      el_pending_terminate := p\<rparr>" by blast
  have "eloop_ok el'" unfolding el' using assms(1) by (subst eloop_ok_cong [of _ el]) simp_all
  moreover have "signals_ok el'"
    unfolding el' using assms(2) mark_signaled_ok by (fastforce simp: signals_ok_def)
  moreover have "list_frame el (el'\<lparr>el_signals := el_signals el, el_signaled := el_signaled el, el_pending_terminate := el_pending_terminate el\<rparr>)"
    unfolding el' by (simp add: list_frame_def)
  ultimately show ?thesis using r by blast
qed

lemma take_signals_ok:
  assumes "eloop_ok el" and "signals_ok el"
  shows "\<exists>el' w'. take_signals env ss el w = Some (el', w') \<and> eloop_ok el' \<and> signals_ok el'"
  using assms
proof (induction ss arbitrary: el w)
  case (Cons s ss)
  obtain el1 w1 where "eloop_handle_signal env s el w = Some (el1, w1)" "eloop_ok el1" "signals_ok el1"
    using handle_signal_ok [OF Cons.prems, of env s w] by blast
  with Cons.IH [of el1 w1] show ?case by simp
qed simp

subsection \<open>Readers\<close>

lemma reader_loop_ok:
  assumes laws: "handler_laws env"
  shows "eloop_ok el \<Longrightarrow> \<exists>el' w'. reader_loop env ready i el w = Some (el', w') \<and> eloop_ok el' \<and>
    el_signaled el' = el_signaled el \<and> (\<exists>ns. el_signals el' = el_signals el @ ns \<and> (\<forall>s \<in> set ns. sg_signaled s = 0))"
proof (induction "length (el_readers el) - i" arbitrary: i el w)
  case 0
  then show ?case by (subst reader_loop.simps) simp
next
  case (Suc n)
  let ?r = "el_readers el ! i"
  have i: "i < length (el_readers el)" using Suc(2) by simp
  then have "reader_ok (el_max_sock el) ?r" using Suc(3) by (simp add: eloop_ok_def)
  then have r: "\<not> es_sock ?r < 0" "\<not> FD_SETSIZE \<le> es_sock ?r" by (simp_all add: reader_ok_def)
  have live: "\<not> el_freed el" using Suc(3) by (simp add: eloop_ok_def)
  show ?case
  proof (cases "es_sock ?r \<in> set ready")
    case False
    have "reader_loop env ready i el w = reader_loop env ready (i + 1) el w"
      using i r live False by (subst reader_loop.simps) (simp add: Let_def)
    with Suc(1) [of el "i + 1" w] Suc(2,3) show ?thesis by simp
  next
    case True
    obtain el1 w1 where h: "read_handler env (es_handler ?r) (es_sock ?r) (es_eloop_data ?r) (es_user_data ?r) el w = Some (el1, w1)"
      and ok1: "eloop_ok el1" and frame: "call_frame el el1" using read_handler_ok [OF laws Suc(3)] by metis
    obtain ns where ns: "el_signals el1 = el_signals el @ ns" "\<forall>s \<in> set ns. sg_signaled s = 0"
      and sg: "el_signaled el1 = el_signaled el" using frame by (auto simp: call_frame_def)
    show ?thesis
    proof (cases "el_reader_table_changed el1")
      case changed: True
      have "reader_loop env ready i el w = Some (el1, w1)"
        using i r live True h changed by (subst reader_loop.simps) (simp add: Let_def)
      with ok1 ns sg show ?thesis by blast
    next
      case False
      then have "el_readers el1 = el_readers el" using frame by (auto simp: call_frame_def)
      then have "n = length (el_readers el1) - (i + 1)" using Suc(2) by simp
      from Suc(1) [OF this ok1, of w1] obtain el' w' ns' where
        "reader_loop env ready (i + 1) el1 w1 = Some (el', w')" "eloop_ok el'" "el_signaled el' = el_signaled el1"
        "el_signals el' = el_signals el1 @ ns'" "\<forall>s \<in> set ns'. sg_signaled s = 0" by blast
      moreover have "reader_loop env ready i el w = reader_loop env ready (i + 1) el1 w1"
        using i r live True h False by (subst reader_loop.simps) (simp add: Let_def)
      ultimately show ?thesis using ns sg by (intro exI [of _ el'] exI [of _ w']) auto
    qed
  qed
qed

subsection \<open>The timeout that is due\<close>

text \<open>Freeing a node that is not in the list.\<close>

lemma free_other_node:
  assumes "timers_ok el" and "p \<notin> nodes el"
  defines "el' \<equiv> el\<lparr>el_heap := (el_heap el)(p := None)\<rparr>"
  shows "timers_ok el'" and "timers el' = timers el"
proof -
  obtain as where as: "chain (el_heap el) (el_timeout el) as" "timers el = timers_at (el_heap el) as"
    using timers_ok_chain [OF assms(1)] by blast
  have p: "p \<notin> set as" using assms(2) nodes_chain [OF as(1)] by simp
  then have "chain (el_heap el') (el_timeout el') as" using as(1) by (simp add: el'_def seg_update)
  moreover have "timers_at (el_heap el') as = timers_at (el_heap el) as"
    using p by (auto simp: el'_def timers_at_def)
  ultimately show "timers_ok el'" and "timers el' = timers el" using timers_chain [of el' as] as(2) by simp_all
qed

text \<open>
  The first timer is run if it is due, and nothing else. While its handler runs, the timer is not in
  the list any more.
\<close>

definition dispatched ::
  "'w eloop_env \<Rightarrow> eloop_data \<Rightarrow> 'w \<Rightarrow> eloop_data \<Rightarrow> 'w \<Rightarrow> bool" where
  "dispatched env el w el' w' \<longleftrightarrow> (case timers el of
     [] \<Rightarrow> el' = el \<and> w' = w
   | t # ts \<Rightarrow> (let (now, w1) = xgettimeofday env w
       in if now < to_time t then el' = el \<and> w' = w1
          else \<exists>el0 el1. timers el0 = ts \<and> list_frame el el0 \<and>
            timeout_handler env (to_handler t) (to_eloop_data t) (to_user_data t) el0 w1 = Some (el1, w') \<and>
            timers el' = timers el1 \<and> list_frame el1 el'))"

lemma run_due_timeout_ok:
  assumes laws: "handler_laws env" and ok: "eloop_ok el"
  shows "\<exists>el' w'. run_due_timeout env el w = Some (el', w') \<and> eloop_ok el' \<and> dispatched env el w el' w' \<and>
    el_signaled el' = el_signaled el \<and>
    (\<exists>ns. el_signals el' = el_signals el @ ns \<and> (\<forall>s \<in> set ns. sg_signaled s = 0))"
proof -
  have t: "timers_ok el" using ok by (simp add: eloop_ok_def)
  show ?thesis
  proof (cases "el_timeout el = 0")
    case True
    then have "timers el = []" using timers_Nil_iff [OF t] by simp
    with True ok show ?thesis by (simp add: run_due_timeout_def dispatched_def)
  next
    case False
    let ?p = "el_timeout el"
    obtain n where n: "el_heap el ?p = Some n" and t0: "timers_ok (el\<lparr>el_timeout := to_next n\<rparr>)"
      and ts: "timers el = timer n # timers (el\<lparr>el_timeout := to_next n\<rparr>)"
      and p: "?p \<notin> nodes (el\<lparr>el_timeout := to_next n\<rparr>)" using timers_head [OF t False] by metis
    obtain now w1 where clk: "xgettimeofday env w = (now, w1)" by (cases "xgettimeofday env w")
    show ?thesis
    proof (cases "now < to_time n")
      case True
      with False n ts ok clk show ?thesis by (simp add: run_due_timeout_def dispatched_def)
    next
      case due: False
      let ?el = "el\<lparr>el_timeout := to_next n\<rparr>"
      have "timer_taken (timer n) el ?el" unfolding timer_taken_def using False n by blast
      from tq.take_sorted [OF t this] have ok0: "eloop_ok ?el"
        using ok t0 ts by (simp add: eloop_ok_def timers_sorted_def)
      obtain el1 w2 where h: "timeout_handler env (to_handler n) (to_eloop_data n) (to_user_data n) ?el w1 = Some (el1, w2)"
        and ok1: "eloop_ok el1" and frame: "call_frame ?el el1" using timeout_handler_ok [OF laws ok0] by metis
      have "keeps_others ?el el1" using frame by (simp add: call_frame_def)
      then have p1: "el_heap el1 ?p = Some n" "?p \<notin> nodes el1" using n p by (simp_all add: keeps_others_def)
      let ?el' = "el1\<lparr>el_heap := (el_heap el1)(?p := None)\<rparr>"
      have "timers_ok el1" using ok1 by (simp add: eloop_ok_def)
      note free = free_other_node [OF this p1(2)]
      have "run_due_timeout env el w = Some (?el', w2)"
        using False n due clk h p1(1) by (simp add: run_due_timeout_def)
      moreover have "eloop_ok ?el'" using ok1 free by (simp add: eloop_ok_def timers_sorted_def)
      moreover have "dispatched env el w ?el' w2"
      proof -
        have "list_frame el ?el" "list_frame el1 ?el'" by (simp_all add: list_frame_def)
        with clk due h free(2) show ?thesis unfolding dispatched_def ts by auto
      qed
      ultimately show ?thesis using frame by (auto simp: call_frame_def)
    qed
  qed
qed

subsection \<open>A pass of the loop\<close>

lemma wait_time_ok:
  assumes "eloop_ok el"
  shows "\<exists>tv w'. wait_time env el w = Some (tv, w') \<and>
    (case timers el of [] \<Rightarrow> tv = None \<and> w' = w
     | t # _ \<Rightarrow> tv = Some (if fst (xgettimeofday env w) < to_time t
           then timersub (to_time t) (fst (xgettimeofday env w)) else Timeval 0 0) \<and> w' = snd (xgettimeofday env w))"
proof (cases "el_timeout el = 0")
  case True
  then have "timers el = []" using timers_Nil_iff [of el] assms by (simp add: eloop_ok_def)
  with True show ?thesis by (simp add: wait_time_def)
next
  case False
  obtain n where "el_heap el (el_timeout el) = Some n" "timers el = timer n # timers (el\<lparr>el_timeout := to_next n\<rparr>)"
    using timers_head [of el] False assms by (metis eloop_ok_def)
  with False show ?thesis by (simp add: wait_time_def split: prod.split)
qed

lemma run_pass_ok:
  assumes laws: "handler_laws env" and ok: "eloop_ok el" "signals_ok el"
  shows "\<exists>go el' w'. run_pass env el w = Some (go, el', w') \<and> eloop_ok el' \<and> signals_ok el' \<and>
    (go \<longrightarrow> (\<forall>s \<in> set (el_signals el'). sg_signaled s = 0))"
proof -
  obtain tv w1 where wait: "wait_time env el w = Some (tv, w1)" using wait_time_ok [OF ok(1), of env w] by blast
  obtain res eintr ready sigs w2 where sel:
    "select_read env (el_max_sock el + 1) (map es_sock (el_readers el)) tv w1 = ((res, eintr, ready, sigs), w2)"
    by (metis prod_cases4 surj_pair)
  obtain el1 w3 where sig: "take_signals env sigs el w2 = Some (el1, w3)" "eloop_ok el1" "signals_ok el1"
    using take_signals_ok [OF ok, of env sigs w2] by blast
  have fits: "\<not> (el_freed el \<and> map es_sock (el_readers el) \<noteq> [] \<or>
      (\<exists>s \<in> set (map es_sock (el_readers el)). s < 0 \<or> s \<ge> FD_SETSIZE))"
    using ok(1) by (fastforce simp: eloop_ok_def reader_ok_def)
  show ?thesis
  proof (cases "res < 0 \<and> \<not> eintr")
    case True
    have "run_pass env el w = Some (False, el1, w3)"
      using True sel sig(1) fits by (simp add: run_pass_def wait)
    with sig(2,3) show ?thesis by blast
  next
    case False
    obtain el2 w4 where pend: "eloop_process_pending_signals env el1 w3 = Some (el2, w4)" "eloop_ok el2"
      "el_signaled el2 = 0" "\<forall>s \<in> set (el_signals el2). sg_signaled s = 0"
      using process_pending_signals_ok [OF laws sig(2,3), of w3] by blast
    obtain el3 w5 ns where due: "run_due_timeout env el2 w4 = Some (el3, w5)" "eloop_ok el3"
      "el_signaled el3 = 0" "el_signals el3 = el_signals el2 @ ns" "\<forall>s \<in> set ns. sg_signaled s = 0"
      using run_due_timeout_ok [OF laws pend(2), of w4] pend(3) by auto
    then have quiet: "\<forall>s \<in> set (el_signals el3). sg_signaled s = 0" using pend(4) by auto
    show ?thesis
    proof (cases "res \<le> 0")
      case True
      have "run_pass env el w = Some (True, el3, w5)"
        using True False sel sig(1) fits pend(1) due(1) by (simp add: run_pass_def wait)
      with due quiet show ?thesis by (intro exI [of _ True]) (simp add: signals_ok_def)
    next
      case pos: False
      let ?el = "el3\<lparr>el_reader_table_changed := False\<rparr>"
      have "eloop_ok ?el" using due(2) by (simp add: eloop_ok_cong [of ?el el3])
      from reader_loop_ok [OF laws this, of ready 0 w5] obtain el4 w6 ns' where
        rd: "reader_loop env ready 0 ?el w5 = Some (el4, w6)" "eloop_ok el4" "el_signaled el4 = 0"
          "el_signals el4 = el_signals el3 @ ns'" "\<forall>s \<in> set ns'. sg_signaled s = 0" using due(3) by auto
      have "run_pass env el w = Some (True, el4, w6)"
        using pos False sel sig(1) fits pend(1) due(1) rd(1) by (simp add: run_pass_def wait)
      with rd quiet show ?thesis by (auto simp: signals_ok_def)
    qed
  qed
qed

text \<open>The loop ends in a good state, and not without a reason.\<close>

lemma run_loop_ok:
  assumes laws: "handler_laws env" and ok: "eloop_ok el" "signals_ok el"
    and ret: "run_loop env el w = Some (el', w')"
  shows "eloop_ok el' \<and> signals_ok el' \<and>
    (el_terminate el' \<or> timers el' = [] \<and> el_readers el' = [] \<or>
     (\<exists>el1 w1. run_pass env el1 w1 = Some (False, el', w')))"
proof -
  let ?ok = "\<lambda>el res. eloop_ok el \<longrightarrow> signals_ok el \<longrightarrow> eloop_ok (fst res) \<and> signals_ok (fst res) \<and>
    (el_terminate (fst res) \<or> timers (fst res) = [] \<and> el_readers (fst res) = [] \<or>
     (\<exists>el1 w1. run_pass env el1 w1 = Some (False, fst res, snd res)))"
  have "?ok el (el', w')"
  proof (rule run_loop.raw_induct [where P = "\<lambda>e el w res. e = env \<longrightarrow> ?ok el res", OF _ ret, THEN mp, OF _ refl])
    fix f and e :: "'a eloop_env" and el w res
    assume IH: "\<And>e el w res. f e el w = Some res \<Longrightarrow> e = env \<longrightarrow> ?ok el res"
      and body: "(if \<not> el_terminate el \<and> (el_timeout el \<noteq> 0 \<or> el_readers el \<noteq> [])
        then run_pass e el w \<bind> (\<lambda>(go, el, w). if go then f e el w else Some (el, w)) else Some (el, w)) = Some res"
    show "e = env \<longrightarrow> ?ok el res"
    proof (intro impI)
      assume e: "e = env" and ok: "eloop_ok el" "signals_ok el"
      show "eloop_ok (fst res) \<and> signals_ok (fst res) \<and>
        (el_terminate (fst res) \<or> timers (fst res) = [] \<and> el_readers (fst res) = [] \<or>
         (\<exists>el1 w1. run_pass env el1 w1 = Some (False, fst res, snd res)))"
      proof (cases "\<not> el_terminate el \<and> (el_timeout el \<noteq> 0 \<or> el_readers el \<noteq> [])")
        case False
        moreover have "timers el = [] \<longleftrightarrow> el_timeout el = 0" using timers_Nil_iff ok by (simp add: eloop_ok_def)
        ultimately show ?thesis using body ok by auto
      next
        case True
        obtain go el1 w1 where pass: "run_pass env el w = Some (go, el1, w1)" "eloop_ok el1" "signals_ok el1"
          using run_pass_ok [OF laws ok, of w] by blast
        show ?thesis
        proof (cases go)
          case True
          then have "f e el1 w1 = Some res" using body pass(1) e \<open>\<not> el_terminate el \<and> _\<close> by simp
          from IH [OF this] e pass(2,3) show ?thesis by blast
        next
          case False
          then have "res = (el1, w1)" using body pass(1) e \<open>\<not> el_terminate el \<and> _\<close> by simp
          with False pass show ?thesis by auto
        qed
      qed
    qed
  qed
  with ok show ?thesis by simp
qed

subsection \<open>Every timeout is run, in the order of the times\<close>

text \<open>
  An environment in which nothing but timeouts happens: \<open>select\<close> waits for the time it is given and
  reports nothing, and the handlers leave the event loop alone. \<open>history\<close> is what a handler leaves in
  the world.
\<close>

definition timeouts_only ::
  "'w eloop_env \<Rightarrow> ('w \<Rightarrow> (nat \<times> nat \<times> nat) list) \<Rightarrow> bool" where
  "timeouts_only env history \<longleftrightarrow> clock_laws env \<and>
     (\<forall>w. fst (xgettimeofday env w) \<le> fst (xgettimeofday env (snd (xgettimeofday env w))) \<and>
        history (snd (xgettimeofday env w)) = history w) \<and>
     (\<forall>n socks tv w. fst (select_read env n socks (Some tv) w) = (0, False, [], []) \<and>
        history (snd (select_read env n socks (Some tv) w)) = history w \<and>
        micros (fst (xgettimeofday env w)) + micros tv
          \<le> micros (fst (xgettimeofday env (snd (select_read env n socks (Some tv) w))))) \<and>
     (\<forall>h d u el w. \<exists>w'. timeout_handler env h d u el w = Some (el, w') \<and> history w' = history w @ [(h, d, u)])"

lemma timeouts_only_handlers:
  assumes "timeouts_only env history"
  shows "\<exists>w'. timeout_handler env h d u el w = Some (el, w') \<and> history w' = history w @ [(h, d, u)]"
  using assms by (simp add: timeouts_only_def)

definition timer_call :: "eloop_timeout \<Rightarrow> nat \<times> nat \<times> nat" where
  "timer_call t = (to_handler t, to_eloop_data t, to_user_data t)"

lemma timeouts_only_pass:
  assumes quiet: "timeouts_only env history" and ok: "eloop_ok el" and idle: "el_readers el = []" "el_signaled el = 0"
    and ts: "timers el = t # ts"
  shows "\<exists>el' w'. run_pass env el w = Some (True, el', w') \<and> eloop_ok el' \<and> timers el' = ts \<and>
    el_readers el' = [] \<and> el_signaled el' = 0 \<and> el_terminate el' = el_terminate el \<and>
    history w' = history w @ [timer_call t]"
proof -
  have tok: "timers_ok el" using ok by (simp add: eloop_ok_def)
  have ne: "el_timeout el \<noteq> 0" using timers_Nil_iff [OF tok] ts by auto
  let ?p = "el_timeout el"
  obtain n where n: "el_heap el ?p = Some n" "timers_ok (el\<lparr>el_timeout := to_next n\<rparr>)"
    and tl: "timers el = timer n # timers (el\<lparr>el_timeout := to_next n\<rparr>)"
    and p: "?p \<notin> nodes (el\<lparr>el_timeout := to_next n\<rparr>)" using timers_head [OF tok ne] by metis
  have t: "t = timer n" and tl': "timers (el\<lparr>el_timeout := to_next n\<rparr>) = ts" using tl ts by simp_all
  have norm: "normal (to_time n)" using ok ts t by (simp add: eloop_ok_def timers_sorted_def)
  obtain now w1 where clk: "xgettimeofday env w = (now, w1)" by (cases "xgettimeofday env w")
  have now: "normal now" using xgettimeofday_normal [of env w] quiet clk by (simp add: timeouts_only_def)
  let ?tv = "if now < to_time n then timersub (to_time n) now else Timeval 0 0"
  obtain w2 where sel: "select_read env (el_max_sock el + 1) [] (Some ?tv) w1 = ((0, False, [], []), w2)"
    and h2: "history w2 = history w" and late: "micros (fst (xgettimeofday env w1)) + micros ?tv \<le> micros (fst (xgettimeofday env w2))"
  proof -
    obtain r w2 where r: "select_read env (el_max_sock el + 1) [] (Some ?tv) w1 = (r, w2)" by fastforce
    with quiet clk have "r = (0, False, [], [])" "history w2 = history w"
      "micros (fst (xgettimeofday env w1)) + micros ?tv \<le> micros (fst (xgettimeofday env w2))"
      unfolding timeouts_only_def by (metis fst_conv snd_conv)+
    with r that show thesis by simp
  qed
  obtain now2 w3 where clk2: "xgettimeofday env w2 = (now2, w3)" by (cases "xgettimeofday env w2")
  have norm1: "normal (fst (xgettimeofday env w1))" "normal now2"
    using xgettimeofday_normal [of env] quiet clk2 by (metis timeouts_only_def fst_conv)+
  have mono: "now \<le> fst (xgettimeofday env w1)" and h3: "history w3 = history w"
    using quiet clk clk2 h2 unfolding timeouts_only_def by (metis fst_conv snd_conv)+
  have "micros now \<le> micros (fst (xgettimeofday env w1))"
    using mono less_timeval_micros [OF norm1(1) now] by (simp add: not_less flip: not_le)
  then have "micros (to_time n) \<le> micros now2"
  proof (cases "now < to_time n")
    case True
    then have "micros ?tv = micros (to_time n) - micros now" by (simp add: micros_timersub)
    with late clk2 \<open>micros now \<le> _\<close> show ?thesis by simp
  next
    case False
    then have "micros ?tv = 0" "micros (to_time n) \<le> micros now"
      using less_timeval_micros [OF now norm] by (simp_all add: micros_def)
    with late clk2 \<open>micros now \<le> _\<close> show ?thesis by simp
  qed
  then have due: "\<not> now2 < to_time n" using less_timeval_micros [OF norm1(2) norm] by simp
  let ?el = "el\<lparr>el_timeout := to_next n\<rparr>"
  obtain w4 where h: "timeout_handler env (to_handler n) (to_eloop_data n) (to_user_data n) ?el w3 = Some (?el, w4)"
    and h4: "history w4 = history w3 @ [(to_handler n, to_eloop_data n, to_user_data n)]"
    using timeouts_only_handlers [OF quiet] by metis
  let ?el' = "?el\<lparr>el_heap := (el_heap ?el)(?p := None)\<rparr>"
  note free = free_other_node [OF n(2) p]
  have "run_due_timeout env el w2 = Some (?el', w4)"
    using ne clk2 n(1) due h by (simp add: run_due_timeout_def)
  moreover have "wait_time env el w = Some (Some ?tv, w1)" using ne clk n(1) by (simp add: wait_time_def)
  moreover have "\<not> el_freed el" using ok by (simp add: eloop_ok_def)
  ultimately have "run_pass env el w = Some (True, ?el', w4)"
    using idle sel by (simp add: run_pass_def eloop_process_pending_signals_def)
  moreover have "eloop_ok ?el'"
    using ok free tl' ts by (simp add: eloop_ok_def timers_sorted_def)
  ultimately show ?thesis using free tl' idle h4 h3 t by (simp add: timer_call_def)
qed

lemma run_loop_drains:
  assumes quiet: "timeouts_only env history"
  shows "eloop_ok el \<Longrightarrow> el_readers el = [] \<Longrightarrow> el_signaled el = 0 \<Longrightarrow> \<not> el_terminate el \<Longrightarrow>
    \<exists>el' w'. run_loop env el w = Some (el', w') \<and> timers el' = [] \<and> eloop_ok el' \<and>
      history w' = history w @ map timer_call (timers el)"
proof (induction "timers el" arbitrary: el w)
  case Nil
  then have "el_timeout el = 0" using timers_Nil_iff [of el] by (simp add: eloop_ok_def)
  then have "run_loop env el w = Some (el, w)" using Nil by (subst run_loop.simps) simp
  with Nil show ?case by auto
next
  case (Cons t ts)
  have "el_timeout el \<noteq> 0" using timers_Nil_iff [of el] Cons(2,3) by (auto simp: eloop_ok_def)
  obtain el1 w1 where pass: "run_pass env el w = Some (True, el1, w1)" "eloop_ok el1" "timers el1 = ts"
    "el_readers el1 = []" "el_signaled el1 = 0" "el_terminate el1 = el_terminate el" "history w1 = history w @ [timer_call t]"
    using timeouts_only_pass [OF quiet Cons(3-5) Cons(2) [symmetric], of w] by metis
  have "run_loop env el w = run_loop env el1 w1"
    using pass(1) Cons(6) \<open>el_timeout el \<noteq> 0\<close> by (subst run_loop.simps) simp
  with Cons(1) [OF pass(3) [symmetric] pass(2,4,5), of w1] pass(3,6,7) Cons(6) show ?case
    by (auto simp flip: Cons(2))
qed

subsection \<open>After the event loop has been destroyed\<close>

text \<open>
  The pointer to the first timer dangles: a registration follows it, unless the allocator gives that
  very address out again.
\<close>

lemma register_after_destroy:
  assumes ok: "eloop_ok el" and ne: "timers el \<noteq> []" and des: "eloop_destroy el = Some el'"
    and al: "fst (malloc_timeout env (el_heap el') w) \<notin> {0, el_timeout el}"
  shows "eloop_register_timeout env secs usecs h d u el' w = None"
proof -
  have t: "timers_ok el" "\<not> el_freed el" using ok by (simp_all add: eloop_ok_def)
  have p: "el_timeout el \<noteq> 0" using timers_Nil_iff [OF t(1)] ne by simp
  obtain as where as: "chain (el_heap el) (el_timeout el) as" using timers_ok_chain [OF t(1)] by blast
  then have "el_timeout el \<in> nodes el" using p nodes_chain [OF as] by (cases as) auto
  moreover obtain hp where "el' = el\<lparr>el_heap := hp, el_freed := True\<rparr>"
    "hp = (\<lambda>a. if a \<in> nodes el then None else el_heap el a)" using eloop_destroy_law [OF t] des by auto
  ultimately have "el_heap el' (el_timeout el) = None" "el_timeout el' = el_timeout el" by simp_all
  then have "find_place ((el_heap el')(a \<mapsto> n)) tm 0 (el_timeout el') = None" if "a \<noteq> el_timeout el" for a n tm
    using that p by (subst find_place.simps) simp
  then show ?thesis using al p \<open>el_timeout el' = el_timeout el\<close>
    by (auto simp: eloop_register_timeout_def Let_def split: prod.splits)
qed

end
