(* ===== verification/Eloop_Properties.thy ===== *)
theory Eloop_Properties
  imports Eloop_Run
begin

text \<open>
  The properties of the event loop, each with a witness on a concrete one.
\<close>

section \<open>An event loop to apply the properties to\<close>

text \<open>
  A world with a clock in seconds, a counter of the addresses given out, and the history of the
  handlers that were run; \<open>select\<close> waits at least as long as it is told to.
\<close>

type_synonym example_world = "nat \<times> nat \<times> (nat \<times> nat \<times> nat) list"

definition loop_env :: "example_world eloop_env" where
  "loop_env = \<lparr>clock_gettime = (\<lambda>w. ((int (fst w), 0), w)),
     malloc_timeout = (\<lambda>h (now, brk, hist). (if h brk = None then brk else 0, (now, Suc brk, hist))),
     alloc_ok = (\<lambda>w. (True, w)),
     select_read = (\<lambda>n socks tv (now, brk, hist). ((0, False, [], []),
       (case tv of None \<Rightarrow> now | Some t \<Rightarrow> now + nat (\<bar>tv_sec t\<bar> + \<bar>tv_usec t\<bar> + 1), brk, hist))),
     set_alarm = (\<lambda>n w. w), install_signal = (\<lambda>sig w. w),
     timeout_handler = (\<lambda>h d u el (now, brk, hist). Some (el, (now, brk, hist @ [(h, d, u)]))),
     read_handler = (\<lambda>h sock d u el w. Some (el, w)),
     signal_handler = (\<lambda>h sig d u el w. Some (el, w))\<rparr>"

definition history :: "example_world \<Rightarrow> (nat \<times> nat \<times> nat) list" where
  "history w = snd (snd w)"

definition empty_loop :: eloop_data where
  "empty_loop = eloop_init 0 \<lparr>el_user_data = 0, el_max_sock = 0, el_readers = [], el_timeout = 0, el_signals = [],
     el_signaled = 0, el_pending_terminate = False, el_terminate = False, el_reader_table_changed = False,
     el_heap = (\<lambda>p. None), el_freed = False\<rparr>"

text \<open>Three timers: for second 5 (at address 1), 2 (at 2) and again 5 (at 3), linked in the order 2, 1, 3.\<close>

definition loop_node :: "int \<Rightarrow> nat \<Rightarrow> nat \<Rightarrow> eloop_timeout" where
  "loop_node sec h next = \<lparr>to_time = Timeval sec 0, to_eloop_data = 7, to_user_data = 0, to_handler = h, to_next = next\<rparr>"

definition three_timers :: eloop_data where
  "three_timers = empty_loop\<lparr>el_timeout := 2,
     el_heap := (\<lambda>p. None)(1 \<mapsto> loop_node 5 11 3, 2 \<mapsto> loop_node 2 12 1, 3 \<mapsto> loop_node 5 13 0)\<rparr>"

lemma three_timers_ok: "eloop_ok three_timers" "signals_ok three_timers"
  "timers three_timers = [loop_node 2 12 0, loop_node 5 11 0, loop_node 5 13 0]" "el_readers three_timers = []"
  "el_signaled three_timers = 0" "\<not> el_terminate three_timers"
proof -
  have "chain (el_heap three_timers) (el_timeout three_timers) [2, 1, 3]"
    by (simp add: three_timers_def loop_node_def)
  from timers_chain [OF this] show t: "timers three_timers = [loop_node 2 12 0, loop_node 5 11 0, loop_node 5 13 0]"
    and ok: "eloop_ok three_timers"
    by (auto simp: timers_at_def three_timers_def timer_def loop_node_def eloop_ok_def timers_sorted_def
        normal_def less_eq_timeval_def less_timeval_def empty_loop_def eloop_init_def)
  show "signals_ok three_timers" "el_readers three_timers = []" "el_signaled three_timers = 0" "\<not> el_terminate three_timers"
    by (simp_all add: three_timers_def empty_loop_def eloop_init_def signals_ok_def)
qed

lemma loop_env_laws: "alloc_laws loop_env" "clock_laws loop_env" "handler_laws loop_env" "timeouts_only loop_env history"
proof -
  show a: "alloc_laws loop_env" by (simp add: alloc_laws_def loop_env_def split: prod.splits)
  show c: "clock_laws loop_env" by (simp add: clock_laws_def loop_env_def)
  have "(eloop_call loop_env)\<^sup>*\<^sup>* (el, w) (el, w')" for el and w w' :: example_world
    by (rule r_into_rtranclp) (rule call_world)
  then show "handler_laws loop_env"
    using a c by (fastforce simp: handler_laws_def loop_env_def split: prod.splits)
  show "timeouts_only loop_env history"
    using c by (auto simp: timeouts_only_def loop_env_def history_def xgettimeofday_def micros_def
        split: prod.splits)
qed

section \<open>Timeouts\<close>

lemma normal_unique: "normal a \<Longrightarrow> normal b \<Longrightarrow> micros a = micros b \<Longrightarrow> a = b"
  using less_timeval_micros [of a b] less_timeval_micros [of b a] by auto

text \<open>
  C23. Registering a timeout on a good event loop, when the allocator has a node for it, gives 0 and
  keeps the invariant. The new timer is due \<open>secs\<close> seconds and \<open>usecs\<close> microseconds after the clock, it
  stands behind the timers that are not later and before those that are, and so the last of those of
  its own time; tables and flags are as they were.
\<close>

theorem register_timeout_in_order:
  assumes ok: "eloop_ok el" and laws: "alloc_laws env" "clock_laws env"
    and al: "malloc_timeout env (el_heap el) w = (a, w1)" "a \<noteq> 0"
  shows "\<exists>el' w' t. eloop_register_timeout env secs usecs h d u el w = Some (0, el', w') \<and> eloop_ok el' \<and>
    timer_call t = (h, d, u) \<and>
    micros (to_time t) = micros (fst (xgettimeofday env w1)) + uint secs * 1000000 + uint usecs \<and>
    timers el' = takeWhile (\<lambda>x. to_time x \<le> to_time t) (timers el) @ t # dropWhile (\<lambda>x. to_time x \<le> to_time t) (timers el) \<and>
    filter (\<lambda>x. to_time x = to_time t) (timers el') = filter (\<lambda>x. to_time x = to_time t) (timers el) @ [t] \<and>
    el' = el\<lparr>el_timeout := el_timeout el', el_heap := el_heap el'\<rparr>"
proof -
  have tok: "timers_ok el" using ok by (simp add: eloop_ok_def)
  let ?t = "new_timer env secs usecs h d u (el_heap el) w"
  obtain el' w' where reg: "eloop_register_timeout env secs usecs h d u el w = Some (0, el', w')"
    and frame: "list_frame el el'" and ins: "timers el' = insert_timer ?t (timers el)"
    using register_timeout_law [OF tok laws(1), of secs usecs h d u w] al by auto
  have "fst (malloc_timeout env (el_heap el) w) \<noteq> 0" using al by simp
  then have "timer_added env ?t el el'" unfolding timer_added_def using laws(1) reg by blast
  note fifo = tq.add_fifo [OF tok this]
  have "sorted (map to_time (timers el))" using ok by (simp add: eloop_ok_def timers_sorted_def)
  note fifo = fifo [OF this]
  have "micros (to_time ?t) = micros (fst (xgettimeofday env w1)) + uint secs * 1000000 + uint usecs"
    using al by (simp add: new_timer_def timeout_time_micros)
  moreover have "timer_call ?t = (h, d, u)" by (simp add: new_timer_def timer_call_def)
  moreover have "eloop_ok el'" using register_timeout_ok [OF ok laws reg] by simp
  moreover have "el' = el\<lparr>el_timeout := el_timeout el', el_heap := el_heap el'\<rparr>" using frame by (simp only: list_frame_def)
  ultimately show ?thesis using reg ins fifo unfolding insert_timer_def by blast
qed

theorem register_timeout_in_order_witness:
  "\<exists>el' w' t. eloop_register_timeout loop_env 3 2000000 14 7 0 three_timers (0, 4, []) = Some (0, el', w') \<and>
    micros (to_time t) = 5000000 \<and> timer_call t = (14, 7, 0) \<and>
    map to_handler (filter (\<lambda>x. to_time x = to_time t) (timers el')) = [11, 13, 14]"
proof -
  have al: "malloc_timeout loop_env (el_heap three_timers) (0, 4, []) = (4, (0, 5, []))"
    by (simp add: loop_env_def three_timers_def)
  obtain el' w' t where *: "eloop_register_timeout loop_env 3 2000000 14 7 0 three_timers (0, 4, []) = Some (0, el', w')"
    "timer_call t = (14, 7, 0)" "micros (to_time t) = micros (fst (xgettimeofday loop_env (0, 5, []))) + 5000000"
    "filter (\<lambda>x. to_time x = to_time t) (timers el') = filter (\<lambda>x. to_time x = to_time t) (timers three_timers) @ [t]"
    "timers el' = takeWhile (\<lambda>x. to_time x \<le> to_time t) (timers three_timers) @ t # dropWhile (\<lambda>x. to_time x \<le> to_time t) (timers three_timers)"
    "eloop_ok el'"
    using register_timeout_in_order [OF three_timers_ok(1) loop_env_laws(1,2) al, of 3 2000000 14 7 0] by auto
  have m: "micros (to_time t) = 5000000" using *(3) by (simp add: xgettimeofday_def loop_env_def micros_def)
  have "normal (to_time t)" using *(5,6) by (auto simp: eloop_ok_def timers_sorted_def)
  with m have "to_time t = Timeval 5 0" by (intro normal_unique) (simp_all add: normal_def micros_def)
  then have "map to_handler (filter (\<lambda>x. to_time x = to_time t) (timers el')) = [11, 13, 14]"
    unfolding *(4) using *(2) by (simp add: three_timers_ok loop_node_def timer_call_def)
  with *(1,2) m show ?thesis by (intro exI conjI)
qed

text \<open>
  C28. Cancelling on a good event loop always returns, with the number of the timers that match (the
  handler, and each context or \<open>ELOOP_ALL_CTX\<close> in its place). Exactly those are gone, the others keep
  their order, and the invariant holds.
\<close>

theorem cancel_timeout_removes_matching:
  assumes ok: "eloop_ok el"
  shows "\<exists>el'. eloop_cancel_timeout h d u el = Some (int (length (filter (cancels h d u) (timers el))), el') \<and>
    eloop_ok el' \<and> timers el' = filter (\<lambda>t. \<not> cancels h d u t) (timers el) \<and>
    el' = el\<lparr>el_timeout := el_timeout el', el_heap := el_heap el'\<rparr>"
proof -
  have "timers_ok el" using ok by (simp add: eloop_ok_def)
  from cancel_timeout_law [OF this, of h d u] obtain el' where
    can: "eloop_cancel_timeout h d u el = Some (int (length (filter (cancels h d u) (timers el))), el')"
    and rest: "timers el' = filter (\<lambda>t. \<not> cancels h d u t) (timers el)" and frame: "list_frame el el'" by blast
  from cancel_timeout_ok [OF ok can] have "eloop_ok el'" by simp
  with can rest show ?thesis using frame unfolding list_frame_def by blast
qed

theorem cancel_timeout_removes_matching_witness:
  "\<exists>el'. eloop_cancel_timeout 11 ELOOP_ALL_CTX 0 three_timers = Some (1, el') \<and>
    map to_handler (timers el') = [12, 13]"
  using cancel_timeout_removes_matching [OF three_timers_ok(1), of 11 ELOOP_ALL_CTX 0]
  by (auto simp: three_timers_ok cancels_def loop_node_def)

section \<open>What handlers do to the event loop\<close>

text \<open>
  Whatever sequence of calls a handler makes to a good event loop, it stays good: the list of
  timers is well formed and sorted, every reader fits a descriptor set and is at most \<open>max_sock\<close>. No
  call touches a node that is not in the list, counts a signal, or drops one; and the table of readers
  only changes with \<open>reader_table_changed\<close> set, which no call clears.
\<close>

theorem handler_calls_keep_invariant:
  assumes "alloc_laws env" "clock_laws env" and "(eloop_call env)\<^sup>*\<^sup>* (el, w) (el', w')" and "eloop_ok el"
  shows "eloop_ok el' \<and> (\<forall>p n. el_heap el p = Some n \<longrightarrow> p \<notin> nodes el \<longrightarrow> el_heap el' p = Some n \<and> p \<notin> nodes el') \<and>
    el_signaled el' = el_signaled el \<and>
    (el_readers el' \<noteq> el_readers el \<or> el_reader_table_changed el \<longrightarrow> el_reader_table_changed el') \<and>
    (\<exists>ss. el_signals el' = el_signals el @ ss \<and> (\<forall>s \<in> set ss. sg_signaled s = 0))"
  using eloop_calls_ok [OF assms(1-3)] assms(4) by (auto simp: call_frame_def keeps_others_def)

theorem handler_calls_keep_invariant_witness:
  "\<exists>el'. eloop_cancel_timeout 11 7 0 three_timers = Some (1, el') \<and> eloop_ok (eloop_terminate el')"
proof -
  let ?w = "(0, 4, []) :: example_world"
  have "timers_ok three_timers" using three_timers_ok by (simp add: eloop_ok_def)
  from cancel_timeout_law [OF this, of 11 7 0] obtain el' where
    can: "eloop_cancel_timeout 11 7 0 three_timers = Some (1, el')"
    by (auto simp: three_timers_ok cancels_def loop_node_def)
  have "(eloop_call loop_env)\<^sup>*\<^sup>* (three_timers, ?w) (eloop_terminate el', ?w)"
    using call_cancel_timeout [OF can, of loop_env ?w] call_terminate [of loop_env el' ?w]
    by (meson converse_rtranclp_into_rtranclp r_into_rtranclp)
  from handler_calls_keep_invariant [OF loop_env_laws(1,2) this three_timers_ok(1)] can show ?thesis by auto
qed

section \<open>The loop\<close>

text \<open>
  C22. A pass of the loop on a good state has a defined result, with no access to a freed node or
  table and none outside a descriptor set, whatever \<open>select\<close> reports and whatever calls the handlers
  make; the state is good after it. When the pass does not end the loop, every signal that had come in
  has been handled.
\<close>

theorem run_pass_safe:
  assumes "handler_laws env" and "eloop_ok el" "signals_ok el"
  shows "\<exists>go el' w'. run_pass env el w = Some (go, el', w') \<and> eloop_ok el' \<and> signals_ok el' \<and>
    (go \<longrightarrow> (\<forall>s \<in> set (el_signals el'). sg_signaled s = 0))"
  using run_pass_ok [OF assms] .

theorem run_pass_safe_witness:
  "\<exists>go el' w'. run_pass loop_env three_timers (0, 4, []) = Some (go, el', w') \<and> eloop_ok el'"
  using run_pass_safe [OF loop_env_laws(3) three_timers_ok(1,2), of "(0, 4, [])"] by blast

text \<open>
  The timeout a pass runs is the first one, and only when its time has come. It is taken off the
  list before its handler runs, with the context it was registered with, so the handler sees the list
  without it and may register it anew; the list afterwards is the one the handler left.
\<close>

theorem due_timeout_dispatched:
  assumes "handler_laws env" and "eloop_ok el" and ts: "timers el = t # ts"
    and clk: "xgettimeofday env w = (now, w1)"
  shows "\<exists>el' w'. run_due_timeout env el w = Some (el', w') \<and> eloop_ok el' \<and>
    (if now < to_time t then el' = el \<and> w' = w1
     else \<exists>el0 el1. timers el0 = ts \<and> el_readers el0 = el_readers el \<and>
       timeout_handler env (to_handler t) (to_eloop_data t) (to_user_data t) el0 w1 = Some (el1, w') \<and>
       timers el' = timers el1 \<and> el_readers el' = el_readers el1)"
proof -
  have fr: "el_readers b = el_readers a" if "list_frame a b" for a b
    using list_frame_fields [OF that] by simp
  obtain el' w' where *: "run_due_timeout env el w = Some (el', w')" "eloop_ok el'" "dispatched env el w el' w'"
    using run_due_timeout_ok [OF assms(1,2), of w] by blast
  show ?thesis
  proof (cases "now < to_time t")
    case True
    with * ts clk show ?thesis by (simp add: dispatched_def)
  next
    case False
    with *(3) ts clk obtain el0 el1 where "timers el0 = ts" "list_frame el el0"
      "timeout_handler env (to_handler t) (to_eloop_data t) (to_user_data t) el0 w1 = Some (el1, w')"
      "timers el' = timers el1" "list_frame el1 el'" by (auto simp: dispatched_def)
    with False * fr show ?thesis by auto
  qed
qed

theorem due_timeout_dispatched_witness:
  "\<exists>el' w'. run_due_timeout loop_env three_timers (4, 4, []) = Some (el', w') \<and> w' = (4, 4, [(12, 7, 0)])"
proof -
  have "xgettimeofday loop_env (4, 4, []) = (Timeval 4 0, (4, 4, []))"
    by (simp add: xgettimeofday_def loop_env_def)
  from due_timeout_dispatched [OF loop_env_laws(3) three_timers_ok(1,3) this] show ?thesis
    by (auto simp: loop_node_def less_timeval_def loop_env_def)
qed

text \<open>
  C24. The loop runs to its end when only timeouts happen (\<open>select\<close> waits for the time it is told, no
  socket, no signal, handlers that register nothing): it has then run every timer that was registered,
  each once and in the order of the times, and its list is empty.
\<close>

theorem run_loop_runs_every_timeout:
  assumes "timeouts_only env hist" and "eloop_ok el" and "el_readers el = []" "el_signaled el = 0" "\<not> el_terminate el"
  shows "\<exists>el' w'. run_loop env el w = Some (el', w') \<and> timers el' = [] \<and> eloop_ok el' \<and>
    hist w' = hist w @ map timer_call (timers el)"
  using run_loop_drains [OF assms] .

theorem run_loop_runs_every_timeout_witness:
  "\<exists>el' w'. run_loop loop_env three_timers (0, 4, []) = Some (el', w') \<and> timers el' = [] \<and>
    history w' = [(12, 7, 0), (11, 7, 0), (13, 7, 0)]"
  using run_loop_runs_every_timeout [OF loop_env_laws(4) three_timers_ok(1,4-6), of "(0, 4, [])"]
  by (auto simp: three_timers_ok history_def timer_call_def loop_node_def)

section \<open>After the end\<close>

text \<open>
  C38. \<open>eloop_destroy\<close> frees the timers and leaves the pointer to the first of them: after it has
  destroyed an event loop that still had one, registering a timeout reads freed memory, unless the
  allocator hands out the address of that very timer again.
\<close>

theorem register_after_destroy_undefined:
  assumes ok: "eloop_ok el" and ne: "timers el \<noteq> []"
  shows "\<exists>el'. eloop_destroy el = Some el' \<and>
    (fst (malloc_timeout env (el_heap el') w) \<notin> {0, el_timeout el} \<longrightarrow>
       eloop_register_timeout env secs usecs h d u el' w = None)"
proof -
  have "timers_ok el" "\<not> el_freed el" using ok by (simp_all add: eloop_ok_def)
  from eloop_destroy_law [OF this] obtain el' where "eloop_destroy el = Some el'" by blast
  with register_after_destroy [OF ok ne this, of env w secs usecs h d u] show ?thesis by blast
qed

theorem register_after_destroy_undefined_witness:
  "\<exists>el'. eloop_destroy three_timers = Some el' \<and>
    eloop_register_timeout loop_env 1 0 14 7 0 el' (0, 4, []) = None"
proof -
  obtain el' where *: "eloop_destroy three_timers = Some el'"
    "fst (malloc_timeout loop_env (el_heap el') (0, 4, [])) \<notin> {0, el_timeout three_timers} \<Longrightarrow>
      eloop_register_timeout loop_env 1 0 14 7 0 el' (0, 4, []) = None"
    using register_after_destroy_undefined [OF three_timers_ok(1), of loop_env "(0, 4, [])" 1 0 14 7 0]
    by (auto simp: three_timers_ok)
  have t: "timers_ok three_timers" "\<not> el_freed three_timers" using three_timers_ok(1) by (simp_all add: eloop_ok_def)
  from eloop_destroy_law [OF t] *(1) have "el_heap el' 4 = None"
    by (auto simp: three_timers_def)
  then have "fst (malloc_timeout loop_env (el_heap el') (0, 4, [])) = 4" by (simp add: loop_env_def)
  with * show ?thesis by (simp add: three_timers_def)
qed

end
