(* ===== verification/Cjson.thy ===== *)
theory Cjson
  imports Prelude
begin

text \<open>
  The JSON library (\<open>src/cJSON.c\<close>): the parser, the lookup of members and the escaping of strings.

  A pointer into the text is the list of the bytes from it to the end of the memory it points into;
  reading at the end of the list has no defined result. A node is a value of \<open>cjson\<close>; the chain of its
  children is a list. The buffers of the code keep their size: \<open>valuestring\<close> and \<open>string\<close> are the
  whole allocation, of which \<open>cstr\<close> is the C string. Allocations are taken to succeed. Arithmetic on
  \<open>double\<close> is a parameter, the record \<open>arith\<close>.
\<close>

subsection \<open>C strings\<close>

definition cstr :: "u8 list \<Rightarrow> u8 list" where
  "cstr buf = takeWhile (\<lambda>b. b \<noteq> 0) buf"

definition ascii :: "string \<Rightarrow> u8 list" where
  "ascii s = map of_char s"

text \<open>\<open>sprintf\<close> does not look at the size of the buffer: a result that does not fit with its NUL is undefined.\<close>

definition sprintf :: "nat \<Rightarrow> u8 list \<Rightarrow> u8 list option" where
  "sprintf cap bs = (if length bs < cap then Some bs else None)"

definition is_digit :: "u8 \<Rightarrow> bool" where
  "is_digit b \<longleftrightarrow> 0x30 \<le> b \<and> b \<le> 0x39"

definition tolower :: "u8 \<Rightarrow> u8" where
  "tolower b = (if 0x41 \<le> b \<and> b \<le> 0x5A then b + 0x20 else b)"

text \<open>The loop of \<open>cJSON_strcasecmp\<close>: are the two strings the same up to the case of letters?\<close>

fun case_loop :: "u8 list \<Rightarrow> u8 list \<Rightarrow> bool option" where
  "case_loop (a # as) (b # bs) =
     (if tolower a = tolower b then if a = 0 then Some True else case_loop as bs else Some False)"
| "case_loop _ _ = None"

definition cJSON_same :: "u8 list option \<Rightarrow> u8 list option \<Rightarrow> bool option" where
  "cJSON_same s1 s2 = (case (s1, s2) of
     (None, None) \<Rightarrow> Some True
   | (None, Some _) \<Rightarrow> Some False
   | (Some _, None) \<Rightarrow> Some False
   | (Some a, Some b) \<Rightarrow> case_loop a b)"

subsection \<open>Nodes\<close>

definition cJSON_False :: int where "cJSON_False = 0"
definition cJSON_True :: int where "cJSON_True = 1"
definition cJSON_NULL :: int where "cJSON_NULL = 2"
definition cJSON_Number :: int where "cJSON_Number = 3"
definition cJSON_String :: int where "cJSON_String = 4"
definition cJSON_Array :: int where "cJSON_Array = 5"
definition cJSON_Object :: int where "cJSON_Object = 6"

datatype 'd cjson =
  CJSON (cj_type: int) (cj_valuestring: "u8 list option") (cj_valueint: int) (cj_valuedouble: 'd)
    (cj_string: "u8 list option") (cj_child: "'d cjson list")

text \<open>
  Arithmetic on \<open>double\<close>: the conversions from and to \<open>int\<close>, sum, product and power.
\<close>

record 'd arith =
  d_of_int :: "int \<Rightarrow> 'd"
  d_to_int :: "'d \<Rightarrow> int"
  d_add :: "'d \<Rightarrow> 'd \<Rightarrow> 'd"
  d_mul :: "'d \<Rightarrow> 'd \<Rightarrow> 'd"
  d_pow :: "'d \<Rightarrow> 'd \<Rightarrow> 'd"

text \<open>A node with a type, and the other fields as \<open>cJSON_New_Item\<close> leaves them.\<close>

definition new_item :: "'d arith \<Rightarrow> int \<Rightarrow> 'd cjson" where
  "new_item ar ty = CJSON ty None 0 (d_of_int ar 0) None []"

definition cJSON_GetArraySize :: "'d cjson \<Rightarrow> nat" where
  "cJSON_GetArraySize array = length (cj_child array)"

fun child_at :: "'d cjson list \<Rightarrow> int \<Rightarrow> 'd cjson option" where
  "child_at [] i = None"
| "child_at (c # cs) i = (if i > 0 then child_at cs (i - 1) else Some c)"

definition cJSON_GetArrayItem :: "'d cjson \<Rightarrow> int \<Rightarrow> 'd cjson option" where
  "cJSON_GetArrayItem array item = child_at (cj_child array) item"

fun find_child :: "u8 list \<Rightarrow> 'd cjson list \<Rightarrow> 'd cjson option option" where
  "find_child name [] = Some None"
| "find_child name (c # cs) = do {
     same \<leftarrow> cJSON_same (cj_string c) (Some name);
     if same then Some (Some c) else find_child name cs
   }"

definition cJSON_GetObjectItem :: "'d cjson \<Rightarrow> u8 list \<Rightarrow> 'd cjson option option" where
  "cJSON_GetObjectItem object name = find_child name (cj_child object)"

subsection \<open>Numbers\<close>

text \<open>The result of a parser: \<open>Inl\<close> the error pointer \<open>ep\<close>, or the value and the end.\<close>

type_synonym 'a parsed = "(u8 list + 'a \<times> u8 list) option"

definition digit_value :: "u8 \<Rightarrow> int" where
  "digit_value b = uint b - 0x30"

text \<open>The loops over the digits of a number: those before the point, after it, and of the exponent.\<close>

fun int_digits :: "'d arith \<Rightarrow> 'd \<Rightarrow> u8 list \<Rightarrow> ('d \<times> u8 list) option" where
  "int_digits ar n [] = None"
| "int_digits ar n (b # bs) =
     (if is_digit b then int_digits ar (d_add ar (d_mul ar n (d_of_int ar 10)) (d_of_int ar (digit_value b))) bs
      else Some (n, b # bs))"

fun frac_digits :: "'d arith \<Rightarrow> 'd \<Rightarrow> 'd \<Rightarrow> u8 list \<Rightarrow> ('d \<times> 'd \<times> u8 list) option" where
  "frac_digits ar n scale [] = None"
| "frac_digits ar n scale (b # bs) =
     (if is_digit b
      then frac_digits ar (d_add ar (d_mul ar n (d_of_int ar 10)) (d_of_int ar (digit_value b)))
        (d_add ar scale (d_of_int ar (- 1))) bs
      else Some (n, scale, b # bs))"

text \<open>The exponent is an \<open>int\<close>, which must not overflow.\<close>

fun exp_digits :: "int \<Rightarrow> u8 list \<Rightarrow> (int \<times> u8 list) option" where
  "exp_digits e [] = None"
| "exp_digits e (b # bs) =
     (if is_digit b
      then if e * 10 + digit_value b < 2 ^ 31 then exp_digits (e * 10 + digit_value b) bs else None
      else Some (e, b # bs))"

definition skip_byte :: "u8 \<Rightarrow> u8 list \<Rightarrow> (bool \<times> u8 list) option" where
  "skip_byte c p = (case p of [] \<Rightarrow> None | b # bs \<Rightarrow> Some (if b = c then (True, bs) else (False, b # bs)))"

definition parse_exponent :: "u8 list \<Rightarrow> (int \<times> u8 list) option" where
  "parse_exponent p = do {
     b \<leftarrow> peek p 0;
     if b = 0x65 \<or> b = 0x45 then do {
       (plus, p) \<leftarrow> skip_byte 0x2B (tl p);
       (minus, p) \<leftarrow> (if plus then Some (False, p) else skip_byte 0x2D p);
       (subscale, p) \<leftarrow> exp_digits 0 p;
       Some (subscale * (if minus then - 1 else 1), p)
     } else Some (0, p)
   }"

definition parse_fraction :: "'d arith \<Rightarrow> 'd \<Rightarrow> u8 list \<Rightarrow> ('d \<times> 'd \<times> u8 list) option" where
  "parse_fraction ar n p = do {
     b \<leftarrow> peek p 0;
     if b \<noteq> 0x2E then Some (n, d_of_int ar 0, p)
     else do {
       d \<leftarrow> peek p 1;
       if is_digit d then frac_digits ar n (d_of_int ar 0) (tl p) else Some (n, d_of_int ar 0, p)
     }
   }"

text \<open>
  The value as an \<open>int\<close> is \<open>d_to_int\<close>, a parameter that gives a result for every \<open>double\<close>. In C the
  conversion \<open>(int) n\<close> is not defined for a \<open>double\<close> outside the range of \<open>int\<close>, such as \<open>1e10\<close>; what the
  compiler makes of it there is left open.
\<close>

definition parse_number :: "'d arith \<Rightarrow> u8 list \<Rightarrow> ('d cjson \<times> u8 list) option" where
  "parse_number ar p = do {
     (minus, p) \<leftarrow> skip_byte 0x2D p;
     (zero, p) \<leftarrow> skip_byte 0x30 p;
     b \<leftarrow> peek p 0;
     (n, p) \<leftarrow> (if is_digit b \<and> b \<noteq> 0x30 then int_digits ar (d_of_int ar 0) p else Some (d_of_int ar 0, p));
     (n, scale, p) \<leftarrow> parse_fraction ar n p;
     (exponent, p) \<leftarrow> parse_exponent p;
     let n = d_mul ar (d_mul ar (d_of_int ar (if minus then - 1 else 1)) n)
       (d_pow ar (d_of_int ar 10) (d_add ar scale (d_of_int ar exponent)));
     Some (CJSON cJSON_Number None (d_to_int ar n) n None [], p)
   }"

subsection \<open>Strings\<close>

definition hex_digit :: "u8 \<Rightarrow> u32 option" where
  "hex_digit b =
     (if is_digit b then Some (ucast b - 0x30)
      else if 0x41 \<le> b \<and> b \<le> 0x46 then Some (10 + ucast b - 0x41)
      else if 0x61 \<le> b \<and> b \<le> 0x66 then Some (10 + ucast b - 0x61)
      else None)"

text \<open>The first byte that is no digit ends the conversion with 0.\<close>

fun hex_digits :: "nat \<Rightarrow> u32 \<Rightarrow> u8 list \<Rightarrow> u32 option" where
  "hex_digits 0 h p = Some h"
| "hex_digits (Suc n) h [] = None"
| "hex_digits (Suc n) h (b # bs) = (case hex_digit b of None \<Rightarrow> Some 0 | Some d \<Rightarrow> hex_digits n (push_bit 4 h + d) bs)"

definition parse_hex4 :: "u8 list \<Rightarrow> u32 option" where
  "parse_hex4 p = hex_digits 4 0 p"

definition firstByteMark :: "u8 list" where
  "firstByteMark = [0x00, 0x00, 0xC0, 0xE0, 0xF0, 0xF8, 0xFC]"

text \<open>The bytes of a code point in UTF-8, written from the last to the first as the \<open>switch\<close> falls through.\<close>

fun utf8_write :: "nat \<Rightarrow> nat \<Rightarrow> u32 \<Rightarrow> u8 list \<Rightarrow> u8 list" where
  "utf8_write len (Suc (Suc n)) uc acc =
     utf8_write len (Suc n) (drop_bit 6 uc) (ucast ((uc OR 0x80) AND 0xBF) # acc)"
| "utf8_write len (Suc 0) uc acc = ucast (uc OR ucast (firstByteMark ! len)) # acc"
| "utf8_write len 0 uc acc = acc"

definition utf8_bytes :: "u32 \<Rightarrow> u8 list" where
  "utf8_bytes uc =
     (let len = (if uc < 0x80 then 1 else if uc < 0x800 then 2 else if uc < 0x10000 then 3 else 4)
      in utf8_write len len uc [])"

text \<open>
  The case \<open>u\<close> of \<open>parse_string\<close>, with the pointer at the \<open>u\<close>: the bytes it writes, and how far the
  pointer is moved.
\<close>

definition unicode_escape :: "u8 list \<Rightarrow> (u8 list \<times> nat) option" where
  "unicode_escape p = do {
     uc \<leftarrow> parse_hex4 (drop 1 p);
     if (uc \<ge> 0xDC00 \<and> uc \<le> 0xDFFF) \<or> uc = 0 then Some ([], 4)
     else if uc \<ge> 0xD800 \<and> uc \<le> 0xDBFF then do {
       c1 \<leftarrow> peek p 5;
       if c1 \<noteq> 0x5C then Some ([], 4)
       else do {
         c2 \<leftarrow> peek p 6;
         if c2 \<noteq> 0x75 then Some ([], 4)
         else do {
           uc2 \<leftarrow> parse_hex4 (drop 7 p);
           if uc2 < 0xDC00 \<or> uc2 > 0xDFFF then Some ([], 10)
           else Some (utf8_bytes (0x10000 + (push_bit 10 (uc AND 0x3FF) OR (uc2 AND 0x3FF))), 10)
         }
       }
     }
     else Some (utf8_bytes uc, 4)
   }"

text \<open>The \<open>switch\<close> over the byte behind a backslash.\<close>

definition escape :: "u8 list \<Rightarrow> (u8 list \<times> nat) option" where
  "escape p = do {
     c \<leftarrow> peek p 0;
     if c = 0x62 then Some ([0x08], 0)
     else if c = 0x66 then Some ([0x0C], 0)
     else if c = 0x6E then Some ([0x0A], 0)
     else if c = 0x72 then Some ([0x0D], 0)
     else if c = 0x74 then Some ([0x09], 0)
     else if c = 0x75 then unicode_escape p
     else Some ([c], 0)
   }"

text \<open>
  The first loop of \<open>parse_string\<close> counts what has to be allocated, the second one fills a buffer of
  \<open>cap\<close> bytes; a write behind it has no defined result.
\<close>

fun string_length :: "u8 list \<Rightarrow> nat option" where
  "string_length [] = None"
| "string_length (b # bs) =
     (if b = 0x22 \<or> b = 0 then Some 0
      else if b = 0x5C then (case bs of [] \<Rightarrow> None | _ # bs' \<Rightarrow> map_option Suc (string_length bs'))
      else map_option Suc (string_length bs))"

definition put :: "nat \<Rightarrow> u8 list \<Rightarrow> u8 list \<Rightarrow> u8 list option" where
  "put cap out bs = (if length out + length bs \<le> cap then Some (out @ bs) else None)"

function unescape :: "nat \<Rightarrow> u8 list \<Rightarrow> u8 list \<Rightarrow> (u8 list \<times> u8 list) option" where
  "unescape cap out [] = None"
| "unescape cap out (b # bs) =
     (if b = 0x22 \<or> b = 0 then map_option (\<lambda>out. (out, b # bs)) (put cap out [0])
      else if b \<noteq> 0x5C then do { out \<leftarrow> put cap out [b]; unescape cap out bs }
      else do {
        (e, k) \<leftarrow> escape bs;
        out \<leftarrow> put cap out e;
        unescape cap out (drop (k + 1) bs)
      })"
  by pat_completeness auto
termination by (relation "measure (\<lambda>(cap, out, p). length p)") auto

text \<open>The buffer that is allocated, with the bytes that were not written as zeros.\<close>

definition padded :: "nat \<Rightarrow> u8 list \<Rightarrow> u8 list" where
  "padded cap out = out @ replicate (cap - length out) 0"

definition parse_string :: "u8 list \<Rightarrow> u8 list parsed" where
  "parse_string p = do {
     b \<leftarrow> peek p 0;
     if b \<noteq> 0x22 then Some (Inl p)
     else do {
       len \<leftarrow> string_length (tl p);
       (out, q) \<leftarrow> unescape (len + 1) [] (tl p);
       b \<leftarrow> peek q 0;
       Some (Inr (padded (len + 1) out, if b = 0x22 then tl q else q))
     }
   }"

subsection \<open>Values\<close>

text \<open>Whitespace and control characters are skipped, up to the end of the string.\<close>

fun skip :: "u8 list \<Rightarrow> u8 list option" where
  "skip [] = None"
| "skip (b # bs) = (if b \<noteq> 0 \<and> b \<le> 32 then skip bs else Some (b # bs))"

text \<open>\<open>strncmp\<close> with a literal of that length.\<close>

fun starts_with :: "u8 list \<Rightarrow> u8 list \<Rightarrow> bool option" where
  "starts_with p [] = Some True"
| "starts_with [] (c # cs) = None"
| "starts_with (b # bs) (c # cs) = (if b = c then starts_with bs cs else Some False)"

lemma skip_length: "skip p = Some q \<Longrightarrow> length q \<le> length p"
  by (induction p rule: skip.induct) (auto split: if_splits)

definition rename_item :: "u8 list \<Rightarrow> 'd cjson \<Rightarrow> 'd cjson" where
  "rename_item name c = CJSON (cj_type c) (cj_valuestring c) (cj_valueint c) (cj_valuedouble c) (Some name) (cj_child c)"

definition compound :: "'d arith \<Rightarrow> int \<Rightarrow> 'd cjson list \<Rightarrow> 'd cjson" where
  "compound ar ty cs = CJSON ty None 0 (d_of_int ar 0) None cs"

text \<open>The cases of \<open>parse_value\<close> that are no array and no object.\<close>

definition parse_simple :: "'d arith \<Rightarrow> u8 list \<Rightarrow> 'd cjson parsed" where
  "parse_simple ar p = do {
     null \<leftarrow> starts_with p (ascii ''null'');
     false \<leftarrow> starts_with p (ascii ''false'');
     true \<leftarrow> starts_with p (ascii ''true'');
     b \<leftarrow> peek p 0;
     if null then Some (Inr (new_item ar cJSON_NULL, drop 4 p))
     else if false then Some (Inr (new_item ar cJSON_False, drop 5 p))
     else if true then Some (Inr (CJSON cJSON_True None 1 (d_of_int ar 0) None [], drop 4 p))
     else if b = 0x22 then do {
       s \<leftarrow> parse_string p;
       case s of
         Inl ep \<Rightarrow> Some (Inl ep)
       | Inr (v, q) \<Rightarrow> Some (Inr (CJSON cJSON_String (Some v) 0 (d_of_int ar 0) None [], q))
     }
     else if b = 0x2D \<or> is_digit b then do { cq \<leftarrow> parse_number ar p; Some (Inr cq) }
     else Some (Inl p)
   }"

text \<open>
  \<open>parse_value\<close> with the bodies of \<open>parse_array\<close> and \<open>parse_object\<close>; \<open>parse_items\<close> and \<open>parse_members\<close> are
  their loops, from the place where an element is expected, with the elements so far.
\<close>

function (sequential)
      parse_value :: "'d arith \<Rightarrow> u8 list \<Rightarrow> 'd cjson parsed"
  and parse_items :: "'d arith \<Rightarrow> 'd cjson list \<Rightarrow> u8 list \<Rightarrow> 'd cjson parsed"
  and parse_members :: "'d arith \<Rightarrow> 'd cjson list \<Rightarrow> u8 list \<Rightarrow> 'd cjson parsed" where
  "parse_value ar p = do {
     b \<leftarrow> peek p 0;
     if b = 0x5B then do {
       q \<leftarrow> skip (tl p);
       b \<leftarrow> peek q 0;
       if b = 0x5D then Some (Inr (compound ar cJSON_Array [], tl q)) else parse_items ar [] q
     }
     else if b = 0x7B then do {
       q \<leftarrow> skip (tl p);
       b \<leftarrow> peek q 0;
       if b = 0x7D then Some (Inr (compound ar cJSON_Object [], tl q)) else parse_members ar [] q
     }
     else parse_simple ar p
   }"
| "parse_items ar cs p = do {
     q \<leftarrow> skip p;
     r \<leftarrow> parse_value ar q;
     case r of
       Inl ep \<Rightarrow> Some (Inl ep)
     | Inr (c, q) \<Rightarrow> do {
         q \<leftarrow> skip q;
         b \<leftarrow> peek q 0;
         if b = 0x2C then parse_items ar (cs @ [c]) (tl q)
         else if b = 0x5D then Some (Inr (compound ar cJSON_Array (cs @ [c]), tl q))
         else Some (Inl q)
       }
   }"
| "parse_members ar cs p = do {
     q \<leftarrow> skip p;
     s \<leftarrow> parse_string q;
     case s of
       Inl ep \<Rightarrow> Some (Inl ep)
     | Inr (name, q) \<Rightarrow> do {
         q \<leftarrow> skip q;
         b \<leftarrow> peek q 0;
         if b \<noteq> 0x3A then Some (Inl q)
         else do {
           q \<leftarrow> skip (tl q);
           r \<leftarrow> parse_value ar q;
           case r of
             Inl ep \<Rightarrow> Some (Inl ep)
           | Inr (c, q) \<Rightarrow> do {
               q \<leftarrow> skip q;
               b \<leftarrow> peek q 0;
               if b = 0x2C then parse_members ar (cs @ [rename_item name c]) (tl q)
               else if b = 0x7D then Some (Inr (compound ar cJSON_Object (cs @ [rename_item name c]), tl q))
               else Some (Inl q)
             }
         }
       }
   }"
  by pat_completeness auto

text \<open>The parsers end behind the place where they start, so the parser of values terminates.\<close>

lemma skip_byte_length: "skip_byte c p = Some (f, q) \<Longrightarrow> length q \<le> length p"
  by (auto simp: skip_byte_def split: list.splits if_splits)

lemma int_digits_length: "int_digits ar n p = Some (m, q) \<Longrightarrow> length q \<le> length p"
  by (induction ar n p rule: int_digits.induct) (auto split: if_splits)

lemma frac_digits_length: "frac_digits ar n s p = Some (m, t, q) \<Longrightarrow> length q \<le> length p"
  by (induction ar n s p rule: frac_digits.induct) (auto split: if_splits)

lemma exp_digits_length: "exp_digits e p = Some (f, q) \<Longrightarrow> length q \<le> length p"
  by (induction e p rule: exp_digits.induct) (auto split: if_splits)

lemma parse_fraction_length: "parse_fraction ar n p = Some (m, s, q) \<Longrightarrow> length q \<le> length p"
  by (cases p) (auto simp: parse_fraction_def split: bind_splits if_splits dest!: frac_digits_length)

lemma parse_exponent_length: "parse_exponent p = Some (e, q) \<Longrightarrow> length q \<le> length p"
  by (cases p) (force simp: parse_exponent_def split: bind_splits if_splits
      dest!: skip_byte_length exp_digits_length)+

lemma parse_number_length: "parse_number ar p = Some (c, q) \<Longrightarrow> length q \<le> length p"
  by (force simp: parse_number_def Let_def split: bind_splits if_splits
      dest!: skip_byte_length int_digits_length parse_fraction_length parse_exponent_length)

lemma unescape_length: "unescape cap out p = Some (o', q) \<Longrightarrow> length q \<le> length p"
proof (induction cap out p rule: unescape.induct)
  case (2 cap out b bs)
  then show ?case by (fastforce split: bind_splits if_splits)
qed simp

lemma parse_string_length: "parse_string p = Some (Inr (v, q)) \<Longrightarrow> length q < length p"
  by (cases p) (fastforce simp: parse_string_def split: bind_splits if_splits dest!: unescape_length)+

lemma peek_Cons: "peek p 0 = Some b \<Longrightarrow> \<exists>bs. p = b # bs"
  by (cases p) (auto simp: peek_def)

lemma parse_simple_length: "parse_simple ar p = Some (Inr (c, q)) \<Longrightarrow> length q \<le> length p"
  by (auto simp: parse_simple_def split: bind_splits if_splits sum.splits
      dest!: parse_number_length parse_string_length)

lemma parse_value_dom_length:
  fixes ar :: "'d arith"
  shows "parse_value_parse_items_parse_members_dom (Inl (ar, p)) \<Longrightarrow>
      parse_value ar p = Some (Inr (c, q)) \<Longrightarrow> length q \<le> length p"
    and "parse_value_parse_items_parse_members_dom (Inr (Inl (ar, cs, p))) \<Longrightarrow>
      parse_items ar cs p = Some (Inr (c, q)) \<Longrightarrow> length q \<le> length p"
    and "parse_value_parse_items_parse_members_dom (Inr (Inr (ar, cs, p))) \<Longrightarrow>
      parse_members ar cs p = Some (Inr (c, q)) \<Longrightarrow> length q \<le> length p"
proof (induction ar p and ar cs p and ar cs p arbitrary: c q and c q and c q rule: parse_value_parse_items_parse_members.pinduct)
  case (1 ar p)
  note unfold = parse_value.psimps [OF 1(1)] and IH = 1(2,3) and ret = 1(4)
  obtain b bs where p: "p = b # bs" using ret unfolding unfold by (cases p) (simp_all add: peek_def)
  have brackets: "length q \<le> length p"
    if "do { q \<leftarrow> skip bs; b \<leftarrow> peek q 0;
      if b = e then Some (Inr (compound ar ty [], tl q)) else f q } = Some (Inr (c, q))"
      and step: "\<And>r x. skip bs = Some r \<Longrightarrow> peek r 0 = Some x \<Longrightarrow> x \<noteq> e \<Longrightarrow> f r = Some (Inr (c, q)) \<Longrightarrow> length q \<le> length r"
    for e ty f
    using that(1) skip_length [of bs] unfolding p
    by (auto split: bind_splits if_splits dest!: step)
  consider "b = 0x5B" | "b = 0x7B" | "b \<noteq> 0x5B" "b \<noteq> 0x7B" by blast
  then show ?case
  proof cases
    case 1
    with ret p show ?thesis unfolding unfold
      by (intro brackets [of "0x5D" cJSON_Array "parse_items ar []"] IH(1)) simp_all
  next
    case 2
    with ret p show ?thesis unfolding unfold
      by (intro brackets [of "0x7D" cJSON_Object "parse_members ar []"] IH(2)) simp_all
  next
    case 3
    with ret p show ?thesis unfolding unfold
      by (intro parse_simple_length) simp
  qed
next
  case (2 ar cs p)
  show ?case
    using 2(2-)
    by (fastforce simp: parse_items.psimps [OF 2(1)] split: bind_splits if_splits sum.splits
        dest!: peek_Cons skip_length)
next
  case (3 ar cs p)
  show ?case
    using 3(2-)
    by (fastforce simp: parse_members.psimps [OF 3(1)] split: bind_splits if_splits sum.splits
        dest!: peek_Cons parse_string_length skip_length)
qed

termination parse_value
proof (relation "measure (case_sum (\<lambda>(ar, p). 2 * length p)
    (case_sum (\<lambda>(ar, cs, p). 2 * length p + 1) (\<lambda>(ar, cs, p). 2 * length p + 1)))")
qed (auto dest!: peek_Cons skip_length parse_string_length parse_value_dom_length(1))

lemmas parse_loops = parse_value.simps parse_items.simps parse_members.simps

declare parse_loops [simp del]

definition cJSON_ParseWithOpts :: "'d arith \<Rightarrow> u8 list \<Rightarrow> bool \<Rightarrow> 'd cjson parsed" where
  "cJSON_ParseWithOpts ar value require_null_terminated = do {
     p \<leftarrow> skip value;
     r \<leftarrow> parse_value ar p;
     case r of
       Inl ep \<Rightarrow> Some (Inl ep)
     | Inr (c, q) \<Rightarrow>
         if require_null_terminated then do {
           q \<leftarrow> skip q;
           b \<leftarrow> peek q 0;
           if b \<noteq> 0 then Some (Inl q) else Some (Inr (c, q))
         } else Some (Inr (c, q))
   }"

definition cJSON_Parse :: "'d arith \<Rightarrow> u8 list \<Rightarrow> 'd cjson option option" where
  "cJSON_Parse ar value = do {
     r \<leftarrow> cJSON_ParseWithOpts ar value False;
     Some (case r of Inl ep \<Rightarrow> None | Inr (c, q) \<Rightarrow> Some c)
   }"

subsection \<open>Printing strings\<close>

text \<open>The bytes that \<open>strchr\<close> finds, and what is written for a byte.\<close>

definition is_special :: "u8 \<Rightarrow> bool" where
  "is_special b \<longleftrightarrow> b \<in> {0x22, 0x5C, 0x08, 0x0C, 0x0A, 0x0D, 0x09}"

definition hex_char :: "nat \<Rightarrow> u8" where
  "hex_char n = (if n < 10 then 0x30 + of_nat n else 0x61 + of_nat (n - 10))"

definition print_byte :: "u8 \<Rightarrow> u8 list" where
  "print_byte b =
     (if b > 31 \<and> b \<noteq> 0x22 \<and> b \<noteq> 0x5C then [b]
      else 0x5C #
        (if b = 0x5C then [0x5C]
         else if b = 0x22 then [0x22]
         else if b = 0x08 then [0x62]
         else if b = 0x0C then [0x66]
         else if b = 0x0A then [0x6E]
         else if b = 0x0D then [0x72]
         else if b = 0x09 then [0x74]
         else [0x75, 0x30, 0x30, hex_char (unat b div 16), hex_char (unat b mod 16)]))"

text \<open>The loop that counts what has to be allocated, and the one that writes.\<close>

fun print_length :: "u8 list \<Rightarrow> nat option" where
  "print_length [] = None"
| "print_length (b # bs) =
     (if b = 0 then Some 0
      else map_option (\<lambda>n. 1 + (if is_special b then 1 else if b < 32 then 5 else 0) + n) (print_length bs))"

fun print_bytes :: "u8 list \<Rightarrow> u8 list option" where
  "print_bytes [] = None"
| "print_bytes (b # bs) = (if b = 0 then Some [] else map_option (\<lambda>out. print_byte b @ out) (print_bytes bs))"

definition print_string_ptr :: "u8 list option \<Rightarrow> u8 list option" where
  "print_string_ptr str = (case str of
     None \<Rightarrow> Some [0]
   | Some p \<Rightarrow> do {
       len \<leftarrow> print_length p;
       out \<leftarrow> print_bytes p;
       put (len + 3) [] ([0x22] @ out @ [0x22, 0])
     })"

end
