(* ===== verification/Agent_State.thy ===== *)
theory Agent_State
  imports Mqtt_Sync Eloop Cjson
begin

text \<open>
  The state of the agent (\<open>include/admlink.h\<close>) and the world it lives in.

  The agent is one global structure with two connections, which the code passes around by pointer;
  here a connection is named by a \<open>conn_id\<close>. What \<open>set_mqtt_publish_nexsync\<close> allocates lives in a heap
  of its own (\<open>sy_pubs\<close>), and \<open>sy_bios\<close> are the BIOs that have been opened and not yet freed: using
  another one has no defined result. Strings in fixed arrays are kept without their NUL.
\<close>

subsection \<open>Data\<close>

definition MQTT_SYN_T :: u32 where "MQTT_SYN_T = 200000"
definition SM_CHECK_T :: u32 where "SM_CHECK_T = 30"
definition BUF_SEND_SIZE :: nat where "BUF_SEND_SIZE = 4096"
definition BUF_RECV_SIZE :: nat where "BUF_RECV_SIZE = 2048"

definition AG_NAME :: cstring where "AG_NAME = ascii ''maomaoag''"
definition AG_VER :: cstring where "AG_VER = ascii ''9.9.9''"
definition MSG_VER :: cstring where "MSG_VER = ascii ''9.9.9''"

definition isErr :: int where "isErr = - 1"
definition isOk :: int where "isOk = 0"
definition isReboot :: int where "isReboot = 1"
definition isFwup :: int where "isFwup = 2"

datatype conn_id = MQRECV | MQUPLD

record mqconn =
  mc_ssl_ctx :: nat
  mc_biofd :: nat
  mc_connfd :: int
  mc_status :: int
  mc_daddr :: cstring
  mc_dport :: cstring
  mc_ca_file :: cstring
  mc_clt_key :: cstring
  mc_clt_cert :: cstring
  mc_cltid :: cstring
  mc_topicsend :: cstring
  mc_topicrecv :: cstring
  mc_sendbuf :: "u8 list"
  mc_recvbuf :: "u8 list"
  mc_mqclt :: mqtt_client

text \<open>\<open>tinfo\<close> points to the broken-down time of the time it was last set to, or is null.\<close>

record agent =
  ag_agstatus :: int
  ag_devid :: cstring
  ag_mqrecv :: mqconn
  ag_mqupld :: mqconn
  ag_tinfo :: "int option"

record set_publish =
  sp_conn :: conn_id
  sp_topic_name :: cstring
  sp_application_message :: "u8 list"
  sp_application_message_size :: nat
  sp_publish_flags :: u8

fun conn :: "conn_id \<Rightarrow> agent \<Rightarrow> mqconn" where
  "conn MQRECV ag = ag_mqrecv ag"
| "conn MQUPLD ag = ag_mqupld ag"

fun map_conn :: "conn_id \<Rightarrow> (mqconn \<Rightarrow> mqconn) \<Rightarrow> agent \<Rightarrow> agent" where
  "map_conn MQRECV f ag = ag\<lparr>ag_mqrecv := f (ag_mqrecv ag)\<rparr>"
| "map_conn MQUPLD f ag = ag\<lparr>ag_mqupld := f (ag_mqupld ag)\<rparr>"

text \<open>
  The state of the process beside the event loop: the agent, the pending publishes, the BIOs that are
  open, the socket of the control interface, and the rest of the world.
\<close>

record 'e sys =
  sy_agent :: agent
  sy_pubs :: "nat \<Rightarrow> set_publish option"
  sy_bios :: "nat set"
  sy_ctrl_sock :: int
  sy_ext :: 'e

type_synonym 'e world = "eloop_data \<times> 'e sys"

subsection \<open>Pointers and handlers as numbers\<close>

definition conn_ptr :: "conn_id \<Rightarrow> nat" where
  "conn_ptr c = (case c of MQRECV \<Rightarrow> 1 | MQUPLD \<Rightarrow> 2)"

definition conn_at :: "nat \<Rightarrow> conn_id option" where
  "conn_at p = (if p = 1 then Some MQRECV else if p = 2 then Some MQUPLD else None)"

definition agent_ptr :: nat where "agent_ptr = 3"

definition H_clttraffic :: nat where "H_clttraffic = 1"
definition H_agstatm :: nat where "H_agstatm = 2"
definition H_publish :: nat where "H_publish = 3"
definition H_exit :: nat where "H_exit = 4"

subsection \<open>The world outside\<close>

text \<open>
  What the agent calls: clocks (\<open>x_date\<close> is what \<open>strftime\<close> writes for the date format), allocators,
  which see what is in use, \<open>select\<close>, \<open>alarm\<close> and \<open>signal\<close> for the event loop, the OpenSSL functions, the sockets of the control
  interface. \<open>x_stack\<close> is what is on the stack where \<open>mqtt_sync\<close> keeps a response. Loading a file into
  an SSL context, \<open>BIO_do_connect\<close> and the rest report their results as the code tests them.
\<close>

record ('e, 'd) agent_env =
  x_clock :: "'e \<Rightarrow> (int \<times> int) \<times> 'e"
  x_time :: "'e \<Rightarrow> int \<times> 'e"
  x_date :: "int \<Rightarrow> u8 list"
  x_malloc_timeout :: "(nat \<Rightarrow> eloop_timeout option) \<Rightarrow> 'e \<Rightarrow> nat \<times> 'e"
  x_alloc_ok :: "'e \<Rightarrow> bool \<times> 'e"
  x_calloc_publish :: "(nat \<Rightarrow> set_publish option) \<Rightarrow> 'e \<Rightarrow> nat \<times> 'e"
  x_select :: "int \<Rightarrow> int list \<Rightarrow> timeval option \<Rightarrow> 'e \<Rightarrow> (int \<times> bool \<times> int list \<times> int list) \<times> 'e"
  x_alarm :: "nat \<Rightarrow> 'e \<Rightarrow> 'e"
  x_signal :: "int \<Rightarrow> 'e \<Rightarrow> 'e"
  x_new_ctx :: "'e \<Rightarrow> nat \<times> 'e"
  x_load_cert :: "nat \<Rightarrow> cstring \<Rightarrow> 'e \<Rightarrow> bool \<times> 'e"
  x_load_key :: "nat \<Rightarrow> cstring \<Rightarrow> 'e \<Rightarrow> bool \<times> 'e"
  x_load_ca :: "nat \<Rightarrow> cstring \<Rightarrow> 'e \<Rightarrow> bool \<times> 'e"
  x_new_bio :: "nat set \<Rightarrow> nat \<Rightarrow> cstring \<Rightarrow> cstring \<Rightarrow> 'e \<Rightarrow> nat \<times> 'e"
  x_do_connect :: "nat \<Rightarrow> 'e \<Rightarrow> int \<times> 'e"
  x_verified :: "nat \<Rightarrow> 'e \<Rightarrow> bool"
  x_get_fd :: "nat \<Rightarrow> 'e \<Rightarrow> int"
  x_write :: "nat \<Rightarrow> u8 list \<Rightarrow> 'e \<Rightarrow> int \<times> 'e"
  x_read :: "nat \<Rightarrow> nat \<Rightarrow> 'e \<Rightarrow> u8 list \<times> 'e"
  x_should_retry :: "nat \<Rightarrow> 'e \<Rightarrow> bool"
  x_should_read :: "nat \<Rightarrow> 'e \<Rightarrow> bool"
  x_sleep :: "nat \<Rightarrow> 'e \<Rightarrow> 'e"
  x_recvfrom :: "int \<Rightarrow> nat \<Rightarrow> 'e \<Rightarrow> u8 list option \<times> 'e"
  x_sendto :: "int \<Rightarrow> u8 list \<Rightarrow> 'e \<Rightarrow> 'e"
  x_mkdir :: "cstring \<Rightarrow> 'e \<Rightarrow> (bool \<times> bool) \<times> 'e"
  x_socket :: "'e \<Rightarrow> int \<times> 'e"
  x_bind :: "int \<Rightarrow> cstring \<Rightarrow> 'e \<Rightarrow> bool \<times> 'e"
  x_chmod :: "cstring \<Rightarrow> 'e \<Rightarrow> bool \<times> 'e"
  x_close :: "int \<Rightarrow> 'e \<Rightarrow> 'e"
  x_unlink :: "cstring \<Rightarrow> 'e \<Rightarrow> 'e"
  x_rmdir :: "cstring \<Rightarrow> 'e \<Rightarrow> 'e"
  x_stack :: mqtt_response
  x_arith :: "'d arith"

text \<open>A call of the world from the state of the process.\<close>

definition ext :: "('e \<Rightarrow> 'a \<times> 'e) \<Rightarrow> 'e sys \<Rightarrow> 'a \<times> 'e sys" where
  "ext f s = (let (r, e) = f (sy_ext s) in (r, s\<lparr>sy_ext := e\<rparr>))"

definition ext_do :: "('e \<Rightarrow> 'e) \<Rightarrow> 'e sys \<Rightarrow> 'e sys" where
  "ext_do f s = s\<lparr>sy_ext := f (sy_ext s)\<rparr>"

text \<open>
  What registering a timeout needs of the event loop's environment; the handlers come with the whole
  environment in \<open>Agent\<close>.
\<close>

definition register_env :: "('e, 'd) agent_env \<Rightarrow> 'e sys eloop_env" where
  "register_env X = \<lparr>clock_gettime = ext (x_clock X), malloc_timeout = (\<lambda>h. ext (x_malloc_timeout X h)),
     alloc_ok = ext (x_alloc_ok X), select_read = (\<lambda>n socks tv. ext (x_select X n socks tv)),
     set_alarm = (\<lambda>n. ext_do (x_alarm X n)), install_signal = (\<lambda>sig. ext_do (x_signal X sig)),
     timeout_handler = (\<lambda>h d u el s. None), read_handler = (\<lambda>h sock d u el s. None),
     signal_handler = (\<lambda>h sig d u el s. None)\<rparr>"

text \<open>The result of \<open>eloop_register_timeout\<close> is never looked at.\<close>

definition set_timeout :: "('e, 'd) agent_env \<Rightarrow> u32 \<Rightarrow> u32 \<Rightarrow> nat \<Rightarrow> nat \<Rightarrow> 'e world \<Rightarrow> 'e world option" where
  "set_timeout X secs usecs handler ctx w = (case w of (el, s) \<Rightarrow> do {
     (rv, el, s) \<leftarrow> eloop_register_timeout (register_env X) secs usecs handler ctx 0 el s;
     Some (el, s)
   })"

end
