(* ===== verification/Agent_Msg.thy ===== *)
theory Agent_Msg
  imports Agent_State
begin

text \<open>
  Messages of the agent (\<open>src/admlink_msghdl.c\<close>, \<open>src/admlink_misc.c\<close>): remote commands that come in
  over MQTT, the events that answer them, and the publishes that wait for the next turn of the event
  loop.
\<close>

subsection \<open>Printing into buffers\<close>

text \<open>
  \<open>snprintf\<close> cuts what does not fit; \<open>strcat\<close>, like \<open>sprintf\<close>, does not look, so a result that does not
  fit with its NUL is undefined; \<open>strftime\<close> leaves the buffer undefined then.
\<close>

definition snprintf :: "nat \<Rightarrow> u8 list \<Rightarrow> u8 list" where
  "snprintf sz bs = take (sz - 1) bs"

fun strcats :: "nat \<Rightarrow> u8 list \<Rightarrow> u8 list list \<Rightarrow> u8 list option" where
  "strcats cap buf [] = Some buf"
| "strcats cap buf (s # ss) = do { buf \<leftarrow> sprintf cap (buf @ s); strcats cap buf ss }"

text \<open>The fields of an event: each is printed into \<open>tmpbuf\<close> of 128 bytes first.\<close>

definition field :: "u8 list \<Rightarrow> u8 list" where
  "field bs = snprintf 128 bs"

definition text_field :: "string \<Rightarrow> u8 list \<Rightarrow> u8 list" where
  "text_field name v = field (ascii '','' @ [0x22] @ ascii name @ [0x22] @ ascii '':'' @ [0x22] @ v @ [0x22])"

definition plain_field :: "string \<Rightarrow> u8 list \<Rightarrow> u8 list" where
  "plain_field name v = field (ascii '','' @ [0x22] @ ascii name @ [0x22] @ ascii '':'' @ v)"

definition date_field :: "('e, 'd) agent_env \<Rightarrow> agent \<Rightarrow> u8 list option" where
  "date_field X ag = do {
     t \<leftarrow> ag_tinfo ag;
     sprintf 128 (ascii '','' @ [0x22] @ ascii ''date'' @ [0x22] @ ascii '':'' @ [0x22] @ x_date X t @ [0x22])
   }"

subsection \<open>Publishing in the next turn\<close>

definition set_mqtt_publish_nexsync ::
  "('e, 'd) agent_env \<Rightarrow> conn_id \<Rightarrow> cstring \<Rightarrow> cstring \<Rightarrow> u8 \<Rightarrow> 'e world \<Rightarrow> 'e world option" where
  "set_mqtt_publish_nexsync X c topic msg publish_flags w = (case w of (el, s) \<Rightarrow>
     let (p, s) = ext (x_calloc_publish X (sy_pubs s)) s
     in if p = 0 then None
        else do {
          topic \<leftarrow> sprintf 128 topic;
          let pub = \<lparr>sp_conn = c, sp_topic_name = topic, sp_application_message = msg @ [0],
            sp_application_message_size = length msg + 1, sp_publish_flags = publish_flags\<rparr>;
          set_timeout X 0 MQTT_SYN_T H_publish p (el, s\<lparr>sy_pubs := (sy_pubs s)(p \<mapsto> pub)\<rparr>)
        })"

subsection \<open>Remote commands\<close>

definition rc_failed :: int where "rc_failed = 0"
definition rc_ok :: int where "rc_ok = 1"
definition rc_reboot :: int where "rc_reboot = 2"

definition admlink_reboot_rc :: "agent \<Rightarrow> agent \<times> int" where
  "admlink_reboot_rc ag = (ag\<lparr>ag_agstatus := isReboot\<rparr>, rc_reboot)"

definition admlink_imhere_rc :: "agent \<Rightarrow> agent \<times> int" where
  "admlink_imhere_rc ag = (ag, rc_ok)"

definition rc_hdl_tbl :: "(cstring \<times> (agent \<Rightarrow> agent \<times> int)) list" where
  "rc_hdl_tbl = [(ascii ''1000'', admlink_reboot_rc), (ascii ''1000,2'', admlink_reboot_rc),
     (ascii ''2000'', admlink_imhere_rc), (ascii ''2000,2'', admlink_imhere_rc)]"

text \<open>The loop over the table: the first entry with that name is run.\<close>

fun run_rc :: "(cstring \<times> (agent \<Rightarrow> agent \<times> int)) list \<Rightarrow> cstring \<Rightarrow> agent \<Rightarrow> agent \<times> int" where
  "run_rc [] rcid ag = (ag, rc_failed)"
| "run_rc ((name, hdl) # tbl) rcid ag = (if rcid = name then hdl ag else run_rc tbl rcid ag)"

definition rcid2name :: "cstring \<Rightarrow> cstring" where
  "rcid2name rcid =
     (if take 4 rcid = ascii ''1000'' then ascii ''Reboot''
      else if take 4 rcid = ascii ''2000'' then ascii ''I'' @ [0x27] @ ascii ''m here''
      else ascii ''UNKNOWN'')"

text \<open>
  The event that answers a command. \<open>rcid\<close> is the buffer the parser has allocated: it is cut to four
  characters in place, so it has to have five bytes.
\<close>

definition get_rcfi_msg :: "('e, 'd) agent_env \<Rightarrow> agent \<Rightarrow> u8 list \<Rightarrow> bool \<Rightarrow> cstring option" where
  "get_rcfi_msg X ag rcid success = do {
     buf \<leftarrow> poke rcid 4 0;
     let rc = cstr buf;
     date \<leftarrow> date_field X ag;
     strcats 1024 [] [ascii ''{'', field ([0x22] @ ascii ''type'' @ [0x22] @ ascii '':'' @ [0x22] @ ascii ''event'' @ [0x22]),
       text_field ''ver'' (ascii ''2.00''), text_field ''prdct'' (ascii ''AP''),
       plain_field ''act_id'' (if success then ascii ''7777'' else ascii ''7788''),
       plain_field ''act_sts'' (ascii ''0''), plain_field ''act_trg'' rc, text_field ''act_para'' rc,
       plain_field ''evt_id'' (ascii ''1''), text_field ''agt_name'' AG_NAME, text_field ''agt_ver'' AG_VER,
       text_field ''ms_ver'' MSG_VER, text_field ''dev_id'' (ag_devid ag), date,
       text_field ''msg'' (rcid2name rc @ (if success then ascii ''is ok'' else ascii ''is failed'')), ascii ''}'']
   }"

text \<open>The state report: the id of the command, as it came.\<close>

definition rc_report :: "cstring \<Rightarrow> cstring option" where
  "rc_report rcid = sprintf 1024
     (ascii ''{'' @ [0x22] @ ascii ''state'' @ [0x22] @ ascii '': {'' @ [0x22] @ ascii ''reported'' @ [0x22] @
      ascii '': {'' @ [0x22] @ ascii ''rc_id'' @ [0x22] @ ascii '':'' @ [0x22] @ rcid @ [0x22] @ ascii ''}}}'')"

definition admlink_process_rc :: "('e, 'd) agent_env \<Rightarrow> u8 list option \<Rightarrow> 'e world \<Rightarrow> 'e world option" where
  "admlink_process_rc X valuestring w = do {
     rcid \<leftarrow> valuestring;
     report \<leftarrow> rc_report (cstr rcid);
     w \<leftarrow> set_mqtt_publish_nexsync X MQRECV (mc_topicsend (ag_mqrecv (sy_agent (snd w)))) report MQTT_PUBLISH_QOS_1 w;
     let (ag, rc_ret) = run_rc rc_hdl_tbl (cstr rcid) (sy_agent (snd w));
     let w = (fst w, (snd w)\<lparr>sy_agent := ag\<rparr>);
     if rc_ret = rc_failed \<or> rc_ret = rc_ok then do {
       msg \<leftarrow> get_rcfi_msg X ag rcid (rc_ret = rc_ok);
       set_mqtt_publish_nexsync X MQUPLD (mc_topicsend (ag_mqupld ag)) msg MQTT_PUBLISH_QOS_1 w
     } else Some w
   }"

definition member_name :: "string \<Rightarrow> u8 list" where
  "member_name name = ascii name @ [0]"

text \<open>A message that is no JSON, or has no command in it, changes nothing.\<close>

definition admlink_msg_handle :: "('e, 'd) agent_env \<Rightarrow> u8 list \<Rightarrow> 'e world \<Rightarrow> 'e world option" where
  "admlink_msg_handle X buffer w = do {
     pdata \<leftarrow> cJSON_Parse (x_arith X) buffer;
     case pdata of None \<Rightarrow> Some w
     | Some pdata \<Rightarrow> do {
         pstate \<leftarrow> cJSON_GetObjectItem pdata (member_name ''state'');
         case pstate of None \<Rightarrow> Some w
         | Some pstate \<Rightarrow> do {
             pdesired \<leftarrow> cJSON_GetObjectItem pstate (member_name ''desired'');
             case pdesired of None \<Rightarrow> Some w
             | Some pdesired \<Rightarrow> do {
                 prcid \<leftarrow> cJSON_GetObjectItem pdesired (member_name ''rc_id'');
                 case prcid of None \<Rightarrow> Some w
                 | Some prcid \<Rightarrow> admlink_process_rc X (cj_valuestring prcid) w
               }
           }
       }
   }"

text \<open>
  The callback of the MQTT client (\<open>publish_callback\<close>): the topic and the message are copied, each
  with a NUL behind it.
\<close>

definition agent_publish_callback ::
  "('e, 'd) agent_env \<Rightarrow> u8 list \<Rightarrow> mqtt_response_publish \<Rightarrow> 'e world \<Rightarrow> 'e world option" where
  "agent_publish_callback X mem published w = do {
     topic \<leftarrow> mem_block mem (topic_name published) (unat (topic_name_size published));
     app_msg \<leftarrow> mem_block mem (application_message published) (application_message_size published);
     admlink_msg_handle X (app_msg @ [0]) w
   }"

end
