(* ===== verification/Agent.thy ===== *)
theory Agent
  imports Agent_Msg
begin

text \<open>
  The agent at work (\<open>src/admlink_main.c\<close>, \<open>src/admlink_socket.c\<close>, \<open>src/admlink_sm.c\<close>,
  \<open>src/admlink_misc.c\<close>, \<open>src/admlink_ctrl_if.c\<close>): connections, timers, the control interface, start
  and exit.

  A function that may end the process returns \<open>Exit code\<close> with the state in which the process ends.
\<close>

datatype 'a outcome = Return 'a | Exit int

subsection \<open>The MQTT client of a connection\<close>

text \<open>
  \<open>mqtt_sync\<close> runs in a world that is the state of the process, or \<open>None\<close> once something undefined has
  happened in it: a BIO that is not open is used, or the callback has no defined result. The callback
  works on the agent while the client of the connection is in the hands of \<open>mqtt_sync\<close>.
\<close>

definition lift_ext :: "'a \<Rightarrow> ('e \<Rightarrow> 'a \<times> 'e) \<Rightarrow> 'e world option \<Rightarrow> 'a \<times> 'e world option" where
  "lift_ext d f w = (case w of None \<Rightarrow> (d, None) | Some (el, s) \<Rightarrow> let (r, s) = ext f s in (r, Some (el, s)))"

definition on_bio :: "nat \<Rightarrow> 'a \<Rightarrow> ('e world option \<Rightarrow> 'a \<times> 'e world option) \<Rightarrow> 'e world option \<Rightarrow> 'a \<times> 'e world option" where
  "on_bio fd d f w = (case w of None \<Rightarrow> (d, None) | Some (el, s) \<Rightarrow> if fd \<in> sy_bios s then f w else (d, None))"

definition sync_env :: "('e, 'd) agent_env \<Rightarrow> 'e world option mqtt_env" where
  "sync_env X = \<lparr>pal_time = lift_ext 0 (x_time X),
     bio_write = (\<lambda>fd bs. on_bio fd 0 (lift_ext 0 (x_write X fd bs))),
     bio_read = (\<lambda>fd n. on_bio fd [] (lift_ext [] (x_read X fd n))),
     bio_should_retry = (\<lambda>fd w. case w of None \<Rightarrow> False | Some (el, s) \<Rightarrow> x_should_retry X fd (sy_ext s)),
     bio_should_read = (\<lambda>fd w. case w of None \<Rightarrow> False | Some (el, s) \<Rightarrow> x_should_read X fd (sy_ext s)),
     publish_callback = (\<lambda>cb mem published w. w \<bind> agent_publish_callback X mem published)\<rparr>"

definition client :: "conn_id \<Rightarrow> 'e world \<Rightarrow> mqtt_client" where
  "client c w = mc_mqclt (conn c (sy_agent (snd w)))"

definition set_client :: "conn_id \<Rightarrow> mqtt_client \<Rightarrow> 'e world \<Rightarrow> 'e world" where
  "set_client c cl w = (case w of (el, s) \<Rightarrow>
     (el, s\<lparr>sy_agent := map_conn c (\<lambda>m. m\<lparr>mc_mqclt := cl\<rparr>) (sy_agent s)\<rparr>))"

definition sync_conn :: "('e, 'd) agent_env \<Rightarrow> conn_id \<Rightarrow> 'e world \<Rightarrow> (int \<times> 'e world) option" where
  "sync_conn X c w = do {
     (rv, cl, w) \<leftarrow> mqtt_sync (sync_env X) (\<lambda>cb cl w. None) (\<lambda>cb cl w. None) (x_stack X) (client c w) (Some w);
     w \<leftarrow> w;
     Some (rv, set_client c cl w)
   }"

text \<open>A request on the client of a connection.\<close>

definition on_client :: "conn_id \<Rightarrow> (mqtt_client \<Rightarrow> (int \<times> mqtt_client) option) \<Rightarrow> 'e world \<Rightarrow> (int \<times> 'e world) option" where
  "on_client c f w = do {
     (rv, cl) \<leftarrow> f (client c w);
     Some (rv, set_client c cl w)
   }"

definition set_conn :: "conn_id \<Rightarrow> (mqconn \<Rightarrow> mqconn) \<Rightarrow> 'e world \<Rightarrow> 'e world" where
  "set_conn c f w = (case w of (el, s) \<Rightarrow> (el, s\<lparr>sy_agent := map_conn c f (sy_agent s)\<rparr>))"

definition the_conn :: "conn_id \<Rightarrow> 'e world \<Rightarrow> mqconn" where
  "the_conn c w = conn c (sy_agent (snd w))"

definition do_ext :: "('e \<Rightarrow> 'a \<times> 'e) \<Rightarrow> 'e world \<Rightarrow> 'a \<times> 'e world" where
  "do_ext f w = (case w of (el, s) \<Rightarrow> let (r, s) = ext f s in (r, (el, s)))"

subsection \<open>Closing a connection\<close>

text \<open>The loop of \<open>close_conn\<close>: up to three times a DISCONNECT is queued and sent.\<close>

function close_loop :: "('e, 'd) agent_env \<Rightarrow> conn_id \<Rightarrow> int \<Rightarrow> 'e world \<Rightarrow> 'e world option" where
  "close_loop X c trys w = do {
     (rv, w) \<leftarrow> on_client c mqtt_disconnect w;
     (trys', w) \<leftarrow> (if rv = mqtt_err MQTT_OK
        then do { (rv, w) \<leftarrow> sync_conn X c w; Some (if rv = mqtt_err MQTT_OK then - 1 else trys, w) }
        else Some (trys, w));
     let (u, w) = do_ext (\<lambda>e. ((), x_sleep X 100000 e)) w;
     if trys' + 1 > 0 \<and> trys' + 1 < 3 then close_loop X c (trys' + 1) w else Some w
   }"
  by pat_completeness auto
termination
  by (relation "measure (\<lambda>(X, c, trys, w). nat (3 - trys))") (auto split: if_splits bind_splits)

declare close_loop.simps [simp del]

definition close_conn :: "('e, 'd) agent_env \<Rightarrow> conn_id \<Rightarrow> 'e world \<Rightarrow> 'e world option" where
  "close_conn X c w = do {
     w \<leftarrow> (if mc_biofd (the_conn c w) \<noteq> 0
        then do {
          (el, s) \<leftarrow> close_loop X c 0 w;
          let fd = mc_biofd (conn c (sy_agent s));
          if fd \<in> sy_bios s
          then Some (set_conn c (\<lambda>m. m\<lparr>mc_biofd := 0, mc_ssl_ctx := 0\<rparr>) (el, s\<lparr>sy_bios := sy_bios s - {fd}\<rparr>))
          else None
        }
        else Some w);
     Some (set_conn c (\<lambda>m. m\<lparr>mc_connfd := 0, mc_status := 0\<rparr>) w)
   }"

subsection \<open>The socket of the control interface\<close>

definition CTRL_INTERFACE :: cstring where "CTRL_INTERFACE = ascii ''/var/admlink_if''"
definition CTRL_INTERFACE_IF :: cstring where "CTRL_INTERFACE_IF = ascii ''if0''"

definition admlink_ctrl_iface_path :: cstring where
  "admlink_ctrl_iface_path = CTRL_INTERFACE @ ascii ''/'' @ CTRL_INTERFACE_IF"

text \<open>
  \<open>x_mkdir\<close> tells whether it worked, and if not, whether the directory was there. The label \<open>fail\<close>: the
  socket, if there is one, is closed, and the path, once it has been built, is removed.
\<close>

definition ctrl_init_fail :: "('e, 'd) agent_env \<Rightarrow> int \<Rightarrow> bool \<Rightarrow> 'e sys \<Rightarrow> int \<times> 'e sys" where
  "ctrl_init_fail X s named sys =
     (let sys = (if s \<ge> 0 then ext_do (x_close X s) sys else sys)
      in (- 1, if named then ext_do (x_unlink X admlink_ctrl_iface_path) sys else sys))"

definition admlink_ctrl_iface_init :: "('e, 'd) agent_env \<Rightarrow> 'e sys \<Rightarrow> int \<times> 'e sys" where
  "admlink_ctrl_iface_init X sys =
     (let sys = sys\<lparr>sy_ctrl_sock := - 1\<rparr>;
          ((made, there), sys) = ext (x_mkdir X CTRL_INTERFACE) sys
      in if \<not> made \<and> \<not> there then ctrl_init_fail X (- 1) False sys
         else let (s, sys) = ext (x_socket X) sys
              in if s < 0 then ctrl_init_fail X s False sys
                 else let (ok, sys) = ext (x_bind X s admlink_ctrl_iface_path) sys
                      in if \<not> ok then ctrl_init_fail X s True sys
                         else let (ok, sys) = ext (x_chmod X admlink_ctrl_iface_path) sys
                              in if \<not> ok then ctrl_init_fail X s True sys
                                 else (0, sys\<lparr>sy_ctrl_sock := s\<rparr>))"

subsection \<open>Leaving the process\<close>

text \<open>What \<open>admlink_ctrl_iface_deinit\<close> does: the list of \<open>ctrl_dst\<close> is always empty.\<close>

definition admlink_ctrl_iface_deinit :: "('e, 'd) agent_env \<Rightarrow> 'e world \<Rightarrow> 'e world option" where
  "admlink_ctrl_iface_deinit X w = (case w of (el, s) \<Rightarrow>
     if sy_ctrl_sock s > - 1 then do {
       el \<leftarrow> eloop_unregister_read_sock (sy_ctrl_sock s) el;
       Some (el, (ext_do (x_rmdir X CTRL_INTERFACE) (ext_do (x_unlink X admlink_ctrl_iface_path)
         (ext_do (x_close X (sy_ctrl_sock s)) s)))\<lparr>sy_ctrl_sock := - 1\<rparr>)
     } else Some (el, s))"

text \<open>The end of \<open>main\<close> and of \<open>exit_link\<close>.\<close>

definition shut_down :: "('e, 'd) agent_env \<Rightarrow> 'e world \<Rightarrow> 'e world option" where
  "shut_down X w = do {
     (el, s) \<leftarrow> admlink_ctrl_iface_deinit X w;
     el \<leftarrow> eloop_destroy el;
     w \<leftarrow> close_conn X MQRECV (el, s);
     close_conn X MQUPLD w
   }"

definition exit_link :: "('e, 'd) agent_env \<Rightarrow> int \<Rightarrow> 'e world \<Rightarrow> ('a outcome \<times> 'e world) option" where
  "exit_link X exitval w = do { w \<leftarrow> shut_down X w; Some (Exit exitval, w) }"

text \<open>The handler of the signals that end the process, but for what it prints.\<close>

definition handle_stop :: "('e, 'd) agent_env \<Rightarrow> 'e world \<Rightarrow> (unit outcome \<times> 'e world) option" where
  "handle_stop X w = exit_link X 0 w"

text \<open>Going on with the result of a function that may have ended the process.\<close>

definition go :: "('a outcome \<times> 'w) option \<Rightarrow> ('a \<Rightarrow> 'w \<Rightarrow> ('b outcome \<times> 'w) option) \<Rightarrow> ('b outcome \<times> 'w) option" where
  "go m f = (case m of None \<Rightarrow> None
     | Some (r, w) \<Rightarrow> (case r of Exit code \<Rightarrow> Some (Exit code, w) | Return a \<Rightarrow> f a w))"

definition finish :: "'w option \<Rightarrow> (unit outcome \<times> 'w) option" where
  "finish m = map_option (\<lambda>w. (Return (), w)) m"

subsection \<open>Opening a connection\<close>

text \<open>The loop that waits for the connection; it ends when ten seconds have passed.\<close>

partial_function (option) connect_loop ::
  "('e, 'd) agent_env \<Rightarrow> nat \<Rightarrow> int \<Rightarrow> int \<Rightarrow> 'e world \<Rightarrow> (int \<times> 'e world) option" where
  [code]: "connect_loop X fd start_time rv w =
     (if rv \<le> 0 \<and> x_should_retry X fd (sy_ext (snd w))
      then let (now, w) = do_ext (x_time X) w
           in if now - start_time < 10
              then let (rv, w) = do_ext (x_do_connect X fd) w in connect_loop X fd start_time rv w
              else Some (rv, w)
      else Some (rv, w))"

definition load_file ::
  "('e, 'd) agent_env \<Rightarrow> (nat \<Rightarrow> cstring \<Rightarrow> 'e \<Rightarrow> bool \<times> 'e) \<Rightarrow> nat \<Rightarrow> cstring \<Rightarrow> 'e world \<Rightarrow> (unit outcome \<times> 'e world) option" where
  "load_file X load ctx file w =
     (let (ok, w) = do_ext (load ctx file) w in if ok then Some (Return (), w) else exit_link X 1 w)"

definition open_nb_socket :: "('e, 'd) agent_env \<Rightarrow> conn_id \<Rightarrow> 'e world \<Rightarrow> (unit outcome \<times> 'e world) option" where
  "open_nb_socket X c w =
     (let m = the_conn c w;
          (ctx, w) = do_ext (x_new_ctx X) w;
          w = set_conn c (\<lambda>m. m\<lparr>mc_ssl_ctx := ctx\<rparr>) w
      in go (load_file X (x_load_cert X) ctx (mc_clt_cert m) w) (\<lambda>_ w.
         go (load_file X (x_load_key X) ctx (mc_clt_key m) w) (\<lambda>_ w.
         go (load_file X (x_load_ca X) ctx (mc_ca_file m) w) (\<lambda>_ w.
           let (fd, w) = do_ext (x_new_bio X (sy_bios (snd w)) ctx (mc_daddr m) (mc_dport m)) w
           in if fd = 0 then None
              else let (el, s) = set_conn c (\<lambda>m. m\<lparr>mc_biofd := fd\<rparr>) w;
                       w = (el, s\<lparr>sy_bios := insert fd (sy_bios s)\<rparr>);
                       (start_time, w) = do_ext (x_time X) w;
                       (rv, w) = do_ext (x_do_connect X fd) w
                   in do {
                     (rv, el, s) \<leftarrow> connect_loop X fd start_time rv w;
                     if rv \<le> 0
                     then Some (Return (), set_conn c (\<lambda>m. m\<lparr>mc_biofd := 0, mc_ssl_ctx := 0\<rparr>)
                       (el, s\<lparr>sy_bios := sy_bios s - {fd}\<rparr>))
                     else if \<not> x_verified X fd (sy_ext s) then exit_link X 1 (el, s)
                     else Some (Return (), (el, s))
                   }))))"

subsection \<open>The state machine of the agent\<close>

text \<open>
  \<open>mqtt_init\<close> gets the two buffers of the connection, with what the last client has left in them.
\<close>

definition conn_sendbuf :: "mqconn \<Rightarrow> u8 list" where
  "conn_sendbuf m = (if mq_set_up (cl_mq (mc_mqclt m)) then mq_mem (cl_mq (mc_mqclt m)) else mc_sendbuf m)"

definition conn_recvbuf :: "mqconn \<Rightarrow> u8 list" where
  "conn_recvbuf m = (case rb_mem (cl_recv_buffer (mc_mqclt m)) of None \<Rightarrow> mc_recvbuf m | Some buf \<Rightarrow> buf)"

definition start_client :: "conn_id \<Rightarrow> 'e world \<Rightarrow> (int \<times> 'e world) option" where
  "start_client c w = (let m = the_conn c w in do {
     cl \<leftarrow> snd (mqtt_init (Some (mc_mqclt m)) (mc_biofd m) (Some (conn_sendbuf m)) (Some (conn_recvbuf m)) 1);
     on_client c (\<lambda>cl. mqtt_connect cl (Some (mc_cltid m)) None None 0 None None MQTT_CONNECT_CLEAN_SESSION 60)
       (set_client c cl w)
   })"

text \<open>
  The part that \<open>check_mqrecv\<close> and \<open>check_mqupld\<close> share: connect, and tell whether that worked.
\<close>

definition open_client :: "('e, 'd) agent_env \<Rightarrow> conn_id \<Rightarrow> 'e world \<Rightarrow> (bool outcome \<times> 'e world) option" where
  "open_client X c w = go (open_nb_socket X c w) (\<lambda>_ w.
     if mc_biofd (the_conn c w) = 0 then Some (Return False, w)
     else do {
       let w = set_conn c (\<lambda>m. m\<lparr>mc_connfd := x_get_fd X (mc_biofd m) (sy_ext (snd w))\<rparr>) w;
       (rv, w) \<leftarrow> start_client c w;
       if cl_error (client c w) \<noteq> mqtt_err MQTT_OK then Some (Return False, w)
       else do {
         (rv, w) \<leftarrow> sync_conn X c w;
         Some (Return (rv = mqtt_err MQTT_OK), w)
       }
     })"

definition connected :: "('e, 'd) agent_env \<Rightarrow> conn_id \<Rightarrow> 'e world \<Rightarrow> (bool outcome \<times> 'e world) option" where
  "connected X c w = do {
     w \<leftarrow> set_timeout X 0 MQTT_SYN_T H_clttraffic (conn_ptr c) (set_conn c (\<lambda>m. m\<lparr>mc_status := 1\<rparr>) w);
     Some (Return True, w)
   }"

definition check_mqrecv :: "('e, 'd) agent_env \<Rightarrow> 'e world \<Rightarrow> (bool outcome \<times> 'e world) option" where
  "check_mqrecv X w =
     (if mc_status (the_conn MQRECV w) = 0
      then go (open_client X MQRECV w) (\<lambda>ok w.
        if \<not> ok then Some (Return False, w)
        else let (u, w) = do_ext (\<lambda>e. ((), x_sleep X 1000000 e)) w
             in do {
               (rv, w) \<leftarrow> on_client MQRECV (\<lambda>cl. mqtt_subscribe cl (Some (mc_topicrecv (the_conn MQRECV w))) 0) w;
               connected X MQRECV w
             })
      else Some (Return True, w))"

definition check_mqupld :: "('e, 'd) agent_env \<Rightarrow> 'e world \<Rightarrow> (bool outcome \<times> 'e world) option" where
  "check_mqupld X w =
     (if mc_status (the_conn MQUPLD w) = 0
      then go (open_client X MQUPLD w) (\<lambda>ok w. if \<not> ok then Some (Return False, w) else connected X MQUPLD w)
      else Some (Return True, w))"

definition set_agent :: "(agent \<Rightarrow> agent) \<Rightarrow> 'e world \<Rightarrow> 'e world" where
  "set_agent f w = (case w of (el, s) \<Rightarrow> (el, s\<lparr>sy_agent := f (sy_agent s)\<rparr>))"

definition check_agstatus :: "('e, 'd) agent_env \<Rightarrow> 'e world \<Rightarrow> (unit outcome \<times> 'e world) option" where
  "check_agstatus X w =
     (if ag_agstatus (sy_agent (snd w)) = isErr then exit_link X 1 w
      else let (t, w) = do_ext (x_time X) w
           in Some (Return (), set_agent (\<lambda>ag. ag\<lparr>ag_tinfo := Some t, ag_agstatus := isOk\<rparr>) w))"

definition chk_agstatm :: "('e, 'd) agent_env \<Rightarrow> 'e world \<Rightarrow> (unit outcome \<times> 'e world) option" where
  "chk_agstatm X w =
     go (check_mqrecv X w) (\<lambda>ok w.
     go (if ok then check_mqupld X w else Some (Return False, w)) (\<lambda>ok w.
     go (if ok then check_agstatus X w else Some (Return (), w)) (\<lambda>_ w.
       finish (set_timeout X SM_CHECK_T 0 H_agstatm agent_ptr w))))"

text \<open>The traffic of a connection, five times a second.\<close>

definition ag_handle_clttraffic :: "('e, 'd) agent_env \<Rightarrow> conn_id \<Rightarrow> 'e world \<Rightarrow> 'e world option" where
  "ag_handle_clttraffic X c w = do {
     (rv, w) \<leftarrow> sync_conn X c w;
     if rv \<noteq> mqtt_err MQTT_OK then close_conn X c w
     else set_timeout X 0 MQTT_SYN_T H_clttraffic (conn_ptr c) w
   }"

text \<open>A publish that waited for its turn.\<close>

definition eloop_set_publish :: "('e, 'd) agent_env \<Rightarrow> nat \<Rightarrow> 'e world \<Rightarrow> 'e world option" where
  "eloop_set_publish X p w = do {
     pub \<leftarrow> sy_pubs (snd w) p;
     (rv, w) \<leftarrow> on_client (sp_conn pub) (\<lambda>cl. mqtt_publish cl (Some (sp_topic_name pub)) (sp_application_message pub)
       (sp_application_message_size pub) (sp_publish_flags pub)) w;
     (el, s) \<leftarrow> (if cl_error (client (sp_conn pub) w) \<noteq> mqtt_err MQTT_OK then close_conn X (sp_conn pub) w else Some w);
     Some (el, s\<lparr>sy_pubs := (sy_pubs s)(p := None)\<rparr>)
   }"

definition eloop_set_exit :: "('e, 'd) agent_env \<Rightarrow> 'e world \<Rightarrow> (unit outcome \<times> 'e world) option" where
  "eloop_set_exit X w = exit_link X 0 w"

subsection \<open>The control interface\<close>

definition admlink_cmd_stop :: "('e, 'd) agent_env \<Rightarrow> 'e world \<Rightarrow> (bool \<times> 'e world) option" where
  "admlink_cmd_stop X w = do {
     w \<leftarrow> set_timeout X 0 MQTT_SYN_T H_exit 0 w;
     Some (True, w)
   }"

text \<open>The Japanese text of the test message, in UTF-8.\<close>

definition test_text :: "u8 list" where
  "test_text = [0xE3, 0x83, 0x86, 0xE3, 0x82, 0xB9, 0xE3, 0x83, 0x88, 0xE9, 0x80, 0x9A, 0xE7, 0x9F, 0xA5]"

definition sendtest_msg :: "('e, 'd) agent_env \<Rightarrow> agent \<Rightarrow> cstring option" where
  "sendtest_msg X ag = do {
     date \<leftarrow> date_field X ag;
     strcats 512 [] [ascii ''{'', field ([0x22] @ ascii ''type'' @ [0x22] @ ascii '':'' @ [0x22] @ ascii ''event'' @ [0x22]),
       text_field ''ver'' (ascii ''2.00''), text_field ''prdct'' (ascii ''AP''), plain_field ''act_id'' (ascii ''9999''),
       plain_field ''act_sts'' (ascii ''0''), plain_field ''act_trg'' (ascii ''0''),
       text_field ''act_para'' (ascii ''Test message''), plain_field ''evt_id'' (ascii ''1''),
       text_field ''agt_name'' AG_NAME, text_field ''agt_ver'' AG_VER, text_field ''ms_ver'' MSG_VER,
       text_field ''dev_id'' (ag_devid ag), date, text_field ''msg'' test_text, ascii ''}'']
   }"

definition admlink_cmd_sendtest :: "('e, 'd) agent_env \<Rightarrow> 'e world \<Rightarrow> (bool \<times> 'e world) option" where
  "admlink_cmd_sendtest X w = do {
     let ag = sy_agent (snd w);
     msg \<leftarrow> sendtest_msg X ag;
     w \<leftarrow> set_mqtt_publish_nexsync X MQUPLD (mc_topicsend (ag_mqupld ag)) msg MQTT_PUBLISH_QOS_1 w;
     Some (True, w)
   }"

definition adlcmd_tbl :: "('e, 'd) agent_env \<Rightarrow> (cstring \<times> ('e world \<Rightarrow> (bool \<times> 'e world) option)) list" where
  "adlcmd_tbl X = [(ascii ''stop'', admlink_cmd_stop X), (ascii ''sendtest'', admlink_cmd_sendtest X)]"

text \<open>The loop over the table: a command matches when it starts with the name of the entry.\<close>

fun run_cmd :: "(cstring \<times> ('w \<Rightarrow> (bool \<times> 'w) option)) list \<Rightarrow> cstring \<Rightarrow> 'w \<Rightarrow> (cstring \<times> 'w) option" where
  "run_cmd [] buf w = Some (ascii ''UNKNOWNCMD'', w)"
| "run_cmd ((name, hdl) # tbl) buf w =
     (if take (length name) buf = name
      then do { (ok, w) \<leftarrow> hdl w; Some (if ok then ascii ''OK'' else ascii ''UNKNOWN_ERR'', w) }
      else run_cmd tbl buf w)"

text \<open>The result is the reply; its length is never negative, as neither buffer is null.\<close>

definition admlink_cmd_handle :: "('e, 'd) agent_env \<Rightarrow> cstring \<Rightarrow> 'e world \<Rightarrow> (cstring \<times> 'e world) option" where
  "admlink_cmd_handle X buf w =
     (let (t, w) = do_ext (x_time X) w
      in run_cmd (adlcmd_tbl X) buf (set_agent (\<lambda>ag. ag\<lparr>ag_tinfo := Some t\<rparr>) w))"

definition STR_REPLY_OK :: cstring where
  "STR_REPLY_OK = ascii ''ok'' @ [0x0A]"

definition admlink_ctrl_iface_receive :: "('e, 'd) agent_env \<Rightarrow> int \<Rightarrow> 'e world \<Rightarrow> 'e world option" where
  "admlink_ctrl_iface_receive X sock w =
     (let (res, w) = do_ext (x_recvfrom X sock 255) w
      in case res of None \<Rightarrow> Some w
         | Some bs \<Rightarrow> do {
             buf \<leftarrow> sprintf 256 bs;
             (reply, w) \<leftarrow>
               (if ag_agstatus (sy_agent (snd w)) \<noteq> isReboot \<and> ag_agstatus (sy_agent (snd w)) \<noteq> isFwup
                then admlink_cmd_handle X (cstr (buf @ [0])) w
                else Some (STR_REPLY_OK, w));
             Some (snd (do_ext (\<lambda>e. ((), x_sendto X sock reply e)) w))
           })"

subsection \<open>The agent in the event loop\<close>

definition returned :: "('a outcome \<times> 'w) option \<Rightarrow> 'w option" where
  "returned m = (case m of Some (Return a, w) \<Rightarrow> Some w | _ \<Rightarrow> None)"

text \<open>A handler that ends the process does not return to the event loop.\<close>

definition agent_timeout :: "('e, 'd) agent_env \<Rightarrow> nat \<Rightarrow> nat \<Rightarrow> 'e world \<Rightarrow> 'e world option" where
  "agent_timeout X h d w =
     (if h = H_clttraffic then do { c \<leftarrow> conn_at d; ag_handle_clttraffic X c w }
      else if h = H_agstatm then returned (chk_agstatm X w)
      else if h = H_publish then eloop_set_publish X d w
      else if h = H_exit then returned (eloop_set_exit X w)
      else None)"

definition agent_loop_env :: "('e, 'd) agent_env \<Rightarrow> 'e sys eloop_env" where
  "agent_loop_env X = (register_env X)\<lparr>
     timeout_handler := (\<lambda>h d u el s. agent_timeout X h d (el, s)),
     read_handler := (\<lambda>h sock d u el s. admlink_ctrl_iface_receive X sock (el, s))\<rparr>"

subsection \<open>Start\<close>

text \<open>
  What \<open>memset\<close> leaves of a connection; its client has neither buffer.
\<close>

definition zero_client :: mqtt_client where
  "zero_client = \<lparr>cl_socketfd = 0, cl_pid_lfsr = 0, cl_keep_alive = 0, cl_number_of_keep_alives = 0,
     cl_send_offset = 0, cl_time_of_last_send = 0, cl_error = 0, cl_response_timeout = 0,
     cl_number_of_timeouts = 0, cl_typical_response_time = RespUnset, cl_publish_response_callback = 0,
     cl_inspector_callback = None, cl_reconnect_callback = None, cl_reconnect_state = 0,
     cl_recv_buffer = \<lparr>rb_mem = None, rb_curr = 0, rb_curr_sz = 0\<rparr>, cl_mutex = False,
     cl_mq = \<lparr>mq_set_up = False, mq_mem = [], mq_curr = 0, mq_curr_sz = 0, mq_queue = [],
       mq_slot = (\<lambda>_. \<lparr>qm_start = 0, qm_size = 0, qm_state = MQTT_QUEUED_UNSENT, qm_time_sent = 0,
         qm_control_type = MQTT_CONTROL_RESERVED_0, qm_packet_id = 0\<rparr>)\<rparr>\<rparr>"

definition new_conn :: "cstring \<Rightarrow> cstring \<Rightarrow> cstring \<Rightarrow> mqconn" where
  "new_conn cltid topicsend topicrecv = \<lparr>mc_ssl_ctx = 0, mc_biofd = 0, mc_connfd = 0, mc_status = 0,
     mc_daddr = ascii ''test.mosquitto.org'', mc_dport = ascii ''8883'', mc_ca_file = ascii ''/etc/mosquitto.org.crt'',
     mc_clt_key = ascii ''/etc/client.key'', mc_clt_cert = ascii ''/etc/client.crt'', mc_cltid = cltid,
     mc_topicsend = topicsend, mc_topicrecv = topicrecv, mc_sendbuf = replicate BUF_SEND_SIZE 0,
     mc_recvbuf = replicate BUF_RECV_SIZE 0, mc_mqclt = zero_client\<rparr>"

text \<open>The device id is the first argument, if there is one and it is not empty.\<close>

definition cfg_agInit :: "cstring option \<Rightarrow> agent option" where
  "cfg_agInit argv1 = do {
     devid \<leftarrow> sprintf 128 (case argv1 of None \<Rightarrow> ascii ''maomaoag'' | Some a \<Rightarrow> if a = [] then ascii ''maomaoag'' else a);
     topicsend \<leftarrow> sprintf 128 (ascii ''$aws/things/'' @ devid @ ascii ''/shadow/update'');
     topicrecv \<leftarrow> sprintf 128 (ascii ''$aws/things/'' @ devid @ ascii ''/shadow/update/accepted'');
     upldid \<leftarrow> sprintf 128 (devid @ ascii ''_uploader'');
     upldsend \<leftarrow> sprintf 128 (ascii ''devices/'' @ upldid @ ascii ''/message'');
     Some \<lparr>ag_agstatus = 0, ag_devid = devid, ag_mqrecv = new_conn devid topicsend topicrecv,
       ag_mqupld = new_conn upldid upldsend [], ag_tinfo = None\<rparr>
   }"

text \<open>
  \<open>main\<close>: the start up to the event loop (or the failure to open the control interface), the loop, and
  the end.
\<close>

definition agent_start :: "('e, 'd) agent_env \<Rightarrow> cstring option \<Rightarrow> 'e world \<Rightarrow> (bool \<times> 'e world) option" where
  "agent_start X argv1 w = (case w of (el, s) \<Rightarrow> do {
     ag \<leftarrow> cfg_agInit argv1;
     let (rv, s) = admlink_ctrl_iface_init X (s\<lparr>sy_agent := ag, sy_pubs := (\<lambda>p. None), sy_bios := {}\<rparr>);
     if rv < 0 then Some (False, (el, s))
     else do {
       (rv, el, s) \<leftarrow> eloop_register_read_sock (register_env X) (sy_ctrl_sock s) 1 agent_ptr 0 (eloop_init 0 el) s;
       w \<leftarrow> set_timeout X 1 0 H_agstatm agent_ptr (el, s);
       Some (True, w)
     }
   })"

definition agent_main :: "('e, 'd) agent_env \<Rightarrow> cstring option \<Rightarrow> 'e world \<Rightarrow> 'e world option" where
  "agent_main X argv1 w = do {
     (ok, el, s) \<leftarrow> agent_start X argv1 w;
     w \<leftarrow> (if ok then eloop_run (agent_loop_env X) el s else Some (el, s));
     shut_down X w
   }"

end
