(* ===== verification/Mqtt_World.thy ===== *)
theory Mqtt_World
  imports Mqtt_Sync
begin

text \<open>
  What \<open>mqtt_sync\<close> does to the world outside the client: nothing but the calls of its environment, in
  some order. The locale \<open>world_frame\<close> is the contract of a relation on worlds that every such call
  keeps; then \<open>mqtt_sync\<close> keeps it too. It is interpreted on the environment of the agent.
\<close>

locale world_frame =
  fixes env :: "'w mqtt_env"
    and R :: "'w \<Rightarrow> 'w \<Rightarrow> bool"
  assumes keeps_refl: "R w w"
    and keeps_trans: "R a b \<Longrightarrow> R b c \<Longrightarrow> R a c"
    and keeps_time: "R w (snd (pal_time env w))"
    and keeps_write: "R w (snd (bio_write env fd bs w))"
    and keeps_read: "R w (snd (bio_read env fd n w))"
    and keeps_callback: "R w (publish_callback env cb mem p w)"
begin

lemma time_step: "pal_time env w = (t, w') \<Longrightarrow> R w w'"
  using keeps_time [of w] by simp

lemma sendall: "sendall_loop env fd buf sent w = Some (rv, w') \<Longrightarrow> R w w'"
proof -
  assume ret: "sendall_loop env fd buf sent w = Some (rv, w')"
  have "env = env \<longrightarrow> R w (snd (rv, w'))"
  proof (rule sendall_loop.raw_induct [where P = "\<lambda>e fd buf sent w r. e = env \<longrightarrow> R w (snd r)", OF _ ret])
    fix f e fd buf sent w r
    assume IH: "\<And>e fd buf sent w r. f e fd buf sent w = Some r \<Longrightarrow> e = env \<longrightarrow> R w (snd r)"
      and body: "(if sent < length buf
        then let (tmp, w) = bio_write e fd (drop sent buf) w
             in if tmp > 0 then f e fd buf (sent + nat tmp) w
                else if \<not> bio_should_retry e fd w then Some (mqtt_err MQTT_ERROR_SOCKET_ERROR, w)
                else f e fd buf sent w
        else Some (int sent, w)) = Some r"
    show "e = env \<longrightarrow> R w (snd r)"
    proof
      assume e: "e = env"
      obtain tmp w1 where wr: "bio_write env fd (drop sent buf) w = (tmp, w1)" by fastforce
      then have w1: "R w w1" using keeps_write [of w fd "drop sent buf"] by simp
      consider "f e fd buf (sent + nat tmp) w1 = Some r" | "f e fd buf sent w1 = Some r" | "snd r = w1" | "snd r = w"
        using body e wr by (auto split: if_splits)
      then show "R w (snd r)" using w1 keeps_refl e by cases (auto dest!: IH intro: keeps_trans)
    qed
  qed
  then show ?thesis by simp
qed

lemma recvall: "recvall_loop env fd n got w = Some (rv, bs, w') \<Longrightarrow> R w w'"
proof -
  assume ret: "recvall_loop env fd n got w = Some (rv, bs, w')"
  have "env = env \<longrightarrow> R w (snd (snd (rv, bs, w')))"
  proof (rule recvall_loop.raw_induct [where P = "\<lambda>e fd n got w r. e = env \<longrightarrow> R w (snd (snd r))", OF _ ret])
    fix f e fd n got w r
    assume IH: "\<And>e fd n got w r. f e fd n got w = Some r \<Longrightarrow> e = env \<longrightarrow> R w (snd (snd r))"
      and body: "(let (bs, w) = bio_read e fd n w
        in if length bs > n then None
           else if bs = [] \<and> \<not> bio_should_retry e fd w then Some (mqtt_err MQTT_ERROR_SOCKET_ERROR, got, w)
           else let got = got @ bs; bufsz = n - length bs
                in if \<not> bio_should_read e fd w \<and> bufsz > 0 then f e fd bufsz got w
                   else Some (int (length got), got, w)) = Some r"
    show "e = env \<longrightarrow> R w (snd (snd r))"
    proof
      assume e: "e = env"
      obtain bs w1 where rd: "bio_read env fd n w = (bs, w1)" by fastforce
      then have w1: "R w w1" using keeps_read [of w fd n] by simp
      consider "f e fd (n - length bs) (got @ bs) w1 = Some r" | "snd (snd r) = w1"
        using body e rd by (auto simp: Let_def split: if_splits)
      then show "R w (snd (snd r))" using w1 e by cases (auto dest!: IH intro: keeps_trans)
    qed
  qed
  then show ?thesis by simp
qed

lemma send_due: "send_due env msg cl w = (b, cl', w') \<Longrightarrow> R w w'"
  using keeps_refl by (auto simp: send_due_def dest: time_step split: if_splits prod.splits)

lemma send_message: "send_message env i q cl w = Some (r, q', cl', w') \<Longrightarrow> R w w'"
proof -
  assume ret: "send_message env i q cl w = Some (r, q', cl', w')"
  obtain b cl1 w1 where due: "Mqtt_Sync.send_due env (mq_queue (cl_mq cl) ! i) cl w = (b, cl1, w1)" by (metis prod_cases3)
  note 1 = send_due [OF due]
  show ?thesis
  proof (cases "w' = w1")
    case False
    with ret due obtain buf tmp w2 where
      snd: "mqtt_pal_sendall env (cl_socketfd cl1) buf w1 = Some (tmp, w2)"
      and w': "w' = w2 \<or> w' = snd (pal_time env w2)"
      by (auto simp: send_message_def Let_def split: bind_splits if_splits option.splits prod.splits)
    have "R w1 w2" using snd sendall by (auto simp: mqtt_pal_sendall_def)
    then show ?thesis using 1 w' keeps_time keeps_trans by blast
  qed (use 1 in simp)
qed

lemma send_loop: "send_loop env is q cl w = Some (r, cl', w') \<Longrightarrow> R w w'"
proof (induction "is" arbitrary: q cl w)
  case (Cons i "is")
  obtain x q1 cl1 w1 where one: "Mqtt_Sync.send_message env i q cl w = Some (x, q1, cl1, w1)"
    using Cons.prems by (auto split: bind_splits)
  note w1 = send_message [OF one]
  show ?case
  proof (cases x)
    case Send_Next
    then have "R w1 w'" using Cons one by simp
    with w1 keeps_trans show ?thesis by blast
  qed (use Cons.prems one w1 in simp_all)
qed (use keeps_refl in auto)

lemma keep_alive_check: "keep_alive_check env cl w = Some (rv, cl', w') \<Longrightarrow> R w w'"
  by (auto simp: keep_alive_check_def Let_def split: prod.splits if_splits bind_splits dest: time_step)

lemma send: "mqtt_send env cl w = Some (rv, cl', w') \<Longrightarrow> R w w'"
proof -
  assume ret: "mqtt_send env cl w = Some (rv, cl', w')"
  show ?thesis
  proof (cases "w' = w")
    case False
    with ret obtain cl1 r cl2 w2 where loop: "Mqtt_Sync.send_loop env [0..<mqtt_mq_length (cl_mq cl1)] False cl1 w = Some (r, cl2, w2)"
      and rest: "w' = w2 \<or> (\<exists>rv cl3. Mqtt_Sync.keep_alive_check env cl2 w2 = Some (rv, cl3, w'))"
      by (auto simp: mqtt_send_def split: bind_splits if_splits option.splits)
    from send_loop [OF loop] rest keep_alive_check keeps_trans show ?thesis by blast
  qed (use keeps_refl in simp)
qed

lemma release_acked: "release_acked env ctype pid cl w = Some (f, cl', w') \<Longrightarrow> R w w'"
  using keeps_refl by (auto simp: release_acked_def Let_def split: bind_splits option.splits prod.splits dest: time_step)

lemma staged_world: "staged x w = (rv, cl, w') \<Longrightarrow> w' = w"
  by (auto simp: staged_def split: prod.splits if_splits)

lemma recv_connack: "recv_connack env c cl w = Some (rv, cl', w') \<Longrightarrow> R w w'"
  by (auto simp: recv_connack_def split: bind_splits if_splits dest: release_acked)

lemma recv_ack: "recv_ack env ctype pid cl w = Some (rv, cl', w') \<Longrightarrow> R w w'"
  by (auto simp: recv_ack_def split: bind_splits if_splits dest: release_acked)

lemma recv_pubrec: "recv_pubrec env pid cl w = Some (rv, cl', w') \<Longrightarrow> R w w'"
  using keeps_refl by (auto simp: recv_pubrec_def split: bind_splits if_splits dest: release_acked dest!: staged_world)

lemma recv_pubrel: "recv_pubrel env pid cl w = Some (rv, cl', w') \<Longrightarrow> R w w'"
  by (auto simp: recv_pubrel_def split: bind_splits if_splits dest: release_acked dest!: staged_world)

lemma recv_suback: "recv_suback env mem s cl w = Some (rv, cl', w') \<Longrightarrow> R w w'"
  by (auto simp: recv_suback_def split: bind_splits if_splits dest: release_acked)

lemma recv_publish: "recv_publish env mem p cl w = Some (rv, cl', w') \<Longrightarrow> R w w'"
proof -
  assume ret: "recv_publish env mem p cl w = Some (rv, cl', w')"
  have deliver: "w' = w \<or> (\<exists>cb. w' = publish_callback env cb mem p w)"
    if "(let (rv, cl, w) = staged x w in if rv \<noteq> mqtt_err MQTT_OK then Some (rv, cl, w)
      else Some (mqtt_err MQTT_OK, cl, publish_callback env (cl_publish_response_callback cl) mem p w)) = Some (rv, cl', w')" for x
    using that by (auto simp: staged_def split: prod.splits if_splits)
  have "w' = w \<or> (\<exists>cb. w' = publish_callback env cb mem p w)"
    using ret deliver by (auto simp: recv_publish_def Let_def split: if_splits bind_splits)
  with keeps_refl keeps_callback show ?thesis by auto
qed

lemma handle_response: "handle_response env r mem cl w = Some (rv, cl', w') \<Longrightarrow> R w w'"
  using keeps_refl recv_connack recv_publish recv_ack recv_pubrec recv_pubrel recv_suback
  by (auto simp: handle_response_def split: MQTTControlPacketType.splits mqtt_decoded.splits)

lemma recv_one: "recv_one env r cl w = Some (ret, r', cl', w') \<Longrightarrow> R w w'"
proof -
  assume ret: "recv_one env r cl w = Some (ret, r', cl', w')"
  then obtain rv bs w1 where rd: "mqtt_pal_recvall env (cl_socketfd cl) (rb_curr_sz (cl_recv_buffer cl)) w = Some (rv, bs, w1)"
    and rest: "w' = w1 \<or> (\<exists>r1 mem cl1 rv1 cl2. Mqtt_Sync.handle_response env r1 mem cl1 w1 = Some (rv1, cl2, w'))"
    by (auto simp: recv_one_def Let_def split: bind_splits if_splits; blast)
  have "R w w1" using rd recvall by (auto simp: mqtt_pal_recvall_def)
  with rest handle_response keeps_trans show ?thesis by blast
qed

lemma recv_loop: "recv_loop env r cl w = Some (rv, cl', w') \<Longrightarrow> R w w'"
proof -
  assume ret: "recv_loop env r cl w = Some (rv, cl', w')"
  have "env = env \<longrightarrow> R w (snd (snd (rv, cl', w')))"
  proof (rule recv_loop.raw_induct [where P = "\<lambda>e r cl w x. e = env \<longrightarrow> R w (snd (snd x))", OF _ ret])
    fix f e r cl w x
    assume IH: "\<And>e r cl w x. f e r cl w = Some x \<Longrightarrow> e = env \<longrightarrow> R w (snd (snd x))"
      and body: "Mqtt_Sync.recv_one e r cl w \<bind> (\<lambda>(ret, r, cl, w).
        case ret of None \<Rightarrow> f e r cl w | Some rv \<Rightarrow> Some (rv, cl, w)) = Some x"
    show "e = env \<longrightarrow> R w (snd (snd x))"
    proof
      assume e: "e = env"
      obtain ret r1 cl1 w1 where one: "Mqtt_Sync.recv_one env r cl w = Some (ret, r1, cl1, w1)"
        and rest: "f e r1 cl1 w1 = Some x \<or> snd (snd x) = w1"
        using body e by (auto split: bind_splits option.splits)
      from rest show "R w (snd (snd x))"
        using recv_one [OF one] IH e keeps_trans by blast
    qed
  qed
  then show ?thesis by simp
qed

lemma recv: "mqtt_recv env r cl w = Some (rv, cl', w') \<Longrightarrow> R w w'"
  by (auto simp: mqtt_recv_def split: bind_splits dest: recv_loop)

text \<open>A client without callbacks of its own: nothing else touches the world.\<close>

lemma sync:
  assumes ret: "mqtt_sync env inspector reconnect r cl w = Some (rv, cl', w')"
    and none: "\<And>cb cl w. inspector cb cl w = None" "\<And>cb cl w. reconnect cb cl w = None"
  shows "R w w'"
proof -
  from ret none obtain cl1 err cl2 w2 where rv: "mqtt_recv env r cl1 w = Some (err, cl2, w2)"
    and rest: "w' = w2 \<or> (\<exists>rv1 cl3. mqtt_send env cl2 w2 = Some (rv1, cl3, w'))"
    by (auto simp: mqtt_sync_def sync_start_def sync_inspect_def sync_finish_def Let_def
        split: bind_splits if_splits option.splits prod.splits)
  from recv [OF rv] rest send keeps_trans show ?thesis by blast
qed

text \<open>The first thing that happens to the world in a synchronisation is a read from the BIO of the client.\<close>

lemma recvall_first: "recvall_loop env fd n got w = Some (rv, bs, w') \<Longrightarrow> R (snd (bio_read env fd n w)) w'"
proof -
  assume ret: "recvall_loop env fd n got w = Some (rv, bs, w')"
  obtain bs1 w1 where rd: "bio_read env fd n w = (bs1, w1)" by fastforce
  from ret have "w' = w1 \<or> recvall_loop env fd (n - length bs1) (got @ bs1) w1 = Some (rv, bs, w')"
    by (subst (asm) recvall_loop.simps) (auto simp: rd Let_def split: if_splits)
  then show ?thesis using recvall keeps_refl rd by auto
qed

lemma recv_one_first:
  assumes ret: "recv_one env r cl w = Some (x, r', cl', w')"
  shows "R (snd (bio_read env (cl_socketfd cl) (rb_curr_sz (cl_recv_buffer cl)) w)) w'"
proof -
  from ret obtain rv bs w1 where rd: "mqtt_pal_recvall env (cl_socketfd cl) (rb_curr_sz (cl_recv_buffer cl)) w = Some (rv, bs, w1)"
    and rest: "w' = w1 \<or> (\<exists>r1 mem cl1 rv1 cl2. Mqtt_Sync.handle_response env r1 mem cl1 w1 = Some (rv1, cl2, w'))"
    by (auto simp: recv_one_def Let_def split: bind_splits if_splits; blast)
  have "R (snd (bio_read env (cl_socketfd cl) (rb_curr_sz (cl_recv_buffer cl)) w)) w1"
    using rd recvall_first by (auto simp: mqtt_pal_recvall_def)
  with rest handle_response keeps_trans show ?thesis by blast
qed

lemma recv_first:
  assumes ret: "mqtt_recv env r cl w = Some (rv, cl', w')"
  shows "\<exists>n. R (snd (bio_read env (cl_socketfd cl) n w)) w'"
proof -
  obtain cl1 cl2 where loop: "recv_loop env r cl1 w = Some (rv, cl2, w')" and fd: "cl_socketfd cl1 = cl_socketfd cl"
    using ret by (auto simp: mqtt_recv_def mutex_lock_def split: bind_splits if_splits)
  obtain x r1 cl3 w1 where one: "Mqtt_Sync.recv_one env r cl1 w = Some (x, r1, cl3, w1)"
    and rest: "w' = w1 \<or> recv_loop env r1 cl3 w1 = Some (rv, cl2, w')"
    using loop by (subst (asm) recv_loop.simps) (auto split: bind_splits option.splits)
  show ?thesis using recv_one_first [OF one] rest recv_loop keeps_trans fd by metis
qed

lemma sync_first:
  assumes ret: "mqtt_sync env inspector reconnect r cl w = Some (rv, cl', w')"
    and none: "\<And>cb cl w. inspector cb cl w = None" "\<And>cb cl w. reconnect cb cl w = None"
  shows "\<exists>n. R (snd (bio_read env (cl_socketfd cl) n w)) w'"
proof -
  from ret none obtain cl1 err cl2 w2 where rv: "mqtt_recv env r cl1 w = Some (err, cl2, w2)"
    and fd: "cl_socketfd cl1 = cl_socketfd cl"
    and rest: "w' = w2 \<or> (\<exists>rv1 cl3. mqtt_send env cl2 w2 = Some (rv1, cl3, w'))"
    by (auto simp: mqtt_sync_def sync_start_def sync_inspect_def sync_finish_def Let_def mutex_lock_def mutex_unlock_def
        split: bind_splits if_splits option.splits prod.splits)
  from recv_first [OF rv] fd obtain n where "R (snd (bio_read env (cl_socketfd cl) n w)) w2" by auto
  with rest send keeps_trans show ?thesis by blast
qed

end

end
