(* ===== verification/Cjson_Facts.thy ===== *)
theory Cjson_Facts
  imports Cjson
begin

text \<open>
  Facts about the JSON parser: on which texts it stays inside its buffers, and that a printed string
  parses to itself.
\<close>

subsection \<open>Texts that are safe to parse\<close>

text \<open>
  A text that ends with a NUL, in which a backslash is always followed by a byte, and \<open>\u\<close> by four
  hexadecimal digits.
\<close>

definition hex4 :: "u8 list \<Rightarrow> bool" where
  "hex4 p \<longleftrightarrow> length p \<ge> 4 \<and> (\<forall>b \<in> set (take 4 p). hex_digit b \<noteq> None)"

fun escapes_ok :: "u8 list \<Rightarrow> bool" where
  "escapes_ok [] = False"
| "escapes_ok (b # bs) =
     (if b = 0 then True
      else if b = 0x5C then (case bs of [] \<Rightarrow> False
        | c # cs \<Rightarrow> if c = 0x75 then hex4 cs \<and> escapes_ok (drop 4 cs) else c \<noteq> 0 \<and> escapes_ok cs)
      else escapes_ok bs)"

text \<open>No more than nine digits stand in a row; \<open>n\<close> of them come before the text.\<close>

fun digits_ok :: "nat \<Rightarrow> u8 list \<Rightarrow> bool" where
  "digits_ok n [] = True"
| "digits_ok n (b # bs) = (if is_digit b then n < 9 \<and> digits_ok (Suc n) bs else digits_ok 0 bs)"

definition safe_text :: "u8 list \<Rightarrow> bool" where
  "safe_text p \<longleftrightarrow> escapes_ok p \<and> digits_ok 0 p"

lemma digits_ok_le: "digits_ok n p \<Longrightarrow> m \<le> n \<Longrightarrow> digits_ok m p"
proof (induction p arbitrary: m n)
  case (Cons b bs)
  then show ?case by (cases "is_digit b") auto
qed simp

lemma digits_ok_tl: "digits_ok n (b # bs) \<Longrightarrow> digits_ok 0 bs"
  by (auto split: if_splits elim: digits_ok_le)

lemma digits_ok_drop: "digits_ok 0 p \<Longrightarrow> digits_ok 0 (drop k p)"
proof (induction p arbitrary: k)
  case (Cons b bs)
  then show ?case by (cases k) (simp_all del: digits_ok.simps(2) add: digits_ok_tl)
qed simp

lemma safe_text_tl: "safe_text (b # bs) \<Longrightarrow> b \<noteq> 0 \<Longrightarrow> b \<noteq> 0x5C \<Longrightarrow> safe_text bs"
  unfolding safe_text_def by (metis digits_ok_tl escapes_ok.simps(2))

lemma safe_text_Cons: "safe_text p \<Longrightarrow> \<exists>b bs. p = b # bs"
  by (cases p) (simp_all add: safe_text_def)

lemma skip_safe: "safe_text p \<Longrightarrow> \<exists>q. skip p = Some q \<and> safe_text q"
proof (induction p rule: skip.induct)
  case (2 b bs)
  show ?case
  proof (cases "b \<noteq> 0 \<and> b \<le> 32")
    case True
    then have "b \<noteq> 0x5C" by auto
    with True 2 safe_text_tl show ?thesis by auto
  qed (use 2 in auto)
qed (simp add: safe_text_def)

lemma starts_with_safe:
  "safe_text p \<Longrightarrow> 0 \<notin> set cs \<Longrightarrow> 0x5C \<notin> set cs \<Longrightarrow>
   \<exists>f. starts_with p cs = Some f \<and> (f \<longrightarrow> safe_text (drop (length cs) p))"
proof (induction p cs rule: starts_with.induct)
  case (3 b bs c cs)
  then show ?case using safe_text_tl [of b bs] by (cases "b = c") auto
qed (auto simp: safe_text_def)

lemma is_digit_plain: "is_digit b \<Longrightarrow> b \<noteq> 0 \<and> b \<noteq> 0x5C \<and> b \<noteq> 0x22"
  by (auto simp: is_digit_def)

lemma skip_byte_safe: "safe_text p \<Longrightarrow> c \<noteq> 0 \<Longrightarrow> c \<noteq> 0x5C \<Longrightarrow> \<exists>f q. skip_byte c p = Some (f, q) \<and> safe_text q"
  using safe_text_Cons [of p] safe_text_tl by (auto simp: skip_byte_def)

lemma int_digits_safe: "safe_text p \<Longrightarrow> \<exists>n' q. int_digits ar n p = Some (n', q) \<and> safe_text q"
proof (induction ar n p rule: int_digits.induct)
  case (2 ar n b bs)
  then show ?case using is_digit_plain safe_text_tl by (cases "is_digit b") auto
qed (simp add: safe_text_def)

lemma frac_digits_safe: "safe_text p \<Longrightarrow> \<exists>n' s' q. frac_digits ar n s p = Some (n', s', q) \<and> safe_text q"
proof (induction ar n s p rule: frac_digits.induct)
  case (2 ar n s b bs)
  then show ?case using is_digit_plain safe_text_tl by (cases "is_digit b") auto
qed (simp add: safe_text_def)

lemma digit_value_bound: "is_digit b \<Longrightarrow> 0 \<le> digit_value b \<and> digit_value b \<le> 9"
  by (simp add: is_digit_def digit_value_def word_le_def)

text \<open>After \<open>k\<close> digits the exponent is less than \<open>10 ^ k\<close>, so nine of them do not overflow.\<close>

lemma exp_digits_safe:
  "escapes_ok p \<Longrightarrow> digits_ok k p \<Longrightarrow> 0 \<le> e \<Longrightarrow> e < 10 ^ k \<Longrightarrow>
   \<exists>e' q. exp_digits e p = Some (e', q) \<and> safe_text q"
proof (induction e p arbitrary: k rule: exp_digits.induct)
  case (2 e b bs)
  show ?case
  proof (cases "is_digit b")
    case True
    note d = digit_value_bound [OF True] is_digit_plain [OF True]
    have k: "k < 9" "digits_ok (Suc k) bs" using 2(3) True by simp_all
    have e: "0 \<le> e * 10 + digit_value b" "e * 10 + digit_value b < 10 ^ Suc k" using 2(4,5) d by auto
    have "(10::int) ^ Suc k \<le> 10 ^ 9" using k by (intro power_increasing) auto
    then have "e * 10 + digit_value b < 2 ^ 31" using e by simp
    with True 2(1) [OF True _ _ k(2) e] 2(2) d show ?thesis by auto
  next
    case False
    then show ?thesis using 2(2,3) by (auto simp: safe_text_def elim: digits_ok_le)
  qed
qed simp

lemma parse_fraction_safe: "safe_text p \<Longrightarrow> \<exists>n' s' q. parse_fraction ar n p = Some (n', s', q) \<and> safe_text q"
proof -
  assume safe: "safe_text p"
  then obtain b bs where p: "p = b # bs" using safe_text_Cons by blast
  show ?thesis
  proof (cases "b = 0x2E")
    case True
    then have bs: "safe_text bs" using safe safe_text_tl p by auto
    then obtain d ds where "bs = d # ds" using safe_text_Cons by blast
    with True p safe frac_digits_safe [OF bs] show ?thesis by (auto simp: parse_fraction_def)
  next
    case False
    with p safe show ?thesis by (simp add: parse_fraction_def)
  qed
qed

lemma parse_exponent_safe: "safe_text p \<Longrightarrow> \<exists>e q. parse_exponent p = Some (e, q) \<and> safe_text q"
proof -
  assume safe: "safe_text p"
  then obtain b bs where p: "p = b # bs" using safe_text_Cons by blast
  show ?thesis
  proof (cases "b = 0x65 \<or> b = 0x45")
    case True
    then have "safe_text bs" using safe safe_text_tl p by auto
    from skip_byte_safe [OF this, of "0x2B"] obtain f q where 1: "skip_byte 0x2B bs = Some (f, q)" "safe_text q" by auto
    obtain m r where 2: "(if f then Some (False, q) else skip_byte 0x2D q) = Some (m, r)" "safe_text r"
      using 1(2) skip_byte_safe [OF 1(2), of "0x2D"] by (cases f) auto
    obtain e t where "exp_digits 0 r = Some (e, t)" "safe_text t"
      using exp_digits_safe [of r 0 0] 2(2) by (auto simp: safe_text_def)
    with 1 2 True p show ?thesis by (auto simp: parse_exponent_def)
  next
    case False
    with p safe show ?thesis by (simp add: parse_exponent_def)
  qed
qed

lemma parse_number_safe: "safe_text p \<Longrightarrow> \<exists>c q. parse_number ar p = Some (c, q) \<and> safe_text q"
proof -
  assume "safe_text p"
  from skip_byte_safe [OF this, of "0x2D"] obtain m q where 1: "skip_byte 0x2D p = Some (m, q)" "safe_text q" by auto
  from skip_byte_safe [OF 1(2), of "0x30"] obtain z r where 2: "skip_byte 0x30 q = Some (z, r)" "safe_text r" by auto
  then obtain b bs where b: "r = b # bs" using safe_text_Cons by blast
  obtain n t where 3: "(if is_digit b \<and> b \<noteq> 0x30 then int_digits ar (d_of_int ar 0) r else Some (d_of_int ar 0, r)) = Some (n, t)"
    "safe_text t" using 2(2) int_digits_safe [OF 2(2), of ar "d_of_int ar 0"] by (cases "is_digit b \<and> b \<noteq> 0x30") auto
  obtain n' s u where 4: "parse_fraction ar n t = Some (n', s, u)" "safe_text u" using parse_fraction_safe [OF 3(2)] by metis
  obtain e v where 5: "parse_exponent u = Some (e, v)" "safe_text v" using parse_exponent_safe [OF 4(2)] by metis
  have "peek r 0 = Some b" using b by simp
  then show ?thesis using 5(2) by (simp only: parse_number_def Let_def 1(1) 2(1) 3(1) 4(1) 5(1) bind.bind_lunit prod.case) simp
qed

subsection \<open>Strings stay inside the buffer that is allocated for them\<close>

lemma length_utf8_write: "length (utf8_write len n uc acc) = n + length acc"
  by (induction len n uc acc rule: utf8_write.induct) simp_all

lemma length_utf8_bytes: "length (utf8_bytes uc) \<le> 4"
  by (simp add: utf8_bytes_def length_utf8_write)

lemma hex_digit_plain: "hex_digit b \<noteq> None \<Longrightarrow> b \<noteq> 0 \<and> b \<noteq> 0x5C \<and> b \<noteq> 0x22"
  by (auto simp: hex_digit_def is_digit_def)

lemma hex4_Cons: "hex4 p \<Longrightarrow> \<exists>a b c d r. p = a # b # c # d # r \<and> hex_digit a \<noteq> None \<and> hex_digit b \<noteq> None \<and>
    hex_digit c \<noteq> None \<and> hex_digit d \<noteq> None"
  by (cases p rule: list.exhaust; cases "tl p"; cases "tl (tl p)"; cases "tl (tl (tl p))")
     (auto simp: hex4_def)

lemma hex4_cases:
  assumes "hex4 p"
  obtains a b c d r h where "p = a # b # c # d # r"
    "\<forall>x \<in> {a, b, c, d}. x \<noteq> 0 \<and> x \<noteq> 0x5C \<and> x \<noteq> 0x22" "parse_hex4 p = Some h"
proof -
  obtain a b c d r where p: "p = a # b # c # d # r" "hex_digit a \<noteq> None" "hex_digit b \<noteq> None"
    "hex_digit c \<noteq> None" "hex_digit d \<noteq> None" using hex4_Cons [OF assms] by blast
  then obtain h where "parse_hex4 p = Some h"
    by (auto simp: parse_hex4_def numeral_eq_Suc)
  with p(2-) hex_digit_plain show thesis by (intro that [OF p(1)]) auto
qed

lemma string_length_plain:
  "b \<noteq> 0 \<Longrightarrow> b \<noteq> 0x5C \<Longrightarrow> b \<noteq> 0x22 \<Longrightarrow> string_length (b # bs) = map_option Suc (string_length bs)"
  by simp

text \<open>
  What \<open>escape\<close> does behind a backslash of a safe text: it writes no more bytes than the first loop has
  counted for what it consumes.
\<close>

lemma escape_safe:
  assumes esc: "escapes_ok (0x5C # p)" and len: "string_length (0x5C # p) = Some n"
  shows "\<exists>e k m. escape p = Some (e, k) \<and> escapes_ok (drop (k + 1) p) \<and>
    string_length (drop (k + 1) p) = Some m \<and> length e + m \<le> n"
proof -
  obtain c cs where p: "p = c # cs" using esc by (cases p) auto
  show ?thesis
  proof (cases "c = 0x75")
    case False
    then have "escapes_ok cs" "\<exists>m. string_length cs = Some m \<and> n = Suc m"
      using esc len p by (auto split: if_splits)
    with False show ?thesis by (auto simp: p escape_def)
  next
    case True
    then have hex: "hex4 cs" and esc': "escapes_ok (drop 4 cs)" using esc p by simp_all
    obtain x0 x1 x2 x3 r u where cs: "cs = x0 # x1 # x2 # x3 # r" and
      plain: "\<forall>x \<in> {x0, x1, x2, x3}. x \<noteq> 0 \<and> x \<noteq> 0x5C \<and> x \<noteq> 0x22" and u: "parse_hex4 cs = Some u"
      using hex4_cases [OF hex] by metis
    have r: "escapes_ok r" using esc' cs by simp
    obtain m where m: "string_length r = Some m" "n = m + 5"
      using len plain by (auto simp: p cs)
    obtain b bs where b: "r = b # bs" using r by (cases r) auto
    have d: "drop 1 p = cs" "drop 5 p = r" "peek p 5 = Some b" "peek p 0 = Some c"
      using p cs b by (simp_all add: peek_def)
    show ?thesis
    proof (cases "0xD800 \<le> u \<and> u \<le> 0xDBFF \<and> b = 0x5C \<and> (\<exists>r2. bs = 0x75 # r2)")
      case True
      then obtain r2 where r2: "bs = 0x75 # r2" by blast
      with True r b have hex2: "hex4 r2" "escapes_ok (drop 4 r2)" by simp_all
      obtain y0 y1 y2 y3 t u2 where t: "r2 = y0 # y1 # y2 # y3 # t" and
        plain2: "\<forall>x \<in> {y0, y1, y2, y3}. x \<noteq> 0 \<and> x \<noteq> 0x5C \<and> x \<noteq> 0x22" and u2: "parse_hex4 r2 = Some u2"
        using hex4_cases [OF hex2(1)] by metis
      obtain m2 where m2: "string_length t = Some m2" "m = m2 + 5"
        using m plain2 True by (auto simp: b r2 t)
      have d2: "drop 7 p = r2" "drop 11 p = t" "peek p 6 = Some 0x75"
        using p cs b r2 t by (simp_all add: peek_def)
      have "u \<noteq> 0" "\<not> 0xDC00 \<le> u" using True order_trans [of "0xDC00" u "0xDBFF"] by auto
      then show ?thesis
        using True u u2 hex2(2) m m2 d d2 \<open>c = 0x75\<close> length_utf8_bytes
        by (auto simp: escape_def unicode_escape_def t intro: le_trans [OF length_utf8_bytes])
    next
      case False
      have "\<exists>c2. b = 0x5C \<longrightarrow> peek p 6 = Some c2 \<and> bs = c2 # tl bs" using r b p cs
        by (cases bs) (auto simp: peek_def)
      then obtain c2 where c2: "b = 0x5C \<Longrightarrow> peek p 6 = Some c2 \<and> bs = c2 # tl bs" by blast
      have "c2 \<noteq> 0x75" if "0xD800 \<le> u" "u \<le> 0xDBFF" "b = 0x5C" using False c2 that by metis
      then show ?thesis
        using u r m d c2 \<open>c = 0x75\<close>
        by (auto simp: escape_def unicode_escape_def intro: le_trans [OF length_utf8_bytes])
    qed
  qed
qed

lemma unescape_safe:
  "escapes_ok p \<Longrightarrow> string_length p = Some n \<Longrightarrow> length out + n + 1 \<le> cap \<Longrightarrow>
   \<exists>out' k b bs. unescape cap out p = Some (out', drop k p) \<and> drop k p = b # bs \<and> escapes_ok (drop k p) \<and>
     (b = 0 \<or> b = 0x22)"
proof (induction cap out p arbitrary: n rule: unescape.induct)
  case (2 cap out b bs)
  consider (stop) "b = 0x22 \<or> b = 0" | (plain) "b \<noteq> 0x22" "b \<noteq> 0" "b \<noteq> 0x5C" | (esc) "b = 0x5C" by blast
  then show ?case
  proof cases
    case stop
    then have "unescape cap out (b # bs) = Some (out @ [0], drop 0 (b # bs))" using 2(5) by (auto simp: put_def)
    with stop 2(3) show ?thesis by (metis drop0)
  next
    case plain
    then obtain m where m: "string_length bs = Some m" "n = Suc m" using 2(4) by auto
    have pt: "put cap out [b] = Some (out @ [b])" using 2(5) by (simp add: put_def)
    have "length (out @ [b]) + m + 1 \<le> cap" "escapes_ok bs" using 2(3,5) m plain by simp_all
    from 2(1) [OF _ _ pt this(2) m(1) this(1)] plain obtain out' k c cs where
      *: "unescape cap (out @ [b]) bs = Some (out', drop k bs)" "drop k bs = c # cs" "escapes_ok (drop k bs)" "c = 0 \<or> c = 0x22"
      by blast
    have "unescape cap out (b # bs) = Some (out', drop (Suc k) (b # bs))" using * plain pt by simp
    with *(2-4) show ?thesis by (metis drop_Suc_Cons)
  next
    case esc
    from escape_safe [of bs n] 2(3,4) esc obtain e k m where e: "escape bs = Some (e, k)"
      "escapes_ok (drop (k + 1) bs)" "string_length (drop (k + 1) bs) = Some m" "length e + m \<le> n" by auto
    have pt: "put cap out e = Some (out @ e)" and le: "length (out @ e) + m + 1 \<le> cap"
      using e(4) 2(5) by (simp_all add: put_def)
    have "\<not> (b = 0x22 \<or> b = 0)" "\<not> b \<noteq> 0x5C" using esc by simp_all
    from 2(2) [OF this e(1) refl pt e(2,3) le] obtain out' j c cs where
      *: "unescape cap (out @ e) (drop (k + 1) bs) = Some (out', drop j (drop (k + 1) bs))"
      "drop j (drop (k + 1) bs) = c # cs" "escapes_ok (drop j (drop (k + 1) bs))" "c = 0 \<or> c = 0x22" by blast
    have d: "drop j (drop (k + 1) bs) = drop (Suc (j + (k + 1))) (b # bs)" by simp
    have "unescape cap out (b # bs) = Some (out', drop j (drop (k + 1) bs))" using *(1) e(1) esc pt by simp
    with *(2-4) show ?thesis unfolding d by blast
  qed
qed simp

lemma string_length_safe: "escapes_ok p \<Longrightarrow> \<exists>n. string_length p = Some n"
proof (induction p rule: escapes_ok.induct)
  case (2 b bs)
  show ?case
  proof (cases "b = 0x5C \<and> (\<exists>c cs. bs = c # cs)")
    case True
    then obtain c cs where bs: "bs = c # cs" by blast
    show ?thesis
    proof (cases "c = 0x75")
      case u: True
      then have "hex4 cs" "\<exists>n. string_length (drop 4 cs) = Some n" using 2 True bs by auto
      then show ?thesis using True bs by (elim hex4_cases) auto
    qed (use 2 True bs in auto)
  qed (use 2 in \<open>auto split: list.splits\<close>)
qed simp

lemma parse_string_safe:
  assumes safe: "safe_text p"
  shows "\<exists>r. parse_string p = Some r \<and> (\<forall>v q. r = Inr (v, q) \<longrightarrow> safe_text q)"
proof -
  obtain b bs where p: "p = b # bs" using safe_text_Cons [OF safe] by blast
  show ?thesis
  proof (cases "b = 0x22")
    case True
    then have bs: "safe_text bs" using safe p safe_text_tl by auto
    obtain n where n: "string_length bs = Some n" using string_length_safe bs by (auto simp: safe_text_def)
    have esc: "escapes_ok bs" using bs by (simp add: safe_text_def)
    have "length ([] :: u8 list) + n + 1 \<le> n + 1" by simp
    from unescape_safe [OF esc n this] obtain out' c cs k where
      *: "unescape (n + 1) [] bs = Some (out', drop k bs)" "drop k bs = c # cs"
      "escapes_ok (drop k bs)" "c = 0 \<or> c = 0x22" by blast
    have q: "safe_text (c # cs)" using *(2,3) digits_ok_drop [of bs k] bs by (simp add: safe_text_def)
    then have "safe_text cs" if "c = 0x22" using that safe_text_tl [of c cs] by simp
    moreover have "parse_string p = Some (Inr (padded (n + 1) out', if c = 0x22 then cs else c # cs))"
      using True p n *(1) by (simp add: parse_string_def *(2))
    ultimately show ?thesis using q by auto
  qed (use p in \<open>simp add: parse_string_def\<close>)
qed

subsection \<open>Values\<close>

lemma parse_simple_safe:
  assumes safe: "safe_text p"
  shows "\<exists>r. parse_simple ar p = Some r \<and> (\<forall>c q. r = Inr (c, q) \<longrightarrow> safe_text q)"
proof -
  have lit: "\<exists>f. starts_with p cs = Some f \<and> (f \<longrightarrow> safe_text (drop k p))"
    if "0 \<notin> set cs" "0x5C \<notin> set cs" "length cs = k" for cs k
    using starts_with_safe [OF safe that(1,2)] that(3) by simp
  obtain f1 where 1: "starts_with p (ascii ''null'') = Some f1" "f1 \<longrightarrow> safe_text (drop 4 p)"
    using lit [of "ascii ''null''" 4] by (auto simp: ascii_def)
  obtain f2 where 2: "starts_with p (ascii ''false'') = Some f2" "f2 \<longrightarrow> safe_text (drop 5 p)"
    using lit [of "ascii ''false''" 5] by (auto simp: ascii_def)
  obtain f3 where 3: "starts_with p (ascii ''true'') = Some f3" "f3 \<longrightarrow> safe_text (drop 4 p)"
    using lit [of "ascii ''true''" 4] by (auto simp: ascii_def)
  obtain b bs where p: "p = b # bs" using safe_text_Cons [OF safe] by blast
  have pk: "peek p 0 = Some b" using p by simp
  obtain s where s: "parse_string p = Some s" "\<forall>v q. s = Inr (v, q) \<longrightarrow> safe_text q"
    using parse_string_safe [OF safe] by blast
  obtain c q where n: "parse_number ar p = Some (c, q)" "safe_text q" using parse_number_safe [OF safe] by metis
  show ?thesis
    unfolding parse_simple_def 1(1) 2(1) 3(1) pk s(1) n(1) bind.bind_lunit
    using 1(2) 2(2) 3(2) s(2) n(2) by (auto split: sum.splits)
qed

lemma parse_value_safe:
  fixes ar :: "'d arith"
  shows "safe_text p \<Longrightarrow> \<exists>r. parse_value ar p = Some r \<and> (\<forall>c q. r = Inr (c, q) \<longrightarrow> safe_text q)"
    and "safe_text p \<Longrightarrow> \<exists>r. parse_items ar cs p = Some r \<and> (\<forall>c q. r = Inr (c, q) \<longrightarrow> safe_text q)"
    and "safe_text p \<Longrightarrow> \<exists>r. parse_members ar cs p = Some r \<and> (\<forall>c q. r = Inr (c, q) \<longrightarrow> safe_text q)"
proof (induction ar p and ar cs p and ar cs p rule: parse_value_parse_items_parse_members.induct)
  case (1 ar p)
  obtain b bs where p: "p = b # bs" using safe_text_Cons [OF 1(3)] by blast
  show ?case
  proof (cases "b = 0x5B \<or> b = 0x7B")
    case True
    then have "safe_text bs" using 1(3) p safe_text_tl by auto
    then obtain q where q: "skip bs = Some q" "safe_text q" using skip_safe by blast
    then obtain c cs where c: "q = c # cs" using safe_text_Cons by blast
    then have "safe_text cs" if "c = 0x5D \<or> c = 0x7D" using that q(2) safe_text_tl by auto
    with True p q c 1(1) [of b q c] 1(2) [of b q c] show ?thesis unfolding parse_value.simps [of ar p] by auto
  next
    case False
    with p parse_simple_safe [OF 1(3), of ar] show ?thesis unfolding parse_value.simps [of ar p] by simp
  qed
next
  case (2 ar cs p)
  obtain q where q: "skip p = Some q" "safe_text q" using skip_safe [OF 2(3)] by blast
  obtain r where r: "parse_value ar q = Some r" "\<forall>c q. r = Inr (c, q) \<longrightarrow> safe_text q"
    using 2(1) [OF q] by blast
  show ?case
  proof (cases r)
    case (Inr ct)
    then obtain c t where ct: "r = Inr (c, t)" "safe_text t" using r(2) by (cases ct) auto
    then obtain u where u: "skip t = Some u" "safe_text u" using skip_safe by blast
    then obtain d ds where d: "u = d # ds" using safe_text_Cons by blast
    then have "safe_text ds" if "d = 0x2C \<or> d = 0x5D" using that u(2) safe_text_tl by auto
    with 2(2) [OF q(1) r(1) ct(1) refl u(1), of d] d q r(1) ct u show ?thesis unfolding parse_items.simps [of ar cs p] by auto
  qed (use q r in \<open>simp add: parse_items.simps [of ar cs p]\<close>)
next
  case (3 ar cs p)
  obtain q where q: "skip p = Some q" "safe_text q" using skip_safe [OF 3(3)] by blast
  obtain s where s: "parse_string q = Some s" "\<forall>v q. s = Inr (v, q) \<longrightarrow> safe_text q"
    using parse_string_safe [OF q(2)] by blast
  show ?case
  proof (cases s)
    case (Inr vt)
    then obtain v t where vt: "s = Inr (v, t)" "safe_text t" using s(2) by (cases vt) auto
    then obtain u where u: "skip t = Some u" "safe_text u" using skip_safe by blast
    then obtain d ds where d: "u = d # ds" using safe_text_Cons by blast
    show ?thesis
    proof (cases "d = 0x3A")
      case True
      then have "safe_text ds" using d u(2) safe_text_tl by auto
      then obtain w where w: "skip ds = Some w" "safe_text w" using skip_safe by blast
      obtain r where r: "parse_value ar w = Some r" "\<forall>c q. r = Inr (c, q) \<longrightarrow> safe_text q"
        using 3(1) [OF q(1) s(1) vt(1) refl u(1) _ _ _ w(2), of d] d True w(1) by auto
      show ?thesis
      proof (cases r)
        case (Inr cx)
        then obtain c x where cx: "r = Inr (c, x)" "safe_text x" using r(2) by (cases cx) auto
        then obtain y where y: "skip x = Some y" "safe_text y" using skip_safe by blast
        then obtain e es where e: "y = e # es" using safe_text_Cons by blast
        then have "safe_text es" if "e = 0x2C \<or> e = 0x7D" using that y(2) safe_text_tl by auto
        with 3(2) [OF q(1) s(1) vt(1) refl u(1) _ _ _ r(1) cx(1) refl y(1), of d e] True d e q s(1) vt u w(1) r(1) cx y
        show ?thesis unfolding parse_members.simps [of ar cs p] by auto
      qed (use q s vt u d True w r in \<open>simp add: parse_members.simps [of ar cs p]\<close>)
    qed (use q s vt u d in \<open>simp add: parse_members.simps [of ar cs p]\<close>)
  qed (use q s in \<open>simp add: parse_members.simps [of ar cs p]\<close>)
qed

lemma cJSON_Parse_safe:
  assumes "safe_text p"
  shows "\<exists>r. cJSON_Parse ar p = Some r"
proof -
  obtain q where "skip p = Some q" "safe_text q" using skip_safe [OF assms] by blast
  with parse_value_safe(1) [of q ar] show ?thesis
    by (force simp: cJSON_Parse_def cJSON_ParseWithOpts_def split: sum.splits)
qed

subsection \<open>A printed string parses to itself\<close>

lemma hex_digit_char:
  assumes "d < 16"
  shows "hex_digit (hex_char d) = Some (of_nat d)"
proof -
  from assms have "d = 0 \<or> d = 1 \<or> d = 2 \<or> d = 3 \<or> d = 4 \<or> d = 5 \<or> d = 6 \<or> d = 7 \<or>
    d = 8 \<or> d = 9 \<or> d = 10 \<or> d = 11 \<or> d = 12 \<or> d = 13 \<or> d = 14 \<or> d = 15" by arith
  then show ?thesis by (elim disjE) (simp_all add: hex_char_def hex_digit_def is_digit_def)
qed

lemma parse_hex4_byte:
  assumes "n < 256"
  shows "parse_hex4 (0x30 # 0x30 # hex_char (n div 16) # hex_char (n mod 16) # p) = Some (of_nat n)"
proof -
  have z: "hex_digit 0x30 = Some 0" by (simp add: hex_digit_def is_digit_def)
  have d: "hex_digit (hex_char (n div 16)) = Some (of_nat (n div 16))"
    "hex_digit (hex_char (n mod 16)) = Some (of_nat (n mod 16))"
    using assms by (auto intro!: hex_digit_char)
  have "push_bit 4 (of_nat (n div 16)) + of_nat (n mod 16) = (of_nat (n div 16) * of_nat 16 + of_nat (n mod 16) :: u32)"
    by (simp add: push_bit_eq_mult)
  also have "\<dots> = of_nat n" by (simp only: flip: of_nat_mult of_nat_add) (simp only: div_mult_mod_eq)
  finally have *: "push_bit 4 (of_nat (n div 16)) + of_nat (n mod 16) = (of_nat n :: u32)" .
  have four: "(4::nat) = Suc (Suc (Suc (Suc 0)))" by simp
  show ?thesis using z d unfolding parse_hex4_def four hex_digits.simps by (simp add: push_bit_eq_mult mult.commute flip: *)
qed

lemma of_nat_u32_less: "n < m \<Longrightarrow> m < 2 ^ 32 \<Longrightarrow> (of_nat n :: u32) < of_nat m"
  by (simp add: word_less_nat_alt unat_of_nat take_bit_nat_eq_self_iff)

lemma utf8_bytes_ascii:
  assumes "n < 128"
  shows "utf8_bytes (of_nat n) = [of_nat n]"
proof -
  have "(of_nat n :: u32) < 0x80" using of_nat_u32_less [OF assms] by simp
  moreover have "ucast (of_nat n :: u32) = (of_nat n :: u8)" using assms by (simp add: unsigned_of_nat take_bit_nat_eq_self)
  ultimately show ?thesis by (simp add: utf8_bytes_def firstByteMark_def)
qed

lemma unescape_print_byte:
  assumes "b \<noteq> 0" and "length out < cap"
  shows "unescape cap out (print_byte b @ p) = unescape cap (out @ [b]) p"
proof -
  have pt: "put cap out [c] = Some (out @ [c])" for c using assms(2) by (simp add: put_def)
  consider (plain) "b > 31" "b \<noteq> 0x22" "b \<noteq> 0x5C" | (special) "is_special b" | (ctrl) "\<not> b > 31" "\<not> is_special b"
    by (auto simp: is_special_def)
  then show ?thesis
  proof cases
    case plain
    then show ?thesis using assms(1) pt by (simp add: print_byte_def)
  next
    case special
    then show ?thesis unfolding is_special_def
      by (elim insertE emptyE) (simp_all add: print_byte_def escape_def pt)
  next
    case ctrl
    then have n: "unat b < 32" "unat b \<noteq> 0" using assms by (simp_all add: word_less_nat_alt unat_eq_0)
    let ?u = "of_nat (unat b) :: u32"
    let ?q = "0x75 # 0x30 # 0x30 # hex_char (unat b div 16) # hex_char (unat b mod 16) # p"
    have pb: "print_byte b @ p = 0x5C # ?q" using ctrl by (auto simp: print_byte_def is_special_def)
    have hex: "parse_hex4 (drop 1 ?q) = Some ?u" using n parse_hex4_byte [of "unat b" p] by simp
    have utf: "utf8_bytes ?u = [b]" using n utf8_bytes_ascii [of "unat b"] by simp
    have small: "?u < 0x20" using of_nat_u32_less [OF n(1)] by simp
    have "0 < ?u" using n(2) of_nat_u32_less [of 0 "unat b"] n(1) by simp
    then have "?u \<noteq> 0" by simp
    moreover have "\<not> 0xDC00 \<le> ?u" "\<not> 0xD800 \<le> ?u" using small by (auto simp: not_le intro: less_trans)
    ultimately have "escape ?q = Some ([b], 4)"
      using hex utf by (simp add: escape_def unicode_escape_def)
    then show ?thesis unfolding pb by (simp add: pt)
  qed
qed

lemma hex_char_plain: "d < 16 \<Longrightarrow> hex_char d \<noteq> 0 \<and> hex_char d \<noteq> 0x5C \<and> hex_char d \<noteq> 0x22"
  using hex_digit_char [of d] by (auto simp: hex_digit_def is_digit_def)

lemma string_length_print_byte:
  assumes "b \<noteq> 0"
  shows "\<exists>k\<ge>1. string_length (print_byte b @ p) = map_option ((+) k) (string_length p)"
proof -
  have "unat b < 2 ^ LENGTH(8)" by (rule unsigned_less)
  then have lt: "unat b < 256" by simp
  have h: "unat b div 16 < 16" "unat b mod 16 < 16"
    using lt by (simp_all add: less_mult_imp_div_less)
  have five: "map_option (\<lambda>x. Suc (Suc (Suc (Suc (Suc x))))) y = map_option ((+) 5) y" for y
    by (cases y) simp_all
  have one: "map_option Suc x = map_option ((+) 1) x" for x by (cases x) simp_all
  show ?thesis
  proof (cases "b > 31 \<and> b \<noteq> 0x22 \<and> b \<noteq> 0x5C \<or> is_special b")
    case True
    then have "string_length (print_byte b @ p) = map_option ((+) 1) (string_length p)"
      using assms unfolding is_special_def by (elim disjE conjE insertE emptyE) (simp_all add: print_byte_def one)
    then show ?thesis by blast
  next
    case False
    then have "string_length (print_byte b @ p) = map_option ((+) 5) (string_length p)"
      using assms hex_char_plain [OF h(1)] hex_char_plain [OF h(2)]
      by (auto simp: print_byte_def is_special_def option.map_comp comp_def five)
    then show ?thesis by (intro exI [of _ 5]) simp
  qed
qed

definition print_all :: "u8 list \<Rightarrow> u8 list" where
  "print_all s = concat (map print_byte s)"

lemma print_all_simps [simp]: "print_all [] = []" "print_all (b # s) = print_byte b @ print_all s"
  by (simp_all add: print_all_def)

lemma print_bytes_eq: "0 \<notin> set s \<Longrightarrow> print_bytes (s @ 0 # r) = Some (print_all s)"
  by (induction s) auto

lemma print_length_eq: "0 \<notin> set s \<Longrightarrow> print_length (s @ 0 # r) = Some (length (print_all s))"
proof (induction s)
  case (Cons b s)
  have "length (print_byte b) = 1 + (if is_special b then 1 else if b < 32 then 5 else 0)" if "b \<noteq> 0"
  proof (cases "is_special b")
    case True
    then show ?thesis unfolding is_special_def by (elim insertE emptyE) (simp_all add: print_byte_def is_special_def)
  next
    case False
    have "b > 31 \<longleftrightarrow> \<not> b < 32" by (simp add: word_less_nat_alt; linarith)
    with False show ?thesis by (auto simp: print_byte_def is_special_def)
  qed
  with Cons show ?case by simp
qed simp

lemma print_string_eq:
  assumes "0 \<notin> set s"
  shows "print_string_ptr (Some (s @ 0 # r)) = Some ([0x22] @ print_all s @ [0x22, 0])"
  using assms by (simp add: print_string_ptr_def print_length_eq print_bytes_eq put_def)

lemma unescape_print_all:
  "0 \<notin> set s \<Longrightarrow> length out + length s + 1 \<le> cap \<Longrightarrow>
   unescape cap out (print_all s @ 0x22 # p) = Some (out @ s @ [0], 0x22 # p)"
proof (induction s arbitrary: out)
  case (Cons b s)
  then show ?case by (simp add: unescape_print_byte)
qed (simp add: put_def)

lemma string_length_print_all:
  "0 \<notin> set s \<Longrightarrow> \<exists>n\<ge>length s. string_length (print_all s @ 0x22 # p) = Some n"
proof (induction s)
  case (Cons b s)
  then obtain n where "n \<ge> length s" "string_length (print_all s @ 0x22 # p) = Some n" by auto
  moreover obtain k where "k \<ge> 1"
    "string_length (print_byte b @ print_all s @ 0x22 # p) = map_option ((+) k) (string_length (print_all s @ 0x22 # p))"
    using string_length_print_byte [of b] Cons.prems by auto
  ultimately show ?case by (intro exI [of _ "k + n"]) simp
qed simp

lemma parse_print_string:
  assumes "0 \<notin> set s" and "p \<noteq> []"
  shows "\<exists>v. parse_string (0x22 # print_all s @ 0x22 # p) = Some (Inr (v, p)) \<and> cstr v = s \<and> length s < length v"
proof -
  obtain n where n: "n \<ge> length s" "string_length (print_all s @ 0x22 # p) = Some n"
    using string_length_print_all [OF assms(1)] by blast
  have "unescape (n + 1) [] (print_all s @ 0x22 # p) = Some (s @ [0], 0x22 # p)"
    using unescape_print_all [OF assms(1), of "[]" "n + 1" p] n(1) by simp
  then have "parse_string (0x22 # print_all s @ 0x22 # p) = Some (Inr (padded (n + 1) (s @ [0]), p))"
    using n(2) by (simp add: parse_string_def)
  moreover have "cstr (padded (n + 1) (s @ [0])) = s"
    using assms(1) by (simp add: cstr_def padded_def takeWhile_append takeWhile_eq_all_conv)
  ultimately show ?thesis using n(1) by (auto simp: padded_def)
qed

subsection \<open>Arithmetic for examples\<close>

text \<open>The integers in the part of \<open>double\<close>.\<close>

definition int_arith :: "int arith" where
  "int_arith = \<lparr>d_of_int = (\<lambda>i. i), d_to_int = (\<lambda>d. d), d_add = (+), d_mul = (*), d_pow = (\<lambda>a b. a ^ nat b)\<rparr>"

end
