(* ===== verification/Agent_Facts.thy ===== *)
theory Agent_Facts
  imports Agent Mqtt_World Eloop_Run Cjson_Facts
begin

text \<open>
  What the parts of the agent do to the event loop and to each other: frames of the timers and
  messages, and of synchronising a connection.
\<close>

subsection \<open>Timers of the agent\<close>

text \<open>
  The allocators give out fresh addresses and the clock is one; the rest of the environment is free.
\<close>

definition agent_laws :: "('e, 'd) agent_env \<Rightarrow> bool" where
  "agent_laws X \<longleftrightarrow> alloc_laws (register_env X) \<and> clock_laws (register_env X) \<and>
     (\<forall>h e. fst (x_calloc_publish X h e) = 0 \<or> h (fst (x_calloc_publish X h e)) = None) \<and>
     (\<forall>bios ctx addr port e. fst (x_new_bio X bios ctx addr port e) = 0 \<or>
        fst (x_new_bio X bios ctx addr port e) \<notin> bios)"

text \<open>States of the process that differ in the outside world only.\<close>

definition same_sys :: "'e sys \<Rightarrow> 'e sys \<Rightarrow> bool" where
  "same_sys s s' \<longleftrightarrow> s' = s\<lparr>sy_ext := sy_ext s'\<rparr>"

lemma same_sys_fields: "same_sys s s' \<Longrightarrow> sy_agent s' = sy_agent s \<and> sy_pubs s' = sy_pubs s \<and>
    sy_bios s' = sy_bios s \<and> sy_ctrl_sock s' = sy_ctrl_sock s"
  by (cases s, cases s') (simp add: same_sys_def)

lemma same_sys_refl [simp]: "same_sys s s"
  by (simp add: same_sys_def)

lemma same_sys_trans: "same_sys a b \<Longrightarrow> same_sys b c \<Longrightarrow> same_sys a c"
  by (cases a, cases b, cases c) (simp add: same_sys_def)

lemma same_sys_ext: "ext f s = (r, s') \<Longrightarrow> same_sys s s'"
  by (auto simp: ext_def same_sys_def split: prod.splits)

lemma register_env_simps [simp]:
  "malloc_timeout (register_env X) h = ext (x_malloc_timeout X h)"
  "clock_gettime (register_env X) = ext (x_clock X)"
  "alloc_ok (register_env X) = ext (x_alloc_ok X)"
  by (simp_all add: register_env_def)

lemma register_world:
  assumes "eloop_register_timeout env secs usecs h d u el w = Some (rv, el', w')"
  shows "w' = snd (malloc_timeout env (el_heap el) w) \<or>
    w' = snd (xgettimeofday env (snd (malloc_timeout env (el_heap el) w)))"
  using assms by (auto simp: eloop_register_timeout_def Let_def split: prod.splits if_splits bind_splits)

lemma same_sys_clock: "same_sys s (snd (xgettimeofday (register_env X) s))"
  by (auto simp: xgettimeofday_def split: prod.splits dest: same_sys_ext)

text \<open>What a registration does to the timers: it may fail, or puts the new timer in its place.\<close>

definition armed :: "nat \<Rightarrow> nat \<Rightarrow> eloop_data \<Rightarrow> eloop_data \<Rightarrow> bool" where
  "armed h d el el' \<longleftrightarrow> (\<exists>t. timer_call t = (h, d, 0) \<and> timers el' = insert_timer t (timers el))"

lemma set_timeout_law:
  assumes laws: "agent_laws X" and ok: "eloop_ok el"
  shows "\<exists>el' s'. set_timeout X secs usecs h d (el, s) = Some (el', s') \<and> eloop_ok el' \<and>
    list_frame el el' \<and> keeps_others el el' \<and> same_sys s s' \<and>
    (if fst (x_malloc_timeout X (el_heap el) (sy_ext s)) = 0 then el' = el else armed h d el el')"
proof -
  let ?E = "register_env X"
  have l: "alloc_laws ?E" "clock_laws ?E" and t: "timers_ok el"
    using laws ok by (simp_all add: agent_laws_def eloop_ok_def)
  obtain rv el' s' where reg: "eloop_register_timeout ?E secs usecs h d 0 el s = Some (rv, el', s')"
    and fr: "keeps_others el el'" "list_frame el el'"
    and out: "if fst (malloc_timeout ?E (el_heap el) s) = 0 then rv = - 1 \<and> el' = el
      else rv = 0 \<and> timers el' = insert_timer (new_timer ?E secs usecs h d 0 (el_heap el) s) (timers el)"
    using register_timeout_law [OF t l(1), of secs usecs h d 0 s] by blast
  have ok': "eloop_ok el'" using register_timeout_ok [OF ok l reg] by simp
  have m: "fst (malloc_timeout ?E (el_heap el) s) = fst (x_malloc_timeout X (el_heap el) (sy_ext s))"
    by (simp add: ext_def split: prod.split)
  have mal: "same_sys s (snd (malloc_timeout ?E (el_heap el) s))"
    using same_sys_ext [of "x_malloc_timeout X (el_heap el)" s] by (metis prod.collapse register_env_simps(1))
  have "same_sys s s'" using register_world [OF reg] mal same_sys_clock same_sys_trans by metis
  moreover have "timer_call (new_timer ?E secs usecs h d 0 (el_heap el) s) = (h, d, 0)"
    by (simp add: timer_call_def new_timer_def)
  ultimately show ?thesis using reg fr out m ok' by (auto simp: set_timeout_def armed_def)
qed

lemma set_insert_timer: "set (insert_timer t ts) = insert t (set ts)"
proof -
  have "set (takeWhile P ts) \<union> set (dropWhile P ts) = set ts" for P :: "eloop_timeout \<Rightarrow> bool"
    by (metis set_append takeWhile_dropWhile_id)
  then show ?thesis unfolding insert_timer_def by auto
qed

subsection \<open>What a message may do\<close>

text \<open>
  The event loop stays good and only gains timers that publish, what was to be published stays, and
  of the agent only the status changes.
\<close>

definition only_publishes :: "eloop_data \<Rightarrow> eloop_data \<Rightarrow> bool" where
  "only_publishes el el' \<longleftrightarrow> eloop_ok el \<longrightarrow> eloop_ok el' \<and> list_frame el el' \<and> keeps_others el el' \<and>
     set (timers el) \<subseteq> set (timers el') \<and> (\<forall>t \<in> set (timers el') - set (timers el). to_handler t = H_publish)"

definition msg_frame :: "'e world \<Rightarrow> 'e world \<Rightarrow> bool" where
  "msg_frame w w' \<longleftrightarrow> only_publishes (fst w) (fst w') \<and>
     sy_bios (snd w') = sy_bios (snd w) \<and> sy_ctrl_sock (snd w') = sy_ctrl_sock (snd w) \<and>
     (\<exists>st. sy_agent (snd w') = (sy_agent (snd w))\<lparr>ag_agstatus := st\<rparr>) \<and>
     (\<forall>p pub. sy_pubs (snd w) p = Some pub \<longrightarrow> sy_pubs (snd w') p = Some pub)"

lemma list_frame_refl [simp]: "list_frame el el"
  by (simp add: list_frame_def)

lemma agent_status_refl [simp]: "\<exists>st. ag = ag\<lparr>ag_agstatus := st\<rparr>"
  by (rule exI [of _ "ag_agstatus ag"]) simp

lemma only_publishes_refl [simp]: "only_publishes el el"
  by (simp add: only_publishes_def)

lemma only_publishes_trans: "only_publishes a b \<Longrightarrow> only_publishes b c \<Longrightarrow> only_publishes a c"
  unfolding only_publishes_def by (intro impI conjI; fastforce intro: list_frame_trans keeps_others_trans)

lemma msg_frame_refl [simp]: "msg_frame w w"
  by (simp add: msg_frame_def)

lemma msg_frame_trans: "msg_frame a b \<Longrightarrow> msg_frame b c \<Longrightarrow> msg_frame a c"
  unfolding msg_frame_def by (auto intro: only_publishes_trans)

lemma set_timeout_sys:
  assumes "set_timeout X secs usecs h d (el, s) = Some (el', s')"
  shows "same_sys s s'"
proof -
  let ?E = "register_env X"
  obtain rv where reg: "eloop_register_timeout ?E secs usecs h d 0 el s = Some (rv, el', s')"
    using assms by (auto simp: set_timeout_def split: bind_splits)
  have mal: "same_sys s (snd (malloc_timeout ?E (el_heap el) s))"
    using same_sys_ext [of "x_malloc_timeout X (el_heap el)" s] by (metis prod.collapse register_env_simps(1))
  then show ?thesis using register_world [OF reg] same_sys_clock same_sys_trans by metis
qed

text \<open>A registration on a good event loop, as a frame of the timers.\<close>

lemma set_timeout_timers:
  assumes "agent_laws X" and "eloop_ok el" and "set_timeout X secs usecs h d (el, s) = Some (el', s')"
  shows "eloop_ok el' \<and> list_frame el el' \<and> keeps_others el el' \<and> set (timers el) \<subseteq> set (timers el') \<and>
    (\<forall>t \<in> set (timers el') - set (timers el). timer_call t = (h, d, 0))"
  using set_timeout_law [OF assms(1,2), of secs usecs h d s] assms(3)
  by (auto simp: armed_def set_insert_timer split: if_splits)

text \<open>A publish for the next turn.\<close>

definition pub_of :: "conn_id \<Rightarrow> cstring \<Rightarrow> cstring \<Rightarrow> u8 \<Rightarrow> set_publish" where
  "pub_of c topic msg flags = \<lparr>sp_conn = c, sp_topic_name = topic, sp_application_message = msg @ [0],
     sp_application_message_size = length msg + 1, sp_publish_flags = flags\<rparr>"

lemma set_publish_unfold:
  "set_mqtt_publish_nexsync X c topic msg flags (el, s) = (case ext (x_calloc_publish X (sy_pubs s)) s of (p, s1) \<Rightarrow>
     if p = 0 \<or> length topic \<ge> 128 then None
     else set_timeout X 0 MQTT_SYN_T H_publish p (el, s1\<lparr>sy_pubs := (sy_pubs s1)(p \<mapsto> pub_of c topic msg flags)\<rparr>))"
  by (auto simp: set_mqtt_publish_nexsync_def pub_of_def sprintf_def Let_def split: prod.splits)

lemma calloc_fresh:
  assumes "agent_laws X" and "ext (x_calloc_publish X (sy_pubs s)) s = (p, s1)" and "p \<noteq> 0"
  shows "sy_pubs s p = None"
proof -
  have "p = fst (x_calloc_publish X (sy_pubs s) (sy_ext s))" using assms(2) by (auto simp: ext_def split: prod.splits)
  with assms(1,3) show ?thesis unfolding agent_laws_def by metis
qed

lemma set_publish_frame:
  assumes laws: "agent_laws X" and ret: "set_mqtt_publish_nexsync X c topic msg flags w = Some w'"
  shows "msg_frame w w' \<and> sy_agent (snd w') = sy_agent (snd w) \<and>
    (\<exists>p. sy_pubs (snd w) p = None \<and> sy_pubs (snd w') = (sy_pubs (snd w))(p \<mapsto> pub_of c topic msg flags))"
proof -
  obtain el s el' s' where w: "w = (el, s)" "w' = (el', s')" by (metis surj_pair)
  obtain p s1 where al: "ext (x_calloc_publish X (sy_pubs s)) s = (p, s1)" by fastforce
  let ?s = "s1\<lparr>sy_pubs := (sy_pubs s1)(p \<mapsto> pub_of c topic msg flags)\<rparr>"
  have p0: "p \<noteq> 0" and set: "set_timeout X 0 MQTT_SYN_T H_publish p (el, ?s) = Some (el', s')"
    using ret al by (auto simp: w set_publish_unfold split: if_splits)
  note p = calloc_fresh [OF laws al p0]
  note s1 = same_sys_fields [OF same_sys_ext [OF al]]
  have "sy_agent s' = sy_agent s \<and> sy_pubs s' = (sy_pubs s)(p \<mapsto> pub_of c topic msg flags) \<and>
      sy_bios s' = sy_bios s \<and> sy_ctrl_sock s' = sy_ctrl_sock s"
    using same_sys_fields [OF set_timeout_sys [OF set]] s1 by simp
  moreover have "only_publishes el el'"
    using set_timeout_timers [OF laws _ set] by (fastforce simp: timer_call_def only_publishes_def)
  ultimately show ?thesis using p by (auto simp: msg_frame_def w)
qed

text \<open>
  When there is always memory left (at any time there are finitely many objects), the publish is
  registered with a timer of its own.
\<close>

definition allocates :: "('e, 'd) agent_env \<Rightarrow> bool" where
  "allocates X \<longleftrightarrow> (\<forall>h e. finite (dom h) \<longrightarrow> fst (x_malloc_timeout X h e) \<noteq> 0) \<and>
     (\<forall>h e. finite (dom h) \<longrightarrow> fst (x_calloc_publish X h e) \<noteq> 0)"

definition finite_heaps :: "'e world \<Rightarrow> bool" where
  "finite_heaps w \<longleftrightarrow> finite (dom (el_heap (fst w))) \<and> finite (dom (sy_pubs (snd w)))"

lemma register_timeout_finite:
  "eloop_register_timeout env secs usecs h d u el w = Some (rv, el', w') \<Longrightarrow> finite (dom (el_heap el)) \<Longrightarrow>
   finite (dom (el_heap el'))"
  by (auto simp: eloop_register_timeout_def Let_def split: prod.splits if_splits bind_splits)

lemma set_timeout_finite:
  "set_timeout X secs usecs h d (el, s) = Some (el', s') \<Longrightarrow> finite (dom (el_heap el)) \<Longrightarrow> finite (dom (el_heap el'))"
  by (auto simp: set_timeout_def split: bind_splits dest: register_timeout_finite)

lemma set_publish_law:
  assumes laws: "agent_laws X" "allocates X" and ok: "eloop_ok el" and fin: "finite_heaps (el, s)"
    and topic: "length topic < 128"
  shows "\<exists>p el' s'. set_mqtt_publish_nexsync X c topic msg flags (el, s) = Some (el', s') \<and> eloop_ok el' \<and>
    armed H_publish p el el' \<and> sy_pubs s p = None \<and> sy_pubs s' = (sy_pubs s)(p \<mapsto> pub_of c topic msg flags) \<and>
    sy_agent s' = sy_agent s \<and> finite_heaps (el', s')"
proof -
  obtain p s1 where al: "ext (x_calloc_publish X (sy_pubs s)) s = (p, s1)" by fastforce
  have "p = fst (x_calloc_publish X (sy_pubs s) (sy_ext s))" using al by (auto simp: ext_def split: prod.splits)
  with laws(2) fin have p: "p \<noteq> 0" by (simp add: allocates_def finite_heaps_def)
  note fresh = calloc_fresh [OF laws(1) al p]
  let ?s = "s1\<lparr>sy_pubs := (sy_pubs s1)(p \<mapsto> pub_of c topic msg flags)\<rparr>"
  obtain el' s' where set: "set_timeout X 0 MQTT_SYN_T H_publish p (el, ?s) = Some (el', s')" "eloop_ok el'"
    "armed H_publish p el el'" "same_sys ?s s'"
    using set_timeout_law [OF laws(1) ok, of 0 MQTT_SYN_T H_publish p ?s] laws(2) fin by (auto simp: allocates_def finite_heaps_def)
  have "set_mqtt_publish_nexsync X c topic msg flags (el, s) = Some (el', s')"
    using al p topic set(1) by (simp add: set_publish_unfold)
  with set(2,3) fresh same_sys_fields [OF set(4)] same_sys_fields [OF same_sys_ext [OF al]]
    set_timeout_finite [OF set(1)] fin show ?thesis by (auto simp: finite_heaps_def)
qed

lemma run_rc_cases: "run_rc rc_hdl_tbl rcid ag =
  (if rcid = ascii ''1000'' \<or> rcid = ascii ''1000,2'' then (ag\<lparr>ag_agstatus := isReboot\<rparr>, rc_reboot)
   else if rcid = ascii ''2000'' \<or> rcid = ascii ''2000,2'' then (ag, rc_ok) else (ag, rc_failed))"
  by (auto simp: rc_hdl_tbl_def admlink_reboot_rc_def admlink_imhere_rc_def)

lemma run_rc_status: "\<exists>st. fst (run_rc rc_hdl_tbl rcid ag) = ag\<lparr>ag_agstatus := st\<rparr>"
  unfolding run_rc_cases using agent_status_refl [of ag] by auto

lemma process_rc_frame:
  assumes laws: "agent_laws X" and ret: "admlink_process_rc X v w = Some w'"
  shows "msg_frame w w'"
proof -
  obtain rcid report el1 s1 where 1: "v = Some rcid" "rc_report (cstr rcid) = Some report"
    "set_mqtt_publish_nexsync X MQRECV (mc_topicsend (ag_mqrecv (sy_agent (snd w)))) report MQTT_PUBLISH_QOS_1 w = Some (el1, s1)"
    using ret by (auto simp: admlink_process_rc_def split: bind_splits)
  obtain ag rc where rc: "run_rc rc_hdl_tbl (cstr rcid) (sy_agent s1) = (ag, rc)" by fastforce
  let ?w = "(el1, s1\<lparr>sy_agent := ag\<rparr>)"
  have f1: "msg_frame w (el1, s1)" using set_publish_frame [OF laws 1(3)] by simp
  obtain st where "ag = (sy_agent s1)\<lparr>ag_agstatus := st\<rparr>"
    using run_rc_status [of "cstr rcid" "sy_agent s1"] rc by auto
  then have f2: "msg_frame (el1, s1) ?w" by (auto simp: msg_frame_def)
  have "w' = ?w \<or> (\<exists>msg. set_mqtt_publish_nexsync X MQUPLD (mc_topicsend (ag_mqupld ag)) msg MQTT_PUBLISH_QOS_1 ?w = Some w')"
    using ret 1 rc by (auto simp: admlink_process_rc_def Let_def split: bind_splits if_splits)
  then show ?thesis using f1 f2 msg_frame_trans set_publish_frame [OF laws] by metis
qed

lemma msg_handle_frame:
  assumes "agent_laws X" and "admlink_msg_handle X buffer w = Some w'"
  shows "msg_frame w w'"
  using assms process_rc_frame [OF assms(1)]
  by (auto simp: admlink_msg_handle_def split: bind_splits option.splits)

lemma publish_callback_frame:
  assumes "agent_laws X" and "agent_publish_callback X mem p w = Some w'"
  shows "msg_frame w w'"
  using assms msg_handle_frame [OF assms(1)] by (auto simp: agent_publish_callback_def split: bind_splits)

subsection \<open>Synchronising a connection\<close>

definition sync_frame :: "('e, 'd) agent_env \<Rightarrow> 'e world option \<Rightarrow> 'e world option \<Rightarrow> bool" where
  "sync_frame X w w' \<longleftrightarrow> (\<forall>v'. w' = Some v' \<longrightarrow> (\<exists>v. w = Some v \<and> (agent_laws X \<longrightarrow> msg_frame v v')))"

lemma msg_frame_ext: "ext f s = (r, s') \<Longrightarrow> msg_frame (el, s) (el, s')"
  using same_sys_fields [OF same_sys_ext, of f s r s'] msg_frame_refl [of "(el, s)"]
  by (auto simp: msg_frame_def)

lemma lift_ext_frame: "sync_frame X w (snd (lift_ext d f w))"
  by (auto simp: sync_frame_def lift_ext_def split: option.splits prod.splits intro: msg_frame_ext)

lemma sync_frame_None [simp]: "sync_frame X w None"
  by (simp add: sync_frame_def)

lemma on_bio_frame:
  assumes "\<And>w. sync_frame X w (snd (f w))"
  shows "sync_frame X w (snd (on_bio fd d f w))"
proof -
  have "snd (on_bio fd d f w) = None \<or> snd (on_bio fd d f w) = snd (f w)"
    by (cases w) (auto simp: on_bio_def split: prod.splits)
  with assms [of w] show ?thesis by auto
qed

lemma sync_frame_trans:
  assumes ab: "sync_frame X a b" and bc: "sync_frame X b c"
  shows "sync_frame X a c"
  unfolding sync_frame_def
proof (intro impI allI)
  fix w assume "c = Some w"
  with bc obtain v where "b = Some v" "agent_laws X \<longrightarrow> msg_frame v w" unfolding sync_frame_def by blast
  moreover from ab this(1) obtain u where "a = Some u" "agent_laws X \<longrightarrow> msg_frame u v" unfolding sync_frame_def by blast
  ultimately show "\<exists>v. a = Some v \<and> (agent_laws X \<longrightarrow> msg_frame v w)" using msg_frame_trans by blast
qed

interpretation sw: world_frame "sync_env X" "sync_frame X" for X :: "('e, 'd) agent_env"
proof
  fix w a b c :: "'e world option" and fd n cb mem p and bs :: "u8 list"
  show "sync_frame X w w" by (auto simp: sync_frame_def)
  show "sync_frame X a b \<Longrightarrow> sync_frame X b c \<Longrightarrow> sync_frame X a c" by (rule sync_frame_trans)
  show "sync_frame X w (snd (pal_time (sync_env X) w))" by (simp add: sync_env_def lift_ext_frame)
  show "sync_frame X w (snd (bio_write (sync_env X) fd bs w))" "sync_frame X w (snd (bio_read (sync_env X) fd n w))"
    by (simp_all add: sync_env_def on_bio_frame lift_ext_frame)
  show "sync_frame X w (publish_callback (sync_env X) cb mem p w)"
    by (cases w) (auto simp: sync_env_def sync_frame_def intro: publish_callback_frame)
qed

lemma sync_conn_frame:
  assumes laws: "agent_laws X" and ret: "sync_conn X c w = Some (rv, w')"
  shows "\<exists>cl w1. msg_frame w w1 \<and> w' = set_client c cl w1"
proof -
  obtain cl w1 where "mqtt_sync (sync_env X) (\<lambda>cb cl w. None) (\<lambda>cb cl w. None) (x_stack X) (client c w) (Some w) =
      Some (rv, cl, Some w1)" and w': "w' = set_client c cl w1"
    using ret by (auto simp: sync_conn_def split: bind_splits)
  from sw.sync [OF this(1)] laws have "msg_frame w w1" by (auto simp: sync_frame_def)
  with w' show ?thesis by blast
qed

text \<open>Frames of what works on one connection: of the agent only its client and the status change.\<close>

definition conn_frame :: "conn_id \<Rightarrow> 'e world \<Rightarrow> 'e world \<Rightarrow> bool" where
  "conn_frame c w w' \<longleftrightarrow> only_publishes (fst w) (fst w') \<and>
     sy_bios (snd w') = sy_bios (snd w) \<and> sy_ctrl_sock (snd w') = sy_ctrl_sock (snd w) \<and>
     (\<exists>st cl. sy_agent (snd w') = map_conn c (\<lambda>m. m\<lparr>mc_mqclt := cl\<rparr>) ((sy_agent (snd w))\<lparr>ag_agstatus := st\<rparr>)) \<and>
     (\<forall>p pub. sy_pubs (snd w) p = Some pub \<longrightarrow> sy_pubs (snd w') p = Some pub)"

lemma conn_frame_trans: "conn_frame c w1 w2 \<Longrightarrow> conn_frame c w2 w3 \<Longrightarrow> conn_frame c w1 w3"
  unfolding conn_frame_def
  by (intro conjI; cases c; (auto intro: only_publishes_trans; blast)?)

lemma conn_frame_same: "fst w' = fst w \<Longrightarrow> same_sys (snd w) (snd w') \<Longrightarrow> conn_frame c w w'"
  using same_sys_fields [of "snd w" "snd w'"]
  by (cases c) (auto simp: conn_frame_def intro!: exI [of _ "ag_agstatus (sy_agent (snd w))"]
      exI [of _ "mc_mqclt (conn c (sy_agent (snd w)))"])

lemma conn_frame_refl [simp]: "conn_frame c w w"
  by (simp add: conn_frame_same)

lemma set_client_frame: "conn_frame c w (set_client c cl w)"
  by (cases w; cases c) (auto simp: conn_frame_def set_client_def intro!: exI [of _ "ag_agstatus (sy_agent (snd w))"] exI [of _ cl])

lemma msg_conn_frame: "msg_frame w w' \<Longrightarrow> conn_frame c w w'"
  by (cases c) (auto simp: msg_frame_def conn_frame_def intro!: exI [of _ "mc_mqclt (conn c (sy_agent (snd w)))"])

lemma on_client_frame: "on_client c f w = Some (rv, w') \<Longrightarrow> conn_frame c w w'"
  by (auto simp: on_client_def set_client_frame split: bind_splits)

lemma sync_conn_conn_frame: "agent_laws X \<Longrightarrow> sync_conn X c w = Some (rv, w') \<Longrightarrow> conn_frame c w w'"
  using sync_conn_frame [of X c w rv w'] msg_conn_frame set_client_frame conn_frame_trans by blast

lemma do_ext_same: "do_ext f w = (r, w') \<Longrightarrow> fst w' = fst w \<and> same_sys (snd w) (snd w')"
  by (auto simp: do_ext_def same_sys_ext split: prod.splits)

lemma do_ext_frame: "do_ext f w = (r, w') \<Longrightarrow> conn_frame c w w'"
  using do_ext_same conn_frame_same by metis

text \<open>What holds of the steps of \<open>close_loop\<close> holds of the loop.\<close>

lemma close_loop_steps:
  assumes idem: "\<And>w. R w w" and comp: "\<And>w1 w2 w3. R w1 w2 \<Longrightarrow> R w2 w3 \<Longrightarrow> R w1 w3"
    and dis: "\<And>w rv w'. on_client c mqtt_disconnect w = Some (rv, w') \<Longrightarrow> R w w'"
    and sync: "\<And>w rv w'. sync_conn X c w = Some (rv, w') \<Longrightarrow> R w w'"
    and sleep: "\<And>w u w'. do_ext (\<lambda>e. ((), x_sleep X 100000 e)) w = (u, w') \<Longrightarrow> R w w'"
    and ret: "close_loop X c trys w = Some w'"
  shows "R w w'"
  using dis sync sleep ret
proof (induction X c trys w arbitrary: w' rule: close_loop.induct)
  case (1 X c trys w)
  note step = 1(2-4) and ret = 1(5)
  obtain rv w1 where d: "on_client c mqtt_disconnect w = Some (rv, w1)"
    using ret by (subst (asm) close_loop.simps) (auto split: bind_splits)
  obtain trys' w2 where mid: "(if rv = mqtt_err MQTT_OK
        then do { (rv, w) \<leftarrow> sync_conn X c w1; Some (if rv = mqtt_err MQTT_OK then - 1 else trys, w) }
        else Some (trys, w1)) = Some (trys', w2)"
    using ret d by (subst (asm) close_loop.simps) (auto split: bind_splits)
  obtain u w3 where sl: "do_ext (\<lambda>e. ((), x_sleep X 100000 e)) w2 = (u, w3)" by (metis surj_pair)
  have rest: "(if trys' + 1 > 0 \<and> trys' + 1 < 3 then close_loop X c (trys' + 1) w3 else Some w3) = Some w'"
    using ret d mid sl by (subst (asm) close_loop.simps) simp
  have "w2 = w1 \<or> (\<exists>rv. sync_conn X c w1 = Some (rv, w2))" using mid by (auto split: if_splits bind_splits)
  then have "R w w3" using step(1) [OF d] step(2) [of w1] step(3) [OF sl] idem comp by metis
  moreover have "R w3 w'"
    using rest 1(1) [OF d refl mid refl sl [symmetric] refl _ step] idem by (auto split: if_splits)
  ultimately show ?case using comp by blast
qed

lemma close_loop_frame:
  assumes laws: "agent_laws X" and ret: "close_loop X c trys w = Some w'"
  shows "conn_frame c w w'"
  by (rule close_loop_steps [where R = "conn_frame c", OF _ _ _ _ _ ret])
    (rule conn_frame_refl | erule (1) conn_frame_trans
      | erule on_client_frame | erule sync_conn_conn_frame [OF laws] | erule do_ext_frame)+

subsection \<open>Closing a connection\<close>

definition other :: "conn_id \<Rightarrow> conn_id" where
  "other c = (case c of MQRECV \<Rightarrow> MQUPLD | MQUPLD \<Rightarrow> MQRECV)"

lemma conn_map_conn [simp]: "conn c (map_conn c f ag) = f (conn c ag)" "conn (other c) (map_conn c f ag) = conn (other c) ag"
  by (cases c; simp add: other_def)+

lemma conn_frame_conn:
  assumes "conn_frame c w w'"
  shows "\<exists>cl. the_conn c w' = (the_conn c w)\<lparr>mc_mqclt := cl\<rparr>" "the_conn (other c) w' = the_conn (other c) w"
  using assms by (cases c; auto simp: conn_frame_def the_conn_def other_def)+

lemma the_conn_set_conn [simp]: "the_conn c (set_conn c f w) = f (the_conn c w)"
  "the_conn (other c) (set_conn c f w) = the_conn (other c) w"
  by (cases w; simp add: the_conn_def set_conn_def)+

lemma set_conn_simps [simp]: "fst (set_conn c f w) = fst w" "sy_bios (snd (set_conn c f w)) = sy_bios (snd w)"
  "sy_pubs (snd (set_conn c f w)) = sy_pubs (snd w)" "sy_ctrl_sock (snd (set_conn c f w)) = sy_ctrl_sock (snd w)"
  by (cases w; simp add: set_conn_def)+

lemma close_conn_open:
  assumes "close_conn X c w = Some w'" and "mc_biofd (the_conn c w) \<noteq> 0"
  obtains el s where "close_loop X c 0 w = Some (el, s)" and "mc_biofd (the_conn c (el, s)) \<in> sy_bios s"
    and "w' = set_conn c (\<lambda>m. m\<lparr>mc_connfd := 0, mc_status := 0\<rparr>) (set_conn c (\<lambda>m. m\<lparr>mc_biofd := 0, mc_ssl_ctx := 0\<rparr>)
      (el, s\<lparr>sy_bios := sy_bios s - {mc_biofd (the_conn c (el, s))}\<rparr>))"
  using assms by (auto simp: close_conn_def the_conn_def Let_def split: bind_splits if_splits)

text \<open>
  \<open>close_conn\<close> frees the BIO of the connection, which must be open, and marks it as closed. It does not
  touch the other connection or take any timer away.
\<close>

lemma close_conn_law:
  assumes laws: "agent_laws X" and ret: "close_conn X c w = Some w'"
  shows "mc_biofd (the_conn c w') = 0 \<and> mc_status (the_conn c w') = 0 \<and> mc_connfd (the_conn c w') = 0 \<and>
    sy_bios (snd w') = (if mc_biofd (the_conn c w) = 0 then sy_bios (snd w)
      else sy_bios (snd w) - {mc_biofd (the_conn c w)}) \<and>
    (mc_biofd (the_conn c w) \<noteq> 0 \<longrightarrow> mc_biofd (the_conn c w) \<in> sy_bios (snd w)) \<and>
    the_conn (other c) w' = the_conn (other c) w \<and> only_publishes (fst w) (fst w') \<and>
    sy_ctrl_sock (snd w') = sy_ctrl_sock (snd w)"
proof (cases "mc_biofd (the_conn c w) = 0")
  case True
  with ret have "w' = set_conn c (\<lambda>m. m\<lparr>mc_connfd := 0, mc_status := 0\<rparr>) w" by (simp add: close_conn_def)
  with True show ?thesis by auto
next
  case False
  obtain el s where loop: "close_loop X c 0 w = Some (el, s)" and fd: "mc_biofd (the_conn c (el, s)) \<in> sy_bios s"
    and w': "w' = set_conn c (\<lambda>m. m\<lparr>mc_connfd := 0, mc_status := 0\<rparr>) (set_conn c (\<lambda>m. m\<lparr>mc_biofd := 0, mc_ssl_ctx := 0\<rparr>)
      (el, s\<lparr>sy_bios := sy_bios s - {mc_biofd (the_conn c (el, s))}\<rparr>))"
    by (rule close_conn_open [OF ret False])
  have fr: "conn_frame c w (el, s)" using close_loop_frame [OF laws loop] .
  have bio: "mc_biofd (the_conn c (el, s)) = mc_biofd (the_conn c w)" and oth: "the_conn (other c) (el, s) = the_conn (other c) w"
    using conn_frame_conn [OF fr] by auto
  have "the_conn (other c) (el, s\<lparr>sy_bios := B\<rparr>) = the_conn (other c) (el, s)" for B by (simp add: the_conn_def)
  with fr fd bio oth False show ?thesis by (auto simp: w' conn_frame_def)
qed

subsection \<open>Handlers keep the event loop\<close>

definition loop_kept :: "'e world \<Rightarrow> 'e world \<Rightarrow> bool" where
  "loop_kept w w' \<longleftrightarrow> eloop_ok (fst w) \<longrightarrow> eloop_ok (fst w') \<and> set (timers (fst w)) \<subseteq> set (timers (fst w'))"

lemma loop_kept_trans: "loop_kept w1 w2 \<Longrightarrow> loop_kept w2 w3 \<Longrightarrow> loop_kept w1 w3"
  by (auto simp: loop_kept_def)

lemma loop_kept_same: "fst w' = fst w \<Longrightarrow> loop_kept w w'"
  by (simp add: loop_kept_def)

lemma loop_kept_publishes: "only_publishes (fst w) (fst w') \<Longrightarrow> loop_kept w w'"
  by (simp add: loop_kept_def only_publishes_def)

lemma loop_kept_timeout: "agent_laws X \<Longrightarrow> set_timeout X secs usecs h d w = Some w' \<Longrightarrow> loop_kept w w'"
  using set_timeout_timers [of X "fst w" secs usecs h d "snd w" "fst w'" "snd w'"]
  by (auto simp: loop_kept_def)

lemma loop_kept_sync: "agent_laws X \<Longrightarrow> sync_conn X c w = Some (rv, w') \<Longrightarrow> loop_kept w w'"
  using sync_conn_conn_frame [of X c w rv w'] loop_kept_publishes [of w w'] by (simp add: conn_frame_def)

lemma loop_kept_close: "agent_laws X \<Longrightarrow> close_conn X c w = Some w' \<Longrightarrow> loop_kept w w'"
  using close_conn_law [of X c w w'] loop_kept_publishes [of w w'] by simp

lemma on_client_fst: "on_client c f w = Some (rv, w') \<Longrightarrow> fst w' = fst w"
  by (cases w) (auto simp: on_client_def set_client_def split: bind_splits)

lemma do_ext_fst: "do_ext f w = (r, w') \<Longrightarrow> fst w' = fst w"
  using do_ext_same by metis

lemma goE:
  assumes "go m f = Some (Return b, w')"
  obtains a w1 where "m = Some (Return a, w1)" "f a w1 = Some (Return b, w')"
  using assms by (auto simp: go_def split: option.splits outcome.splits)

lemma exit_link_returns: "exit_link X code w \<noteq> Some (Return a, w')"
  by (auto simp: exit_link_def split: bind_splits)

lemma load_file_same: "load_file X load ctx file w = Some (Return u, w') \<Longrightarrow> fst w' = fst w \<and> same_sys (snd w) (snd w')"
  by (auto simp: load_file_def exit_link_returns dest: do_ext_same split: prod.splits if_splits)

lemma connect_loop_same:
  fixes X :: "('e, 'd) agent_env"
  assumes ret: "connect_loop X fd start rv w = Some (rv', w')"
  shows "fst w' = fst w \<and> same_sys (snd w) (snd w')"
proof -
  let ?P = "\<lambda>(w :: 'e world) r. fst (snd r) = fst w \<and> same_sys (snd w) (snd (snd r))"
  have "?P w (rv', w')"
  proof (rule connect_loop.raw_induct [where P = "\<lambda>X fd start rv w r. ?P w r", OF _ ret])
    fix f and X :: "('e, 'd) agent_env" and fd start rv and w :: "'e world" and r
    assume IH: "\<And>X fd start rv w r. f X fd start rv w = Some r \<Longrightarrow> ?P w r"
      and body: "(if rv \<le> 0 \<and> x_should_retry X fd (sy_ext (snd w))
        then let (now, w) = do_ext (x_time X) w
             in if now - start < 10 then let (rv, w) = do_ext (x_do_connect X fd) w in f X fd start rv w else Some (rv, w)
        else Some (rv, w)) = Some r"
    obtain now w1 where t: "do_ext (x_time X) w = (now, w1)" by (metis surj_pair)
    obtain rv2 w2 where c: "do_ext (x_do_connect X fd) w1 = (rv2, w2)" by (metis surj_pair)
    consider "f X fd start rv2 w2 = Some r" | "snd r = w1" | "snd r = w"
      using body t c by (auto split: if_splits)
    then show "?P w r"
    proof cases
      case 1
      from IH [OF this] do_ext_same [OF t] do_ext_same [OF c] show ?thesis by (auto intro: same_sys_trans)
    qed (use do_ext_same [OF t] in auto)
  qed
  then show ?thesis by simp
qed

lemma same_sys_conn: "same_sys (snd w) (snd w') \<Longrightarrow> the_conn c w' = the_conn c w \<and> sy_bios (snd w') = sy_bios (snd w)"
  using same_sys_fields [of "snd w" "snd w'"] by (simp add: the_conn_def)

lemma new_bio_fresh:
  assumes "agent_laws X" and "do_ext (x_new_bio X bios ctx addr port) w = (fd, w')" and "fd \<noteq> 0"
  shows "fd \<notin> bios"
proof -
  have "fd = fst (x_new_bio X bios ctx addr port (sy_ext (snd w)))"
    using assms(2) by (auto simp: do_ext_def ext_def split: prod.splits)
  with assms(1,3) show ?thesis unfolding agent_laws_def by metis
qed

text \<open>
  Opening a connection leaves the event loop and the other connection alone. The BIO is fresh, and
  freed again when the connection cannot be made.
\<close>

lemma open_nb_socket_law:
  assumes ret: "open_nb_socket X c w = Some (Return u, w')"
  shows "fst w' = fst w \<and> (\<exists>fd. (agent_laws X \<longrightarrow> fd \<notin> sy_bios (snd w)) \<and>
    (mc_biofd (the_conn c w') = fd \<and> fd \<noteq> 0 \<and> sy_bios (snd w') = insert fd (sy_bios (snd w)) \<or>
     mc_biofd (the_conn c w') = 0 \<and> sy_bios (snd w') = sy_bios (snd w) - {fd})) \<and>
    mc_status (the_conn c w') = mc_status (the_conn c w) \<and> mc_mqclt (the_conn c w') = mc_mqclt (the_conn c w) \<and>
    the_conn (other c) w' = the_conn (other c) w"
proof -
  let ?m = "the_conn c w"
  obtain ctx w0 where ctx: "do_ext (x_new_ctx X) w = (ctx, w0)" by (metis surj_pair)
  let ?w0 = "set_conn c (\<lambda>m. m\<lparr>mc_ssl_ctx := ctx\<rparr>) w0"
  obtain a1 a2 a3 w1 w2 w3 where load: "load_file X (x_load_cert X) ctx (mc_clt_cert ?m) ?w0 = Some (Return a1, w1)"
    "load_file X (x_load_key X) ctx (mc_clt_key ?m) w1 = Some (Return a2, w2)"
    "load_file X (x_load_ca X) ctx (mc_ca_file ?m) w2 = Some (Return a3, w3)"
    and rest: "(let (fd, w) = do_ext (x_new_bio X (sy_bios (snd w3)) ctx (mc_daddr ?m) (mc_dport ?m)) w3
           in if fd = 0 then None
              else let (el, s) = set_conn c (\<lambda>m. m\<lparr>mc_biofd := fd\<rparr>) w;
                       w = (el, s\<lparr>sy_bios := insert fd (sy_bios s)\<rparr>);
                       (start_time, w) = do_ext (x_time X) w;
                       (rv, w) = do_ext (x_do_connect X fd) w
                   in do {
                     (rv, el, s) \<leftarrow> connect_loop X fd start_time rv w;
                     if rv \<le> 0
                     then Some (Return (), set_conn c (\<lambda>m. m\<lparr>mc_biofd := 0, mc_ssl_ctx := 0\<rparr>)
                       (el, s\<lparr>sy_bios := sy_bios s - {fd}\<rparr>))
                     else if \<not> x_verified X fd (sy_ext s) then exit_link X 1 (el, s)
                     else Some (Return (), (el, s))
                   }) = Some (Return u, w')"
    using ret ctx unfolding open_nb_socket_def Let_def by (auto elim!: goE)
  obtain fd w4 where fd: "do_ext (x_new_bio X (sy_bios (snd w3)) ctx (mc_daddr ?m) (mc_dport ?m)) w3 = (fd, w4)" by (metis surj_pair)
  obtain el4 s4 where c4: "set_conn c (\<lambda>m. m\<lparr>mc_biofd := fd\<rparr>) w4 = (el4, s4)" by (metis surj_pair)
  let ?w5 = "(el4, s4\<lparr>sy_bios := insert fd (sy_bios s4)\<rparr>)"
  obtain t w6 where t: "do_ext (x_time X) ?w5 = (t, w6)" by (metis surj_pair)
  obtain rv w7 where c: "do_ext (x_do_connect X fd) w6 = (rv, w7)" by (metis surj_pair)
  obtain rv' el8 s8 where loop: "connect_loop X fd t rv w7 = Some (rv', el8, s8)"
    and fd0: "fd \<noteq> 0" and w': "w' = (el8, s8) \<or> w' = set_conn c (\<lambda>m. m\<lparr>mc_biofd := 0, mc_ssl_ctx := 0\<rparr>) (el8, s8\<lparr>sy_bios := sy_bios s8 - {fd}\<rparr>)"
    using rest fd c4 t c by (auto simp: exit_link_returns split: if_splits bind_splits)
  have f0: "fst ?w0 = fst w" "the_conn c ?w0 = ?m\<lparr>mc_ssl_ctx := ctx\<rparr>" "the_conn (other c) ?w0 = the_conn (other c) w"
    "sy_bios (snd ?w0) = sy_bios (snd w)"
    using do_ext_same [OF ctx] same_sys_conn [of w w0] by auto
  have l: "fst w3 = fst ?w0" "same_sys (snd ?w0) (snd w3)"
    using load [THEN load_file_same] same_sys_trans by metis+
  then have l4: "fst w4 = fst ?w0" "same_sys (snd ?w0) (snd w4)" using do_ext_same [OF fd] same_sys_trans by metis+
  have 5: "fst ?w5 = fst w" "the_conn c ?w5 = ?m\<lparr>mc_ssl_ctx := ctx, mc_biofd := fd\<rparr>"
    "the_conn (other c) ?w5 = the_conn (other c) w" "sy_bios (snd ?w5) = insert fd (sy_bios (snd w))"
  proof -
    have el4: "el4 = fst (set_conn c (\<lambda>m. m\<lparr>mc_biofd := fd\<rparr>) w4)" "s4 = snd (set_conn c (\<lambda>m. m\<lparr>mc_biofd := fd\<rparr>) w4)"
      using c4 by simp_all
    have "the_conn c' ?w5 = the_conn c' (set_conn c (\<lambda>m. m\<lparr>mc_biofd := fd\<rparr>) w4)" for c'
      by (simp add: el4 the_conn_def)
    with l4(1) same_sys_conn [OF l4(2)] f0 show "fst ?w5 = fst w" "the_conn c ?w5 = ?m\<lparr>mc_ssl_ctx := ctx, mc_biofd := fd\<rparr>"
      "the_conn (other c) ?w5 = the_conn (other c) w" "sy_bios (snd ?w5) = insert fd (sy_bios (snd w))"
      by (simp_all add: el4)
  qed
  have 8: "el8 = fst ?w5" "same_sys (snd ?w5) s8"
    using connect_loop_same [OF loop] do_ext_same [OF c] do_ext_same [OF t] same_sys_trans by (metis fst_conv snd_conv)+
  have conn8: "the_conn c' (el8, s8\<lparr>sy_bios := B\<rparr>) = the_conn c' ?w5" "the_conn c' (el8, s8) = the_conn c' ?w5" for c' B
    using same_sys_conn [of ?w5 "(el8, s8)" c'] 8(2) by (simp_all add: the_conn_def)
  have bios8: "sy_bios s8 = insert fd (sy_bios (snd w))" using same_sys_fields [OF 8(2)] 5(4) by simp
  have "agent_laws X \<longrightarrow> fd \<notin> sy_bios (snd w)"
    using new_bio_fresh [OF _ fd fd0] same_sys_conn [OF l(2)] f0(4) by simp
  then show ?thesis using w' 5(1-3) 8(1) conn8 bios8 fd0 by (intro conjI exI [of _ fd]) auto
qed

end
