(* ===== verification/Agent_Events.thy ===== *)
theory Agent_Events
  imports Agent_Facts
begin

text \<open>
  The texts the agent writes into its buffers, and what a remote command leaves to be published.
\<close>

subsection \<open>Printing\<close>

lemma length_ascii [simp]: "length (ascii s) = length s"
  by (simp add: ascii_def)

lemma sprintf_fits [simp]: "length bs < cap \<Longrightarrow> sprintf cap bs = Some bs"
  by (simp add: sprintf_def)

lemma sprintf_Some_iff: "sprintf cap bs = Some r \<longleftrightarrow> length bs < cap \<and> r = bs"
  by (auto simp: sprintf_def)

text \<open>A row of \<open>strcat\<close> is right if the whole fits.\<close>

lemma strcats_fits: "length (buf @ concat ss) < cap \<Longrightarrow> strcats cap buf ss = Some (buf @ concat ss)"
  by (induction ss arbitrary: buf) simp_all

lemma length_field: "length (field bs) \<le> 127 \<and> length (field bs) \<le> length bs"
  by (simp add: field_def snprintf_def)

lemma length_text_field: "length (text_field name v) \<le> 127 \<and> length (text_field name v) \<le> length name + length v + 6"
  using length_field [of "ascii '','' @ [0x22] @ ascii name @ [0x22] @ ascii '':'' @ [0x22] @ v @ [0x22]"]
  by (simp add: text_field_def)

lemma length_plain_field: "length (plain_field name v) \<le> 127 \<and> length (plain_field name v) \<le> length name + length v + 4"
  using length_field [of "ascii '','' @ [0x22] @ ascii name @ [0x22] @ ascii '':'' @ v"]
  by (simp add: plain_field_def)

text \<open>The date is known and its field fits; \<open>strftime\<close> writes nineteen characters for four-digit years.\<close>

definition dated :: "('e, 'd) agent_env \<Rightarrow> agent \<Rightarrow> bool" where
  "dated X ag \<longleftrightarrow> (\<exists>t. ag_tinfo ag = Some t \<and> length (x_date X t) \<le> 100)"

lemma date_field_fits: "dated X ag \<Longrightarrow> \<exists>d. date_field X ag = Some d \<and> length d \<le> 110"
  by (auto simp: dated_def date_field_def)

lemma length_rcid2name: "length (rcid2name rc) \<le> 8"
  by (simp add: rcid2name_def)

lemma length_takeWhile_cut: "length (takeWhile (\<lambda>b. b \<noteq> z) (bs[n := z])) \<le> n" if "n < length bs"
proof (rule ccontr)
  assume "\<not> ?thesis"
  then have n: "n < length (takeWhile (\<lambda>b. b \<noteq> z) (bs[n := z]))" by simp
  then have "takeWhile (\<lambda>b. b \<noteq> z) (bs[n := z]) ! n = z"
    using takeWhile_nth [OF n] that by simp
  moreover have "takeWhile (\<lambda>b. b \<noteq> z) (bs[n := z]) ! n \<noteq> z" using nth_mem [OF n] set_takeWhileD by metis
  ultimately show False by simp
qed

lemma get_rcfi_msg_fits:
  assumes "5 \<le> length rcid" and "dated X ag"
  shows "\<exists>msg. get_rcfi_msg X ag rcid ok = Some msg \<and> length msg < 1024"
proof -
  let ?rc = "cstr (rcid[4 := 0])"
  obtain d where d: "date_field X ag = Some d" "length d \<le> 110" using date_field_fits [OF assms(2)] by blast
  have rc: "length ?rc \<le> 4" using length_takeWhile_cut [of 4 rcid 0] assms(1) by (simp add: cstr_def)
  let ?ss = "[ascii ''{'', field ([0x22] @ ascii ''type'' @ [0x22] @ ascii '':'' @ [0x22] @ ascii ''event'' @ [0x22]),
       text_field ''ver'' (ascii ''2.00''), text_field ''prdct'' (ascii ''AP''),
       plain_field ''act_id'' (if ok then ascii ''7777'' else ascii ''7788''),
       plain_field ''act_sts'' (ascii ''0''), plain_field ''act_trg'' ?rc, text_field ''act_para'' ?rc,
       plain_field ''evt_id'' (ascii ''1''), text_field ''agt_name'' AG_NAME, text_field ''agt_ver'' AG_VER,
       text_field ''ms_ver'' MSG_VER, text_field ''dev_id'' (ag_devid ag), d,
       text_field ''msg'' (rcid2name ?rc @ (if ok then ascii ''is ok'' else ascii ''is failed'')), ascii ''}'']"
  have "length (concat ?ss) < 1024"
    using length_field [of "[0x22] @ ascii ''type'' @ [0x22] @ ascii '':'' @ [0x22] @ ascii ''event'' @ [0x22]"]
      length_text_field [of "''ver''" "ascii ''2.00''"] length_text_field [of "''prdct''" "ascii ''AP''"]
      length_plain_field [of "''act_id''" "if ok then ascii ''7777'' else ascii ''7788''"]
      length_plain_field [of "''act_sts''" "ascii ''0''"] length_plain_field [of "''act_trg''" ?rc]
      length_text_field [of "''act_para''" ?rc] length_plain_field [of "''evt_id''" "ascii ''1''"]
      length_text_field [of "''agt_name''" AG_NAME] length_text_field [of "''agt_ver''" AG_VER]
      length_text_field [of "''ms_ver''" MSG_VER] length_text_field [of "''dev_id''" "ag_devid ag"]
      length_text_field [of "''msg''" "rcid2name ?rc @ (if ok then ascii ''is ok'' else ascii ''is failed'')"] d(2) rc
    by (simp add: AG_NAME_def AG_VER_def MSG_VER_def split: if_splits)
  then show ?thesis using d(1) assms(1) strcats_fits [of "[]" ?ss 1024] by (simp add: get_rcfi_msg_def Let_def)
qed

lemma sendtest_msg_fits:
  assumes "dated X ag" and "length (ag_devid ag) < 128"
  shows "\<exists>msg. sendtest_msg X ag = Some msg \<and> length msg < 512"
proof -
  obtain d where d: "date_field X ag = Some d" "length d \<le> 110" using date_field_fits [OF assms(1)] by blast
  let ?ss = "[ascii ''{'', field ([0x22] @ ascii ''type'' @ [0x22] @ ascii '':'' @ [0x22] @ ascii ''event'' @ [0x22]),
       text_field ''ver'' (ascii ''2.00''), text_field ''prdct'' (ascii ''AP''), plain_field ''act_id'' (ascii ''9999''),
       plain_field ''act_sts'' (ascii ''0''), plain_field ''act_trg'' (ascii ''0''),
       text_field ''act_para'' (ascii ''Test message''), plain_field ''evt_id'' (ascii ''1''),
       text_field ''agt_name'' AG_NAME, text_field ''agt_ver'' AG_VER, text_field ''ms_ver'' MSG_VER,
       text_field ''dev_id'' (ag_devid ag), d, text_field ''msg'' test_text, ascii ''}'']"
  have "length (concat ?ss) < 512"
    using length_field [of "[0x22] @ ascii ''type'' @ [0x22] @ ascii '':'' @ [0x22] @ ascii ''event'' @ [0x22]"]
      length_text_field [of "''ver''" "ascii ''2.00''"] length_text_field [of "''prdct''" "ascii ''AP''"]
      length_plain_field [of "''act_id''" "ascii ''9999''"] length_plain_field [of "''act_sts''" "ascii ''0''"]
      length_plain_field [of "''act_trg''" "ascii ''0''"] length_text_field [of "''act_para''" "ascii ''Test message''"]
      length_plain_field [of "''evt_id''" "ascii ''1''"]
      length_text_field [of "''agt_name''" AG_NAME] length_text_field [of "''agt_ver''" AG_VER]
      length_text_field [of "''ms_ver''" MSG_VER] length_text_field [of "''dev_id''" "ag_devid ag"]
      length_text_field [of "''msg''" test_text] d(2)
    by (simp add: AG_NAME_def AG_VER_def MSG_VER_def test_text_def)
  then show ?thesis using d(1) strcats_fits [of "[]" ?ss 512] by (simp add: sendtest_msg_def)
qed

subsection \<open>What waits to be published\<close>

text \<open>
  Between the two states the publish has been put aside under a fresh address, with a timer of its own.
\<close>

definition queued :: "set_publish \<Rightarrow> 'e world \<Rightarrow> 'e world \<Rightarrow> bool" where
  "queued pub w w' \<longleftrightarrow> eloop_ok (fst w') \<and> (\<exists>p. armed H_publish p (fst w) (fst w') \<and>
     sy_pubs (snd w) p = None \<and> sy_pubs (snd w') = (sy_pubs (snd w))(p \<mapsto> pub))"

lemma set_publish_queued:
  assumes "agent_laws X" "allocates X" and "eloop_ok (fst w)" "finite_heaps w" and "length topic < 128"
  shows "\<exists>w'. set_mqtt_publish_nexsync X c topic msg flags w = Some w' \<and> queued (pub_of c topic msg flags) w w' \<and>
    sy_agent (snd w') = sy_agent (snd w) \<and> finite_heaps w'"
  using set_publish_law [of X "fst w" "snd w" topic c msg flags] assms by (fastforce simp: queued_def)

definition rc_reboots :: "cstring \<Rightarrow> bool" where
  "rc_reboots rcid \<longleftrightarrow> rcid = ascii ''1000'' \<or> rcid = ascii ''1000,2''"

definition rc_known :: "cstring \<Rightarrow> bool" where
  "rc_known rcid \<longleftrightarrow> rcid = ascii ''2000'' \<or> rcid = ascii ''2000,2''"

lemma rc_report_fits: "length rcid \<le> 986 \<Longrightarrow> \<exists>report. rc_report rcid = Some report"
  by (simp add: rc_report_def)

lemma process_rc_law:
  assumes laws: "agent_laws X" "allocates X" and ok: "eloop_ok (fst w)" "finite_heaps w"
    and topics: "length (mc_topicsend (ag_mqrecv (sy_agent (snd w)))) < 128" "length (mc_topicsend (ag_mqupld (sy_agent (snd w)))) < 128"
    and date: "dated X (sy_agent (snd w))" and long: "5 \<le> length rcid" "length (cstr rcid) \<le> 986"
  shows "\<exists>report w1 w'. rc_report (cstr rcid) = Some report \<and>
    queued (pub_of MQRECV (mc_topicsend (ag_mqrecv (sy_agent (snd w)))) report MQTT_PUBLISH_QOS_1) w w1 \<and>
    sy_agent (snd w1) = sy_agent (snd w) \<and> admlink_process_rc X (Some rcid) w = Some w' \<and>
    (if rc_reboots (cstr rcid)
     then w' = (fst w1, (snd w1)\<lparr>sy_agent := (sy_agent (snd w))\<lparr>ag_agstatus := isReboot\<rparr>\<rparr>)
     else sy_agent (snd w') = sy_agent (snd w) \<and>
       (\<exists>msg. get_rcfi_msg X (sy_agent (snd w)) rcid (rc_known (cstr rcid)) = Some msg \<and> length msg < 1024 \<and>
         queued (pub_of MQUPLD (mc_topicsend (ag_mqupld (sy_agent (snd w)))) msg MQTT_PUBLISH_QOS_1) w1 w'))"
proof -
  let ?ag = "sy_agent (snd w)"
  obtain report where r: "rc_report (cstr rcid) = Some report" using rc_report_fits [OF long(2)] by blast
  obtain w1 where 1: "set_mqtt_publish_nexsync X MQRECV (mc_topicsend (ag_mqrecv ?ag)) report MQTT_PUBLISH_QOS_1 w = Some w1"
    "queued (pub_of MQRECV (mc_topicsend (ag_mqrecv ?ag)) report MQTT_PUBLISH_QOS_1) w w1" "sy_agent (snd w1) = ?ag" "finite_heaps w1"
    using set_publish_queued [OF laws ok topics(1)] by blast
  have same: "(fst w1, (snd w1)\<lparr>sy_agent := ?ag\<rparr>) = w1" using 1(3) by (cases w1) auto
  show ?thesis
  proof (cases "rc_reboots (cstr rcid)")
    case True
    let ?w = "(fst w1, (snd w1)\<lparr>sy_agent := ?ag\<lparr>ag_agstatus := isReboot\<rparr>\<rparr>)"
    have "admlink_process_rc X (Some rcid) w = Some ?w" using r 1(1,3) True
      by (auto simp: admlink_process_rc_def run_rc_cases rc_reboots_def rc_reboot_def rc_failed_def rc_ok_def)
    with r 1(2,3) True show ?thesis by metis
  next
    case False
    let ?known = "rc_known (cstr rcid)"
    obtain msg where m: "get_rcfi_msg X ?ag rcid ?known = Some msg" "length msg < 1024"
      using get_rcfi_msg_fits [OF long(1) date] by blast
    have ok1: "eloop_ok (fst w1)" using 1(2) by (simp add: queued_def)
    obtain w' where 2: "set_mqtt_publish_nexsync X MQUPLD (mc_topicsend (ag_mqupld ?ag)) msg MQTT_PUBLISH_QOS_1 w1 = Some w'"
      "queued (pub_of MQUPLD (mc_topicsend (ag_mqupld ?ag)) msg MQTT_PUBLISH_QOS_1) w1 w'" "sy_agent (snd w') = sy_agent (snd w1)"
      using set_publish_queued [OF laws ok1 1(4) topics(2)] by blast
    have rc: "run_rc rc_hdl_tbl (cstr rcid) ?ag = (?ag, if ?known then rc_ok else rc_failed)"
      using False by (auto simp: run_rc_cases rc_reboots_def rc_known_def)
    have "admlink_process_rc X (Some rcid) w = Some w'"
      using r 1(1,3) 2(1) m(1) rc same by (auto simp: admlink_process_rc_def rc_failed_def rc_ok_def)
    with r 1(2,3) 2(2,3) m False show ?thesis
      by (intro exI [of _ report] exI [of _ w1] exI [of _ w']) simp
  qed
qed

subsection \<open>The command in a message\<close>

lemma case_loop_same: "0 \<notin> set name \<Longrightarrow> case_loop (name @ 0 # r) (name @ 0 # r') = Some True"
  by (induction name) auto

lemma cstr_split: "length (cstr v) < length v \<Longrightarrow> \<exists>r. v = cstr v @ 0 # r"
proof -
  assume "length (cstr v) < length v"
  then have "dropWhile (\<lambda>b. b \<noteq> 0) v \<noteq> []" unfolding cstr_def
    by (metis append_Nil2 nat_neq_iff takeWhile_dropWhile_id)
  then obtain b r where d: "dropWhile (\<lambda>b. b \<noteq> 0) v = b # r" by (cases "dropWhile (\<lambda>b. b \<noteq> 0) v") auto
  then have "b = 0" using hd_dropWhile [of "\<lambda>b. b \<noteq> 0" v] by simp
  then show ?thesis using d takeWhile_dropWhile_id [of "\<lambda>b. b \<noteq> 0" v] unfolding cstr_def by metis
qed

lemma name_found:
  assumes "cstr v = name" "length name < length v" and "0 \<notin> set name"
  shows "case_loop v (name @ [0]) = Some True"
  using cstr_split [of v] case_loop_same [of name _ "[]"] assms by metis

lemma parse_single:
  assumes name: "0 \<notin> set name" and start: "skip p = Some p"
    and inner: "parse_value ar p = Some (Inr (c, 0x7D # q))"
  shows "\<exists>v. parse_value ar (0x7B # 0x22 # print_all name @ 0x22 # 0x3A # p) =
      Some (Inr (compound ar cJSON_Object [rename_item v c], q)) \<and> case_loop v (name @ [0]) = Some True"
proof -
  obtain v where v: "parse_string (0x22 # print_all name @ 0x22 # 0x3A # p) = Some (Inr (v, 0x3A # p))"
    "cstr v = name" "length name < length v"
    using parse_print_string [OF name, of "0x3A # p"] by auto
  have "parse_members ar [] (0x22 # print_all name @ 0x22 # 0x3A # p) =
      Some (Inr (compound ar cJSON_Object [rename_item v c], q))"
    using v(1) start inner by (simp add: parse_members.simps)
  then have "parse_value ar (0x7B # 0x22 # print_all name @ 0x22 # 0x3A # p) =
      Some (Inr (compound ar cJSON_Object [rename_item v c], q))"
    by (simp add: parse_value.simps)
  then show ?thesis using name_found [OF v(2,3) name] by blast
qed

text \<open>The message \<open>{"state":{"desired":{"rc_id":"..."}}}\<close> with the printed \<open>rcid\<close>.\<close>

definition rc_text :: "cstring \<Rightarrow> u8 list" where
  "rc_text rcid = ascii ''{'' @ [0x22] @ ascii ''state'' @ [0x22] @ ascii '':{'' @ [0x22] @ ascii ''desired'' @ [0x22] @
     ascii '':{'' @ [0x22] @ ascii ''rc_id'' @ [0x22] @ [0x3A, 0x22] @ print_all rcid @ [0x22] @ ascii ''}}}'' @ [0]"

lemma get_single:
  assumes "case_loop v (name @ [0]) = Some True"
  shows "cJSON_GetObjectItem (compound ar ty [rename_item v c]) (name @ [0]) = Some (Some (rename_item v c))"
  using assms by (simp add: cJSON_GetObjectItem_def compound_def rename_item_def cJSON_same_def)

lemma get_renamed: "cJSON_GetObjectItem (rename_item v c) name = cJSON_GetObjectItem c name"
  by (simp add: cJSON_GetObjectItem_def rename_item_def)

lemma names_printed [simp]: "print_all (ascii ''state'') = ascii ''state''" "print_all (ascii ''desired'') = ascii ''desired''"
  "print_all (ascii ''rc_id'') = ascii ''rc_id''"
  by (simp_all add: ascii_def print_byte_def)

lemma names_plain [simp]: "0 \<notin> set (ascii ''state'')" "0 \<notin> set (ascii ''desired'')" "0 \<notin> set (ascii ''rc_id'')"
  by (simp_all add: ascii_def)

lemma rc_text_handled:
  assumes "0 \<notin> set rcid"
  shows "\<exists>v. cstr v = rcid \<and> length rcid < length v \<and> admlink_msg_handle X (rc_text rcid) w = admlink_process_rc X (Some v) w"
proof -
  let ?ar = "x_arith X"
  obtain v where v: "parse_string (0x22 # print_all rcid @ 0x22 # [0x7D, 0x7D, 0x7D, 0]) = Some (Inr (v, [0x7D, 0x7D, 0x7D, 0]))"
    "cstr v = rcid" "length rcid < length v" using parse_print_string [OF assms, of "[0x7D, 0x7D, 0x7D, 0]"] by auto
  let ?c = "CJSON cJSON_String (Some v) 0 (d_of_int ?ar 0) None []"
  let ?p = "0x22 # print_all rcid @ 0x22 # [0x7D, 0x7D, 0x7D, 0]"
  have 0: "parse_value ?ar ?p = Some (Inr (?c, [0x7D, 0x7D, 0x7D, 0]))"
    using v(1) by (simp add: parse_value.simps parse_simple_def ascii_def)
  obtain v1 where 1: "parse_value ?ar (0x7B # 0x22 # ascii ''rc_id'' @ 0x22 # 0x3A # ?p) =
      Some (Inr (compound ?ar cJSON_Object [rename_item v1 ?c], [0x7D, 0x7D, 0]))" "case_loop v1 (ascii ''rc_id'' @ [0]) = Some True"
    using parse_single [of "ascii ''rc_id''" ?p ?ar ?c "[0x7D, 0x7D, 0]"] 0 by auto
  let ?p1 = "0x7B # 0x22 # ascii ''rc_id'' @ 0x22 # 0x3A # ?p" and ?c1 = "compound ?ar cJSON_Object [rename_item v1 ?c]"
  obtain v2 where 2: "parse_value ?ar (0x7B # 0x22 # ascii ''desired'' @ 0x22 # 0x3A # ?p1) =
      Some (Inr (compound ?ar cJSON_Object [rename_item v2 ?c1], [0x7D, 0]))" "case_loop v2 (ascii ''desired'' @ [0]) = Some True"
    using parse_single [of "ascii ''desired''" ?p1 ?ar ?c1 "[0x7D, 0]"] 1(1) by auto
  let ?p2 = "0x7B # 0x22 # ascii ''desired'' @ 0x22 # 0x3A # ?p1" and ?c2 = "compound ?ar cJSON_Object [rename_item v2 ?c1]"
  obtain v3 where 3: "parse_value ?ar (0x7B # 0x22 # ascii ''state'' @ 0x22 # 0x3A # ?p2) =
      Some (Inr (compound ?ar cJSON_Object [rename_item v3 ?c2], [0]))" "case_loop v3 (ascii ''state'' @ [0]) = Some True"
    using parse_single [of "ascii ''state''" ?p2 ?ar ?c2 "[0]"] 2(1) by auto
  have whole: "rc_text rcid = 0x7B # 0x22 # ascii ''state'' @ 0x22 # 0x3A # ?p2"
    by (simp add: rc_text_def ascii_def)
  have "cJSON_Parse ?ar (rc_text rcid) = Some (Some (compound ?ar cJSON_Object [rename_item v3 ?c2]))"
    unfolding whole using 3(1) by (simp add: cJSON_Parse_def cJSON_ParseWithOpts_def)
  then have "admlink_msg_handle X (rc_text rcid) w = admlink_process_rc X (Some v) w"
    using get_single [OF 3(2), of ?ar cJSON_Object ?c2] get_single [OF 2(2), of ?ar cJSON_Object ?c1]
      get_single [OF 1(2), of ?ar cJSON_Object ?c]
    by (simp add: admlink_msg_handle_def member_name_def get_renamed) (simp add: rename_item_def)
  then show ?thesis using v(2,3) by blast
qed

end
