(* ===== verification/Agent_Loop.thy ===== *)
theory Agent_Loop
  imports Agent_Facts
begin

text \<open>
  The handlers of the agent in the event loop: each of them, and the state machine with all it calls,
  leaves the loop well formed and takes no timer away from it.
\<close>

subsection \<open>The state machine\<close>

lemma set_conn_kept: "loop_kept w (set_conn c f w)"
  by (simp add: loop_kept_same)

lemma start_client_fst: "start_client c w = Some (rv, w') \<Longrightarrow> fst w' = fst w"
  by (cases w) (auto simp: start_client_def Let_def set_client_def split: bind_splits dest!: on_client_fst)

lemma open_client_kept:
  assumes laws: "agent_laws X" and ret: "open_client X c w = Some (Return ok, w')"
  shows "loop_kept w w'"
proof -
  obtain u w1 where o: "open_nb_socket X c w = Some (Return u, w1)"
    and rest: "(if mc_biofd (the_conn c w1) = 0 then Some (Return False, w1)
     else do {
       let w = set_conn c (\<lambda>m. m\<lparr>mc_connfd := x_get_fd X (mc_biofd m) (sy_ext (snd w1))\<rparr>) w1;
       (rv, w) \<leftarrow> start_client c w;
       if cl_error (client c w) \<noteq> mqtt_err MQTT_OK then Some (Return False, w)
       else do {
         (rv, w) \<leftarrow> sync_conn X c w;
         Some (Return (rv = mqtt_err MQTT_OK), w)
       }
     }) = Some (Return ok, w')"
    using ret by (auto simp: open_client_def elim!: goE)
  have 1: "fst w1 = fst w" using open_nb_socket_law [OF o] by simp
  show ?thesis
  proof (cases "w' = w1")
    case True
    then show ?thesis using 1 by (simp add: loop_kept_same)
  next
    case False
    let ?w2 = "set_conn c (\<lambda>m. m\<lparr>mc_connfd := x_get_fd X (mc_biofd m) (sy_ext (snd w1))\<rparr>) w1"
    obtain rv w3 where 2: "start_client c ?w2 = Some (rv, w3)"
      and rest: "w' = w3 \<or> (\<exists>rv. sync_conn X c w3 = Some (rv, w'))"
      using rest False by (cases "start_client c ?w2") (auto simp: Let_def simp del: mqtt_err.simps split: if_splits bind_splits)
    have "fst w3 = fst w" using start_client_fst [OF 2] 1 by simp
    then show ?thesis using rest loop_kept_sync [OF laws] loop_kept_same [of w3 w] loop_kept_trans by blast
  qed
qed

lemma connected_kept:
  assumes "agent_laws X" and "connected X c w = Some (Return ok, w')"
  shows "loop_kept w w'"
proof -
  let ?w = "set_conn c (\<lambda>m. m\<lparr>mc_status := 1\<rparr>) w"
  have "set_timeout X 0 MQTT_SYN_T H_clttraffic (conn_ptr c) ?w = Some w'"
    using assms(2) by (auto simp: connected_def split: bind_splits)
  then show ?thesis using loop_kept_timeout [OF assms(1)] set_conn_kept loop_kept_trans by blast
qed

lemma check_mqrecv_kept:
  assumes laws: "agent_laws X" and ret: "check_mqrecv X w = Some (Return ok, w')"
  shows "loop_kept w w'"
proof (cases "mc_status (the_conn MQRECV w) = 0")
  case True
  with ret obtain ok1 w1 where 1: "open_client X MQRECV w = Some (Return ok1, w1)"
    and rest: "(if \<not> ok1 then Some (Return False, w1)
        else let (u, w) = do_ext (\<lambda>e. ((), x_sleep X 1000000 e)) w1
             in do {
               (rv, w) \<leftarrow> on_client MQRECV (\<lambda>cl. mqtt_subscribe cl (Some (mc_topicrecv (the_conn MQRECV w))) 0) w;
               connected X MQRECV w
             }) = Some (Return ok, w')"
    by (auto simp: check_mqrecv_def elim!: goE)
  note k = open_client_kept [OF laws 1]
  show ?thesis
  proof (cases ok1)
    case True
    obtain u w2 where sl: "do_ext (\<lambda>e. ((), x_sleep X 1000000 e)) w1 = (u, w2)" by (metis surj_pair)
    obtain rv w3 where sub: "on_client MQRECV (\<lambda>cl. mqtt_subscribe cl (Some (mc_topicrecv (the_conn MQRECV w2))) 0) w2 = Some (rv, w3)"
      and con: "connected X MQRECV w3 = Some (Return ok, w')"
      using rest True sl by (auto split: bind_splits)
    have "loop_kept w1 w3" using do_ext_fst [OF sl] on_client_fst [OF sub] by (simp add: loop_kept_same)
    then show ?thesis using k connected_kept [OF laws con] loop_kept_trans by blast
  qed (use rest k in simp)
qed (use ret in \<open>simp add: check_mqrecv_def loop_kept_same\<close>)

lemma check_mqupld_kept:
  assumes laws: "agent_laws X" and ret: "check_mqupld X w = Some (Return ok, w')"
  shows "loop_kept w w'"
proof (cases "mc_status (the_conn MQUPLD w) = 0")
  case True
  with ret obtain ok1 w1 where "open_client X MQUPLD w = Some (Return ok1, w1)"
    "w' = w1 \<or> connected X MQUPLD w1 = Some (Return ok, w')"
    by (auto simp: check_mqupld_def elim!: goE split: if_splits)
  then show ?thesis using open_client_kept [OF laws] connected_kept [OF laws] loop_kept_trans by blast
qed (use ret in \<open>simp add: check_mqupld_def loop_kept_same\<close>)

lemma set_agent_fst [simp]: "fst (set_agent f w) = fst w"
  by (cases w) (simp add: set_agent_def)

lemma check_agstatus_fst: "check_agstatus X w = Some (Return u, w') \<Longrightarrow> fst w' = fst w"
  by (auto simp: check_agstatus_def exit_link_returns dest: do_ext_fst split: if_splits prod.splits)

lemma chk_agstatm_checks:
  assumes laws: "agent_laws X" and ret: "chk_agstatm X w = Some (Return u, w')"
  shows "\<exists>w1. loop_kept w w1 \<and> set_timeout X SM_CHECK_T 0 H_agstatm agent_ptr w1 = Some w'"
proof -
  obtain ok1 w1 ok2 w2 u w3 where 1: "check_mqrecv X w = Some (Return ok1, w1)"
    and 2: "(if ok1 then check_mqupld X w1 else Some (Return False, w1)) = Some (Return ok2, w2)"
    and 3: "(if ok2 then check_agstatus X w2 else Some (Return (), w2)) = Some (Return u, w3)"
    and 4: "set_timeout X SM_CHECK_T 0 H_agstatm agent_ptr w3 = Some w'"
    using ret by (auto simp: chk_agstatm_def finish_def elim!: goE)
  have k1: "loop_kept w w1" using check_mqrecv_kept [OF laws 1] .
  have k2: "loop_kept w1 w2"
    using 2 check_mqupld_kept [OF laws] loop_kept_same [of w1 w1] by (cases ok1) auto
  have k3: "loop_kept w2 w3"
    using 3 check_agstatus_fst [of X w2 u w3] loop_kept_same [of w3 w2] by (cases ok2) auto
  show ?thesis using 4 loop_kept_trans [OF loop_kept_trans [OF k1 k2] k3] by blast
qed

subsection \<open>The other handlers\<close>

lemma traffic_kept:
  assumes laws: "agent_laws X" and ret: "ag_handle_clttraffic X c w = Some w'"
  shows "loop_kept w w'"
proof -
  obtain rv w1 where "sync_conn X c w = Some (rv, w1)"
    "close_conn X c w1 = Some w' \<or> set_timeout X 0 MQTT_SYN_T H_clttraffic (conn_ptr c) w1 = Some w'"
    using ret by (auto simp: ag_handle_clttraffic_def split: bind_splits if_splits)
  then show ?thesis
    using loop_kept_sync [OF laws] loop_kept_close [OF laws] loop_kept_timeout [OF laws] loop_kept_trans by blast
qed

lemma set_publish_kept:
  assumes laws: "agent_laws X" and ret: "eloop_set_publish X p w = Some w'"
  shows "loop_kept w w'"
proof -
  obtain pub where pub: "sy_pubs (snd w) p = Some pub" using ret by (auto simp: eloop_set_publish_def split: bind_splits)
  let ?c = "sp_conn pub"
  obtain rv w1 where 1: "on_client ?c (\<lambda>cl. mqtt_publish cl (Some (sp_topic_name pub)) (sp_application_message pub)
      (sp_application_message_size pub) (sp_publish_flags pub)) w = Some (rv, w1)"
    using ret by (auto simp: eloop_set_publish_def pub split: bind_splits)
  obtain w2 where c: "(if cl_error (client ?c w1) \<noteq> mqtt_err MQTT_OK then close_conn X ?c w1 else Some w1) = Some w2"
    and 3: "fst w' = fst w2"
    using ret 1 by (auto simp: eloop_set_publish_def pub simp del: mqtt_err.simps split: bind_splits)
  from c have 2: "close_conn X ?c w1 = Some w2 \<or> w2 = w1" by (simp split: if_splits)
  have k: "loop_kept w w1" using on_client_fst [OF 1] by (simp add: loop_kept_same)
  have "loop_kept w1 w2" using 2 loop_kept_close [OF laws] loop_kept_same [of w1 w1] by blast
  then show ?thesis using k loop_kept_same [OF 3] loop_kept_trans by blast
qed

lemma agent_timeout_kept:
  assumes laws: "agent_laws X" and ret: "agent_timeout X h d w = Some w'"
  shows "loop_kept w w'"
proof -
  consider c where "ag_handle_clttraffic X c w = Some w'" | u where "chk_agstatm X w = Some (Return u, w')"
    | "eloop_set_publish X d w = Some w'"
    using ret
    by (auto simp: agent_timeout_def returned_def eloop_set_exit_def exit_link_returns
        split: if_splits bind_splits option.splits outcome.splits)
  then show ?thesis
  proof cases
    case 2
    then show ?thesis using chk_agstatm_checks [OF laws] loop_kept_timeout [OF laws] loop_kept_trans by blast
  qed (use traffic_kept set_publish_kept laws in blast)+
qed

lemma send_frame_kept: "do_ext f w = (r, w') \<Longrightarrow> loop_kept w w'"
  using do_ext_fst loop_kept_same by metis

lemma cmd_stop_kept: "agent_laws X \<Longrightarrow> admlink_cmd_stop X w = Some (ok, w') \<Longrightarrow> loop_kept w w'"
  by (auto simp: admlink_cmd_stop_def split: bind_splits dest: loop_kept_timeout)

lemma cmd_sendtest_kept: "agent_laws X \<Longrightarrow> admlink_cmd_sendtest X w = Some (ok, w') \<Longrightarrow> loop_kept w w'"
  by (auto simp: admlink_cmd_sendtest_def Let_def msg_frame_def split: bind_splits
      intro!: loop_kept_publishes dest!: set_publish_frame)

lemma run_cmd_kept:
  assumes "\<And>name hdl w ok w'. (name, hdl) \<in> set tbl \<Longrightarrow> hdl w = Some (ok, w') \<Longrightarrow> R w w'"
    and "\<And>w. R w w" and "run_cmd tbl buf w = Some (r, w')"
  shows "R w w'"
  using assms(1,3)
proof (induction tbl)
  case (Cons e tbl)
  obtain name hdl where e: "e = (name, hdl)" by fastforce
  have hd: "hdl w = Some (ok, w') \<Longrightarrow> R w w'" for ok w' using Cons.prems(1) [of name hdl] by (simp add: e)
  have tl: "run_cmd tbl buf w = Some (r, w') \<Longrightarrow> R w w'" using Cons.IH Cons.prems(1) by (metis list.set_intros(2))
  from Cons.prems(2) hd tl show ?case by (auto simp: e split: if_splits bind_splits)
qed (use assms(2) in simp)

lemma cmd_handle_kept:
  assumes laws: "agent_laws X" and ret: "admlink_cmd_handle X buf w = Some (r, w')"
  shows "loop_kept w w'"
proof -
  obtain t w1 where t: "do_ext (x_time X) w = (t, w1)" by (metis surj_pair)
  let ?w = "set_agent (\<lambda>ag. ag\<lparr>ag_tinfo := Some t\<rparr>) w1"
  have run: "run_cmd (adlcmd_tbl X) buf ?w = Some (r, w')" using ret t by (simp add: admlink_cmd_handle_def)
  have "loop_kept v v'" if "(name, hdl) \<in> set (adlcmd_tbl X)" "hdl v = Some (ok, v')" for name hdl v ok v'
    using that cmd_stop_kept [OF laws, of v ok v'] cmd_sendtest_kept [OF laws, of v ok v'] by (auto simp: adlcmd_tbl_def)
  from run_cmd_kept [of _ loop_kept, OF this loop_kept_same run] have "loop_kept ?w w'" by simp
  moreover have "fst ?w = fst w" using do_ext_fst [OF t] by simp
  ultimately show ?thesis using loop_kept_same [of ?w w] loop_kept_trans by blast
qed

lemma ctrl_receive_kept:
  assumes laws: "agent_laws X" and ret: "admlink_ctrl_iface_receive X sock w = Some w'"
  shows "loop_kept w w'"
proof -
  obtain res w1 where r: "do_ext (x_recvfrom X sock 255) w = (res, w1)" by (metis surj_pair)
  have "w' = w1 \<or> (\<exists>buf reply w2. (w2 = w1 \<or> admlink_cmd_handle X buf w1 = Some (reply, w2)) \<and>
      w' = snd (do_ext (\<lambda>e. ((), x_sendto X sock reply e)) w2))"
    using ret r by (auto simp: admlink_ctrl_iface_receive_def split: option.splits bind_splits if_splits)
  moreover have "loop_kept w w1" using send_frame_kept [OF r] .
  moreover have "loop_kept w2 (snd (do_ext (\<lambda>e. ((), x_sendto X sock reply e)) w2))" for w2 reply
    using send_frame_kept [OF surjective_pairing] .
  ultimately show ?thesis using cmd_handle_kept [OF laws] loop_kept_trans by blast
qed

end
