(* ===== verification/Mqtt_Socket.thy ===== *)
theory Mqtt_Socket
  imports Mqtt_Sync
begin

text \<open>
  No operation of the MQTT client other than its initialisers changes the BIO it works on.
\<close>

lemma mutex_fd: "mutex_lock cl = Some cl' \<Longrightarrow> cl_socketfd cl' = cl_socketfd cl"
    "mutex_unlock cl = Some cl' \<Longrightarrow> cl_socketfd cl' = cl_socketfd cl"
    "release_mutex b cl = Some cl' \<Longrightarrow> cl_socketfd cl' = cl_socketfd cl"
  by (auto simp: mutex_lock_def mutex_unlock_def release_mutex_def split: if_splits)

subsection \<open>Requests\<close>

lemma try_pack_fd: "try_pack release pack cl = Some (rv, cl') \<Longrightarrow> cl_socketfd cl' = cl_socketfd cl"
  by (auto simp: try_pack_def try_pack_fail_def split: bind_splits if_splits dest!: mutex_fd)

lemma submit_fd: "submit release pack ctype pid cl = Some (rv, cl') \<Longrightarrow> cl_socketfd cl' = cl_socketfd cl"
  by (auto simp: submit_def split: bind_splits option.splits dest!: try_pack_fd mutex_fd)

lemma next_pid_fd: "mqtt_next_pid cl = Some (pid, cl') \<Longrightarrow> cl_socketfd cl' = cl_socketfd cl"
  by (auto simp: mqtt_next_pid_def split: bind_splits if_splits)

lemma request_fd:
  "mqtt_publish cl topic msg n flags = Some (rv, cl') \<Longrightarrow> cl_socketfd cl' = cl_socketfd cl"
  "mqtt_subscribe cl topic qos = Some (rv, cl') \<Longrightarrow> cl_socketfd cl' = cl_socketfd cl"
  "mqtt_disconnect cl = Some (rv, cl') \<Longrightarrow> cl_socketfd cl' = cl_socketfd cl"
  "mqtt_connect cl client_id wt wm n user pw flags ka = Some (rv, cl') \<Longrightarrow> cl_socketfd cl' = cl_socketfd cl"
  "mqtt_ping_locked cl = Some (rv, cl') \<Longrightarrow> cl_socketfd cl' = cl_socketfd cl"
  by (auto simp: mqtt_publish_def mqtt_subscribe_def mqtt_disconnect_def mqtt_connect_def mqtt_ping_locked_def Let_def
      split: bind_splits if_splits dest!: submit_fd next_pid_fd mutex_fd)

lemma reply_fd:
  "mqtt_puback cl pid = Some (rv, cl') \<Longrightarrow> cl_socketfd cl' = cl_socketfd cl"
  "mqtt_pubrec cl pid = Some (rv, cl') \<Longrightarrow> cl_socketfd cl' = cl_socketfd cl"
  "mqtt_pubrel cl pid = Some (rv, cl') \<Longrightarrow> cl_socketfd cl' = cl_socketfd cl"
  "mqtt_pubcomp cl pid = Some (rv, cl') \<Longrightarrow> cl_socketfd cl' = cl_socketfd cl"
  by (simp_all add: mqtt_puback_def mqtt_pubrec_def mqtt_pubrel_def mqtt_pubcomp_def submit_fd)

subsection \<open>Sending\<close>

lemma send_due_fd: "send_due env msg cl w = (b, cl', w') \<Longrightarrow> cl_socketfd cl' = cl_socketfd cl"
  by (auto simp: send_due_def split: if_splits prod.splits)

lemma send_message_fd:
  assumes ret: "send_message env i q cl w = Some (r, q', cl', w')"
  shows "cl_socketfd cl' = cl_socketfd cl"
proof -
  obtain b cl1 w1 where due: "send_due env (mq_queue (cl_mq cl) ! i) cl w = (b, cl1, w1)" by (metis prod_cases3)
  have "cl_socketfd cl' = cl_socketfd cl1"
    using ret due by (auto simp: send_message_def Let_def split: bind_splits if_splits option.splits prod.splits)
  with send_due_fd [OF due] show ?thesis by simp
qed

lemma send_loop_fd: "send_loop env is q cl w = Some (r, cl', w') \<Longrightarrow> cl_socketfd cl' = cl_socketfd cl"
  by (induction "is" arbitrary: q cl w) (auto split: bind_splits send_result.splits dest!: send_message_fd)

lemma keep_alive_check_fd: "keep_alive_check env cl w = Some (rv, cl', w') \<Longrightarrow> cl_socketfd cl' = cl_socketfd cl"
  by (auto simp: keep_alive_check_def Let_def split: prod.splits if_splits bind_splits dest!: request_fd)

lemma mqtt_send_fd: "mqtt_send env cl w = Some (rv, cl', w') \<Longrightarrow> cl_socketfd cl' = cl_socketfd cl"
  by (auto simp: mqtt_send_def split: bind_splits if_splits option.splits
      dest!: mutex_fd send_loop_fd keep_alive_check_fd)

subsection \<open>Receiving\<close>

lemma release_acked_fd: "release_acked env ctype pid cl w = Some (f, cl', w') \<Longrightarrow> cl_socketfd cl' = cl_socketfd cl"
  by (auto simp: release_acked_def Let_def split: bind_splits option.splits prod.splits)

lemma staged_fd: "staged (rv, cl) w = (rv', cl', w') \<Longrightarrow> cl_socketfd cl' = cl_socketfd cl"
  by (auto simp: staged_def split: if_splits)

lemma recv_branch_fd:
  "recv_connack env c cl w = Some (rv, cl', w') \<Longrightarrow> cl_socketfd cl' = cl_socketfd cl"
  "recv_ack env ctype x cl w = Some (rv, cl', w') \<Longrightarrow> cl_socketfd cl' = cl_socketfd cl"
  "recv_pubrec env pid cl w = Some (rv, cl', w') \<Longrightarrow> cl_socketfd cl' = cl_socketfd cl"
  "recv_pubrel env pid cl w = Some (rv, cl', w') \<Longrightarrow> cl_socketfd cl' = cl_socketfd cl"
  "recv_suback env mem s cl w = Some (rv, cl', w') \<Longrightarrow> cl_socketfd cl' = cl_socketfd cl"
  by (auto simp: recv_connack_def recv_ack_def recv_pubrec_def recv_pubrel_def recv_suback_def
      split: bind_splits if_splits dest!: release_acked_fd reply_fd staged_fd)

lemma recv_publish_fd: "recv_publish env mem p cl w = Some (rv, cl', w') \<Longrightarrow> cl_socketfd cl' = cl_socketfd cl"
  by (auto simp: recv_publish_def Let_def split: bind_splits if_splits prod.splits dest!: reply_fd staged_fd)

lemma handle_response_fd: "handle_response env r mem cl w = Some (rv, cl', w') \<Longrightarrow> cl_socketfd cl' = cl_socketfd cl"
  using recv_branch_fd recv_publish_fd
  by (auto simp: handle_response_def split: MQTTControlPacketType.splits mqtt_decoded.splits)

lemma recv_one_fd: "recv_one env r cl w = Some (ret, r', cl', w') \<Longrightarrow> cl_socketfd cl' = cl_socketfd cl"
  by (auto simp: recv_one_def Let_def split: bind_splits if_splits dest!: handle_response_fd)

lemma recv_loop_fd:
  assumes ret: "recv_loop env r cl w = Some (rv, cl', w')"
  shows "cl_socketfd cl' = cl_socketfd cl"
proof -
  have "cl_socketfd (fst (snd (rv, cl', w'))) = cl_socketfd cl"
  proof (rule recv_loop.raw_induct [where P = "\<lambda>e r cl w x. cl_socketfd (fst (snd x)) = cl_socketfd cl", OF _ ret])
    fix f and e :: "'a mqtt_env" and r cl w x
    assume IH: "\<And>e r cl w x. f e r cl w = Some x \<Longrightarrow> cl_socketfd (fst (snd x)) = cl_socketfd cl"
      and body: "recv_one e r cl w \<bind> (\<lambda>(ret, r, cl, w).
        case ret of None \<Rightarrow> f e r cl w | Some rv \<Rightarrow> Some (rv, cl, w)) = Some x"
    obtain ret r1 cl1 w1 where one: "recv_one e r cl w = Some (ret, r1, cl1, w1)"
      and rest: "f e r1 cl1 w1 = Some x \<or> fst (snd x) = cl1"
      using body by (auto split: bind_splits option.splits)
    from rest show "cl_socketfd (fst (snd x)) = cl_socketfd cl"
      using recv_one_fd [OF one] IH [of e r1 cl1 w1 x] by auto
  qed
  then show ?thesis by simp
qed

lemma mqtt_recv_fd: "mqtt_recv env r cl w = Some (rv, cl', w') \<Longrightarrow> cl_socketfd cl' = cl_socketfd cl"
  by (auto simp: mqtt_recv_def split: bind_splits dest!: mutex_fd recv_loop_fd)

text \<open>A client whose callbacks do not run.\<close>

lemma mqtt_sync_fd:
  assumes ret: "mqtt_sync env inspector reconnect r cl w = Some (rv, cl', w')"
    and none: "\<And>cb cl w. inspector cb cl w = None" "\<And>cb cl w. reconnect cb cl w = None"
  shows "cl_socketfd cl' = cl_socketfd cl"
proof -
  obtain cl0 where l: "mutex_lock cl = Some cl0" using ret by (auto simp: mqtt_sync_def split: bind_splits)
  obtain b cl1 w1 where st': "sync_start reconnect cl0 w = Some (b, cl1, w1)"
    using ret l by (auto simp: mqtt_sync_def split: bind_splits)
  have "w1 = w \<and> cl_socketfd cl1 = cl_socketfd cl0"
    using st' none by (auto simp: sync_start_def Let_def split: bind_splits if_splits dest!: mutex_fd)
  with st' have st: "sync_start reconnect cl0 w = Some (b, cl1, w)" and fd: "cl_socketfd cl1 = cl_socketfd cl0" by auto
  have insp: "sync_inspect inspector cl1 w = Some (mqtt_err MQTT_OK, cl1, w)"
    using ret l st none by (auto simp: mqtt_sync_def sync_inspect_def split: bind_splits if_splits option.splits)
  obtain err cl2 w2 where rv: "mqtt_recv env r cl1 w = Some (err, cl2, w2)"
    using ret l st insp by (auto simp: mqtt_sync_def split: bind_splits)
  have "cl' = cl2 \<or> (\<exists>rv1 w3. mqtt_send env cl2 w2 = Some (rv1, cl', w3))"
    using ret l st insp rv none by (auto simp: mqtt_sync_def sync_finish_def split: bind_splits if_splits)
  with mqtt_recv_fd [OF rv] fd mutex_fd(1) [OF l] show ?thesis by (auto dest: mqtt_send_fd)
qed

end
