(* ===== verification/Eloop_World.thy ===== *)
theory Eloop_World
  imports Eloop
begin

text \<open>
  What the event loop leaves of the program around it: a predicate of the program's state that the
  outside world and every handler keep holds as long as the loop runs. The locale \<open>loop_world\<close> is this
  contract; the agent interprets it with its own invariant.
\<close>

text \<open>\<open>n\<close> passes of the loop; \<open>False\<close> in the result when it has ended before.\<close>

fun run_passes :: "'w eloop_env \<Rightarrow> nat \<Rightarrow> eloop_data \<Rightarrow> 'w \<Rightarrow> (bool \<times> eloop_data \<times> 'w) option" where
  "run_passes env 0 el w = Some (True, el, w)"
| "run_passes env (Suc n) el w =
     (if \<not> el_terminate el \<and> (el_timeout el \<noteq> 0 \<or> el_readers el \<noteq> []) then do {
        (go, el, w) \<leftarrow> run_pass env el w;
        if go then run_passes env n el w else Some (False, el, w)
      } else Some (False, el, w))"

text \<open>The passes are those of \<open>eloop_run\<close>.\<close>

lemma run_loop_passes:
  "run_passes env n el w = Some (b, el', w') \<Longrightarrow> run_loop env el w = (if b then run_loop env el' w' else Some (el', w'))"
proof (induction n arbitrary: el w)
  case (Suc n)
  then show ?case by (subst run_loop.simps) (auto split: bind_splits if_splits)
qed simp

locale loop_world =
  fixes env :: "'w eloop_env"
    and I :: "'w \<Rightarrow> bool"
  assumes keeps_clock: "I w \<Longrightarrow> I (snd (clock_gettime env w))"
    and keeps_select: "I w \<Longrightarrow> I (snd (select_read env n socks tv w))"
    and keeps_signal: "I w \<Longrightarrow> I (install_signal env sig w)"
    and keeps_alarm: "I w \<Longrightarrow> I (set_alarm env secs w)"
    and keeps_timeout: "I w \<Longrightarrow> timeout_handler env h d u el w = Some (el', w') \<Longrightarrow> I w'"
    and keeps_reader: "I w \<Longrightarrow> read_handler env h sock d u el w = Some (el', w') \<Longrightarrow> I w'"
    and keeps_handler: "I w \<Longrightarrow> signal_handler env h sig d u el w = Some (el', w') \<Longrightarrow> I w'"
begin

lemma now: "I w \<Longrightarrow> xgettimeofday env w = (t, w') \<Longrightarrow> I w'"
  using keeps_clock [of w] by (auto simp: xgettimeofday_def split: prod.splits)

lemma wait: "I w \<Longrightarrow> wait_time env el w = Some (tv, w') \<Longrightarrow> I w'"
  by (auto simp: wait_time_def dest: now split: if_splits prod.splits bind_splits)

lemma handle_signal: "I w \<Longrightarrow> eloop_handle_signal env sig el w = Some (el', w') \<Longrightarrow> I w'"
  using keeps_signal keeps_alarm by (auto simp: eloop_handle_signal_def Let_def split: if_splits)

lemma take: "I w \<Longrightarrow> take_signals env sigs el w = Some (el', w') \<Longrightarrow> I w'"
  by (induction sigs arbitrary: el w) (auto split: bind_splits dest: handle_signal)

lemma signals: "signal_loop env i el w = Some (el', w') \<Longrightarrow> I w \<Longrightarrow> I w'"
proof -
  assume ret: "signal_loop env i el w = Some (el', w')" and w: "I w"
  have "env = env \<longrightarrow> I w \<longrightarrow> I (snd (el', w'))"
  proof (rule signal_loop.raw_induct [where P = "\<lambda>e i el w r. e = env \<longrightarrow> I w \<longrightarrow> I (snd r)", OF _ ret])
    fix f e i el w r
    assume IH: "\<And>e i el w r. f e i el w = Some r \<Longrightarrow> e = env \<longrightarrow> I w \<longrightarrow> I (snd r)"
      and body: "(if i \<ge> length (el_signals el) then Some (el, w)
      else if el_freed el then None
      else let s = el_signals el ! i
           in if sg_signaled s \<noteq> 0 then do {
                (el, w) \<leftarrow> signal_handler e (sg_handler s) (sg_sig s) (el_user_data el) (sg_user_data s)
                  (el\<lparr>el_signals := (el_signals el)[i := s\<lparr>sg_signaled := 0\<rparr>]\<rparr>) w;
                f e (i + 1) el w
              } else f e (i + 1) el w) = Some r"
    show "e = env \<longrightarrow> I w \<longrightarrow> I (snd r)"
      using body by (auto simp: Let_def split: if_splits bind_splits dest!: IH keeps_handler [rotated])
  qed
  with w show ?thesis by simp
qed

lemma process_signals: "I w \<Longrightarrow> eloop_process_pending_signals env el w = Some (el', w') \<Longrightarrow> I w'"
  using keeps_alarm
  by (auto simp: eloop_process_pending_signals_def Let_def split: if_splits dest!: signals)

lemma timeout: "I w \<Longrightarrow> run_due_timeout env el w = Some (el', w') \<Longrightarrow> I w'"
  by (auto simp: run_due_timeout_def Let_def split: if_splits prod.splits bind_splits dest: now dest!: keeps_timeout [rotated])

lemma readers: "reader_loop env ready i el w = Some (el', w') \<Longrightarrow> I w \<Longrightarrow> I w'"
proof -
  assume ret: "reader_loop env ready i el w = Some (el', w')" and w: "I w"
  have "env = env \<longrightarrow> I w \<longrightarrow> I (snd (el', w'))"
  proof (rule reader_loop.raw_induct [where P = "\<lambda>e ready i el w r. e = env \<longrightarrow> I w \<longrightarrow> I (snd r)", OF _ ret])
    fix f e ready i el w r
    assume IH: "\<And>e ready i el w r. f e ready i el w = Some r \<Longrightarrow> e = env \<longrightarrow> I w \<longrightarrow> I (snd r)"
      and body: "(if i \<ge> length (el_readers el) then Some (el, w)
      else if el_freed el then None
      else let r = el_readers el ! i
           in if es_sock r < 0 \<or> es_sock r \<ge> FD_SETSIZE then None
              else if es_sock r \<in> set ready then do {
                (el, w) \<leftarrow> read_handler e (es_handler r) (es_sock r) (es_eloop_data r) (es_user_data r) el w;
                if el_reader_table_changed el then Some (el, w)
                else f e ready (i + 1) el w
              } else f e ready (i + 1) el w) = Some r"
    show "e = env \<longrightarrow> I w \<longrightarrow> I (snd r)"
      using body by (auto simp: Let_def split: if_splits bind_splits dest!: IH keeps_reader [rotated])
  qed
  with w show ?thesis by simp
qed

lemma pass:
  assumes w: "I w" and ret: "run_pass env el w = Some (b, el', w')"
  shows "I w'"
proof -
  let ?socks = "map es_sock (el_readers el)"
  obtain tv w1 where 1: "wait_time env el w = Some (tv, w1)" using ret by (auto simp: run_pass_def split: bind_splits)
  obtain res eintr ready sigs w2 where 2: "select_read env (el_max_sock el + 1) ?socks tv w1 = ((res, eintr, ready, sigs), w2)"
    by (metis surj_pair)
  obtain el3 w3 where 3: "take_signals env sigs el w2 = Some (el3, w3)"
    using ret 1 2 by (auto simp: run_pass_def Let_def split: bind_splits if_splits)
  have I3: "I w3" using take [OF _ 3] keeps_select [OF wait [OF w 1], of "el_max_sock el + 1" ?socks tv] 2 by simp
  have "w' = w3 \<or> (\<exists>el4 w4 el5 w5. eloop_process_pending_signals env el3 w3 = Some (el4, w4) \<and>
      run_due_timeout env el4 w4 = Some (el5, w5) \<and> (w' = w5 \<or> (\<exists>el6 el7. reader_loop env ready 0 el6 w5 = Some (el7, w'))))"
    using ret 1 2 3 by (auto simp: run_pass_def Let_def split: bind_splits if_splits)
  with I3 show ?thesis using process_signals timeout readers by blast
qed

lemma passes: "I w \<Longrightarrow> run_passes env n el w = Some (b, el', w') \<Longrightarrow> I w'"
  by (induction n arbitrary: el w) (auto split: bind_splits if_splits dest: pass)

end

end
