(* ===== verification/Agent_Conns.thy ===== *)
theory Agent_Conns
  imports Agent_Loop Mqtt_Socket Eloop_World
begin

text \<open>
  The invariant of the two connections, which every handler keeps and which therefore holds as long as
  the event loop runs: a BIO that a connection refers to is open, no two connections share one, and the
  MQTT client of an established connection works on the BIO of its connection.
\<close>

subsection \<open>The invariant\<close>

definition conn_ok :: "conn_id \<Rightarrow> 'e world \<Rightarrow> bool" where
  "conn_ok c w \<longleftrightarrow> mc_status (the_conn c w) \<in> {0, 1} \<and>
     (mc_biofd (the_conn c w) \<noteq> 0 \<longrightarrow> mc_biofd (the_conn c w) \<in> sy_bios (snd w)) \<and>
     (mc_status (the_conn c w) = 1 \<longrightarrow> mc_biofd (the_conn c w) \<noteq> 0 \<and>
        cl_socketfd (mc_mqclt (the_conn c w)) = mc_biofd (the_conn c w))"

definition conns_ok :: "'e world \<Rightarrow> bool" where
  "conns_ok w \<longleftrightarrow> conn_ok MQRECV w \<and> conn_ok MQUPLD w \<and>
     (mc_biofd (the_conn MQRECV w) \<noteq> 0 \<longrightarrow> mc_biofd (the_conn MQRECV w) \<noteq> mc_biofd (the_conn MQUPLD w))"

lemma conns_ok_split:
  "conns_ok w \<longleftrightarrow> conn_ok c w \<and> conn_ok (other c) w \<and>
     (mc_biofd (the_conn c w) \<noteq> 0 \<longrightarrow> mc_biofd (the_conn c w) \<noteq> mc_biofd (the_conn (other c) w))"
  by (cases c) (auto simp: conns_ok_def other_def)

text \<open>What the invariant looks at; frames that leave it alone.\<close>

lemma conns_ok_same:
  assumes "\<And>c. the_conn c w' = the_conn c w" and "sy_bios (snd w') = sy_bios (snd w)"
  shows "conns_ok w' = conns_ok w"
  using assms by (simp add: conns_ok_def conn_ok_def)

lemma conns_ok_same_sys: "same_sys (snd w) (snd w') \<Longrightarrow> conns_ok w' = conns_ok w"
  by (rule conns_ok_same) (simp_all add: same_sys_conn)

lemma conns_ok_fst: "conns_ok (el, s) = conns_ok (el', s)"
  by (rule conns_ok_same) (simp_all add: the_conn_def)

lemma conns_ok_do_ext: "do_ext f w = (r, w') \<Longrightarrow> conns_ok w' = conns_ok w"
  using do_ext_same conns_ok_same_sys by metis

lemma conns_ok_timeout:
  assumes "set_timeout X secs usecs h d w = Some w'"
  shows "conns_ok w' = conns_ok w"
  using set_timeout_sys [of X secs usecs h d "fst w" "snd w" "fst w'" "snd w'"] assms conns_ok_same_sys by simp

lemma msg_frame_conn: "msg_frame w w' \<Longrightarrow> the_conn c w' = the_conn c w"
  by (cases c) (auto simp: msg_frame_def the_conn_def)

lemma conns_ok_msg: "msg_frame w w' \<Longrightarrow> conns_ok w' = conns_ok w"
  by (rule conns_ok_same) (simp_all add: msg_frame_conn, simp add: msg_frame_def)

text \<open>Another client for a connection, which works on the same BIO.\<close>

lemma set_client_conn [simp]: "the_conn c (set_client c cl w) = (the_conn c w)\<lparr>mc_mqclt := cl\<rparr>"
  "the_conn (other c) (set_client c cl w) = the_conn (other c) w" "sy_bios (snd (set_client c cl w)) = sy_bios (snd w)"
  by (cases w; cases c; simp add: the_conn_def set_client_def other_def)+

lemma client_the_conn: "client c w = mc_mqclt (the_conn c w)"
  by (simp add: client_def the_conn_def)

lemma conns_ok_set_client:
  assumes "cl_socketfd cl = cl_socketfd (client c w)"
  shows "conns_ok (set_client c cl w) = conns_ok w"
  using assms by (simp add: conns_ok_split [of _ c] conn_ok_def client_the_conn)

lemma client_set_client [simp]: "client c (set_client c cl w) = cl"
  by (simp add: client_the_conn)

text \<open>Steps that keep the BIO of the client: requests and synchronising.\<close>

definition keeps_conn :: "conn_id \<Rightarrow> 'e world \<Rightarrow> 'e world \<Rightarrow> bool" where
  "keeps_conn c w w' \<longleftrightarrow> sy_bios (snd w') = sy_bios (snd w) \<and> the_conn (other c) w' = the_conn (other c) w \<and>
     (\<exists>cl. the_conn c w' = (the_conn c w)\<lparr>mc_mqclt := cl\<rparr> \<and> cl_socketfd cl = cl_socketfd (client c w))"

lemma keeps_conn_ok:
  assumes "keeps_conn c w w'"
  shows "conns_ok w' = conns_ok w"
proof -
  obtain cl where "sy_bios (snd w') = sy_bios (snd w)" "the_conn (other c) w' = the_conn (other c) w"
    "the_conn c w' = (the_conn c w)\<lparr>mc_mqclt := cl\<rparr>" "cl_socketfd cl = cl_socketfd (mc_mqclt (the_conn c w))"
    using assms unfolding keeps_conn_def client_the_conn by blast
  then show ?thesis by (simp add: conns_ok_split [of _ c] conn_ok_def)
qed

lemma keeps_conn_trans: "keeps_conn c w1 w2 \<Longrightarrow> keeps_conn c w2 w3 \<Longrightarrow> keeps_conn c w1 w3"
  by (auto simp: keeps_conn_def client_the_conn)

lemma keeps_conn_same: "same_sys (snd w) (snd w') \<Longrightarrow> keeps_conn c w w'"
  using same_sys_conn [of w w']
  by (auto simp: keeps_conn_def client_the_conn intro!: exI [of _ "mc_mqclt (the_conn c w)"])

lemma on_client_keeps:
  assumes "on_client c f w = Some (rv, w')"
    and "\<And>cl'. f (client c w) = Some (rv, cl') \<Longrightarrow> cl_socketfd cl' = cl_socketfd (client c w)"
  shows "keeps_conn c w w'"
  using assms by (auto simp: on_client_def keeps_conn_def split: bind_splits)

lemma sync_conn_keeps:
  assumes laws: "agent_laws X" and ret: "sync_conn X c w = Some (rv, w')"
  shows "keeps_conn c w w'"
proof -
  obtain cl w1 where sync: "mqtt_sync (sync_env X) (\<lambda>cb cl w. None) (\<lambda>cb cl w. None) (x_stack X) (client c w) (Some w) =
      Some (rv, cl, Some w1)" and w': "w' = set_client c cl w1"
    using ret by (auto simp: sync_conn_def split: bind_splits)
  have fr: "msg_frame w w1" using sw.sync [OF sync] laws by (auto simp: sync_frame_def)
  then show ?thesis using mqtt_sync_fd [OF sync] w' msg_frame_conn [OF fr]
    by (auto simp: keeps_conn_def msg_frame_def)
qed

text \<open>A BIO that is not open cannot be synchronised.\<close>

lemma closed_bio_undefined:
  assumes "cl_socketfd (client c w) \<notin> sy_bios (snd w)"
  shows "sync_conn X c w = None"
proof (rule ccontr)
  assume "sync_conn X c w \<noteq> None"
  then obtain rv cl w1 where "mqtt_sync (sync_env X) (\<lambda>cb cl w. None) (\<lambda>cb cl w. None) (x_stack X) (client c w) (Some w) =
      Some (rv, cl, Some w1)" by (auto simp: sync_conn_def split: bind_splits)
  from sw.sync_first [OF this] obtain n where
    "sync_frame X (snd (bio_read (sync_env X) (cl_socketfd (client c w)) n (Some w))) (Some w1)" by auto
  then show False using assms by (cases w) (auto simp: sync_env_def on_bio_def sync_frame_def)
qed

subsection \<open>Closing and opening\<close>

lemma close_conns_ok:
  assumes laws: "agent_laws X" and ok: "conns_ok w" and ret: "close_conn X c w = Some w'"
  shows "conns_ok w'"
  using close_conn_law [OF laws ret] ok by (auto simp: conns_ok_split [of _ c] conn_ok_def)

lemma keeps_conn_refl [simp]: "keeps_conn c w w"
  by (simp add: keeps_conn_same)

lemma close_loop_keeps:
  assumes laws: "agent_laws X" and ret: "close_loop X c trys w = Some w'"
  shows "keeps_conn c w w'"
proof (rule close_loop_steps [where R = "keeps_conn c", OF _ _ _ _ _ ret])
  fix w rv w' assume "on_client c mqtt_disconnect w = Some (rv, w')"
  then show "keeps_conn c w w'" by (rule on_client_keeps) (auto dest: request_fd)
next
  fix w u w' assume "do_ext (\<lambda>e. ((), x_sleep X 100000 e)) w = (u, w')"
  then have "same_sys (snd w) (snd w')" by (simp add: do_ext_same)
  then show "keeps_conn c w w'" by (rule keeps_conn_same)
qed (auto intro: keeps_conn_trans sync_conn_keeps [OF laws])

lemma close_conn_client:
  assumes laws: "agent_laws X" and ret: "close_conn X c w = Some w'"
  shows "cl_socketfd (client c w') = cl_socketfd (client c w)"
proof (cases "mc_biofd (the_conn c w) = 0")
  case True
  with ret show ?thesis by (auto simp: close_conn_def client_the_conn)
next
  case False
  obtain el s where loop: "close_loop X c 0 w = Some (el, s)"
    and w': "w' = set_conn c (\<lambda>m. m\<lparr>mc_connfd := 0, mc_status := 0\<rparr>) (set_conn c (\<lambda>m. m\<lparr>mc_biofd := 0, mc_ssl_ctx := 0\<rparr>)
      (el, s\<lparr>sy_bios := sy_bios s - {mc_biofd (the_conn c (el, s))}\<rparr>))"
    by (rule close_conn_open [OF ret False])
  have "the_conn c (el, s\<lparr>sy_bios := B\<rparr>) = the_conn c (el, s)" for B by (simp add: the_conn_def)
  with close_loop_keeps [OF laws loop] w' show ?thesis by (auto simp: keeps_conn_def client_the_conn)
qed

text \<open>A timer that is still pending when an established connection is closed uses the freed BIO.\<close>

lemma closed_conn_undefined:
  assumes laws: "agent_laws X" and ok: "conns_ok w" and st: "mc_status (the_conn c w) = 1"
    and ret: "close_conn X c w = Some w'"
  shows "sync_conn X c w' = None"
proof (rule closed_bio_undefined)
  have "mc_biofd (the_conn c w) \<noteq> 0" "cl_socketfd (client c w) = mc_biofd (the_conn c w)"
    using ok st by (auto simp: conns_ok_split [of _ c] conn_ok_def client_the_conn)
  with close_conn_law [OF laws ret] close_conn_client [OF laws ret]
  show "cl_socketfd (client c w') \<notin> sy_bios (snd w')" by simp
qed

lemma open_conns_ok:
  assumes laws: "agent_laws X" and ok: "conns_ok w" and st: "mc_status (the_conn c w) = 0"
    and ret: "open_nb_socket X c w = Some (Return u, w')"
  shows "conns_ok w' \<and> mc_status (the_conn c w') = 0"
proof -
  obtain fd where fresh: "fd \<notin> sy_bios (snd w)"
    and opened: "mc_biofd (the_conn c w') = fd \<and> fd \<noteq> 0 \<and> sy_bios (snd w') = insert fd (sy_bios (snd w)) \<or>
     mc_biofd (the_conn c w') = 0 \<and> sy_bios (snd w') = sy_bios (snd w) - {fd}"
    and rest: "mc_status (the_conn c w') = mc_status (the_conn c w)" "the_conn (other c) w' = the_conn (other c) w"
    using open_nb_socket_law [OF ret] laws by auto
  have oth: "mc_biofd (the_conn (other c) w) \<noteq> 0 \<longrightarrow> mc_biofd (the_conn (other c) w) \<in> sy_bios (snd w)"
    and oth1: "conn_ok (other c) w" using ok by (simp_all add: conns_ok_split [of _ c] conn_ok_def Let_def)
  from opened show ?thesis
  proof
    assume o: "mc_biofd (the_conn c w') = fd \<and> fd \<noteq> 0 \<and> sy_bios (snd w') = insert fd (sy_bios (snd w))"
    then have "fd \<noteq> mc_biofd (the_conn (other c) w)" using fresh oth by metis
    with o oth1 st rest show ?thesis by (auto simp: conns_ok_split [of _ c] conn_ok_def Let_def)
  next
    assume o: "mc_biofd (the_conn c w') = 0 \<and> sy_bios (snd w') = sy_bios (snd w) - {fd}"
    then have "sy_bios (snd w') = sy_bios (snd w)" using fresh by auto
    with o oth1 st rest show ?thesis by (auto simp: conns_ok_split [of _ c] conn_ok_def Let_def)
  qed
qed

lemma start_client_keeps:
  assumes "start_client c w = Some (rv, w')"
  shows "sy_bios (snd w') = sy_bios (snd w) \<and> the_conn (other c) w' = the_conn (other c) w \<and>
    (\<exists>cl. the_conn c w' = (the_conn c w)\<lparr>mc_mqclt := cl\<rparr> \<and> cl_socketfd cl = mc_biofd (the_conn c w))"
proof -
  let ?m = "the_conn c w"
  obtain cl where cl: "snd (mqtt_init (Some (mc_mqclt ?m)) (mc_biofd ?m) (Some (conn_sendbuf ?m)) (Some (conn_recvbuf ?m)) 1) = Some cl"
    and con: "on_client c (\<lambda>cl. mqtt_connect cl (Some (mc_cltid ?m)) None None 0 None None MQTT_CONNECT_CLEAN_SESSION 60)
       (set_client c cl w) = Some (rv, w')"
    using assms by (auto simp: start_client_def Let_def split: bind_splits)
  have fd: "cl_socketfd cl = mc_biofd ?m" using cl by (auto simp: mqtt_init_def)
  have "keeps_conn c (set_client c cl w) w'" by (rule on_client_keeps [OF con]) (auto dest: request_fd)
  then show ?thesis using fd by (auto simp: keeps_conn_def client_the_conn)
qed

subsection \<open>The handlers\<close>

text \<open>A connection whose client works on its BIO, ready to be marked as established.\<close>

definition conn_ready :: "conn_id \<Rightarrow> 'e world \<Rightarrow> bool" where
  "conn_ready c w \<longleftrightarrow> mc_biofd (the_conn c w) \<noteq> 0 \<and> cl_socketfd (client c w) = mc_biofd (the_conn c w)"

lemma ready_keeps: "keeps_conn c w w' \<Longrightarrow> conn_ready c w' = conn_ready c w"
  by (auto simp: keeps_conn_def conn_ready_def client_the_conn)

lemma open_client_conns:
  assumes laws: "agent_laws X" and ok: "conns_ok w" and st: "mc_status (the_conn c w) = 0"
    and ret: "open_client X c w = Some (Return b, w')"
  shows "conns_ok w' \<and> (b \<longrightarrow> conn_ready c w')"
proof -
  obtain u w1 where o: "open_nb_socket X c w = Some (Return u, w1)"
    and rest: "(if mc_biofd (the_conn c w1) = 0 then Some (Return False, w1)
     else do {
       let w = set_conn c (\<lambda>m. m\<lparr>mc_connfd := x_get_fd X (mc_biofd m) (sy_ext (snd w1))\<rparr>) w1;
       (rv, w) \<leftarrow> start_client c w;
       if cl_error (client c w) \<noteq> mqtt_err MQTT_OK then Some (Return False, w)
       else do {
         (rv, w) \<leftarrow> sync_conn X c w;
         Some (Return (rv = mqtt_err MQTT_OK), w)
       }
     }) = Some (Return b, w')"
    using ret by (auto simp: open_client_def elim!: goE)
  have 1: "conns_ok w1" "mc_status (the_conn c w1) = 0" using open_conns_ok [OF laws ok st o] by auto
  show ?thesis
  proof (cases "mc_biofd (the_conn c w1) = 0")
    case True
    then show ?thesis using rest 1 by simp
  next
    case False
    let ?w2 = "set_conn c (\<lambda>m. m\<lparr>mc_connfd := x_get_fd X (mc_biofd m) (sy_ext (snd w1))\<rparr>) w1"
    have 2: "conns_ok ?w2" using 1 by (simp add: conns_ok_split [of _ c] conn_ok_def)
    obtain rv w3 where st: "start_client c ?w2 = Some (rv, w3)"
      and rest: "b = False \<and> w' = w3 \<or> (\<exists>rv. sync_conn X c w3 = Some (rv, w'))"
      using rest False by (cases "start_client c ?w2") (auto simp: Let_def simp del: mqtt_err.simps split: if_splits bind_splits)
    obtain cl where cl: "sy_bios (snd w3) = sy_bios (snd ?w2)" "the_conn (other c) w3 = the_conn (other c) ?w2"
      "the_conn c w3 = (the_conn c ?w2)\<lparr>mc_mqclt := cl\<rparr>" "cl_socketfd cl = mc_biofd (the_conn c ?w2)"
      using start_client_keeps [OF st] by blast
    have 3: "conns_ok w3 \<and> conn_ready c w3"
      using cl 1 False by (simp add: conns_ok_split [of _ c] conn_ok_def conn_ready_def client_the_conn)
    show ?thesis using rest 3 sync_conn_keeps [OF laws] keeps_conn_ok ready_keeps by blast
  qed
qed

lemma connected_conns:
  assumes "conns_ok w" and "conn_ready c w" and "connected X c w = Some (Return b, w')"
  shows "conns_ok w'"
proof -
  let ?w = "set_conn c (\<lambda>m. m\<lparr>mc_status := 1\<rparr>) w"
  have "conns_ok ?w" using assms(1,2) by (auto simp: conns_ok_split [of _ c] conn_ok_def conn_ready_def client_the_conn)
  then show ?thesis using assms(3) conns_ok_timeout [of X 0 MQTT_SYN_T H_clttraffic "conn_ptr c" ?w w']
    by (auto simp: connected_def split: bind_splits)
qed

lemma check_mqrecv_conns:
  assumes laws: "agent_laws X" and ok: "conns_ok w" and ret: "check_mqrecv X w = Some (Return b, w')"
  shows "conns_ok w'"
proof (cases "mc_status (the_conn MQRECV w) = 0")
  case True
  with ret obtain b1 w1 where 1: "open_client X MQRECV w = Some (Return b1, w1)"
    and rest: "(if \<not> b1 then Some (Return False, w1)
        else let (u, w) = do_ext (\<lambda>e. ((), x_sleep X 1000000 e)) w1
             in do {
               (rv, w) \<leftarrow> on_client MQRECV (\<lambda>cl. mqtt_subscribe cl (Some (mc_topicrecv (the_conn MQRECV w))) 0) w;
               connected X MQRECV w
             }) = Some (Return b, w')"
    by (auto simp: check_mqrecv_def elim!: goE)
  note k = open_client_conns [OF laws ok True 1]
  show ?thesis
  proof (cases b1)
    case True
    obtain u w2 where sl: "do_ext (\<lambda>e. ((), x_sleep X 1000000 e)) w1 = (u, w2)" by (metis surj_pair)
    obtain rv w3 where sub: "on_client MQRECV (\<lambda>cl. mqtt_subscribe cl (Some (mc_topicrecv (the_conn MQRECV w2))) 0) w2 = Some (rv, w3)"
      and con: "connected X MQRECV w3 = Some (Return b, w')"
      using rest True sl by (auto split: bind_splits)
    have "keeps_conn MQRECV w1 w2" using do_ext_same [OF sl] keeps_conn_same [of w1 w2] by blast
    moreover have "keeps_conn MQRECV w2 w3" by (rule on_client_keeps [OF sub]) (auto dest: request_fd)
    ultimately have "keeps_conn MQRECV w1 w3" by (rule keeps_conn_trans)
    then show ?thesis using k True connected_conns [OF _ _ con] keeps_conn_ok ready_keeps by blast
  qed (use rest k in simp)
qed (use ret ok in \<open>simp add: check_mqrecv_def\<close>)

lemma check_mqupld_conns:
  assumes laws: "agent_laws X" and ok: "conns_ok w" and ret: "check_mqupld X w = Some (Return b, w')"
  shows "conns_ok w'"
proof (cases "mc_status (the_conn MQUPLD w) = 0")
  case True
  with ret obtain b1 w1 where "open_client X MQUPLD w = Some (Return b1, w1)"
    "w' = w1 \<or> (b1 \<and> connected X MQUPLD w1 = Some (Return b, w'))"
    by (auto simp: check_mqupld_def elim!: goE split: if_splits)
  then show ?thesis using open_client_conns [OF laws ok True] connected_conns by blast
qed (use ret ok in \<open>simp add: check_mqupld_def\<close>)

lemma set_agent_conns:
  assumes "\<And>ag. ag_mqrecv (f ag) = ag_mqrecv ag \<and> ag_mqupld (f ag) = ag_mqupld ag"
  shows "conns_ok (set_agent f w) = conns_ok w"
proof (rule conns_ok_same)
  fix c show "the_conn c (set_agent f w) = the_conn c w"
    using assms by (cases w; cases c) (simp_all add: set_agent_def the_conn_def)
qed (cases w, simp add: set_agent_def)

lemma check_agstatus_conns:
  assumes ok: "conns_ok w" and ret: "check_agstatus X w = Some (Return u, w')"
  shows "conns_ok w'"
proof -
  obtain t w1 where t: "do_ext (x_time X) w = (t, w1)" by (metis surj_pair)
  from ret t have "w' = set_agent (\<lambda>ag. ag\<lparr>ag_tinfo := Some t, ag_agstatus := isOk\<rparr>) w1"
    by (auto simp: check_agstatus_def exit_link_returns split: if_splits)
  then show ?thesis using ok conns_ok_do_ext [OF t] by (simp add: set_agent_conns)
qed

lemma chk_agstatm_conns:
  assumes laws: "agent_laws X" and ok: "conns_ok w" and ret: "chk_agstatm X w = Some (Return u, w')"
  shows "conns_ok w'"
proof -
  obtain b1 w1 b2 w2 u w3 where 1: "check_mqrecv X w = Some (Return b1, w1)"
    and 2: "(if b1 then check_mqupld X w1 else Some (Return False, w1)) = Some (Return b2, w2)"
    and 3: "(if b2 then check_agstatus X w2 else Some (Return (), w2)) = Some (Return u, w3)"
    and 4: "set_timeout X SM_CHECK_T 0 H_agstatm agent_ptr w3 = Some w'"
    using ret by (auto simp: chk_agstatm_def finish_def elim!: goE)
  have "conns_ok w1" using check_mqrecv_conns [OF laws ok 1] .
  then have "conns_ok w2" using 2 check_mqupld_conns [OF laws] by (auto split: if_splits)
  then have "conns_ok w3" using 3 check_agstatus_conns [of w2 X u w3] by (cases b2) auto
  then show ?thesis using conns_ok_timeout [OF 4] by simp
qed

lemma traffic_conns:
  assumes laws: "agent_laws X" and ok: "conns_ok w" and ret: "ag_handle_clttraffic X c w = Some w'"
  shows "conns_ok w'"
proof -
  obtain rv w1 where "sync_conn X c w = Some (rv, w1)"
    "close_conn X c w1 = Some w' \<or> set_timeout X 0 MQTT_SYN_T H_clttraffic (conn_ptr c) w1 = Some w'"
    using ret by (auto simp: ag_handle_clttraffic_def split: bind_splits if_splits)
  then show ?thesis
    using ok keeps_conn_ok sync_conn_keeps [OF laws] close_conns_ok [OF laws] conns_ok_timeout by metis
qed

lemma set_publish_conns:
  assumes laws: "agent_laws X" and ok: "conns_ok w" and ret: "eloop_set_publish X p w = Some w'"
  shows "conns_ok w'"
proof -
  obtain pub where pub: "sy_pubs (snd w) p = Some pub" using ret by (auto simp: eloop_set_publish_def split: bind_splits)
  let ?c = "sp_conn pub"
  obtain rv w1 where 1: "on_client ?c (\<lambda>cl. mqtt_publish cl (Some (sp_topic_name pub)) (sp_application_message pub)
      (sp_application_message_size pub) (sp_publish_flags pub)) w = Some (rv, w1)"
    using ret by (auto simp: eloop_set_publish_def pub split: bind_splits)
  obtain el2 s2 where c: "(if cl_error (client ?c w1) \<noteq> mqtt_err MQTT_OK then close_conn X ?c w1 else Some w1) = Some (el2, s2)"
    and 3: "w' = (el2, s2\<lparr>sy_pubs := (sy_pubs s2)(p := None)\<rparr>)"
    using ret 1 by (auto simp: eloop_set_publish_def pub simp del: mqtt_err.simps split: bind_splits)
  have "keeps_conn ?c w w1" by (rule on_client_keeps [OF 1]) (auto dest: request_fd)
  then have "conns_ok w1" using ok keeps_conn_ok by blast
  then have "conns_ok (el2, s2)" using c close_conns_ok [OF laws] by (auto split: if_splits)
  moreover have "conns_ok w' = conns_ok (el2, s2)" unfolding 3 by (rule conns_ok_same) (simp_all add: the_conn_def)
  ultimately show ?thesis by simp
qed

lemma agent_timeout_conns:
  assumes laws: "agent_laws X" and ok: "conns_ok w" and ret: "agent_timeout X h d w = Some w'"
  shows "conns_ok w'"
proof -
  consider c where "ag_handle_clttraffic X c w = Some w'" | u where "chk_agstatm X w = Some (Return u, w')"
    | "eloop_set_publish X d w = Some w'"
    using ret
    by (auto simp: agent_timeout_def returned_def eloop_set_exit_def exit_link_returns
        split: if_splits bind_splits option.splits outcome.splits)
  then show ?thesis
    by cases (use traffic_conns chk_agstatm_conns set_publish_conns laws ok in blast)+
qed

lemma run_cmd_conns:
  assumes laws: "agent_laws X" and ok: "conns_ok w" and ret: "run_cmd (adlcmd_tbl X) buf w = Some (r, w')"
  shows "conns_ok w'"
proof -
  have stop: "conns_ok v'" if "admlink_cmd_stop X v = Some (b, v')" "conns_ok v" for v b v'
    using that conns_ok_timeout [of X 0 MQTT_SYN_T H_exit 0 v v'] by (auto simp: admlink_cmd_stop_def split: bind_splits)
  have test: "conns_ok v'" if "admlink_cmd_sendtest X v = Some (b, v')" "conns_ok v" for v b v'
  proof -
    note s = that
    obtain msg where "set_mqtt_publish_nexsync X MQUPLD (mc_topicsend (ag_mqupld (sy_agent (snd v)))) msg MQTT_PUBLISH_QOS_1 v = Some v'"
      using s(1) by (auto simp: admlink_cmd_sendtest_def Let_def split: bind_splits)
    then show ?thesis using set_publish_frame [OF laws] conns_ok_msg s(2) by blast
  qed
  have step: "conns_ok v \<longrightarrow> conns_ok v'" if "(name, hdl) \<in> set (adlcmd_tbl X)" "hdl v = Some (b, v')" for name hdl v b v'
    using that stop [of v b v'] test [of v b v'] by (auto simp: adlcmd_tbl_def)
  have "conns_ok w \<longrightarrow> conns_ok w'"
    by (rule run_cmd_kept [where R = "\<lambda>v v'. conns_ok v \<longrightarrow> conns_ok v'", OF _ _ ret]) (use step in blast)+
  with ok show ?thesis by blast
qed

lemma ctrl_receive_conns:
  assumes laws: "agent_laws X" and ok: "conns_ok w" and ret: "admlink_ctrl_iface_receive X sock w = Some w'"
  shows "conns_ok w'"
proof -
  obtain res w1 where r: "do_ext (x_recvfrom X sock 255) w = (res, w1)" by (metis surj_pair)
  have 1: "conns_ok w1" using conns_ok_do_ext [OF r] ok by simp
  have "w' = w1 \<or> (\<exists>buf reply w2. (w2 = w1 \<or> admlink_cmd_handle X buf w1 = Some (reply, w2)) \<and>
      w' = snd (do_ext (\<lambda>e. ((), x_sendto X sock reply e)) w2))"
    using ret r by (auto simp: admlink_ctrl_iface_receive_def split: option.splits bind_splits if_splits)
  moreover have "conns_ok w2" if "admlink_cmd_handle X buf w1 = Some (reply, w2)" for buf reply w2
  proof -
    obtain t v where t: "do_ext (x_time X) w1 = (t, v)" by (metis surj_pair)
    have "conns_ok (set_agent (\<lambda>ag. ag\<lparr>ag_tinfo := Some t\<rparr>) v)"
      using 1 conns_ok_do_ext [OF t] by (simp add: set_agent_conns)
    then show ?thesis using that t run_cmd_conns [OF laws] by (auto simp: admlink_cmd_handle_def)
  qed
  moreover have "conns_ok (snd (do_ext f w2)) = conns_ok w2" for f :: "'a \<Rightarrow> unit \<times> 'a" and w2
    using conns_ok_do_ext [OF surjective_pairing] .
  ultimately show ?thesis using 1 by auto
qed

subsection \<open>As long as the loop runs\<close>

definition kept_conns :: "('e, 'd) agent_env \<Rightarrow> 'e sys \<Rightarrow> bool" where
  "kept_conns X s \<longleftrightarrow> (agent_laws X \<longrightarrow> (\<forall>el. conns_ok (el, s)))"

lemma kept_conns_fst: "kept_conns X s \<longleftrightarrow> (agent_laws X \<longrightarrow> conns_ok (el, s))"
  using conns_ok_fst by (auto simp: kept_conns_def)

lemma kept_conns_same: "same_sys s s' \<Longrightarrow> kept_conns X s \<Longrightarrow> kept_conns X s'"
  using conns_ok_same_sys [of "(el, s)" "(el, s')" for el] by (auto simp: kept_conns_def)

interpretation al: loop_world "agent_loop_env X" "kept_conns X" for X :: "('e, 'd) agent_env"
proof
  fix w w' :: "'e sys" and n socks tv sig secs h d u el el' sock
  assume I: "kept_conns X w"
  note same = kept_conns_same [OF same_sys_ext I, OF surjective_pairing]
  show "kept_conns X (snd (clock_gettime (agent_loop_env X) w))"
    "kept_conns X (snd (select_read (agent_loop_env X) n socks tv w))"
    by (simp_all add: agent_loop_env_def register_env_def same)
  have "same_sys w (ext_do f w)" for f by (simp add: ext_do_def same_sys_def)
  then show "kept_conns X (install_signal (agent_loop_env X) sig w)" "kept_conns X (set_alarm (agent_loop_env X) secs w)"
    using kept_conns_same I by (auto simp: agent_loop_env_def register_env_def)
  show "timeout_handler (agent_loop_env X) h d u el w = Some (el', w') \<Longrightarrow> kept_conns X w'"
    using I agent_timeout_conns [of X "(el, w)" h d "(el', w')"]
    by (auto simp: agent_loop_env_def kept_conns_fst [of X w' el'] kept_conns_fst [of X w el])
  show "read_handler (agent_loop_env X) h sock d u el w = Some (el', w') \<Longrightarrow> kept_conns X w'"
    using I ctrl_receive_conns [of X "(el, w)" sock "(el', w')"]
    by (auto simp: agent_loop_env_def kept_conns_fst [of X w' el'] kept_conns_fst [of X w el])
  show "signal_handler (agent_loop_env X) h sig d u el w = Some (el', w') \<Longrightarrow> kept_conns X w'"
    by (simp add: agent_loop_env_def register_env_def)
qed

text \<open>Opening the control interface does not touch the agent.\<close>

lemma ext_agent: "ext f s = (r, s') \<Longrightarrow> sy_agent s' = sy_agent s"
  using same_sys_fields [OF same_sys_ext] by metis

lemma ctrl_init_agent: "admlink_ctrl_iface_init X s = (rv, s') \<Longrightarrow> sy_agent s' = sy_agent s"
  by (auto simp: admlink_ctrl_iface_init_def ctrl_init_fail_def ext_do_def Let_def
      dest!: ext_agent split: prod.splits if_splits)

end
