(* ===== verification/Agent_Properties.thy ===== *)
theory Agent_Properties
  imports Agent_Events Agent_Conns
begin

text \<open>
  The properties of the agent, each with a witness in a concrete world.
\<close>

section \<open>A world to apply the properties to\<close>

text \<open>
  The world is a clock in seconds. Addresses and BIOs are the least free ones; nothing is ever received,
  sending works, certificates and files are good; \<open>double\<close> is played by the integers.
\<close>

definition least_free :: "nat set \<Rightarrow> nat" where
  "least_free used = (if \<exists>p. p \<noteq> 0 \<and> p \<notin> used then LEAST p. p \<noteq> 0 \<and> p \<notin> used else 0)"

lemma least_free: "least_free used = 0 \<or> least_free used \<notin> used" "finite used \<Longrightarrow> least_free used \<noteq> 0"
proof -
  have L: "least_free used \<noteq> 0 \<and> least_free used \<notin> used" if "\<exists>p. p \<noteq> 0 \<and> p \<notin> used"
    using LeastI_ex [OF that] that by (simp add: least_free_def)
  then show "least_free used = 0 \<or> least_free used \<notin> used"
    by (cases "\<exists>p. p \<noteq> 0 \<and> p \<notin> used") (auto simp: least_free_def)
  show "finite used \<Longrightarrow> least_free used \<noteq> 0"
    using L ex_new_if_finite [of "insert 0 used"] by auto
qed

definition agent_world :: "(nat, int) agent_env" where
  "agent_world = \<lparr>x_clock = (\<lambda>e. ((int e, 0), e)), x_time = (\<lambda>e. (int e, e)),
     x_date = (\<lambda>t. ascii ''2024/01/01 00:00:00''),
     x_malloc_timeout = (\<lambda>h e. (least_free (dom h), e)), x_alloc_ok = (\<lambda>e. (True, e)),
     x_calloc_publish = (\<lambda>h e. (least_free (dom h), e)),
     x_select = (\<lambda>n socks tv e. ((0, False, [], []), e)),
     x_alarm = (\<lambda>n e. e), x_signal = (\<lambda>sig e. e), x_new_ctx = (\<lambda>e. (1, e)),
     x_load_cert = (\<lambda>ctx file e. (True, e)), x_load_key = (\<lambda>ctx file e. (True, e)), x_load_ca = (\<lambda>ctx file e. (True, e)),
     x_new_bio = (\<lambda>bios ctx addr port e. (least_free bios, e)), x_do_connect = (\<lambda>fd e. (1, e)),
     x_verified = (\<lambda>fd e. True), x_get_fd = (\<lambda>fd e. 4), x_write = (\<lambda>fd bs e. (int (length bs), e)),
     x_read = (\<lambda>fd n e. ([], e)), x_should_retry = (\<lambda>fd e. True), x_should_read = (\<lambda>fd e. True),
     x_sleep = (\<lambda>us e. e), x_recvfrom = (\<lambda>sock n e. (Some (ascii ''stop''), e)), x_sendto = (\<lambda>sock bs e. e),
     x_mkdir = (\<lambda>path e. ((True, False), e)), x_socket = (\<lambda>e. (3, e)), x_bind = (\<lambda>s path e. (True, e)),
     x_chmod = (\<lambda>path e. (True, e)), x_close = (\<lambda>s e. e), x_unlink = (\<lambda>path e. e), x_rmdir = (\<lambda>path e. e),
     x_stack = \<lparr>fixed_header = \<lparr>control_type = MQTT_CONTROL_RESERVED_0, control_flags = 0, remaining_length = 0\<rparr>,
       decoded = Undecoded\<rparr>,
     x_arith = int_arith\<rparr>"

lemma agent_world_laws: "agent_laws agent_world" "allocates agent_world"
  using least_free(1) [of "dom h" for h :: "nat \<Rightarrow> eloop_timeout option"]
    least_free(1) [of "dom h" for h :: "nat \<Rightarrow> set_publish option"] least_free(2)
  by (auto simp: agent_laws_def allocates_def alloc_laws_def clock_laws_def register_env_def ext_def agent_world_def
      least_free(1) domIff)

text \<open>The agent of the device \<open>dev\<close>, at second 7, with an empty event loop.\<close>

definition dev_agent :: agent where
  "dev_agent = \<lparr>ag_agstatus = 0, ag_devid = ascii ''dev'',
     ag_mqrecv = new_conn (ascii ''dev'') (ascii ''$aws/things/dev/shadow/update'') (ascii ''$aws/things/dev/shadow/update/accepted''),
     ag_mqupld = new_conn (ascii ''dev_uploader'') (ascii ''devices/dev_uploader/message'') [], ag_tinfo = Some 7\<rparr>"

definition empty_el :: eloop_data where
  "empty_el = eloop_init 0 \<lparr>el_user_data = 0, el_max_sock = 0, el_readers = [], el_timeout = 0, el_signals = [],
     el_signaled = 0, el_pending_terminate = False, el_terminate = False, el_reader_table_changed = False,
     el_heap = (\<lambda>p. None), el_freed = False\<rparr>"

definition dev_sys :: "nat sys" where
  "dev_sys = \<lparr>sy_agent = dev_agent, sy_pubs = (\<lambda>p. None), sy_bios = {}, sy_ctrl_sock = 3, sy_ext = 7\<rparr>"

lemma cfg_dev: "cfg_agInit (Some (ascii ''dev'')) = Some (dev_agent\<lparr>ag_tinfo := None\<rparr>)"
  by (simp add: cfg_agInit_def sprintf_def dev_agent_def ascii_def)

lemmas empty_el_ok = eloop_init_ok [of 0 "\<lparr>el_user_data = 0, el_max_sock = 0, el_readers = [], el_timeout = 0, el_signals = [],
     el_signaled = 0, el_pending_terminate = False, el_terminate = False, el_reader_table_changed = False,
     el_heap = (\<lambda>p. None), el_freed = False\<rparr>", folded empty_el_def]

text \<open>
  The same agent with both connections established, on the BIOs 1 and 2; the clients are in the state
  \<open>err\<close>, with nothing to send.
\<close>

definition live_client :: "int \<Rightarrow> nat \<Rightarrow> mqtt_client" where
  "live_client err fd = zero_client\<lparr>cl_socketfd := fd, cl_keep_alive := 60, cl_error := err, cl_response_timeout := 30,
     cl_recv_buffer := fresh_recv_buffer (replicate 16 0), cl_mq := mqtt_mq_init (cl_mq zero_client) (Some (replicate 256 0))\<rparr>"

definition live_sys :: "int \<Rightarrow> nat sys" where
  "live_sys err = dev_sys\<lparr>sy_bios := {1, 2}, sy_agent := dev_agent\<lparr>
     ag_mqrecv := (ag_mqrecv dev_agent)\<lparr>mc_biofd := 1, mc_status := 1, mc_mqclt := live_client err 1\<rparr>,
     ag_mqupld := (ag_mqupld dev_agent)\<lparr>mc_biofd := 2, mc_status := 1, mc_mqclt := live_client err 2\<rparr>\<rparr>\<rparr>"

lemma live_conns: "the_conn MQRECV (el, live_sys err) = (ag_mqrecv dev_agent)\<lparr>mc_biofd := 1, mc_status := 1, mc_mqclt := live_client err 1\<rparr>"
  "the_conn MQUPLD (el, live_sys err) = (ag_mqupld dev_agent)\<lparr>mc_biofd := 2, mc_status := 1, mc_mqclt := live_client err 2\<rparr>"
  "sy_bios (live_sys err) = {1, 2}" "sy_ext (live_sys err) = 7"
  by (simp_all add: the_conn_def live_sys_def dev_sys_def)

lemma live_ok: "conns_ok (el, live_sys err)"
  by (simp add: conns_ok_def conn_ok_def live_conns live_client_def)

lemma dev_state: "finite_heaps (empty_el, dev_sys)" "dated agent_world dev_agent" "ag_tinfo dev_agent = Some 7"
  by (simp_all add: finite_heaps_def empty_el_def eloop_init_def dev_sys_def dated_def dev_agent_def agent_world_def ascii_def)

text \<open>What the agent does in this world with nothing to receive and a client in an error state.\<close>

abbreviation sock_err :: int where "sock_err \<equiv> mqtt_err MQTT_ERROR_SOCKET_ERROR"

lemma agent_world_stack: "x_stack agent_world = \<lparr>fixed_header = \<lparr>control_type = MQTT_CONTROL_RESERVED_0, control_flags = 0, remaining_length = 0\<rparr>,
       decoded = Undecoded\<rparr>"
  by (simp add: agent_world_def)

lemma agent_recvall: "fd \<in> sy_bios s \<Longrightarrow>
   mqtt_pal_recvall (sync_env agent_world) fd n (Some (el, s)) = Some (0, [], Some (el, s))"
  unfolding mqtt_pal_recvall_def
  by (subst recvall_loop.simps) (simp add: sync_env_def on_bio_def lift_ext_def ext_def agent_world_def)

lemma live_recv:
  assumes fd: "fd \<in> sy_bios s"
  shows "mqtt_recv (sync_env agent_world) (x_stack agent_world) (live_client err fd) (Some (el, s)) =
    Some (mqtt_err MQTT_OK, live_client err fd, Some (el, s))"
proof -
  let ?cl = "(live_client err fd)\<lparr>cl_mutex := True\<rparr>"
  have "recv_one (sync_env agent_world) (x_stack agent_world) ?cl (Some (el, s)) =
      Some (Some (mqtt_err MQTT_OK), x_stack agent_world, ?cl, Some (el, s))"
    using fd by (simp add: recv_one_def agent_recvall live_client_def fresh_recv_buffer_def
        rb_store_def mqtt_unpack_response_def mqtt_unpack_fixed_header_def agent_world_stack Let_def del: mqtt_err.simps)
  then have "recv_loop (sync_env agent_world) (x_stack agent_world) ?cl (Some (el, s)) = Some (mqtt_err MQTT_OK, ?cl, Some (el, s))"
    by (subst recv_loop.simps) (simp del: mqtt_err.simps)
  then show ?thesis by (simp add: mqtt_recv_def mutex_lock_def mutex_unlock_def live_client_def zero_client_def del: mqtt_err.simps)
qed

lemma live_client_fd: "client c (el, live_sys err) = live_client err (conn_ptr c)" "conn_ptr c \<in> sy_bios (live_sys err)"
  by (cases c; simp add: client_the_conn live_conns conn_ptr_def)+

lemma live_set_client: "set_client c (live_client err (conn_ptr c)) (el, live_sys err) = (el, live_sys err)"
  by (cases c) (simp_all add: set_client_def live_sys_def conn_ptr_def dev_sys_def)

lemma sock_err_bad [simp]: "sock_err \<noteq> mqtt_err MQTT_OK"
  by simp

lemma live_sync: "sync_conn agent_world c (el, live_sys sock_err) = Some (sock_err, (el, live_sys sock_err))"
proof -
  let ?s = "live_sys sock_err" and ?cl = "live_client sock_err (conn_ptr c)"
  have send: "mqtt_send (sync_env agent_world) ?cl (Some (el, ?s)) = Some (sock_err, ?cl, Some (el, ?s))"
    by (simp add: mqtt_send_def live_client_def zero_client_def mutex_lock_def mutex_unlock_def)
  have "mqtt_sync (sync_env agent_world) (\<lambda>cb cl w. None) (\<lambda>cb cl w. None) (x_stack agent_world) ?cl (Some (el, ?s)) =
      Some (sock_err, ?cl, Some (el, ?s))"
    using live_recv [OF live_client_fd(2) [of c sock_err], of sock_err el] send
    by (simp add: mqtt_sync_def mutex_lock_def mutex_unlock_def sync_start_def sync_inspect_def sync_finish_def live_client_def zero_client_def)
  then show ?thesis by (simp add: sync_conn_def live_client_fd(1) live_set_client)
qed

text \<open>A client in an error state cannot even queue a DISCONNECT, so its connection is closed at once.\<close>

lemma set_client_same: "set_client c (client c w) w = w"
  by (cases w; cases c) (simp_all add: set_client_def client_def)

lemma dead_disconnect:
  assumes "cl_error (client c w) < 0" and "\<not> cl_mutex (client c w)"
  shows "on_client c mqtt_disconnect w = Some (cl_error (client c w), w)"
proof -
  have "mqtt_disconnect (client c w) = Some (cl_error (client c w), client c w)" using assms
    by (cases "client c w") (simp add: mqtt_disconnect_def submit_def try_pack_def release_mutex_def mutex_lock_def mutex_unlock_def)
  then show ?thesis by (simp add: on_client_def set_client_same)
qed

lemma dead_close_loop:
  assumes "cl_error (client c w) < 0" and "\<not> cl_mutex (client c w)"
  shows "\<exists>w'. close_loop X c trys w = Some w' \<and> same_sys (snd w) (snd w')"
  using assms
proof (induction X c trys w rule: close_loop.induct)
  case (1 X c trys w)
  let ?e = "cl_error (client c w)"
  obtain u w1 where sl: "do_ext (\<lambda>e. ((), x_sleep X 100000 e)) w = (u, w1)" by (metis surj_pair)
  have s: "same_sys (snd w) (snd w1)" and cl: "client c w1 = client c w"
    using do_ext_same [OF sl] same_sys_conn [of w w1 c] by (simp_all add: client_the_conn)
  have bad: "?e \<noteq> mqtt_err MQTT_OK" using 1(2) by simp
  have step: "close_loop X c trys w = (if trys + 1 > 0 \<and> trys + 1 < 3 then close_loop X c (trys + 1) w1 else Some w1)"
    using bad sl by (subst close_loop.simps) (simp add: dead_disconnect [OF 1(2,3)] del: mqtt_err.simps)
  show ?case
  proof (cases "trys + 1 > 0 \<and> trys + 1 < 3")
    case True
    have "\<exists>w'. close_loop X c (trys + 1) w1 = Some w' \<and> same_sys (snd w1) (snd w')"
      using 1(1) [of "(?e, w)" ?e w "(trys, w)" trys w "(u, w1)" u w1] 1(2,3) bad sl True cl
      by (simp add: dead_disconnect [OF 1(2,3)] del: mqtt_err.simps)
    then show ?thesis using step True s same_sys_trans by auto
  next
    case False
    then have "close_loop X c trys w = Some w1" by (simp only: step if_False)
    with s show ?thesis by blast
  qed
qed

lemma dead_close:
  assumes "cl_error (client c w) < 0" and "\<not> cl_mutex (client c w)" and "mc_biofd (the_conn c w) \<in> sy_bios (snd w)"
  shows "\<exists>w'. close_conn X c w = Some w'"
proof -
  obtain el s where l: "close_loop X c 0 w = Some (el, s)" "same_sys (snd w) s"
    using dead_close_loop [OF assms(1,2), of X 0] by auto
  then have "mc_biofd (conn c (sy_agent s)) \<in> sy_bios s"
    using same_sys_fields [OF l(2)] assms(3) by (simp add: the_conn_def)
  with l(1) show ?thesis by (simp add: close_conn_def Let_def)
qed

text \<open>A publish waits at address 1, on a connection whose client is in an error state.\<close>

definition pending_sys :: "nat sys" where
  "pending_sys = (live_sys sock_err)\<lparr>sy_pubs := [1 \<mapsto> pub_of MQUPLD (ascii ''t'') (ascii ''m'') MQTT_PUBLISH_QOS_1]\<rparr>"

lemma pending_conns: "the_conn c (empty_el, pending_sys) = the_conn c (empty_el, live_sys sock_err)"
  "sy_bios (snd (empty_el, pending_sys)) = {1, 2}" "client MQUPLD (empty_el, pending_sys) = live_client sock_err 2"
  by (simp_all add: the_conn_def pending_sys_def client_def) (simp_all add: live_sys_def dev_sys_def)

lemma pending_publish:
  "\<exists>cl. mqtt_publish (live_client sock_err 2) topic msg n flags = Some (sock_err, cl) \<and> cl_error cl = sock_err \<and> \<not> cl_mutex cl"
proof -
  obtain pid where "next_pid [] 0 = Some pid" using next_pid_fresh [of "[]" 0] by auto
  then have "mqtt_next_pid ((live_client sock_err 2)\<lparr>cl_mutex := True\<rparr>) =
     Some (pid, (live_client sock_err 2)\<lparr>cl_mutex := True, cl_pid_lfsr := pid\<rparr>)"
    by (simp add: mqtt_next_pid_def live_client_def zero_client_def mqtt_mq_init_def Let_def)
  then show ?thesis 
    by (simp add: mqtt_publish_def submit_def try_pack_def release_mutex_def mutex_lock_def mutex_unlock_def) (simp add: live_client_def zero_client_def)
qed

section \<open>Remote commands\<close>

text \<open>
C11. A remote command, the message \<open>{"state":{"desired":{"rc_id":"..."}}}\<close> in just this compact form and with an
id of 4 to 986 bytes, is answered by a state report on the receiving connection with the id as it came. The reboot command sets the status of the agent and says no
more; every other one also queues an event on the uploading connection, which tells whether the command
is known. Both publishes wait for the next turn of the event loop under a timer of their own.
\<close>

theorem remote_command_handled:
  assumes laws: "agent_laws X" "allocates X" and ok: "eloop_ok (fst w)" "finite_heaps w"
    and ag: "sy_agent (snd w) = ag"
    and topics: "length (mc_topicsend (ag_mqrecv ag)) < 128" "length (mc_topicsend (ag_mqupld ag)) < 128"
    and date: "dated X ag" and rcid: "0 \<notin> set rcid" "4 \<le> length rcid" "length rcid \<le> 986"
  shows "\<exists>v report w1 w'. cstr v = rcid \<and> rc_report rcid = Some report \<and>
    queued (pub_of MQRECV (mc_topicsend (ag_mqrecv ag)) report MQTT_PUBLISH_QOS_1) w w1 \<and> sy_agent (snd w1) = ag \<and>
    admlink_msg_handle X (rc_text rcid) w = Some w' \<and>
    (if rc_reboots rcid then w' = (fst w1, (snd w1)\<lparr>sy_agent := ag\<lparr>ag_agstatus := isReboot\<rparr>\<rparr>)
     else sy_agent (snd w') = ag \<and>
       (\<exists>msg. get_rcfi_msg X ag v (rc_known rcid) = Some msg \<and> length msg < 1024 \<and>
         queued (pub_of MQUPLD (mc_topicsend (ag_mqupld ag)) msg MQTT_PUBLISH_QOS_1) w1 w'))"
proof -
  obtain v where v: "cstr v = rcid" "length rcid < length v"
    and handle: "admlink_msg_handle X (rc_text rcid) w = admlink_process_rc X (Some v) w"
    using rc_text_handled [OF rcid(1)] by blast
  have "5 \<le> length v" "length (cstr v) \<le> 986" using v rcid by simp_all
  from process_rc_law [OF laws ok, unfolded ag, OF topics date this] show ?thesis
    unfolding handle v(1) using v(1) by blast
qed

theorem remote_command_handled_witness:
  "(\<exists>w'. admlink_msg_handle agent_world (rc_text (ascii ''1000'')) (empty_el, dev_sys) = Some w' \<and>
      ag_agstatus (sy_agent (snd w')) = isReboot) \<and>
   (\<exists>w1 w' pub. queued pub w1 w' \<and> sp_conn pub = MQUPLD \<and>
      admlink_msg_handle agent_world (rc_text (ascii ''2000'')) (empty_el, dev_sys) = Some w' \<and> sy_agent (snd w') = dev_agent)"
proof -
  have t: "length (mc_topicsend (ag_mqrecv dev_agent)) < 128" "length (mc_topicsend (ag_mqupld dev_agent)) < 128"
    and s: "sy_agent (snd (empty_el, dev_sys)) = dev_agent"
    by (simp_all add: dev_agent_def new_conn_def dev_sys_def)
  have ok: "eloop_ok (fst (empty_el, dev_sys))" using empty_el_ok by simp
  note handled = remote_command_handled [OF agent_world_laws ok dev_state(1) s t dev_state(2)]
  have "0 \<notin> set (ascii ''1000'')" "4 \<le> length (ascii ''1000'')" "length (ascii ''1000'') \<le> 986"
    "0 \<notin> set (ascii ''2000'')" "4 \<le> length (ascii ''2000'')" "length (ascii ''2000'') \<le> 986"
    by (simp_all, simp_all add: ascii_def)
  note h1 = handled [OF this(1,2,3)] and h2 = handled [OF this(4,5,6)]
  have b: "rc_reboots (ascii ''1000'')" "\<not> rc_reboots (ascii ''2000'')" by (simp_all add: rc_reboots_def) (simp_all add: ascii_def)
  obtain v1 w' where 1: "admlink_msg_handle agent_world (rc_text (ascii ''1000'')) (empty_el, dev_sys) = Some w'"
    "w' = (fst v1, (snd v1)\<lparr>sy_agent := dev_agent\<lparr>ag_agstatus := isReboot\<rparr>\<rparr>)"
    using h1 b(1) by auto
  obtain v2 v3 msg where 2: "admlink_msg_handle agent_world (rc_text (ascii ''2000'')) (empty_el, dev_sys) = Some v3"
    "sy_agent (snd v3) = dev_agent"
    "queued (pub_of MQUPLD (mc_topicsend (ag_mqupld dev_agent)) msg MQTT_PUBLISH_QOS_1) v2 v3"
    using h2 b(2) by auto
  have "ag_agstatus (sy_agent (snd w')) = isReboot" using 1(2) by simp
  moreover have "sp_conn (pub_of MQUPLD (mc_topicsend (ag_mqupld dev_agent)) msg MQTT_PUBLISH_QOS_1) = MQUPLD"
    by (simp add: pub_of_def)
  ultimately show ?thesis using 1(1) 2 by blast
qed

text \<open>
The events of the agent fit the buffers they are put together in: the answer to a remote command
(in whose buffer there is room for the fifth byte that is cut) 1024 bytes, the test message 512 bytes.
\<close>

theorem event_messages_fit:
  assumes "5 \<le> length rcid" and "dated X ag" and "length (ag_devid ag) < 128"
  shows "(\<exists>msg. get_rcfi_msg X ag rcid ok = Some msg \<and> length msg < 1024) \<and>
    (\<exists>msg. sendtest_msg X ag = Some msg \<and> length msg < 512)"
  using get_rcfi_msg_fits [OF assms(1,2)] sendtest_msg_fits [OF assms(2,3)] by blast

theorem event_messages_fit_witness:
  "(\<exists>msg. get_rcfi_msg agent_world dev_agent (ascii ''2000'' @ [0]) True = Some msg \<and> length msg < 1024) \<and>
   (\<exists>msg. sendtest_msg agent_world dev_agent = Some msg \<and> length msg < 512)"
  by (rule event_messages_fit) (simp_all add: dev_state, simp add: dev_agent_def)

section \<open>Control commands\<close>

lemma run_adlcmd:
  "run_cmd (adlcmd_tbl X) buf w =
    (if take 4 buf = ascii ''stop''
     then do { (ok, w) \<leftarrow> admlink_cmd_stop X w; Some (if ok then ascii ''OK'' else ascii ''UNKNOWN_ERR'', w) }
     else if take 8 buf = ascii ''sendtest''
     then do { (ok, w) \<leftarrow> admlink_cmd_sendtest X w; Some (if ok then ascii ''OK'' else ascii ''UNKNOWN_ERR'', w) }
     else Some (ascii ''UNKNOWNCMD'', w))"
proof -
  have "length (ascii ''stop'') = 4" "length (ascii ''sendtest'') = 8" by simp_all
  then show ?thesis by (simp only: adlcmd_tbl_def run_cmd.simps)
qed

text \<open>What the agent does with a control command.\<close>

lemma cmd_handled:
  assumes laws: "agent_laws X" "allocates X" and ok: "eloop_ok (fst w)" "finite_heaps w"
    and date: "\<And>t. length (x_date X t) \<le> 100" and dev: "length (ag_devid (sy_agent (snd w))) < 128"
    and topic: "length (mc_topicsend (ag_mqupld (sy_agent (snd w)))) < 128"
    and noted: "w1 = (let (t, v) = do_ext (x_time X) w in set_agent (\<lambda>ag. ag\<lparr>ag_tinfo := Some t\<rparr>) v)"
  shows "\<exists>reply w'. admlink_cmd_handle X buf w = Some (reply, w') \<and>
    (if take 4 buf = ascii ''stop''
     then reply = ascii ''OK'' \<and> armed H_exit 0 (fst w) (fst w') \<and> sy_agent (snd w') = sy_agent (snd w1)
     else if take 8 buf = ascii ''sendtest''
     then reply = ascii ''OK'' \<and> (\<exists>msg. sendtest_msg X (sy_agent (snd w1)) = Some msg \<and> length msg < 512 \<and>
       queued (pub_of MQUPLD (mc_topicsend (ag_mqupld (sy_agent (snd w1)))) msg MQTT_PUBLISH_QOS_1) w1 w')
     else reply = ascii ''UNKNOWNCMD'' \<and> w' = w1)"
proof -
  obtain t v where t: "do_ext (x_time X) w = (t, v)" by (metis surj_pair)
  have w1: "w1 = set_agent (\<lambda>ag. ag\<lparr>ag_tinfo := Some t\<rparr>) v" using noted t by simp
  have v: "fst v = fst w" "sy_agent (snd v) = sy_agent (snd w)" "sy_pubs (snd v) = sy_pubs (snd w)"
    using do_ext_same [OF t] same_sys_fields [of "snd w" "snd v"] by auto
  have f1: "fst w1 = fst w" "sy_agent (snd w1) = (sy_agent (snd w))\<lparr>ag_tinfo := Some t\<rparr>" "sy_pubs (snd w1) = sy_pubs (snd w)"
    using v by (cases v; simp add: w1 set_agent_def)+
  have ok1: "eloop_ok (fst w1)" "finite_heaps w1" using ok f1 by (simp_all add: finite_heaps_def)
  have handle: "admlink_cmd_handle X buf w = run_cmd (adlcmd_tbl X) buf w1" by (simp add: admlink_cmd_handle_def t w1)
  consider "take 4 buf = ascii ''stop''" | "take 4 buf \<noteq> ascii ''stop''" "take 8 buf = ascii ''sendtest''"
    | "take 4 buf \<noteq> ascii ''stop''" "take 8 buf \<noteq> ascii ''sendtest''" by blast
  then show ?thesis
  proof cases
    case 1
    obtain el' s' where set: "set_timeout X 0 MQTT_SYN_T H_exit 0 w1 = Some (el', s')" "armed H_exit 0 (fst w1) el'"
      "same_sys (snd w1) s'"
      using set_timeout_law [OF laws(1) ok1(1), of 0 MQTT_SYN_T H_exit 0 "snd w1"] ok1(2) laws(2)
      by (auto simp: allocates_def finite_heaps_def)
    then have "admlink_cmd_handle X buf w = Some (ascii ''OK'', (el', s'))"
      using 1 by (simp add: handle run_adlcmd admlink_cmd_stop_def)
    with 1 set(2) same_sys_fields [OF set(3)] f1 show ?thesis by simp
  next
    case 2
    have "dated X (sy_agent (snd w1))" "length (ag_devid (sy_agent (snd w1))) < 128"
      using date dev by (simp_all add: f1 dated_def)
    from sendtest_msg_fits [OF this] obtain msg where msg: "sendtest_msg X (sy_agent (snd w1)) = Some msg" "length msg < 512" by blast
    have "length (mc_topicsend (ag_mqupld (sy_agent (snd w1)))) < 128" using topic by (simp add: f1)
    from set_publish_queued [OF laws ok1 this, of MQUPLD msg MQTT_PUBLISH_QOS_1] obtain w' where
      q: "set_mqtt_publish_nexsync X MQUPLD (mc_topicsend (ag_mqupld (sy_agent (snd w1)))) msg MQTT_PUBLISH_QOS_1 w1 = Some w'"
      "queued (pub_of MQUPLD (mc_topicsend (ag_mqupld (sy_agent (snd w1)))) msg MQTT_PUBLISH_QOS_1) w1 w'" by blast
    have "admlink_cmd_handle X buf w = Some (ascii ''OK'', w')"
      using 2 q(1) msg(1) by (simp add: handle run_adlcmd admlink_cmd_sendtest_def)
    with 2 q(2) msg show ?thesis by auto
  next
    case 3
    then show ?thesis by (simp add: handle run_adlcmd)
  qed
qed

text \<open>
A control command is recognised by what it starts with: \<open>stop\<close> arms the timer that ends the process,
\<open>sendtest\<close> queues the test message on the uploading connection, anything else changes nothing but the
time the agent has noted; the reply is \<open>OK\<close> or \<open>UNKNOWNCMD\<close>.
\<close>

theorem control_commands:
  assumes laws: "agent_laws X" "allocates X" and ok: "eloop_ok (fst w)" "finite_heaps w"
    and date: "\<And>t. length (x_date X t) \<le> 100" and dev: "length (ag_devid (sy_agent (snd w))) < 128"
    and topic: "length (mc_topicsend (ag_mqupld (sy_agent (snd w)))) < 128"
    and noted: "w1 = (let (t, v) = do_ext (x_time X) w in set_agent (\<lambda>ag. ag\<lparr>ag_tinfo := Some t\<rparr>) v)"
  shows "\<exists>reply w'. admlink_cmd_handle X buf w = Some (reply, w') \<and>
    (if take 4 buf = ascii ''stop''
     then reply = ascii ''OK'' \<and> armed H_exit 0 (fst w) (fst w') \<and> sy_agent (snd w') = sy_agent (snd w1)
     else if take 8 buf = ascii ''sendtest''
     then reply = ascii ''OK'' \<and> (\<exists>msg. sendtest_msg X (sy_agent (snd w1)) = Some msg \<and> length msg < 512 \<and>
       queued (pub_of MQUPLD (mc_topicsend (ag_mqupld (sy_agent (snd w1)))) msg MQTT_PUBLISH_QOS_1) w1 w')
     else reply = ascii ''UNKNOWNCMD'' \<and> w' = w1)"
  using cmd_handled [OF laws ok date dev topic noted] .

theorem control_commands_witness:
  "(\<exists>w'. admlink_cmd_handle agent_world (ascii ''stop now'') (empty_el, dev_sys) = Some (ascii ''OK'', w') \<and>
      armed H_exit 0 empty_el (fst w')) \<and>
   (\<exists>w'. admlink_cmd_handle agent_world (ascii ''start'') (empty_el, dev_sys) = Some (ascii ''UNKNOWNCMD'', w'))"
proof -
  have ok: "eloop_ok (fst (empty_el, dev_sys))" using empty_el_ok by simp
  note cmd = control_commands [OF agent_world_laws ok dev_state(1) _ _ _ refl]
  have d: "length (x_date agent_world t) \<le> 100" "length (ag_devid (sy_agent (snd (empty_el, dev_sys)))) < 128"
    "length (mc_topicsend (ag_mqupld (sy_agent (snd (empty_el, dev_sys))))) < 128" for t
    by (simp_all add: agent_world_def dev_sys_def dev_agent_def new_conn_def)
  have "take 4 (ascii ''stop now'') = ascii ''stop''" "take 4 (ascii ''start'') \<noteq> ascii ''stop''"
    "take 8 (ascii ''start'') \<noteq> ascii ''sendtest''" by (simp_all add: ascii_def)
  then show ?thesis using cmd [OF d, of "ascii ''stop now''"] cmd [OF d, of "ascii ''start''"] by auto
qed

section \<open>The state machine\<close>


text \<open>With both connections up, a check sets the status of the agent.\<close>

lemma check_both_up:
  assumes laws: "agent_laws X" and ok: "eloop_ok (fst w)"
    and up: "mc_status (the_conn MQRECV w) \<noteq> 0" "mc_status (the_conn MQUPLD w) \<noteq> 0"
    and good: "ag_agstatus (sy_agent (snd w)) \<noteq> isErr"
  shows "\<exists>w'. chk_agstatm X w = Some (Return (), w') \<and> ag_agstatus (sy_agent (snd w')) = isOk"
proof -
  obtain t w2 where t: "do_ext (x_time X) w = (t, w2)" by (metis surj_pair)
  obtain el s' where w3: "set_agent (\<lambda>ag. ag\<lparr>ag_tinfo := Some t, ag_agstatus := isOk\<rparr>) w2 = (el, s')" by fastforce
  then have el: "el = fst w2" "ag_agstatus (sy_agent s') = isOk" by (auto simp: set_agent_def split: prod.splits)
  have "eloop_ok el" using do_ext_fst [OF t] ok el by simp
  from set_timeout_law [OF laws this, of SM_CHECK_T 0 H_agstatm agent_ptr s'] obtain el' s'' where
    "set_timeout X SM_CHECK_T 0 H_agstatm agent_ptr (el, s') = Some (el', s'')" "same_sys s' s''" by blast
  then show ?thesis using t up good w3 el same_sys_fields [of s' s'']
    by (simp add: chk_agstatm_def check_mqrecv_def check_mqupld_def check_agstatus_def go_def finish_def)
qed

lemma live_up: "mc_status (the_conn MQRECV (el, live_sys err)) \<noteq> 0" "mc_status (the_conn MQUPLD (el, live_sys err)) \<noteq> 0"
  by (simp_all add: live_conns)

lemma live_status: "ag_agstatus (sy_agent (snd (el, live_sys err))) \<noteq> isErr"
  by (simp add: live_sys_def dev_agent_def isErr_def)

text \<open>
Whatever a check of the connections finds, as long as it does not end the process it keeps the
event loop well formed and every timer in it, and it arms the timer of the next check (or gets no memory
for it).
\<close>

theorem state_machine_rearms:
  assumes "agent_laws X" and "eloop_ok (fst w)" and "chk_agstatm X w = Some (Return u, w')"
  shows "eloop_ok (fst w') \<and> set (timers (fst w)) \<subseteq> set (timers (fst w')) \<and>
    (\<exists>el e. set (timers (fst w)) \<subseteq> set (timers el) \<and>
      (if fst (x_malloc_timeout X (el_heap el) e) = 0 then fst w' = el else armed H_agstatm agent_ptr el (fst w')))"
proof -
  obtain el s where k: "loop_kept w (el, s)" and t: "set_timeout X SM_CHECK_T 0 H_agstatm agent_ptr (el, s) = Some w'"
    using chk_agstatm_checks [OF assms(1,3)] by (metis surj_pair)
  have 1: "eloop_ok el" "set (timers (fst w)) \<subseteq> set (timers el)" using k assms(2) by (auto simp: loop_kept_def)
  have 2: "eloop_ok (fst w')" "set (timers el) \<subseteq> set (timers (fst w'))"
    using loop_kept_timeout [OF assms(1) t] 1(1) by (simp_all add: loop_kept_def)
  have "if fst (x_malloc_timeout X (el_heap el) (sy_ext s)) = 0 then fst w' = el else armed H_agstatm agent_ptr el (fst w')"
    using set_timeout_law [OF assms(1) 1(1), of SM_CHECK_T 0 H_agstatm agent_ptr s] t by auto
  with 1(2) have "\<exists>el e. set (timers (fst w)) \<subseteq> set (timers el) \<and>
      (if fst (x_malloc_timeout X (el_heap el) e) = 0 then fst w' = el else armed H_agstatm agent_ptr el (fst w'))"
    by (intro exI [of _ el] exI [of _ "sy_ext s"] conjI)
  with 2(1) subset_trans [OF 1(2) 2(2)] show ?thesis by (intro conjI)
qed

theorem state_machine_rearms_witness:
  "\<exists>w' el. chk_agstatm agent_world (empty_el, live_sys 1) = Some (Return (), w') \<and> eloop_ok (fst w') \<and>
     set (timers empty_el) \<subseteq> set (timers (fst w')) \<and> (fst w' = el \<or> armed H_agstatm agent_ptr el (fst w'))"
proof -
  have ok: "eloop_ok (fst (empty_el, live_sys 1))" using empty_el_ok by simp
  obtain w' where w': "chk_agstatm agent_world (empty_el, live_sys 1) = Some (Return (), w')"
    using check_both_up [OF agent_world_laws(1) ok live_up live_status] by blast
  note r = state_machine_rearms [OF agent_world_laws(1) ok w']
  then obtain el e where "if fst (x_malloc_timeout agent_world (el_heap el) e) = 0 then fst w' = el
    else armed H_agstatm agent_ptr el (fst w')" by blast
  then have "fst w' = el \<or> armed H_agstatm agent_ptr el (fst w')" by (simp split: if_splits)
  moreover have "eloop_ok (fst w')" "set (timers empty_el) \<subseteq> set (timers (fst w'))" using r unfolding fst_conv by blast+
  ultimately show ?thesis using w' by blast
qed

definition rebooting_sys :: "nat sys" where
  "rebooting_sys = (live_sys 1)\<lparr>sy_agent := (sy_agent (live_sys 1))\<lparr>ag_agstatus := isReboot\<rparr>\<rparr>"

text \<open>
C39. While a reboot is pending the control interface answers \<open>ok\<close> and does nothing else; but the next
check of the connections, with both of them up, sets the status back, and the command is forgotten.
\<close>

theorem reboot_status_lost:
  assumes laws: "agent_laws X" and ok: "eloop_ok (fst w)"
    and up: "mc_status (the_conn MQRECV w) \<noteq> 0" "mc_status (the_conn MQUPLD w) \<noteq> 0"
    and reboot: "ag_agstatus (sy_agent (snd w)) = isReboot"
    and recv: "\<And>e bs. fst (x_recvfrom X sock 255 e) = Some bs \<Longrightarrow> length bs \<le> 255"
  shows "\<exists>v v'. admlink_ctrl_iface_receive X sock w = Some v \<and> fst v = fst w \<and> same_sys (snd w) (snd v) \<and>
    chk_agstatm X w = Some (Return (), v') \<and> ag_agstatus (sy_agent (snd v')) = isOk"
proof -
  obtain res w1 where r: "do_ext (x_recvfrom X sock 255) w = (res, w1)" by (metis surj_pair)
  have 1: "fst w1 = fst w" "same_sys (snd w) (snd w1)" using do_ext_same [OF r] by auto
  have st: "ag_agstatus (sy_agent (snd w1)) = isReboot" using same_sys_fields [OF 1(2)] reboot by simp
  have "res = fst (x_recvfrom X sock 255 (sy_ext (snd w)))" using r by (auto simp: do_ext_def ext_def split: prod.splits)
  then have "length bs < 256" if "res = Some bs" for bs using recv [of "sy_ext (snd w)" bs] that by simp
  then have "admlink_ctrl_iface_receive X sock w = Some (case res of None \<Rightarrow> w1
      | Some bs \<Rightarrow> snd (do_ext (\<lambda>e. ((), x_sendto X sock STR_REPLY_OK e)) w1))"
    using r st by (auto simp: admlink_ctrl_iface_receive_def sprintf_def split: option.splits)
  moreover obtain v where v: "v = (case res of None \<Rightarrow> w1 | Some bs \<Rightarrow> snd (do_ext (\<lambda>e. ((), x_sendto X sock STR_REPLY_OK e)) w1))"
    by simp
  moreover have "fst v = fst w \<and> same_sys (snd w) (snd v)"
    using do_ext_same [OF surjective_pairing, of "\<lambda>e. ((), x_sendto X sock STR_REPLY_OK e)" w1] 1 v same_sys_trans
    by (cases res) auto
  moreover have "ag_agstatus (sy_agent (snd w)) \<noteq> isErr" using reboot by (simp add: isReboot_def isErr_def)
  moreover note check_both_up [OF laws ok up this]
  ultimately show ?thesis by metis
qed


theorem reboot_status_lost_witness:
  "\<exists>v v'. admlink_ctrl_iface_receive agent_world 3 (empty_el, rebooting_sys) = Some v \<and> fst v = empty_el \<and>
     chk_agstatm agent_world (empty_el, rebooting_sys) = Some (Return (), v') \<and> ag_agstatus (sy_agent (snd v')) = isOk"
proof -
  have ok: "eloop_ok (fst (empty_el, rebooting_sys))" using empty_el_ok by simp
  have up: "mc_status (the_conn MQRECV (empty_el, rebooting_sys)) \<noteq> 0" "mc_status (the_conn MQUPLD (empty_el, rebooting_sys)) \<noteq> 0"
    and st: "ag_agstatus (sy_agent (snd (empty_el, rebooting_sys))) = isReboot"
    by (simp_all add: rebooting_sys_def the_conn_def live_sys_def)
  have "\<exists>v v'. admlink_ctrl_iface_receive agent_world 3 (empty_el, rebooting_sys) = Some v \<and>
     fst v = fst (empty_el, rebooting_sys) \<and> same_sys (snd (empty_el, rebooting_sys)) (snd v) \<and>
     chk_agstatm agent_world (empty_el, rebooting_sys) = Some (Return (), v') \<and> ag_agstatus (sy_agent (snd v')) = isOk"
    by (rule reboot_status_lost [OF agent_world_laws(1) ok up st]) (auto simp: agent_world_def ascii_def)
  then show ?thesis unfolding fst_conv by blast
qed

section \<open>Connections\<close>

text \<open>
Synchronising a connection, whatever the broker sends, changes nothing of the agent but the client of
that connection and the status, frees no BIO and forgets no pending publish; the event loop keeps its
timers and gets no others than those of new publishes.
\<close>

theorem sync_frame_of_agent:
  assumes "agent_laws X" and "eloop_ok (fst w)" and "sync_conn X c w = Some (rv, w')"
  shows "eloop_ok (fst w') \<and> set (timers (fst w)) \<subseteq> set (timers (fst w')) \<and>
    (\<forall>t \<in> set (timers (fst w')) - set (timers (fst w)). to_handler t = H_publish) \<and>
    sy_bios (snd w') = sy_bios (snd w) \<and>
    (\<exists>st cl. sy_agent (snd w') = map_conn c (\<lambda>m. m\<lparr>mc_mqclt := cl\<rparr>) ((sy_agent (snd w))\<lparr>ag_agstatus := st\<rparr>)) \<and>
    (\<forall>p pub. sy_pubs (snd w) p = Some pub \<longrightarrow> sy_pubs (snd w') p = Some pub)"
  using sync_conn_conn_frame [OF assms(1,3)] assms(2) by (auto simp: conn_frame_def only_publishes_def)

theorem sync_frame_of_agent_witness:
  "\<exists>rv w'. sync_conn agent_world MQRECV (empty_el, live_sys sock_err) = Some (rv, w') \<and> sy_bios (snd w') = {1, 2}"
proof -
  have ok: "eloop_ok (fst (empty_el, live_sys sock_err))" using empty_el_ok by simp
  from sync_frame_of_agent [OF agent_world_laws(1) ok live_sync [of MQRECV]] live_conns(3)
  have "sy_bios (snd (empty_el, live_sys sock_err)) = {1, 2}" by simp
  with live_sync [of MQRECV empty_el] show ?thesis by blast
qed

text \<open>
C13. When \<open>close_conn\<close> returns, the connection is down and its BIO, which was open, is freed; the other
connection is as it was and the event loop has kept its timers.
\<close>

theorem close_conn_frees:
  assumes "agent_laws X" and "eloop_ok (fst w)" and "close_conn X c w = Some w'"
  shows "mc_biofd (the_conn c w') = 0 \<and> mc_status (the_conn c w') = 0 \<and>
    (mc_biofd (the_conn c w) \<noteq> 0 \<longrightarrow> mc_biofd (the_conn c w) \<in> sy_bios (snd w)) \<and>
    sy_bios (snd w') = sy_bios (snd w) - (if mc_biofd (the_conn c w) = 0 then {} else {mc_biofd (the_conn c w)}) \<and>
    the_conn (other c) w' = the_conn (other c) w \<and>
    eloop_ok (fst w') \<and> set (timers (fst w)) \<subseteq> set (timers (fst w'))"
  using close_conn_law [OF assms(1,3)] assms(2) by (auto simp: only_publishes_def)

theorem close_conn_frees_witness:
  "\<exists>w'. close_conn agent_world MQUPLD (empty_el, live_sys sock_err) = Some w' \<and> sy_bios (snd w') = {1}"
proof -
  let ?w = "(empty_el, live_sys sock_err)"
  have ok: "eloop_ok (fst ?w)" using empty_el_ok by simp
  have c: "client MQUPLD ?w = live_client sock_err 2" by (simp add: client_the_conn live_conns)
  have "cl_error (client MQUPLD ?w) < 0" "\<not> cl_mutex (client MQUPLD ?w)" unfolding c
    by (simp_all add: live_client_def zero_client_def)
  moreover have "mc_biofd (the_conn MQUPLD ?w) \<in> sy_bios (snd ?w)" by (simp add: live_conns)
  ultimately obtain w' where w': "close_conn agent_world MQUPLD ?w = Some w'" using dead_close by blast
  from close_conn_frees [OF agent_world_laws(1) ok this] have "sy_bios (snd w') = {1}" by (auto simp: live_conns)
  with w' show ?thesis by blast
qed

text \<open>
C40. When a queued publish leaves the client of its connection in an error state, \<open>eloop_set_publish\<close> closes
that connection and frees its BIO. A timer for the traffic of the connection stays in the event loop, with its
time; when it runs, \<open>ag_handle_clttraffic\<close> syncs the client, which still has the freed BIO as its socket, and
that is not defined.
\<close>

theorem failed_publish_leaves_traffic:
  assumes laws: "agent_laws X" and ok: "conns_ok w" "eloop_ok (fst w)"
    and pub: "sy_pubs (snd w) p = Some pub" "sp_conn pub = c" "mc_status (the_conn c w) = 1"
    and timer: "t \<in> set (timers (fst w))" "timer_call t = (H_clttraffic, conn_ptr c, 0)"
    and run: "on_client c (\<lambda>cl. mqtt_publish cl (Some (sp_topic_name pub)) (sp_application_message pub)
      (sp_application_message_size pub) (sp_publish_flags pub)) w = Some (rv, w1)"
    and fails: "cl_error (client c w1) \<noteq> mqtt_err MQTT_OK"
    and ret: "agent_timeout X H_publish p w = Some w'"
  shows "mc_biofd (the_conn c w) \<in> sy_bios (snd w) \<and> sy_bios (snd w') = sy_bios (snd w) - {mc_biofd (the_conn c w)} \<and>
    mc_status (the_conn c w') = 0 \<and> cl_socketfd (client c w') = mc_biofd (the_conn c w) \<and>
    t \<in> set (timers (fst w')) \<and> agent_timeout X H_clttraffic (conn_ptr c) w' = None"
proof -
  have ret': "eloop_set_publish X p w = Some w'" using ret by (simp add: agent_timeout_def H_publish_def H_clttraffic_def H_agstatm_def)
  obtain el2 s2 where cl: "close_conn X c w1 = Some (el2, s2)" and w': "w' = (el2, s2\<lparr>sy_pubs := (sy_pubs s2)(p := None)\<rparr>)"
    using ret' run pub(1,2) fails by (auto simp: eloop_set_publish_def simp del: mqtt_err.simps split: bind_splits)
  have k: "keeps_conn c w w1" by (rule on_client_keeps [OF run]) (auto dest: request_fd)
  then have bio: "mc_biofd (the_conn c w1) = mc_biofd (the_conn c w)" "sy_bios (snd w1) = sy_bios (snd w)"
    "mc_status (the_conn c w1) = 1" "conns_ok w1"
    using keeps_conn_ok [OF k] ok(1) pub(3) by (auto simp: keeps_conn_def)
  then have up: "mc_biofd (the_conn c w) \<noteq> 0" "cl_socketfd (client c w1) = mc_biofd (the_conn c w)"
    by (simp_all add: conns_ok_split [of _ c] conn_ok_def client_the_conn)
  note closed = close_conn_law [OF laws cl, unfolded bio] close_conn_client [OF laws cl, unfolded up(2)]
  have w'_fields: "the_conn c w' = the_conn c (el2, s2)" "client c w' = client c (el2, s2)" "sy_bios (snd w') = sy_bios s2"
    by (simp_all add: w' the_conn_def client_def)
  have freed: "cl_socketfd (client c w') \<notin> sy_bios (snd w')" using closed up by (simp add: w'_fields)
  then have "sync_conn X c w' = None" by (rule closed_bio_undefined)
  then have "agent_timeout X H_clttraffic (conn_ptr c) w' = None"
    by (cases c) (simp_all add: agent_timeout_def conn_at_def conn_ptr_def ag_handle_clttraffic_def)
  moreover have "t \<in> set (timers (fst w'))"
    using loop_kept_close [OF laws cl] on_client_fst [OF run] ok(2) timer(1) by (auto simp: w' loop_kept_def)
  ultimately show ?thesis using closed up by (simp add: w'_fields)
qed

text \<open>The traffic of the uploading connection is due at second 8.\<close>

definition traffic_el :: eloop_data where
  "traffic_el = empty_el\<lparr>el_timeout := 1, el_heap := [1 \<mapsto> \<lparr>to_time = Timeval 8 0, to_eloop_data = conn_ptr MQUPLD,
     to_user_data = 0, to_handler = H_clttraffic, to_next = 0\<rparr>]\<rparr>"

lemma traffic_el_ok:
  "eloop_ok traffic_el" "map timer_call (timers traffic_el) = [(H_clttraffic, conn_ptr MQUPLD, 0)]"
proof -
  have "chain (el_heap traffic_el) (el_timeout traffic_el) [1]" by (simp add: traffic_el_def)
  from timers_chain [OF this] show "map timer_call (timers traffic_el) = [(H_clttraffic, conn_ptr MQUPLD, 0)]"
    and "eloop_ok traffic_el"
    by (auto simp: timers_at_def traffic_el_def timer_def timer_call_def eloop_ok_def timers_sorted_def
        normal_def empty_el_def eloop_init_def)
qed

theorem failed_publish_leaves_traffic_witness:
  "\<exists>w'. agent_timeout agent_world H_publish 1 (traffic_el, pending_sys) = Some w' \<and> sy_bios (snd w') = {1} \<and>
     map timer_call (timers traffic_el) = [(H_clttraffic, conn_ptr MQUPLD, 0)] \<and>
     set (timers traffic_el) \<subseteq> set (timers (fst w')) \<and> agent_timeout agent_world H_clttraffic (conn_ptr MQUPLD) w' = None"
proof -
  let ?w = "(traffic_el, pending_sys)" and ?pub = "pub_of MQUPLD (ascii ''t'') (ascii ''m'') MQTT_PUBLISH_QOS_1"
  have same: "the_conn c ?w = the_conn c (empty_el, live_sys sock_err)" "sy_bios (snd ?w) = {1, 2}"
    "client MQUPLD ?w = live_client sock_err 2" for c
    using pending_conns by (simp_all add: the_conn_def client_def)
  have ok: "conns_ok ?w" "eloop_ok (fst ?w)"
    using conns_ok_same [of ?w "(empty_el, live_sys sock_err)"] live_ok same traffic_el_ok(1) by (simp_all add: live_conns)
  have pub: "sy_pubs (snd ?w) 1 = Some ?pub" "sp_conn ?pub = MQUPLD" by (simp_all add: pending_sys_def pub_of_def)
  have st: "mc_status (the_conn MQUPLD ?w) = 1" by (simp add: same live_conns)
  obtain cl where cl: "mqtt_publish (live_client sock_err 2) (Some (sp_topic_name ?pub)) (sp_application_message ?pub)
      (sp_application_message_size ?pub) (sp_publish_flags ?pub) = Some (sock_err, cl)" "cl_error cl = sock_err" "\<not> cl_mutex cl"
    using pending_publish by blast
  let ?w1 = "set_client MQUPLD cl ?w"
  have run: "on_client MQUPLD (\<lambda>cl. mqtt_publish cl (Some (sp_topic_name ?pub)) (sp_application_message ?pub)
      (sp_application_message_size ?pub) (sp_publish_flags ?pub)) ?w = Some (sock_err, ?w1)"
    using cl(1) by (simp add: on_client_def same)
  have bad: "cl_error (client MQUPLD ?w1) \<noteq> mqtt_err MQTT_OK" using cl(2) by (simp del: mqtt_err.simps)
  have "mc_biofd (the_conn MQUPLD ?w1) \<in> sy_bios (snd ?w1)" using same live_conns by simp
  then obtain el s where "close_conn agent_world MQUPLD ?w1 = Some (el, s)"
    using dead_close [of MQUPLD ?w1 agent_world] cl by auto
  then obtain w' where ret: "agent_timeout agent_world H_publish 1 ?w = Some w'"
    using pub run bad by (simp add: agent_timeout_def H_publish_def H_clttraffic_def H_agstatm_def eloop_set_publish_def del: mqtt_err.simps)
  obtain t where t: "timers traffic_el = [t]" "timer_call t = (H_clttraffic, conn_ptr MQUPLD, 0)"
    using traffic_el_ok(2) by (auto simp: map_eq_Cons_conv)
  have "t \<in> set (timers (fst ?w))" by (simp add: t(1))
  note failed = failed_publish_leaves_traffic [OF agent_world_laws(1) ok pub st this t(2) run bad ret]
  have "sy_bios (snd w') = {1, 2} - {2}"
    using failed [THEN conjunct2, THEN conjunct1] unfolding same(2) by (simp add: same(1) live_conns)
  moreover have "{1, 2} - {2} = {1 :: nat}" by auto
  ultimately have bios: "sy_bios (snd w') = {1}" by simp
  have "set (timers traffic_el) \<subseteq> set (timers (fst w'))" 
    using failed [THEN conjunct2, THEN conjunct2, THEN conjunct2, THEN conjunct2, THEN conjunct1] unfolding t(1) by simp
  moreover have "agent_timeout agent_world H_clttraffic (conn_ptr MQUPLD) w' = None"
    by (rule failed [THEN conjunct2, THEN conjunct2, THEN conjunct2, THEN conjunct2, THEN conjunct2])
  ultimately show ?thesis using ret traffic_el_ok(2) bios by (intro exI [of _ w'] conjI)
qed

text \<open>
Whatever a handler of the agent does, on a timer or on a control command, it leaves the event loop
well formed and takes no timer away from it.
\<close>

theorem handlers_keep_loop:
  assumes "agent_laws X" and "eloop_ok (fst w)"
    and "agent_timeout X h d w = Some w' \<or> admlink_ctrl_iface_receive X sock w = Some w'"
  shows "eloop_ok (fst w') \<and> set (timers (fst w)) \<subseteq> set (timers (fst w'))"
  using assms(2,3) agent_timeout_kept [OF assms(1), of h d w w'] ctrl_receive_kept [OF assms(1), of sock w w']
  by (auto simp: loop_kept_def)

theorem handlers_keep_loop_witness:
  "\<exists>w'. agent_timeout agent_world H_agstatm agent_ptr (empty_el, live_sys sock_err) = Some w' \<and> eloop_ok (fst w')"
proof -
  have ok: "eloop_ok (fst (empty_el, live_sys sock_err))" using empty_el_ok by simp
  obtain w' where "chk_agstatm agent_world (empty_el, live_sys sock_err) = Some (Return (), w')"
    using check_both_up [OF agent_world_laws(1) ok live_up live_status] by blast
  then have w': "agent_timeout agent_world H_agstatm agent_ptr (empty_el, live_sys sock_err) = Some w'"
    by (simp add: agent_timeout_def returned_def H_agstatm_def H_clttraffic_def)
  from handlers_keep_loop [OF agent_world_laws(1) ok disjI1 [OF w']] w' show ?thesis by blast
qed

text \<open>The agent has no connection when it starts.\<close>

lemma agent_start_conns:
  assumes "agent_start X argv1 w = Some (b, w')"
  shows "conns_ok w'"
proof -
  obtain el s where w: "w = (el, s)" by fastforce
  obtain ag where ag: "cfg_agInit argv1 = Some ag" using assms by (auto simp: w agent_start_def split: bind_splits)
  have none: "mc_biofd (conn c ag) = 0 \<and> mc_status (conn c ag) = 0" for c
    using ag by (cases c) (auto simp: cfg_agInit_def new_conn_def split: bind_splits)
  let ?s = "s\<lparr>sy_agent := ag, sy_pubs := (\<lambda>p. None), sy_bios := {}\<rparr>"
  obtain rv s1 where 1: "admlink_ctrl_iface_init X ?s = (rv, s1)" by fastforce
  have "sy_agent s1 = ag" using ctrl_init_agent [OF 1] by simp
  then have ok1: "conns_ok (e, s1)" for e using none [of MQRECV] none [of MQUPLD]
    by (simp add: conns_ok_def conn_ok_def the_conn_def)
  show ?thesis
  proof (cases "rv < 0")
    case True
    then show ?thesis using assms ok1 ag 1 by (auto simp: w agent_start_def)
  next
    case False
    then obtain rv2 el2 s2 where r: "eloop_register_read_sock (register_env X) (sy_ctrl_sock s1) 1 agent_ptr 0 (eloop_init 0 el) s1 = Some (rv2, el2, s2)"
      and t: "set_timeout X 1 0 H_agstatm agent_ptr (el2, s2) = Some w'"
      using assms ag 1 by (auto simp: w agent_start_def split: bind_splits)
    have "same_sys s1 s2" using r same_sys_ext [of "x_alloc_ok X" s1]
      by (auto simp: eloop_register_read_sock_def split: if_splits prod.splits)
    then have "conns_ok (el2, s2)" using conns_ok_same_sys [of "(el2, s1)" "(el2, s2)"] ok1 by simp
    then show ?thesis using conns_ok_timeout [OF t] by simp
  qed
qed

text \<open>
C12. However long the agent runs, a connection that is up has an open BIO, which its client uses, and the
two connections never share one.
\<close>

theorem agent_connections_invariant:
  assumes "agent_laws X" and "agent_start X argv1 w = Some (True, el, s)"
    and "run_passes (agent_loop_env X) n el s = Some (b, el', s')"
  shows "conns_ok (el', s')"
proof -
  have "kept_conns X s" using agent_start_conns [OF assms(2)] conns_ok_fst by (auto simp: kept_conns_def)
  then have "kept_conns X s'" using al.passes assms(3) by blast
  then show ?thesis using assms(1) by (simp add: kept_conns_def)
qed

definition quiet_el :: eloop_data where
  "quiet_el = empty_el\<lparr>el_readers := [\<lparr>es_sock = 3, es_eloop_data = agent_ptr, es_user_data = 0, es_handler = 1\<rparr>],
     el_max_sock := 3, el_reader_table_changed := True, el_timeout := 1,
     el_heap := [1 \<mapsto> \<lparr>to_time = Timeval 8 0, to_eloop_data = agent_ptr, to_user_data = 0, to_handler = H_agstatm, to_next = 0\<rparr>]\<rparr>"

definition quiet_sys :: "nat sys" where
  "quiet_sys = dev_sys\<lparr>sy_agent := dev_agent\<lparr>ag_tinfo := None\<rparr>\<rparr>"

lemma least_free_empty: "least_free {} = 1" "least_free (dom (\<lambda>p. None)) = 1"
proof -
  have "(LEAST p. p \<noteq> 0) = (1 :: nat)" by (rule Least_equality) auto
  moreover have "\<exists>p. p \<noteq> (0 :: nat)" by (rule exI [of _ 1]) simp
  ultimately show "least_free {} = 1" "least_free (dom (\<lambda>p. None)) = 1" by (simp_all add: least_free_def)
qed

lemma quiet_start: "agent_start agent_world (Some (ascii ''dev'')) (empty_el, dev_sys) = Some (True, quiet_el, quiet_sys)"
  by (simp add: agent_start_def cfg_dev admlink_ctrl_iface_init_def ext_def agent_world_def Let_def
      eloop_register_read_sock_def register_env_def set_timeout_def eloop_register_timeout_def xgettimeofday_def
      timeout_time_def carry_usec.simps least_free_empty eloop_init_def empty_el_def quiet_el_def quiet_sys_def dev_sys_def)

lemma quiet_pass: "run_passes (agent_loop_env agent_world) 1 quiet_el quiet_sys = Some (True, quiet_el, quiet_sys)"
proof -
  let ?E = "agent_loop_env agent_world"
  have clock: "xgettimeofday ?E quiet_sys = (Timeval 7 0, quiet_sys)"
    by (simp add: xgettimeofday_def agent_loop_env_def register_env_def ext_def agent_world_def quiet_sys_def dev_sys_def)
  have sel: "select_read ?E n socks tv quiet_sys = ((0, False, [], []), quiet_sys)" for n socks tv
    by (simp add: agent_loop_env_def register_env_def ext_def agent_world_def)
  have el: "el_timeout quiet_el = 1" "el_heap quiet_el (Suc 0) = Some \<lparr>to_time = Timeval 8 0, to_eloop_data = agent_ptr, to_user_data = 0, to_handler = H_agstatm, to_next = 0\<rparr>"
    "el_readers quiet_el = [\<lparr>es_sock = 3, es_eloop_data = agent_ptr, es_user_data = 0, es_handler = 1\<rparr>]"
    "\<not> el_freed quiet_el" "\<not> el_terminate quiet_el" "el_signaled quiet_el = 0"
    by (simp_all add: quiet_el_def empty_el_def eloop_init_def)
  have wait: "\<exists>tv. wait_time ?E quiet_el quiet_sys = Some (tv, quiet_sys)" by (simp add: wait_time_def el clock)
  have due: "run_due_timeout ?E quiet_el quiet_sys = Some (quiet_el, quiet_sys)"
    by (simp add: run_due_timeout_def el clock less_timeval_def)
  have "run_pass ?E quiet_el quiet_sys = Some (True, quiet_el, quiet_sys)"
    using wait by (auto simp: run_pass_def el sel FD_SETSIZE_def eloop_process_pending_signals_def due)
  then show ?thesis by (simp add: el)
qed

theorem agent_connections_invariant_witness:
  "agent_start agent_world (Some (ascii ''dev'')) (empty_el, dev_sys) = Some (True, quiet_el, quiet_sys) \<and>
   conns_ok (quiet_el, quiet_sys)"
  using agent_connections_invariant [OF agent_world_laws(1) quiet_start quiet_pass] quiet_start by blast
text \<open>
The names of the device and its topics fit their arrays for a device id of up to 92 characters, and
not beyond.
\<close>

theorem device_id_bound:
  assumes "a \<noteq> []"
  shows "cfg_agInit (Some a) \<noteq> None \<longleftrightarrow> length a \<le> 92"
  using assms by (auto simp: cfg_agInit_def sprintf_def split: bind_splits)

theorem device_id_bound_witness:
  "cfg_agInit (Some (replicate 92 0x61)) \<noteq> None \<and> cfg_agInit (Some (replicate 93 0x61)) = None"
  using device_id_bound [of "replicate 92 0x61"] device_id_bound [of "replicate 93 0x61"] by simp

end
