(* ===== verification/Cjson_Print.thy ===== *)
theory Cjson_Print
  imports Cjson_Facts
begin

text \<open>
  The printer of the JSON library (\<open>src/cJSON.c\<close>), and \<open>cJSON_Minify\<close>.

  A printer returns \<open>None\<close> when something undefined happens (a write behind the allocation, a string
  without a NUL), \<open>Some None\<close> when the code returns a null pointer, and otherwise the text without its NUL.
  Allocations are taken to succeed (\<open>Cjson_Heap_Print\<close> has the printer with its allocations); sizes are natural numbers.
\<close>

subsection \<open>Numbers\<close>

text \<open>What \<open>print_number\<close> does with a \<open>double\<close>: arithmetic, the constants and the formats of \<open>sprintf\<close>.\<close>

record 'd printer =
  pr_of_int :: "int \<Rightarrow> 'd"
  pr_sub :: "'d \<Rightarrow> 'd \<Rightarrow> 'd"
  pr_abs :: "'d \<Rightarrow> 'd"
  pr_floor :: "'d \<Rightarrow> 'd"
  pr_le :: "'d \<Rightarrow> 'd \<Rightarrow> bool"
  pr_less :: "'d \<Rightarrow> 'd \<Rightarrow> bool"
  DBL_EPSILON :: 'd
  pr_1e60 :: 'd
  pr_1e_6 :: 'd
  pr_1e9 :: 'd
  fmt_f0 :: "'d \<Rightarrow> u8 list"
  fmt_e :: "'d \<Rightarrow> u8 list"
  fmt_f :: "'d \<Rightarrow> u8 list"

text \<open>The format \<open>%d\<close>.\<close>

fun decimal_nat :: "nat \<Rightarrow> u8 list" where
  "decimal_nat n = (if n < 10 then [0x30 + of_nat n] else decimal_nat (n div 10) @ [0x30 + of_nat (n mod 10)])"

declare decimal_nat.simps [simp del]

definition decimal :: "int \<Rightarrow> u8 list" where
  "decimal i = (if i < 0 then 0x2D # decimal_nat (nat (- i)) else decimal_nat (nat i))"

definition print_number :: "'d printer \<Rightarrow> int \<Rightarrow> 'd \<Rightarrow> u8 list option" where
  "print_number pr i d =
     (if pr_le pr (pr_abs pr (pr_sub pr (pr_of_int pr i) d)) (DBL_EPSILON pr) \<and>
        pr_le pr d (pr_of_int pr (2 ^ 31 - 1)) \<and> pr_le pr (pr_of_int pr (- (2 ^ 31))) d
      then sprintf 21 (decimal i)
      else if pr_le pr (pr_abs pr (pr_sub pr (pr_floor pr d) d)) (DBL_EPSILON pr) \<and> pr_less pr (pr_abs pr d) (pr_1e60 pr)
      then sprintf 64 (fmt_f0 pr d)
      else if pr_less pr (pr_abs pr d) (pr_1e_6 pr) \<or> pr_less pr (pr_1e9 pr) (pr_abs pr d)
      then sprintf 64 (fmt_e pr d)
      else sprintf 64 (fmt_f pr d))"

subsection \<open>Arrays and objects\<close>

text \<open>
  What the loops compose of the texts of the elements, and the sizes that are allocated. \<open>depth\<close> is what
  the code has in that variable at that point.
\<close>

definition when_fmt :: "bool \<Rightarrow> u8 list \<Rightarrow> u8 list" where
  "when_fmt fmt bs = (if fmt then bs else [])"

fun compose_items :: "bool \<Rightarrow> u8 list list \<Rightarrow> u8 list" where
  "compose_items fmt [] = []"
| "compose_items fmt (e # es) = e @ (if es = [] then [] else [0x2C] @ when_fmt fmt [0x20]) @ compose_items fmt es"

definition print_array :: "bool \<Rightarrow> u8 list list \<Rightarrow> u8 list option" where
  "print_array fmt entries =
     (if entries = [] then sprintf 3 (ascii ''[]'')
      else sprintf (5 + sum_list (map (\<lambda>e. length e + 2 + (if fmt then 1 else 0)) entries))
        ([0x5B] @ compose_items fmt entries @ [0x5D]))"

fun compose_members :: "bool \<Rightarrow> nat \<Rightarrow> (u8 list \<times> u8 list) list \<Rightarrow> u8 list" where
  "compose_members fmt depth [] = []"
| "compose_members fmt depth ((name, e) # es) =
     when_fmt fmt (replicate depth 0x09) @ name @ [0x3A] @ when_fmt fmt [0x09] @ e @
     (if es = [] then [] else [0x2C]) @ when_fmt fmt [0x0A] @ compose_members fmt depth es"

definition print_object :: "bool \<Rightarrow> nat \<Rightarrow> (u8 list \<times> u8 list) list \<Rightarrow> u8 list option" where
  "print_object fmt depth entries =
     (if entries = []
      then sprintf (if fmt then depth + 4 else 3) ([0x7B] @ when_fmt fmt ([0x0A] @ replicate (depth - 1) 0x09) @ [0x7D])
      else sprintf (7 + (if fmt then depth + 1 else 0) +
          sum_list (map (\<lambda>(name, e). length e + length name + 2 + (if fmt then 2 + (depth + 1) else 0)) entries))
        ([0x7B] @ when_fmt fmt [0x0A] @ compose_members fmt (depth + 1) entries @ when_fmt fmt (replicate depth 0x09) @ [0x7D]))"

text \<open>
  \<open>print_value\<close>, and the loops of \<open>print_array\<close> and \<open>print_object\<close> that print the elements. The first
  one stops at an element that cannot be printed, the second one does not.
\<close>

fun print_value :: "'d printer \<Rightarrow> 'd cjson \<Rightarrow> nat \<Rightarrow> bool \<Rightarrow> u8 list option option"
  and print_items :: "'d printer \<Rightarrow> 'd cjson list \<Rightarrow> nat \<Rightarrow> bool \<Rightarrow> u8 list list option option"
  and print_members :: "'d printer \<Rightarrow> 'd cjson list \<Rightarrow> nat \<Rightarrow> bool \<Rightarrow> (u8 list \<times> u8 list) list option option" where
  "print_value pr (CJSON ty vs i d nm cs) depth fmt =
     (let t = take_bit 8 ty
      in if t = cJSON_NULL then Some (Some (ascii ''null''))
         else if t = cJSON_False then Some (Some (ascii ''false''))
         else if t = cJSON_True then Some (Some (ascii ''true''))
         else if t = cJSON_Number then map_option Some (print_number pr i d)
         else if t = cJSON_String then do { out \<leftarrow> print_string_ptr vs; Some (Some (cstr out)) }
         else if t = cJSON_Array then do {
           entries \<leftarrow> print_items pr cs (depth + 1) fmt;
           case entries of None \<Rightarrow> Some None | Some es \<Rightarrow> map_option Some (print_array fmt es)
         }
         else if t = cJSON_Object then do {
           entries \<leftarrow> print_members pr cs (depth + 1) fmt;
           case entries of None \<Rightarrow> Some None | Some es \<Rightarrow> map_option Some (print_object fmt depth es)
         }
         else Some None)"
| "print_items pr [] depth fmt = Some (Some [])"
| "print_items pr (c # cs) depth fmt = do {
     e \<leftarrow> print_value pr c depth fmt;
     case e of None \<Rightarrow> Some None
     | Some e \<Rightarrow> do { es \<leftarrow> print_items pr cs depth fmt; Some (map_option ((#) e) es) }
   }"
| "print_members pr [] depth fmt = Some (Some [])"
| "print_members pr (c # cs) depth fmt = do {
     name \<leftarrow> print_string_ptr (cj_string c);
     e \<leftarrow> print_value pr c depth fmt;
     es \<leftarrow> print_members pr cs depth fmt;
     Some (case (e, es) of (Some e, Some es) \<Rightarrow> Some ((cstr name, e) # es) | _ \<Rightarrow> None)
   }"

definition cJSON_Print :: "'d printer \<Rightarrow> 'd cjson \<Rightarrow> u8 list option option" where
  "cJSON_Print pr item = print_value pr item 0 True"

definition cJSON_PrintUnformatted :: "'d printer \<Rightarrow> 'd cjson \<Rightarrow> u8 list option option" where
  "cJSON_PrintUnformatted pr item = print_value pr item 0 False"

subsection \<open>Minifying\<close>

text \<open>
  \<open>cJSON_Minify\<close> works in place, and never writes behind the place where it reads, so the bytes that it
  reads are those of the text as it was. The results are the bytes written and the rest of the text.
\<close>

fun skip_line :: "u8 list \<Rightarrow> u8 list option" where
  "skip_line [] = None"
| "skip_line (b # bs) = (if b \<noteq> 0 \<and> b \<noteq> 0x0A then skip_line bs else Some (b # bs))"

fun skip_comment :: "u8 list \<Rightarrow> u8 list option" where
  "skip_comment [] = None"
| "skip_comment (b # bs) =
     (if b = 0 then Some (drop 2 (b # bs))
      else if b = 0x2A then do { c \<leftarrow> peek bs 0; if c = 0x2F then Some (drop 2 (b # bs)) else skip_comment bs }
      else skip_comment bs)"

fun copy_string :: "u8 list \<Rightarrow> (u8 list \<times> u8 list) option" where
  "copy_string [] = None"
| "copy_string (b # bs) =
     (if b = 0 \<or> b = 0x22 then Some ([b], bs)
      else if b = 0x5C
      then (case bs of [] \<Rightarrow> None | c # cs \<Rightarrow> map_option (\<lambda>(out, q). (b # c # out, q)) (copy_string cs))
      else map_option (\<lambda>(out, q). (b # out, q)) (copy_string bs))"

lemma skip_line_length: "skip_line p = Some q \<Longrightarrow> length q \<le> length p"
  by (induction p rule: skip_line.induct) (auto split: if_splits)

lemma skip_comment_length: "skip_comment p = Some q \<Longrightarrow> length q \<le> length p"
  by (induction p rule: skip_comment.induct) (auto split: if_splits bind_splits)

lemma copy_string_length: "copy_string p = Some (out, q) \<Longrightarrow> length q < length p"
proof (induction p arbitrary: out rule: copy_string.induct)
  case (2 b bs)
  then show ?case by (fastforce split: if_splits list.splits)
qed simp

function minify :: "u8 list \<Rightarrow> u8 list option" where
  "minify [] = None"
| "minify (b # bs) =
     (if b = 0 then Some []
      else if b = 0x20 \<or> b = 0x09 \<or> b = 0x0D \<or> b = 0x0A then minify bs
      else if b = 0x2F then do {
        c \<leftarrow> peek bs 0;
        if c = 0x2F then do { q \<leftarrow> skip_line bs; minify q }
        else if c = 0x2A then do { q \<leftarrow> skip_comment bs; minify q }
        else map_option ((#) b) (minify bs)
      }
      else if b = 0x22 then do { (out, q) \<leftarrow> copy_string bs; map_option (\<lambda>r. b # out @ r) (minify q) }
      else map_option ((#) b) (minify bs))"
  by pat_completeness auto
termination
  by (relation "measure length") (auto dest: skip_line_length skip_comment_length copy_string_length)

definition cJSON_Minify :: "u8 list \<Rightarrow> u8 list option" where
  "cJSON_Minify json = minify json"

end
