(* ===== verification/Cjson_Roundtrip.thy ===== *)
theory Cjson_Roundtrip
  imports Cjson_Print_Facts
begin

text \<open>
  What the printer writes is read back as the tree it was printed from, formatted or not, and
  \<open>cJSON_Minify\<close> makes the unformatted text of the formatted one.
\<close>

subsection \<open>Trees\<close>

text \<open>
  A tree as the parser builds it, with the numbers integers: every number is an \<open>int\<close>, a string is
  there where it has to be, and only arrays and objects have children.
\<close>

fun json_ok :: "'d arith \<Rightarrow> 'd cjson \<Rightarrow> bool" where
  "json_ok ar (CJSON ty vs i d nm cs) \<longleftrightarrow>
     (ty \<in> {cJSON_NULL, cJSON_False, cJSON_True} \<and> cs = []) \<or>
     (ty = cJSON_Number \<and> - (2 ^ 31) \<le> i \<and> i < 2 ^ 31 \<and> d = d_of_int ar i \<and> cs = []) \<or>
     (ty = cJSON_String \<and> (case vs of None \<Rightarrow> False | Some v \<Rightarrow> 0 \<in> set v) \<and> cs = []) \<or>
     (ty = cJSON_Array \<and> (\<forall>c \<in> set cs. json_ok ar c)) \<or>
     (ty = cJSON_Object \<and> (\<forall>c \<in> set cs. json_ok ar c \<and> (case cj_string c of None \<Rightarrow> False | Some v \<Rightarrow> 0 \<in> set v)))"

text \<open>Trees that say the same, whatever the allocations they are kept in.\<close>

fun same_json :: "'d cjson \<Rightarrow> 'd cjson \<Rightarrow> bool"
  and same_children :: "bool \<Rightarrow> 'd cjson list \<Rightarrow> 'd cjson list \<Rightarrow> bool" where
  "same_json (CJSON ty vs i d nm cs) c \<longleftrightarrow> cj_type c = ty \<and>
     (ty = cJSON_String \<longrightarrow> map_option cstr (cj_valuestring c) = map_option cstr vs) \<and>
     (ty = cJSON_Number \<longrightarrow> cj_valueint c = i \<and> cj_valuedouble c = d) \<and>
     same_children (ty = cJSON_Object) cs (cj_child c)"
| "same_children named [] ds \<longleftrightarrow> ds = []"
| "same_children named (c # cs) ds \<longleftrightarrow> (case ds of [] \<Rightarrow> False
     | d # ds \<Rightarrow> same_json c d \<and> (named \<longrightarrow> map_option cstr (cj_string d) = map_option cstr (cj_string c)) \<and>
         same_children named cs ds)"

text \<open>
  Arithmetic on \<open>double\<close> is exact on what fits an \<open>int\<close>. Nothing is said of \<open>- 1 * 0\<close>, which is the
  negative zero.
\<close>

definition exact_arith :: "'d arith \<Rightarrow> bool" where
  "exact_arith ar \<longleftrightarrow>
     (\<forall>a k. 0 \<le> a \<and> 0 \<le> k \<and> k < 10 \<and> 10 * a + k \<le> 2 ^ 31 \<longrightarrow>
        d_add ar (d_mul ar (d_of_int ar a) (d_of_int ar 10)) (d_of_int ar k) = d_of_int ar (10 * a + k)) \<and>
     d_pow ar (d_of_int ar 10) (d_add ar (d_of_int ar 0) (d_of_int ar 0)) = d_of_int ar 1 \<and>
     (\<forall>a. 0 \<le> a \<and> a \<le> 2 ^ 31 \<longrightarrow>
        d_mul ar (d_mul ar (d_of_int ar 1) (d_of_int ar a)) (d_of_int ar 1) = d_of_int ar a) \<and>
     (\<forall>a. 0 < a \<and> a \<le> 2 ^ 31 \<longrightarrow>
        d_mul ar (d_mul ar (d_of_int ar (- 1)) (d_of_int ar a)) (d_of_int ar 1) = d_of_int ar (- a)) \<and>
     (\<forall>a. - (2 ^ 31) \<le> a \<and> a < 2 ^ 31 \<longrightarrow> d_to_int ar (d_of_int ar a) = a)"

text \<open>The printer takes an \<open>int\<close> for one.\<close>

definition prints_ints :: "'d arith \<Rightarrow> 'd printer \<Rightarrow> bool" where
  "prints_ints ar pr \<longleftrightarrow> (\<forall>i. - (2 ^ 31) \<le> i \<and> i < 2 ^ 31 \<longrightarrow>
     pr_le pr (pr_abs pr (pr_sub pr (pr_of_int pr i) (d_of_int ar i))) (DBL_EPSILON pr) \<and>
     pr_le pr (d_of_int ar i) (pr_of_int pr (2 ^ 31 - 1)) \<and> pr_le pr (pr_of_int pr (- (2 ^ 31))) (d_of_int ar i))"

subsection \<open>Numbers\<close>

text \<open>What may stand behind a number.\<close>

definition follows :: "u8 list \<Rightarrow> bool" where
  "follows p \<longleftrightarrow> (case p of [] \<Rightarrow> False | b # q \<Rightarrow> \<not> is_digit b \<and> b \<noteq> 0x2E \<and> b \<noteq> 0x65 \<and> b \<noteq> 0x45)"

lemma decimal_nat_Cons:
  "\<exists>b bs. decimal_nat n = b # bs \<and> is_digit b \<and> (n \<noteq> 0 \<longrightarrow> b \<noteq> 0x30)"
proof (induction n rule: decimal_nat.induct)
  case (1 n)
  show ?case
  proof (cases "n < 10")
    case True
    have "0x30 + of_nat n \<noteq> (0x30 :: u8)" if "n \<noteq> 0"
      using digit_byte [OF True] that by (auto simp: digit_value_def)
    then show ?thesis using True digit_byte [OF True] by (subst decimal_nat.simps) auto
  next
    case False
    then have "n div 10 \<noteq> 0" by auto
    with 1 [OF False] False show ?thesis by (subst decimal_nat.simps) auto
  qed
qed

lemma int_digits_decimal:
  assumes ar: "exact_arith ar"
  shows "n \<le> 2 ^ 31 \<Longrightarrow> int_digits ar (d_of_int ar 0) (decimal_nat n @ p) = int_digits ar (d_of_int ar (int n)) p"
proof (induction n arbitrary: p rule: decimal_nat.induct)
  case (1 n)
  have step: "int_digits ar (d_of_int ar (int a)) ((0x30 + of_nat k) # p) = int_digits ar (d_of_int ar (int (10 * a + k))) p"
    if "k < 10" "10 * a + k \<le> 2 ^ 31" for a k p
  proof -
    have "10 * int a + int k \<le> 2 ^ 31" using that(2) by simp
    then show ?thesis using digit_byte [OF that(1)] ar that(1) by (simp add: exact_arith_def)
  qed
  show ?case
  proof (cases "n < 10")
    case True
    then show ?thesis using step [of n 0] by (subst decimal_nat.simps) simp
  next
    case False
    have "n div 10 \<le> 2 ^ 31" using 1(2) by simp
    then have "int_digits ar (d_of_int ar 0) (decimal_nat n @ p) =
        int_digits ar (d_of_int ar (int (n div 10))) ((0x30 + of_nat (n mod 10)) # p)"
      using 1(1) [OF False] False by (subst decimal_nat.simps) simp
    also have "\<dots> = int_digits ar (d_of_int ar (int n)) p"
      using step [of "n mod 10" "n div 10" p] 1(2) by simp
    finally show ?thesis .
  qed
qed

lemma parse_decimal_nat:
  assumes ar: "exact_arith ar" and n: "n \<le> 2 ^ 31" "neg \<longrightarrow> 0 < n" and p: "follows p"
    and sign: "skip_byte 0x2D num = Some (neg, decimal_nat n @ p)"
  shows "parse_number ar num = (let d = d_of_int ar (if neg then - int n else int n) in
    Some (CJSON cJSON_Number None (d_to_int ar d) d None [], p))"
proof -
  obtain c q where c: "p = c # q" "\<not> is_digit c" "c \<noteq> 0x2E" "c \<noteq> 0x65" "c \<noteq> 0x45"
    using p by (auto simp: follows_def split: list.splits)
  obtain b bs where b: "decimal_nat n = b # bs" "is_digit b" "n \<noteq> 0 \<longrightarrow> b \<noteq> 0x30" using decimal_nat_Cons by blast
  have frac: "parse_fraction ar x p = Some (x, d_of_int ar 0, p)" for x using c by (simp add: parse_fraction_def)
  have ex: "parse_exponent p = Some (0, p)" using c by (simp add: parse_exponent_def)
  have mul: "d_mul ar (d_mul ar (d_of_int ar (if neg then - 1 else 1)) (d_of_int ar (int n)))
      (d_pow ar (d_of_int ar 10) (d_add ar (d_of_int ar 0) (d_of_int ar 0))) = d_of_int ar (if neg then - int n else int n)"
    using ar n by (simp add: exact_arith_def)
  have z: "\<not> is_digit c \<Longrightarrow> int_digits ar x (c # q) = Some (x, c # q)" for x by simp
  show ?thesis
  proof (cases "n = 0")
    case True
    then have "decimal_nat n = [0x30]" by (subst decimal_nat.simps) simp
    then show ?thesis using sign c frac ex mul True by (simp add: parse_number_def skip_byte_def)
  next
    case False
    then have "skip_byte 0x30 (decimal_nat n @ p) = Some (False, decimal_nat n @ p)" using b by (simp add: skip_byte_def)
    moreover have "peek (decimal_nat n @ p) 0 = Some b" "is_digit b \<and> b \<noteq> 0x30" using b False by simp_all
    moreover have "int_digits ar (d_of_int ar 0) (decimal_nat n @ p) = Some (d_of_int ar (int n), p)"
      using int_digits_decimal [OF ar n(1), of p] c by simp
    ultimately show ?thesis using sign frac ex mul by (simp add: parse_number_def Let_def)
  qed
qed

lemma parse_decimal:
  assumes ar: "exact_arith ar" and i: "- (2 ^ 31) \<le> i" "i < 2 ^ 31" and p: "follows p"
  shows "parse_number ar (decimal i @ p) = Some (CJSON cJSON_Number None i (d_of_int ar i) None [], p)"
proof -
  have d: "d_to_int ar (d_of_int ar i) = i" using ar i by (simp add: exact_arith_def)
  obtain b bs where b: "decimal_nat (nat i) = b # bs" "is_digit b" using decimal_nat_Cons by blast
  show ?thesis
  proof (cases "i < 0")
    case True
    have s: "skip_byte 0x2D (decimal i @ p) = Some (True, decimal_nat (nat (- i)) @ p)"
      using True by (simp add: decimal_def skip_byte_def)
    have "nat (- i) \<le> 2 ^ 31" "True \<longrightarrow> 0 < nat (- i)" using i True by simp_all
    from parse_decimal_nat [OF ar this p s] True d show ?thesis by (simp add: Let_def)
  next
    case False
    have s: "skip_byte 0x2D (decimal i @ p) = Some (False, decimal_nat (nat i) @ p)"
      using False b by (auto simp: decimal_def skip_byte_def is_digit_def)
    have "nat i \<le> 2 ^ 31" "False \<longrightarrow> 0 < nat i" using i by simp_all
    from parse_decimal_nat [OF ar this p s] False d show ?thesis by (simp add: Let_def)
  qed
qed

subsection \<open>What is written is read back\<close>

definition white :: "u8 list \<Rightarrow> bool" where
  "white ws \<longleftrightarrow> (\<forall>b \<in> set ws. b \<noteq> 0 \<and> b \<le> 32)"

lemma skip_white: "white ws \<Longrightarrow> \<not> b \<le> 32 \<Longrightarrow> skip (ws @ b # p) = Some (b # p)"
  by (induction ws) (auto simp: white_def)

lemma white_simps [simp]: "white []" "white (b # ws) \<longleftrightarrow> b \<noteq> 0 \<and> b \<le> 32 \<and> white ws" "white (vs @ ws) \<longleftrightarrow> white vs \<and> white ws"
  "b \<noteq> 0 \<Longrightarrow> b \<le> 32 \<Longrightarrow> white (replicate n b)"
  by (auto simp: white_def)

lemma white_when [simp]: "white bs \<Longrightarrow> white (when_fmt fmt bs)"
  by (simp add: when_fmt_def)

text \<open>A text that is read back as a tree like \<open>c\<close>, wherever it stands.\<close>

definition reads :: "'d arith \<Rightarrow> u8 list \<Rightarrow> 'd cjson \<Rightarrow> bool" where
  "reads ar out c \<longleftrightarrow> (\<exists>b bs. out = b # bs \<and> \<not> b \<le> 32 \<and> b \<noteq> 0x5D) \<and>
     (\<forall>p. follows p \<longrightarrow> (\<exists>d. parse_value ar (out @ p) = Some (Inr (d, p)) \<and> same_json c d))"

lemma reads_Cons: "reads ar out c \<Longrightarrow> \<exists>b bs. out = b # bs \<and> \<not> b \<le> 32 \<and> b \<noteq> 0x5D"
  by (simp add: reads_def)

lemma reads_parse: "reads ar out c \<Longrightarrow> follows p \<Longrightarrow> \<exists>d. parse_value ar (out @ p) = Some (Inr (d, p)) \<and> same_json c d"
  by (simp add: reads_def)

lemma skip_reads: "reads ar out c \<Longrightarrow> white ws \<Longrightarrow> skip (ws @ out @ p) = Some (out @ p)"
  using reads_Cons [of ar out c] skip_white [of ws] by auto

lemma follows_white: "white ws \<Longrightarrow> follows (b # p) \<Longrightarrow> follows (ws @ b # p)"
  by (cases ws) (auto simp: follows_def is_digit_def word_le_nat_alt)

lemma follows_simps [simp]: "follows (0x2C # p)" "follows (0x5D # p)" "follows (0x7D # p)" "follows (0 # p)"
  by (simp_all add: follows_def is_digit_def)

text \<open>Arrays.\<close>

lemma items_read:
  assumes "list_all2 (reads ar) es cs" and "es \<noteq> []" and "white ws"
  shows "\<exists>ds. parse_items ar acc (ws @ compose_items fmt es @ 0x5D # p) = Some (Inr (compound ar cJSON_Array (acc @ ds), p)) \<and>
    same_children False cs ds"
  using assms
proof (induction es arbitrary: cs acc ws)
  case (Cons e es)
  obtain c cs' where cs: "cs = c # cs'" "reads ar e c" "list_all2 (reads ar) es cs'"
    using Cons.prems(1) by (auto simp: list_all2_Cons1)
  show ?case
  proof (cases "es = []")
    case True
    obtain d where "parse_value ar (e @ 0x5D # p) = Some (Inr (d, 0x5D # p))" "same_json c d"
      using reads_parse [OF cs(2), of "0x5D # p"] by auto
    with True cs skip_reads [OF cs(2) Cons.prems(3)] show ?thesis
      by (intro exI [of _ "[d]"]) (simp add: parse_loops)
  next
    case False
    let ?rest = "when_fmt fmt [0x20] @ compose_items fmt es @ 0x5D # p"
    obtain d where d: "parse_value ar (e @ 0x2C # ?rest) = Some (Inr (d, 0x2C # ?rest))" "same_json c d"
      using reads_parse [OF cs(2), of "0x2C # ?rest"] by auto
    obtain ds where "parse_items ar (acc @ [d]) ?rest = Some (Inr (compound ar cJSON_Array ((acc @ [d]) @ ds), p))"
      "same_children False cs' ds"
      using Cons.IH [OF cs(3) False, of "when_fmt fmt [0x20]" "acc @ [d]"] by auto
    with d False cs skip_reads [OF cs(2) Cons.prems(3)] show ?thesis
      by (intro exI [of _ "d # ds"]) (simp add: parse_loops)
  qed
qed simp

text \<open>Objects.\<close>

definition member_reads :: "'d arith \<Rightarrow> u8 list \<times> u8 list \<Rightarrow> 'd cjson \<Rightarrow> bool" where
  "member_reads ar e c \<longleftrightarrow> reads ar (snd e) c \<and>
     (\<exists>v. cj_string c = Some v \<and> 0 \<in> set v \<and> fst e = quoted (cstr v))"

lemma rename_simps [simp]: "cj_string (rename_item n c) = Some n" "same_json c (rename_item n d) = same_json c d"
  by (simp add: rename_item_def, cases c, simp add: rename_item_def)

lemma parse_quoted:
  "0 \<in> set v \<Longrightarrow> p \<noteq> [] \<Longrightarrow> \<exists>w. parse_string (quoted (cstr v) @ p) = Some (Inr (w, p)) \<and> cstr w = cstr v"
  using parse_print_string [of "cstr v" p] str_split [of v] by (auto simp: quoted_def)

lemma member_read:
  assumes e: "member_reads ar (n, e) c" and ws: "white ws" and p: "follows p"
  shows "\<exists>w d. cstr w = cstr (the (cj_string c)) \<and> same_json c d \<and>
    parse_members ar acc (ws @ n @ 0x3A # when_fmt fmt [0x09] @ e @ p) = do {
      q \<leftarrow> skip p;
      b \<leftarrow> peek q 0;
      if b = 0x2C then parse_members ar (acc @ [rename_item w d]) (tl q)
      else if b = 0x7D then Some (Inr (compound ar cJSON_Object (acc @ [rename_item w d]), tl q))
      else Some (Inl q) }"
proof -
  obtain v where v: "cj_string c = Some v" "0 \<in> set v" "n = quoted (cstr v)" and r: "reads ar e c"
    using e by (auto simp: member_reads_def)
  let ?rest = "when_fmt fmt [0x09] @ e @ p"
  obtain w where w: "parse_string (n @ 0x3A # ?rest) = Some (Inr (w, 0x3A # ?rest))" "cstr w = cstr v"
    using parse_quoted [OF v(2), of "0x3A # ?rest"] v(3) by auto
  obtain d where d: "parse_value ar (e @ p) = Some (Inr (d, p))" "same_json c d" using reads_parse [OF r p] by blast
  have "skip (ws @ n @ 0x3A # ?rest) = Some (n @ 0x3A # ?rest)"
    using skip_white [OF ws, of "0x22"] by (simp add: v(3) quoted_def)
  moreover have "skip ?rest = Some (e @ p)" using skip_reads [OF r, of "when_fmt fmt [0x09]" p] by simp
  ultimately show ?thesis using w d v(1)
    by (intro exI [of _ w] exI [of _ d]) (subst parse_members.simps, simp)
qed

lemma members_read:
  assumes "list_all2 (member_reads ar) es cs" and "es \<noteq> []" and "white ws" and "white we"
  shows "\<exists>ds. parse_members ar acc (ws @ compose_members fmt depth es @ we @ 0x7D # p) =
      Some (Inr (compound ar cJSON_Object (acc @ ds), p)) \<and> same_children True cs ds"
  using assms
proof (induction es arbitrary: cs acc ws)
  case (Cons e es)
  obtain n t where e: "e = (n, t)" by fastforce
  obtain c cs' where cs: "cs = c # cs'" "member_reads ar (n, t) c" "list_all2 (member_reads ar) es cs'"
    using Cons.prems(1) by (auto simp: list_all2_Cons1 e)
  have named: "cj_string c \<noteq> None" using cs(2) by (auto simp: member_reads_def)
  have ws: "white (ws @ when_fmt fmt (replicate depth 0x09))" using Cons.prems(3) by simp
  show ?case
  proof (cases "es = []")
    case True
    have we: "white (when_fmt fmt [0x0A] @ we)" using Cons.prems(4) by simp
    have "follows ((when_fmt fmt [0x0A] @ we) @ 0x7D # p)" by (rule follows_white [OF we]) simp
    from member_read [OF cs(2) ws this, of acc fmt] obtain w d where wd: "cstr w = cstr (the (cj_string c))" "same_json c d"
      "parse_members ar acc ((ws @ when_fmt fmt (replicate depth 0x09)) @ n @ 0x3A # when_fmt fmt [0x09] @ t @
         (when_fmt fmt [0x0A] @ we) @ 0x7D # p) = Some (Inr (compound ar cJSON_Object (acc @ [rename_item w d]), p))"
      using skip_white [OF we, of "0x7D" p] by auto
    then show ?thesis using True named cs(3) by (intro exI [of _ "[rename_item w d]"]) (auto simp: e cs(1))
  next
    case False
    let ?rest = "when_fmt fmt [0x0A] @ compose_members fmt depth es @ we @ 0x7D # p"
    have "follows (0x2C # ?rest)" by simp
    from member_read [OF cs(2) ws this, of acc fmt] obtain w d where wd: "cstr w = cstr (the (cj_string c))" "same_json c d"
      "parse_members ar acc ((ws @ when_fmt fmt (replicate depth 0x09)) @ n @ 0x3A # when_fmt fmt [0x09] @ t @ 0x2C # ?rest) =
        parse_members ar (acc @ [rename_item w d]) ?rest" by auto
    obtain ds where "parse_members ar (acc @ [rename_item w d]) ?rest =
        Some (Inr (compound ar cJSON_Object ((acc @ [rename_item w d]) @ ds), p))" "same_children True cs' ds"
      using Cons.IH [OF cs(3) False, of "when_fmt fmt [0x0A]" "acc @ [rename_item w d]"] Cons.prems(4) by auto
    then show ?thesis using wd False named by (intro exI [of _ "rename_item w d # ds"]) (auto simp: e cs(1))
  qed
qed simp

text \<open>Leaves.\<close>

lemma compound_same: "same_json (CJSON cJSON_Array vs i d nm cs) (compound ar cJSON_Array ds) = same_children False cs ds"
  "same_json (CJSON cJSON_Object vs i d nm cs) (compound ar cJSON_Object ds) = same_children True cs ds"
  by (simp_all add: compound_def cJSON_types)

lemma reads_simple:
  assumes "out = b # bs" and "\<not> b \<le> 32" and "b \<noteq> 0x5B" "b \<noteq> 0x5D" "b \<noteq> 0x7B"
    and "\<And>p. follows p \<Longrightarrow> \<exists>d. parse_simple ar (out @ p) = Some (Inr (d, p)) \<and> same_json c d"
  shows "reads ar out c"
  using assms(6) by (simp add: reads_def assms(1-5) parse_loops)

lemma reads_null: "reads ar (ascii ''null'') (CJSON cJSON_NULL vs i d nm [])"
  by (rule reads_simple [of _ "0x6E"]) (simp_all add: parse_simple_def ascii_def new_item_def cJSON_types)

lemma reads_false: "reads ar (ascii ''false'') (CJSON cJSON_False vs i d nm [])"
  by (rule reads_simple [of _ "0x66"]) (simp_all add: parse_simple_def ascii_def new_item_def cJSON_types)

lemma reads_true: "reads ar (ascii ''true'') (CJSON cJSON_True vs i d nm [])"
  by (rule reads_simple [of _ "0x74"]) (simp_all add: parse_simple_def ascii_def cJSON_types)

lemma reads_string:
  assumes "0 \<in> set v"
  shows "reads ar (quoted (cstr v)) (CJSON cJSON_String (Some v) i d nm [])"
proof (rule reads_simple [of _ "0x22" "print_all (cstr v) @ [0x22]"])
  fix p assume "follows p"
  then have "p \<noteq> []" by (auto simp: follows_def)
  then obtain w where "parse_string (quoted (cstr v) @ p) = Some (Inr (w, p))" "cstr w = cstr v"
    using parse_quoted [OF assms] by blast
  then show "\<exists>e. parse_simple ar (quoted (cstr v) @ p) = Some (Inr (e, p)) \<and> same_json (CJSON cJSON_String (Some v) i d nm []) e"
    by (simp add: parse_simple_def quoted_def ascii_def cJSON_types)
qed (simp_all add: quoted_def)

lemma reads_number:
  assumes ar: "exact_arith ar" and i: "- (2 ^ 31) \<le> i" "i < 2 ^ 31"
  shows "reads ar (decimal i) (CJSON cJSON_Number vs i (d_of_int ar i) nm [])"
proof -
  obtain c cs where "decimal_nat (nat i) = c # cs" "is_digit c" using decimal_nat_Cons by blast
  then obtain b bs where b: "decimal i = b # bs" "b = 0x2D \<or> is_digit b"
    by (cases "i < 0") (simp_all add: decimal_def)
  then have plain: "\<not> b \<le> 32" "b \<noteq> 0x5B" "b \<noteq> 0x5D" "b \<noteq> 0x7B" "b \<noteq> 0x6E" "b \<noteq> 0x66" "b \<noteq> 0x74" "b \<noteq> 0x22"
    by (auto simp: is_digit_def word_le_nat_alt)
  have lit: "starts_with (decimal i @ p) (ascii ''null'') = Some False" "starts_with (decimal i @ p) (ascii ''false'') = Some False"
    "starts_with (decimal i @ p) (ascii ''true'') = Some False" for p using plain by (simp_all add: b(1) ascii_def)
  have "parse_simple ar (decimal i @ p) = Some (Inr (CJSON cJSON_Number None i (d_of_int ar i) None [], p))" if "follows p" for p
    using parse_decimal [OF ar i that] b plain by (simp add: parse_simple_def lit [unfolded b(1) append_Cons])
  then show ?thesis by (intro reads_simple [OF b(1) plain(1-4)]) (simp add: cJSON_types)
qed

text \<open>A text that starts with a bracket.\<close>

lemma reads_array:
  assumes "list_all2 (reads ar) es cs"
  shows "reads ar ([0x5B] @ compose_items fmt es @ [0x5D]) (CJSON cJSON_Array vs i d nm cs)"
proof -
  have "\<exists>t. parse_value ar (([0x5B] @ compose_items fmt es @ [0x5D]) @ p) = Some (Inr (t, p)) \<and>
      same_json (CJSON cJSON_Array vs i d nm cs) t" for p
  proof (cases es)
    case Nil
    then show ?thesis using assms by (simp add: parse_loops compound_def cJSON_types)
  next
    case (Cons e es')
    obtain ds where ds: "parse_items ar [] (compose_items fmt es @ 0x5D # p) = Some (Inr (compound ar cJSON_Array ds, p))"
      "same_children False cs ds" using items_read [OF assms, of "[]" "[]" fmt p] Cons by auto
    obtain c cs' where "reads ar e c" using assms Cons by (auto simp: list_all2_Cons1)
    from reads_Cons [OF this] obtain b bs where "e = b # bs" "\<not> b \<le> 32" "b \<noteq> 0x5D" by blast
    then obtain q where q: "compose_items fmt es @ 0x5D # p = b # q" "\<not> b \<le> 32" "b \<noteq> 0x5D" by (simp add: Cons)
    then have "parse_value ar (([0x5B] @ compose_items fmt es @ [0x5D]) @ p) = parse_items ar [] (compose_items fmt es @ 0x5D # p)"
      by (subst parse_value.simps) simp
    with ds show ?thesis by (intro exI [of _ "compound ar cJSON_Array ds"]) (simp only: compound_same simp_thms)
  qed
  then show ?thesis by (simp add: reads_def)
qed

lemma reads_object:
  assumes "list_all2 (member_reads ar) es cs"
  shows "reads ar (object_text fmt depth es) (CJSON cJSON_Object vs i d nm cs)"
proof -
  have "\<exists>t. parse_value ar (object_text fmt depth es @ p) = Some (Inr (t, p)) \<and>
      same_json (CJSON cJSON_Object vs i d nm cs) t" for p
  proof (cases es)
    case Nil
    have "skip (when_fmt fmt [0x0A] @ when_fmt fmt (replicate (depth - 1) 0x09) @ 0x7D # p) = Some (0x7D # p)"
      using skip_white [of "when_fmt fmt [0x0A] @ when_fmt fmt (replicate (depth - 1) 0x09)" "0x7D" p] by simp
    then show ?thesis using Nil assms by (simp add: parse_value.simps compound_def cJSON_types object_text_def)
  next
    case (Cons e es')
    let ?tail = "when_fmt fmt (replicate depth 0x09) @ 0x7D # p"
    obtain n t where e: "e = (n, t)" by fastforce
    obtain c where "member_reads ar (n, t) c" using assms Cons e by (auto simp: list_all2_Cons1)
    then obtain bs where n: "n = 0x22 # bs" by (auto simp: member_reads_def quoted_def)
    let ?q = "n @ 0x3A # when_fmt fmt [0x09] @ t @ (if es' = [] then [] else [0x2C]) @ when_fmt fmt [0x0A] @
      compose_members fmt (depth + 1) es' @ ?tail"
    have ws: "white (when_fmt fmt [0x0A] @ when_fmt fmt (replicate (depth + 1) 0x09))" by simp
    have q: "when_fmt fmt [0x0A] @ compose_members fmt (depth + 1) es @ ?tail =
        (when_fmt fmt [0x0A] @ when_fmt fmt (replicate (depth + 1) 0x09)) @ ?q" by (simp add: Cons e)
    have skip: "skip (when_fmt fmt [0x0A] @ compose_members fmt (depth + 1) es @ ?tail) = Some ?q"
      unfolding q using skip_white [OF ws, of "0x22"] by (simp add: n)
    obtain ds where ds: "parse_members ar [] (when_fmt fmt [0x0A] @ compose_members fmt (depth + 1) es @ ?tail) =
        Some (Inr (compound ar cJSON_Object ds, p))" "same_children True cs ds"
      using members_read [OF assms, of "when_fmt fmt [0x0A]" "when_fmt fmt (replicate depth 0x09)" "[]" fmt "depth + 1" p] Cons by auto
    have "skip ?q = Some ?q" by (simp add: n)
    then have "parse_members ar [] ?q = parse_members ar [] (when_fmt fmt [0x0A] @ compose_members fmt (depth + 1) es @ ?tail)"
      using skip by (subst (1 2) parse_members.simps) simp
    moreover have "parse_value ar (object_text fmt depth es @ p) = parse_members ar [] ?q"
      using skip by (simp add: parse_value.simps object_text_def Cons n)
    ultimately show ?thesis using ds
      by (intro exI [of _ "compound ar cJSON_Object ds"]) (simp only: compound_same simp_thms)
  qed
  then show ?thesis by (simp add: reads_def object_text_def)
qed

text \<open>What is printed is read back.\<close>

lemma decimal_printed:
  "prints_ints ar pr \<Longrightarrow> - (2 ^ 31) \<le> i \<Longrightarrow> i < 2 ^ 31 \<Longrightarrow> print_number pr i (d_of_int ar i) = Some (decimal i)"
  using decimal_number(1) [of i] by (simp add: print_number_def prints_ints_def sprintf_def)

lemma print_reads:
  assumes ar: "exact_arith ar"
  shows "json_ok ar c \<Longrightarrow> prints_ints ar pr \<Longrightarrow> \<exists>out. print_value pr c depth fmt = Some (Some out) \<and> reads ar out c"
    and "\<forall>c \<in> set cs. json_ok ar c \<Longrightarrow> prints_ints ar pr \<Longrightarrow>
      \<exists>es. print_items pr cs depth fmt = Some (Some es) \<and> list_all2 (reads ar) es cs"
    and "\<forall>c \<in> set cs. json_ok ar c \<and> (case cj_string c of None \<Rightarrow> False | Some v \<Rightarrow> 0 \<in> set v) \<Longrightarrow> prints_ints ar pr \<Longrightarrow>
      \<exists>es. print_members pr cs depth fmt = Some (Some es) \<and> list_all2 (member_reads ar) es cs"
proof (induction pr c depth fmt and pr cs depth fmt and pr cs depth fmt rule: print_value_print_items_print_members.induct)
  case (1 pr ty vs i d nm cs depth fmt)
  note ok = 1(3) and pr = 1(4)
  consider (lit) "ty \<in> {cJSON_NULL, cJSON_False, cJSON_True}" "cs = []"
    | (num) "ty = cJSON_Number" "- (2 ^ 31) \<le> i" "i < 2 ^ 31" "d = d_of_int ar i" "cs = []"
    | (str) v where "ty = cJSON_String" "vs = Some v" "0 \<in> set v" "cs = []"
    | (arr) "ty = cJSON_Array" "\<forall>c \<in> set cs. json_ok ar c"
    | (obj) "ty = cJSON_Object" "\<forall>c \<in> set cs. json_ok ar c \<and> (case cj_string c of None \<Rightarrow> False | Some v \<Rightarrow> 0 \<in> set v)"
    using ok unfolding json_ok.simps by (auto split: option.splits)
  then show ?case
  proof cases
    case lit
    then show ?thesis using reads_null reads_false reads_true by (auto simp: cJSON_types)
  next
    case num
    then show ?thesis using decimal_printed [OF pr num(2,3)] reads_number [OF ar num(2,3)] by (simp add: cJSON_types)
  next
    case str
    then show ?thesis using print_string_quoted [OF str(3)] reads_string [OF str(3)] by (auto simp: cJSON_types)
  next
    case arr
    have t: "take_bit 8 ty = cJSON_Array" using arr by (simp add: cJSON_types)
    obtain es where "print_items pr cs (depth + 1) fmt = Some (Some es)" "list_all2 (reads ar) es cs"
      using 1(1) [OF refl] t arr(2) pr by (auto simp: cJSON_types)
    then show ?thesis using t arr(1) reads_array by (simp add: cJSON_types print_array_eq)
  next
    case obj
    have t: "take_bit 8 ty = cJSON_Object" using obj by (simp add: cJSON_types)
    obtain es where "print_members pr cs (depth + 1) fmt = Some (Some es)" "list_all2 (member_reads ar) es cs"
      using 1(2) [OF refl] t obj(2) pr by (auto simp: cJSON_types)
    then show ?thesis using t obj(1) reads_object by (simp add: cJSON_types print_object_eq)
  qed
next
  case (3 pr c cs depth fmt)
  obtain e where e: "print_value pr c depth fmt = Some (Some e)" "reads ar e c" using 3(1,3,4) by auto
  obtain es where "print_items pr cs depth fmt = Some (Some es)" "list_all2 (reads ar) es cs"
    using 3(2) [OF e(1)] 3(3,4) by auto
  with e show ?case by simp
next
  case (5 pr c cs depth fmt)
  obtain v where v: "cj_string c = Some v" "0 \<in> set v" using 5(3) by (auto split: option.splits)
  obtain n where n: "print_string_ptr (cj_string c) = Some n" "cstr n = quoted (cstr v)"
    using print_string_quoted [OF v(2)] v(1) by auto
  obtain e where e: "print_value pr c depth fmt = Some (Some e)" "reads ar e c" using 5(1) [OF n(1)] 5(3,4) by auto
  obtain es where "print_members pr cs depth fmt = Some (Some es)" "list_all2 (member_reads ar) es cs"
    using 5(2) [OF n(1) e(1)] 5(3,4) by auto
  moreover have "member_reads ar (cstr n, e) c" using n(2) e(2) v by (simp add: member_reads_def)
  ultimately show ?case using n(1) e(1) by simp
qed auto

subsection \<open>Minifying\<close>

text \<open>A text that \<open>cJSON_Minify\<close> turns into another one, whatever comes behind it.\<close>

definition minified :: "u8 list \<Rightarrow> u8 list \<Rightarrow> bool" where
  "minified a b \<longleftrightarrow> (\<forall>p. minify (a @ p) = (case minify p of None \<Rightarrow> None | Some r \<Rightarrow> Some (b @ r)))"

lemma minified_Nil [simp]: "minified [] []"
  by (simp add: minified_def split: option.splits)

lemma minified_append: "minified a b \<Longrightarrow> minified a' b' \<Longrightarrow> minified (a @ a') (b @ b')"
  by (simp add: minified_def split: option.splits)

lemma minified_byte: "number_byte b \<Longrightarrow> minified [b] [b]"
  by (auto simp: minified_def number_byte_def split: option.splits)

lemma minified_text: "list_all number_byte s \<Longrightarrow> minified s s"
proof (induction s)
  case (Cons b s)
  then show ?case using minified_append [OF minified_byte [of b], of s s] by simp
qed simp

lemma minified_white: "\<forall>b \<in> set ws. b = 0x20 \<or> b = 0x09 \<or> b = 0x0D \<or> b = 0x0A \<Longrightarrow> minified (ws @ a) b = minified a b"
  by (induction ws) (auto simp: minified_def)

lemma minified_when: "\<forall>b \<in> set ws. b = 0x20 \<or> b = 0x09 \<or> b = 0x0D \<or> b = 0x0A \<Longrightarrow> minified (when_fmt fmt ws @ a) b = minified a b"
  by (simp add: when_fmt_def minified_white)

lemma copy_print_byte:
  assumes "b \<noteq> 0"
  shows "copy_string (print_byte b @ p) = map_option (\<lambda>(out, q). (print_byte b @ out, q)) (copy_string p)"
proof -
  have "unat b < 2 ^ LENGTH(8)" by (rule unsigned_less)
  then have h: "unat b div 16 < 16" "unat b mod 16 < 16" by (simp_all add: less_mult_imp_div_less)
  show ?thesis using assms hex_char_plain [OF h(1)] hex_char_plain [OF h(2)]
    by (cases "copy_string p") (auto simp: print_byte_def)
qed

lemma copy_print_all: "0 \<notin> set s \<Longrightarrow> copy_string (print_all s @ 0x22 # p) = Some (print_all s @ [0x22], p)"
  by (induction s) (simp_all add: copy_print_byte)

lemma minified_quoted: "0 \<notin> set s \<Longrightarrow> minified (quoted s) (quoted s)"
  by (simp add: minified_def quoted_def copy_print_all split: option.splits)

lemma minified_items:
  assumes "list_all2 minified as bs"
  shows "minified (compose_items True as) (compose_items False bs)"
  using assms
proof (induction as arbitrary: bs)
  case (Cons a as)
  obtain b bs' where bs: "bs = b # bs'" "minified a b" "list_all2 minified as bs'"
    using Cons.prems by (auto simp: list_all2_Cons1)
  have "minified ([0x2C] @ [0x20] @ compose_items True as) ([0x2C] @ compose_items False bs')"
    using Cons.IH [OF bs(3)] minified_white [of "[0x20]"] by (intro minified_append minified_byte) (simp_all add: number_byte_def)
  moreover have "as = [] \<longleftrightarrow> bs' = []" using bs(3) by auto
  ultimately show ?case using minified_append [OF bs(2)] bs(1,2)
    by (cases "as = []") (simp_all add: when_fmt_def)
qed simp

definition same_member :: "u8 list \<times> u8 list \<Rightarrow> u8 list \<times> u8 list \<Rightarrow> bool" where
  "same_member a b \<longleftrightarrow> fst a = fst b \<and> minified (fst a) (fst b) \<and> minified (snd a) (snd b)"

lemma minified_members:
  assumes "list_all2 same_member as bs"
  shows "minified (compose_members True depth as) (compose_members False depth' bs)"
  using assms
proof (induction as arbitrary: bs)
  case (Cons a as)
  obtain n e where a: "a = (n, e)" by fastforce
  obtain e' bs' where bs: "bs = (n, e') # bs'" "minified n n" "minified e e'" "list_all2 same_member as bs'"
    using Cons.prems unfolding list_all2_Cons1 by (auto simp: same_member_def [of "(n, e)"] a)
  have colon: "minified [0x3A] [0x3A]" "minified (if as = [] then [] else [0x2C]) (if as = [] then [] else [0x2C])"
    by (simp_all add: minified_byte number_byte_def)
  have emp: "as = [] \<longleftrightarrow> bs' = []" using bs(4) by auto
  let ?comma = "if as = [] then [] else [0x2C]"
  have "minified ([0x0A] @ compose_members True depth as) (compose_members False depth' bs')"
    using Cons.IH [OF bs(4)] minified_white [of "[0x0A]"] by simp
  from minified_append [OF bs(3) minified_append [OF colon(2) this]]
  have "minified ([0x09] @ e @ ?comma @ [0x0A] @ compose_members True depth as) (e' @ ?comma @ compose_members False depth' bs')"
    using minified_white [of "[0x09]"] by simp
  from minified_append [OF bs(2) minified_append [OF colon(1) this]]
  show ?case using minified_white [of "replicate depth 0x09"] emp by (simp add: a bs(1) when_fmt_def)
qed simp

lemma members_plain: "compose_members False d es = compose_members False 0 es"
  by (induction es) (auto simp: when_fmt_def)

lemma object_plain: "object_text False d es = object_text False 0 es"
  using members_plain [of "d + 1"] members_plain [of "0 + 1"] by (simp add: object_text_def when_fmt_def)

lemma minified_object:
  assumes "list_all2 same_member as bs"
  shows "minified (object_text True depth as) (object_text False depth' bs)"
proof -
  let ?tabs = "replicate (if as = [] then depth - 1 else depth) 0x09"
  have brace: "minified [0x7B] [0x7B]" "minified [0x7D] [0x7D]" by (simp_all add: minified_byte number_byte_def)
  have "minified (?tabs @ [0x7D]) [0x7D]" using brace(2) minified_white [of ?tabs] by simp
  then have "minified ([0x0A] @ compose_members True (depth + 1) as @ ?tabs @ [0x7D]) (compose_members False (depth' + 1) bs @ [0x7D])"
    using minified_append [OF minified_members [OF assms]] minified_white [of "[0x0A]"] by simp
  from minified_append [OF brace(1) this] show ?thesis by (simp add: object_text_def when_fmt_def)
qed

lemma minified_array:
  assumes "list_all2 minified as bs"
  shows "minified ([0x5B] @ compose_items True as @ [0x5D]) ([0x5B] @ compose_items False bs @ [0x5D])"
  by (intro minified_append minified_byte minified_items assms) (simp_all add: number_byte_def)

text \<open>The formatted text of a tree minifies to the unformatted one.\<close>

lemma cstr_empty: "cstr [0] = []"
  by (simp add: cstr_def)

lemma print_string_minified:
  assumes "str_ok s" and "print_string_ptr s = Some out"
  shows "minified (cstr out) (cstr out)"
proof (cases s)
  case None
  then show ?thesis using assms(2) cstr_empty by (auto simp: print_string_ptr_def)
next
  case (Some v)
  then obtain r where "v = cstr v @ 0 # r" "0 \<notin> set (cstr v)" using assms(1) str_split by (auto simp: str_ok_def)
  then show ?thesis using print_string_quoted [of v] assms Some minified_quoted by (auto simp: str_ok_def)
qed

lemma print_minified:
  assumes pr: "formats_ok pr"
  shows "terminated c \<Longrightarrow> fmt \<Longrightarrow> pr = pr' \<Longrightarrow> print_value pr c depth fmt = Some (Some a) \<Longrightarrow>
      \<exists>b. (\<forall>d. print_value pr c d False = Some (Some b)) \<and> minified a b"
    and "\<forall>c \<in> set cs. terminated c \<Longrightarrow> fmt \<Longrightarrow> pr = pr' \<Longrightarrow> print_items pr cs depth fmt = Some (Some as) \<Longrightarrow>
      \<exists>bs. (\<forall>d. print_items pr cs d False = Some (Some bs)) \<and> list_all2 minified as bs"
    and "\<forall>c \<in> set cs. terminated c \<Longrightarrow> fmt \<Longrightarrow> pr = pr' \<Longrightarrow> print_members pr cs depth fmt = Some (Some ms) \<Longrightarrow>
      \<exists>bs. (\<forall>d. print_members pr cs d False = Some (Some bs)) \<and> list_all2 same_member ms bs"
  using pr
proof (induction pr c depth fmt and pr cs depth fmt and pr cs depth fmt arbitrary: a and as and ms
    rule: print_value_print_items_print_members.induct)
  case (1 pr ty vs i d nm cs depth fmt)
  let ?t = "take_bit 8 ty"
  have int: "- (2 ^ 31) \<le> i" "i < 2 ^ 31" and str: "str_ok vs" and cs: "\<forall>c \<in> set cs. terminated c" using 1(3) by simp_all
  consider (lit) "?t \<in> {cJSON_NULL, cJSON_False, cJSON_True}" | (num) "?t = cJSON_Number" | (str) "?t = cJSON_String"
    | (arr) "?t = cJSON_Array" | (obj) "?t = cJSON_Object"
    | (other) "?t \<notin> {cJSON_NULL, cJSON_False, cJSON_True, cJSON_Number, cJSON_String, cJSON_Array, cJSON_Object}" by blast
  then show ?case
  proof cases
    case lit
    have "minified (ascii ''null'') (ascii ''null'')" "minified (ascii ''false'') (ascii ''false'')"
      "minified (ascii ''true'') (ascii ''true'')" by (simp_all add: minified_text ascii_def number_byte_def)
    then show ?thesis using lit 1(6) by (auto simp: cJSON_types)
  next
    case num
    then show ?thesis using print_number_text [OF 1(7) int, of d] 1(6) minified_text by (auto simp: cJSON_types)
  next
    case str
    then obtain out where "print_string_ptr vs = Some out" "a = cstr out" using 1(6) by (auto simp: cJSON_types split: bind_splits)
    then show ?thesis using str print_string_minified [OF \<open>str_ok vs\<close>] by (auto simp: cJSON_types)
  next
    case arr
    obtain as where as: "print_items pr cs (depth + 1) fmt = Some (Some as)" "a = [0x5B] @ compose_items fmt as @ [0x5D]"
      using arr 1(6) by (auto simp: cJSON_types print_array_eq split: bind_splits option.splits)
    obtain bs where "\<forall>d. print_items pr cs d False = Some (Some bs)" "list_all2 minified as bs"
      using 1(1) [OF refl _ _ _ _ _ _ cs 1(4,5) as(1) 1(7)] arr by (auto simp: cJSON_types)
    then show ?thesis using arr as(2) minified_array 1(4) by (auto simp: cJSON_types print_array_eq)
  next
    case obj
    obtain as where as: "print_members pr cs (depth + 1) fmt = Some (Some as)" "a = object_text fmt depth as"
      using obj 1(6) by (auto simp: cJSON_types print_object_eq split: bind_splits option.splits)
    obtain bs where "\<forall>d. print_members pr cs d False = Some (Some bs)" "list_all2 same_member as bs"
      using 1(2) [OF refl _ _ _ _ _ _ _ cs 1(4,5) as(1) 1(7)] obj by (auto simp: cJSON_types)
    then show ?thesis using obj as(2) minified_object [of as bs depth 0] 1(4)
      by (intro exI [of _ "object_text False 0 bs"]) (auto simp: cJSON_types print_object_eq intro: object_plain)
  next
    case other
    then show ?thesis using 1(6) by (simp add: Let_def)
  qed
next
  case (3 pr c cs depth fmt)
  obtain e es where p: "print_value pr c depth fmt = Some (Some e)" "print_items pr cs depth fmt = Some (Some es)" "as = e # es"
    using 3(6) by (auto split: bind_splits option.splits)
  have ok: "terminated c" "\<forall>c \<in> set cs. terminated c" using 3(3) by simp_all
  obtain b where b: "\<forall>d. print_value pr c d False = Some (Some b)" "minified e b" using 3(1) [OF ok(1) 3(4,5) p(1) 3(7)] by blast
  obtain bs where "\<forall>d. print_items pr cs d False = Some (Some bs)" "list_all2 minified es bs"
    using 3(2) [OF p(1) refl ok(2) 3(4,5) p(2) 3(7)] by blast
  with b show ?case by (intro exI [of _ "b # bs"]) (simp add: p(3))
next
  case (5 pr c cs depth fmt)
  obtain n e es where p: "print_string_ptr (cj_string c) = Some n" "print_value pr c depth fmt = Some (Some e)"
    "print_members pr cs depth fmt = Some (Some es)" "ms = (cstr n, e) # es"
    using 5(6) by (auto split: bind_splits option.splits)
  have ok: "terminated c" "\<forall>c \<in> set cs. terminated c" using 5(3) by simp_all
  obtain b where b: "\<forall>d. print_value pr c d False = Some (Some b)" "minified e b"
    using 5(1) [OF p(1) ok(1) 5(4,5) p(2) 5(7)] by blast
  obtain bs where "\<forall>d. print_members pr cs d False = Some (Some bs)" "list_all2 same_member es bs"
    using 5(2) [OF p(1,2) ok(2) 5(4,5) p(3) 5(7)] by blast
  moreover have "same_member (cstr n, e) (cstr n, b)"
    using b(2) print_string_minified [OF terminated_name [OF ok(1)] p(1)] by (simp add: same_member_def)
  ultimately show ?case using b(1) p(1) by (intro exI [of _ "(cstr n, b) # bs"]) (simp add: p(4))
qed auto

end
