(* ===== verification/Cjson_Edit.thy ===== *)
theory Cjson_Edit
  imports Cjson_Roundtrip
begin

text \<open>
  Building and changing trees (\<open>src/cJSON.c\<close>): items that are added, taken out and replaced, constructors and
  \<open>cJSON_Duplicate\<close>.

  An item that is handed in has no siblings, as the library gives it out. What is taken out of a tree is
  returned beside the tree that is left; freeing it has no other effect. Allocations are taken to succeed.
\<close>

unbundle bit_operations_syntax

subsection \<open>Constructors\<close>

definition cJSON_strdup :: "u8 list \<Rightarrow> u8 list option" where
  "cJSON_strdup str = (if 0 \<in> set str then Some (cstr str @ [0]) else None)"

definition cJSON_CreateNull :: "'d arith \<Rightarrow> 'd cjson" where
  "cJSON_CreateNull ar = new_item ar cJSON_NULL"

definition cJSON_CreateTrue :: "'d arith \<Rightarrow> 'd cjson" where
  "cJSON_CreateTrue ar = new_item ar cJSON_True"

definition cJSON_CreateFalse :: "'d arith \<Rightarrow> 'd cjson" where
  "cJSON_CreateFalse ar = new_item ar cJSON_False"

definition cJSON_CreateBool :: "'d arith \<Rightarrow> int \<Rightarrow> 'd cjson" where
  "cJSON_CreateBool ar b = new_item ar (if b \<noteq> 0 then cJSON_True else cJSON_False)"

definition cJSON_CreateNumber :: "'d arith \<Rightarrow> 'd \<Rightarrow> 'd cjson" where
  "cJSON_CreateNumber ar num = CJSON cJSON_Number None (d_to_int ar num) num None []"

definition cJSON_CreateString :: "'d arith \<Rightarrow> u8 list \<Rightarrow> 'd cjson option" where
  "cJSON_CreateString ar str = do { v \<leftarrow> cJSON_strdup str; Some (CJSON cJSON_String (Some v) 0 (d_of_int ar 0) None []) }"

definition cJSON_CreateArray :: "'d arith \<Rightarrow> 'd cjson" where
  "cJSON_CreateArray ar = new_item ar cJSON_Array"

definition cJSON_CreateObject :: "'d arith \<Rightarrow> 'd cjson" where
  "cJSON_CreateObject ar = new_item ar cJSON_Object"

text \<open>The loops that link one new item behind the other.\<close>

fun create_numbers :: "'d arith \<Rightarrow> 'd list \<Rightarrow> 'd cjson list" where
  "create_numbers ar [] = []"
| "create_numbers ar (n # ns) = cJSON_CreateNumber ar n # create_numbers ar ns"

fun create_strings :: "'d arith \<Rightarrow> u8 list list \<Rightarrow> 'd cjson list option" where
  "create_strings ar [] = Some []"
| "create_strings ar (s # ss) = do { c \<leftarrow> cJSON_CreateString ar s; cs \<leftarrow> create_strings ar ss; Some (c # cs) }"

definition cJSON_CreateIntArray :: "'d arith \<Rightarrow> int list \<Rightarrow> 'd cjson" where
  "cJSON_CreateIntArray ar numbers = compound ar cJSON_Array (create_numbers ar (map (d_of_int ar) numbers))"

definition cJSON_CreateDoubleArray :: "'d arith \<Rightarrow> 'd list \<Rightarrow> 'd cjson" where
  "cJSON_CreateDoubleArray ar numbers = compound ar cJSON_Array (create_numbers ar numbers)"

text \<open>The conversion of \<open>float\<close> to \<open>double\<close> is a parameter.\<close>

definition cJSON_CreateFloatArray :: "'d arith \<Rightarrow> ('f \<Rightarrow> 'd) \<Rightarrow> 'f list \<Rightarrow> 'd cjson" where
  "cJSON_CreateFloatArray ar d_of_float numbers = compound ar cJSON_Array (create_numbers ar (map d_of_float numbers))"

definition cJSON_CreateStringArray :: "'d arith \<Rightarrow> u8 list list \<Rightarrow> 'd cjson option" where
  "cJSON_CreateStringArray ar strings = map_option (compound ar cJSON_Array) (create_strings ar strings)"

subsection \<open>Adding\<close>

fun set_child :: "'d cjson list \<Rightarrow> 'd cjson \<Rightarrow> 'd cjson" where
  "set_child cs (CJSON ty vs i d nm _) = CJSON ty vs i d nm cs"

text \<open>A null pointer is not added.\<close>

definition cJSON_AddItemToArray :: "'d cjson \<Rightarrow> 'd cjson option \<Rightarrow> 'd cjson" where
  "cJSON_AddItemToArray array item = (case item of None \<Rightarrow> array | Some c \<Rightarrow> set_child (cj_child array @ [c]) array)"

definition cJSON_AddItemToObject :: "'d cjson \<Rightarrow> u8 list \<Rightarrow> 'd cjson option \<Rightarrow> 'd cjson option" where
  "cJSON_AddItemToObject object string item = (case item of None \<Rightarrow> Some object
     | Some c \<Rightarrow> do { name \<leftarrow> cJSON_strdup string; Some (cJSON_AddItemToArray object (Some (rename_item name c))) })"

subsection \<open>Taking out and replacing\<close>

text \<open>A negative index means the first item, as the loops only count down while it is positive.\<close>

fun detach_at :: "'a list \<Rightarrow> int \<Rightarrow> ('a \<times> 'a list) option" where
  "detach_at [] i = None"
| "detach_at (c # cs) i = (if i > 0 then map_option (\<lambda>(d, ds). (d, c # ds)) (detach_at cs (i - 1)) else Some (c, cs))"

definition cJSON_DetachItemFromArray :: "'d cjson \<Rightarrow> int \<Rightarrow> 'd cjson option \<times> 'd cjson" where
  "cJSON_DetachItemFromArray array which = (case detach_at (cj_child array) which of
     None \<Rightarrow> (None, array) | Some (c, cs) \<Rightarrow> (Some c, set_child cs array))"

definition cJSON_DeleteItemFromArray :: "'d cjson \<Rightarrow> int \<Rightarrow> 'd cjson" where
  "cJSON_DeleteItemFromArray array which = snd (cJSON_DetachItemFromArray array which)"

text \<open>The loop that looks for a member counts its way.\<close>

fun find_index :: "u8 list \<Rightarrow> int \<Rightarrow> 'd cjson list \<Rightarrow> int option option" where
  "find_index name i [] = Some None"
| "find_index name i (c # cs) = do {
     same \<leftarrow> cJSON_same (cj_string c) (Some name);
     if same then Some (Some i) else find_index name (i + 1) cs
   }"

definition cJSON_DetachItemFromObject :: "'d cjson \<Rightarrow> u8 list \<Rightarrow> ('d cjson option \<times> 'd cjson) option" where
  "cJSON_DetachItemFromObject object string = do {
     i \<leftarrow> find_index string 0 (cj_child object);
     Some (case i of None \<Rightarrow> (None, object) | Some i \<Rightarrow> cJSON_DetachItemFromArray object i)
   }"

definition cJSON_DeleteItemFromObject :: "'d cjson \<Rightarrow> u8 list \<Rightarrow> 'd cjson option" where
  "cJSON_DeleteItemFromObject object string = map_option snd (cJSON_DetachItemFromObject object string)"

fun replace_at :: "'a list \<Rightarrow> int \<Rightarrow> 'a \<Rightarrow> 'a list" where
  "replace_at [] i x = []"
| "replace_at (c # cs) i x = (if i > 0 then c # replace_at cs (i - 1) x else x # cs)"

definition cJSON_ReplaceItemInArray :: "'d cjson \<Rightarrow> int \<Rightarrow> 'd cjson \<Rightarrow> 'd cjson" where
  "cJSON_ReplaceItemInArray array which newitem = set_child (replace_at (cj_child array) which newitem) array"

definition cJSON_ReplaceItemInObject :: "'d cjson \<Rightarrow> u8 list \<Rightarrow> 'd cjson \<Rightarrow> 'd cjson option" where
  "cJSON_ReplaceItemInObject object string newitem = do {
     i \<leftarrow> find_index string 0 (cj_child object);
     case i of None \<Rightarrow> Some object
     | Some i \<Rightarrow> do { name \<leftarrow> cJSON_strdup string; Some (cJSON_ReplaceItemInArray object i (rename_item name newitem)) }
   }"

subsection \<open>Duplicating\<close>

definition cJSON_IsReference :: int where "cJSON_IsReference = 256"

definition dup_string :: "u8 list option \<Rightarrow> u8 list option option" where
  "dup_string s = (case s of None \<Rightarrow> Some None | Some v \<Rightarrow> map_option Some (cJSON_strdup v))"

fun cJSON_Duplicate :: "'d cjson \<Rightarrow> bool \<Rightarrow> 'd cjson option"
  and duplicate_children :: "'d cjson list \<Rightarrow> 'd cjson list option" where
  "cJSON_Duplicate (CJSON ty vs i d nm cs) recurse = do {
     vs \<leftarrow> dup_string vs;
     nm \<leftarrow> dup_string nm;
     if \<not> recurse then Some (CJSON (ty AND NOT cJSON_IsReference) vs i d nm [])
     else do { cs \<leftarrow> duplicate_children cs; Some (CJSON (ty AND NOT cJSON_IsReference) vs i d nm cs) }
   }"
| "duplicate_children [] = Some []"
| "duplicate_children (c # cs) = do {
     c \<leftarrow> cJSON_Duplicate c True;
     cs \<leftarrow> duplicate_children cs;
     Some (c # cs)
   }"

subsection \<open>Facts\<close>

lemma set_child_simps [simp]: "cj_child (set_child cs c) = cs" "cj_type (set_child cs c) = cj_type c"
  "set_child cs (set_child ds c) = set_child cs c" "set_child (cj_child c) c = c"
  by (cases c; simp)+

lemma detach_append: "detach_at (xs @ [x]) (int (length xs)) = Some (x, xs)"
  by (induction xs) auto

lemma child_at_append: "child_at (cs @ [c]) (int (length cs)) = Some c"
  by (induction cs) auto

lemma detach_child: "map_option fst (detach_at cs i) = child_at cs i"
proof (induction cs i rule: child_at.induct)
  case (2 c cs i)
  then show ?case by (cases "detach_at cs (i - 1)") auto
qed simp

lemma child_at_replace: "child_at cs i = Some c \<Longrightarrow> child_at (replace_at cs i x) i = Some x \<and> length (replace_at cs i x) = length cs"
proof (induction cs i rule: child_at.induct)
  case (2 c' cs i)
  then show ?case by (cases "i > 0") simp_all
qed simp

text \<open>A name is the same as itself; the search finds the first member that has it.\<close>

lemma case_loop_refl: "0 \<in> set v \<Longrightarrow> 0 \<in> set w \<Longrightarrow> cstr v = cstr w \<Longrightarrow> case_loop v w = Some True"
proof (induction v w rule: case_loop.induct)
  case (1 a as b bs)
  then show ?case by (cases "a = 0"; cases "b = 0") (auto simp: cstr_def)
qed auto

lemma strdup_same: "cJSON_strdup v = Some w \<Longrightarrow> cJSON_same (Some w) (Some v) = Some True"
  by (auto simp: cJSON_strdup_def cJSON_same_def cstr_def takeWhile_append intro!: case_loop_refl split: if_splits)

lemma find_index_child:
  "find_index name k cs = Some (Some i) \<Longrightarrow> k \<le> i \<and> (\<exists>c. find_child name cs = Some (Some c) \<and> child_at cs (i - k) = Some c)"
proof (induction name k cs rule: find_index.induct)
  case (2 name k c cs)
  obtain same where same: "cJSON_same (cj_string c) (Some name) = Some same" using 2(2) by (auto split: bind_splits)
  show ?case
  proof (cases same)
    case False
    then have "k + 1 \<le> i \<and> (\<exists>c. find_child name cs = Some (Some c) \<and> child_at cs (i - (k + 1)) = Some c)"
      using 2(1) [OF same False] 2(2) same by simp
    then show ?thesis using same False by (auto simp: algebra_simps)
  qed (use 2(2) same in auto)
qed simp

lemma find_index_append:
  "find_index name k cs = Some None \<Longrightarrow> cJSON_same (cj_string c) (Some name) = Some True \<Longrightarrow>
   find_index name k (cs @ [c]) = Some (Some (k + int (length cs)))"
  by (induction name k cs rule: find_index.induct) (auto split: bind_splits if_splits)

lemma find_child_index: "find_child name cs = Some None \<longleftrightarrow> find_index name k cs = Some None"
  by (induction name k cs rule: find_index.induct) (auto split: bind_splits if_splits)

lemma find_child_append:
  "find_child name cs = Some None \<Longrightarrow> cJSON_same (cj_string c) (Some name) = Some True \<Longrightarrow>
   find_child name (cs @ [c]) = Some (Some c)"
  by (induction name cs rule: find_child.induct) (auto split: bind_splits if_splits)

text \<open>A duplicate prints as the original does.\<close>

lemma dup_string_law: "str_ok s \<Longrightarrow> \<exists>t. dup_string s = Some t \<and> map_option cstr t = map_option cstr s \<and> str_ok t"
  by (cases s) (auto simp: dup_string_def str_ok_def cJSON_strdup_def cstr_def takeWhile_append)

lemma print_string_cong:
  assumes "str_ok s" and "str_ok t" and "map_option cstr t = map_option cstr s"
  shows "print_string_ptr t = print_string_ptr s"
proof (cases s)
  case (Some v)
  then obtain w where w: "t = Some w" "cstr w = cstr v" using assms(3) by auto
  obtain r where v: "v = cstr v @ 0 # r" "0 \<notin> set (cstr v)" using str_split assms(1) Some by (auto simp: str_ok_def)
  obtain q where "w = cstr v @ 0 # q" using str_split [of w] assms(2) w by (auto simp: str_ok_def)
  then show ?thesis using print_string_eq [OF v(2)] v(1) w(1) Some by metis
qed (use assms in simp)

lemma type_bits: "take_bit 8 (ty AND NOT cJSON_IsReference) = take_bit 8 ty" for ty :: int
proof -
  have "cJSON_IsReference = 2 ^ 8" by (simp add: cJSON_IsReference_def)
  then show ?thesis unfolding \<open>cJSON_IsReference = 2 ^ 8\<close>
    by (intro bit_eqI) (auto simp: bit_take_bit_iff bit_and_iff bit_not_iff bit_exp_iff simp del: power_numeral)
qed

lemma duplicate_prints:
  "terminated c \<Longrightarrow> recurse \<Longrightarrow> \<exists>c'. cJSON_Duplicate c recurse = Some c' \<and> terminated c' \<and>
     map_option cstr (cj_string c') = map_option cstr (cj_string c) \<and>
     (\<forall>depth. print_value pr c' depth fmt = print_value pr c depth fmt)"
  "\<forall>c \<in> set cs. terminated c \<Longrightarrow> \<exists>cs'. duplicate_children cs = Some cs' \<and> (\<forall>c \<in> set cs'. terminated c) \<and>
     (\<forall>depth. print_items pr cs' depth fmt = print_items pr cs depth fmt \<and>
       print_members pr cs' depth fmt = print_members pr cs depth fmt)"
proof (induction c recurse and cs rule: cJSON_Duplicate_duplicate_children.induct)
  case (1 ty vs i d nm cs recurse)
  have cs: "\<forall>c \<in> set cs. terminated c" and ok: "str_ok vs" "str_ok nm" using 1(2) by simp_all
  obtain v where v: "dup_string vs = Some v" "map_option cstr v = map_option cstr vs" "str_ok v"
    using dup_string_law [OF ok(1)] by blast
  obtain n where n: "dup_string nm = Some n" "map_option cstr n = map_option cstr nm" "str_ok n"
    using dup_string_law [OF ok(2)] by blast
  obtain ds where ds: "duplicate_children cs = Some ds" "\<forall>c \<in> set ds. terminated c"
    "\<forall>depth. print_items pr ds depth fmt = print_items pr cs depth fmt \<and> print_members pr ds depth fmt = print_members pr cs depth fmt"
    using 1(1) [OF v(1) n(1) _ cs] 1(3) by blast
  have "print_string_ptr v = print_string_ptr vs" by (rule print_string_cong [OF ok(1) v(3,2)])
  then have "\<forall>depth. print_value pr (CJSON (ty AND NOT cJSON_IsReference) v i d n ds) depth fmt =
      print_value pr (CJSON ty vs i d nm cs) depth fmt"
    unfolding print_value.simps type_bits Let_def using ds(3) by simp
  with 1(2,3) v n ds(1,2) show ?case by simp
next
  case (3 c cs)
  obtain c' where c': "cJSON_Duplicate c True = Some c'" "terminated c'" "map_option cstr (cj_string c') = map_option cstr (cj_string c)"
    "\<forall>depth. print_value pr c' depth fmt = print_value pr c depth fmt" using 3(1,3) by auto
  obtain cs' where "duplicate_children cs = Some cs'" "\<forall>c \<in> set cs'. terminated c"
    "\<forall>depth. print_items pr cs' depth fmt = print_items pr cs depth fmt \<and> print_members pr cs' depth fmt = print_members pr cs depth fmt"
    using 3(2) [OF c'(1)] 3(3) by auto
  moreover have "print_string_ptr (cj_string c') = print_string_ptr (cj_string c)"
    using print_string_cong [OF _ _ c'(3)] terminated_name [OF c'(2)] terminated_name 3(3) by auto
  ultimately show ?case using c' by simp
qed simp

end
