(* ===== verification/Cjson_Object.thy ===== *)
theory Cjson_Object
  imports Cjson_Edit
begin

text \<open>
  Objects as maps: what the operations on the members of an object promise, and that those of the library
  keep the promise. Names are the same up to the case of their letters.
\<close>

subsection \<open>The contract\<close>

fun add_all :: "('o \<Rightarrow> 'n \<Rightarrow> 'i \<Rightarrow> 'o option) \<Rightarrow> 'o \<Rightarrow> ('n \<times> 'i) list \<Rightarrow> 'o option" where
  "add_all add ob [] = Some ob"
| "add_all add ob ((n, i) # ps) = do { ob \<leftarrow> add ob n i; add_all add ob ps }"

text \<open>
  \<open>members\<close> is the map that an object stands for; \<open>key\<close> is what a name counts for in it, and \<open>named\<close> an
  item with its name. An item is only added under a name that is new.
\<close>

locale object_map =
  fixes get :: "'o \<Rightarrow> 'n \<Rightarrow> 'i option option"
    and add :: "'o \<Rightarrow> 'n \<Rightarrow> 'i \<Rightarrow> 'o option"
    and detach :: "'o \<Rightarrow> 'n \<Rightarrow> ('i option \<times> 'o) option"
    and replace :: "'o \<Rightarrow> 'n \<Rightarrow> 'i \<Rightarrow> 'o option"
    and ok :: "'o \<Rightarrow> bool"
    and name_ok :: "'n \<Rightarrow> bool"
    and key :: "'n \<Rightarrow> 'k"
    and named :: "'n \<Rightarrow> 'i \<Rightarrow> 'i"
    and members :: "'o \<Rightarrow> 'k \<Rightarrow> 'i option"
  assumes get_law: "ok ob \<Longrightarrow> name_ok n \<Longrightarrow> get ob n = Some (members ob (key n))"
    and add_law: "ok ob \<Longrightarrow> name_ok n \<Longrightarrow> key n \<notin> dom (members ob) \<Longrightarrow>
      \<exists>ob'. add ob n i = Some ob' \<and> ok ob' \<and> members ob' = (members ob)(key n \<mapsto> named n i)"
    and detach_law: "ok ob \<Longrightarrow> name_ok n \<Longrightarrow>
      \<exists>ob'. detach ob n = Some (members ob (key n), ob') \<and> ok ob' \<and> members ob' = (members ob)(key n := None)"
    and replace_law: "ok ob \<Longrightarrow> name_ok n \<Longrightarrow>
      \<exists>ob'. replace ob n i = Some ob' \<and> ok ob' \<and>
        members ob' = (if key n \<in> dom (members ob) then (members ob)(key n \<mapsto> named n i) else members ob)"
begin

text \<open>What is added is found, also when more is added after it, and detaching takes back an addition.\<close>

lemma added_all:
  "ok ob \<Longrightarrow> \<forall>p \<in> set ps. name_ok (fst p) \<and> key (fst p) \<notin> dom (members ob) \<Longrightarrow> distinct (map (\<lambda>p. key (fst p)) ps) \<Longrightarrow>
   \<exists>ob'. add_all add ob ps = Some ob' \<and> ok ob' \<and>
     members ob' = members ob ++ map_of (map (\<lambda>p. (key (fst p), named (fst p) (snd p))) ps)"
proof (induction ps arbitrary: ob)
  case (Cons p ps)
  obtain n i where p: "p = (n, i)" by fastforce
  have "name_ok n" "key n \<notin> dom (members ob)" using Cons.prems(2) p by simp_all
  from add_law [OF Cons.prems(1) this] obtain ob1 where
    1: "add ob n i = Some ob1" "ok ob1" "members ob1 = (members ob)(key n \<mapsto> named n i)" by blast
  have "\<forall>q \<in> set ps. name_ok (fst q) \<and> key (fst q) \<notin> dom (members ob1)" using Cons.prems(2,3) p 1(3) by force
  from Cons.IH [OF 1(2) this] Cons.prems(3) obtain ob' where "add_all add ob1 ps = Some ob'" "ok ob'"
    "members ob' = members ob1 ++ map_of (map (\<lambda>p. (key (fst p), named (fst p) (snd p))) ps)" by auto
  moreover have "key n \<notin> dom (map_of (map (\<lambda>p. (key (fst p), named (fst p) (snd p))) ps))"
    using Cons.prems(3) p by (simp add: dom_map_of_conv_image_fst image_image)
  ultimately show ?case using p 1(1,3) by (simp add: map_add_upd_left) (simp add: fun_eq_iff map_add_def)
qed simp

lemma found_after_all:
  assumes "ok ob" and "\<forall>p \<in> set ps. name_ok (fst p) \<and> key (fst p) \<notin> dom (members ob)"
    and "distinct (map (\<lambda>p. key (fst p)) ps)" and "(n, i) \<in> set ps"
  shows "\<exists>ob'. add_all add ob ps = Some ob' \<and> get ob' n = Some (Some (named n i))"
proof -
  obtain ob' where o: "add_all add ob ps = Some ob'" "ok ob'"
    "members ob' = members ob ++ map_of (map (\<lambda>p. (key (fst p), named (fst p) (snd p))) ps)"
    using added_all [OF assms(1-3)] by blast
  have "map_of (map (\<lambda>p. (key (fst p), named (fst p) (snd p))) ps) (key n) = Some (named n i)"
    using assms(3,4) by (intro map_of_is_SomeI) (force simp: comp_def)+
  with o get_law [OF o(2)] assms(2,4) show ?thesis by (force simp: map_add_def)
qed

lemma detach_after_add:
  assumes "ok ob" and "name_ok n" and "key n \<notin> dom (members ob)"
  shows "\<exists>ob1 ob2. add ob n i = Some ob1 \<and> detach ob1 n = Some (Some (named n i), ob2) \<and> members ob2 = members ob"
proof -
  obtain ob1 where 1: "add ob n i = Some ob1" "ok ob1" "members ob1 = (members ob)(key n \<mapsto> named n i)"
    using add_law [OF assms] by blast
  obtain ob2 where 2: "detach ob1 n = Some (members ob1 (key n), ob2)" "members ob2 = (members ob1)(key n := None)"
    using detach_law [OF 1(2) assms(2)] by blast
  have "(members ob)(key n := None) = members ob" using assms(3) by auto
  with 1 2 show ?thesis by auto
qed

end

subsection \<open>The map of a JSON object\<close>

definition name_key :: "u8 list \<Rightarrow> u8 list" where
  "name_key name = map tolower (cstr name)"

definition item_key :: "'d cjson \<Rightarrow> u8 list" where
  "item_key c = (case cj_string c of None \<Rightarrow> [] | Some v \<Rightarrow> name_key v)"

definition children_ok :: "'d cjson list \<Rightarrow> bool" where
  "children_ok cs \<longleftrightarrow> (\<forall>c \<in> set cs. \<exists>v. cj_string c = Some v \<and> 0 \<in> set v) \<and> distinct (map item_key cs)"

definition object_ok :: "'d cjson \<Rightarrow> bool" where
  "object_ok object \<longleftrightarrow> children_ok (cj_child object)"

fun member_map :: "'d cjson list \<Rightarrow> u8 list \<Rightarrow> 'd cjson option" where
  "member_map [] = Map.empty"
| "member_map (c # cs) = (member_map cs)(item_key c \<mapsto> c)"

definition object_members :: "'d cjson \<Rightarrow> u8 list \<Rightarrow> 'd cjson option" where
  "object_members object = member_map (cj_child object)"

definition named_item :: "u8 list \<Rightarrow> 'd cjson \<Rightarrow> 'd cjson" where
  "named_item name c = rename_item (cstr name @ [0]) c"

definition add_member :: "'d cjson \<Rightarrow> u8 list \<Rightarrow> 'd cjson \<Rightarrow> 'd cjson option" where
  "add_member object name c = cJSON_AddItemToObject object name (Some c)"

lemma tolower_0: "tolower b = 0 \<longleftrightarrow> b = 0"
proof -
  have "b + 0x20 \<noteq> 0" if "0x41 \<le> b" "b \<le> 0x5A"
  proof
    assume "b + 0x20 = 0"
    then have "b = 0xE0" by (simp add: eq_neg_iff_add_eq_0 [symmetric])
    with that show False by simp
  qed
  then show ?thesis by (auto simp: tolower_def)
qed

lemma case_loop_key: "0 \<in> set a \<Longrightarrow> 0 \<in> set b \<Longrightarrow> case_loop a b = Some (name_key a = name_key b)"
proof (induction a b rule: case_loop.induct)
  case (1 a as b bs)
  then show ?case using tolower_0 [of a] tolower_0 [of b]
    by (cases "a = 0"; cases "b = 0") (auto simp: name_key_def cstr_def)
qed auto

lemma same_key:
  assumes "cj_string c = Some v" and "0 \<in> set v" and "0 \<in> set name"
  shows "cJSON_same (cj_string c) (Some name) = Some (item_key c = name_key name)"
  using assms by (simp add: cJSON_same_def case_loop_key item_key_def)

lemma find_child_key:
  "children_ok cs \<Longrightarrow> 0 \<in> set name \<Longrightarrow> find_child name cs = Some (member_map cs (name_key name))"
proof (induction name cs rule: find_child.induct)
  case (2 name c cs)
  then have ok: "children_ok cs" by (simp add: children_ok_def)
  obtain v where "cj_string c = Some v" "0 \<in> set v" using 2(2) by (auto simp: children_ok_def)
  from same_key [OF this 2(3)] 2(1) [OF _ _ ok 2(3)] show ?case by auto
qed simp

text \<open>Where the search for a member ends.\<close>

lemma find_index_key:
  assumes "0 \<in> set name"
  shows "children_ok cs \<Longrightarrow>
    (find_index name k cs = Some None \<and> name_key name \<notin> set (map item_key cs)) \<or>
    (\<exists>ds c es. cs = ds @ c # es \<and> find_index name k cs = Some (Some (k + int (length ds))) \<and> item_key c = name_key name)"
proof (induction cs arbitrary: k)
  case (Cons c cs)
  then have ok: "children_ok cs" by (simp add: children_ok_def)
  obtain v where "cj_string c = Some v" "0 \<in> set v" using Cons(2) by (auto simp: children_ok_def)
  note same = same_key [OF this assms]
  show ?case
  proof (cases "item_key c = name_key name")
    case True
    then have "c # cs = [] @ c # cs \<and> find_index name k (c # cs) = Some (Some (k + int (length ([] :: 'a cjson list))))"
      using same by simp
    with True show ?thesis by blast
  next
    case False
    consider "find_index name (k + 1) cs = Some None" "name_key name \<notin> set (map item_key cs)"
      | ds d es where "cs = ds @ d # es" "find_index name (k + 1) cs = Some (Some (k + 1 + int (length ds)))" "item_key d = name_key name"
      using Cons(1) [OF ok, of "k + 1"] by blast
    then show ?thesis
    proof cases
      case 1
      then show ?thesis using False same by simp
    next
      case 2
      then have "c # cs = (c # ds) @ d # es \<and> find_index name k (c # cs) = Some (Some (k + int (length (c # ds))))"
        using False same by simp
      with 2(3) show ?thesis by blast
    qed
  qed
qed simp

lemma detach_middle: "detach_at (ds @ c # es) (int (length ds)) = Some (c, ds @ es)"
  by (induction ds) auto

lemma replace_middle: "replace_at (ds @ c # es) (int (length ds)) x = ds @ x # es"
  by (induction ds) auto

lemma dom_member_map: "dom (member_map cs) = set (map item_key cs)"
proof (induction cs)
  case (Cons c cs)
  have "dom (member_map (c # cs)) = insert (item_key c) (dom (member_map cs))" by simp
  also have "\<dots> = set (map item_key (c # cs))" by (simp add: Cons)
  finally show ?case .
qed simp

lemma member_middle:
  assumes "children_ok (ds @ c # es)"
  shows "member_map (ds @ c # es) (item_key c) = Some c"
    "member_map (ds @ es) = (member_map (ds @ c # es))(item_key c := None)"
    "item_key x = item_key c \<Longrightarrow> member_map (ds @ x # es) = (member_map (ds @ c # es))(item_key c \<mapsto> x)"
proof -
  have "item_key c \<notin> dom (member_map es)" "item_key c \<notin> item_key ` set ds"
    using assms by (auto simp: children_ok_def dom_member_map)
  then have keys: "member_map es (item_key c) = None" "item_key c \<notin> item_key ` set ds" by auto
  then show "member_map (ds @ c # es) (item_key c) = Some c" by (induction ds) auto
  show "member_map (ds @ es) = (member_map (ds @ c # es))(item_key c := None)"
    using keys by (induction ds) (auto simp: fun_upd_idem fun_upd_twist)
  show "item_key x = item_key c \<Longrightarrow> member_map (ds @ x # es) = (member_map (ds @ c # es))(item_key c \<mapsto> x)"
    using keys by (induction ds) (auto simp: fun_upd_twist)
qed

lemma member_last:
  "item_key c \<notin> item_key ` set cs \<Longrightarrow> member_map (cs @ [c]) = (member_map cs)(item_key c \<mapsto> c)"
  by (induction cs) (auto simp: fun_upd_twist)

lemma named_key [simp]: "item_key (named_item name c) = name_key name"
  by (simp add: item_key_def named_item_def rename_item_def name_key_def cstr_def takeWhile_append)

lemma named_string: "\<exists>v. cj_string (named_item name c) = Some v \<and> 0 \<in> set v"
  by (simp add: named_item_def rename_item_def)

lemma strdup_name: "0 \<in> set name \<Longrightarrow> cJSON_strdup name = Some (cstr name @ [0])"
  by (simp add: cJSON_strdup_def)

lemma add_member_law:
  assumes "object_ok ob" and "0 \<in> set name" and "name_key name \<notin> dom (object_members ob)"
  shows "\<exists>ob'. add_member ob name c = Some ob' \<and> object_ok ob' \<and>
    object_members ob' = (object_members ob)(name_key name \<mapsto> named_item name c)"
proof -
  let ?cs = "cj_child ob @ [named_item name c]"
  have key: "name_key name \<notin> set (map item_key (cj_child ob))" using assms(3) by (simp add: object_members_def dom_member_map)
  then have "children_ok ?cs" using assms(1) named_string [of name c] by (auto simp: object_ok_def children_ok_def)
  moreover have "member_map ?cs = (member_map (cj_child ob))(name_key name \<mapsto> named_item name c)"
    using key member_last [of "named_item name c"] by simp
  moreover have "add_member ob name c = Some (set_child ?cs ob)"
    using strdup_name [OF assms(2)] by (simp add: add_member_def cJSON_AddItemToObject_def cJSON_AddItemToArray_def named_item_def)
  ultimately show ?thesis by (simp add: object_ok_def object_members_def)
qed

lemma detach_member_law:
  assumes "object_ok ob" and "0 \<in> set name"
  shows "\<exists>ob'. cJSON_DetachItemFromObject ob name = Some (object_members ob (name_key name), ob') \<and> object_ok ob' \<and>
    object_members ob' = (object_members ob)(name_key name := None)"
proof -
  have ok: "children_ok (cj_child ob)" using assms(1) by (simp add: object_ok_def)
  consider "find_index name 0 (cj_child ob) = Some None" "name_key name \<notin> set (map item_key (cj_child ob))"
    | ds c es where "cj_child ob = ds @ c # es" "find_index name 0 (cj_child ob) = Some (Some (int (length ds)))" "item_key c = name_key name"
    using find_index_key [OF assms(2) ok, of 0] by auto
  then show ?thesis
  proof cases
    case 1
    then have "object_members ob (name_key name) = None" using dom_member_map [of "cj_child ob"] by (auto simp: object_members_def)
    with 1(1) assms(1) show ?thesis by (simp add: cJSON_DetachItemFromObject_def fun_upd_idem)
  next
    case 2
    have "children_ok (ds @ es)" using ok 2(1) by (auto simp: children_ok_def)
    with member_middle(1,2) [of ds c es] ok 2 show ?thesis
      by (simp add: cJSON_DetachItemFromObject_def cJSON_DetachItemFromArray_def detach_middle object_ok_def object_members_def)
  qed
qed

lemma replace_member_law:
  assumes "object_ok ob" and "0 \<in> set name"
  shows "\<exists>ob'. cJSON_ReplaceItemInObject ob name c = Some ob' \<and> object_ok ob' \<and>
    object_members ob' = (if name_key name \<in> dom (object_members ob)
      then (object_members ob)(name_key name \<mapsto> named_item name c) else object_members ob)"
proof -
  have ok: "children_ok (cj_child ob)" using assms(1) by (simp add: object_ok_def)
  consider "find_index name 0 (cj_child ob) = Some None" "name_key name \<notin> set (map item_key (cj_child ob))"
    | ds d es where "cj_child ob = ds @ d # es" "find_index name 0 (cj_child ob) = Some (Some (int (length ds)))" "item_key d = name_key name"
    using find_index_key [OF assms(2) ok, of 0] by auto
  then show ?thesis
  proof cases
    case 1
    then show ?thesis using assms(1) by (simp add: cJSON_ReplaceItemInObject_def object_members_def dom_member_map)
  next
    case 2
    let ?cs = "ds @ named_item name c # es"
    have "children_ok ?cs" using ok 2(1,3) named_string [of name c] by (auto simp: children_ok_def)
    moreover have "cJSON_ReplaceItemInObject ob name c = Some (set_child ?cs ob)"
      using 2(1,2) strdup_name [OF assms(2)]
      by (simp add: cJSON_ReplaceItemInObject_def cJSON_ReplaceItemInArray_def replace_middle named_item_def)
    moreover have "children_ok (ds @ d # es)" using ok 2(1) by simp
    from member_middle(1) [OF this] member_middle(3) [OF this, of "named_item name c"] have
      "member_map (cj_child ob) (name_key name) = Some d"
      "member_map ?cs = (member_map (cj_child ob))(name_key name \<mapsto> named_item name c)" using 2(1,3) by simp_all
    ultimately show ?thesis by (simp add: object_ok_def object_members_def domIff)
  qed
qed

interpretation jo: object_map cJSON_GetObjectItem add_member cJSON_DetachItemFromObject cJSON_ReplaceItemInObject
  object_ok "\<lambda>name. (0 :: u8) \<in> set name" name_key named_item object_members
proof unfold_locales
  fix ob :: "'a cjson" and n :: "u8 list" assume "object_ok ob" "0 \<in> set n"
  then show "cJSON_GetObjectItem ob n = Some (object_members ob (name_key n))"
    by (simp add: cJSON_GetObjectItem_def object_members_def object_ok_def find_child_key)
qed (rule add_member_law detach_member_law replace_member_law; assumption)+

end
