(* ===== verification/Cjson_Shape.thy ===== *)
theory Cjson_Shape
  imports Cjson_Print_Facts
begin

text \<open>
  What a tree looks like that the parser has made: each type of node has just the fields that belong to
  it, and every string ends inside its memory.
\<close>

text \<open>The fields of a node by its type; the members of an object have names, the items of an array have none.\<close>

fun well_typed :: "'d arith \<Rightarrow> 'd cjson \<Rightarrow> bool" where
  "well_typed ar (CJSON ty vs i d nm cs) \<longleftrightarrow>
     (if ty = cJSON_False \<or> ty = cJSON_NULL then vs = None \<and> i = 0 \<and> cs = []
      else if ty = cJSON_True then vs = None \<and> i = 1 \<and> cs = []
      else if ty = cJSON_Number then vs = None \<and> i = d_to_int ar d \<and> cs = []
      else if ty = cJSON_String then (\<exists>v. vs = Some v \<and> 0 \<in> set v) \<and> i = 0 \<and> cs = []
      else if ty = cJSON_Array then vs = None \<and> i = 0 \<and> (\<forall>c \<in> set cs. cj_string c = None \<and> well_typed ar c)
      else ty = cJSON_Object \<and> vs = None \<and> i = 0 \<and>
        (\<forall>c \<in> set cs. (\<exists>v. cj_string c = Some v \<and> 0 \<in> set v) \<and> well_typed ar c))"

lemma unescape_ends: "unescape cap out p = Some (out', q) \<Longrightarrow> 0 \<in> set out'"
proof (induction cap out p rule: unescape.induct)
  case (2 cap out b bs)
  then show ?case by (auto simp: put_def split: if_splits bind_splits)
qed simp

lemma parse_string_ends: "parse_string p = Some (Inr (v, q)) \<Longrightarrow> 0 \<in> set v"
  by (auto simp: parse_string_def padded_def split: bind_splits if_splits dest!: unescape_ends)

lemma well_typed_number: "parse_number ar p = Some (c, q) \<Longrightarrow> cj_string c = None \<and> well_typed ar c"
  by (auto simp: parse_number_def Let_def cJSON_types split: bind_splits)

lemma well_typed_simple: "parse_simple ar p = Some (Inr (c, q)) \<Longrightarrow> cj_string c = None \<and> well_typed ar c"
  by (auto simp: parse_simple_def new_item_def cJSON_types split: bind_splits if_splits sum.splits
      dest: parse_string_ends well_typed_number)

lemma well_typed_rename [simp]: "well_typed ar (rename_item v c) = well_typed ar c" "cj_string (rename_item v c) = Some v"
  by (cases c; simp add: rename_item_def)+

lemma well_typed_compound:
  "\<forall>c \<in> set cs. cj_string c = None \<and> well_typed ar c \<Longrightarrow>
    cj_string (compound ar cJSON_Array cs) = None \<and> well_typed ar (compound ar cJSON_Array cs)"
  "\<forall>c \<in> set cs. (\<exists>v. cj_string c = Some v \<and> 0 \<in> set v) \<and> well_typed ar c \<Longrightarrow>
    cj_string (compound ar cJSON_Object cs) = None \<and> well_typed ar (compound ar cJSON_Object cs)"
  by (simp_all add: compound_def cJSON_types)

lemma parse_well_typed:
  fixes ar :: "'d arith"
  shows "parse_value ar p = Some (Inr (c, q)) \<Longrightarrow> cj_string c = None \<and> well_typed ar c"
    and "\<forall>c \<in> set cs. cj_string c = None \<and> well_typed ar c \<Longrightarrow> parse_items ar cs p = Some (Inr (c, q)) \<Longrightarrow>
      cj_string c = None \<and> well_typed ar c"
    and "\<forall>c \<in> set cs. (\<exists>v. cj_string c = Some v \<and> 0 \<in> set v) \<and> well_typed ar c \<Longrightarrow> parse_members ar cs p = Some (Inr (c, q)) \<Longrightarrow>
      cj_string c = None \<and> well_typed ar c"
proof (induction ar p and ar cs p and ar cs p arbitrary: c q and c q and c q rule: parse_value_parse_items_parse_members.induct)
  case (1 ar p)
  from 1(3) show ?case unfolding parse_value.simps [of ar p]
    by (auto split: bind_splits if_splits intro: 1(1,2) well_typed_simple well_typed_compound
        dest: 1(1) [rotated -1] 1(2) [rotated -1] well_typed_simple
        simp: well_typed_compound [of "[]"])
next
  case (2 ar cs p)
  from 2(4) obtain q1 where q1: "skip p = Some q1" unfolding parse_items.simps [of ar cs p] by (auto split: bind_splits)
  from 2(4) q1 obtain d q2 where r: "parse_value ar q1 = Some (Inr (d, q2))"
    unfolding parse_items.simps [of ar cs p] by (auto split: bind_splits sum.splits)
  from 2(4) q1 r obtain q3 b where b: "skip q2 = Some q3" "peek q3 0 = Some b"
    unfolding parse_items.simps [of ar cs p] by (auto split: bind_splits)
  have all: "\<forall>c \<in> set (cs @ [d]). cj_string c = None \<and> well_typed ar c" using 2(3) 2(1) [OF q1 r] by auto
  show ?case
  proof (cases "b = 0x2C")
    case True
    then have "parse_items ar (cs @ [d]) (tl q3) = Some (Inr (c, q))"
      using 2(4) q1 r b unfolding parse_items.simps [of ar cs p] by simp
    from 2(2) [OF q1 r refl refl b True all this] show ?thesis .
  next
    case False
    then have "c = compound ar cJSON_Array (cs @ [d])"
      using 2(4) q1 r b unfolding parse_items.simps [of ar cs p] by (auto split: if_splits)
    then show ?thesis using well_typed_compound(1) [OF all] by simp
  qed
next
  case (3 ar cs p)
  from 3(4) obtain q1 where q1: "skip p = Some q1" unfolding parse_members.simps [of ar cs p] by (auto split: bind_splits)
  from 3(4) q1 obtain v q2 where s: "parse_string q1 = Some (Inr (v, q2))"
    unfolding parse_members.simps [of ar cs p] by (auto split: bind_splits sum.splits)
  from 3(4) q1 s obtain q3 b where b: "skip q2 = Some q3" "peek q3 0 = Some b" "b = 0x3A"
    unfolding parse_members.simps [of ar cs p] by (auto split: bind_splits if_splits)
  from 3(4) q1 s b obtain q4 where q4: "skip (tl q3) = Some q4"
    unfolding parse_members.simps [of ar cs p] by (auto split: bind_splits)
  from 3(4) q1 s b q4 obtain d q5 where r: "parse_value ar q4 = Some (Inr (d, q5))"
    unfolding parse_members.simps [of ar cs p] by (auto split: bind_splits sum.splits)
  from 3(4) q1 s b q4 r obtain q6 e where e: "skip q5 = Some q6" "peek q6 0 = Some e"
    unfolding parse_members.simps [of ar cs p] by (auto split: bind_splits)
  have nb: "\<not> b \<noteq> 0x3A" using b(3) by simp
  have all: "\<forall>c \<in> set (cs @ [rename_item v d]). (\<exists>v. cj_string c = Some v \<and> 0 \<in> set v) \<and> well_typed ar c"
    using 3(3) 3(1) [OF q1 s refl refl b(1,2) nb q4 r] parse_string_ends [OF s] by auto
  show ?case
  proof (cases "e = 0x2C")
    case True
    then have "parse_members ar (cs @ [rename_item v d]) (tl q6) = Some (Inr (c, q))"
      using 3(4) q1 s b q4 r e unfolding parse_members.simps [of ar cs p] by simp
    from 3(2) [OF q1 s refl refl b(1,2) nb q4 r refl refl e True all this] show ?thesis .
  next
    case False
    then have "c = compound ar cJSON_Object (cs @ [rename_item v d])"
      using 3(4) q1 s b q4 r e unfolding parse_members.simps [of ar cs p] by (auto split: if_splits)
    then show ?thesis using well_typed_compound(2) [OF all] by simp
  qed
qed

text \<open>What is well typed can be printed, as the conversion to \<open>int\<close> gives an \<open>int\<close>.\<close>

lemma well_typed_terminated:
  assumes "\<And>d. - (2 ^ 31) \<le> d_to_int ar d \<and> d_to_int ar d < 2 ^ 31"
  shows "well_typed ar c \<Longrightarrow> str_ok (cj_string c) \<Longrightarrow> terminated c"
proof (induction c)
  case (CJSON ty vs i d nm cs)
  have "terminated c" if c: "c \<in> set cs" for c
  proof -
    have "well_typed ar c" "str_ok (cj_string c)" using CJSON(2) c by (auto simp: str_ok_def split: if_splits)
    then show ?thesis using CJSON(1) [OF c] by simp
  qed
  moreover have "str_ok vs" using CJSON(2) by (auto simp: str_ok_def split: if_splits)
  moreover have "- (2 ^ 31) \<le> i \<and> i < 2 ^ 31" using CJSON(2) assms [of d] by (auto split: if_splits)
  ultimately show ?case using CJSON(3) by simp
qed

end
