(* ===== verification/Cjson_Properties.thy ===== *)
theory Cjson_Properties
  imports Cjson_Object Cjson_Shape
begin

text \<open>
  The properties of the JSON library, each with a witness on a concrete text.
\<close>

section \<open>Parsing\<close>

text \<open>
C14. The parser has a defined result, a tree or a parse error, for every text with complete escapes and no
ten digits in a row, whatever else is in it: it never reads behind the text or writes behind a
string it has allocated. The conversion of a number to \<open>int\<close> is a parameter that has a result for every
\<open>double\<close>; C leaves it open for a number outside the range of \<open>int\<close>.
\<close>

theorem json_parse_safe:
  assumes "safe_text text"
  shows "\<exists>r. cJSON_Parse ar text = Some r"
  by (rule cJSON_Parse_safe [OF assms])

theorem json_parse_safe_witness:
  "\<exists>r. cJSON_Parse int_arith (ascii ''{broken: [1, 2'' @ [0]) = Some r"
  by (rule json_parse_safe) (simp add: safe_text_def ascii_def is_digit_def)

text \<open>
What the printer writes for a string, every control character, quote and backslash escaped, the
parser reads back as the same string, whatever follows the closing quote.
\<close>

theorem json_string_roundtrip:
  assumes "0 \<notin> set s" and "p \<noteq> []"
  shows "\<exists>out v. print_string_ptr (Some (s @ 0 # r)) = Some (out @ [0]) \<and>
    parse_string (out @ p) = Some (Inr (v, p)) \<and> cstr v = s"
proof -
  have "print_string_ptr (Some (s @ 0 # r)) = Some (([0x22] @ print_all s @ [0x22]) @ [0])"
    using print_string_eq [OF assms(1)] by simp
  moreover obtain v where "parse_string (([0x22] @ print_all s @ [0x22]) @ p) = Some (Inr (v, p))" "cstr v = s"
    using parse_print_string [OF assms] by auto
  ultimately show ?thesis by blast
qed

theorem json_string_roundtrip_witness:
  "\<exists>out v. print_string_ptr (Some ([0x61, 0x22, 0x5C, 0x0A, 0x01] @ 0 # [])) = Some (out @ [0]) \<and>
    parse_string (out @ [0x2C]) = Some (Inr (v, [0x2C])) \<and> cstr v = [0x61, 0x22, 0x5C, 0x0A, 0x01]"
  by (rule json_string_roundtrip) simp_all

lemma string_length_plain_run:
  "0 \<notin> set s \<Longrightarrow> 0x22 \<notin> set s \<Longrightarrow> 0x5C \<notin> set s \<Longrightarrow> string_length (s @ p) = map_option ((+) (length s)) (string_length p)"
proof (induction s)
  case (Cons b s)
  then show ?case by (cases "string_length p") (auto simp: string_length_plain)
qed (cases "string_length p"; simp)

text \<open>
A string whose text ends in a backslash makes the parser step over the end of the text: the result is
undefined.
\<close>

theorem json_backslash_at_end_undefined:
  assumes "0 \<notin> set s" and "0x22 \<notin> set s" and "0x5C \<notin> set s"
  shows "cJSON_Parse ar (0x22 # s @ [0x5C, 0]) = None"
proof -
  have "string_length (s @ [0x5C, 0]) = None" using string_length_plain_run [OF assms] by simp
  then have s: "parse_string (0x22 # s @ [0x5C, 0]) = None" by (simp add: parse_string_def)
  have "starts_with (0x22 # bs) (ascii ''null'') = Some False" "starts_with (0x22 # bs) (ascii ''false'') = Some False"
    "starts_with (0x22 # bs) (ascii ''true'') = Some False" for bs by (simp_all add: ascii_def)
  then have "parse_value ar (0x22 # s @ [0x5C, 0]) = None"
    using s by (simp add: parse_loops parse_simple_def)
  then show ?thesis by (simp add: cJSON_Parse_def cJSON_ParseWithOpts_def)
qed

theorem json_backslash_at_end_undefined_witness:
  "cJSON_Parse int_arith (0x22 # ascii ''abc'' @ [0x5C, 0]) = None"
  by (rule json_backslash_at_end_undefined) (simp_all add: ascii_def)

section \<open>Printing\<close>

text \<open>A printer for the witnesses, with the integers in the part of \<open>double\<close>.\<close>

definition int_printer :: "int printer" where
  "int_printer = \<lparr>pr_of_int = (\<lambda>i. i), pr_sub = (-), pr_abs = abs, pr_floor = (\<lambda>d. d), pr_le = (\<le>), pr_less = (<),
     DBL_EPSILON = 0, pr_1e60 = 10 ^ 60, pr_1e_6 = 0, pr_1e9 = 10 ^ 9, fmt_f0 = decimal, fmt_e = (\<lambda>d. ascii ''1.0e+10''),
     fmt_f = (\<lambda>d. ascii ''0.5'')\<rparr>"

lemma int_printer_ok: "formats_ok int_printer" "prints_ints int_arith int_printer" "exact_arith int_arith"
proof -
  have dec: "number_text (decimal d)" if "\<bar>d\<bar> < 10 ^ 60" for d
  proof -
    have "nat d < 10 ^ 60" "nat (- d) < 10 ^ 60" using that by (simp_all add: nat_less_iff)
    then have "length (decimal d) \<le> 61"
      using length_decimal_nat [of "nat d" 60] length_decimal_nat [of "nat (- d)" 60] by (simp add: decimal_def)
    moreover have "list_all number_byte (decimal_nat n)" for n
      using decimal_nat_digits [of n] by (auto simp: list_all_iff digit_number_byte)
    ultimately show ?thesis by (simp add: number_text_def decimal_def number_byte_def)
  qed
  have "number_text (ascii ''1.0e+10'')" "number_text (ascii ''0.5'')" by (simp_all add: number_text_def ascii_def number_byte_def)
  with dec show "formats_ok int_printer" by (simp add: formats_ok_def int_printer_def)
  show "prints_ints int_arith int_printer" "exact_arith int_arith"
    by (simp_all add: prints_ints_def exact_arith_def int_printer_def int_arith_def)
qed

text \<open>The tree of \<open>{"a": [1, -20, "x\n", true, null], "b": {}}\<close>.\<close>

definition sample :: "int cjson" where
  "sample = CJSON cJSON_Object None 0 0 None
     [CJSON cJSON_Array None 0 0 (Some [0x61, 0])
        [CJSON cJSON_Number None 1 1 None [], CJSON cJSON_Number None (- 20) (- 20) None [],
         CJSON cJSON_String (Some [0x78, 0x0A, 0]) 0 0 None [], CJSON cJSON_True None 1 0 None [],
         CJSON cJSON_NULL None 0 0 None []],
      CJSON cJSON_Object None 0 0 (Some [0x62, 0]) []]"

lemma sample_ok: "json_ok int_arith sample" "terminated sample"
  by (simp_all add: sample_def cJSON_types int_arith_def str_ok_def)

text \<open>
The printer never writes behind the memory it has allocated for a text, nor behind the buffers of its
numbers: for every tree of terminated strings, at any depth, formatted or not, it has a defined result.
\<close>

theorem json_print_in_bounds:
  assumes "formats_ok pr" and "terminated item"
  shows "\<exists>r. print_value pr item depth fmt = Some r"
  by (rule print_defined(1) [OF assms])

theorem json_print_in_bounds_witness: "\<exists>r. print_value int_printer sample 3 True = Some r"
  by (rule json_print_in_bounds [OF int_printer_ok(1) sample_ok(2)])

text \<open>
C15. Every tree that the parser returns is well typed, at every level: each node has one of the seven types
and only the fields of that type, its strings end inside their memory, the members of an object are
named and the items of an array are not. So, as long as the conversion to \<open>int\<close> is one, the printer
has a defined result for it.
\<close>

theorem json_parse_well_typed:
  assumes "cJSON_Parse ar text = Some (Some item)"
  shows "well_typed ar item \<and> cj_string item = None \<and>
    ((\<forall>d. - (2 ^ 31) \<le> d_to_int ar d \<and> d_to_int ar d < 2 ^ 31) \<longrightarrow> formats_ok pr \<longrightarrow> (\<exists>r. cJSON_Print pr item = Some r))"
proof -
  obtain p q where "parse_value ar p = Some (Inr (item, q))"
    using assms by (auto simp: cJSON_Parse_def cJSON_ParseWithOpts_def split: bind_splits sum.splits)
  then have wt: "cj_string item = None \<and> well_typed ar item" by (rule parse_well_typed(1))
  then show ?thesis using well_typed_terminated [of ar item] print_defined(1) [of pr item]
    by (fastforce simp: str_ok_def cJSON_Print_def)
qed

text \<open>Integers that are cut to 32 bits when they are converted.\<close>

definition cut_arith :: "int arith" where
  "cut_arith = int_arith\<lparr>d_to_int := (\<lambda>d. (d + 2 ^ 31) mod 2 ^ 32 - 2 ^ 31)\<rparr>"

theorem json_parse_well_typed_witness:
  "\<exists>item r. cJSON_Parse cut_arith (ascii ''[true]'' @ [0]) = Some (Some item) \<and> well_typed cut_arith item \<and>
     cJSON_Print int_printer item = Some r"
proof -
  have ok: "\<exists>item. cJSON_Parse cut_arith (ascii ''[true]'' @ [0]) = Some (Some item)"
    by (simp add: cJSON_Parse_def cJSON_ParseWithOpts_def ascii_def parse_loops parse_simple_def)
  have range: "\<forall>d. - (2 ^ 31) \<le> d_to_int cut_arith d \<and> d_to_int cut_arith d < 2 ^ 31"
    by (simp add: cut_arith_def)
  obtain item where i: "cJSON_Parse cut_arith (ascii ''[true]'' @ [0]) = Some (Some item)" using ok by blast
  from json_parse_well_typed [OF i, of int_printer] range int_printer_ok(1) show ?thesis using i by blast
qed

text \<open>
C16. What \<open>cJSON_Print\<close> or \<open>cJSON_PrintUnformatted\<close> writes for a tree whose numbers are integers, \<open>cJSON_Parse\<close> reads
back as the same tree: the same types, numbers, strings, names and children, at every level.
\<close>

theorem json_print_parse:
  assumes "exact_arith ar" and "prints_ints ar pr" and "json_ok ar item"
  shows "\<exists>out item'. (if fmt then cJSON_Print pr item else cJSON_PrintUnformatted pr item) = Some (Some out) \<and>
    cJSON_Parse ar (out @ [0]) = Some (Some item') \<and> same_json item item'"
proof -
  obtain out where out: "print_value pr item 0 fmt = Some (Some out)" "reads ar out item"
    using print_reads(1) [OF assms(1,3,2), of 0 fmt] by blast
  obtain item' where "parse_value ar (out @ [0]) = Some (Inr (item', [0]))" "same_json item item'"
    using reads_parse [OF out(2), of "[0]"] by auto
  moreover have "skip (out @ [0]) = Some (out @ [0])" using skip_reads [OF out(2), of "[]"] by simp
  ultimately show ?thesis using out(1)
    by (cases fmt) (simp_all add: cJSON_Print_def cJSON_PrintUnformatted_def cJSON_Parse_def cJSON_ParseWithOpts_def)
qed

theorem json_print_parse_witness:
  "\<exists>out item'. cJSON_Print int_printer sample = Some (Some out) \<and>
    cJSON_Parse int_arith (out @ [0]) = Some (Some item') \<and> same_json sample item'"
  using json_print_parse [OF int_printer_ok(3,2) sample_ok(1), of True] by simp

text \<open>
C33. \<open>cJSON_Minify\<close> makes the text of \<open>cJSON_PrintUnformatted\<close> out of that of \<open>cJSON_Print\<close>: it takes out the
layout and nothing else, strings included.
\<close>

theorem json_minify_print:
  assumes "formats_ok pr" and "terminated item" and "cJSON_Print pr item = Some (Some out)"
  shows "\<exists>out'. cJSON_Minify (out @ [0]) = Some out' \<and> cJSON_PrintUnformatted pr item = Some (Some out')"
proof -
  obtain out' where "\<forall>d. print_value pr item d False = Some (Some out')" "minified out out'"
    using print_minified(1) [OF assms(1,2), of True pr 0 out] assms(3) by (auto simp: cJSON_Print_def)
  then show ?thesis by (simp add: cJSON_Minify_def cJSON_PrintUnformatted_def minified_def)
qed

theorem json_minify_print_witness:
  "\<exists>out out'. cJSON_Print int_printer sample = Some (Some out) \<and> cJSON_Minify (out @ [0]) = Some out' \<and>
     cJSON_PrintUnformatted int_printer sample = Some (Some out')"
proof -
  obtain out where "cJSON_Print int_printer sample = Some (Some out)"
    using print_reads(1) [OF int_printer_ok(3) sample_ok(1) int_printer_ok(2)] by (auto simp: cJSON_Print_def)
  with json_minify_print [OF int_printer_ok(1) sample_ok(2) this] show ?thesis by blast
qed

section \<open>Changing trees\<close>

text \<open>
C34. An object whose members have different names, up to the case of letters, behaves as a map from names to
items: looking up, adding under a new name, detaching and replacing do to it what they do to the map,
never read outside a name, and keep the names different.
\<close>

theorem json_object_refines_map:
  assumes "object_ok ob" and "0 \<in> set name"
  shows "cJSON_GetObjectItem ob name = Some (object_members ob (name_key name)) \<and>
    (name_key name \<notin> dom (object_members ob) \<longrightarrow>
      (\<exists>ob'. cJSON_AddItemToObject ob name (Some c) = Some ob' \<and> object_ok ob' \<and>
         object_members ob' = (object_members ob)(name_key name \<mapsto> named_item name c))) \<and>
    (\<exists>ob'. cJSON_DetachItemFromObject ob name = Some (object_members ob (name_key name), ob') \<and> object_ok ob' \<and>
       object_members ob' = (object_members ob)(name_key name := None)) \<and>
    (\<exists>ob'. cJSON_ReplaceItemInObject ob name c = Some ob' \<and> object_ok ob' \<and>
       object_members ob' = (if name_key name \<in> dom (object_members ob)
         then (object_members ob)(name_key name \<mapsto> named_item name c) else object_members ob))"
  using jo.get_law [OF assms] jo.add_law [OF assms, of c] jo.detach_law [OF assms] jo.replace_law [OF assms, of c]
  unfolding add_member_def by blast

theorem json_object_refines_map_witness:
  "\<exists>item. cJSON_GetObjectItem sample (ascii ''A'' @ [0]) = Some (Some item) \<and>
    (\<exists>ob'. cJSON_AddItemToObject sample (ascii ''c'' @ [0]) (Some sample) = Some ob' \<and> object_ok ob')"
proof -
  have ok: "object_ok sample"
    by (simp add: object_ok_def children_ok_def sample_def item_key_def name_key_def cstr_def ascii_def tolower_def)
  have "object_members sample (name_key (ascii ''A'' @ [0])) \<noteq> None" "name_key (ascii ''c'' @ [0]) \<notin> dom (object_members sample)"
    by (simp_all add: object_members_def sample_def item_key_def name_key_def cstr_def ascii_def tolower_def domIff)
  then obtain item where item: "object_members sample (name_key (ascii ''A'' @ [0])) = Some item"
    and new: "name_key (ascii ''c'' @ [0]) \<notin> dom (object_members sample)" by blast
  have z: "0 \<in> set (ascii ''A'' @ [0 :: u8])" "0 \<in> set (ascii ''c'' @ [0 :: u8])" by simp_all
  have "cJSON_GetObjectItem sample (ascii ''A'' @ [0]) = Some (Some item)"
    using json_object_refines_map [OF ok z(1), of sample, THEN conjunct1] item by simp
  moreover have "\<exists>ob'. cJSON_AddItemToObject sample (ascii ''c'' @ [0]) (Some sample) = Some ob' \<and> object_ok ob'"
    using json_object_refines_map [OF ok z(2), of sample, THEN conjunct2, THEN conjunct1] new by blast
  ultimately show ?thesis by blast
qed

text \<open>
An object that is built by adding members under different names to a new object has each of them
under its name, whatever the order.
\<close>

theorem json_object_built:
  assumes "\<forall>p \<in> set ps. 0 \<in> set (fst p)" and "distinct (map (\<lambda>p. name_key (fst p)) ps)" and "(name, c) \<in> set ps"
  shows "\<exists>ob. add_all (\<lambda>ob name c. cJSON_AddItemToObject ob name (Some c)) (cJSON_CreateObject ar) ps = Some ob \<and>
    cJSON_GetObjectItem ob name = Some (Some (named_item name c))"
proof -
  have "object_ok (cJSON_CreateObject ar)" "object_members (cJSON_CreateObject ar) = Map.empty"
    by (simp_all add: cJSON_CreateObject_def new_item_def object_ok_def children_ok_def object_members_def)
  with jo.found_after_all [of "cJSON_CreateObject ar" ps name c] assms show ?thesis unfolding add_member_def by simp
qed

theorem json_object_built_witness:
  "\<exists>ob. add_all (\<lambda>ob name c. cJSON_AddItemToObject ob name (Some c)) (cJSON_CreateObject int_arith)
      [(ascii ''a'' @ [0], sample), (ascii ''b'' @ [0], cJSON_CreateNull int_arith)] = Some ob \<and>
    cJSON_GetObjectItem ob (ascii ''a'' @ [0]) = Some (Some (named_item (ascii ''a'' @ [0]) sample))"
  by (rule json_object_built) (simp_all add: name_key_def cstr_def ascii_def tolower_def)

text \<open>
A duplicate of a tree prints exactly as the tree does, and is again a tree of terminated strings.
\<close>

theorem json_duplicate_prints:
  assumes "terminated item"
  shows "\<exists>item'. cJSON_Duplicate item True = Some item' \<and> terminated item' \<and>
    cJSON_Print pr item' = cJSON_Print pr item \<and> cJSON_PrintUnformatted pr item' = cJSON_PrintUnformatted pr item"
  using duplicate_prints(1) [OF assms TrueI, where fmt = True and pr = pr]
    duplicate_prints(1) [OF assms TrueI, where fmt = False and pr = pr]
  by (auto simp: cJSON_Print_def cJSON_PrintUnformatted_def)

theorem json_duplicate_prints_witness:
  "\<exists>item'. cJSON_Duplicate sample True = Some item' \<and> cJSON_Print int_printer item' = cJSON_Print int_printer sample"
  using json_duplicate_prints [OF sample_ok(2), of int_printer] by blast

end
