(* ===== verification/Cjson_Heap.thy ===== *)
theory Cjson_Heap
  imports Cjson_Edit
begin

text \<open>
  The nodes of the JSON library in memory (\<open>src/cJSON.c\<close>): the chains of siblings, linked both ways, as the code
  adds, takes out, replaces and frees them, and items that share their children with another one
  (\<open>create_reference\<close>). The tree a node stands for is the business of \<open>Cjson_Owned\<close>.
\<close>

unbundle bit_operations_syntax

subsection \<open>Memory\<close>

text \<open>
  Nodes and strings are kept apart, under addresses of their own; the null pointer is 0. Using an
  address that is not allocated has no defined result. Allocating may fail, with the null pointer.
\<close>

record 'd node =
  nd_next :: nat
  nd_prev :: nat
  nd_child :: nat
  nd_type :: int
  nd_valuestring :: nat
  nd_valueint :: int
  nd_valuedouble :: 'd
  nd_string :: nat

record 'd heap =
  hp_nodes :: "nat \<Rightarrow> 'd node option"
  hp_texts :: "nat \<Rightarrow> u8 list option"

record 'd allocator =
  al_node :: "(nat \<Rightarrow> 'd node option) \<Rightarrow> nat"
  al_text :: "(nat \<Rightarrow> u8 list option) \<Rightarrow> nat"

definition get_node :: "nat \<Rightarrow> 'd heap \<Rightarrow> 'd node option" where
  "get_node p h = (if p = 0 then None else hp_nodes h p)"

definition set_node :: "nat \<Rightarrow> ('d node \<Rightarrow> 'd node) \<Rightarrow> 'd heap \<Rightarrow> 'd heap option" where
  "set_node p f h = do { n \<leftarrow> get_node p h; Some (h\<lparr>hp_nodes := (hp_nodes h)(p \<mapsto> f n)\<rparr>) }"

definition free_node :: "nat \<Rightarrow> 'd heap \<Rightarrow> 'd heap option" where
  "free_node p h = do { n \<leftarrow> get_node p h; Some (h\<lparr>hp_nodes := (hp_nodes h)(p := None)\<rparr>) }"

definition free_text :: "nat \<Rightarrow> 'd heap \<Rightarrow> 'd heap option" where
  "free_text p h = (if p = 0 \<or> hp_texts h p = None then None else Some (h\<lparr>hp_texts := (hp_texts h)(p := None)\<rparr>))"

text \<open>\<open>cJSON_New_Item\<close>, and \<open>cJSON_strdup\<close> of a string that is stored elsewhere.\<close>

definition heap_New_Item :: "'d arith \<Rightarrow> 'd allocator \<Rightarrow> 'd heap \<Rightarrow> nat \<times> 'd heap" where
  "heap_New_Item ar al h =
     (let p = al_node al (hp_nodes h)
      in if p = 0 then (0, h)
         else (p, h\<lparr>hp_nodes := (hp_nodes h)(p \<mapsto> \<lparr>nd_next = 0, nd_prev = 0, nd_child = 0, nd_type = 0, nd_valuestring = 0,
           nd_valueint = 0, nd_valuedouble = d_of_int ar 0, nd_string = 0\<rparr>)\<rparr>))"

definition heap_strdup :: "'d allocator \<Rightarrow> u8 list \<Rightarrow> 'd heap \<Rightarrow> (nat \<times> 'd heap) option" where
  "heap_strdup al str h = do {
     copy \<leftarrow> cJSON_strdup str;
     let p = al_text al (hp_texts h);
     Some (if p = 0 then (0, h) else (p, h\<lparr>hp_texts := (hp_texts h)(p \<mapsto> copy)\<rparr>))
   }"

subsection \<open>Freeing\<close>

definition is_reference :: "int \<Rightarrow> bool" where
  "is_reference ty \<longleftrightarrow> ty AND cJSON_IsReference \<noteq> 0"

text \<open>\<open>cJSON_Delete\<close>: the loop over the siblings, which frees what belongs to each.\<close>

partial_function (option) heap_Delete :: "nat \<Rightarrow> 'd heap \<Rightarrow> 'd heap option" where
  [code]: "heap_Delete c h =
     (if c = 0 then Some h
      else do {
        n \<leftarrow> get_node c h;
        let next = nd_next n;
        h \<leftarrow> (if \<not> is_reference (nd_type n) \<and> nd_child n \<noteq> 0 then heap_Delete (nd_child n) h else Some h);
        n \<leftarrow> get_node c h;
        h \<leftarrow> (if \<not> is_reference (nd_type n) \<and> nd_valuestring n \<noteq> 0 then free_text (nd_valuestring n) h else Some h);
        h \<leftarrow> (if nd_string n \<noteq> 0 then free_text (nd_string n) h else Some h);
        h \<leftarrow> free_node c h;
        heap_Delete next h
      })"

subsection \<open>Adding\<close>

definition suffix_object :: "nat \<Rightarrow> nat \<Rightarrow> 'd heap \<Rightarrow> 'd heap option" where
  "suffix_object prev item h = do {
     h \<leftarrow> set_node prev (\<lambda>n. n\<lparr>nd_next := item\<rparr>) h;
     set_node item (\<lambda>n. n\<lparr>nd_prev := prev\<rparr>) h
   }"

text \<open>The loop that looks for the last sibling; it does not end in a chain that is a circle.\<close>

partial_function (option) last_node :: "nat \<Rightarrow> 'd heap \<Rightarrow> nat option" where
  [code]: "last_node c h = do {
     n \<leftarrow> get_node c h;
     if nd_next n = 0 then Some c else last_node (nd_next n) h
   }"

definition heap_AddItemToArray :: "nat \<Rightarrow> nat \<Rightarrow> 'd heap \<Rightarrow> 'd heap option" where
  "heap_AddItemToArray array item h = do {
     a \<leftarrow> get_node array h;
     if item = 0 then Some h
     else if nd_child a = 0 then set_node array (\<lambda>n. n\<lparr>nd_child := item\<rparr>) h
     else do { c \<leftarrow> last_node (nd_child a) h; suffix_object c item h }
   }"

definition heap_AddItemToObject :: "'d allocator \<Rightarrow> nat \<Rightarrow> u8 list \<Rightarrow> nat \<Rightarrow> 'd heap \<Rightarrow> 'd heap option" where
  "heap_AddItemToObject al object str item h =
     (if item = 0 then Some h
      else do {
        n \<leftarrow> get_node item h;
        h \<leftarrow> (if nd_string n \<noteq> 0 then free_text (nd_string n) h else Some h);
        (name, h) \<leftarrow> heap_strdup al str h;
        h \<leftarrow> set_node item (\<lambda>n. n\<lparr>nd_string := name\<rparr>) h;
        heap_AddItemToArray object item h
      })"

text \<open>A reference is a copy of the node, without its name, that shares what the node points to.\<close>

definition create_reference :: "'d arith \<Rightarrow> 'd allocator \<Rightarrow> nat \<Rightarrow> 'd heap \<Rightarrow> (nat \<times> 'd heap) option" where
  "create_reference ar al item h =
     (let (ref, h) = heap_New_Item ar al h
      in if ref = 0 then Some (0, h)
         else do {
           n \<leftarrow> get_node item h;
           h \<leftarrow> set_node ref (\<lambda>r. n\<lparr>nd_string := 0, nd_type := nd_type n OR cJSON_IsReference, nd_next := 0, nd_prev := 0\<rparr>) h;
           Some (ref, h)
         })"

definition heap_AddItemReferenceToArray :: "'d arith \<Rightarrow> 'd allocator \<Rightarrow> nat \<Rightarrow> nat \<Rightarrow> 'd heap \<Rightarrow> 'd heap option" where
  "heap_AddItemReferenceToArray ar al array item h = do {
     (ref, h) \<leftarrow> create_reference ar al item h;
     heap_AddItemToArray array ref h
   }"

definition heap_AddItemReferenceToObject ::
  "'d arith \<Rightarrow> 'd allocator \<Rightarrow> nat \<Rightarrow> u8 list \<Rightarrow> nat \<Rightarrow> 'd heap \<Rightarrow> 'd heap option" where
  "heap_AddItemReferenceToObject ar al object str item h = do {
     (ref, h) \<leftarrow> create_reference ar al item h;
     heap_AddItemToObject al object str ref h
   }"

subsection \<open>Taking out and replacing\<close>

function nth_node :: "nat \<Rightarrow> int \<Rightarrow> 'd heap \<Rightarrow> nat option" where
  "nth_node c which h =
     (if c \<noteq> 0 \<and> which > 0 then do { n \<leftarrow> get_node c h; nth_node (nd_next n) (which - 1) h } else Some c)"
  by pat_completeness auto
termination by (relation "measure (\<lambda>(c, which, h). nat which)") auto

declare nth_node.simps [simp del]

definition heap_DetachItemFromArray :: "nat \<Rightarrow> int \<Rightarrow> 'd heap \<Rightarrow> (nat \<times> 'd heap) option" where
  "heap_DetachItemFromArray array which h = do {
     a \<leftarrow> get_node array h;
     c \<leftarrow> nth_node (nd_child a) which h;
     if c = 0 then Some (0, h)
     else do {
       n \<leftarrow> get_node c h;
       h \<leftarrow> (if nd_prev n \<noteq> 0 then set_node (nd_prev n) (\<lambda>m. m\<lparr>nd_next := nd_next n\<rparr>) h else Some h);
       n \<leftarrow> get_node c h;
       h \<leftarrow> (if nd_next n \<noteq> 0 then set_node (nd_next n) (\<lambda>m. m\<lparr>nd_prev := nd_prev n\<rparr>) h else Some h);
       n \<leftarrow> get_node c h;
       a \<leftarrow> get_node array h;
       h \<leftarrow> (if c = nd_child a then set_node array (\<lambda>m. m\<lparr>nd_child := nd_next n\<rparr>) h else Some h);
       h \<leftarrow> set_node c (\<lambda>m. m\<lparr>nd_prev := 0, nd_next := 0\<rparr>) h;
       Some (c, h)
     }
   }"

definition heap_DeleteItemFromArray :: "nat \<Rightarrow> int \<Rightarrow> 'd heap \<Rightarrow> 'd heap option" where
  "heap_DeleteItemFromArray array which h = do {
     (c, h) \<leftarrow> heap_DetachItemFromArray array which h;
     heap_Delete c h
   }"

definition heap_ReplaceItemInArray :: "nat \<Rightarrow> int \<Rightarrow> nat \<Rightarrow> 'd heap \<Rightarrow> 'd heap option" where
  "heap_ReplaceItemInArray array which newitem h = do {
     a \<leftarrow> get_node array h;
     c \<leftarrow> nth_node (nd_child a) which h;
     if c = 0 then Some h
     else do {
       n \<leftarrow> get_node c h;
       h \<leftarrow> set_node newitem (\<lambda>m. m\<lparr>nd_next := nd_next n\<rparr>) h;
       n \<leftarrow> get_node c h;
       h \<leftarrow> set_node newitem (\<lambda>m. m\<lparr>nd_prev := nd_prev n\<rparr>) h;
       new \<leftarrow> get_node newitem h;
       h \<leftarrow> (if nd_next new \<noteq> 0 then set_node (nd_next new) (\<lambda>m. m\<lparr>nd_prev := newitem\<rparr>) h else Some h);
       a \<leftarrow> get_node array h;
       new \<leftarrow> get_node newitem h;
       h \<leftarrow> (if c = nd_child a then set_node array (\<lambda>m. m\<lparr>nd_child := newitem\<rparr>) h
             else set_node (nd_prev new) (\<lambda>m. m\<lparr>nd_next := newitem\<rparr>) h);
       h \<leftarrow> set_node c (\<lambda>m. m\<lparr>nd_prev := 0, nd_next := 0\<rparr>) h;
       heap_Delete c h
     }
   }"

subsection \<open>Objects\<close>

text \<open>The loop that looks for a name reads the names of the members; a null name is none.\<close>

definition read_text :: "nat \<Rightarrow> 'd heap \<Rightarrow> u8 list option option" where
  "read_text p h = (if p = 0 then Some None else map_option Some (hp_texts h p))"

partial_function (option) heap_find_index :: "u8 list \<Rightarrow> int \<Rightarrow> nat \<Rightarrow> 'd heap \<Rightarrow> (int \<times> nat) option" where
  [code]: "heap_find_index name i c h =
     (if c = 0 then Some (i, 0)
      else do {
        n \<leftarrow> get_node c h;
        str \<leftarrow> read_text (nd_string n) h;
        same \<leftarrow> cJSON_same str (Some name);
        if same then Some (i, c) else heap_find_index name (i + 1) (nd_next n) h
      })"

definition heap_DetachItemFromObject :: "nat \<Rightarrow> u8 list \<Rightarrow> 'd heap \<Rightarrow> (nat \<times> 'd heap) option" where
  "heap_DetachItemFromObject object str h = do {
     a \<leftarrow> get_node object h;
     (i, c) \<leftarrow> heap_find_index str 0 (nd_child a) h;
     if c \<noteq> 0 then heap_DetachItemFromArray object i h else Some (0, h)
   }"

definition heap_DeleteItemFromObject :: "nat \<Rightarrow> u8 list \<Rightarrow> 'd heap \<Rightarrow> 'd heap option" where
  "heap_DeleteItemFromObject object str h = do {
     (c, h) \<leftarrow> heap_DetachItemFromObject object str h;
     heap_Delete c h
   }"

definition heap_ReplaceItemInObject :: "'d allocator \<Rightarrow> nat \<Rightarrow> u8 list \<Rightarrow> nat \<Rightarrow> 'd heap \<Rightarrow> 'd heap option" where
  "heap_ReplaceItemInObject al object str newitem h = do {
     a \<leftarrow> get_node object h;
     (i, c) \<leftarrow> heap_find_index str 0 (nd_child a) h;
     if c \<noteq> 0 then do {
       (name, h) \<leftarrow> heap_strdup al str h;
       h \<leftarrow> set_node newitem (\<lambda>n. n\<lparr>nd_string := name\<rparr>) h;
       heap_ReplaceItemInArray object i newitem h
     } else Some h
   }"

subsection \<open>The hooks of the allocator\<close>

text \<open>The functions the library allocates and frees with, after \<open>cJSON_InitHooks\<close>.\<close>

record ('m, 'f) cJSON_Hooks =
  malloc_fn :: "'m option"
  free_fn :: "'f option"

definition cJSON_InitHooks :: "'m \<Rightarrow> 'f \<Rightarrow> ('m, 'f) cJSON_Hooks option \<Rightarrow> 'm \<times> 'f" where
  "cJSON_InitHooks malloc free hooks = (case hooks of
     None \<Rightarrow> (malloc, free)
   | Some k \<Rightarrow> (case malloc_fn k of None \<Rightarrow> malloc | Some m \<Rightarrow> m, case free_fn k of None \<Rightarrow> free | Some f \<Rightarrow> f))"

subsection \<open>Duplicating\<close>

text \<open>A string is copied into the new node, which is deleted when there is no memory for the copy.\<close>

definition heap_dup_text ::
  "'d allocator \<Rightarrow> ((nat \<Rightarrow> nat) \<Rightarrow> 'd node \<Rightarrow> 'd node) \<Rightarrow> nat \<Rightarrow> nat \<Rightarrow> 'd heap \<Rightarrow> (nat \<times> 'd heap) option" where
  "heap_dup_text al field src newitem h =
     (if src = 0 then Some (newitem, h)
      else do {
        str \<leftarrow> hp_texts h src;
        (copy, h) \<leftarrow> heap_strdup al str h;
        h \<leftarrow> set_node newitem (field (\<lambda>_. copy)) h;
        if copy = 0 then do { h \<leftarrow> heap_Delete newitem h; Some (0, h) } else Some (newitem, h)
      })"

definition heap_dup_node :: "'d arith \<Rightarrow> 'd allocator \<Rightarrow> nat \<Rightarrow> 'd heap \<Rightarrow> (nat \<times> 'd heap) option" where
  "heap_dup_node ar al item h =
     (let (newitem, h) = heap_New_Item ar al h
      in if newitem = 0 then Some (0, h)
         else do {
           n \<leftarrow> get_node item h;
           h \<leftarrow> set_node newitem (\<lambda>m. m\<lparr>nd_type := nd_type n AND NOT cJSON_IsReference, nd_valueint := nd_valueint n,
             nd_valuedouble := nd_valuedouble n\<rparr>) h;
           (new, h) \<leftarrow> heap_dup_text al nd_valuestring_update (nd_valuestring n) newitem h;
           if new = 0 then Some (0, h)
           else heap_dup_text al nd_string_update (nd_string n) newitem h
         })"

text \<open>The loop over the children, with what \<open>cJSON_Duplicate\<close> does for each of them.\<close>

partial_function (option) heap_dup_children ::
  "'d arith \<Rightarrow> 'd allocator \<Rightarrow> nat \<Rightarrow> nat \<Rightarrow> nat \<Rightarrow> 'd heap \<Rightarrow> (nat \<times> 'd heap) option" where
  [code]: "heap_dup_children ar al newitem cptr nptr h =
     (if cptr = 0 then Some (newitem, h)
      else do {
        (c, h) \<leftarrow> heap_dup_node ar al cptr h;
        (newchild, h) \<leftarrow> (if c = 0 then Some (0, h)
          else do { n \<leftarrow> get_node cptr h; heap_dup_children ar al c (nd_child n) 0 h });
        if newchild = 0 then do { h \<leftarrow> heap_Delete newitem h; Some (0, h) }
        else do {
          h \<leftarrow> (if nptr \<noteq> 0 then suffix_object nptr newchild h else set_node newitem (\<lambda>m. m\<lparr>nd_child := newchild\<rparr>) h);
          n \<leftarrow> get_node cptr h;
          heap_dup_children ar al newitem (nd_next n) newchild h
        }
      })"

definition heap_Duplicate :: "'d arith \<Rightarrow> 'd allocator \<Rightarrow> nat \<Rightarrow> bool \<Rightarrow> 'd heap \<Rightarrow> (nat \<times> 'd heap) option" where
  "heap_Duplicate ar al item recurse h =
     (if item = 0 then Some (0, h)
      else do {
        (newitem, h) \<leftarrow> heap_dup_node ar al item h;
        if newitem = 0 \<or> \<not> recurse then Some (newitem, h)
        else do { n \<leftarrow> get_node item h; heap_dup_children ar al newitem (nd_child n) 0 h }
      })"

end
