(* ===== verification/Cjson_Owned.thy ===== *)
theory Cjson_Owned
  imports Cjson_Heap
begin

text \<open>
  The trees in memory: which nodes and strings belong to a chain of siblings, and what the operations of
  \<open>Cjson_Heap\<close> do to the trees of \<open>Cjson_Edit\<close>.
\<close>

subsection \<open>Chains\<close>

definition text_at :: "'d heap \<Rightarrow> nat \<Rightarrow> u8 list option \<Rightarrow> bool" where
  "text_at h p v \<longleftrightarrow> (case v of None \<Rightarrow> p = 0 | Some s \<Rightarrow> p \<noteq> 0 \<and> hp_texts h p = Some s)"

definition ptr :: "nat \<Rightarrow> nat list" where
  "ptr p = (if p = 0 then [] else [p])"

definition node_texts :: "'d node \<Rightarrow> nat list" where
  "node_texts n = (if is_reference (nd_type n) then [] else ptr (nd_valuestring n)) @ ptr (nd_string n)"

text \<open>A reference owns neither its children nor its string: in the tree it has none.\<close>

definition node_is :: "'d heap \<Rightarrow> nat \<Rightarrow> 'd node \<Rightarrow> 'd cjson \<Rightarrow> bool" where
  "node_is h prev n c \<longleftrightarrow> nd_prev n = prev \<and> nd_type n = cj_type c \<and> nd_valueint n = cj_valueint c \<and>
     nd_valuedouble n = cj_valuedouble c \<and> text_at h (nd_string n) (cj_string c) \<and>
     (if is_reference (cj_type c) then cj_valuestring c = None \<and> cj_child c = []
      else text_at h (nd_valuestring n) (cj_valuestring c))"

text \<open>
  The chain from \<open>p\<close> stands for the trees, each node linked back to the one before: the nodes and the strings
  that belong to it, its last node (\<open>prev\<close> if it is empty) and what comes behind it.
\<close>

fun chain :: "'d heap \<Rightarrow> nat \<Rightarrow> 'd cjson list \<Rightarrow> nat \<Rightarrow> (nat list \<times> nat list \<times> nat \<times> nat) option" where
  "chain h prev [] p = Some ([], [], prev, p)"
| "chain h prev (CJSON ty vs i d nm ks # cs) p = do {
     n \<leftarrow> get_node p h;
     (as, ss, k, e) \<leftarrow> (if is_reference ty then Some ([], [], 0, 0) else chain h 0 ks (nd_child n));
     (bs, ts, l, e') \<leftarrow> chain h p cs (nd_next n);
     if e = 0 \<and> node_is h prev n (CJSON ty vs i d nm ks) then Some (p # as @ bs, node_texts n @ ss @ ts, l, e') else None
   }"

text \<open>Induction on the trees of a chain.\<close>

fun tree_count :: "'d cjson list \<Rightarrow> nat" where
  "tree_count [] = 0"
| "tree_count (CJSON ty vs i d nm ks # cs) = 1 + tree_count ks + tree_count cs"

lemma chain_Cons:
  "chain h prev (c # cs) p = Some (as, ss, l, e) \<longleftrightarrow>
   (\<exists>n ks kt k bs ts. get_node p h = Some n \<and> node_is h prev n c \<and>
      (if is_reference (cj_type c) then ks = [] \<and> kt = [] else chain h 0 (cj_child c) (nd_child n) = Some (ks, kt, k, 0)) \<and>
      chain h p cs (nd_next n) = Some (bs, ts, l, e) \<and> as = p # ks @ bs \<and> ss = node_texts n @ kt @ ts)"
  by (cases c) (auto split: bind_splits if_splits)

lemma chain_ConsE:
  assumes "chain h prev (c # cs) p = Some (as, ss, l, e)"
  obtains n ks kt k bs ts where "get_node p h = Some n" "node_is h prev n c"
    "if is_reference (cj_type c) then ks = [] \<and> kt = [] else chain h 0 (cj_child c) (nd_child n) = Some (ks, kt, k, 0)"
    "chain h p cs (nd_next n) = Some (bs, ts, l, e)" "as = p # ks @ bs" "ss = node_texts n @ kt @ ts"
  using assms unfolding chain_Cons by blast

lemma chain_append:
  "chain h prev (xs @ ys) p = (case chain h prev xs p of None \<Rightarrow> None
     | Some (as, ss, l, e) \<Rightarrow> (case chain h l ys e of None \<Rightarrow> None
         | Some (bs, ts, l', e') \<Rightarrow> Some (as @ bs, ss @ ts, l', e')))"
proof (induction xs arbitrary: prev p)
  case (Cons x xs)
  show ?case
  proof (cases x)
    case (CJSON ty vs i d nm ks)
    show ?thesis unfolding CJSON using Cons.IH
      by (auto split: option.splits bind_splits if_splits)
  qed
qed (simp split: option.split)

text \<open>A chain only depends on the nodes and strings that belong to it.\<close>

definition same_on :: "'d heap \<Rightarrow> 'd heap \<Rightarrow> nat list \<Rightarrow> nat list \<Rightarrow> bool" where
  "same_on h h' as ss \<longleftrightarrow> (\<forall>p \<in> set as. hp_nodes h' p = hp_nodes h p) \<and> (\<forall>p \<in> set ss. hp_texts h' p = hp_texts h p)"

lemma same_on_simps [simp]: "same_on h h' [] []"
  "same_on h h' (as @ bs) (ss @ ts) \<longleftrightarrow> same_on h h' as ss \<and> same_on h h' bs ts"
  by (auto simp: same_on_def)

lemma same_on_texts: "(\<And>p. p \<in> set as \<Longrightarrow> hp_nodes h' p = hp_nodes h p) \<Longrightarrow> hp_texts h' = hp_texts h \<Longrightarrow> same_on h h' as ss"
  by (simp add: same_on_def)

lemma node_is_same:
  assumes "node_is h prev n c" and "\<forall>p \<in> set (node_texts n). hp_texts h' p = hp_texts h p"
  shows "node_is h' prev n c"
  using assms by (auto simp: node_is_def node_texts_def text_at_def ptr_def split: option.splits if_splits)

lemma chain_frame:
  "chain h prev cs p = Some (as, ss, l, e) \<Longrightarrow> same_on h h' as ss \<Longrightarrow> chain h' prev cs p = Some (as, ss, l, e)"
proof (induction cs arbitrary: prev p as ss l e rule: tree_count.induct)
  case (2 ty vs i d nm ks cs)
  let ?c = "CJSON ty vs i d nm ks"
  obtain n kas kss k bs ts where n: "get_node p h = Some n" "node_is h prev n ?c"
    and ks: "if is_reference ty then kas = [] \<and> kss = [] else chain h 0 ks (nd_child n) = Some (kas, kss, k, 0)"
    and cs: "chain h p cs (nd_next n) = Some (bs, ts, l, e)" and as: "as = p # kas @ bs" "ss = node_texts n @ kss @ ts"
    by (rule chain_ConsE [OF 2(3), unfolded cjson.sel])
  have same: "same_on h h' kas kss" "same_on h h' bs ts" "hp_nodes h' p = hp_nodes h p"
    "\<forall>p \<in> set (node_texts n). hp_texts h' p = hp_texts h p" using 2(4) as by (auto simp: same_on_def)
  have "get_node p h' = Some n" using n(1) same(3) by (auto simp: get_node_def split: if_splits)
  moreover have "if is_reference ty then kas = [] \<and> kss = [] else chain h' 0 ks (nd_child n) = Some (kas, kss, k, 0)"
    using ks 2(1) [OF _ same(1)] by (auto split: if_splits)
  ultimately show ?case unfolding chain_Cons
    using node_is_same [OF n(2) same(4)] 2(2) [OF cs same(2)] as by auto
qed simp

lemma chain_nonzero: "chain h prev cs p = Some (as, ss, l, e) \<Longrightarrow> 0 \<notin> set as"
proof (induction cs arbitrary: prev p as ss l e rule: tree_count.induct)
  case (2 ty vs i d nm ks cs)
  obtain n kas kss k bs ts where n: "get_node p h = Some n"
    and ks: "if is_reference ty then kas = [] \<and> kss = [] else chain h 0 ks (nd_child n) = Some (kas, kss, k, 0)"
    and cs: "chain h p cs (nd_next n) = Some (bs, ts, l, e)" and as: "as = p # kas @ bs"
    by (rule chain_ConsE [OF 2(3), unfolded cjson.sel])
  have "p \<noteq> 0" using n by (auto simp: get_node_def split: if_splits)
  moreover have "0 \<notin> set kas" using ks 2(1) by (auto split: if_splits)
  ultimately show ?case using 2(2) [OF cs] as by simp
qed simp

text \<open>What the first node is, and where the chain ends.\<close>

lemma chain_first: "chain h prev (c # cs) p = Some (as, ss, l, e) \<Longrightarrow> p \<noteq> 0 \<and> p \<in> set as \<and> as \<noteq> [] \<and> hd as = p \<and> l \<in> set as"
proof (induction cs arbitrary: c prev p as ss l e)
  case (Cons c' cs)
  then show ?case unfolding chain_Cons [of h prev c "c' # cs"] by (fastforce simp: get_node_def split: if_splits)
qed (auto simp: chain_Cons get_node_def split: if_splits)

lemma chain_empty: "chain h prev cs 0 = Some (as, ss, l, e) \<Longrightarrow> cs = []"
  using chain_first by (cases cs) blast+

lemma chain_one:
  assumes "chain h prev [c] p = Some (as, ss, l, e)"
  shows "l = p \<and> (\<exists>n. get_node p h = Some n \<and> nd_next n = e \<and> nd_prev n = prev)"
  using assms by (auto simp: chain_Cons node_is_def)

lemma chain_splitE:
  assumes "chain h prev (xs @ ys) p = Some (as, ss, l, e)"
  obtains as1 ss1 k q as2 ss2 where "chain h prev xs p = Some (as1, ss1, k, q)" "chain h k ys q = Some (as2, ss2, l, e)"
    "as = as1 @ as2" "ss = ss1 @ ss2"
  using assms unfolding chain_append by (auto split: option.splits)

lemma chain_join:
  "chain h prev xs p = Some (as, ss, k, q) \<Longrightarrow> chain h k ys q = Some (bs, ts, l, e) \<Longrightarrow>
   chain h prev (xs @ ys) p = Some (as @ bs, ss @ ts, l, e)"
  by (simp add: chain_append)

lemma chain_last:
  assumes "chain h prev (xs @ [x]) p = Some (as, ss, l, e)"
  shows "l \<noteq> 0 \<and> l \<in> set as \<and> (\<exists>n. get_node l h = Some n \<and> nd_next n = e)"
proof (rule chain_splitE [OF assms])
  fix as1 ss1 k q as2 ss2
  assume "chain h k [x] q = Some (as2, ss2, l, e)" "as = as1 @ as2"
  then show ?thesis using chain_one chain_first by fastforce
qed

text \<open>Linking a tree elsewhere.\<close>

lemma chain_relink:
  assumes "chain h prev [c] p = Some (as, ss, l, e)" and "distinct as"
    and "hp_nodes h' p = map_option (\<lambda>n. n\<lparr>nd_next := e', nd_prev := prev'\<rparr>) (hp_nodes h p)"
    and "\<forall>q \<in> set as - {p}. hp_nodes h' q = hp_nodes h q" and "\<forall>q \<in> set ss. hp_texts h' q = hp_texts h q"
  shows "chain h' prev' [c] p = Some (as, ss, p, e')"
proof -
  obtain n kas kss k where n: "get_node p h = Some n" "node_is h prev n c"
    and ks: "if is_reference (cj_type c) then kas = [] \<and> kss = [] else chain h 0 (cj_child c) (nd_child n) = Some (kas, kss, k, 0)"
    and as: "as = p # kas" "ss = node_texts n @ kss"
    using assms(1) unfolding chain_Cons by auto
  let ?n = "n\<lparr>nd_next := e', nd_prev := prev'\<rparr>"
  have n': "get_node p h' = Some ?n" using n(1) assms(3) by (auto simp: get_node_def split: if_splits)
  have "node_is h' prev n c" using node_is_same [OF n(2)] assms(5) as(2) by simp
  then have "node_is h' prev' ?n c" by (simp add: node_is_def)
  moreover have "same_on h h' kas kss" using assms(2,4,5) as by (auto simp: same_on_def)
  then have "if is_reference (cj_type c) then kas = [] \<and> kss = [] else chain h' 0 (cj_child c) (nd_child ?n) = Some (kas, kss, k, 0)"
    using ks chain_frame by (auto split: if_splits)
  moreover have "node_texts ?n = node_texts n" by (simp add: node_texts_def)
  ultimately show ?thesis unfolding chain_Cons using n' as by auto
qed

lemma chain_relink_last:
  assumes c: "chain h prev (xs @ [x]) p = Some (as, ss, l, e)" and d: "distinct as"
    and l: "hp_nodes h' l = map_option (\<lambda>n. n\<lparr>nd_next := e'\<rparr>) (hp_nodes h l)"
    and same: "\<forall>q \<in> set as - {l}. hp_nodes h' q = hp_nodes h q" "\<forall>q \<in> set ss. hp_texts h' q = hp_texts h q"
  shows "chain h' prev (xs @ [x]) p = Some (as, ss, l, e')"
proof -
  obtain as1 ss1 l1 as2 ss2 where 1: "chain h prev xs p = Some (as1, ss1, l1, l)" "chain h l1 [x] l = Some (as2, ss2, l, e)"
    "as = as1 @ as2" "ss = ss1 @ ss2"
    using c chain_one by (fastforce simp: chain_append split: option.splits)
  have "l \<in> set as2" using chain_first [OF 1(2)] by simp
  then have "chain h' prev xs p = Some (as1, ss1, l1, l)"
    using chain_frame [OF 1(1), of h'] same d 1(3,4) by (auto simp: same_on_def)
  moreover have "hp_nodes h' l = map_option (\<lambda>n. n\<lparr>nd_next := e', nd_prev := l1\<rparr>) (hp_nodes h l)"
    using chain_one [OF 1(2)] l by (auto simp: get_node_def split: if_splits)
  then have "chain h' l1 [x] l = Some (as2, ss2, l, e')"
    using chain_relink [OF 1(2), where e' = e' and prev' = l1 and h' = h'] same d 1(3,4) by auto
  ultimately show ?thesis by (simp add: chain_append 1(3,4) del: chain.simps(2))
qed

lemma chain_relink_first:
  assumes c: "chain h prev (x # xs) p = Some (as, ss, l, e)" and d: "distinct as"
    and p: "hp_nodes h' p = map_option (\<lambda>n. n\<lparr>nd_prev := prev'\<rparr>) (hp_nodes h p)"
    and same: "\<forall>q \<in> set as - {p}. hp_nodes h' q = hp_nodes h q" "\<forall>q \<in> set ss. hp_texts h' q = hp_texts h q"
  shows "chain h' prev' (x # xs) p = Some (as, ss, l, e)"
proof -
  have "chain h prev ([x] @ xs) p = Some (as, ss, l, e)" using c by simp
  then obtain as1 ss1 e1 as2 ss2 where 1: "chain h prev [x] p = Some (as1, ss1, p, e1)" "chain h p xs e1 = Some (as2, ss2, l, e)"
    "as = as1 @ as2" "ss = ss1 @ ss2"
    unfolding chain_append using chain_one by (fastforce split: option.splits)
  have "p \<in> set as1" using chain_first [OF 1(1)] by simp
  then have 2: "chain h' p xs e1 = Some (as2, ss2, l, e)"
    using chain_frame [OF 1(2), of h'] same d 1(3,4) by (auto simp: same_on_def)
  have "hp_nodes h' p = map_option (\<lambda>n. n\<lparr>nd_next := e1, nd_prev := prev'\<rparr>) (hp_nodes h p)"
    using chain_one [OF 1(1)] p by (auto simp: get_node_def split: if_splits)
  then have 3: "chain h' prev' [x] p = Some (as1, ss1, p, e1)"
    using chain_relink [OF 1(1), where e' = e1 and prev' = prev' and h' = h'] same d 1(3,4) by auto
  have "chain h' prev' ([x] @ xs) p = Some (as, ss, l, e)" unfolding chain_append 3 using 2 1(3,4) by simp
  then show ?thesis by simp
qed

subsection \<open>Walking\<close>

lemma last_node_chain: "chain h prev (xs @ [x]) p = Some (as, ss, l, 0) \<Longrightarrow> last_node p h = Some l"
proof (induction xs arbitrary: prev p as ss)
  case Nil
  then show ?case by (subst last_node.simps) (auto dest!: chain_one)
next
  case (Cons y xs)
  obtain n ks kt k bs ts where n: "get_node p h = Some n" "chain h p (xs @ [x]) (nd_next n) = Some (bs, ts, l, 0)"
    by (rule chain_ConsE [OF Cons(2) [unfolded append_Cons]])
  have "nd_next n \<noteq> 0"
  proof
    assume "nd_next n = 0"
    then show False using chain_empty n(2) by fastforce
  qed
  with n Cons.IH [OF n(2)] show ?case by (subst last_node.simps) simp
qed

lemma nth_node_chain:
  "chain h prev xs p = Some (as, ss, l, e) \<Longrightarrow> max 0 which = int (length xs) \<Longrightarrow> nth_node p which h = Some e"
proof (induction xs arbitrary: prev p as ss which)
  case Nil
  then show ?case by (subst nth_node.simps) (auto simp: max_def split: if_splits)
next
  case (Cons x xs)
  obtain n ks kt k bs ts where n: "get_node p h = Some n" "chain h p xs (nd_next n) = Some (bs, ts, l, e)"
    by (rule chain_ConsE [OF Cons(2)])
  have "nth_node (nd_next n) (which - 1) h = Some e" using Cons.IH [OF n(2), of "which - 1"] Cons(3) by (auto simp: max_def split: if_splits)
  moreover have "p \<noteq> 0" "0 < which" using Cons(3) n(1) by (auto simp: get_node_def max_def split: if_splits)
  ultimately show ?case using n(1) by (subst nth_node.simps) simp
qed

lemma nth_node_beyond:
  "chain h prev xs p = Some (as, ss, l, 0) \<Longrightarrow> int (length xs) \<le> which \<Longrightarrow> nth_node p which h = Some 0"
proof (induction xs arbitrary: prev p as ss which)
  case Nil
  then show ?case by (subst nth_node.simps) simp
next
  case (Cons x xs)
  obtain n ks kt k bs ts where n: "get_node p h = Some n" "chain h p xs (nd_next n) = Some (bs, ts, l, 0)"
    by (rule chain_ConsE [OF Cons(2)])
  have "nth_node (nd_next n) (which - 1) h = Some 0" using Cons.IH [OF n(2), of "which - 1"] Cons(3) by simp
  moreover have "p \<noteq> 0" "0 < which" using Cons(3) n(1) by (auto simp: get_node_def split: if_splits)
  ultimately show ?case using n(1) by (subst nth_node.simps) simp
qed

text \<open>Which child an index means.\<close>

lemma detach_at_cases:
  "(case detach_at ks which of
     None \<Rightarrow> ks = [] \<or> int (length ks) \<le> which
   | Some (c, ks') \<Rightarrow> \<exists>xs ys. ks = xs @ c # ys \<and> ks' = xs @ ys \<and> max 0 which = int (length xs) \<and>
       (\<forall>x. replace_at ks which x = xs @ x # ys))"
proof (induction ks which rule: detach_at.induct)
  case (2 c cs i)
  show ?case
  proof (cases "i > 0")
    case True
    show ?thesis
    proof (cases "detach_at cs (i - 1)")
      case None
      then show ?thesis using 2 [OF True] True by auto
    next
      case (Some d)
      then obtain x ks' where "detach_at cs (i - 1) = Some (x, ks')" by (cases d) auto
      with 2 [OF True] obtain xs ys where "cs = xs @ x # ys" "ks' = xs @ ys" "max 0 (i - 1) = int (length xs)"
        "\<forall>y. replace_at cs (i - 1) y = xs @ y # ys" "detach_at cs (i - 1) = Some (x, ks')" by auto
      then have *: "c # cs = (c # xs) @ x # ys \<and> c # ks' = (c # xs) @ ys \<and> max 0 i = int (length (c # xs)) \<and>
          (\<forall>y. replace_at (c # cs) i y = (c # xs) @ y # ys)" "detach_at (c # cs) i = Some (x, c # ks')"
        using True by (auto simp: max_def split: if_splits)
      show ?thesis unfolding *(2) option.case prod.case using *(1) by blast
    qed
  next
    case False
    then have *: "c # cs = [] @ c # cs \<and> cs = [] @ cs \<and> max 0 i = int (length ([] :: 'a list)) \<and>
        (\<forall>y. replace_at (c # cs) i y = [] @ y # cs)" "detach_at (c # cs) i = Some (c, cs)" by simp_all
    show ?thesis unfolding *(2) option.case prod.case using *(1) by blast
  qed
qed simp

subsection \<open>Freeing\<close>

text \<open>A heap without some of its nodes and strings.\<close>

definition without :: "'d heap \<Rightarrow> nat list \<Rightarrow> nat list \<Rightarrow> 'd heap" where
  "without h as ss = \<lparr>hp_nodes = hp_nodes h |` (- set as), hp_texts = hp_texts h |` (- set ss)\<rparr>"

lemma without_simps [simp]:
  "p \<notin> set as \<Longrightarrow> get_node p (without h as ss) = get_node p h"
  "hp_texts (without h as ss) q = (if q \<in> set ss then None else hp_texts h q)"
  "hp_nodes (without h as ss) p = (if p \<in> set as then None else hp_nodes h p)"
  "without h [] [] = h"
  "without (without h as ss) bs ts = without h (as @ bs) (ss @ ts)"
  by (auto simp: get_node_def without_def restrict_map_def fun_eq_iff)

lemma without_set: "set as = set bs \<Longrightarrow> set ss = set ts \<Longrightarrow> without h as ss = without h bs ts"
  by (simp add: without_def)

lemma without_same: "set as \<inter> set bs = {} \<Longrightarrow> set ss \<inter> set ts = {} \<Longrightarrow> same_on h (without h as ss) bs ts"
  by (auto simp: same_on_def)

lemma free_node_without: "get_node p h \<noteq> None \<Longrightarrow> free_node p h = Some (without h [p] [])"
  by (auto simp: free_node_def without_def restrict_map_def fun_eq_iff)

lemma free_ptr: "text_at h q v \<Longrightarrow> (if q \<noteq> 0 then free_text q h else Some h) = Some (without h [] (ptr q))"
  by (cases v) (auto simp: text_at_def free_text_def ptr_def without_def restrict_map_def fun_eq_iff)

text \<open>\<open>cJSON_Delete\<close> frees what belongs to a chain, each node and string once, and nothing else.\<close>

lemma heap_Delete_law:
  "chain h prev cs p = Some (as, ss, l, 0) \<Longrightarrow> distinct as \<Longrightarrow> distinct ss \<Longrightarrow> heap_Delete p h = Some (without h as ss)"
proof (induction cs arbitrary: h prev p as ss l rule: tree_count.induct)
  case (1 h prev p as ss l)
  then show ?case by (subst heap_Delete.simps) simp
next
  case (2 ty vs i d nm ks cs h prev p as ss l)
  let ?c = "CJSON ty vs i d nm ks"
  obtain n kas kss k bs ts where n: "get_node p h = Some n" "node_is h prev n ?c"
    and ks: "if is_reference ty then kas = [] \<and> kss = [] else chain h 0 ks (nd_child n) = Some (kas, kss, k, 0)"
    and cs: "chain h p cs (nd_next n) = Some (bs, ts, l, 0)" and as: "as = p # kas @ bs" "ss = node_texts n @ kss @ ts"
    by (rule chain_ConsE [OF 2(3), unfolded cjson.sel])
  have ty: "nd_type n = ty" and p: "p \<noteq> 0" using n by (auto simp: node_is_def get_node_def split: if_splits)
  let ?h1 = "without h kas kss"
  have d1: "(if \<not> is_reference (nd_type n) \<and> nd_child n \<noteq> 0 then heap_Delete (nd_child n) h else Some h) = Some ?h1"
  proof (cases "\<not> is_reference ty \<and> nd_child n \<noteq> 0")
    case True
    then show ?thesis using 2(1) [of h 0 "nd_child n" kas kss k] ks 2(4,5) as ty by simp
  next
    case False
    then have "kas = [] \<and> kss = []" using ks chain_empty [of h 0 ks] by (auto split: if_splits)
    with False ty show ?thesis by auto
  qed
  have n1: "get_node p ?h1 = Some n" using n(1) 2(4) as by simp
  let ?vs = "if is_reference ty then [] else ptr (nd_valuestring n)"
  have texts: "node_texts n = ?vs @ ptr (nd_string n)" by (simp add: node_texts_def ty)
  have fresh: "text_at (without h as' ss') q v" if "text_at h q v" "set (ptr q) \<inter> set ss' = {}" for as' ss' q v
    using that by (auto simp: text_at_def ptr_def split: option.splits)
  have dss: "distinct (?vs @ ptr (nd_string n) @ kss @ ts)" using 2(5) as(2) texts by simp
  have d2: "(if \<not> is_reference (nd_type n) \<and> nd_valuestring n \<noteq> 0 then free_text (nd_valuestring n) ?h1 else Some ?h1) =
      Some (without h kas (kss @ ?vs))"
  proof (cases "is_reference ty")
    case False
    then have "text_at h (nd_valuestring n) vs" using n(2) by (simp add: node_is_def)
    moreover have "set (ptr (nd_valuestring n)) \<inter> set kss = {}" using dss False by auto
    ultimately show ?thesis using free_ptr [OF fresh] False ty by simp
  qed (simp add: ty)
  have "text_at h (nd_string n) nm" using n(2) by (simp add: node_is_def)
  moreover have "set (ptr (nd_string n)) \<inter> set (kss @ ?vs) = {}" using dss by auto
  ultimately have d3: "(if nd_string n \<noteq> 0 then free_text (nd_string n) (without h kas (kss @ ?vs)) else Some (without h kas (kss @ ?vs))) =
      Some (without h kas (kss @ ?vs @ ptr (nd_string n)))" using free_ptr [OF fresh] by simp
  have "get_node p (without h kas (kss @ ?vs @ ptr (nd_string n))) \<noteq> None" using n(1) 2(4) as by simp
  from free_node_without [OF this]
  have d4: "free_node p (without h kas (kss @ ?vs @ ptr (nd_string n))) = Some (without h (kas @ [p]) (kss @ node_texts n))"
    using texts by simp
  let ?h4 = "without h (kas @ [p]) (kss @ node_texts n)"
  have "chain ?h4 p cs (nd_next n) = Some (bs, ts, l, 0)"
    using 2(4,5) as by (intro chain_frame [OF cs] without_same) auto
  then have "heap_Delete (nd_next n) ?h4 = Some (without ?h4 bs ts)" using 2(4,5) as by (intro 2(2)) auto
  moreover have "without ?h4 bs ts = without h as ss" unfolding without_simps by (rule without_set) (auto simp: as)
  ultimately have d5: "heap_Delete (nd_next n) ?h4 = Some (without h as ss)" by simp
  show ?case
    by (subst heap_Delete.simps) (simp only: p if_False n(1) bind.bind_lunit Let_def d1 n1 d2 d3 d4 d5)
qed

end
