(* ===== verification/Cjson_Links.thy ===== *)
theory Cjson_Links
  imports Cjson_Owned
begin

text \<open>
  Adding, taking out and replacing items in memory does to the tree of an array or object what the
  operations of \<open>Cjson_Edit\<close> do.
\<close>

definition array_at :: "'d heap \<Rightarrow> nat \<Rightarrow> 'd cjson \<Rightarrow> nat list \<Rightarrow> nat list \<Rightarrow> bool" where
  "array_at h a t as ss \<longleftrightarrow> (\<exists>n l. get_node a h = Some n \<and> chain h 0 (cj_child t) (nd_child n) = Some (as, ss, l, 0)) \<and>
     distinct (a # as) \<and> distinct ss"

definition item_at :: "'d heap \<Rightarrow> nat \<Rightarrow> 'd cjson \<Rightarrow> nat list \<Rightarrow> nat list \<Rightarrow> bool" where
  "item_at h p c bs ts \<longleftrightarrow> chain h 0 [c] p = Some (bs, ts, p, 0) \<and> distinct bs \<and> distinct ts"

text \<open>Nothing outside the given nodes has changed, and no string.\<close>

definition changes_only :: "nat list \<Rightarrow> 'd heap \<Rightarrow> 'd heap \<Rightarrow> bool" where
  "changes_only as h h' \<longleftrightarrow> (\<forall>q. q \<notin> set as \<longrightarrow> hp_nodes h' q = hp_nodes h q) \<and> hp_texts h' = hp_texts h"

text \<open>Of the node of the array only the link to the first item changes.\<close>

definition child_only :: "nat \<Rightarrow> 'd heap \<Rightarrow> 'd heap \<Rightarrow> bool" where
  "child_only a h h' \<longleftrightarrow> (\<exists>n x. get_node a h = Some n \<and> get_node a h' = Some (n\<lparr>nd_child := x\<rparr>))"

lemma child_onlyI: "get_node a h = Some n \<Longrightarrow> get_node a h' = Some (n\<lparr>nd_child := x\<rparr>) \<Longrightarrow> child_only a h h'"
  unfolding child_only_def by blast

definition prev_only :: "nat \<Rightarrow> 'd heap \<Rightarrow> 'd heap \<Rightarrow> bool" where
  "prev_only p h h' \<longleftrightarrow> (\<exists>n x. get_node p h = Some n \<and> get_node p h' = Some (n\<lparr>nd_prev := x\<rparr>))"

lemma prev_onlyI: "get_node p h = Some n \<Longrightarrow> get_node p h' = Some (n\<lparr>nd_prev := x\<rparr>) \<Longrightarrow> prev_only p h h'"
  unfolding prev_only_def by blast

definition last_child :: "nat \<Rightarrow> 'd heap \<Rightarrow> nat option" where
  "last_child a h = do { n \<leftarrow> get_node a h; if nd_child n = 0 then Some 0 else last_node (nd_child n) h }"

lemma last_child_chain:
  assumes "get_node a h = Some n" and "chain h 0 cs (nd_child n) = Some (as, ss, l, 0)"
  shows "last_child a h = Some (if cs = [] then 0 else l)"
proof (cases cs rule: rev_cases)
  case (snoc xs x)
  have "nd_child n \<noteq> 0"
  proof
    assume "nd_child n = 0"
    then have "cs = []" using chain_empty [of h 0 cs as ss l 0] assms(2) by simp
    then show False using snoc by simp
  qed
  then show ?thesis using snoc assms last_node_chain [of h 0 xs x "nd_child n" as ss l] by (simp add: last_child_def)
qed (use assms in \<open>simp add: last_child_def\<close>)

lemma set_node_law:
  "get_node p h = Some n \<Longrightarrow> set_node p f h = Some (h\<lparr>hp_nodes := (hp_nodes h)(p \<mapsto> f n)\<rparr>)"
  by (simp add: set_node_def)

lemma get_node_upd [simp]:
  "get_node q (h\<lparr>hp_nodes := (hp_nodes h)(p \<mapsto> n)\<rparr>) = (if q = p \<and> p \<noteq> 0 then Some n else get_node q h)"
  by (simp add: get_node_def)

lemma get_node_Some: "get_node p h = Some n \<longleftrightarrow> p \<noteq> 0 \<and> hp_nodes h p = Some n"
  by (simp add: get_node_def)

lemma add_item_law:
  assumes arr: "array_at h a t as ss" and item: "item_at h p c bs ts"
    and dis: "set (a # as) \<inter> set bs = {}" "set ss \<inter> set ts = {}"
  shows "\<exists>h'. heap_AddItemToArray a p h = Some h' \<and> array_at h' a (cJSON_AddItemToArray t (Some c)) (as @ bs) (ss @ ts) \<and>
    changes_only (a # as @ bs) h h' \<and> child_only a h h' \<and> prev_only p h h' \<and>
    last_child a h' = Some p"
proof -
  obtain na l where a: "get_node a h = Some na" "chain h 0 (cj_child t) (nd_child na) = Some (as, ss, l, 0)"
    "a \<notin> set as" "distinct as" "distinct ss" using arr by (auto simp: array_at_def)
  have c: "chain h 0 [c] p = Some (bs, ts, p, 0)" "distinct bs" "distinct ts" using item by (simp_all add: item_at_def)
  obtain n where n: "get_node p h = Some n" using chain_one [OF c(1)] by blast
  have p: "p \<noteq> 0" "p \<in> set bs" using chain_first [OF c(1)] by simp_all
  have kids: "cj_child (cJSON_AddItemToArray t (Some c)) = cj_child t @ [c]" by (simp add: cJSON_AddItemToArray_def)
  have dd: "distinct (a # as @ bs)" "distinct (ss @ ts)" using a c dis by auto
  show ?thesis
  proof (cases "cj_child t = []")
    case True
    then have "nd_child na = 0" "as = []" "ss = []" using a(2) by simp_all
    moreover let ?h = "h\<lparr>hp_nodes := (hp_nodes h)(a \<mapsto> na\<lparr>nd_child := p\<rparr>)\<rparr>"
    have "heap_AddItemToArray a p h = Some ?h"
      using a(1) p(1) calculation(1) by (simp add: heap_AddItemToArray_def set_node_law)
    moreover have ch: "chain ?h 0 [c] p = Some (bs, ts, p, 0)"
      using dis by (intro chain_frame [OF c(1)]) (auto simp: same_on_def)
    moreover have ga: "get_node a ?h = Some (na\<lparr>nd_child := p\<rparr>)" using a(1) by (simp add: get_node_def split: if_splits)
    moreover from this have "child_only a h ?h" by (rule child_onlyI [OF a(1)])
    moreover have "p \<noteq> a" using p dis by auto
    then have "prev_only p h ?h" using n by (intro prev_onlyI [of p h n ?h "nd_prev n"]) simp_all
    moreover have "last_child a ?h = Some p" using last_child_chain [OF ga, of "[c]"] ch by simp
    ultimately show ?thesis using dd kids True
      by (intro exI [of _ ?h]) (auto simp: array_at_def changes_only_def simp del: chain.simps)
  next
    case False
    then obtain xs x where xs: "cj_child t = xs @ [x]" by (metis append_butlast_last_id)
    have ch: "chain h 0 (xs @ [x]) (nd_child na) = Some (as, ss, l, 0)" using a(2) xs by simp
    then have last: "last_node (nd_child na) h = Some l" by (rule last_node_chain)
    obtain nl where l: "l \<noteq> 0" "l \<in> set as" "get_node l h = Some nl" using chain_last [OF ch] by blast
    have "nd_child na \<noteq> 0" using chain_empty [of h 0 "xs @ [x]"] ch by (metis snoc_eq_iff_butlast)
    let ?h = "h\<lparr>hp_nodes := (hp_nodes h)(l \<mapsto> nl\<lparr>nd_next := p\<rparr>, p \<mapsto> n\<lparr>nd_prev := l\<rparr>)\<rparr>"
    have lp: "l \<noteq> p" "a \<noteq> l" "a \<noteq> p" using l(2) p dis a(3) by auto
    have "heap_AddItemToArray a p h = Some ?h"
      using a(1) p(1) \<open>nd_child na \<noteq> 0\<close> last lp l(3) n by (simp add: heap_AddItemToArray_def suffix_object_def set_node_law)
    moreover have "chain ?h 0 (xs @ [x]) (nd_child na) = Some (as, ss, l, p)"
      using l p dis lp by (intro chain_relink_last [OF ch a(4)]) (auto simp: get_node_def)
    then have ch': "chain ?h 0 ((xs @ [x]) @ [c]) (nd_child na) = Some (as @ bs, ss @ ts, p, 0)"
    proof (rule chain_join)
      show "chain ?h l [c] p = Some (bs, ts, p, 0)"
        using l p dis lp n by (intro chain_relink_first [OF c(1,2)]) (auto simp: get_node_def)
    qed
    moreover have ga: "get_node a ?h = Some na" using a(1) lp by (simp add: get_node_Some)
    moreover from this have "child_only a h ?h" using a(1) by (intro child_onlyI [of a h na ?h "nd_child na"]) simp_all
    moreover have "prev_only p h ?h" using n p(1) by (intro prev_onlyI [of p h n ?h l]) (simp_all add: get_node_def)
    moreover have "last_child a ?h = Some p"
      using last_child_chain [OF ga ch'] by simp
    ultimately show ?thesis using dd kids xs l(2) p(2)
      by (intro exI [of _ ?h]) (auto simp: array_at_def changes_only_def simp del: chain.simps)
  qed
qed

text \<open>
  The two ends of a chain that is cut at an item: \<open>k\<close> is the last node before it, \<open>r\<close> the first one behind
  it, and they are linked to \<open>e\<close> and \<open>b\<close> instead.
\<close>

lemma splice:
  assumes xs: "chain h 0 xs p = Some (as, ss, k, q)" and ys: "chain h q' ys r = Some (bs, ts, l, 0)"
    and dis: "distinct as" "distinct bs" and texts: "hp_texts h' = hp_texts h"
    and k: "k \<noteq> 0 \<Longrightarrow> hp_nodes h' k = map_option (\<lambda>n. n\<lparr>nd_next := e\<rparr>) (hp_nodes h k)"
    and r: "r \<noteq> 0 \<Longrightarrow> hp_nodes h' r = map_option (\<lambda>n. n\<lparr>nd_prev := b\<rparr>) (hp_nodes h r)"
    and same: "\<forall>x \<in> set as \<union> set bs - {k, r}. hp_nodes h' x = hp_nodes h x" and kr: "k \<notin> set bs" "r \<notin> set as"
  shows "chain h' 0 xs (if k = 0 then e else p) = Some (as, ss, k, e)"
    "chain h' b ys r = Some (bs, ts, if ys = [] then b else l, 0)"
proof -
  show "chain h' 0 xs (if k = 0 then e else p) = Some (as, ss, k, e)"
  proof (cases xs rule: rev_cases)
    case (snoc zs x)
    have "k \<noteq> 0" "k \<in> set as" using chain_last xs snoc by blast+
    then show ?thesis using k same kr texts unfolding snoc
      by (simp only: if_False) (rule chain_relink_last [OF xs [unfolded snoc] dis(1)], auto)
  qed (use xs in auto)
  show "chain h' b ys r = Some (bs, ts, if ys = [] then b else l, 0)"
  proof (cases ys)
    case (Cons y zs)
    have "r \<noteq> 0" "r \<in> set bs" using chain_first [OF ys [unfolded Cons]] by simp_all
    then show ?thesis using r same kr texts unfolding Cons
      by (simp only: list.distinct if_False) (rule chain_relink_first [OF ys [unfolded Cons] dis(2)], auto)
  qed (use ys in auto)
qed

text \<open>The parts of an array at one of its items.\<close>

lemma array_split:
  assumes arr: "array_at h a t as ss" and t: "cj_child t = xs @ c # ys"
  obtains n k q nq r as1 ss1 bs ts as2 ss2 l where "get_node a h = Some n" "chain h 0 xs (nd_child n) = Some (as1, ss1, k, q)"
    "chain h k [c] q = Some (bs, ts, q, r)" "chain h q ys r = Some (as2, ss2, l, 0)" "get_node q h = Some nq"
    "nd_next nq = r" "nd_prev nq = k" "as = as1 @ bs @ as2" "ss = ss1 @ ts @ ss2" "distinct (a # as1 @ bs @ as2)"
    "distinct (ss1 @ ts @ ss2)" "q \<in> set bs" "k = 0 \<longleftrightarrow> nd_child n = q" "k \<noteq> 0 \<Longrightarrow> k \<in> set as1 \<and> get_node k h \<noteq> None"
    "r \<noteq> 0 \<Longrightarrow> r \<in> set as2 \<and> get_node r h \<noteq> None"
proof -
  obtain n l where n: "get_node a h = Some n" "chain h 0 (xs @ [c] @ ys) (nd_child n) = Some (as, ss, l, 0)"
    and d: "distinct (a # as)" "distinct ss" using arr t by (auto simp: array_at_def simp del: chain.simps)
  obtain as1 ss1 k q bs' ts' where 1: "chain h 0 xs (nd_child n) = Some (as1, ss1, k, q)"
    "chain h k ([c] @ ys) q = Some (bs', ts', l, 0)" "as = as1 @ bs'" "ss = ss1 @ ts'"
    by (rule chain_splitE [OF n(2)])
  obtain bs ts k' r as2 ss2 where 2: "chain h k [c] q = Some (bs, ts, k', r)" "chain h k' ys r = Some (as2, ss2, l, 0)"
    "bs' = bs @ as2" "ts' = ts @ ss2" by (rule chain_splitE [OF 1(2)])
  obtain nq where q: "k' = q" "get_node q h = Some nq" "nd_next nq = r" "nd_prev nq = k" using chain_one [OF 2(1)] by blast
  have qb: "q \<in> set bs" using chain_first [OF 2(1)] by simp
  have k: "if xs = [] then k = 0 \<and> nd_child n = q else k \<noteq> 0 \<and> k \<in> set as1 \<and> get_node k h \<noteq> None \<and> nd_child n \<in> set as1"
  proof (cases xs rule: rev_cases)
    case (snoc zs x)
    then show ?thesis using chain_last [of h 0 zs x] 1(1) chain_first [of h 0 "hd xs" "tl xs"] by fastforce
  qed (use 1(1) in simp)
  have r: "r \<in> set as2 \<and> get_node r h \<noteq> None" if "r \<noteq> 0"
  proof (cases ys)
    case (Cons y zs)
    then show ?thesis using chain_first [of h k' y zs r] chain_ConsE [of h k' y zs r] 2(2) by (metis option.distinct(1))
  qed (use 2(2) that in simp)
  have "k = 0 \<longleftrightarrow> nd_child n = q" using k qb d 1(3) 2(3) by (cases "xs = []") auto
  with n(1) 1 2 q qb d k r show thesis
    by (intro that [of n as1 ss1 k q bs ts r as2 ss2 l nq]) (auto split: if_splits simp del: chain.simps)
qed

lemma nth_node_none:
  assumes arr: "array_at h a t as ss" and none: "detach_at (cj_child t) which = None"
  obtains n where "get_node a h = Some n" "nth_node (nd_child n) which h = Some 0"
proof -
  obtain n l where a: "get_node a h = Some n" "chain h 0 (cj_child t) (nd_child n) = Some (as, ss, l, 0)"
    using arr by (auto simp: array_at_def)
  have "cj_child t = [] \<or> int (length (cj_child t)) \<le> which" using detach_at_cases [of "cj_child t" which] none by simp
  then have "nth_node (nd_child n) which h = Some 0"
  proof
    assume "cj_child t = []"
    then show ?thesis using a(2) by (subst nth_node.simps) simp
  qed (rule nth_node_beyond [OF a(2)])
  with a(1) show thesis by (rule that)
qed

text \<open>Taking the node \<open>q\<close> between \<open>k\<close> and \<open>r\<close> out, in one update.\<close>

definition unlinked :: "nat \<Rightarrow> nat \<Rightarrow> nat \<Rightarrow> nat \<Rightarrow> 'd heap \<Rightarrow> 'd heap" where
  "unlinked a k q r h = h\<lparr>hp_nodes := (\<lambda>x.
     if x = q then map_option (\<lambda>m. m\<lparr>nd_next := 0, nd_prev := 0\<rparr>) (hp_nodes h x)
     else if x = k \<and> k \<noteq> 0 then map_option (\<lambda>m. m\<lparr>nd_next := r\<rparr>) (hp_nodes h x)
     else if x = r \<and> r \<noteq> 0 then map_option (\<lambda>m. m\<lparr>nd_prev := k\<rparr>) (hp_nodes h x)
     else if x = a \<and> k = 0 then map_option (\<lambda>m. m\<lparr>nd_child := r\<rparr>) (hp_nodes h x)
     else hp_nodes h x)\<rparr>"

lemma heap_cong: "f = g \<Longrightarrow> h\<lparr>hp_nodes := f\<rparr> = h\<lparr>hp_nodes := g\<rparr>"
  by simp

lemma detach_runs:
  assumes a: "get_node a h = Some n" and nth: "nth_node (nd_child n) which h = Some q"
    and q: "get_node q h = Some nq" "nd_next nq = r" "nd_prev nq = k" "k = 0 \<longleftrightarrow> nd_child n = q"
    and ne: "a \<noteq> q" "k \<noteq> q" "r \<noteq> q" "k \<noteq> 0 \<Longrightarrow> k \<noteq> a \<and> k \<noteq> r" "r \<noteq> 0 \<Longrightarrow> r \<noteq> a"
    and k: "k \<noteq> 0 \<Longrightarrow> get_node k h = Some nk" and r: "r \<noteq> 0 \<Longrightarrow> get_node r h = Some nr"
  shows "heap_DetachItemFromArray a which h = Some (q, unlinked a k q r h)"
proof -
  have n: "hp_nodes h a = Some n" "a \<noteq> 0" "hp_nodes h q = Some nq" "q \<noteq> 0" using a q(1) by (simp_all add: get_node_Some)
  note ko = k [unfolded get_node_Some] and ro = r [unfolded get_node_Some]
  note facts = n nth q(2-) ne
  show ?thesis
  proof (cases "k = 0"; cases "r = 0")
  assume "k = 0" "r = 0"
  with facts show ?thesis unfolding heap_DetachItemFromArray_def unlinked_def
    by (simp add: set_node_def get_node_def fun_upd_def) (intro heap_cong ext, auto)
next
  assume "k = 0" "r \<noteq> 0"
  with facts ro show ?thesis unfolding heap_DetachItemFromArray_def unlinked_def
    by (simp add: set_node_def get_node_def fun_upd_def) (intro heap_cong ext, auto)
next
  assume "k \<noteq> 0" "r = 0"
  with facts ko show ?thesis unfolding heap_DetachItemFromArray_def unlinked_def
    by (simp add: set_node_def get_node_def fun_upd_def) (intro heap_cong ext, auto)
next
  assume "k \<noteq> 0" "r \<noteq> 0"
  with facts ko ro show ?thesis unfolding heap_DetachItemFromArray_def unlinked_def
    by (simp add: set_node_def get_node_def fun_upd_def) (intro heap_cong ext, auto)
  qed
qed

lemma detach_item_law:
  assumes arr: "array_at h a t as ss"
  shows "case cJSON_DetachItemFromArray t which of
      (None, t') \<Rightarrow> t' = t \<and> heap_DetachItemFromArray a which h = Some (0, h)
    | (Some c, t') \<Rightarrow> \<exists>p h' as' ss' bs ts. heap_DetachItemFromArray a which h = Some (p, h') \<and> item_at h' p c bs ts \<and>
        array_at h' a t' as' ss' \<and> set as = set as' \<union> set bs \<and> set (a # as') \<inter> set bs = {} \<and>
        set ss = set ss' \<union> set ts \<and> set ss' \<inter> set ts = {} \<and> changes_only (a # as) h h' \<and> child_only a h h'"
proof (cases "detach_at (cj_child t) which")
  case None
  obtain na where a: "get_node a h = Some na" "nth_node (nd_child na) which h = Some 0" by (rule nth_node_none [OF arr None])
  with None show ?thesis by (simp add: heap_DetachItemFromArray_def cJSON_DetachItemFromArray_def)
next
  case (Some d)
  then obtain c ks where d: "detach_at (cj_child t) which = Some (c, ks)" by (cases d) auto
  obtain xs ys where t: "cj_child t = xs @ c # ys" "ks = xs @ ys" "max 0 which = int (length xs)"
    using detach_at_cases [of "cj_child t" which] d by auto
  obtain n k q nq r as1 ss1 bs ts as2 ss2 l where
    a: "get_node a h = Some n" and xs: "chain h 0 xs (nd_child n) = Some (as1, ss1, k, q)"
    and c: "chain h k [c] q = Some (bs, ts, q, r)" and ys: "chain h q ys r = Some (as2, ss2, l, 0)"
    and q: "get_node q h = Some nq" "nd_next nq = r" "nd_prev nq = k" and as: "as = as1 @ bs @ as2" "ss = ss1 @ ts @ ss2"
    and dis: "distinct (a # as1 @ bs @ as2)" "distinct (ss1 @ ts @ ss2)" and qb: "q \<in> set bs"
    and kq: "k = 0 \<longleftrightarrow> nd_child n = q" and k: "k \<noteq> 0 \<Longrightarrow> k \<in> set as1 \<and> get_node k h \<noteq> None"
    and r: "r \<noteq> 0 \<Longrightarrow> r \<in> set as2 \<and> get_node r h \<noteq> None"
    by (rule array_split [OF arr t(1)]) (rule that)
  have nth: "nth_node (nd_child n) which h = Some q" by (rule nth_node_chain [OF xs t(3)])
  have ne: "q \<noteq> 0" "a \<noteq> 0" "a \<noteq> q" "k \<noteq> q" "r \<noteq> q" "k \<noteq> 0 \<Longrightarrow> k \<noteq> a" "r \<noteq> 0 \<Longrightarrow> r \<noteq> a" "k \<noteq> 0 \<Longrightarrow> k \<noteq> r"
    using q(1) a qb dis k r by (auto simp: get_node_Some)
  obtain nk nr where nk: "k \<noteq> 0 \<Longrightarrow> get_node k h = Some nk" and nr: "r \<noteq> 0 \<Longrightarrow> get_node r h = Some nr"
    using k r by (metis option.exhaust)
  define h' where "h' = unlinked a k q r h"
  have run: "heap_DetachItemFromArray a which h = Some (q, h')"
    unfolding h'_def using ne nk nr by (intro detach_runs [OF a nth q kq]) auto
  have same: "hp_texts h' = hp_texts h" "\<forall>x. x \<notin> {a, q, k, r} \<longrightarrow> hp_nodes h' x = hp_nodes h x" by (simp_all add: h'_def unlinked_def)
  have at: "hp_nodes h' q = map_option (\<lambda>m. m\<lparr>nd_next := 0, nd_prev := 0\<rparr>) (hp_nodes h q)"
    "k \<noteq> 0 \<Longrightarrow> hp_nodes h' k = map_option (\<lambda>n. n\<lparr>nd_next := r\<rparr>) (hp_nodes h k)"
    "r \<noteq> 0 \<Longrightarrow> hp_nodes h' r = map_option (\<lambda>n. n\<lparr>nd_prev := k\<rparr>) (hp_nodes h r)"
    "get_node a h' = Some (n\<lparr>nd_child := if k = 0 then r else nd_child n\<rparr>)"
    using a q(1) nk nr ne by (auto simp: get_node_Some h'_def unlinked_def)
  have zero: "0 \<notin> set as1" "0 \<notin> set bs" "0 \<notin> set as2" using chain_nonzero xs c ys by metis+
  have apart: "set as1 \<inter> set bs = {}" "set as1 \<inter> set as2 = {}" "set bs \<inter> set as2 = {}" "a \<notin> set as1 \<union> set bs \<union> set as2"
    using dis by auto
  have kr: "k \<notin> set bs \<union> set as2" "r \<notin> set as1 \<union> set bs" using k r zero apart by (cases "k = 0"; cases "r = 0"; auto)+
  have c': "chain h' 0 [c] q = Some (bs, ts, q, 0)"
  proof (rule chain_relink [OF c _ at(1)])
    show "\<forall>x \<in> set bs - {q}. hp_nodes h' x = hp_nodes h x"
    proof
      fix x assume "x \<in> set bs - {q}"
      then have "x \<notin> {a, q, k, r}" using kr apart(4) by auto
      then show "hp_nodes h' x = hp_nodes h x" using same(2) by simp
    qed
  qed (use dis same(1) in simp_all)
  have others: "\<forall>x \<in> set as1 \<union> set as2 - {k, r}. hp_nodes h' x = hp_nodes h x"
  proof
    fix x assume "x \<in> set as1 \<union> set as2 - {k, r}"
    then have "x \<notin> {a, q, k, r}" using qb apart by auto
    then show "hp_nodes h' x = hp_nodes h x" using same(2) by simp
  qed
  have "distinct as1" "distinct as2" "k \<notin> set as2" "r \<notin> set as1" using dis kr by auto
  note spl = splice [OF xs ys this(1,2) same(1) at(2,3) others this(3,4)]
  have "chain h' 0 (xs @ ys) (if k = 0 then r else nd_child n) = Some (as1 @ as2, ss1 @ ss2, if ys = [] then k else l, 0)"
    using spl by (rule chain_join)
  then have "array_at h' a (set_child ks t) (as1 @ as2) (ss1 @ ss2)"
    using at(4) dis t(2) by (auto simp: array_at_def simp del: chain.simps)
  moreover have "item_at h' q c bs ts" using c' dis by (simp add: item_at_def del: chain.simps)
  moreover have "changes_only (a # as) h h'"
    unfolding changes_only_def
  proof (intro conjI allI impI)
    fix x assume "x \<notin> set (a # as)"
    then have "x = 0 \<or> x \<notin> {a, q, k, r}" using k r qb as by (cases "k = 0"; cases "r = 0") auto
    then show "hp_nodes h' x = hp_nodes h x" using same(2) ne by (auto simp: h'_def unlinked_def)
  qed (rule same(1))
  moreover have "set as = set (as1 @ as2) \<union> set bs" "set (a # as1 @ as2) \<inter> set bs = {}" using as apart by auto
  moreover have "set ss = set (ss1 @ ss2) \<union> set ts" "set (ss1 @ ss2) \<inter> set ts = {}" using as dis(2) by auto
  ultimately have "\<exists>p h' as' ss' bs ts. heap_DetachItemFromArray a which h = Some (p, h') \<and> item_at h' p c bs ts \<and>
      array_at h' a (set_child ks t) as' ss' \<and> set as = set as' \<union> set bs \<and> set (a # as') \<inter> set bs = {} \<and>
      set ss = set ss' \<union> set ts \<and> set ss' \<inter> set ts = {} \<and> changes_only (a # as) h h' \<and> child_only a h h'"
    using run child_onlyI [OF a at(4)] by blast
  moreover have "cJSON_DetachItemFromArray t which = (Some c, set_child ks t)" using d by (simp add: cJSON_DetachItemFromArray_def)
  ultimately show ?thesis by (simp only: prod.case option.case)
qed

text \<open>
  What belonged to the caller before and does not any more is freed, each node and string; what did not belong to it is
  as it was.
\<close>

definition balanced :: "nat list \<Rightarrow> nat list \<Rightarrow> nat list \<Rightarrow> nat list \<Rightarrow> 'd heap \<Rightarrow> 'd heap \<Rightarrow> bool" where
  "balanced as ss as' ss' h h' \<longleftrightarrow>
     (\<forall>q. q \<notin> set as' \<longrightarrow> hp_nodes h' q = (if q \<in> set as then None else hp_nodes h q)) \<and>
     (\<forall>q. q \<notin> set ss' \<longrightarrow> hp_texts h' q = (if q \<in> set ss then None else hp_texts h q))"

lemma array_at_frame:
  "array_at h a t as ss \<Longrightarrow> same_on h h' (a # as) ss \<Longrightarrow> array_at h' a t as ss"
  unfolding array_at_def using chain_frame by (fastforce simp: same_on_def get_node_def split: if_splits)

lemma item_at_frame: "item_at h p c bs ts \<Longrightarrow> same_on h h' bs ts \<Longrightarrow> item_at h' p c bs ts"
  unfolding item_at_def using chain_frame by blast

lemma delete_item: "item_at h p c bs ts \<Longrightarrow> heap_Delete p h = Some (without h bs ts)"
  unfolding item_at_def using heap_Delete_law by blast

lemma delete_item_law:
  assumes arr: "array_at h a t as ss"
  shows "\<exists>h' as' ss'. heap_DeleteItemFromArray a which h = Some h' \<and> array_at h' a (cJSON_DeleteItemFromArray t which) as' ss' \<and>
    balanced (a # as) ss (a # as') ss' h h' \<and> child_only a h h' \<and> set as' \<subseteq> set as \<and> set ss' \<subseteq> set ss"
proof (cases "cJSON_DetachItemFromArray t which")
  case (Pair d t')
  show ?thesis
  proof (cases d)
    case None
    then have "t' = t" "heap_DetachItemFromArray a which h = Some (0, h)" using detach_item_law [OF arr, of which] Pair by auto
    moreover have "heap_Delete 0 h = Some h" by (subst heap_Delete.simps) simp
    moreover have "child_only a h h" using arr by (auto simp: array_at_def intro: child_onlyI [of _ _ n h "nd_child n" for n])
    ultimately show ?thesis using Pair arr
      by (intro exI [of _ h] exI [of _ as] exI [of _ ss])
        (simp add: heap_DeleteItemFromArray_def cJSON_DeleteItemFromArray_def balanced_def)
  next
    case (Some c)
    then obtain p h1 as' ss' bs ts where run: "heap_DetachItemFromArray a which h = Some (p, h1)"
      and item: "item_at h1 p c bs ts" and arr1: "array_at h1 a t' as' ss'"
      and parts: "set as = set as' \<union> set bs" "set (a # as') \<inter> set bs = {}" "set ss = set ss' \<union> set ts" "set ss' \<inter> set ts = {}"
      and rest: "changes_only (a # as) h h1" "child_only a h h1"
      using detach_item_law [OF arr, of which] Pair by auto
    have del: "heap_Delete p h1 = Some (without h1 bs ts)" by (rule delete_item [OF item])
    have "array_at (without h1 bs ts) a t' as' ss'"
      using parts by (intro array_at_frame [OF arr1] without_same) auto
    moreover have "balanced (a # as) ss (a # as') ss' h (without h1 bs ts)"
      using rest parts by (auto simp: balanced_def changes_only_def)
    moreover have "child_only a h (without h1 bs ts)" using rest(2) parts(2) by (auto simp: child_only_def)
    moreover have "set as' \<subseteq> set as" "set ss' \<subseteq> set ss" using parts by auto
    ultimately show ?thesis using run del Pair
      by (intro exI [of _ "without h1 bs ts"] exI [of _ as'] exI [of _ ss'])
        (simp add: heap_DeleteItemFromArray_def cJSON_DeleteItemFromArray_def)
  qed
qed

subsection \<open>Replacing\<close>

text \<open>The node \<open>q\<close> between \<open>k\<close> and \<open>r\<close> taken out, and \<open>p\<close> put in its place.\<close>

definition relinked :: "nat \<Rightarrow> nat \<Rightarrow> nat \<Rightarrow> nat \<Rightarrow> nat \<Rightarrow> 'd heap \<Rightarrow> 'd heap" where
  "relinked a k q r p h = h\<lparr>hp_nodes := (\<lambda>x.
     if x = q then map_option (\<lambda>m. m\<lparr>nd_next := 0, nd_prev := 0\<rparr>) (hp_nodes h x)
     else if x = p then map_option (\<lambda>m. m\<lparr>nd_next := r, nd_prev := k\<rparr>) (hp_nodes h x)
     else if x = k \<and> k \<noteq> 0 then map_option (\<lambda>m. m\<lparr>nd_next := p\<rparr>) (hp_nodes h x)
     else if x = r \<and> r \<noteq> 0 then map_option (\<lambda>m. m\<lparr>nd_prev := p\<rparr>) (hp_nodes h x)
     else if x = a \<and> k = 0 then map_option (\<lambda>m. m\<lparr>nd_child := p\<rparr>) (hp_nodes h x)
     else hp_nodes h x)\<rparr>"

lemma replace_runs:
  assumes a: "get_node a h = Some n" and nth: "nth_node (nd_child n) which h = Some q"
    and q: "get_node q h = Some nq" "nd_next nq = r" "nd_prev nq = k" "k = 0 \<longleftrightarrow> nd_child n = q"
    and p: "get_node p h = Some np" "p \<noteq> a" "p \<noteq> q" "p \<noteq> k" "p \<noteq> r"
    and ne: "a \<noteq> q" "k \<noteq> q" "r \<noteq> q" "k \<noteq> 0 \<Longrightarrow> k \<noteq> a \<and> k \<noteq> r" "r \<noteq> 0 \<Longrightarrow> r \<noteq> a"
    and k: "k \<noteq> 0 \<Longrightarrow> get_node k h = Some nk" and r: "r \<noteq> 0 \<Longrightarrow> get_node r h = Some nr"
  shows "heap_ReplaceItemInArray a which p h = heap_Delete q (relinked a k q r p h)"
proof -
  have n: "hp_nodes h a = Some n" "a \<noteq> 0" "hp_nodes h q = Some nq" "q \<noteq> 0" "hp_nodes h p = Some np" "p \<noteq> 0"
    using a q(1) p(1) by (simp_all add: get_node_Some)
  note ko = k [unfolded get_node_Some] and ro = r [unfolded get_node_Some]
  note facts = n nth q(2-) ne p(2-)
  show ?thesis
  proof (cases "k = 0"; cases "r = 0")
    assume "k = 0" "r = 0"
    with facts show ?thesis unfolding heap_ReplaceItemInArray_def relinked_def
      by (simp add: set_node_def get_node_def fun_upd_def) (intro arg_cong2 [where f = heap_Delete] refl heap_cong ext, auto)
  next
    assume "k = 0" "r \<noteq> 0"
    with facts ro show ?thesis unfolding heap_ReplaceItemInArray_def relinked_def
      by (simp add: set_node_def get_node_def fun_upd_def) (intro arg_cong2 [where f = heap_Delete] refl heap_cong ext, auto)
  next
    assume "k \<noteq> 0" "r = 0"
    with facts ko show ?thesis unfolding heap_ReplaceItemInArray_def relinked_def
      by (simp add: set_node_def get_node_def fun_upd_def) (intro arg_cong2 [where f = heap_Delete] refl heap_cong ext, auto)
  next
    assume "k \<noteq> 0" "r \<noteq> 0"
    with facts ko ro show ?thesis unfolding heap_ReplaceItemInArray_def relinked_def
      by (simp add: set_node_def get_node_def fun_upd_def) (intro arg_cong2 [where f = heap_Delete] refl heap_cong ext, auto)
  qed
qed

text \<open>Behind the end nothing happens, and the new item stays with the caller.\<close>

lemma replace_item_beyond:
  fixes t :: "'d cjson"
  assumes arr: "array_at h a t as ss" and none: "detach_at (cj_child t) which = None"
  shows "heap_ReplaceItemInArray a which p h = Some h \<and> cJSON_ReplaceItemInArray t which c = t"
proof -
  obtain n where "get_node a h = Some n" "nth_node (nd_child n) which h = Some 0" by (rule nth_node_none [OF arr none])
  then have "heap_ReplaceItemInArray a which p h = Some h" by (simp add: heap_ReplaceItemInArray_def)
  moreover have "int (length ks) \<le> which \<Longrightarrow> replace_at ks which c = ks" for ks :: "'d cjson list"
    by (induction ks which c rule: replace_at.induct) auto
  ultimately show ?thesis using detach_at_cases [of "cj_child t" which] none
    by (cases t) (auto simp: cJSON_ReplaceItemInArray_def)
qed

lemma replace_item_law:
  assumes arr: "array_at h a t as ss" and item: "item_at h p c bs ts"
    and dis: "set (a # as) \<inter> set bs = {}" "set ss \<inter> set ts = {}" and some: "detach_at (cj_child t) which \<noteq> None"
  shows "\<exists>h' as' ss'. heap_ReplaceItemInArray a which p h = Some h' \<and> array_at h' a (cJSON_ReplaceItemInArray t which c) as' ss' \<and>
    balanced (a # as @ bs) (ss @ ts) (a # as') ss' h h' \<and>
    set bs \<subseteq> set as' \<and> set as' \<subseteq> set as \<union> set bs \<and> set ts \<subseteq> set ss' \<and> set ss' \<subseteq> set ss \<union> set ts \<and> child_only a h h'"
proof -
  obtain d ks where d: "detach_at (cj_child t) which = Some (d, ks)" using some by auto
  obtain xs ys where t: "cj_child t = xs @ d # ys" "max 0 which = int (length xs)" "replace_at (cj_child t) which c = xs @ c # ys"
    using detach_at_cases [of "cj_child t" which] d by auto
  obtain n k q nq r as1 ss1 ds us as2 ss2 l where
    a: "get_node a h = Some n" and xs: "chain h 0 xs (nd_child n) = Some (as1, ss1, k, q)"
    and old: "chain h k [d] q = Some (ds, us, q, r)" and ys: "chain h q ys r = Some (as2, ss2, l, 0)"
    and q: "get_node q h = Some nq" "nd_next nq = r" "nd_prev nq = k" and as: "as = as1 @ ds @ as2" "ss = ss1 @ us @ ss2"
    and dd: "distinct (a # as1 @ ds @ as2)" "distinct (ss1 @ us @ ss2)" and qd: "q \<in> set ds"
    and kq: "k = 0 \<longleftrightarrow> nd_child n = q" and k: "k \<noteq> 0 \<Longrightarrow> k \<in> set as1 \<and> get_node k h \<noteq> None"
    and r: "r \<noteq> 0 \<Longrightarrow> r \<in> set as2 \<and> get_node r h \<noteq> None"
    by (rule array_split [OF arr t(1)]) (rule that)
  have new: "chain h 0 [c] p = Some (bs, ts, p, 0)" "distinct bs" "distinct ts" using item by (simp_all add: item_at_def)
  obtain np where np: "get_node p h = Some np" "p \<noteq> 0" "p \<in> set bs" using chain_one [OF new(1)] chain_first [OF new(1)] by blast
  have nth: "nth_node (nd_child n) which h = Some q" by (rule nth_node_chain [OF xs t(2)])
  have apart: "set as1 \<inter> set ds = {}" "set as1 \<inter> set as2 = {}" "set ds \<inter> set as2 = {}" "a \<notin> set as1 \<union> set ds \<union> set as2"
    "set bs \<inter> (set as1 \<union> set ds \<union> set as2) = {}" "a \<notin> set bs" using dd dis as by auto
  have zero: "0 \<notin> set as1" "0 \<notin> set ds" "0 \<notin> set as2" "0 \<notin> set bs" using chain_nonzero xs old ys new(1) by metis+
  have ne: "q \<noteq> 0" "a \<noteq> 0" "a \<noteq> q" "k \<noteq> q" "r \<noteq> q" "k \<noteq> 0 \<Longrightarrow> k \<noteq> a" "r \<noteq> 0 \<Longrightarrow> r \<noteq> a" "k \<noteq> 0 \<Longrightarrow> k \<noteq> r"
    using q(1) a qd apart k r by (auto simp: get_node_Some)
  have pne: "p \<noteq> a" "p \<noteq> q" "p \<noteq> k" "p \<noteq> r" using np apart qd k r by (cases "k = 0"; cases "r = 0"; auto)+
  obtain nk nr where nk: "k \<noteq> 0 \<Longrightarrow> get_node k h = Some nk" and nr: "r \<noteq> 0 \<Longrightarrow> get_node r h = Some nr"
    using k r by (metis option.exhaust)
  define h1 where "h1 = relinked a k q r p h"
  have run: "heap_ReplaceItemInArray a which p h = heap_Delete q h1"
    unfolding h1_def using ne nk nr by (intro replace_runs [OF a nth q kq np(1) pne]) auto
  have same: "hp_texts h1 = hp_texts h" "\<And>x. x \<noteq> 0 \<Longrightarrow> x \<notin> {a, q, k, r, p} \<Longrightarrow> hp_nodes h1 x = hp_nodes h x" "hp_nodes h1 0 = hp_nodes h 0"
    using ne np(2) by (auto simp: h1_def relinked_def)
  have at: "hp_nodes h1 q = map_option (\<lambda>m. m\<lparr>nd_next := 0, nd_prev := 0\<rparr>) (hp_nodes h q)"
    "hp_nodes h1 p = map_option (\<lambda>m. m\<lparr>nd_next := r, nd_prev := k\<rparr>) (hp_nodes h p)"
    "k \<noteq> 0 \<Longrightarrow> hp_nodes h1 k = map_option (\<lambda>n. n\<lparr>nd_next := p\<rparr>) (hp_nodes h k)"
    "r \<noteq> 0 \<Longrightarrow> hp_nodes h1 r = map_option (\<lambda>n. n\<lparr>nd_prev := p\<rparr>) (hp_nodes h r)"
    "get_node a h1 = Some (n\<lparr>nd_child := if k = 0 then p else nd_child n\<rparr>)"
    using a q(1) nk nr ne pne by (auto simp: get_node_Some h1_def relinked_def)
  have kr: "k \<notin> set ds \<union> set as2 \<union> set bs" "r \<notin> set as1 \<union> set ds \<union> set bs" using k r zero apart by (cases "k = 0"; cases "r = 0"; auto)+
  have others: "hp_nodes h1 x = hp_nodes h x" if "x \<in> set as1 \<union> set ds \<union> set as2 \<union> set bs - {k, r, q, p}" for x
    using that zero apart by (intro same(2)) auto
  have pn: "p \<notin> set as1 \<union> set ds \<union> set as2" using np apart by auto
  have qn: "q \<notin> set as1 \<union> set as2 \<union> set bs" using qd apart by auto
  have "\<forall>x \<in> set ds - {q}. hp_nodes h1 x = hp_nodes h x" using kr pn by (intro ballI others) auto
  then have old1: "chain h1 0 [d] q = Some (ds, us, q, 0)" using dd same(1) by (intro chain_relink [OF old _ at(1)]) auto
  have "\<forall>x \<in> set bs - {p}. hp_nodes h1 x = hp_nodes h x" using kr qn by (intro ballI others) auto
  then have new1: "chain h1 k [c] p = Some (bs, ts, p, r)" using new(2) same(1) by (intro chain_relink [OF new(1) _ at(2)]) auto
  have others': "\<forall>x \<in> set as1 \<union> set as2 - {k, r}. hp_nodes h1 x = hp_nodes h x" using pn qn by (intro ballI others) auto
  have "distinct as1" "distinct as2" "k \<notin> set as2" "r \<notin> set as1" using dd kr by auto
  note spl = splice [OF xs ys this(1,2) same(1) at(3,4) others' this(3,4)]
  have arr1: "array_at h1 a (cJSON_ReplaceItemInArray t which c) (as1 @ bs @ as2) (ss1 @ ts @ ss2)"
    using at(5) dd dis new(2,3) as t(3) chain_join [OF spl(1) chain_join [OF new1 spl(2)]]
    by (auto simp: array_at_def cJSON_ReplaceItemInArray_def simp del: chain.simps)
  have "item_at h1 q d ds us" using old1 dd by (simp add: item_at_def del: chain.simps)
  then have "heap_Delete q h1 = Some (without h1 ds us)" by (rule delete_item)
  moreover have "array_at (without h1 ds us) a (cJSON_ReplaceItemInArray t which c) (as1 @ bs @ as2) (ss1 @ ts @ ss2)"
    using dd dis as apart by (intro array_at_frame [OF arr1] without_same) auto
  moreover have "balanced (a # as @ bs) (ss @ ts) (a # as1 @ bs @ as2) (ss1 @ ts @ ss2) h (without h1 ds us)"
    unfolding balanced_def
  proof (intro conjI allI impI)
    fix x assume x: "x \<notin> set (a # as1 @ bs @ as2)"
    show "hp_nodes (without h1 ds us) x = (if x \<in> set (a # as @ bs) then None else hp_nodes h x)"
    proof (cases "x \<in> set ds")
      case False
      then have "x = 0 \<or> x \<notin> {a, q, k, r, p}" using x k r qd np by (cases "k = 0"; cases "r = 0") auto
      then have "hp_nodes h1 x = hp_nodes h x" using same(2,3) by (cases "x = 0") auto
      then show ?thesis using x False as by auto
    qed (use x as in auto)
  qed (use same(1) as in auto)
  moreover have "child_only a h (without h1 ds us)" using child_onlyI [OF a at(5)] apart(4) by (simp add: child_only_def)
  ultimately show ?thesis using run as by (intro exI conjI) (assumption | auto)+
qed

end
