(* ===== verification/Cjson_Memory.thy ===== *)
theory Cjson_Memory
  imports Cjson_Links
begin

text \<open>
  Objects in memory: names are strings of their own, which adding an item under a name, finding a member and
  replacing one have to keep straight. References to items, which share what the item owns.
\<close>

subsection \<open>Allocating\<close>

definition fresh_laws :: "'d allocator \<Rightarrow> bool" where
  "fresh_laws al \<longleftrightarrow> (\<forall>nodes. al_node al nodes \<noteq> 0 \<longrightarrow> nodes (al_node al nodes) = None) \<and>
     (\<forall>texts. al_text al texts \<noteq> 0 \<longrightarrow> texts (al_text al texts) = None)"

text \<open>A new string is kept apart from all that is in use.\<close>

lemma heap_strdup_law:
  assumes al: "fresh_laws al" and str: "cJSON_strdup str = Some copy"
  obtains "heap_strdup al str h = Some (0, h)"
  | s where "s \<noteq> 0" "hp_texts h s = None"
      "heap_strdup al str h = Some (s, h\<lparr>hp_texts := (hp_texts h)(s \<mapsto> copy)\<rparr>)"
  using al str by (cases "al_text al (hp_texts h) = 0") (auto simp: heap_strdup_def fresh_laws_def Let_def)

subsection \<open>Names\<close>

lemma chain_texts: "chain h prev cs p = Some (as, ss, l, e) \<Longrightarrow> s \<in> set ss \<Longrightarrow> hp_texts h s \<noteq> None"
proof (induction cs arbitrary: prev p as ss l e rule: tree_count.induct)
  case (2 ty vs i d nm ks cs)
  obtain n kas kss k bs ts where n: "get_node p h = Some n" "node_is h prev n (CJSON ty vs i d nm ks)"
    and ks: "if is_reference ty then kas = [] \<and> kss = [] else chain h 0 ks (nd_child n) = Some (kas, kss, k, 0)"
    and cs: "chain h p cs (nd_next n) = Some (bs, ts, l, e)" and ss: "ss = node_texts n @ kss @ ts"
    by (rule chain_ConsE [OF 2(3), unfolded cjson.sel])
  have "s \<in> set (node_texts n) \<Longrightarrow> hp_texts h s \<noteq> None"
    using n(2) by (auto simp: node_is_def node_texts_def text_at_def ptr_def split: if_splits option.splits)
  moreover have "s \<in> set kss \<Longrightarrow> hp_texts h s \<noteq> None" using ks 2(1) by (auto split: if_splits)
  ultimately show ?case using 2(2) [OF cs] 2(4) ss by auto
qed simp

lemma chain_texts_nonzero: "chain h prev cs p = Some (as, ss, l, e) \<Longrightarrow> 0 \<notin> set ss"
proof (induction cs arbitrary: prev p as ss l e rule: tree_count.induct)
  case (2 ty vs i d nm ks cs)
  obtain n kas kss k bs ts where n: "get_node p h = Some n"
    and ks: "if is_reference ty then kas = [] \<and> kss = [] else chain h 0 ks (nd_child n) = Some (kas, kss, k, 0)"
    and cs: "chain h p cs (nd_next n) = Some (bs, ts, l, e)" and ss: "ss = node_texts n @ kss @ ts"
    by (rule chain_ConsE [OF 2(3), unfolded cjson.sel])
  have "0 \<notin> set (node_texts n)" by (auto simp: node_texts_def ptr_def)
  moreover have "0 \<notin> set kss" using ks 2(1) by (auto split: if_splits)
  ultimately show ?case using 2(2) [OF cs] ss by simp
qed simp

lemma chain_nodes: "chain h prev cs p = Some (as, ss, l, e) \<Longrightarrow> q \<in> set as \<Longrightarrow> hp_nodes h q \<noteq> None"
proof (induction cs arbitrary: prev p as ss l e rule: tree_count.induct)
  case (2 ty vs i d nm ks cs)
  obtain n kas kss k bs ts where n: "get_node p h = Some n"
    and ks: "if is_reference ty then kas = [] \<and> kss = [] else chain h 0 ks (nd_child n) = Some (kas, kss, k, 0)"
    and cs: "chain h p cs (nd_next n) = Some (bs, ts, l, e)" and as: "as = p # kas @ bs"
    by (rule chain_ConsE [OF 2(3), unfolded cjson.sel])
  have "q \<in> set kas \<Longrightarrow> hp_nodes h q \<noteq> None" using ks 2(1) by (auto split: if_splits)
  then show ?case using 2(2) [OF cs] 2(4) as n by (auto simp: get_node_def split: if_splits)
qed simp

lemma find_chain:
  "chain h prev cs p = Some (as, ss, l, 0) \<Longrightarrow> find_index name i cs = Some r \<Longrightarrow>
   \<exists>j c. heap_find_index name i p h = Some (j, c) \<and> (case r of None \<Rightarrow> c = 0 | Some k \<Rightarrow> j = k \<and> c \<noteq> 0)"
proof (induction cs arbitrary: prev p as ss i)
  case Nil
  then show ?case by (subst heap_find_index.simps) auto
next
  case (Cons c cs)
  obtain n ks kt k bs ts where n: "get_node p h = Some n" "node_is h prev n c" "chain h p cs (nd_next n) = Some (bs, ts, l, 0)"
    by (rule chain_ConsE [OF Cons(2)])
  obtain same where same: "cJSON_same (cj_string c) (Some name) = Some same" using Cons(3) by (auto split: bind_splits)
  have "read_text (nd_string n) h = Some (cj_string c)"
    using n(2) by (auto simp: node_is_def read_text_def text_at_def split: option.splits)
  with n(1) same have run: "heap_find_index name i p h = (if same then Some (i, p) else heap_find_index name (i + 1) (nd_next n) h)"
    by (subst heap_find_index.simps) (auto simp: get_node_def split: if_splits)
  show ?case
  proof (cases same)
    case True
    then show ?thesis using run same n(1) Cons(3) by (auto simp: get_node_def split: if_splits)
  next
    case False
    then show ?thesis using run same Cons(3) Cons.IH [OF n(3), of "i + 1"] by simp
  qed
qed

text \<open>Giving an item another name, or none when there is no memory for it, which the code does not test.\<close>

definition set_name :: "u8 list option \<Rightarrow> 'd cjson \<Rightarrow> 'd cjson" where
  "set_name v c = CJSON (cj_type c) (cj_valuestring c) (cj_valueint c) (cj_valuedouble c) v (cj_child c)"

lemma set_name_simps [simp]: "cj_type (set_name v c) = cj_type c" "cj_valuestring (set_name v c) = cj_valuestring c"
  "cj_valueint (set_name v c) = cj_valueint c" "cj_valuedouble (set_name v c) = cj_valuedouble c"
  "cj_string (set_name v c) = v" "cj_child (set_name v c) = cj_child c" "set_name (Some name) = rename_item name"
  by (simp_all add: set_name_def rename_item_def fun_eq_iff)

lemma ptr_simps [simp]: "ptr 0 = []" "p \<noteq> 0 \<Longrightarrow> ptr p = [p]" "q \<in> set (ptr p) \<longleftrightarrow> q = p \<and> p \<noteq> 0" "distinct (ptr p)"
  by (auto simp: ptr_def)

lemma rename_law:
  assumes item: "item_at h p c bs ts" and copy: "text_at h' s v" "s \<notin> set ts - {nd_string n}"
    and n: "get_node p h = Some n" and same: "hp_nodes h' = (hp_nodes h)(p \<mapsto> n\<lparr>nd_string := s\<rparr>)"
    "\<forall>q \<in> set ts - {nd_string n}. hp_texts h' q = hp_texts h q"
  shows "\<exists>ts'. item_at h' p (set_name v c) bs ts' \<and> set ts' = set (ptr s) \<union> (set ts - {nd_string n})"
proof -
  obtain ks kt k where c: "node_is h 0 n c" "nd_next n = 0"
    and ks: "if is_reference (cj_type c) then ks = [] \<and> kt = [] else chain h 0 (cj_child c) (nd_child n) = Some (ks, kt, k, 0)"
    and bs: "bs = p # ks" "ts = node_texts n @ kt" "distinct bs" "distinct ts"
    using item n unfolding item_at_def chain_Cons by auto
  let ?n = "n\<lparr>nd_string := s\<rparr>"
  let ?vs = "if is_reference (nd_type n) then [] else ptr (nd_valuestring n)"
  have texts: "node_texts n = ?vs @ ptr (nd_string n)" "node_texts ?n = ?vs @ ptr s" by (simp_all add: node_texts_def)
  have zero: "0 \<notin> set (node_texts n)" by (auto simp: node_texts_def)
  have kt0: "0 \<notin> set kt"
    using ks chain_texts_nonzero [of h 0 "cj_child c" "nd_child n"] by (auto split: if_splits)
  have p': "get_node p h' = Some ?n" using n same(1) by (auto simp: get_node_def split: if_splits)
  have keeps: "\<forall>q \<in> set ?vs \<union> set kt. hp_texts h' q = hp_texts h q"
  proof
    fix q assume q: "q \<in> set ?vs \<union> set kt"
    then have "q \<noteq> 0" using kt0 by (cases "q = 0") (auto split: if_splits)
    then have "q \<noteq> nd_string n" using q bs(2,4) texts(1) by (cases "nd_string n = 0") (auto split: if_splits)
    then show "hp_texts h' q = hp_texts h q" using q same(2) bs(2) texts(1) by auto
  qed
  have "node_is h' 0 ?n (set_name v c)"
    using c(1) copy(1) keeps by (auto simp: node_is_def text_at_def split: option.splits if_splits)
  moreover have "same_on h h' ks kt" using bs same(1) keeps by (auto simp: same_on_def)
  then have "if is_reference (cj_type c) then ks = [] \<and> kt = [] else chain h' 0 (cj_child c) (nd_child ?n) = Some (ks, kt, k, 0)"
    using ks chain_frame by (auto split: if_splits)
  ultimately have "chain h' 0 [set_name v c] p = Some (bs, node_texts ?n @ kt, p, 0)"
    unfolding chain_Cons using p' bs c(2) by auto
  moreover have "set (node_texts ?n @ kt) = set (ptr s) \<union> (set ts - {nd_string n})"
    using bs(2,4) texts kt0 by (cases "nd_string n = 0") (auto split: if_splits)
  moreover have "distinct (node_texts ?n @ kt)"
    using bs(2,4) texts copy(2) kt0 by (cases "nd_string n = 0"; cases "s = 0") (auto split: if_splits)
  ultimately show ?thesis using bs(3) unfolding item_at_def by blast
qed

text \<open>What the two operations that name an item do to it, \<open>zs\<close> being what they have freed before.\<close>

lemma item_texts: "item_at h p c bs ts \<Longrightarrow> q \<in> set ts \<Longrightarrow> hp_texts h q \<noteq> None \<and> q \<noteq> 0"
  unfolding item_at_def using chain_texts chain_texts_nonzero by metis

lemma array_texts: "array_at h a t as ss \<Longrightarrow> q \<in> set ss \<Longrightarrow> hp_texts h q \<noteq> None \<and> q \<noteq> 0"
  unfolding array_at_def using chain_texts chain_texts_nonzero by metis

lemma new_name_law:
  assumes item: "item_at h p c bs ts" and n: "get_node p h = Some n" and zs: "set zs \<subseteq> {nd_string n}"
    and al: "fresh_laws al" and str: "cJSON_strdup str = Some copy"
  obtains s v h2 h3 ts' where "heap_strdup al str (without h [] zs) = Some (s, h2)"
    "set_node p (\<lambda>n. n\<lparr>nd_string := s\<rparr>) h2 = Some h3" "item_at h3 p (set_name v c) bs ts'"
    "set ts' = set (ptr s) \<union> (set ts - {nd_string n})" "v = Some copy \<or> v = None \<and> al_text al (hp_texts (without h [] zs)) = 0"
    "s \<noteq> 0 \<Longrightarrow> hp_texts (without h [] zs) s = None" "\<And>q. q \<noteq> p \<Longrightarrow> hp_nodes h3 q = hp_nodes h q"
    "\<And>q. q \<notin> set (ptr s) \<Longrightarrow> hp_texts h3 q = hp_texts (without h [] zs) q"
proof -
  let ?h1 = "without h [] zs"
  note named = that
  have p: "p \<noteq> 0" "hp_nodes ?h1 p = Some n" "hp_nodes ?h1 = hp_nodes h" using n by (auto simp: get_node_Some)
  have step: thesis if dup: "heap_strdup al str ?h1 = Some (s, h2)" and h2: "hp_nodes h2 = hp_nodes h" "text_at h2 s v"
      and fresh: "s \<noteq> 0 \<Longrightarrow> hp_texts ?h1 s = None" and rest: "\<And>q. q \<notin> set (ptr s) \<Longrightarrow> hp_texts h2 q = hp_texts ?h1 q"
      and v: "v = Some copy \<or> v = None \<and> al_text al (hp_texts ?h1) = 0" for s v h2
  proof -
    let ?h3 = "h2\<lparr>hp_nodes := (hp_nodes h)(p \<mapsto> n\<lparr>nd_string := s\<rparr>)\<rparr>"
    have set: "set_node p (\<lambda>n. n\<lparr>nd_string := s\<rparr>) h2 = Some ?h3" using p h2(1) by (simp add: set_node_def get_node_def)
    have s: "s \<notin> set ts - {nd_string n}"
    proof
      assume s: "s \<in> set ts - {nd_string n}"
      then have "hp_texts h s \<noteq> None" "s \<noteq> 0" using item_texts [OF item] by auto
      moreover have "s \<notin> set zs" using zs s by auto
      ultimately show False using fresh by simp
    qed
    have "\<forall>q \<in> set ts - {nd_string n}. hp_texts ?h3 q = hp_texts h q"
    proof
      fix q assume q: "q \<in> set ts - {nd_string n}"
      then have "q \<notin> set (ptr s)" "q \<notin> set zs" using s zs by auto
      then show "hp_texts ?h3 q = hp_texts h q" using rest [of q] by simp
    qed
    moreover have "text_at ?h3 s v" using h2(2) by (cases v) (simp_all add: text_at_def)
    ultimately obtain ts' where "item_at ?h3 p (set_name v c) bs ts'" "set ts' = set (ptr s) \<union> (set ts - {nd_string n})"
      using rename_law [OF item _ s n, where h' = ?h3 and v = v] by auto
    then show thesis using dup set v fresh rest by (intro named [of s h2 ?h3 v ts']) auto
  qed
  show thesis
  proof (rule heap_strdup_law [OF al str, where h = ?h1])
    assume full: "heap_strdup al str ?h1 = Some (0, ?h1)"
    then have "al_text al (hp_texts ?h1) = 0"
      using str by (auto simp: heap_strdup_def Let_def split: if_splits)
    with full show thesis by (intro step [of 0 ?h1 None]) (auto simp: text_at_def p(3))
  next
    fix s assume new: "s \<noteq> 0" "hp_texts ?h1 s = None"
      "heap_strdup al str ?h1 = Some (s, ?h1\<lparr>hp_texts := (hp_texts ?h1)(s \<mapsto> copy)\<rparr>)"
    then show thesis by (intro step [OF new(3), of "Some copy"]) (auto simp: text_at_def p(3))
  qed
qed

text \<open>That touches nothing that lies elsewhere.\<close>

lemma new_name_elsewhere:
  assumes nodes: "\<And>q. q \<noteq> p \<Longrightarrow> hp_nodes h3 q = hp_nodes h q"
    and texts: "\<And>q. q \<notin> set (ptr s) \<Longrightarrow> hp_texts h3 q = hp_texts (without h [] zs) q"
    and fresh: "s \<noteq> 0 \<Longrightarrow> hp_texts (without h [] zs) s = None" and apart: "p \<notin> set as" "set zs \<inter> set ss = {}"
    and used: "\<And>q. q \<in> set ss \<Longrightarrow> hp_texts h q \<noteq> None \<and> q \<noteq> 0"
  shows "s \<notin> set ss" "same_on h h3 as ss"
proof -
  show s: "s \<notin> set ss"
  proof
    assume s: "s \<in> set ss"
    then have "s \<notin> set zs" "hp_texts h s \<noteq> None" "s \<noteq> 0" using apart(2) used by auto
    then show False using fresh by simp
  qed
  show "same_on h h3 as ss" unfolding same_on_def
  proof (intro conjI ballI)
    fix q assume "q \<in> set as"
    then show "hp_nodes h3 q = hp_nodes h q" using apart(1) by (intro nodes) auto
  next
    fix q assume "q \<in> set ss"
    then have "q \<notin> set (ptr s)" "q \<notin> set zs" using s apart(2) by auto
    then show "hp_texts h3 q = hp_texts h q" using texts by simp
  qed
qed

text \<open>Adding under a name.\<close>

lemma add_object_law:
  assumes arr: "array_at h a t as ss" and item: "item_at h p c bs ts"
    and dis: "set (a # as) \<inter> set bs = {}" "set ss \<inter> set ts = {}"
    and al: "fresh_laws al" and str: "cJSON_strdup str = Some copy"
  shows "\<exists>h' v ts' old. heap_AddItemToObject al a str p h = Some h' \<and>
    array_at h' a (cJSON_AddItemToArray t (Some (set_name v c))) (as @ bs) (ss @ ts') \<and>
    (v = Some copy \<or> v = None \<and> al_text al (hp_texts (without h [] old)) = 0) \<and>
    balanced (a # as @ bs) (ss @ ts) (a # as @ bs) (ss @ ts') h h' \<and> child_only a h h' \<and>
    (\<forall>q \<in> set ts'. q \<in> set ts \<or> hp_texts h q = None)"
proof -
  obtain n where n: "get_node p h = Some n" "node_is h 0 n c" and ts: "set (node_texts n) \<subseteq> set ts"
    using item unfolding item_at_def chain_Cons by auto
  have p: "p \<in> set bs" "p \<noteq> 0" using item chain_first unfolding item_at_def by blast+
  have names: "nd_string n \<in> set ts \<or> nd_string n = 0" using ts by (auto simp: node_texts_def)
  have "text_at h (nd_string n) (cj_string c)" using n(2) by (simp add: node_is_def)
  then have free: "(if nd_string n \<noteq> 0 then free_text (nd_string n) h else Some h) = Some (without h [] (ptr (nd_string n)))"
    by (rule free_ptr)
  have zs: "set (ptr (nd_string n)) \<subseteq> {nd_string n}" by auto
  obtain s v h2 h3 ts' where dup: "heap_strdup al str (without h [] (ptr (nd_string n))) = Some (s, h2)"
    "set_node p (\<lambda>n. n\<lparr>nd_string := s\<rparr>) h2 = Some h3" and item3: "item_at h3 p (set_name v c) bs ts'"
    and ts': "set ts' = set (ptr s) \<union> (set ts - {nd_string n})"
    and v: "v = Some copy \<or> v = None \<and> al_text al (hp_texts (without h [] (ptr (nd_string n)))) = 0"
    and fresh: "s \<noteq> 0 \<Longrightarrow> hp_texts (without h [] (ptr (nd_string n))) s = None" and nodes: "\<And>q. q \<noteq> p \<Longrightarrow> hp_nodes h3 q = hp_nodes h q"
    and texts: "\<And>q. q \<notin> set (ptr s) \<Longrightarrow> hp_texts h3 q = hp_texts (without h [] (ptr (nd_string n))) q"
    by (rule new_name_law [OF item n(1) zs al str]) (rule that)
  have "nd_string n \<notin> set ss" using names dis(2) array_texts [OF arr, of 0] by auto
  then have zss: "set (ptr (nd_string n)) \<inter> set ss = {}" by auto
  have "p \<notin> set (a # as)" using p dis(1) by auto
  note ss = new_name_elsewhere [OF nodes texts fresh this zss array_texts [OF arr]]
  from ss(2)
  have arr3: "array_at h3 a t as ss" by (rule array_at_frame [OF arr])
  have "set ss \<inter> set ts' = {}" using ts' ss(1) dis(2) by auto
  then obtain h' where run: "heap_AddItemToArray a p h3 = Some h'"
    and arr': "array_at h' a (cJSON_AddItemToArray t (Some (set_name v c))) (as @ bs) (ss @ ts')"
    and rest: "changes_only (a # as @ bs) h3 h'" "child_only a h3 h'" using add_item_law [OF arr3 item3 dis(1)] by blast
  have "heap_AddItemToObject al a str p h = Some h'"
    unfolding heap_AddItemToObject_def using p(2) n(1) dup run by (simp only: if_False bind.bind_lunit free) simp
  moreover have "balanced (a # as @ bs) (ss @ ts) (a # as @ bs) (ss @ ts') h h'"
    unfolding balanced_def
  proof (intro conjI allI impI)
    fix q assume "q \<notin> set (a # as @ bs)"
    then show "hp_nodes h' q = (if q \<in> set (a # as @ bs) then None else hp_nodes h q)"
      using rest nodes [of q] p(1) by (auto simp: changes_only_def)
  next
    fix q assume q: "q \<notin> set (ss @ ts')"
    then have "q \<notin> set (ptr s)" "q \<in> set ts \<longleftrightarrow> q \<in> set (ptr (nd_string n))"
      using ts' names item_texts [OF item, of 0] by auto
    then show "hp_texts h' q = (if q \<in> set (ss @ ts) then None else hp_texts h q)"
      using rest texts [of q] q by (auto simp: changes_only_def)
  qed
  moreover have "a \<noteq> p" using p dis(1) by auto
  then have "get_node a h3 = get_node a h" using nodes [of a] by (simp add: get_node_def)
  then have "child_only a h h'" using rest(2) by (simp add: child_only_def)
  moreover have "\<forall>q \<in> set ts'. q \<in> set ts \<or> hp_texts h q = None"
    using ts' fresh names item_texts [OF item, of 0] by (auto split: if_splits)
  ultimately show ?thesis using arr' v by blast
qed

text \<open>Finding a member, to delete or replace it.\<close>

lemma find_array:
  assumes arr: "array_at h a t as ss" and find: "find_index str 0 (cj_child t) = Some r"
  obtains n j c where "get_node a h = Some n" "heap_find_index str 0 (nd_child n) h = Some (j, c)"
    "case r of None \<Rightarrow> c = 0 | Some k \<Rightarrow> j = k \<and> c \<noteq> 0"
  using arr find_chain [OF _ find] unfolding array_at_def by blast

lemma delete_object_law:
  assumes arr: "array_at h a t as ss" and del: "cJSON_DeleteItemFromObject t str = Some t'"
  shows "\<exists>h' as' ss'. heap_DeleteItemFromObject a str h = Some h' \<and> array_at h' a t' as' ss' \<and>
    balanced (a # as) ss (a # as') ss' h h' \<and> child_only a h h' \<and> set as' \<subseteq> set as \<and> set ss' \<subseteq> set ss"
proof -
  obtain r where r: "find_index str 0 (cj_child t) = Some r"
    using del by (auto simp: cJSON_DeleteItemFromObject_def cJSON_DetachItemFromObject_def split: bind_splits)
  obtain n j c where n: "get_node a h = Some n" "heap_find_index str 0 (nd_child n) h = Some (j, c)"
    "case r of None \<Rightarrow> c = 0 | Some k \<Rightarrow> j = k \<and> c \<noteq> 0" by (rule find_array [OF arr r])
  show ?thesis
  proof (cases r)
    case None
    then have "t' = t" using del r by (simp add: cJSON_DeleteItemFromObject_def cJSON_DetachItemFromObject_def)
    moreover have "heap_Delete 0 h = Some h" by (subst heap_Delete.simps) simp
    moreover have "child_only a h h" using n(1) by (intro child_onlyI [of a h n h "nd_child n"]) simp_all
    ultimately show ?thesis using n None arr
      by (intro exI [of _ h] exI [of _ as] exI [of _ ss])
        (simp add: heap_DeleteItemFromObject_def heap_DetachItemFromObject_def balanced_def)
  next
    case (Some k)
    then have "t' = cJSON_DeleteItemFromArray t k"
      using del r by (simp add: cJSON_DeleteItemFromObject_def cJSON_DetachItemFromObject_def cJSON_DeleteItemFromArray_def)
    moreover have "heap_DeleteItemFromObject a str h = heap_DeleteItemFromArray a k h"
      using n Some by (simp add: heap_DeleteItemFromObject_def heap_DetachItemFromObject_def heap_DeleteItemFromArray_def)
    ultimately show ?thesis using delete_item_law [OF arr, of k] by simp
  qed
qed

lemma found_detaches: "find_index str i cs = Some (Some k) \<Longrightarrow> detach_at cs (k - i) \<noteq> None \<and> i \<le> k"
proof (induction cs arbitrary: i)
  case (Cons c cs)
  obtain same where same: "cJSON_same (cj_string c) (Some str) = Some same" using Cons(2) by (auto split: bind_splits)
  show ?case
  proof (cases same)
    case True
    then show ?thesis using Cons(2) same by simp
  next
    case False
    then have "detach_at cs (k - (i + 1)) \<noteq> None \<and> i + 1 \<le> k" using Cons.IH [of "i + 1"] Cons(2) same by simp
    then show ?thesis by (simp add: algebra_simps)
  qed
qed simp

text \<open>The name that the new item had before is not freed: it stays, and belongs to nothing any more.\<close>

lemma replace_object_law:
  assumes arr: "array_at h a t as ss" and item: "item_at h p c bs ts" and n: "get_node p h = Some n"
    and dis: "set (a # as) \<inter> set bs = {}" "set ss \<inter> set ts = {}"
    and al: "fresh_laws al" and str: "cJSON_strdup str = Some copy" and find: "find_index str 0 (cj_child t) = Some (Some k)"
  shows "\<exists>h' v as' ss'. heap_ReplaceItemInObject al a str p h = Some h' \<and>
    array_at h' a (cJSON_ReplaceItemInArray t k (set_name v c)) as' ss' \<and>
    (v = Some copy \<or> v = None \<and> al_text al (hp_texts h) = 0) \<and> nd_string n \<notin> set ss' \<and>
    balanced (a # as @ bs) (filter (\<lambda>s. s \<noteq> nd_string n) (ss @ ts)) (a # as') ss' h h' \<and> child_only a h h' \<and>
    (\<forall>q \<in> set ss'. q \<in> set (ss @ ts) \<or> hp_texts h q = None)"
proof -
  obtain m j q where a: "get_node a h = Some m" "heap_find_index str 0 (nd_child m) h = Some (j, q)"
    "case Some k of None \<Rightarrow> q = 0 | Some k \<Rightarrow> j = k \<and> q \<noteq> 0" by (rule find_array [OF arr find])
  have p: "p \<in> set bs" "p \<noteq> 0" using item chain_first unfolding item_at_def by blast+
  have names: "nd_string n \<in> set ts \<or> nd_string n = 0"
    using item n unfolding item_at_def chain_Cons by (auto simp: node_texts_def)
  have "set [] \<subseteq> {nd_string n}" by simp
  then obtain s v h2 h3 ts' where dup: "heap_strdup al str (without h [] []) = Some (s, h2)"
    "set_node p (\<lambda>n. n\<lparr>nd_string := s\<rparr>) h2 = Some h3" and item3: "item_at h3 p (set_name v c) bs ts'"
    and ts': "set ts' = set (ptr s) \<union> (set ts - {nd_string n})"
    and v: "v = Some copy \<or> v = None \<and> al_text al (hp_texts (without h [] [])) = 0"
    and fresh: "s \<noteq> 0 \<Longrightarrow> hp_texts (without h [] []) s = None" and nodes: "\<And>q. q \<noteq> p \<Longrightarrow> hp_nodes h3 q = hp_nodes h q"
    and texts: "\<And>q. q \<notin> set (ptr s) \<Longrightarrow> hp_texts h3 q = hp_texts (without h [] []) q"
    by (rule new_name_law [OF item n _ al str]) (rule that)
  have "p \<notin> set (a # as)" using p dis(1) by auto
  note ss = new_name_elsewhere [OF nodes texts fresh this _ array_texts [OF arr]]
  have arr3: "array_at h3 a t as ss" by (rule array_at_frame [OF arr ss(2)]) auto
  have "s \<notin> set ss" by (rule ss(1)) auto
  then have "set ss \<inter> set ts' = {}" using ts' dis(2) by auto
  moreover have "detach_at (cj_child t) k \<noteq> None" using found_detaches [OF find] by simp
  ultimately obtain h' as' ss' where run: "heap_ReplaceItemInArray a k p h3 = Some h'"
    and arr': "array_at h' a (cJSON_ReplaceItemInArray t k (set_name v c)) as' ss'"
    and rest: "balanced (a # as @ bs) (ss @ ts') (a # as') ss' h3 h'"
    and sub: "set bs \<subseteq> set as'" "set ts' \<subseteq> set ss'" "set ss' \<subseteq> set ss \<union> set ts'" "child_only a h3 h'"
    using replace_item_law [OF arr3 item3 dis(1)] by blast
  have run': "heap_ReplaceItemInObject al a str p h = Some h'"
    using a dup run by (simp add: heap_ReplaceItemInObject_def)
  have old: "nd_string n \<notin> set ss" using names dis(2) array_texts [OF arr, of 0] by auto
  have "nd_string n \<noteq> s \<or> s = 0" using names fresh item_texts [OF item, of "nd_string n"] by (cases "s = 0") auto
  then have "nd_string n \<notin> set ss'" using sub(3) ts' old by auto
  moreover have "balanced (a # as @ bs) (filter (\<lambda>s. s \<noteq> nd_string n) (ss @ ts)) (a # as') ss' h h'"
    unfolding balanced_def
  proof (intro conjI allI impI)
    fix q assume q: "q \<notin> set (a # as')"
    then have "q \<noteq> p" using sub(1) p by auto
    then show "hp_nodes h' q = (if q \<in> set (a # as @ bs) then None else hp_nodes h q)"
      using rest nodes q by (simp add: balanced_def)
  next
    fix q assume q: "q \<notin> set ss'"
    then have "q \<notin> set (ptr s)" using sub(2) ts' by auto
    moreover from this have "q \<in> set (ss @ ts') \<longleftrightarrow> q \<in> set (filter (\<lambda>s. s \<noteq> nd_string n) (ss @ ts))" using ts' old by auto
    ultimately show "hp_texts h' q = (if q \<in> set (filter (\<lambda>s. s \<noteq> nd_string n) (ss @ ts)) then None else hp_texts h q)"
      using rest texts q by (simp add: balanced_def)
  qed
  moreover have "a \<noteq> p" using p dis(1) by auto
  then have "get_node a h3 = get_node a h" using nodes [of a] by (simp add: get_node_def)
  then have "child_only a h h'" using sub(4) by (simp add: child_only_def)
  moreover have "\<forall>q \<in> set ss'. q \<in> set (ss @ ts) \<or> hp_texts h q = None" using sub(3) ts' fresh by (cases "s = 0") auto
  ultimately show ?thesis using run' arr' v by (intro exI conjI) (assumption | simp)+
qed

subsection \<open>Arrays and objects as items\<close>

lemma array_of_item:
  assumes "item_at h a t bs ss" and "\<not> is_reference (cj_type t)"
  obtains n as us where "get_node a h = Some n" "array_at h a t as us" "bs = a # as" "ss = node_texts n @ us"
proof -
  obtain n ks kt k where n: "get_node a h = Some n" and ks: "chain h 0 (cj_child t) (nd_child n) = Some (ks, kt, k, 0)"
    and bs: "bs = a # ks" "ss = node_texts n @ kt" "distinct bs" "distinct ss"
    using assms unfolding item_at_def chain_Cons by auto
  then have "array_at h a t ks kt" by (simp add: array_at_def del: chain.simps)
  with n bs show thesis by (intro that)
qed

lemma item_of_array:
  assumes item: "item_at h a t (a # as) (node_texts n @ us)" and n: "get_node a h = Some n" and t: "\<not> is_reference (cj_type t)"
    and arr: "array_at h' a (set_child ks t) as' us'" and child: "child_only a h h'"
    and bal: "balanced (a # as @ xs) (us @ zs) (a # as') us' h h'" and zs: "set zs \<inter> set (node_texts n @ us) = {}"
    and us': "\<forall>q \<in> set us'. q \<in> set (us @ zs) \<or> hp_texts h q = None"
  shows "item_at h' a (set_child ks t) (a # as') (node_texts n @ us') \<and>
    balanced ((a # as) @ xs) ((node_texts n @ us) @ zs) (a # as') (node_texts n @ us') h h'"
proof
  obtain x where x: "get_node a h' = Some (n\<lparr>nd_child := x\<rparr>)" using child n by (auto simp: child_only_def)
  have c: "node_is h 0 n t" "nd_next n = 0" and d: "distinct (node_texts n @ us)"
    using item n unfolding item_at_def chain_Cons by auto
  have disj: "q \<notin> set us'" "hp_texts h' q = hp_texts h q" if "q \<in> set (node_texts n)" for q
  proof -
    have "hp_texts h q \<noteq> None" using item_texts [OF item, of q] that by simp
    then show q: "q \<notin> set us'" using us' that d zs by auto
    have "q \<notin> set (us @ zs)" using that d zs by auto
    with bal q show "hp_texts h' q = hp_texts h q" by (auto simp: balanced_def)
  qed
  let ?n = "n\<lparr>nd_child := x\<rparr>"
  have texts: "node_texts ?n = node_texts n" by (simp add: node_texts_def)
  have "node_is h' 0 n t" using disj(2) by (intro node_is_same [OF c(1)]) simp
  then have n': "node_is h' 0 ?n (set_child ks t)" using t by (cases t) (simp add: node_is_def)
  have "distinct (a # as')" "distinct (node_texts n @ us')" using arr d disj(1) by (auto simp: array_at_def)
  moreover obtain l where "chain h' 0 ks x = Some (as', us', l, 0)" using arr x by (auto simp: array_at_def)
  ultimately show "item_at h' a (set_child ks t) (a # as') (node_texts n @ us')"
    using x n' t c(2) texts unfolding item_at_def chain_Cons by auto
  show "balanced ((a # as) @ xs) ((node_texts n @ us) @ zs) (a # as') (node_texts n @ us') h h'"
    using bal by (auto simp: balanced_def)
qed

text \<open>The laws once more, for arrays and objects that are items themselves.\<close>

lemma set_child_id [simp]: "set_child (cj_child t) t = t"
  by (cases t) simp

lemma unchanged_tree: "\<exists>ks. t = set_child ks t"
  by (rule exI [of _ "cj_child t"]) simp

lemma changed_tree: "cJSON_AddItemToArray t (Some c) = set_child (cj_child t @ [c]) t"
  "\<exists>ks. cJSON_DeleteItemFromArray t which = set_child ks t" "\<exists>ks. cJSON_ReplaceItemInArray t which c = set_child ks t"
proof -
  show "cJSON_AddItemToArray t (Some c) = set_child (cj_child t @ [c]) t" by (simp add: cJSON_AddItemToArray_def)
  show "\<exists>ks. cJSON_DeleteItemFromArray t which = set_child ks t"
    using unchanged_tree by (auto simp: cJSON_DeleteItemFromArray_def cJSON_DetachItemFromArray_def split: option.split)
  show "\<exists>ks. cJSON_ReplaceItemInArray t which c = set_child ks t" by (auto simp: cJSON_ReplaceItemInArray_def)
qed

lemma tree_add:
  assumes arr: "item_at h a t xs ss" "\<not> is_reference (cj_type t)" and item: "item_at h p c bs ts"
    and dis: "set xs \<inter> set bs = {}" "set ss \<inter> set ts = {}"
  shows "\<exists>h'. heap_AddItemToArray a p h = Some h' \<and> item_at h' a (cJSON_AddItemToArray t (Some c)) (xs @ bs) (ss @ ts) \<and>
    balanced (xs @ bs) (ss @ ts) (xs @ bs) (ss @ ts) h h' \<and> prev_only p h h' \<and> last_child a h' = Some p"
proof -
  obtain n as us where a: "get_node a h = Some n" "array_at h a t as us" and xs: "xs = a # as" "ss = node_texts n @ us"
    by (rule array_of_item [OF arr])
  have d: "set (a # as) \<inter> set bs = {}" "set us \<inter> set ts = {}" using dis xs by auto
  obtain h' where run: "heap_AddItemToArray a p h = Some h'" and arr': "array_at h' a (cJSON_AddItemToArray t (Some c)) (as @ bs) (us @ ts)"
    and rest: "changes_only (a # as @ bs) h h'" "child_only a h h'" "prev_only p h h'" "last_child a h' = Some p" using add_item_law [OF a(2) item d] by auto
  have "balanced (a # as @ bs) (us @ ts) (a # as @ bs) (us @ ts) h h'" using rest(1) by (simp add: balanced_def changes_only_def)
  from item_of_array [OF arr(1) [unfolded xs] a(1) arr(2) arr' [unfolded changed_tree] rest(2) this]
  show ?thesis using run dis xs rest(3,4) unfolding changed_tree by auto
qed

lemma tree_delete:
  assumes arr: "item_at h a t xs ss" "\<not> is_reference (cj_type t)"
  shows "\<exists>h' xs' ss'. heap_DeleteItemFromArray a which h = Some h' \<and> item_at h' a (cJSON_DeleteItemFromArray t which) xs' ss' \<and>
    balanced xs ss xs' ss' h h' \<and> set xs' \<subseteq> set xs \<and> set ss' \<subseteq> set ss"
proof -
  obtain n as us where a: "get_node a h = Some n" "array_at h a t as us" and xs: "xs = a # as" "ss = node_texts n @ us"
    by (rule array_of_item [OF arr])
  obtain ks where ks: "cJSON_DeleteItemFromArray t which = set_child ks t" using changed_tree by blast
  obtain h' as' us' where run: "heap_DeleteItemFromArray a which h = Some h'" and arr': "array_at h' a (set_child ks t) as' us'"
    and rest: "balanced (a # as) us (a # as') us' h h'" "child_only a h h'" "set as' \<subseteq> set as" "set us' \<subseteq> set us"
    using delete_item_law [OF a(2), of which] ks by auto
  from item_of_array [OF arr(1) [unfolded xs] a(1) arr(2) arr' rest(2), of "[]" "[]"]
  have "item_at h' a (set_child ks t) (a # as') (node_texts n @ us') \<and> balanced xs ss (a # as') (node_texts n @ us') h h'"
    using rest xs by auto
  then show ?thesis using run ks rest(3,4) xs by (intro exI conjI) auto
qed

lemma tree_replace:
  assumes arr: "item_at h a t xs ss" "\<not> is_reference (cj_type t)" and item: "item_at h p c bs ts"
    and dis: "set xs \<inter> set bs = {}" "set ss \<inter> set ts = {}" and some: "detach_at (cj_child t) which \<noteq> None"
  shows "\<exists>h' xs' ss'. heap_ReplaceItemInArray a which p h = Some h' \<and> item_at h' a (cJSON_ReplaceItemInArray t which c) xs' ss' \<and>
    balanced (xs @ bs) (ss @ ts) xs' ss' h h'"
proof -
  obtain n as us where a: "get_node a h = Some n" "array_at h a t as us" and xs: "xs = a # as" "ss = node_texts n @ us"
    by (rule array_of_item [OF arr])
  have d: "set (a # as) \<inter> set bs = {}" "set us \<inter> set ts = {}" using dis xs by auto
  obtain ks where ks: "cJSON_ReplaceItemInArray t which c = set_child ks t" using changed_tree by blast
  obtain h' as' us' where run: "heap_ReplaceItemInArray a which p h = Some h'" and arr': "array_at h' a (set_child ks t) as' us'"
    and rest: "balanced (a # as @ bs) (us @ ts) (a # as') us' h h'" "child_only a h h'" "set us' \<subseteq> set us \<union> set ts"
    using replace_item_law [OF a(2) item d some] ks by auto
  from item_of_array [OF arr(1) [unfolded xs] a(1) arr(2) arr' rest(2,1)]
  show ?thesis using run ks rest(3) xs dis by (intro exI conjI) auto
qed

lemma tree_delete_object:
  assumes arr: "item_at h a t xs ss" "\<not> is_reference (cj_type t)" and del: "cJSON_DeleteItemFromObject t str = Some t'"
  shows "\<exists>h' xs' ss'. heap_DeleteItemFromObject a str h = Some h' \<and> item_at h' a t' xs' ss' \<and>
    balanced xs ss xs' ss' h h' \<and> set xs' \<subseteq> set xs \<and> set ss' \<subseteq> set ss"
proof -
  obtain n as us where a: "get_node a h = Some n" "array_at h a t as us" and xs: "xs = a # as" "ss = node_texts n @ us"
    by (rule array_of_item [OF arr])
  obtain i where i: "find_index str 0 (cj_child t) = Some i"
    using del by (auto simp: cJSON_DeleteItemFromObject_def cJSON_DetachItemFromObject_def split: bind_splits)
  have "\<exists>ks. t' = set_child ks t"
  proof (cases i)
    case None
    then show ?thesis using del i unchanged_tree
      by (auto simp: cJSON_DeleteItemFromObject_def cJSON_DetachItemFromObject_def)
  next
    case (Some k)
    then have "t' = cJSON_DeleteItemFromArray t k"
      using del i by (simp add: cJSON_DeleteItemFromObject_def cJSON_DetachItemFromObject_def cJSON_DeleteItemFromArray_def)
    then show ?thesis using changed_tree by blast
  qed
  then obtain ks where ks: "t' = set_child ks t" by blast
  obtain h' as' us' where run: "heap_DeleteItemFromObject a str h = Some h'" and arr': "array_at h' a (set_child ks t) as' us'"
    and rest: "balanced (a # as) us (a # as') us' h h'" "child_only a h h'" "set as' \<subseteq> set as" "set us' \<subseteq> set us"
    using delete_object_law [OF a(2) del] ks by auto
  from item_of_array [OF arr(1) [unfolded xs] a(1) arr(2) arr' rest(2), of "[]" "[]"]
  have "item_at h' a (set_child ks t) (a # as') (node_texts n @ us') \<and> balanced xs ss (a # as') (node_texts n @ us') h h'"
    using rest xs by auto
  then show ?thesis using run ks rest(3,4) xs by (intro exI conjI) auto
qed

text \<open>With memory for the name, adding to an object is what it is on the trees.\<close>

definition has_memory :: "'d allocator \<Rightarrow> bool" where
  "has_memory al \<longleftrightarrow> (\<forall>nodes. finite (dom nodes) \<longrightarrow> al_node al nodes \<noteq> 0) \<and>
     (\<forall>texts. finite (dom texts) \<longrightarrow> al_text al texts \<noteq> 0)"

lemma finite_without: "finite (dom (hp_texts h)) \<Longrightarrow> finite (dom (hp_texts (without h as ss)))"
  by (rule finite_subset [of _ "dom (hp_texts h)"]) (auto split: if_splits)

lemma tree_add_object:
  assumes arr: "item_at h a t xs ss" "\<not> is_reference (cj_type t)" and item: "item_at h p c bs ts"
    and dis: "set xs \<inter> set bs = {}" "set ss \<inter> set ts = {}"
    and al: "fresh_laws al" "has_memory al" "finite (dom (hp_texts h))" and t': "cJSON_AddItemToObject t str (Some c) = Some t'"
  shows "\<exists>h' ss'. heap_AddItemToObject al a str p h = Some h' \<and> item_at h' a t' (xs @ bs) ss' \<and>
    balanced (xs @ bs) (ss @ ts) (xs @ bs) ss' h h'"
proof -
  obtain n as us where a: "get_node a h = Some n" "array_at h a t as us" and xs: "xs = a # as" "ss = node_texts n @ us"
    by (rule array_of_item [OF arr])
  have d: "set (a # as) \<inter> set bs = {}" "set us \<inter> set ts = {}" using dis xs by auto
  obtain copy where copy: "cJSON_strdup str = Some copy" "t' = cJSON_AddItemToArray t (Some (rename_item copy c))"
    using t' by (auto simp: cJSON_AddItemToObject_def split: bind_splits)
  obtain h' v ts' old where run: "heap_AddItemToObject al a str p h = Some h'"
    and arr': "array_at h' a (cJSON_AddItemToArray t (Some (set_name v c))) (as @ bs) (us @ ts')"
    and v: "v = Some copy \<or> v = None \<and> al_text al (hp_texts (without h [] old)) = 0"
    and rest: "balanced (a # as @ bs) (us @ ts) (a # as @ bs) (us @ ts') h h'" "child_only a h h'"
      "\<forall>q \<in> set ts'. q \<in> set ts \<or> hp_texts h q = None"
    using add_object_law [OF a(2) item d al(1) copy(1)] by auto
  have "v = Some copy" using v al(2) finite_without [OF al(3)] unfolding has_memory_def by blast
  then have t'': "cJSON_AddItemToArray t (Some (set_name v c)) = t'" using copy(2) by simp
  have "\<forall>q \<in> set (us @ ts'). q \<in> set (us @ ts) \<or> hp_texts h q = None" using rest(3) by auto
  from item_of_array [OF arr(1) [unfolded xs] a(1) arr(2) arr' [unfolded changed_tree] rest(2,1) _ this]
  show ?thesis using run dis xs t'' unfolding changed_tree by (intro exI conjI) auto
qed

text \<open>Replacing a member: the name that the new item had before is left over.\<close>

lemma tree_replace_object:
  assumes arr: "item_at h a t xs ss" "\<not> is_reference (cj_type t)" and item: "item_at h p c bs ts" and n: "get_node p h = Some n"
    and dis: "set xs \<inter> set bs = {}" "set ss \<inter> set ts = {}"
    and al: "fresh_laws al" "has_memory al" "finite (dom (hp_texts h))"
    and str: "cJSON_strdup str = Some copy" and find: "find_index str 0 (cj_child t) = Some (Some i)"
  shows "\<exists>h' xs' ss'. heap_ReplaceItemInObject al a str p h = Some h' \<and>
    item_at h' a (cJSON_ReplaceItemInArray t i (rename_item copy c)) xs' ss' \<and> nd_string n \<notin> set ss' \<and>
    balanced (xs @ bs) (filter (\<lambda>s. s \<noteq> nd_string n) (ss @ ts)) xs' ss' h h'"
proof -
  obtain m as us where a: "get_node a h = Some m" "array_at h a t as us" and xs: "xs = a # as" "ss = node_texts m @ us"
    by (rule array_of_item [OF arr])
  have d: "set (a # as) \<inter> set bs = {}" "set us \<inter> set ts = {}" using dis xs by auto
  obtain h' v as' us' where run: "heap_ReplaceItemInObject al a str p h = Some h'"
    and arr': "array_at h' a (cJSON_ReplaceItemInArray t i (set_name v c)) as' us'"
    and v: "v = Some copy \<or> v = None \<and> al_text al (hp_texts h) = 0" and old: "nd_string n \<notin> set us'"
    and rest: "balanced (a # as @ bs) (filter (\<lambda>s. s \<noteq> nd_string n) (us @ ts)) (a # as') us' h h'" "child_only a h h'"
      "\<forall>q \<in> set us'. q \<in> set (us @ ts) \<or> hp_texts h q = None"
    using replace_object_law [OF a(2) item n d al(1) str find] by blast
  have v: "v = Some copy" using v al(2,3) unfolding has_memory_def by blast
  obtain ks where ks: "cJSON_ReplaceItemInArray t i (rename_item copy c) = set_child ks t" using changed_tree by blast
  have names: "nd_string n \<in> set ts \<or> nd_string n = 0"
    using item n unfolding item_at_def chain_Cons by (auto simp: node_texts_def)
  have n_ss: "nd_string n \<notin> set ss" using names dis(2) item_texts [OF arr(1), of 0] by auto
  then have "nd_string n \<notin> set us" using xs(2) by simp
  moreover have "nd_string n \<notin> set ys \<Longrightarrow> filter (\<lambda>s. s \<noteq> nd_string n) ys = ys" for ys by (auto simp: filter_id_conv)
  ultimately have "filter (\<lambda>s. s \<noteq> nd_string n) ss = ss" "filter (\<lambda>s. s \<noteq> nd_string n) us = us" using n_ss by blast+
  then have zs: "filter (\<lambda>s. s \<noteq> nd_string n) (us @ ts) = us @ filter (\<lambda>s. s \<noteq> nd_string n) ts"
    "filter (\<lambda>s. s \<noteq> nd_string n) (ss @ ts) = ss @ filter (\<lambda>s. s \<noteq> nd_string n) ts" by simp_all
  have "\<forall>q \<in> set us'. q \<in> set (us @ filter (\<lambda>s. s \<noteq> nd_string n) ts) \<or> hp_texts h q = None" using rest(3) old by auto
  moreover have "set (filter (\<lambda>s. s \<noteq> nd_string n) ts) \<inter> set (node_texts m @ us) = {}" using dis(2) xs(2) by auto
  moreover have "array_at h' a (set_child ks t) as' us'" using arr' v ks by simp
  ultimately have "item_at h' a (set_child ks t) (a # as') (node_texts m @ us') \<and>
      balanced ((a # as) @ bs) ((node_texts m @ us) @ filter (\<lambda>s. s \<noteq> nd_string n) ts) (a # as') (node_texts m @ us') h h'"
    using item_of_array [OF arr(1) [unfolded xs] a(1) arr(2) _ rest(2) rest(1) [unfolded zs]] by blast
  then have "item_at h' a (set_child ks t) (a # as') (node_texts m @ us')"
    "balanced (xs @ bs) (ss @ filter (\<lambda>s. s \<noteq> nd_string n) ts) (a # as') (node_texts m @ us') h h'" using xs by simp_all
  moreover have "nd_string n \<notin> set (node_texts m @ us')" using old n_ss xs(2) by simp
  ultimately show ?thesis unfolding ks zs(2) using run by blast
qed

end
