(* ===== verification/Cjson_Copies.thy ===== *)
theory Cjson_Copies
  imports Cjson_Memory
begin

text \<open>
  Items that share what they hold with another one (\<open>create_reference\<close>), and copies that share nothing
  (\<open>cJSON_Duplicate\<close>), which give back what they have allocated when memory runs out.
\<close>

unbundle bit_operations_syntax

subsection \<open>What stays as it is\<close>

lemma same_on_except:
  assumes "\<And>q. q \<noteq> r \<Longrightarrow> hp_nodes h' q = hp_nodes h q" and "r \<notin> set as" and "hp_texts h' = hp_texts h"
  shows "same_on h h' as ss"
  unfolding same_on_def
proof (intro conjI ballI)
  fix q assume "q \<in> set as"
  then show "hp_nodes h' q = hp_nodes h q" using assms(2) by (intro assms(1)) auto
qed (simp add: assms(3))

lemma balanced_same:
  assumes bal: "balanced xs ss xs' ss' h h'"
    and dis: "(set xs \<union> set xs') \<inter> set bs = {}" "(set ss \<union> set ss') \<inter> set ts = {}"
  shows "same_on h h' bs ts"
  unfolding same_on_def
proof (intro conjI ballI)
  fix q assume "q \<in> set bs"
  then have "q \<notin> set xs" "q \<notin> set xs'" using dis(1) by auto
  then show "hp_nodes h' q = hp_nodes h q" using bal by (simp add: balanced_def)
next
  fix q assume "q \<in> set ts"
  then have "q \<notin> set ss" "q \<notin> set ss'" using dis(2) by auto
  then show "hp_texts h' q = hp_texts h q" using bal by (simp add: balanced_def)
qed

subsection \<open>References\<close>

text \<open>A reference as a tree: it owns nothing.\<close>

definition shared :: "'d cjson \<Rightarrow> 'd cjson" where
  "shared c = CJSON (cj_type c OR cJSON_IsReference) None (cj_valueint c) (cj_valuedouble c) None []"

lemma no_text [simp]: "text_at h 0 None"
  by (simp add: text_at_def)

lemma is_reference_or [simp]: "is_reference (ty OR cJSON_IsReference)"
proof -
  have "(ty OR 256) AND 256 = (256 :: int)" by (rule bit_eqI) (auto simp: bit_and_iff bit_or_iff)
  then show ?thesis by (simp add: is_reference_def cJSON_IsReference_def)
qed

lemma create_reference_law:
  assumes al: "fresh_laws al" "al_node al (hp_nodes h) \<noteq> 0" and m: "get_node p h = Some m" "node_is h prev m c"
  obtains ref h1 k where "create_reference ar al p h = Some (ref, h1)" "item_at h1 ref (shared c) [ref] []"
    "hp_nodes h ref = None" "\<And>q. q \<noteq> ref \<Longrightarrow> hp_nodes h1 q = hp_nodes h q" "hp_texts h1 = hp_texts h"
    "get_node ref h1 = Some k" "nd_child k = nd_child m" "nd_valuestring k = nd_valuestring m"
proof -
  define ref where "ref = al_node al (hp_nodes h)"
  have "ref \<noteq> 0" "hp_nodes h ref = None" using al unfolding fresh_laws_def ref_def by blast+
  then have ref: "ref \<noteq> 0" "hp_nodes h ref = None" "ref \<noteq> p" using m(1) by (auto simp: get_node_Some)
  let ?k = "m\<lparr>nd_string := 0, nd_type := nd_type m OR cJSON_IsReference, nd_next := 0, nd_prev := 0\<rparr>"
  let ?h = "h\<lparr>hp_nodes := (hp_nodes h)(ref \<mapsto> ?k)\<rparr>"
  have "create_reference ar al p h = Some (ref, ?h)"
    using ref m(1) unfolding create_reference_def heap_New_Item_def ref_def [symmetric]
    by (simp add: set_node_def get_node_def split: if_splits)
  moreover have "node_is ?h 0 ?k (shared c)" using m(2) by (simp add: node_is_def shared_def)
  then have "item_at ?h ref (shared c) [ref] []"
    using ref unfolding item_at_def chain_Cons by (simp add: shared_def node_texts_def node_is_def)
  moreover have "get_node ref ?h = Some ?k" using ref by simp
  ultimately show thesis using ref(2) by (intro that [of ref ?h ?k]) simp_all
qed

text \<open>
  A reference in an array leaves the item it was made from as it is, and so does deleting the array with the
  reference in it.
\<close>

lemma add_reference_law:
  assumes arr: "item_at h a t xs ss" "\<not> is_reference (cj_type t)"
    and item: "chain h prev (c # cs) p = Some (bs, ts, l, e)" "get_node p h = Some m"
    and dis: "set xs \<inter> set bs = {}" "set ss \<inter> set ts = {}" and al: "fresh_laws al" "al_node al (hp_nodes h) \<noteq> 0"
  obtains ref h' k where "heap_AddItemReferenceToArray ar al a p h = Some h'"
    "item_at h' a (cJSON_AddItemToArray t (Some (shared c))) (xs @ [ref]) ss" "hp_nodes h ref = None"
    "get_node ref h' = Some k" "nd_child k = nd_child m" "nd_valuestring k = nd_valuestring m"
    "chain h' prev (c # cs) p = Some (bs, ts, l, e)" "balanced (xs @ [ref]) ss (xs @ [ref]) ss h h'"
proof -
  have m: "node_is h prev m c" using item unfolding chain_Cons by auto
  obtain ref h1 k where ref: "create_reference ar al p h = Some (ref, h1)" and r: "item_at h1 ref (shared c) [ref] []"
    and new: "hp_nodes h ref = None" and same: "\<And>q. q \<noteq> ref \<Longrightarrow> hp_nodes h1 q = hp_nodes h q" "hp_texts h1 = hp_texts h"
    and k: "get_node ref h1 = Some k" "nd_child k = nd_child m" "nd_valuestring k = nd_valuestring m"
    by (rule create_reference_law [OF al item(2) m]) (rule that)
  have "ref \<notin> set xs" using new arr(1) chain_nodes unfolding item_at_def by blast
  have "ref \<notin> set bs" using new item(1) chain_nodes by blast
  have arr1: "item_at h1 a t xs ss" by (rule item_at_frame [OF arr(1) same_on_except [OF same(1) \<open>ref \<notin> set xs\<close> same(2)]])
  have "set xs \<inter> set [ref] = {}" "set ss \<inter> set [] = {}" using \<open>ref \<notin> set xs\<close> by simp_all
  then obtain h' where run: "heap_AddItemToArray a ref h1 = Some h'"
    and t': "item_at h' a (cJSON_AddItemToArray t (Some (shared c))) (xs @ [ref]) ss"
    and rest: "balanced (xs @ [ref]) ss (xs @ [ref]) ss h1 h'" "prev_only ref h1 h'"
    using tree_add [OF arr1 arr(2) r] by auto
  obtain x where "get_node ref h' = Some (k\<lparr>nd_prev := x\<rparr>)" using rest(2) k(1) by (auto simp: prev_only_def)
  moreover have "chain h1 prev (c # cs) p = Some (bs, ts, l, e)"
    by (rule chain_frame [OF item(1) same_on_except [OF same(1) \<open>ref \<notin> set bs\<close> same(2)]])
  then have "chain h' prev (c # cs) p = Some (bs, ts, l, e)"
    using \<open>ref \<notin> set bs\<close> dis by (intro chain_frame [OF _ balanced_same [OF rest(1)]]) auto
  moreover have "balanced (xs @ [ref]) ss (xs @ [ref]) ss h h'" using rest(1) same by (auto simp: balanced_def)
  moreover have "heap_AddItemReferenceToArray ar al a p h = Some h'" using ref run by (simp add: heap_AddItemReferenceToArray_def)
  ultimately show thesis using t' new k(2,3) by (intro that [of h' ref "k\<lparr>nd_prev := x\<rparr>"]) simp_all
qed

subsection \<open>What has been allocated since\<close>

definition grown :: "'d heap \<Rightarrow> 'd heap \<Rightarrow> nat list \<Rightarrow> nat list \<Rightarrow> bool" where
  "grown h0 h xs us \<longleftrightarrow> (\<forall>q. if q \<in> set xs then hp_nodes h0 q = None else hp_nodes h q = hp_nodes h0 q) \<and>
     (\<forall>q. if q \<in> set us then hp_texts h0 q = None else hp_texts h q = hp_texts h0 q)"

lemma grown_none: "grown h h [] []"
  by (simp add: grown_def)

lemma grown_more: "grown h0 h xs us \<Longrightarrow> grown h h1 ys vs \<Longrightarrow> grown h0 h1 (xs @ ys) (us @ vs)"
  unfolding grown_def by (simp add: if_split_asm all_conj_distrib) metis

lemma grown_undo: "grown h0 h xs us \<Longrightarrow> without h xs us = h0"
  unfolding grown_def without_def by (cases h0) (auto simp: restrict_map_def fun_eq_iff split: if_splits)

lemma grown_apart:
  assumes "grown h0 h xs us" and "chain h0 prev cs p = Some (as, ss, l, e)"
  shows "set xs \<inter> set as = {}" "set us \<inter> set ss = {}" "chain h prev cs p = Some (as, ss, l, e)"
proof -
  show 1: "set xs \<inter> set as = {}" using assms chain_nodes unfolding grown_def by (metis disjoint_iff)
  show 2: "set us \<inter> set ss = {}" using assms chain_texts unfolding grown_def by (metis disjoint_iff)
  show "chain h prev cs p = Some (as, ss, l, e)"
  proof (rule chain_frame [OF assms(2)])
    show "same_on h0 h as ss" using assms(1) 1 2 unfolding same_on_def grown_def by (metis disjoint_iff)
  qed
qed

lemma grown_node:
  assumes "grown h0 h xs us" and "get_node p h0 = Some m"
  shows "get_node p h = Some m"
proof -
  have "p \<notin> set xs" using assms by (auto simp: grown_def get_node_Some split: if_splits)
  then show ?thesis using assms by (simp add: grown_def get_node_Some)
qed

text \<open>Memory for all that is asked for.\<close>

definition ample :: "'d allocator \<Rightarrow> 'd heap \<Rightarrow> bool" where
  "ample al h \<longleftrightarrow> has_memory al \<and> finite (dom (hp_nodes h)) \<and> finite (dom (hp_texts h))"

lemma ample_grown:
  assumes "ample al h0" and "grown h0 h xs us" shows "ample al h"
proof -
  have "dom (hp_nodes h) \<subseteq> dom (hp_nodes h0) \<union> set xs" "dom (hp_texts h) \<subseteq> dom (hp_texts h0) \<union> set us"
    using assms(2) unfolding grown_def dom_def by (force split: if_splits)+
  then show ?thesis using assms(1) unfolding ample_def by (meson finite_UnI finite_set finite_subset)
qed

text \<open>A copy, in memory that was not in use; or nothing, when memory has run out, and nothing has changed.\<close>

definition copied :: "'d allocator \<Rightarrow> 'd heap \<Rightarrow> 'd cjson \<Rightarrow> nat \<times> 'd heap \<Rightarrow> bool" where
  "copied al h0 c r \<longleftrightarrow> (fst r = 0 \<and> snd r = h0 \<and> \<not> ample al h0) \<or>
     (\<exists>xs us. item_at (snd r) (fst r) c xs us \<and> grown h0 (snd r) xs us)"

subsection \<open>Duplicating a node\<close>

lemma dup_text_law:
  assumes item: "item_at h new c xs us" "grown h0 h xs us" and n: "get_node new h = Some n" "field (\<lambda>_. 0) n = n"
    and src: "text_at h src v" "dup_string v = Some v'" and al: "fresh_laws al"
  shows "heap_dup_text al field src new h = Some (0, h0) \<and> \<not> ample al h0 \<or>
    (\<exists>s h1. heap_dup_text al field src new h = Some (new, h1) \<and> get_node new h1 = Some (field (\<lambda>_. s) n) \<and> text_at h1 s v' \<and>
      hp_nodes h1 = (hp_nodes h)(new \<mapsto> field (\<lambda>_. s) n) \<and> (s \<noteq> 0 \<longrightarrow> hp_texts h s = None) \<and>
      (\<forall>q. q \<notin> set (ptr s) \<longrightarrow> hp_texts h1 q = hp_texts h q))"
proof (cases v)
  case None
  then have "src = 0" "v' = None" using src by (simp_all add: text_at_def dup_string_def)
  then show ?thesis using n
    by (intro disjI2 exI [of _ 0] exI [of _ h]) (auto simp: heap_dup_text_def get_node_Some fun_eq_iff)
next
  case (Some str)
  then obtain copy where copy: "cJSON_strdup str = Some copy" "v' = Some copy" using src(2) by (auto simp: dup_string_def)
  have s: "src \<noteq> 0" "hp_texts h src = Some str" using src(1) Some by (simp_all add: text_at_def)
  have p: "new \<noteq> 0" "hp_nodes h new = Some n" using n(1) by (simp_all add: get_node_Some)
  show ?thesis
  proof (rule heap_strdup_law [OF al copy(1), of h])
    assume full: "heap_strdup al str h = Some (0, h)"
    have "set_node new (field (\<lambda>_. 0)) h = Some h"
      using p n(2) by (simp add: set_node_def get_node_def fun_upd_idem)
    then have "heap_dup_text al field src new h = Some (0, h0)"
      using s full delete_item [OF item(1)] grown_undo [OF item(2)] by (simp add: heap_dup_text_def)
    moreover have "al_text al (hp_texts h) = 0" using full copy(1) by (auto simp: heap_strdup_def Let_def split: if_splits)
    then have "\<not> ample al h0" using ample_grown [OF _ item(2), of al] unfolding ample_def has_memory_def by metis
    ultimately show ?thesis by simp
  next
    fix s' assume "s' \<noteq> 0" "hp_texts h s' = None" "heap_strdup al str h = Some (s', h\<lparr>hp_texts := (hp_texts h)(s' \<mapsto> copy)\<rparr>)"
    then show ?thesis using s p copy(2)
      by (intro disjI2 exI [of _ s']
          exI [of _ "h\<lparr>hp_texts := (hp_texts h)(s' \<mapsto> copy), hp_nodes := (hp_nodes h)(new \<mapsto> field (\<lambda>_. s') n)\<rparr>"])
        (simp add: heap_dup_text_def set_node_def get_node_def text_at_def)
  qed
qed

text \<open>A node without children.\<close>

lemma single_item:
  assumes "get_node p h = Some n" and "node_is h 0 n c" and "nd_next n = 0" "nd_child n = 0" "cj_child c = []"
    and "distinct (node_texts n)"
  shows "item_at h p c [p] (node_texts n)"
  using assms unfolding item_at_def chain_Cons by auto

lemma plain_type [simp]: "\<not> is_reference (ty AND NOT cJSON_IsReference)"
proof -
  have "(ty AND NOT m) AND m = 0" for m :: int by (rule bit_eqI) (auto simp: bit_and_iff bit_not_iff)
  then show ?thesis by (simp add: is_reference_def)
qed

lemma grown_text:
  assumes "grown h0 h xs us" and "text_at h0 p v"
  shows "text_at h p v"
proof (cases v)
  case (Some s)
  then have "p \<notin> set us" using assms by (auto simp: grown_def text_at_def split: if_splits)
  then show ?thesis using assms Some by (auto simp: grown_def text_at_def)
qed (use assms in \<open>simp add: text_at_def\<close>)

lemma grown_step:
  assumes g: "grown h h1 [new] us" and nodes: "hp_nodes h2 = (hp_nodes h1)(new \<mapsto> n)"
    and s: "s \<noteq> 0 \<Longrightarrow> hp_texts h1 s = None" "\<And>q. q \<notin> set (ptr s) \<Longrightarrow> hp_texts h2 q = hp_texts h1 q"
  shows "grown h h2 [new] (us @ ptr s)"
  unfolding grown_def
proof (intro conjI allI)
  fix q show "if q \<in> set [new] then hp_nodes h q = None else hp_nodes h2 q = hp_nodes h q"
    using g nodes by (auto simp: grown_def)
next
  fix q
  have "q \<in> set us \<Longrightarrow> hp_texts h q = None" "q \<notin> set us \<Longrightarrow> hp_texts h1 q = hp_texts h q"
    "q \<in> set (ptr s) \<Longrightarrow> hp_texts h1 q = None" "q \<notin> set (ptr s) \<Longrightarrow> hp_texts h2 q = hp_texts h1 q"
    using g s by (auto simp: grown_def split: if_splits)
  then show "if q \<in> set (us @ ptr s) then hp_texts h q = None else hp_texts h2 q = hp_texts h q"
    by (cases "q \<in> set us"; cases "q \<in> set (ptr s)") (simp_all del: ptr_simps)
qed

lemma dup_node_law:
  assumes p: "get_node p h = Some m" "node_is h prev m (CJSON ty vs i d nm ks)" and ty: "\<not> is_reference ty"
    and dup: "dup_string vs = Some vs'" "dup_string nm = Some nm'" and al: "fresh_laws al"
  shows "\<exists>r. heap_dup_node ar al p h = Some r \<and> copied al h (CJSON (ty AND NOT cJSON_IsReference) vs' i d nm' []) r"
proof (cases "al_node al (hp_nodes h) = 0")
  case True
  then have "\<not> ample al h" by (auto simp: ample_def has_memory_def)
  with True show ?thesis by (simp add: heap_dup_node_def heap_New_Item_def copied_def)
next
  case False
  define new where "new = al_node al (hp_nodes h)"
  have new: "new \<noteq> 0" "hp_nodes h new = None" using False al unfolding new_def fresh_laws_def by blast+
  then have np: "new \<noteq> p" using p(1) by (auto simp: get_node_Some)
  let ?ty = "ty AND NOT cJSON_IsReference"
  let ?n = "\<lparr>nd_next = 0, nd_prev = 0, nd_child = 0, nd_type = ?ty, nd_valuestring = 0, nd_valueint = i, nd_valuedouble = d, nd_string = 0\<rparr>"
  let ?h = "h\<lparr>hp_nodes := (hp_nodes h)(new \<mapsto> ?n)\<rparr>"
  have m: "text_at h (nd_valuestring m) vs" "text_at h (nd_string m) nm" "nd_type m = ty" "nd_valueint m = i" "nd_valuedouble m = d"
    using p(2) ty by (simp_all add: node_is_def)
  have g: "grown h ?h [new] []" using new by (simp add: grown_def)
  have n: "get_node new ?h = Some ?n" using new by simp
  have item: "item_at ?h new (CJSON ?ty None i d None []) [new] []"
    using single_item [OF n, of "CJSON ?ty None i d None []"] by (simp add: node_is_def node_texts_def)
  have run: "heap_dup_node ar al p h = do {
      (q, h) \<leftarrow> heap_dup_text al nd_valuestring_update (nd_valuestring m) new ?h;
      if q = 0 then Some (0, h) else heap_dup_text al nd_string_update (nd_string m) new h }"
    using new np p(1) [unfolded get_node_Some] m unfolding heap_dup_node_def heap_New_Item_def new_def [symmetric]
    by (simp add: set_node_def get_node_def)
  have "heap_dup_text al nd_valuestring_update (nd_valuestring m) new ?h = Some (0, h) \<and> \<not> ample al h \<or>
    (\<exists>s h1. heap_dup_text al nd_valuestring_update (nd_valuestring m) new ?h = Some (new, h1) \<and>
      get_node new h1 = Some (?n\<lparr>nd_valuestring := s\<rparr>) \<and> text_at h1 s vs' \<and>
      hp_nodes h1 = (hp_nodes ?h)(new \<mapsto> ?n\<lparr>nd_valuestring := s\<rparr>) \<and> (s \<noteq> 0 \<longrightarrow> hp_texts ?h s = None) \<and>
      (\<forall>q. q \<notin> set (ptr s) \<longrightarrow> hp_texts h1 q = hp_texts ?h q))"
    by (rule dup_text_law [OF item g n _ grown_text [OF g m(1)] dup(1) al]) simp
  then consider "heap_dup_text al nd_valuestring_update (nd_valuestring m) new ?h = Some (0, h)" "\<not> ample al h"
    | s h1 where "heap_dup_text al nd_valuestring_update (nd_valuestring m) new ?h = Some (new, h1)"
      "get_node new h1 = Some (?n\<lparr>nd_valuestring := s\<rparr>)" "text_at h1 s vs'"
      "hp_nodes h1 = (hp_nodes h)(new \<mapsto> ?n\<lparr>nd_valuestring := s\<rparr>)" "s \<noteq> 0 \<Longrightarrow> hp_texts h s = None"
      "\<And>q. q \<notin> set (ptr s) \<Longrightarrow> hp_texts h1 q = hp_texts h q"
    by auto
  then show ?thesis
  proof cases
    case 1
    then show ?thesis by (simp add: run copied_def)
  next
    case (2 s h1)
    let ?n1 = "?n\<lparr>nd_valuestring := s\<rparr>"
    have "hp_nodes h1 = (hp_nodes ?h)(new \<mapsto> ?n1)" using 2(4) by simp
    with g have g1: "grown h h1 [new] ([] @ ptr s)" by (rule grown_step) (use 2(5,6) in simp_all)
    then have g1: "grown h h1 [new] (ptr s)" by simp
    have t1: "node_texts ?n1 = ptr s" by (simp add: node_texts_def)
    have "node_is h1 0 ?n1 (CJSON ?ty vs' i d None [])" using 2(3) by (simp add: node_is_def)
    then have item1: "item_at h1 new (CJSON ?ty vs' i d None []) [new] (ptr s)"
      using single_item [OF 2(2), of "CJSON ?ty vs' i d None []"] t1 by simp
    have "heap_dup_text al nd_string_update (nd_string m) new h1 = Some (0, h) \<and> \<not> ample al h \<or>
      (\<exists>s' h2. heap_dup_text al nd_string_update (nd_string m) new h1 = Some (new, h2) \<and>
        get_node new h2 = Some (?n1\<lparr>nd_string := s'\<rparr>) \<and> text_at h2 s' nm' \<and>
        hp_nodes h2 = (hp_nodes h1)(new \<mapsto> ?n1\<lparr>nd_string := s'\<rparr>) \<and> (s' \<noteq> 0 \<longrightarrow> hp_texts h1 s' = None) \<and>
        (\<forall>q. q \<notin> set (ptr s') \<longrightarrow> hp_texts h2 q = hp_texts h1 q))"
      by (rule dup_text_law [OF item1 g1 2(2) _ grown_text [OF g1 m(2)] dup(2) al]) simp
    then consider "heap_dup_text al nd_string_update (nd_string m) new h1 = Some (0, h)" "\<not> ample al h"
      | s' h2 where "heap_dup_text al nd_string_update (nd_string m) new h1 = Some (new, h2)"
        "get_node new h2 = Some (?n1\<lparr>nd_string := s'\<rparr>)" "text_at h2 s' nm'"
        "hp_nodes h2 = (hp_nodes h1)(new \<mapsto> ?n1\<lparr>nd_string := s'\<rparr>)" "s' \<noteq> 0 \<Longrightarrow> hp_texts h1 s' = None"
        "\<And>q. q \<notin> set (ptr s') \<Longrightarrow> hp_texts h2 q = hp_texts h1 q"
      by auto
    then show ?thesis
    proof cases
      case 1
      then show ?thesis using 2(1) new(1) by (simp add: run copied_def)
    next
      case (2 s' h2)
      note two = 2
      let ?n2 = "?n1\<lparr>nd_string := s'\<rparr>"
      have old: "hp_texts h1 s \<noteq> None" if "s \<noteq> 0"
      proof -
        have "s \<in> set (ptr s)" using that by simp
        from item_texts [OF item1 this] show ?thesis by (rule conjunct1)
      qed
      have ss: "s' = 0 \<or> s' \<noteq> s"
      proof (rule disjCI)
        assume "\<not> s' \<noteq> s"
        then show "s' = 0" using old two(5) by (cases "s = 0") simp_all
      qed
      then have "hp_texts h2 s = hp_texts h1 s \<or> s = 0" using two(6) [of s] by auto
      then have "text_at h2 s vs'" using \<open>text_at h1 s vs'\<close> by (cases vs') (auto simp: text_at_def)
      then have "node_is h2 0 ?n2 (CJSON ?ty vs' i d nm' [])" using two(3) by (simp add: node_is_def)
      moreover have t2: "node_texts ?n2 = ptr s @ ptr s'" by (simp add: node_texts_def)
      moreover have "distinct (ptr s @ ptr s')" using ss by auto
      ultimately have "item_at h2 new (CJSON ?ty vs' i d nm' []) [new] (ptr s @ ptr s')"
        using single_item [OF two(2), of "CJSON ?ty vs' i d nm' []"] by simp
      moreover have "grown h h2 [new] (ptr s @ ptr s')" by (rule grown_step [OF g1 two(4,5,6)])
      ultimately show ?thesis using two(1) \<open>heap_dup_text al nd_valuestring_update _ _ _ = _\<close> new(1)
        unfolding run by (auto simp: copied_def)
    qed
  qed
qed

subsection \<open>Duplicating the children\<close>

fun plain :: "'d cjson list \<Rightarrow> bool" where
  "plain [] \<longleftrightarrow> True"
| "plain (CJSON ty vs i d nm ks # cs) \<longleftrightarrow> \<not> is_reference ty \<and> plain ks \<and> plain cs"

lemma last_child_frame:
  assumes "array_at h a t as us" and "same_on h h1 (a # as) us"
  shows "last_child a h1 = last_child a h"
proof -
  obtain n l where n: "get_node a h = Some n" "chain h 0 (cj_child t) (nd_child n) = Some (as, us, l, 0)"
    using assms(1) by (auto simp: array_at_def)
  have "get_node a h1 = Some n" using n(1) assms(2) by (auto simp: get_node_def same_on_def split: if_splits)
  moreover have "chain h1 0 (cj_child t) (nd_child n) = Some (as, us, l, 0)"
    using assms(2) by (intro chain_frame [OF n(2)]) (auto simp: same_on_def)
  ultimately show ?thesis using last_child_chain n by metis
qed

text \<open>The new child is linked to the one before, as adding it would do.\<close>

lemma link_law:
  assumes arr: "item_at h a t xs us" "\<not> is_reference (cj_type t)" and last: "last_child a h = Some nptr" and p: "p \<noteq> 0"
  shows "heap_AddItemToArray a p h = (if nptr \<noteq> 0 then suffix_object nptr p h else set_node a (\<lambda>m. m\<lparr>nd_child := p\<rparr>) h)"
proof -
  obtain n as vs where n: "get_node a h = Some n" "array_at h a t as vs" by (rule array_of_item [OF arr])
  obtain l where l: "chain h 0 (cj_child t) (nd_child n) = Some (as, vs, l, 0)" using n by (auto simp: array_at_def)
  show ?thesis
  proof (cases "cj_child t" rule: rev_cases)
    case Nil
    then show ?thesis using l n(1) last p by (simp add: heap_AddItemToArray_def last_child_def)
  next
    case (snoc ks k)
    then have "last_child a h = Some l" "l \<noteq> 0" using last_child_chain [OF n(1) l] chain_last [of h 0 ks k] l by auto
    then have "nd_child n \<noteq> 0" "last_node (nd_child n) h = Some l" "nptr = l"
      using n(1) last by (auto simp: last_child_def split: if_splits)
    then show ?thesis using n(1) p \<open>l \<noteq> 0\<close> by (simp add: heap_AddItemToArray_def)
  qed
qed

text \<open>Giving up: what has been built so far is deleted.\<close>

lemma give_up:
  assumes "item_at h new t xs us" and "grown h0 h xs us"
  shows "heap_Delete new h = Some h0"
  using delete_item [OF assms(1)] grown_undo [OF assms(2)] by simp

lemma grown_item:
  assumes item: "item_at h a t xs us" "\<not> is_reference (cj_type t)" and g: "grown h h1 ys vs"
  shows "item_at h1 a t xs us" "last_child a h1 = last_child a h" "set xs \<inter> set ys = {}" "set us \<inter> set vs = {}"
proof -
  have c: "chain h 0 [t] a = Some (xs, us, a, 0)" using item(1) by (simp add: item_at_def)
  note apart = grown_apart [OF g c]
  show "set xs \<inter> set ys = {}" "set us \<inter> set vs = {}" using apart by auto
  have same: "same_on h h1 xs us" using g apart unfolding same_on_def grown_def by (metis disjoint_iff)
  show "item_at h1 a t xs us" by (rule item_at_frame [OF item(1) same])
  obtain n as ws where n: "get_node a h = Some n" "array_at h a t as ws" "xs = a # as" "us = node_texts n @ ws"
    by (rule array_of_item [OF item])
  then show "last_child a h1 = last_child a h" using same by (intro last_child_frame [OF n(2)]) (auto simp: same_on_def)
qed

lemma copied_cases:
  assumes "copied al h0 c r"
  obtains "r = (0, h0)" "\<not> ample al h0"
  | new h xs us where "r = (new, h)" "new \<noteq> 0" "item_at h new c xs us" "grown h0 h xs us"
proof -
  obtain new h where r: "r = (new, h)" by (cases r)
  show thesis using assms r chain_first [of h 0 c "[]" new] that unfolding copied_def item_at_def by fastforce
qed

lemma dup_children_law:
  assumes al: "fresh_laws al"
  shows "chain h0 prev cs p = Some (as, ss, l, 0) \<Longrightarrow> plain cs \<Longrightarrow> duplicate_children cs = Some cs' \<Longrightarrow>
    item_at h new t xs us \<Longrightarrow> \<not> is_reference (cj_type t) \<Longrightarrow> grown h0 h xs us \<Longrightarrow> last_child new h = Some nptr \<Longrightarrow>
    \<exists>r. heap_dup_children ar al new p nptr h = Some r \<and> copied al h0 (set_child (cj_child t @ cs') t) r"
proof (induction cs arbitrary: h0 prev p as ss l cs' h new t xs us nptr rule: tree_count.induct)
  case (1 h0 prev p as ss l cs' h new t xs us nptr)
  then show ?case by (subst heap_dup_children.simps) (auto simp: copied_def)
next
  case (2 ty vs i d nm ks cs h0 prev p as ss l cs' h new t xs us nptr)
  let ?c = "CJSON ty vs i d nm ks"
  note item = 2(6) and ref = 2(7) and g = 2(8)
  have ty: "\<not> is_reference ty" and plain: "plain ks" "plain cs" using 2(4) by simp_all
  obtain vs' nm' ks' cs2 where dup: "dup_string vs = Some vs'" "dup_string nm = Some nm'" "duplicate_children ks = Some ks'"
    "duplicate_children cs = Some cs2" and cs': "cs' = CJSON (ty AND NOT cJSON_IsReference) vs' i d nm' ks' # cs2"
    using 2(5) by (auto split: bind_splits)
  let ?bare = "CJSON (ty AND NOT cJSON_IsReference) vs' i d nm' []" and ?whole = "CJSON (ty AND NOT cJSON_IsReference) vs' i d nm' ks'"
  obtain m kas kss k bs ts where m0: "get_node p h0 = Some m" "node_is h0 prev m ?c"
    and ks0: "if is_reference ty then kas = [] \<and> kss = [] else chain h0 0 ks (nd_child m) = Some (kas, kss, k, 0)"
    and cs0: "chain h0 p cs (nd_next m) = Some (bs, ts, l, 0)" and as: "as = p # kas @ bs" "ss = node_texts m @ kss @ ts"
    by (rule chain_ConsE [OF 2(3), unfolded cjson.sel])
  have src: "chain h prev (?c # cs) p = Some (as, ss, l, 0)" by (rule grown_apart(3) [OF g 2(3)])
  have p: "p \<noteq> 0" using m0(1) by (simp add: get_node_Some)
  have m: "get_node p h = Some m" "node_is h prev m ?c" "chain h 0 ks (nd_child m) = Some (kas, kss, k, 0)"
  proof -
    show pm: "get_node p h = Some m" by (rule grown_node [OF g m0(1)])
    obtain m' where "get_node p h = Some m'" "node_is h prev m' ?c" by (rule chain_ConsE [OF src])
    then show "node_is h prev m ?c" using pm by simp
    show "chain h 0 ks (nd_child m) = Some (kas, kss, k, 0)" using ks0 ty by (intro grown_apart(3) [OF g]) simp
  qed
  obtain r1 where r1: "heap_dup_node ar al p h = Some r1" "copied al h ?bare r1"
    using dup_node_law [OF m(1,2) ty dup(1,2) al] by blast
  have unfold: "heap_dup_children ar al new p nptr h = do {
      (c, h) \<leftarrow> heap_dup_node ar al p h;
      (newchild, h) \<leftarrow> (if c = 0 then Some (0, h) else do { n \<leftarrow> get_node p h; heap_dup_children ar al c (nd_child n) 0 h });
      if newchild = 0 then do { h \<leftarrow> heap_Delete new h; Some (0, h) }
      else do {
        h \<leftarrow> (if nptr \<noteq> 0 then suffix_object nptr newchild h else set_node new (\<lambda>m. m\<lparr>nd_child := newchild\<rparr>) h);
        n \<leftarrow> get_node p h;
        heap_dup_children ar al new (nd_next n) newchild h } }"
    using p by (subst heap_dup_children.simps) simp
  have gives_up: ?case if "heap_dup_children ar al new p nptr h = do { h \<leftarrow> heap_Delete new h; Some (0, h) }" "\<not> ample al h"
    using that give_up [OF item g] ample_grown [OF _ g] by (auto simp: copied_def)
  show ?case
  proof (rule copied_cases [OF r1(2)])
    assume "r1 = (0, h)" "\<not> ample al h"
    then show ?case using r1(1) by (intro gives_up) (simp_all add: unfold)
  next
    fix c1 h1 ys vs1 assume c1: "r1 = (c1, h1)" "c1 \<noteq> 0" "item_at h1 c1 ?bare ys vs1" "grown h h1 ys vs1"
    have m1: "get_node p h1 = Some m" by (rule grown_node [OF c1(4) m(1)])
    have "last_child c1 h1 = Some 0" 
    proof -
      obtain n1 l1 as1 us1 where "get_node c1 h1 = Some n1" "chain h1 0 [] (nd_child n1) = Some (as1, us1, l1, 0)"
        using array_of_item [OF c1(3)] by (auto simp: array_at_def)
      then show ?thesis using last_child_chain by fastforce
    qed
    then obtain r2 where r2: "heap_dup_children ar al c1 (nd_child m) 0 h1 = Some r2" "copied al h ?whole r2"
      using 2(1) [OF m(3) plain(1) dup(3) c1(3) _ c1(4)] by auto
    have run: "heap_dup_children ar al new p nptr h = (case r2 of (newchild, h) \<Rightarrow>
      if newchild = 0 then do { h \<leftarrow> heap_Delete new h; Some (0, h) }
      else do {
        h \<leftarrow> (if nptr \<noteq> 0 then suffix_object nptr newchild h else set_node new (\<lambda>m. m\<lparr>nd_child := newchild\<rparr>) h);
        n \<leftarrow> get_node p h;
        heap_dup_children ar al new (nd_next n) newchild h })"
      using r1(1) c1(1,2) m1 r2(1) by (simp add: unfold)
    show ?case
    proof (rule copied_cases [OF r2(2)])
      assume "r2 = (0, h)" "\<not> ample al h"
      then show ?case by (intro gives_up) (simp_all add: run)
    next
      fix q h2 zs ws assume q: "r2 = (q, h2)" "q \<noteq> 0" "item_at h2 q ?whole zs ws" "grown h h2 zs ws"
      note item2 = grown_item [OF item ref q(4)]
      obtain h3 where h3: "heap_AddItemToArray new q h2 = Some h3"
        "item_at h3 new (cJSON_AddItemToArray t (Some ?whole)) (xs @ zs) (us @ ws)"
        "balanced (xs @ zs) (us @ ws) (xs @ zs) (us @ ws) h2 h3" "last_child new h3 = Some q"
        using tree_add [OF item2(1) ref q(3) item2(3,4)] by blast
      have link: "(if nptr \<noteq> 0 then suffix_object nptr q h2 else set_node new (\<lambda>m. m\<lparr>nd_child := q\<rparr>) h2) = Some h3"
        using link_law [OF item2(1) ref, of nptr q] item2(2) 2(9) q(2) h3(1) by simp
      have g3: "grown h0 h3 (xs @ zs) (us @ ws)"
        using grown_more [OF g q(4)] h3(3) by (auto simp: grown_def balanced_def split: if_splits)
      have m3: "get_node p h3 = Some m" by (rule grown_node [OF g3 m0(1)])
      have "\<exists>r. heap_dup_children ar al new (nd_next m) q h3 = Some r \<and>
          copied al h0 (set_child (cj_child (cJSON_AddItemToArray t (Some ?whole)) @ cs2) (cJSON_AddItemToArray t (Some ?whole))) r"
        using ref by (intro 2(2) [OF cs0 plain(2) dup(4) h3(2) _ g3 h3(4)]) (simp add: cJSON_AddItemToArray_def)
      then show ?case using q(1,2) link m3 cs' by (simp add: run cJSON_AddItemToArray_def)
    qed
  qed
qed

lemma heap_Duplicate_law:
  assumes al: "fresh_laws al" and src: "chain h prev (c # cs) p = Some (as, ss, l, e)" "plain [c]"
    and dup: "cJSON_Duplicate c recurse = Some c'"
  shows "\<exists>r. heap_Duplicate ar al p recurse h = Some r \<and> copied al h c' r"
proof (cases c)
  case (CJSON ty vs i d nm ks)
  obtain m kas kss k where m: "get_node p h = Some m" "node_is h prev m c" "p \<noteq> 0"
    and ks: "chain h 0 ks (nd_child m) = Some (kas, kss, k, 0)"
    using src CJSON unfolding chain_Cons by (auto simp: get_node_Some)
  have ty: "\<not> is_reference ty" "plain ks" using src(2) CJSON by simp_all
  obtain vs' nm' where vs: "dup_string vs = Some vs'" "dup_string nm = Some nm'" using dup CJSON by (auto split: bind_splits)
  let ?bare = "CJSON (ty AND NOT cJSON_IsReference) vs' i d nm' []"
  obtain r where r: "heap_dup_node ar al p h = Some r" "copied al h ?bare r"
    using dup_node_law [OF m(1) m(2) [unfolded CJSON] ty(1) vs al] by blast
  show ?thesis
  proof (rule copied_cases [OF r(2)])
    assume "r = (0, h)" "\<not> ample al h"
    then show ?thesis using r(1) m(3) by (simp add: heap_Duplicate_def copied_def)
  next
    fix new h1 xs us assume new: "r = (new, h1)" "new \<noteq> 0" "item_at h1 new ?bare xs us" "grown h h1 xs us"
    show ?thesis
    proof (cases recurse)
      case False
      then have "c' = ?bare" using dup CJSON vs by simp
      then show ?thesis using r new False m(3) by (simp add: heap_Duplicate_def)
    next
      case True
      then obtain ks' where ks': "duplicate_children ks = Some ks'" "c' = set_child ks' ?bare"
        using dup CJSON vs by (auto split: bind_splits)
      obtain n1 l1 as1 us1 where "get_node new h1 = Some n1" "chain h1 0 [] (nd_child n1) = Some (as1, us1, l1, 0)"
        using array_of_item [OF new(3)] by (auto simp: array_at_def)
      then have "last_child new h1 = Some 0" using last_child_chain by fastforce
      from dup_children_law [where ar = ar, OF al ks ty(2) ks'(1) new(3) _ new(4) this]
      obtain r' where "heap_dup_children ar al new (nd_child m) 0 h1 = Some r'" "copied al h c' r'" using ks'(2) by auto
      moreover have "get_node p h1 = Some m" by (rule grown_node [OF new(4) m(1)])
      ultimately show ?thesis using r(1) new(1,2) m(3) True by (simp add: heap_Duplicate_def)
    qed
  qed
qed

end
