(* ===== verification/Cjson_Heap_Parse.thy ===== *)
theory Cjson_Heap_Parse
  imports Cjson_Copies
begin

text \<open>
  The parser of \<open>src/cJSON.c\<close> in memory: it fills nodes and strings as it reads, and gives all of them back when
  the text is malformed or memory runs out.
\<close>

subsection \<open>Strings and simple values\<close>

text \<open>
  The result: \<open>Inl\<close> the null pointer, with the error pointer \<open>ep\<close> if one has been set (running out of memory sets
  none), or where the parser ends.
\<close>

type_synonym 'd heap_parsed = "((u8 list option + u8 list) \<times> 'd heap) option"

definition heap_parse_string :: "'d allocator \<Rightarrow> nat \<Rightarrow> u8 list \<Rightarrow> 'd heap \<Rightarrow> 'd heap_parsed" where
  "heap_parse_string al item p h = do {
     b \<leftarrow> peek p 0;
     if b \<noteq> 0x22 then Some (Inl (Some p), h)
     else do {
       len \<leftarrow> string_length (tl p);
       let out = al_text al (hp_texts h);
       if out = 0 then Some (Inl None, h)
       else do {
         (str, q) \<leftarrow> unescape (len + 1) [] (tl p);
         b \<leftarrow> peek q 0;
         let h = h\<lparr>hp_texts := (hp_texts h)(out \<mapsto> padded (len + 1) str)\<rparr>;
         h \<leftarrow> set_node item (\<lambda>n. n\<lparr>nd_valuestring := out, nd_type := cJSON_String\<rparr>) h;
         Some (Inr (if b = 0x22 then tl q else q), h)
       }
     }
   }"

definition heap_parse_simple :: "'d arith \<Rightarrow> 'd allocator \<Rightarrow> nat \<Rightarrow> u8 list \<Rightarrow> 'd heap \<Rightarrow> 'd heap_parsed" where
  "heap_parse_simple ar al item p h = do {
     null \<leftarrow> starts_with p (ascii ''null'');
     false \<leftarrow> starts_with p (ascii ''false'');
     true \<leftarrow> starts_with p (ascii ''true'');
     b \<leftarrow> peek p 0;
     if null then do { h \<leftarrow> set_node item (\<lambda>n. n\<lparr>nd_type := cJSON_NULL\<rparr>) h; Some (Inr (drop 4 p), h) }
     else if false then do { h \<leftarrow> set_node item (\<lambda>n. n\<lparr>nd_type := cJSON_False\<rparr>) h; Some (Inr (drop 5 p), h) }
     else if true then do { h \<leftarrow> set_node item (\<lambda>n. n\<lparr>nd_type := cJSON_True, nd_valueint := 1\<rparr>) h; Some (Inr (drop 4 p), h) }
     else if b = 0x22 then heap_parse_string al item p h
     else if b = 0x2D \<or> is_digit b then do {
       (c, q) \<leftarrow> parse_number ar p;
       h \<leftarrow> set_node item (\<lambda>n. n\<lparr>nd_valuedouble := cj_valuedouble c, nd_valueint := cj_valueint c, nd_type := cj_type c\<rparr>) h;
       Some (Inr q, h)
     }
     else Some (Inl (Some p), h)
   }"

subsection \<open>Values\<close>

text \<open>
  \<open>parse_value\<close> for the node of an item, and the loops of \<open>parse_array\<close> and \<open>parse_object\<close> from the place where
  the text of the new child is expected.
\<close>

datatype parser_call = Value nat | Items nat | Members nat

partial_function (option) heap_parse ::
  "'d arith \<Rightarrow> 'd allocator \<Rightarrow> parser_call \<Rightarrow> u8 list \<Rightarrow> 'd heap \<Rightarrow> 'd heap_parsed" where
  [code]: "heap_parse ar al call p h = (case call of
     Value item \<Rightarrow> do {
       b \<leftarrow> peek p 0;
       if b = 0x5B \<or> b = 0x7B then do {
         h \<leftarrow> set_node item (\<lambda>n. n\<lparr>nd_type := if b = 0x5B then cJSON_Array else cJSON_Object\<rparr>) h;
         q \<leftarrow> skip (tl p);
         e \<leftarrow> peek q 0;
         if e = (if b = 0x5B then 0x5D else 0x7D) then Some (Inr (tl q), h)
         else do {
           let (child, h) = heap_New_Item ar al h;
           h \<leftarrow> set_node item (\<lambda>n. n\<lparr>nd_child := child\<rparr>) h;
           if child = 0 then Some (Inl None, h)
           else heap_parse ar al (if b = 0x5B then Items child else Members child) q h
         }
       }
       else heap_parse_simple ar al item p h
     }
   | Items child \<Rightarrow> do {
       q \<leftarrow> skip p;
       (r, h) \<leftarrow> heap_parse ar al (Value child) q h;
       case r of
         Inl ep \<Rightarrow> Some (Inl ep, h)
       | Inr q \<Rightarrow> do {
           q \<leftarrow> skip q;
           b \<leftarrow> peek q 0;
           if b = 0x2C then do {
             let (new_item, h) = heap_New_Item ar al h;
             if new_item = 0 then Some (Inl None, h)
             else do { h \<leftarrow> suffix_object child new_item h; heap_parse ar al (Items new_item) (tl q) h }
           }
           else if b = 0x5D then Some (Inr (tl q), h)
           else Some (Inl (Some q), h)
         }
     }
   | Members child \<Rightarrow> do {
       q \<leftarrow> skip p;
       (r, h) \<leftarrow> heap_parse_string al child q h;
       case r of
         Inl ep \<Rightarrow> Some (Inl ep, h)
       | Inr q \<Rightarrow> do {
           q \<leftarrow> skip q;
           h \<leftarrow> set_node child (\<lambda>n. n\<lparr>nd_string := nd_valuestring n, nd_valuestring := 0\<rparr>) h;
           b \<leftarrow> peek q 0;
           if b \<noteq> 0x3A then Some (Inl (Some q), h)
           else do {
             q \<leftarrow> skip (tl q);
             (r, h) \<leftarrow> heap_parse ar al (Value child) q h;
             case r of
               Inl ep \<Rightarrow> Some (Inl ep, h)
             | Inr q \<Rightarrow> do {
                 q \<leftarrow> skip q;
                 b \<leftarrow> peek q 0;
                 if b = 0x2C then do {
                   let (new_item, h) = heap_New_Item ar al h;
                   if new_item = 0 then Some (Inl None, h)
                   else do { h \<leftarrow> suffix_object child new_item h; heap_parse ar al (Members new_item) (tl q) h }
                 }
                 else if b = 0x7D then Some (Inr (tl q), h)
                 else Some (Inl (Some q), h)
               }
           }
         }
     })"

text \<open>\<open>cJSON_ParseWithOpts\<close> returns the root with the end of the text, or deletes what has been built.\<close>

definition heap_ParseWithOpts ::
  "'d arith \<Rightarrow> 'd allocator \<Rightarrow> u8 list \<Rightarrow> bool \<Rightarrow> 'd heap \<Rightarrow> ((u8 list option + nat \<times> u8 list) \<times> 'd heap) option" where
  "heap_ParseWithOpts ar al text require_null_terminated h =
     (let (c, h) = heap_New_Item ar al h
      in if c = 0 then Some (Inl None, h)
         else do {
           p \<leftarrow> skip text;
           (r, h) \<leftarrow> heap_parse ar al (Value c) p h;
           case r of
             Inl ep \<Rightarrow> do { h \<leftarrow> heap_Delete c h; Some (Inl ep, h) }
           | Inr q \<Rightarrow>
               if require_null_terminated then do {
                 q \<leftarrow> skip q;
                 b \<leftarrow> peek q 0;
                 if b \<noteq> 0 then do { h \<leftarrow> heap_Delete c h; Some (Inl (Some q), h) } else Some (Inr (c, q), h)
               } else Some (Inr (c, q), h)
         })"

definition heap_Parse :: "'d arith \<Rightarrow> 'd allocator \<Rightarrow> u8 list \<Rightarrow> 'd heap \<Rightarrow> (nat \<times> 'd heap) option" where
  "heap_Parse ar al text h = do {
     (r, h) \<leftarrow> heap_ParseWithOpts ar al text False h;
     Some (case r of Inl ep \<Rightarrow> 0 | Inr (c, q) \<Rightarrow> c, h)
   }"

subsection \<open>What a parser owns\<close>

text \<open>Since \<open>h0\<close>, the chain of the items at \<open>p\<close> has been allocated, and nothing else has changed.\<close>

definition owns :: "'d heap \<Rightarrow> 'd heap \<Rightarrow> nat \<Rightarrow> 'd cjson list \<Rightarrow> nat \<Rightarrow> bool" where
  "owns h0 h prev cs p \<longleftrightarrow>
     (\<exists>xs ts l. chain h prev cs p = Some (xs, ts, l, 0) \<and> distinct xs \<and> distinct ts \<and> grown h0 h xs ts)"

definition blank :: "'d arith \<Rightarrow> nat \<Rightarrow> int \<Rightarrow> nat \<Rightarrow> 'd node" where
  "blank ar prev ty s = \<lparr>nd_next = 0, nd_prev = prev, nd_child = 0, nd_type = ty, nd_valuestring = 0, nd_valueint = 0,
     nd_valuedouble = d_of_int ar 0, nd_string = s\<rparr>"

lemma blank_simps [simp]: "nd_next (blank ar prev ty s) = 0" "nd_prev (blank ar prev ty s) = prev" "nd_child (blank ar prev ty s) = 0"
  "nd_type (blank ar prev ty s) = ty" "nd_valuestring (blank ar prev ty s) = 0" "nd_valueint (blank ar prev ty s) = 0"
  "nd_valuedouble (blank ar prev ty s) = d_of_int ar 0" "nd_string (blank ar prev ty s) = s"
  "blank ar prev ty s\<lparr>nd_type := ty'\<rparr> = blank ar prev ty' s" "blank ar prev ty s\<lparr>nd_prev := prev'\<rparr> = blank ar prev' ty s"
  by (simp_all add: blank_def)

text \<open>A node that waits for its value, and may have a name already.\<close>

definition ready :: "'d arith \<Rightarrow> 'd heap \<Rightarrow> 'd heap \<Rightarrow> nat \<Rightarrow> nat \<Rightarrow> u8 list option \<Rightarrow> bool" where
  "ready ar h0 h prev item nm \<longleftrightarrow> (\<exists>ty s. get_node item h = Some (blank ar prev ty s) \<and> \<not> is_reference ty \<and>
     text_at h s nm \<and> grown h0 h [item] (ptr s))"

lemma owns_leaf:
  assumes "get_node p h = Some n" and "node_is h prev n c" and "nd_next n = 0" "nd_child n = 0" "cj_child c = []"
    and "distinct (node_texts n)" and "grown h0 h [p] (node_texts n)"
  shows "owns h0 h prev [c] p"
proof -
  have "chain h prev [c] p = Some ([p], node_texts n, p, 0)" unfolding chain_Cons using assms(1-5) by auto
  then show ?thesis using assms(6,7) unfolding owns_def by (metis distinct_singleton)
qed

lemma ready_owns:
  assumes "ready ar h0 h prev item nm"
  shows "\<exists>c. owns h0 h prev [c] item"
proof -
  obtain ty s where n: "get_node item h = Some (blank ar prev ty s)" "\<not> is_reference ty" "text_at h s nm" "grown h0 h [item] (ptr s)"
    using assms unfolding ready_def by blast
  have "owns h0 h prev [CJSON ty None 0 (d_of_int ar 0) nm []] item"
    using n by (intro owns_leaf [OF n(1)]) (simp_all add: node_is_def node_texts_def)
  then show ?thesis by blast
qed

text \<open>\<open>cJSON_New_Item\<close> gives a blank node, or there is no memory.\<close>

lemma New_Item_cases:
  assumes "fresh_laws al"
  obtains "heap_New_Item ar al h = (0, h)" "\<not> ample al h"
  | p where "p \<noteq> 0" "hp_nodes h p = None" "heap_New_Item ar al h = (p, h\<lparr>hp_nodes := (hp_nodes h)(p \<mapsto> blank ar 0 0 0)\<rparr>)"
proof (cases "al_node al (hp_nodes h) = 0")
  case True
  then have "\<not> ample al h" by (auto simp: ample_def has_memory_def)
  with True that(1) show thesis by (simp add: heap_New_Item_def)
next
  case False
  moreover from this have "hp_nodes h (al_node al (hp_nodes h)) = None" using assms by (simp add: fresh_laws_def)
  ultimately show thesis using that(2) [of "al_node al (hp_nodes h)"] by (simp add: heap_New_Item_def blank_def Let_def)
qed

lemma plain_types [simp]: "\<not> is_reference 0" "\<not> is_reference cJSON_NULL" "\<not> is_reference cJSON_False" "\<not> is_reference cJSON_True"
  "\<not> is_reference cJSON_Number" "\<not> is_reference cJSON_String" "\<not> is_reference cJSON_Array" "\<not> is_reference cJSON_Object"
  by (simp_all add: is_reference_def cJSON_IsReference_def cJSON_NULL_def cJSON_False_def cJSON_True_def cJSON_Number_def
      cJSON_String_def cJSON_Array_def cJSON_Object_def)

text \<open>A new node behind the last one.\<close>

lemma new_sibling:
  assumes own: "owns h0 h prev [c] p" and q: "q \<noteq> 0" "hp_nodes h q = None"
  obtains h1 h2 where "suffix_object p q (h\<lparr>hp_nodes := (hp_nodes h)(q \<mapsto> blank ar 0 0 0)\<rparr>) = Some h2"
    "ready ar h1 h2 p q None" "ample al h0 \<Longrightarrow> ample al h1" "\<And>h3 cs. owns h1 h3 p cs q \<Longrightarrow> owns h0 h3 prev (c # cs) p"
proof -
  obtain xs ts l where c: "chain h prev [c] p = Some (xs, ts, l, 0)" "distinct xs" "distinct ts" and g: "grown h0 h xs ts"
    using own unfolding owns_def by blast
  obtain n where n: "get_node p h = Some n" and l: "l = p" using chain_one [OF c(1)] by blast
  have p: "p \<noteq> 0" "p \<in> set xs" "hp_nodes h p = Some n" "p \<noteq> q" using chain_first [OF c(1)] n q by (auto simp: get_node_Some)
  have qx: "q \<notin> set xs" using chain_nodes [OF c(1)] q(2) by blast
  define h1 where "h1 = h\<lparr>hp_nodes := (hp_nodes h)(p \<mapsto> n\<lparr>nd_next := q\<rparr>)\<rparr>"
  define h2 where "h2 = h1\<lparr>hp_nodes := (hp_nodes h1)(q \<mapsto> blank ar p 0 0)\<rparr>"
  have run: "suffix_object p q (h\<lparr>hp_nodes := (hp_nodes h)(q \<mapsto> blank ar 0 0 0)\<rparr>) = Some h2"
    using p q by (simp add: suffix_object_def set_node_def get_node_def h1_def h2_def fun_upd_twist)
  have g1: "grown h0 h1 xs ts" using g p(2) by (simp add: grown_def h1_def)
  have g2: "grown h1 h2 [q] []" using q(2) p(4) by (simp add: grown_def h1_def h2_def)
  have r: "ready ar h1 h2 p q None" unfolding ready_def
    using q(1) g2 by (intro exI [of _ 0]) (simp add: h2_def)
  have c1: "chain h1 prev [c] p = Some (xs, ts, p, q)"
    using p(3) chain_one [OF c(1)] n by (intro chain_relink [OF c(1,2)]) (auto simp: h1_def)
  have "owns h0 h3 prev (c # cs) p" if own3: "owns h1 h3 p cs q" for h3 cs
  proof -
    obtain ys us k where 3: "chain h3 p cs q = Some (ys, us, k, 0)" "distinct ys" "distinct us" "grown h1 h3 ys us"
      using own3 unfolding owns_def by blast
    note apart = grown_apart [OF 3(4) c1]
    have "chain h3 prev ([c] @ cs) p = Some (xs @ ys, ts @ us, k, 0)" by (rule chain_join [OF apart(3) 3(1)])
    then have "chain h3 prev (c # cs) p = Some (xs @ ys, ts @ us, k, 0)" by simp
    moreover have "grown h0 h3 (xs @ ys) (ts @ us)" by (rule grown_more [OF g1 3(4)])
    moreover have "distinct (xs @ ys)" "distinct (ts @ us)" using apart(1,2) c(2,3) 3(2,3) by auto
    ultimately show ?thesis unfolding owns_def by blast
  qed
  then show thesis using run r ample_grown [OF _ g1] by (intro that) blast+
qed

text \<open>The first child of a node that has no children yet.\<close>

lemma new_child:
  assumes n: "get_node p h = Some (blank ar prev ty s)" "\<not> is_reference ty" "text_at h s nm" "grown h0 h [p] (ptr s)"
    and q: "q \<noteq> 0" "hp_nodes h q = None"
  obtains h1 h2 where "set_node p (\<lambda>n. n\<lparr>nd_child := q\<rparr>) (h\<lparr>hp_nodes := (hp_nodes h)(q \<mapsto> blank ar 0 0 0)\<rparr>) = Some h2"
    "ready ar h1 h2 0 q None" "ample al h0 \<Longrightarrow> ample al h1"
    "\<And>h3 cs. owns h1 h3 0 cs q \<Longrightarrow> owns h0 h3 prev [CJSON ty None 0 (d_of_int ar 0) nm cs] p"
proof -
  let ?n = "blank ar prev ty s\<lparr>nd_child := q\<rparr>"
  have p: "p \<noteq> 0" "hp_nodes h p = Some (blank ar prev ty s)" "p \<noteq> q" using n(1) q by (auto simp: get_node_Some)
  define h1 where "h1 = h\<lparr>hp_nodes := (hp_nodes h)(p \<mapsto> ?n)\<rparr>"
  define h2 where "h2 = h1\<lparr>hp_nodes := (hp_nodes h1)(q \<mapsto> blank ar 0 0 0)\<rparr>"
  have run: "set_node p (\<lambda>n. n\<lparr>nd_child := q\<rparr>) (h\<lparr>hp_nodes := (hp_nodes h)(q \<mapsto> blank ar 0 0 0)\<rparr>) = Some h2"
    using p q by (simp add: set_node_def get_node_def h1_def h2_def fun_upd_twist)
  have g1: "grown h0 h1 [p] (ptr s)" using n(4) by (simp add: grown_def h1_def)
  have g2: "grown h1 h2 [q] []" using q(2) p(3) by (simp add: grown_def h1_def h2_def)
  have r: "ready ar h1 h2 0 q None" unfolding ready_def
    using q(1) g2 by (intro exI [of _ 0]) (simp add: h2_def)
  have n1: "get_node p h1 = Some ?n" "text_at h1 s nm" using p(1) n(3) by (simp_all add: h1_def text_at_def cong: option.case_cong)
  have "owns h0 h3 prev [CJSON ty None 0 (d_of_int ar 0) nm cs] p" if own3: "owns h1 h3 0 cs q" for h3 cs
  proof -
    let ?c = "CJSON ty None 0 (d_of_int ar 0) nm cs"
    obtain ys us k where 3: "chain h3 0 cs q = Some (ys, us, k, 0)" "distinct ys" "distinct us" "grown h1 h3 ys us"
      using own3 unfolding owns_def by blast
    have n3: "get_node p h3 = Some ?n" by (rule grown_node [OF 3(4) n1(1)])
    have t3: "text_at h3 s nm" by (rule grown_text [OF 3(4) n1(2)])
    have "p \<notin> set ys" using 3(4) n1(1) by (auto simp: grown_def get_node_Some split: if_splits)
    moreover have "set (ptr s) \<inter> set us = {}"
      using 3(4) n1(2) by (auto simp: grown_def text_at_def split: option.splits if_splits)
    moreover have texts: "node_texts ?n = ptr s" using n(2) by (simp add: node_texts_def)
    moreover have "chain h3 prev [?c] p = Some (p # ys, ptr s @ us, p, 0)"
      unfolding chain_Cons using n3 t3 3(1) n(2) texts by (simp add: node_is_def)
    moreover have "grown h0 h3 (p # ys) (ptr s @ us)" using grown_more [OF g1 3(4)] by simp
    ultimately show ?thesis using 3(2,3) unfolding owns_def by (intro exI [of _ "p # ys"] exI [of _ "ptr s @ us"] exI [of _ p]) auto
  qed
  then show thesis using run r ample_grown [OF _ g1] by (intro that) blast+
qed

subsection \<open>The parser refines the parser of trees\<close>

text \<open>A result in memory, for the result \<open>s\<close> of the parser of trees. Only a lack of memory is a failure of its own.\<close>

definition parse_gives ::
  "'d allocator \<Rightarrow> 'd heap \<Rightarrow> u8 list + 'a \<times> u8 list \<Rightarrow> u8 list option + u8 list \<Rightarrow> ('a \<Rightarrow> bool) \<Rightarrow> bool" where
  "parse_gives al h0 s r P \<longleftrightarrow> (case r of
     Inl None \<Rightarrow> \<not> ample al h0
   | Inl (Some ep) \<Rightarrow> s = Inl ep
   | Inr q \<Rightarrow> \<exists>x. s = Inr (x, q) \<and> P x)"

lemma parse_gives_simps [simp]: "parse_gives al h0 s (Inl None) P \<longleftrightarrow> \<not> ample al h0"
  "parse_gives al h0 s (Inl (Some ep)) P \<longleftrightarrow> s = Inl ep" "parse_gives al h0 s (Inr q) P \<longleftrightarrow> (\<exists>x. s = Inr (x, q) \<and> P x)"
  by (simp_all add: parse_gives_def)

lemma parse_gives_cases:
  assumes "parse_gives al h0 s r P"
  obtains "r = Inl None" "\<not> ample al h0" | ep where "r = Inl (Some ep)" "s = Inl ep" | x q where "r = Inr q" "s = Inr (x, q)" "P x"
proof (cases r)
  case (Inl ep)
  then show thesis using assms that(1,2) by (cases ep) simp_all
qed (use assms that(3) in auto)

definition name_item :: "u8 list option \<Rightarrow> 'd cjson \<Rightarrow> 'd cjson" where
  "name_item nm c = CJSON (cj_type c) (cj_valuestring c) (cj_valueint c) (cj_valuedouble c) nm (cj_child c)"

definition value_ok ::
  "'d allocator \<Rightarrow> 'd heap \<Rightarrow> nat \<Rightarrow> nat \<Rightarrow> u8 list option \<Rightarrow> u8 list + 'd cjson \<times> u8 list \<Rightarrow> 'd heap_parsed \<Rightarrow> bool" where
  "value_ok al h0 prev item nm s run \<longleftrightarrow> (\<exists>r h c. run = Some (r, h) \<and> owns h0 h prev [c] item \<and>
     parse_gives al h0 s r (\<lambda>x. cj_string x = None \<and> c = name_item nm x))"

definition children_ok ::
  "'d arith \<Rightarrow> 'd allocator \<Rightarrow> 'd heap \<Rightarrow> nat \<Rightarrow> nat \<Rightarrow> int \<Rightarrow> 'd cjson list \<Rightarrow> u8 list + 'd cjson \<times> u8 list \<Rightarrow> 'd heap_parsed \<Rightarrow> bool"
where
  "children_ok ar al h0 prev child ty before s run \<longleftrightarrow> (\<exists>r h cs. run = Some (r, h) \<and> owns h0 h prev cs child \<and>
     parse_gives al h0 s r (\<lambda>x. x = compound ar ty (before @ cs)))"

lemma heap_parse_string_cases:
  assumes al: "fresh_laws al" and n: "get_node item h = Some n" and str: "parse_string p = Some s"
  obtains ep where "s = Inl ep" "heap_parse_string al item p h = Some (Inl (Some ep), h)"
  | "heap_parse_string al item p h = Some (Inl None, h)" "\<not> ample al h"
  | v q out where "s = Inr (v, q)" "out \<noteq> 0" "hp_texts h out = None"
      "heap_parse_string al item p h = Some (Inr q, h\<lparr>hp_nodes := (hp_nodes h)(item \<mapsto> n\<lparr>nd_valuestring := out, nd_type := cJSON_String\<rparr>),
        hp_texts := (hp_texts h)(out \<mapsto> v)\<rparr>)"
proof -
  obtain b where b: "peek p 0 = Some b" using str by (auto simp: parse_string_def split: bind_splits)
  show thesis
  proof (cases "b = 0x22")
    case False
    then show thesis using b str that(1) [of p] by (simp add: parse_string_def heap_parse_string_def)
  next
    case True
    then obtain len out q c where u: "string_length (tl p) = Some len" "unescape (len + 1) [] (tl p) = Some (out, q)" "peek q 0 = Some c"
      and s: "s = Inr (padded (len + 1) out, if c = 0x22 then tl q else q)"
      using b str by (auto simp: parse_string_def split: bind_splits)
    let ?p = "al_text al (hp_texts h)"
    show thesis
    proof (cases "?p = 0")
      case full: True
      then have "\<not> ample al h" by (auto simp: ample_def has_memory_def)
      then show thesis using full b True u that(2) by (simp add: heap_parse_string_def)
    next
      case False
      then have "hp_texts h ?p = None" using al by (simp add: fresh_laws_def)
      then show thesis using that(3) [of "padded (len + 1) out" _ ?p] False b True u s n
        by (simp add: heap_parse_string_def Let_def set_node_def get_node_def split: if_splits)
    qed
  qed
qed

text \<open>A node that gets a value without memory of its own.\<close>

lemma fill_law:
  assumes r: "ready ar h0 h prev item nm" and ty: "\<not> is_reference (cj_type c)" "cj_valuestring c = None" "cj_child c = []" "cj_string c = None"
    and f: "\<And>ty s. f (blank ar prev ty s) = blank ar prev (cj_type c) s\<lparr>nd_valueint := cj_valueint c, nd_valuedouble := cj_valuedouble c\<rparr>"
  shows "value_ok al h0 prev item nm (Inr (c, q)) (do { h \<leftarrow> set_node item f h; Some (Inr q, h) })"
proof -
  obtain ty s where n: "get_node item h = Some (blank ar prev ty s)" "text_at h s nm" "grown h0 h [item] (ptr s)"
    using r unfolding ready_def by blast
  let ?n = "blank ar prev (cj_type c) s\<lparr>nd_valueint := cj_valueint c, nd_valuedouble := cj_valuedouble c\<rparr>"
  let ?h = "h\<lparr>hp_nodes := (hp_nodes h)(item \<mapsto> ?n)\<rparr>"
  have "set_node item f h = Some ?h" using n(1) f by (simp add: set_node_def)
  moreover have "get_node item ?h = Some ?n" using n(1) by (simp add: get_node_Some)
  then have "owns h0 ?h prev [name_item nm c] item"
  proof (rule owns_leaf)
    have "text_at ?h s nm" using n(2) by (simp add: text_at_def cong: option.case_cong)
    then show "node_is ?h prev ?n (name_item nm c)" using ty by (simp add: node_is_def name_item_def text_at_def)
    show "grown h0 ?h [item] (node_texts ?n)" using n(3) by (simp add: node_texts_def grown_def)
  qed (use ty in \<open>simp_all add: name_item_def node_texts_def\<close>)
  ultimately show ?thesis using ty(4) unfolding value_ok_def by auto
qed

lemma string_law:
  assumes al: "fresh_laws al" and r: "ready ar h0 h prev item nm" and str: "parse_string p = Some s"
  shows "value_ok al h0 prev item nm (map_sum id (map_prod (\<lambda>v. CJSON cJSON_String (Some v) 0 (d_of_int ar 0) None []) id) s)
    (heap_parse_string al item p h)"
proof -
  obtain ty s' where n: "get_node item h = Some (blank ar prev ty s')" "text_at h s' nm" "grown h0 h [item] (ptr s')"
    using r unfolding ready_def by blast
  obtain c where c: "owns h0 h prev [c] item" using ready_owns [OF r] by blast
  have more: "ample al h0 \<Longrightarrow> ample al h" by (rule ample_grown [OF _ n(3)])
  show ?thesis
  proof (rule heap_parse_string_cases [OF al n(1) str])
    fix v q out assume ok: "s = Inr (v, q)" "out \<noteq> 0" "hp_texts h out = None"
      "heap_parse_string al item p h = Some (Inr q, h\<lparr>hp_nodes := (hp_nodes h)(item \<mapsto> blank ar prev ty s'\<lparr>nd_valuestring := out,
        nd_type := cJSON_String\<rparr>), hp_texts := (hp_texts h)(out \<mapsto> v)\<rparr>)"
    let ?n = "blank ar prev ty s'\<lparr>nd_valuestring := out, nd_type := cJSON_String\<rparr>"
    let ?h = "h\<lparr>hp_nodes := (hp_nodes h)(item \<mapsto> ?n), hp_texts := (hp_texts h)(out \<mapsto> v)\<rparr>"
    have apart: "out \<noteq> s' \<or> s' = 0" using n(2) ok(3) by (auto simp: text_at_def split: option.splits)
    have "get_node item ?h = Some ?n" using n(1) by (simp add: get_node_def split: if_splits)
    then have "owns h0 ?h prev [name_item nm (CJSON cJSON_String (Some v) 0 (d_of_int ar 0) None [])] item"
    proof (rule owns_leaf)
      have "text_at ?h s' nm" using n(2) apart by (auto simp: text_at_def split: option.splits)
      then show "node_is ?h prev ?n (name_item nm (CJSON cJSON_String (Some v) 0 (d_of_int ar 0) None []))"
        using ok(2) by (simp add: node_is_def name_item_def text_at_def)
      have "hp_texts h0 out = None"
        using n(3) ok(3) by (cases "out \<in> set (ptr s')") (auto simp: grown_def split: if_splits)
      then show "grown h0 ?h [item] (node_texts ?n)" using n(3) ok(2) by (simp add: node_texts_def grown_def)
    qed (use apart in \<open>auto simp: name_item_def node_texts_def\<close>)
    then show ?thesis using ok(1,4) unfolding value_ok_def by auto
  qed (use c more in \<open>auto simp: value_ok_def\<close>)
qed

lemma simple_law:
  assumes al: "fresh_laws al" and r: "ready ar h0 h prev item nm" and p: "parse_simple ar p = Some s"
  shows "value_ok al h0 prev item nm s (heap_parse_simple ar al item p h)"
proof -
  obtain c where c: "owns h0 h prev [c] item" using ready_owns [OF r] by blast
  obtain n f t b where b: "starts_with p (ascii ''null'') = Some n" "starts_with p (ascii ''false'') = Some f"
    "starts_with p (ascii ''true'') = Some t" "peek p 0 = Some b"
    using p by (auto simp: parse_simple_def split: bind_splits)
  note unfold = parse_simple_def heap_parse_simple_def b
  consider "n" | "\<not> n" "f" | "\<not> n" "\<not> f" "t" | "\<not> n" "\<not> f" "\<not> t" "b = 0x22"
    | "\<not> n" "\<not> f" "\<not> t" "b \<noteq> 0x22" "b = 0x2D \<or> is_digit b" | "\<not> n" "\<not> f" "\<not> t" "b \<noteq> 0x22" "\<not> (b = 0x2D \<or> is_digit b)" by blast
  then show ?thesis
  proof cases
    case 1
    then show ?thesis using p fill_law [OF r, of "new_item ar cJSON_NULL"] by (auto simp: unfold new_item_def blank_def)
  next
    case 2
    then show ?thesis using p fill_law [OF r, of "new_item ar cJSON_False"] by (auto simp: unfold new_item_def blank_def)
  next
    case 3
    then show ?thesis using p fill_law [OF r, of "CJSON cJSON_True None 1 (d_of_int ar 0) None []"] by (auto simp: unfold blank_def)
  next
    case 4
    then obtain s' where s': "parse_string p = Some s'" "s = map_sum id (map_prod (\<lambda>v. CJSON cJSON_String (Some v) 0 (d_of_int ar 0) None []) id) s'"
      using p by (auto simp: unfold split: bind_splits sum.splits)
    then show ?thesis using 4 string_law [OF al r s'(1)] by (simp add: unfold)
  next
    case 5
    then obtain x q where x: "parse_number ar p = Some (x, q)" "s = Inr (x, q)"
      using p by (auto simp: unfold split: bind_splits)
    then have "cj_type x = cJSON_Number \<and> cj_valuestring x = None \<and> cj_child x = [] \<and> cj_string x = None"
      by (auto simp: parse_number_def Let_def split: bind_splits)
    then show ?thesis using 5 x fill_law [OF r, of x] by (auto simp: unfold blank_def)
  next
    case 6
    then show ?thesis using p c by (auto simp: unfold value_ok_def)
  qed
qed

text \<open>A child has been read: what comes behind it.\<close>

lemma siblings_law:
  assumes al: "fresh_laws al" and own: "owns h0 h prev [c] child"
    and loop: "\<And>n h1 h2. b = 0x2C \<Longrightarrow> ready ar h1 h2 child n None \<Longrightarrow> children_ok ar al h1 child n ty (before @ [c]) s' (loop n h2)"
    and s: "s = (if b = 0x2C then s' else if b = close then Inr (compound ar ty (before @ [c]), tl q) else Inl q)"
  shows "children_ok ar al h0 prev child ty before s
    (if b = 0x2C then (let (new_item, h) = heap_New_Item ar al h
       in if new_item = 0 then Some (Inl None, h) else do { h \<leftarrow> suffix_object child new_item h; loop new_item h })
     else if b = close then Some (Inr (tl q), h) else Some (Inl (Some q), h))"
proof (cases "b = 0x2C")
  case True
  show ?thesis
  proof (rule New_Item_cases [where ar = ar and h = h, OF al])
    assume "heap_New_Item ar al h = (0, h)" "\<not> ample al h"
    then show ?thesis using True own ample_grown unfolding children_ok_def owns_def by fastforce
  next
    fix n assume n: "n \<noteq> 0" "hp_nodes h n = None" "heap_New_Item ar al h = (n, h\<lparr>hp_nodes := (hp_nodes h)(n \<mapsto> blank ar 0 0 0)\<rparr>)"
    obtain h1 h2 where run: "suffix_object child n (h\<lparr>hp_nodes := (hp_nodes h)(n \<mapsto> blank ar 0 0 0)\<rparr>) = Some h2"
      and r: "ready ar h1 h2 child n None" and more: "ample al h0 \<Longrightarrow> ample al h1"
      and join: "\<And>h3 cs. owns h1 h3 child cs n \<Longrightarrow> owns h0 h3 prev (c # cs) child"
      by (rule new_sibling [where ar = ar and al = al, OF own n(1,2)]) (rule that)
    obtain r h3 cs where 3: "loop n h2 = Some (r, h3)" "owns h1 h3 child cs n"
      "parse_gives al h1 s' r (\<lambda>x. x = compound ar ty ((before @ [c]) @ cs))"
      using loop [OF True r] unfolding children_ok_def by blast
    have "parse_gives al h0 s r (\<lambda>x. x = compound ar ty (before @ c # cs))"
      using 3(3) more s True by (auto elim!: parse_gives_cases)
    then show ?thesis using True n(1,3) run 3(1) join [OF 3(2)] unfolding children_ok_def by auto
  qed
next
  case False
  then show ?thesis using own s unfolding children_ok_def by auto
qed

text \<open>An array or object.\<close>

lemma bracket_law:
  assumes al: "fresh_laws al" and r: "ready ar h0 h prev item nm" and ty: "\<not> is_reference ty"
    and loop: "\<And>n h1 h2. e \<noteq> close \<Longrightarrow> ready ar h1 h2 0 n None \<Longrightarrow> children_ok ar al h1 0 n ty [] s' (loop n h2)"
    and s: "s = (if e = close then Inr (compound ar ty [], tl q) else s')"
  shows "value_ok al h0 prev item nm s (do {
    h \<leftarrow> set_node item (\<lambda>n. n\<lparr>nd_type := ty\<rparr>) h;
    if e = close then Some (Inr (tl q), h)
    else do {
      let (child, h) = heap_New_Item ar al h;
      h \<leftarrow> set_node item (\<lambda>n. n\<lparr>nd_child := child\<rparr>) h;
      if child = 0 then Some (Inl None, h) else loop child h
    } })"
proof -
  obtain ty' t where n: "get_node item h = Some (blank ar prev ty' t)" "text_at h t nm" "grown h0 h [item] (ptr t)"
    using r unfolding ready_def by blast
  let ?h = "h\<lparr>hp_nodes := (hp_nodes h)(item \<mapsto> blank ar prev ty t)\<rparr>"
  have run: "set_node item (\<lambda>n. n\<lparr>nd_type := ty\<rparr>) h = Some ?h" using n(1) by (simp add: set_node_def)
  have n': "get_node item ?h = Some (blank ar prev ty t)" "text_at ?h t nm" "grown h0 ?h [item] (ptr t)"
    using n by (simp_all add: get_node_Some text_at_def grown_def cong: option.case_cong)
  have own: "owns h0 ?h prev [CJSON ty None 0 (d_of_int ar 0) nm []] item"
    using n' ty by (intro owns_leaf [OF n'(1)]) (simp_all add: node_is_def node_texts_def)
  show ?thesis
  proof (cases "e = close")
    case True
    then show ?thesis using run own s unfolding value_ok_def by (auto simp: compound_def name_item_def)
  next
    case False
    show ?thesis
    proof (rule New_Item_cases [where ar = ar and h = ?h, OF al])
      assume full: "heap_New_Item ar al ?h = (0, ?h)" "\<not> ample al ?h"
      have "set_node item (\<lambda>n. n\<lparr>nd_child := 0\<rparr>) ?h = Some ?h"
        using n'(1) by (simp add: set_node_def blank_def)
      then show ?thesis using False full run own ample_grown [OF _ n'(3)] unfolding value_ok_def by auto
    next
      fix c assume c: "c \<noteq> 0" "hp_nodes ?h c = None" "heap_New_Item ar al ?h = (c, ?h\<lparr>hp_nodes := (hp_nodes ?h)(c \<mapsto> blank ar 0 0 0)\<rparr>)"
      obtain h1 h2 where 2: "set_node item (\<lambda>n. n\<lparr>nd_child := c\<rparr>) (?h\<lparr>hp_nodes := (hp_nodes ?h)(c \<mapsto> blank ar 0 0 0)\<rparr>) = Some h2"
        and r2: "ready ar h1 h2 0 c None" and more: "ample al h0 \<Longrightarrow> ample al h1"
        and join: "\<And>h3 cs. owns h1 h3 0 cs c \<Longrightarrow> owns h0 h3 prev [CJSON ty None 0 (d_of_int ar 0) nm cs] item"
        by (rule new_child [where al = al, OF n'(1) ty n'(2,3) c(1,2)]) (rule that)
      obtain r3 h3 cs where 3: "loop c h2 = Some (r3, h3)" "owns h1 h3 0 cs c" "parse_gives al h1 s' r3 (\<lambda>x. x = compound ar ty ([] @ cs))"
        using loop [OF False r2] unfolding children_ok_def by blast
      have "parse_gives al h0 s r3 (\<lambda>x. cj_string x = None \<and> CJSON ty None 0 (d_of_int ar 0) nm cs = name_item nm x)"
        using 3(3) more s False by (auto elim!: parse_gives_cases simp: compound_def name_item_def)
      then show ?thesis using False run c(1,3) 2 3(1) join [OF 3(2)] unfolding value_ok_def by auto
    qed
  qed
qed

lemma unnamed [simp]: "cj_string x = None \<Longrightarrow> name_item None x = x" "name_item (Some v) x = rename_item v x"
  by (cases x; simp add: name_item_def rename_item_def)+

text \<open>The name of a member.\<close>

lemma take_name:
  assumes r: "ready ar h0 h prev item None" and n: "get_node item h = Some n" and out: "out \<noteq> 0" "hp_texts h out = None"
    and h': "h' = h\<lparr>hp_nodes := (hp_nodes h)(item \<mapsto> n\<lparr>nd_valuestring := out, nd_type := cJSON_String\<rparr>),
      hp_texts := (hp_texts h)(out \<mapsto> v)\<rparr>"
  shows "\<exists>h2. set_node item (\<lambda>n. n\<lparr>nd_string := nd_valuestring n, nd_valuestring := 0\<rparr>) h' = Some h2 \<and> ready ar h0 h2 prev item (Some v)"
proof -
  obtain ty where n': "n = blank ar prev ty 0" "item \<noteq> 0" "hp_nodes h item = Some n" "grown h0 h [item] []"
    using r n by (auto simp: ready_def text_at_def get_node_Some)
  let ?h = "h'\<lparr>hp_nodes := (hp_nodes h')(item \<mapsto> blank ar prev cJSON_String out)\<rparr>"
  have "set_node item (\<lambda>n. n\<lparr>nd_string := nd_valuestring n, nd_valuestring := 0\<rparr>) h' = Some ?h"
    using n' out h' by (simp add: set_node_def get_node_def blank_def)
  moreover have "ready ar h0 ?h prev item (Some v)" unfolding ready_def
    using n' out h' by (intro exI [of _ cJSON_String] exI [of _ out]) (auto simp: grown_def text_at_def get_node_Some)
  ultimately show ?thesis by blast
qed

lemma heap_parse_law:
  fixes al :: "'d allocator"
  assumes al: "fresh_laws al"
  shows "parse_value ar p = Some s \<Longrightarrow> ready ar h0 h prev item nm \<Longrightarrow> value_ok al h0 prev item nm s (heap_parse ar al (Value item) p h)"
    and "parse_items ar cs p = Some s \<Longrightarrow> ready ar h0 h prev item None \<Longrightarrow>
      children_ok ar al h0 prev item cJSON_Array cs s (heap_parse ar al (Items item) p h)"
    and "parse_members ar cs p = Some s \<Longrightarrow> ready ar h0 h prev item None \<Longrightarrow>
      children_ok ar al h0 prev item cJSON_Object cs s (heap_parse ar al (Members item) p h)"
proof (induction ar p and ar cs p and ar cs p arbitrary: s h0 h prev item nm and s h0 h prev item and s h0 h prev item
    rule: parse_value_parse_items_parse_members.induct)
  case (1 ar p)
  obtain b where b: "peek p 0 = Some b" using 1(3) by (auto simp: parse_value.simps split: bind_splits)
  consider "b = 0x5B" | "b = 0x7B" | "b \<noteq> 0x5B" "b \<noteq> 0x7B" by blast
  then show ?case
  proof cases
    case 3
    then show ?thesis using 1(3,4) b simple_law [OF al, of ar h0 h prev item nm p s]
      by (simp add: parse_value.simps heap_parse.simps [of ar al "Value item"])
  next
    case b5: 1
    obtain q e where q: "skip (tl p) = Some q" "peek q 0 = Some e" using 1(3) b b5
      by (auto simp: parse_value.simps [of ar p] split: bind_splits)
    obtain s' where s: "s = (if e = 0x5D then Inr (compound ar cJSON_Array [], tl q) else s')" "e \<noteq> 0x5D \<Longrightarrow> parse_items ar [] q = Some s'"
      using 1(3) b b5 q by (auto simp: parse_value.simps [of ar p] split: if_splits)
    have "value_ok al h0 prev item nm s (do {
        h \<leftarrow> set_node item (\<lambda>n. n\<lparr>nd_type := cJSON_Array\<rparr>) h;
        if e = 0x5D then Some (Inr (tl q), h)
        else do { let (child, h) = heap_New_Item ar al h;
          h \<leftarrow> set_node item (\<lambda>n. n\<lparr>nd_child := child\<rparr>) h;
          if child = 0 then Some (Inl None, h) else heap_parse ar al (Items child) q h } })"
      using 1(1) [OF b b5 q] s by (intro bracket_law [OF al 1(4)]) auto
    then show ?thesis using b b5 q by (simp add: heap_parse.simps [of ar al "Value item"] cong: if_cong cong del: let_weak_cong)
  next
    case b7: 2
    obtain q e where q: "skip (tl p) = Some q" "peek q 0 = Some e" using 1(3) b b7
      by (auto simp: parse_value.simps [of ar p] split: bind_splits)
    obtain s' where s: "s = (if e = 0x7D then Inr (compound ar cJSON_Object [], tl q) else s')" "e \<noteq> 0x7D \<Longrightarrow> parse_members ar [] q = Some s'"
      using 1(3) b b7 q by (auto simp: parse_value.simps [of ar p] split: if_splits)
    have "value_ok al h0 prev item nm s (do {
        h \<leftarrow> set_node item (\<lambda>n. n\<lparr>nd_type := cJSON_Object\<rparr>) h;
        if e = 0x7D then Some (Inr (tl q), h)
        else do { let (child, h) = heap_New_Item ar al h;
          h \<leftarrow> set_node item (\<lambda>n. n\<lparr>nd_child := child\<rparr>) h;
          if child = 0 then Some (Inl None, h) else heap_parse ar al (Members child) q h } })"
      using 1(2) [OF b _ b7 q] b7 s by (intro bracket_law [OF al 1(4)]) auto
    then show ?thesis using b b7 q by (simp add: heap_parse.simps [of ar al "Value item"] cong: if_cong cong del: let_weak_cong)
  qed
next
  case (2 ar cs p)
  obtain q s1 where q: "skip p = Some q" "parse_value ar q = Some s1"
    using 2(3) by (auto simp: parse_items.simps [of ar cs p] split: bind_splits)
  obtain r h1 c where 1: "heap_parse ar al (Value item) q h = Some (r, h1)" "owns h0 h1 prev [c] item"
    "parse_gives al h0 s1 r (\<lambda>x. cj_string x = None \<and> c = name_item None x)"
    using 2(1) [OF q 2(4)] unfolding value_ok_def by blast
  show ?case
  proof (rule parse_gives_cases [OF 1(3)])
    assume "r = Inl None" "\<not> ample al h0"
    then show ?thesis using q(1) 1(1,2) by (auto simp: heap_parse.simps [of ar al "Items item"] children_ok_def)
  next
    fix ep assume "r = Inl (Some ep)" "s1 = Inl ep"
    then show ?thesis using 2(3) q 1(1,2)
      by (auto simp: heap_parse.simps [of ar al "Items item"] parse_items.simps [of ar cs p] children_ok_def)
  next
    fix x q1 assume x: "r = Inr q1" "s1 = Inr (x, q1)" "cj_string x = None \<and> c = name_item None x"
    then have c: "c = x" by simp
    obtain q2 b where q2: "skip q1 = Some q2" "peek q2 0 = Some b"
      using 2(3) q x(2) by (auto simp: parse_items.simps [of ar cs p] split: bind_splits)
    obtain s' where s: "s = (if b = 0x2C then s' else if b = 0x5D then Inr (compound ar cJSON_Array (cs @ [c]), tl q2) else Inl q2)"
      "b = 0x2C \<Longrightarrow> parse_items ar (cs @ [c]) (tl q2) = Some s'"
      using 2(3) q x(2) q2 c by (auto simp: parse_items.simps [of ar cs p] split: if_splits)
    have "children_ok ar al h0 prev item cJSON_Array cs s
      (if b = 0x2C then (let (new_item, h) = heap_New_Item ar al h1
         in if new_item = 0 then Some (Inl None, h)
            else do { h \<leftarrow> suffix_object item new_item h; heap_parse ar al (Items new_item) (tl q2) h })
       else if b = 0x5D then Some (Inr (tl q2), h1) else Some (Inl (Some q2), h1))"
      using 2(2) [OF q x(2) refl q2] s c by (intro siblings_law [OF al 1(2)]) auto
    then show ?thesis using q(1) 1(1) x(1) q2 by (simp add: heap_parse.simps [of ar al "Items item"])
  qed
next
  case (3 ar cs p)
  obtain q s0 where q: "skip p = Some q" "parse_string q = Some s0"
    using 3(3) by (auto simp: parse_members.simps [of ar cs p] split: bind_splits)
  obtain c0 where c0: "owns h0 h prev [c0] item" using ready_owns [OF 3(4)] by blast
  obtain n where n: "get_node item h = Some n" and g: "grown h0 h [item] []"
    using 3(4) by (auto simp: ready_def text_at_def)
  note unfold = heap_parse.simps [of ar al "Members item"] parse_members.simps [of ar cs p]
  show ?case
  proof (rule heap_parse_string_cases [OF al n q(2)])
    fix ep assume "s0 = Inl ep" "heap_parse_string al item q h = Some (Inl (Some ep), h)"
    then show ?thesis using 3(3) q c0 by (auto simp: unfold children_ok_def)
  next
    assume "heap_parse_string al item q h = Some (Inl None, h)" "\<not> ample al h"
    then show ?thesis using q(1) c0 ample_grown [OF _ g] by (auto simp: unfold children_ok_def)
  next
    fix v q1 out assume s0: "s0 = Inr (v, q1)" and out: "out \<noteq> 0" "hp_texts h out = None"
      and run: "heap_parse_string al item q h = Some (Inr q1, h\<lparr>hp_nodes := (hp_nodes h)(item \<mapsto> n\<lparr>nd_valuestring := out,
        nd_type := cJSON_String\<rparr>), hp_texts := (hp_texts h)(out \<mapsto> v)\<rparr>)"
    obtain h1 where h1: "set_node item (\<lambda>n. n\<lparr>nd_string := nd_valuestring n, nd_valuestring := 0\<rparr>)
        (h\<lparr>hp_nodes := (hp_nodes h)(item \<mapsto> n\<lparr>nd_valuestring := out, nd_type := cJSON_String\<rparr>), hp_texts := (hp_texts h)(out \<mapsto> v)\<rparr>) = Some h1"
      "ready ar h0 h1 prev item (Some v)" using take_name [OF 3(4) n out refl] by blast
    obtain c1 where c1: "owns h0 h1 prev [c1] item" using ready_owns [OF h1(2)] by blast
    obtain q2 b where q2: "skip q1 = Some q2" "peek q2 0 = Some b"
      using 3(3) q s0 by (auto simp: unfold(2) split: bind_splits)
    show ?thesis
    proof (cases "b = 0x3A")
      case False
      then show ?thesis using 3(3) q s0 run h1(1) q2 c1 by (auto simp: unfold children_ok_def)
    next
      case colon: True
      obtain q3 s1 where q3: "skip (tl q2) = Some q3" "parse_value ar q3 = Some s1"
        using 3(3) q s0 q2 colon by (auto simp: unfold(2) split: bind_splits)
      obtain r h2 c where 2: "heap_parse ar al (Value item) q3 h1 = Some (r, h2)" "owns h0 h2 prev [c] item"
        "parse_gives al h0 s1 r (\<lambda>x. cj_string x = None \<and> c = name_item (Some v) x)"
        using 3(1) [OF q s0 refl q2 _ q3 h1(2)] colon unfolding value_ok_def by auto
      show ?thesis
      proof (rule parse_gives_cases [OF 2(3)])
        assume "r = Inl None" "\<not> ample al h0"
        then show ?thesis using q(1) run h1(1) q2 colon q3(1) 2(1,2) by (auto simp: unfold(1) children_ok_def)
      next
        fix ep assume "r = Inl (Some ep)" "s1 = Inl ep"
        then show ?thesis using 3(3) q s0 run h1(1) q2 colon q3 2(1,2) by (auto simp: unfold children_ok_def)
      next
        fix x q4 assume x: "r = Inr q4" "s1 = Inr (x, q4)" "cj_string x = None \<and> c = name_item (Some v) x"
        then have c: "c = rename_item v x" by simp
        obtain q5 b' where q5: "skip q4 = Some q5" "peek q5 0 = Some b'"
          using 3(3) q s0 q2 colon q3 x(2) by (auto simp: unfold(2) split: bind_splits)
        obtain s' where s: "s = (if b' = 0x2C then s' else if b' = 0x7D then Inr (compound ar cJSON_Object (cs @ [c]), tl q5) else Inl q5)"
          "b' = 0x2C \<Longrightarrow> parse_members ar (cs @ [c]) (tl q5) = Some s'"
          using 3(3) q s0 q2 colon q3 x(2) q5 c by (auto simp: unfold(2) split: if_splits)
        have "children_ok ar al h0 prev item cJSON_Object cs s
          (if b' = 0x2C then (let (new_item, h) = heap_New_Item ar al h2
             in if new_item = 0 then Some (Inl None, h)
                else do { h \<leftarrow> suffix_object item new_item h; heap_parse ar al (Members new_item) (tl q5) h })
           else if b' = 0x7D then Some (Inr (tl q5), h2) else Some (Inl (Some q5), h2))"
          using 3(2) [OF q s0 refl q2 _ q3 x(2) refl q5] colon s c by (intro siblings_law [OF al 2(2)]) auto
        then show ?thesis using q(1) run h1(1) q2 colon q3(1) 2(1) x(1) q5 by (simp add: unfold(1))
      qed
    qed
  qed
qed

text \<open>The root belongs to no chain; without a result, what has been built is deleted.\<close>

lemma heap_ParseWithOpts_law:
  assumes al: "fresh_laws al" and parse: "cJSON_ParseWithOpts ar text req = Some s"
  shows "\<exists>r h'. heap_ParseWithOpts ar al text req h = Some (r, h') \<and>
    (case r of
       Inl None \<Rightarrow> h' = h \<and> \<not> ample al h
     | Inl (Some ep) \<Rightarrow> h' = h \<and> s = Inl ep
     | Inr (c, q) \<Rightarrow> \<exists>t xs us. s = Inr (t, q) \<and> item_at h' c t xs us \<and> grown h h' xs us)"
proof (rule New_Item_cases [where ar = ar and h = h, OF al])
  assume "heap_New_Item ar al h = (0, h)" "\<not> ample al h"
  then show ?thesis by (simp add: heap_ParseWithOpts_def)
next
  fix c assume c: "c \<noteq> 0" "hp_nodes h c = None" "heap_New_Item ar al h = (c, h\<lparr>hp_nodes := (hp_nodes h)(c \<mapsto> blank ar 0 0 0)\<rparr>)"
  let ?h = "h\<lparr>hp_nodes := (hp_nodes h)(c \<mapsto> blank ar 0 0 0)\<rparr>"
  have ready: "ready ar h ?h 0 c None" unfolding ready_def
    using c(1,2) by (intro exI [of _ 0]) (simp add: grown_def)
  obtain p s1 where p: "skip text = Some p" "parse_value ar p = Some s1"
    using parse by (auto simp: cJSON_ParseWithOpts_def split: bind_splits)
  obtain r h1 t where 1: "heap_parse ar al (Value c) p ?h = Some (r, h1)" "owns h h1 0 [t] c"
    "parse_gives al h s1 r (\<lambda>x. cj_string x = None \<and> t = name_item None x)"
    using heap_parse_law(1) [OF al p(2) ready] unfolding value_ok_def by blast
  obtain xs us l where t: "chain h1 0 [t] c = Some (xs, us, l, 0)" "distinct xs" "distinct us" "grown h h1 xs us"
    using 1(2) unfolding owns_def by blast
  then have item: "item_at h1 c t xs us" using chain_one [OF t(1)] by (simp add: item_at_def)
  have del: "heap_Delete c h1 = Some h" by (rule give_up [OF item t(4)])
  show ?thesis
  proof (rule parse_gives_cases [OF 1(3)])
    assume "r = Inl None" "\<not> ample al h"
    then show ?thesis using c(1,3) p(1) 1(1) del by (simp add: heap_ParseWithOpts_def)
  next
    fix ep assume "r = Inl (Some ep)" "s1 = Inl ep"
    then show ?thesis using parse c(1,3) p 1(1) del by (simp add: heap_ParseWithOpts_def cJSON_ParseWithOpts_def)
  next
    fix x q assume x: "r = Inr q" "s1 = Inr (x, q)" "cj_string x = None \<and> t = name_item None x"
    then have tx: "t = x" by simp
    show ?thesis
    proof (cases req)
      case False
      then show ?thesis using parse c(1,3) p 1(1) x(1,2) item t(4) tx
        by (auto simp: heap_ParseWithOpts_def cJSON_ParseWithOpts_def)
    next
      case True
      then obtain q1 b where q1: "skip q = Some q1" "peek q1 0 = Some b"
        using parse p x(2) by (auto simp: cJSON_ParseWithOpts_def split: bind_splits)
      then show ?thesis using True parse c(1,3) p 1(1) x(1,2) item t(4) tx del
        by (cases "b = 0") (auto simp: heap_ParseWithOpts_def cJSON_ParseWithOpts_def)
    qed
  qed
qed

end
