(* ===== verification/Cjson_Heap_Print.thy ===== *)
theory Cjson_Heap_Print
  imports Cjson_Copies Cjson_Print_Facts
begin

text \<open>
  The printer of \<open>src/cJSON.c\<close> in memory: the texts of the elements are strings of their own until the text of the
  whole has been composed, and each of them is freed, whether the printer succeeds or runs out of memory.
\<close>

subsection \<open>Strings and arrays of strings\<close>

text \<open>Besides nodes and strings there are the arrays of pointers \<open>entries\<close> and \<open>names\<close>, with an allocator of their own.\<close>

type_synonym arrays = "nat \<Rightarrow> nat list option"

definition new_array :: "(arrays \<Rightarrow> nat) \<Rightarrow> nat \<Rightarrow> arrays \<Rightarrow> nat \<times> arrays" where
  "new_array aa n arrs = (let a = aa arrs in if a = 0 then (0, arrs) else (a, arrs(a \<mapsto> replicate n 0)))"

definition set_entry :: "nat \<Rightarrow> nat \<Rightarrow> nat \<Rightarrow> arrays \<Rightarrow> arrays option" where
  "set_entry a i p arrs = do { ps \<leftarrow> arrs a; if a \<noteq> 0 \<and> i < length ps then Some (arrs(a \<mapsto> ps[i := p])) else None }"

definition free_array :: "nat \<Rightarrow> arrays \<Rightarrow> arrays option" where
  "free_array a arrs = (if a = 0 \<or> arrs a = None then None else Some (arrs(a := None)))"

text \<open>A string in memory of its own; \<open>text\<close> is undefined if it does not fit what is allocated for it.\<close>

definition heap_output :: "'d allocator \<Rightarrow> u8 list option \<Rightarrow> 'd heap \<Rightarrow> (nat \<times> 'd heap) option" where
  "heap_output al text h =
     (let p = al_text al (hp_texts h)
      in if p = 0 then Some (0, h) else do { t \<leftarrow> text; Some (p, h\<lparr>hp_texts := (hp_texts h)(p \<mapsto> t @ [0])\<rparr>) })"

definition heap_print_string_ptr :: "'d allocator \<Rightarrow> nat \<Rightarrow> 'd heap \<Rightarrow> (nat \<times> 'd heap) option" where
  "heap_print_string_ptr al p h = do {
     str \<leftarrow> read_text p h;
     out \<leftarrow> print_string_ptr str;
     heap_output al (Some (cstr out)) h
   }"

definition text_of :: "'d heap \<Rightarrow> nat \<Rightarrow> u8 list option" where
  "text_of h p = (if p = 0 then None else map_option cstr (hp_texts h p))"

fun free_texts :: "nat list \<Rightarrow> 'd heap \<Rightarrow> 'd heap option" where
  "free_texts [] h = Some h"
| "free_texts (p # ps) h = do { h \<leftarrow> (if p \<noteq> 0 then free_text p h else Some h); free_texts ps h }"

text \<open>The loop that counts the elements.\<close>

partial_function (option) count_siblings :: "nat \<Rightarrow> nat \<Rightarrow> 'd heap \<Rightarrow> nat option" where
  [code]: "count_siblings n c h =
     (if c = 0 then Some n else do { k \<leftarrow> get_node c h; count_siblings (n + 1) (nd_next k) h })"

text \<open>
  What \<open>print_array\<close> and \<open>print_object\<close> do when the entries have been printed: \<open>len\<close> is the size of the text, 0 if
  an entry is missing (\<open>fail\<close>).
\<close>

definition finish_array :: "'d allocator \<Rightarrow> bool \<Rightarrow> nat \<Rightarrow> nat list \<Rightarrow> 'd heap \<Rightarrow> (nat \<times> 'd heap) option" where
  "finish_array al fmt len entries h =
     (let out = (if len = 0 then 0 else al_text al (hp_texts h))
      in if out = 0 then do { h \<leftarrow> free_texts entries h; Some (0, h) }
         else do {
           es \<leftarrow> those (map (text_of h) entries);
           t \<leftarrow> sprintf len ([0x5B] @ compose_items fmt es @ [0x5D]);
           h \<leftarrow> free_texts entries (h\<lparr>hp_texts := (hp_texts h)(out \<mapsto> t @ [0])\<rparr>);
           Some (out, h)
         })"

text \<open>Names and entries are freed in turn.\<close>

definition in_turn :: "nat list \<Rightarrow> nat list \<Rightarrow> nat list" where
  "in_turn names entries = concat (map (\<lambda>(n, e). [n, e]) (zip names entries))"

definition finish_object ::
  "'d allocator \<Rightarrow> bool \<Rightarrow> nat \<Rightarrow> nat \<Rightarrow> nat list \<Rightarrow> nat list \<Rightarrow> 'd heap \<Rightarrow> (nat \<times> 'd heap) option" where
  "finish_object al fmt depth len names entries h =
     (let out = (if len = 0 then 0 else al_text al (hp_texts h))
      in if out = 0 then do { h \<leftarrow> free_texts (in_turn names entries) h; Some (0, h) }
         else do {
           ns \<leftarrow> those (map (text_of h) names);
           es \<leftarrow> those (map (text_of h) entries);
           t \<leftarrow> sprintf len ([0x7B] @ when_fmt fmt [0x0A] @ compose_members fmt depth (zip ns es) @
             when_fmt fmt (replicate (depth - 1) 0x09) @ [0x7D]);
           h \<leftarrow> free_texts (in_turn names entries) (h\<lparr>hp_texts := (hp_texts h)(out \<mapsto> t @ [0])\<rparr>);
           Some (out, h)
         })"

subsection \<open>Values\<close>

text \<open>
  \<open>print_value\<close> of an item at a depth, which returns the string or the null pointer; and the loops of \<open>print_array\<close>
  and \<open>print_object\<close>, from a child on, at index \<open>i\<close> of their arrays, which return the size, 0 after a failure. The
  first one stops at an element that cannot be printed, the second one does not.
\<close>

datatype print_call =
    Print nat nat
  | PrintItems nat nat nat nat nat
  | PrintMembers nat nat nat nat nat nat bool

text \<open>What does not change while printing: the formats, the allocators and \<open>fmt\<close>.\<close>

record 'd print_env =
  pe_pr :: "'d printer"
  pe_al :: "'d allocator"
  pe_aa :: "arrays \<Rightarrow> nat"
  pe_fmt :: bool

definition keeping :: "arrays \<Rightarrow> (nat \<times> 'd heap) option \<Rightarrow> (nat \<times> 'd heap \<times> arrays) option" where
  "keeping arrs r = map_option (\<lambda>(p, h). (p, h, arrs)) r"

partial_function (option) heap_print ::
  "'d print_env \<times> print_call \<times> 'd heap \<times> arrays \<Rightarrow> (nat \<times> 'd heap \<times> arrays) option" where
  [code]: "heap_print x = (case x of (pe, call, h, arrs) \<Rightarrow> (case call of
     Print item depth \<Rightarrow> do {
       n \<leftarrow> get_node item h;
       let t = take_bit 8 (nd_type n);
       if t = cJSON_NULL then keeping arrs (heap_output (pe_al pe) (Some (ascii ''null'')) h)
       else if t = cJSON_False then keeping arrs (heap_output (pe_al pe) (Some (ascii ''false'')) h)
       else if t = cJSON_True then keeping arrs (heap_output (pe_al pe) (Some (ascii ''true'')) h)
       else if t = cJSON_Number then keeping arrs (heap_output (pe_al pe) (print_number (pe_pr pe) (nd_valueint n) (nd_valuedouble n)) h)
       else if t = cJSON_String then keeping arrs (heap_print_string_ptr (pe_al pe) (nd_valuestring n) h)
       else if t = cJSON_Array then do {
         numentries \<leftarrow> count_siblings 0 (nd_child n) h;
         if numentries = 0 then keeping arrs (heap_output (pe_al pe) (print_array (pe_fmt pe) []) h)
         else do {
           let (entries, arrs) = new_array (pe_aa pe) numentries arrs;
           if entries = 0 then Some (0, h, arrs)
           else do {
             (len, h, arrs) \<leftarrow> heap_print (pe, PrintItems (nd_child n) (depth + 1) entries 0 5, h, arrs);
             es \<leftarrow> arrs entries;
             (out, h) \<leftarrow> finish_array (pe_al pe) (pe_fmt pe) len es h;
             arrs \<leftarrow> free_array entries arrs;
             Some (out, h, arrs)
           }
         }
       }
       else if t = cJSON_Object then do {
         numentries \<leftarrow> count_siblings 0 (nd_child n) h;
         if numentries = 0 then keeping arrs (heap_output (pe_al pe) (print_object (pe_fmt pe) depth []) h)
         else do {
           let (entries, arrs) = new_array (pe_aa pe) numentries arrs;
           if entries = 0 then Some (0, h, arrs)
           else do {
             let (names, arrs) = new_array (pe_aa pe) numentries arrs;
             if names = 0 then do { arrs \<leftarrow> free_array entries arrs; Some (0, h, arrs) }
             else do {
               (len, h, arrs) \<leftarrow> heap_print
                 (pe, PrintMembers (nd_child n) (depth + 1) entries names 0 (7 + (if pe_fmt pe then depth + 1 else 0)) False, h, arrs);
               ns \<leftarrow> arrs names;
               es \<leftarrow> arrs entries;
               (out, h) \<leftarrow> finish_object (pe_al pe) (pe_fmt pe) (depth + 1) len ns es h;
               arrs \<leftarrow> free_array names arrs;
               arrs \<leftarrow> free_array entries arrs;
               Some (out, h, arrs)
             }
           }
         }
       }
       else Some (0, h, arrs)
     }
   | PrintItems child depth entries i len \<Rightarrow>
       if child = 0 then Some (len, h, arrs)
       else do {
         (ret, h, arrs) \<leftarrow> heap_print (pe, Print child depth, h, arrs);
         arrs \<leftarrow> set_entry entries i ret arrs;
         if ret = 0 then Some (0, h, arrs)
         else do {
           e \<leftarrow> text_of h ret;
           n \<leftarrow> get_node child h;
           heap_print
             (pe, PrintItems (nd_next n) depth entries (i + 1) (len + length e + 2 + (if pe_fmt pe then 1 else 0)), h, arrs)
         }
       }
   | PrintMembers child depth entries names i len fail \<Rightarrow>
       if child = 0 then Some (if fail then 0 else len, h, arrs)
       else do {
         n \<leftarrow> get_node child h;
         (str, h) \<leftarrow> heap_print_string_ptr (pe_al pe) (nd_string n) h;
         arrs \<leftarrow> set_entry names i str arrs;
         (ret, h, arrs) \<leftarrow> heap_print (pe, Print child depth, h, arrs);
         arrs \<leftarrow> set_entry entries i ret arrs;
         if str \<noteq> 0 \<and> ret \<noteq> 0 then do {
           s \<leftarrow> text_of h str;
           e \<leftarrow> text_of h ret;
           heap_print (pe, PrintMembers (nd_next n) depth entries names (i + 1)
             (len + length e + length s + 2 + (if pe_fmt pe then 2 + depth else 0)) fail, h, arrs)
         }
         else heap_print (pe, PrintMembers (nd_next n) depth entries names (i + 1) len True, h, arrs)
       }))"

definition heap_Print ::
  "'d printer \<Rightarrow> 'd allocator \<Rightarrow> (arrays \<Rightarrow> nat) \<Rightarrow> nat \<Rightarrow> 'd heap \<Rightarrow> arrays \<Rightarrow> (nat \<times> 'd heap \<times> arrays) option" where
  "heap_Print pr al aa item h arrs =
     (if item = 0 then Some (0, h, arrs)
      else heap_print (\<lparr>pe_pr = pr, pe_al = al, pe_aa = aa, pe_fmt = True\<rparr>, Print item 0, h, arrs))"

definition heap_PrintUnformatted ::
  "'d printer \<Rightarrow> 'd allocator \<Rightarrow> (arrays \<Rightarrow> nat) \<Rightarrow> nat \<Rightarrow> 'd heap \<Rightarrow> arrays \<Rightarrow> (nat \<times> 'd heap \<times> arrays) option" where
  "heap_PrintUnformatted pr al aa item h arrs =
     (if item = 0 then Some (0, h, arrs)
      else heap_print (\<lparr>pe_pr = pr, pe_al = al, pe_aa = aa, pe_fmt = False\<rparr>, Print item 0, h, arrs))"

subsection \<open>Strings that are held while printing\<close>

definition ptrs :: "nat list \<Rightarrow> nat list" where
  "ptrs ps = filter (\<lambda>p. p \<noteq> 0) ps"

lemma ptrs_simps [simp]: "ptrs [] = []" "ptrs (p # ps) = (if p = 0 then ptrs ps else p # ptrs ps)"
  "ptrs (ps @ qs) = ptrs ps @ ptrs qs" "0 \<notin> set (ptrs ps)"
  by (simp_all add: ptrs_def)

text \<open>Since \<open>h\<close>, exactly the strings of \<open>ps\<close> have been allocated, but for null pointers.\<close>

definition held :: "'d heap \<Rightarrow> 'd heap \<Rightarrow> nat list \<Rightarrow> bool" where
  "held h h' ps \<longleftrightarrow> grown h h' [] (ptrs ps) \<and> distinct (ptrs ps) \<and> (\<forall>q \<in> set (ptrs ps). hp_texts h' q \<noteq> None)"

lemma held_none: "held h h []"
  by (simp add: held_def grown_none)

lemma held_append:
  assumes "held h h1 ps" and "held h1 h2 qs"
  shows "held h h2 (ps @ qs)"
proof -
  have "grown h h2 ([] @ []) (ptrs ps @ ptrs qs)" using assms grown_more unfolding held_def by blast
  moreover have old: "hp_texts h1 q = None" if "q \<in> set (ptrs qs)" for q
    using that assms(2) by (auto simp: held_def grown_def split: if_splits)
  then have "set (ptrs ps) \<inter> set (ptrs qs) = {}" using assms(1) unfolding held_def by fastforce
  moreover from this have "hp_texts h2 q = hp_texts h1 q" if "q \<in> set (ptrs ps)" for q
    using that assms(2) unfolding held_def grown_def by (metis disjoint_iff)
  ultimately show ?thesis using assms unfolding held_def by auto
qed

lemma free_texts_without:
  "distinct (ptrs ps) \<Longrightarrow> \<forall>q \<in> set (ptrs ps). hp_texts h q \<noteq> None \<Longrightarrow> free_texts ps h = Some (without h [] (ptrs ps))"
proof (induction ps arbitrary: h)
  case (Cons p ps)
  show ?case
  proof (cases "p = 0")
    case False
    then have "free_text p h = Some (without h [] [p])"
      using Cons.prems by (auto simp: free_text_def without_def restrict_map_def fun_eq_iff)
    moreover have "free_texts ps (without h [] [p]) = Some (without (without h [] [p]) [] (ptrs ps))"
      using Cons.prems False by (intro Cons.IH) auto
    ultimately show ?thesis using False by simp
  qed (use Cons in simp)
qed simp

lemma held_free: "held h h' ps \<Longrightarrow> free_texts ps h' = Some h"
  using free_texts_without [of ps h'] grown_undo [of h h' "[]" "ptrs ps"] by (simp add: held_def)

text \<open>Freeing them leaves the text that has been composed.\<close>

lemma held_free_out:
  assumes "held h h' ps" and "hp_texts h' out = None"
  shows "free_texts ps (h'\<lparr>hp_texts := (hp_texts h')(out \<mapsto> t)\<rparr>) = Some (h\<lparr>hp_texts := (hp_texts h)(out \<mapsto> t)\<rparr>)" "hp_texts h out = None"
proof -
  have "out \<notin> set (ptrs ps)" using assms by (auto simp: held_def)
  then have "held (h\<lparr>hp_texts := (hp_texts h)(out \<mapsto> t)\<rparr>) (h'\<lparr>hp_texts := (hp_texts h')(out \<mapsto> t)\<rparr>) ps"
    using assms(1) by (auto simp: held_def grown_def)
  then show "free_texts ps (h'\<lparr>hp_texts := (hp_texts h')(out \<mapsto> t)\<rparr>) = Some (h\<lparr>hp_texts := (hp_texts h)(out \<mapsto> t)\<rparr>)"
    by (rule held_free)
  show "hp_texts h out = None" using assms \<open>out \<notin> set (ptrs ps)\<close> by (simp add: held_def grown_def split: if_splits)
qed

lemma held_text: "held h h' ps \<Longrightarrow> text_of h q = Some t \<Longrightarrow> text_of h' q = Some t"
  by (cases "q \<in> set (ptrs ps)") (auto simp: held_def grown_def text_of_def split: if_splits)

lemma held_texts: "held h h' ps \<Longrightarrow> those (map (text_of h) qs) = Some ts \<Longrightarrow> those (map (text_of h') qs) = Some ts"
  by (induction qs arbitrary: ts) (auto simp: held_text split: option.splits)

lemma held_chain: "held h h' ps \<Longrightarrow> chain h prev cs p = Some (xs, ts, l, e) \<Longrightarrow> chain h' prev cs p = Some (xs, ts, l, e)"
  unfolding held_def using grown_apart(3) by blast

lemma held_node: "held h h' ps \<Longrightarrow> get_node p h = Some n \<Longrightarrow> get_node p h' = Some n"
  unfolding held_def using grown_node by blast

subsection \<open>The printer refines the printer of trees\<close>

text \<open>Memory for all that is asked for; and allocators that give out what is free.\<close>

definition plenty :: "'d print_env \<Rightarrow> 'd heap \<Rightarrow> arrays \<Rightarrow> bool" where
  "plenty pe h arrs \<longleftrightarrow> ample (pe_al pe) h \<and> (\<forall>f. finite (dom f) \<longrightarrow> pe_aa pe f \<noteq> 0) \<and> finite (dom arrs)"

definition fresh_env :: "'d print_env \<Rightarrow> bool" where
  "fresh_env pe \<longleftrightarrow> fresh_laws (pe_al pe) \<and> (\<forall>f. pe_aa pe f \<noteq> 0 \<longrightarrow> f (pe_aa pe f) = None)"

lemma plenty_held: "plenty pe h arrs \<Longrightarrow> held h h' ps \<Longrightarrow> finite (dom arrs) \<longrightarrow> finite (dom arrs') \<Longrightarrow> plenty pe h' arrs'"
  unfolding plenty_def held_def using ample_grown by blast

text \<open>The string of a value, or the null pointer with nothing changed.\<close>

definition text_given :: "bool \<Rightarrow> 'd heap \<Rightarrow> u8 list option \<Rightarrow> nat \<Rightarrow> 'd heap \<Rightarrow> bool" where
  "text_given full h res p h' \<longleftrightarrow> (p = 0 \<and> h' = h \<and> (res = None \<or> full)) \<or>
     (p \<noteq> 0 \<and> hp_texts h p = None \<and> (\<exists>t. res = Some t \<and> h' = h\<lparr>hp_texts := (hp_texts h)(p \<mapsto> t @ [0])\<rparr>))"

definition print_ok :: "'d print_env \<Rightarrow> 'd heap \<Rightarrow> arrays \<Rightarrow> u8 list option \<Rightarrow> (nat \<times> 'd heap \<times> arrays) option \<Rightarrow> bool" where
  "print_ok pe h arrs res run \<longleftrightarrow> (\<exists>p h'. run = Some (p, h', arrs) \<and> text_given (\<not> plenty pe h arrs) h res p h')"

lemma text_given_held: "text_given full h res p h' \<Longrightarrow> held h h' [p]"
  by (auto simp: text_given_def held_def grown_def)

lemma cstr_text: "0 \<notin> set t \<Longrightarrow> cstr (t @ [0]) = t"
  by (simp add: cstr_def takeWhile_append takeWhile_eq_all_conv)

lemma text_given_text: "text_given full h (Some t) p h' \<Longrightarrow> p \<noteq> 0 \<Longrightarrow> 0 \<notin> set t \<Longrightarrow> text_of h' p = Some t"
  by (auto simp: text_given_def text_of_def cstr_text)

lemma output_law:
  assumes "fresh_env pe"
  shows "\<exists>p h'. heap_output (pe_al pe) (Some t) h = Some (p, h') \<and> text_given (\<not> plenty pe h arrs) h (Some t) p h'"
proof (cases "al_text (pe_al pe) (hp_texts h) = 0")
  case True
  then have "\<not> plenty pe h arrs" by (auto simp: plenty_def ample_def has_memory_def)
  with True show ?thesis by (simp add: heap_output_def text_given_def)
next
  case False
  then have "hp_texts h (al_text (pe_al pe) (hp_texts h)) = None" using assms by (simp add: fresh_env_def fresh_laws_def)
  with False show ?thesis by (simp add: heap_output_def text_given_def Let_def)
qed

lemma keeping_output: "fresh_env pe \<Longrightarrow> print_ok pe h arrs (Some t) (keeping arrs (heap_output (pe_al pe) (Some t) h))"
  using output_law [of pe t h arrs] by (auto simp: print_ok_def keeping_def)

lemma output_string_law:
  assumes "fresh_env pe" and "text_at h p v" and "print_string_ptr v = Some out"
  shows "heap_print_string_ptr (pe_al pe) p h = heap_output (pe_al pe) (Some (cstr out)) h"
  using assms by (cases v) (auto simp: heap_print_string_ptr_def read_text_def text_at_def)

lemma count_siblings_law:
  "chain h prev cs p = Some (xs, ts, l, 0) \<Longrightarrow> count_siblings n p h = Some (n + length cs)"
proof (induction cs arbitrary: prev p xs ts n)
  case Nil
  then show ?case by (subst count_siblings.simps) simp
next
  case (Cons c cs)
  obtain k ks kt m bs us where k: "get_node p h = Some k" "chain h p cs (nd_next k) = Some (bs, us, l, 0)"
    by (rule chain_ConsE [OF Cons(2)])
  then have "p \<noteq> 0" by (simp add: get_node_Some)
  with k Cons.IH [OF k(2)] show ?case by (subst count_siblings.simps) simp
qed

text \<open>What is printed has no NUL.\<close>

lemma number_bytes: "list_all number_byte bs \<Longrightarrow> 0 \<notin> set bs"
  by (auto simp: list_all_iff number_byte_def)

lemma ascii_words: "0 \<notin> set (ascii ''null'')" "0 \<notin> set (ascii ''false'')" "0 \<notin> set (ascii ''true'')"
  by (simp_all add: ascii_def)

lemma compose_nonzero: "\<forall>e \<in> set es. 0 \<notin> set e \<Longrightarrow> 0 \<notin> set (compose_items fmt es)"
  "\<forall>(n, e) \<in> set ms. 0 \<notin> set n \<and> 0 \<notin> set e \<Longrightarrow> 0 \<notin> set (compose_members fmt depth ms)"
proof -
  show "\<forall>e \<in> set es. 0 \<notin> set e \<Longrightarrow> 0 \<notin> set (compose_items fmt es)" by (induction es) (auto simp: when_fmt_def)
  show "\<forall>(n, e) \<in> set ms. 0 \<notin> set n \<and> 0 \<notin> set e \<Longrightarrow> 0 \<notin> set (compose_members fmt depth ms)"
    by (induction ms) (auto simp: when_fmt_def split: if_splits)
qed

lemma cstr_nonzero: "0 \<notin> set (cstr s)"
  by (auto simp: cstr_def dest: set_takeWhileD)

lemma print_nonzero:
  shows "formats_ok pr \<Longrightarrow> terminated c \<Longrightarrow> print_value pr c depth fmt = Some (Some t) \<Longrightarrow> 0 \<notin> set t"
    and "formats_ok pr \<Longrightarrow> \<forall>c \<in> set cs. terminated c \<Longrightarrow> print_items pr cs depth fmt = Some (Some es) \<Longrightarrow> \<forall>e \<in> set es. 0 \<notin> set e"
    and "formats_ok pr \<Longrightarrow> \<forall>c \<in> set cs. terminated c \<Longrightarrow> print_members pr cs depth fmt = Some (Some ms) \<Longrightarrow>
      \<forall>(n, e) \<in> set ms. 0 \<notin> set n \<and> 0 \<notin> set e"
proof (induction pr c depth fmt and pr cs depth fmt and pr cs depth fmt arbitrary: t and es and ms
    rule: print_value_print_items_print_members.induct)
  case (1 pr ty vs i d nm cs depth fmt)
  obtain n where n: "print_number pr i d = Some n" "0 \<notin> set n"
    using print_number_text [OF 1(3), of i d] 1(4) number_bytes by auto
  have i: "0 \<notin> set t" if "print_items pr cs (depth + 1) fmt = Some (Some es)" "print_array fmt es = Some t"
    "take_bit 8 ty = cJSON_Array" for es
    using 1(1) [OF refl _ _ _ _ _ _ 1(3) _ that(1)] that(2,3) 1(4) by (auto simp: print_array_eq compose_nonzero cJSON_types)
  have m: "0 \<notin> set t" if "print_members pr cs (depth + 1) fmt = Some (Some es)" "print_object fmt depth es = Some t"
    "take_bit 8 ty = cJSON_Object" for es
    using 1(2) [OF refl _ _ _ _ _ _ _ 1(3) _ that(1)] that(2,3) 1(4)
    by (auto simp: print_object_eq object_text_def compose_nonzero when_fmt_def cJSON_types)
  show ?case
    using 1(5) n ascii_words i m
    by (auto simp: Let_def cstr_nonzero split: if_splits bind_splits option.splits)
next
  case (3 pr c cs depth fmt)
  then show ?case by (auto split: bind_splits option.splits)
next
  case (5 pr c cs depth fmt)
  then show ?case by (fastforce simp: cstr_nonzero split: bind_splits option.splits)
qed auto

text \<open>The sizes that the loops add up are enough for the texts.\<close>

fun items_size :: "bool \<Rightarrow> u8 list list \<Rightarrow> nat" where
  "items_size fmt [] = 0"
| "items_size fmt (e # es) = length e + 2 + (if fmt then 1 else 0) + items_size fmt es"

fun members_size :: "bool \<Rightarrow> nat \<Rightarrow> (u8 list \<times> u8 list) list \<Rightarrow> nat" where
  "members_size fmt depth [] = 0"
| "members_size fmt depth ((name, e) # ms) = length e + length name + 2 + (if fmt then 2 + depth else 0) + members_size fmt depth ms"

lemma sprintf_array: "sprintf (5 + items_size fmt es) ([0x5B] @ compose_items fmt es @ [0x5D]) = Some ([0x5B] @ compose_items fmt es @ [0x5D])"
proof -
  have "length (compose_items fmt es) \<le> items_size fmt es" by (induction es) (auto simp: when_fmt_def)
  then show ?thesis by (simp add: sprintf_def)
qed

lemma sprintf_object:
  assumes "ms \<noteq> []"
  shows "sprintf (7 + (if fmt then depth + 1 else 0) + members_size fmt (depth + 1) ms) ([0x7B] @ when_fmt fmt [0x0A] @
      compose_members fmt (depth + 1) ms @ when_fmt fmt (replicate depth 0x09) @ [0x7D]) = Some (object_text fmt depth ms)"
proof -
  have "length (compose_members fmt (depth + 1) ms) \<le> members_size fmt (depth + 1) ms"
    by (induction fmt "depth + 1" ms rule: members_size.induct) (auto simp: when_fmt_def)
  then show ?thesis using assms by (auto simp: sprintf_def object_text_def when_fmt_def)
qed

text \<open>The text of the whole: the strings it is made of are freed, whether there is memory for it or not.\<close>

lemma finish_law:
  fixes len :: nat
  assumes fresh: "fresh_env pe" and held: "held h h' qs"
    and run: "finish = (let out = (if len = 0 then 0 else al_text (pe_al pe) (hp_texts h'))
      in if out = 0 then do { h \<leftarrow> free_texts qs h'; Some (0, h) }
         else do {
           t \<leftarrow> whole;
           h \<leftarrow> free_texts qs (h'\<lparr>hp_texts := (hp_texts h')(out \<mapsto> t @ [0])\<rparr>);
           Some (out, h)
         })"
    and len: "len = 0 \<and> (res = None \<or> \<not> plenty pe h arrs) \<or> 0 < len \<and> whole = res \<and> res \<noteq> None"
  shows "\<exists>p h2. finish = Some (p, h2) \<and> text_given (\<not> plenty pe h arrs) h res p h2"
proof (cases "len = 0")
  case True
  then show ?thesis using run len held_free [OF held] by (auto simp: text_given_def)
next
  case False
  then obtain t where t: "whole = Some t" "res = Some t" using len by auto
  let ?out = "al_text (pe_al pe) (hp_texts h')"
  show ?thesis
  proof (cases "?out = 0")
    case full: True
    then have "\<not> plenty pe h' arrs" by (auto simp: plenty_def ample_def has_memory_def)
    then have "\<not> plenty pe h arrs" using plenty_held [OF _ held] by blast
    then show ?thesis using run full held_free [OF held] by (simp add: text_given_def)
  next
    case ok: False
    then have "hp_texts h' ?out = None" using fresh by (simp add: fresh_env_def fresh_laws_def)
    from held_free_out [OF held this] show ?thesis using run False ok t by (simp add: text_given_def Let_def)
  qed
qed

lemma finish_array_law:
  assumes fresh: "fresh_env pe" and held: "held h h' qs"
    and len: "len = 0 \<and> (res = None \<or> \<not> plenty pe h arrs) \<or>
      (\<exists>es. res = Some es \<and> es \<noteq> [] \<and> len = 5 + items_size fmt es \<and>
         those (map (text_of h') qs) = Some es)"
  shows "\<exists>p h2. finish_array (pe_al pe) fmt len qs h' = Some (p, h2) \<and>
    text_given (\<not> plenty pe h arrs) h (map_option (\<lambda>es. [0x5B] @ compose_items fmt es @ [0x5D]) res) p h2"
proof -
  let ?text = "do { es \<leftarrow> those (map (text_of h') qs); sprintf len ([0x5B] @ compose_items fmt es @ [0x5D]) }"
  have "len = 0 \<and> (res = None \<or> \<not> plenty pe h arrs) \<or> 0 < len \<and> ?text = map_option (\<lambda>es. [0x5B] @ compose_items fmt es @ [0x5D]) res \<and>
      res \<noteq> None"
    using len sprintf_array [of fmt] by auto
  then show ?thesis by (intro finish_law [OF fresh held, where whole = ?text and len = len]) (simp_all only: finish_array_def Let_def bind_assoc option.map_disc_iff)
qed

lemma finish_object_law:
  assumes fresh: "fresh_env pe" and held: "held h h' (in_turn ns es)"
    and len: "len = 0 \<and> (res = None \<or> \<not> plenty pe h arrs) \<or>
      (\<exists>ms. res = Some ms \<and> ms \<noteq> [] \<and> len = 7 + (if fmt then depth + 1 else 0) + members_size fmt (depth + 1) ms \<and>
         those (map (text_of h') ns) = Some (map fst ms) \<and> those (map (text_of h') es) = Some (map snd ms))"
  shows "\<exists>p h2. finish_object (pe_al pe) fmt (depth + 1) len ns es h' = Some (p, h2) \<and>
    text_given (\<not> plenty pe h arrs) h (map_option (object_text fmt depth) res) p h2"
proof -
  let ?text = "do {
    ns \<leftarrow> those (map (text_of h') ns);
    es \<leftarrow> those (map (text_of h') es);
    sprintf len ([0x7B] @ when_fmt fmt [0x0A] @ compose_members fmt (depth + 1) (zip ns es) @
      when_fmt fmt (replicate (depth + 1 - 1) 0x09) @ [0x7D]) }"
  have "len = 0 \<and> (res = None \<or> \<not> plenty pe h arrs) \<or> 0 < len \<and> ?text = map_option (object_text fmt depth) res \<and> res \<noteq> None"
    using len sprintf_object [of _ fmt depth] by (auto simp: zip_map_fst_snd)
  then show ?thesis by (intro finish_law [OF fresh held, where whole = ?text and len = len]) (simp_all only: finish_object_def Let_def bind_assoc option.map_disc_iff)
qed

subsubsection \<open>The loops\<close>

definition items_ok ::
  "'d print_env \<Rightarrow> 'd heap \<Rightarrow> arrays \<Rightarrow> nat \<Rightarrow> nat list \<Rightarrow> nat \<Rightarrow> nat \<Rightarrow> u8 list list option \<Rightarrow> (nat \<times> 'd heap \<times> arrays) option \<Rightarrow> bool" where
  "items_ok pe h arrs entries ps n len res run \<longleftrightarrow> (\<exists>len' h' qs. run = Some (len', h', arrs(entries \<mapsto> ps @ qs)) \<and> length qs = n \<and>
     held h h' qs \<and>
     (len' = 0 \<and> (res = None \<or> \<not> plenty pe h arrs) \<or>
      (\<exists>es. res = Some es \<and> len' = len + items_size (pe_fmt pe) es \<and>
         those (map (text_of h') qs) = Some es)))"

definition members_ok ::
  "'d print_env \<Rightarrow> 'd heap \<Rightarrow> arrays \<Rightarrow> nat \<Rightarrow> nat \<Rightarrow> nat list \<Rightarrow> nat list \<Rightarrow> nat \<Rightarrow> nat \<Rightarrow> nat \<Rightarrow> bool \<Rightarrow> (u8 list \<times> u8 list) list option \<Rightarrow>
    (nat \<times> 'd heap \<times> arrays) option \<Rightarrow> bool" where
  "members_ok pe h arrs names entries ps ps' n depth len fail res run \<longleftrightarrow>
    (\<exists>len' h' ns es. run = Some (len', h', arrs(names \<mapsto> ps @ ns, entries \<mapsto> ps' @ es)) \<and> length ns = n \<and> length es = n \<and>
     held h h' (in_turn ns es) \<and>
     (len' = 0 \<and> (fail \<or> res = None \<or> \<not> plenty pe h arrs) \<or>
      \<not> fail \<and> (\<exists>ms. res = Some ms \<and> len' = len + members_size (pe_fmt pe) depth ms \<and>
         those (map (text_of h') ns) = Some (map fst ms) \<and> those (map (text_of h') es) = Some (map snd ms))))"

lemma set_entry_next:
  assumes "arrs a = Some (ps @ replicate (Suc n) 0)" and "a \<noteq> 0"
  shows "set_entry a (length ps) p arrs = Some (arrs(a \<mapsto> (ps @ [p]) @ replicate n 0))"
  using assms by (simp add: set_entry_def list_update_append)

lemma items_none: "items_ok pe h (arrs(entries \<mapsto> ps)) entries ps 0 len (Some []) (Some (len, h, arrs(entries \<mapsto> ps)))"
  unfolding items_ok_def using held_none by fastforce

lemma items_step:
  assumes p: "text_given full h (Some e) p h1" "p \<noteq> 0" "0 \<notin> set e"
    and rest: "items_ok pe h1 (arrs(entries \<mapsto> (ps @ [p]) @ zs)) entries (ps @ [p]) n (len + length e + 2 + (if pe_fmt pe then 1 else 0)) res run"
    and fin: "finite (dom arrs) = finite (dom arrs0)" and same: "\<And>xs. arrs0(entries \<mapsto> xs) = arrs(entries \<mapsto> xs)"
  shows "items_ok pe h arrs0 entries ps (Suc n) len (map_option ((#) e) res) run"
proof -
  obtain len' h' qs where run: "run = Some (len', h', arrs(entries \<mapsto> (ps @ [p]) @ qs))" "length qs = n" "held h1 h' qs"
    and r: "len' = 0 \<and> (res = None \<or> \<not> plenty pe h1 (arrs(entries \<mapsto> (ps @ [p]) @ zs))) \<or>
      (\<exists>es. res = Some es \<and> len' = len + length e + 2 + (if pe_fmt pe then 1 else 0) + items_size (pe_fmt pe) es \<and> those (map (text_of h') qs) = Some es)"
    using rest unfolding items_ok_def by auto
  note held = text_given_held [OF p(1)]
  have "held h h' ([p] @ qs)" by (rule held_append [OF held run(3)])
  moreover have "\<not> plenty pe h1 (arrs(entries \<mapsto> (ps @ [p]) @ zs)) \<Longrightarrow> \<not> plenty pe h arrs0"
    using plenty_held [OF _ held] fin by auto
  moreover have "text_of h' p = Some e" by (rule held_text [OF run(3) text_given_text [OF p]])
  ultimately show ?thesis unfolding items_ok_def using run r same
    by (intro exI [of _ len'] exI [of _ h'] exI [of _ "p # qs"]) auto
qed

lemma items_failed:
  assumes "res = None \<or> \<not> plenty pe h arrs"
  shows "items_ok pe h arrs entries ps (Suc n) len res (Some (0, h, arrs(entries \<mapsto> (ps @ [0]) @ replicate n 0)))"
proof -
  have "held h h (0 # replicate n 0)" by (simp add: held_def grown_none ptrs_def)
  then show ?thesis using assms unfolding items_ok_def
    by (intro exI [of _ 0] exI [of _ h] exI [of _ "0 # replicate n 0"]) simp
qed

lemma in_turn_Cons [simp]: "in_turn [] [] = []" "in_turn (n # ns) (e # es) = [n, e] @ in_turn ns es"
  by (simp_all add: in_turn_def)

lemma members_none: "members_ok pe h arrs names entries ps ps' 0 depth len fail (Some []) (Some (if fail then 0 else len, h,
    arrs(names \<mapsto> ps, entries \<mapsto> ps')))"
  unfolding members_ok_def using held_none
  by (intro exI [of _ "if fail then 0 else len"] exI [of _ h] exI [of _ "[]"]) auto

lemma members_step:
  assumes name: "text_given full h (Some name) p h1" "0 \<notin> set name" "full \<Longrightarrow> \<not> plenty pe h arrs0"
    and val: "text_given full' h1 val q h2" "\<And>e. val = Some e \<Longrightarrow> 0 \<notin> set e" "full' \<Longrightarrow> \<not> plenty pe h1 arrs1"
    and rest: "members_ok pe h2 arrs names entries (ps @ [p]) (ps' @ [q]) n depth
      (if p \<noteq> 0 \<and> q \<noteq> 0 then len + length (the val) + length name + 2 + (if pe_fmt pe then 2 + depth else 0) else len)
      (if p \<noteq> 0 \<and> q \<noteq> 0 then fail else True) res run"
    and fin: "finite (dom arrs) = finite (dom arrs0)" "finite (dom arrs1) = finite (dom arrs0)"
    and same: "\<And>xs ys. arrs(names \<mapsto> xs, entries \<mapsto> ys) = arrs0(names \<mapsto> xs, entries \<mapsto> ys)"
  shows "members_ok pe h arrs0 names entries ps ps' (Suc n) depth len fail
    (case (val, res) of (Some e, Some es) \<Rightarrow> Some ((name, e) # es) | _ \<Rightarrow> None) run"
proof -
  note held1 = text_given_held [OF name(1)] and held2 = text_given_held [OF val(1)]
  obtain len' h' ns es where run: "run = Some (len', h', arrs0(names \<mapsto> ps @ p # ns, entries \<mapsto> ps' @ q # es))" "length ns = n" "length es = n"
    and held3: "held h2 h' (in_turn ns es)"
    and r: "len' = 0 \<and> ((if p \<noteq> 0 \<and> q \<noteq> 0 then fail else True) \<or> res = None \<or> \<not> plenty pe h2 arrs) \<or>
      \<not> (if p \<noteq> 0 \<and> q \<noteq> 0 then fail else True) \<and> (\<exists>ms. res = Some ms \<and>
         len' = (if p \<noteq> 0 \<and> q \<noteq> 0 then len + length (the val) + length name + 2 + (if pe_fmt pe then 2 + depth else 0) else len) +
           members_size (pe_fmt pe) depth ms \<and>
         those (map (text_of h') ns) = Some (map fst ms) \<and> those (map (text_of h') es) = Some (map snd ms))"
    using rest same unfolding members_ok_def by auto
  have held: "held h h' ([p] @ [q] @ in_turn ns es)" by (intro held_append [OF held1] held_append [OF held2] held3)
  have more: "plenty pe h arrs0 \<Longrightarrow> plenty pe h1 arrs1" "plenty pe h arrs0 \<Longrightarrow> plenty pe h2 arrs"
    using plenty_held [OF _ held1, of pe arrs0 arrs1] plenty_held [OF _ held_append [OF held1 held2], of pe arrs0 arrs] fin by auto
  let ?res = "case (val, res) of (Some e, Some es) \<Rightarrow> Some ((name, e) # es) | _ \<Rightarrow> None"
  have "len' = 0 \<and> (fail \<or> ?res = None \<or> \<not> plenty pe h arrs0) \<or>
      \<not> fail \<and> (\<exists>ms. ?res = Some ms \<and> len' = len + members_size (pe_fmt pe) depth ms \<and>
         those (map (text_of h') (p # ns)) = Some (map fst ms) \<and> those (map (text_of h') (q # es)) = Some (map snd ms))"
  proof (cases "p \<noteq> 0 \<and> q \<noteq> 0")
    case False
    then have "len' = 0" using r by auto
    moreover have "p = 0 \<Longrightarrow> \<not> plenty pe h arrs0" using name(1,3) by (auto simp: text_given_def)
    moreover have "q = 0 \<Longrightarrow> val = None \<or> \<not> plenty pe h1 arrs1" using val(1,3) by (auto simp: text_given_def)
    ultimately show ?thesis using False more(1) by auto
  next
    case True
    then obtain e where e: "val = Some e" using val(1) by (auto simp: text_given_def)
    have "text_of h2 q = Some e" using text_given_text [of full' h1 e q h2] val(1,2) True e by simp
    moreover have "text_of h1 p = Some name" using text_given_text [OF name(1) _ name(2)] True by simp
    ultimately have "text_of h' p = Some name" "text_of h' q = Some e"
      using held_text [OF held3] held_text [OF held_append [OF held2 held3]] by blast+
    with r True e more(2) show ?thesis by (auto split: option.splits)
  qed
  then show ?thesis using run held unfolding members_ok_def
    by (intro exI [of _ len'] exI [of _ h'] exI [of _ "p # ns"] exI [of _ "q # es"]) simp
qed

subsubsection \<open>Values\<close>

lemma length_those: "those (map f qs) = Some es \<Longrightarrow> length es = length qs"
  by (induction qs arbitrary: es) (auto split: option.splits)

lemma plenty_update: "plenty pe h arrs \<Longrightarrow> plenty pe h (arrs(a \<mapsto> xs))"
  by (simp add: plenty_def)

lemma new_array_cases:
  assumes "fresh_env pe"
  obtains "new_array (pe_aa pe) n arrs = (0, arrs)" "\<And>h. \<not> plenty pe h arrs"
  | a where "a \<noteq> 0" "arrs a = None" "new_array (pe_aa pe) n arrs = (a, arrs(a \<mapsto> replicate n 0))"
proof (cases "pe_aa pe arrs = 0")
  case True
  then show thesis using that(1) by (auto simp: new_array_def plenty_def)
next
  case False
  then have "arrs (pe_aa pe arrs) = None" using assms by (simp add: fresh_env_def)
  then show thesis using that(2) [of "pe_aa pe arrs"] False by (simp add: new_array_def Let_def)
qed

lemma array_law:
  assumes fresh: "fresh_env pe" and n: "get_node item h = Some n" "take_bit 8 (nd_type n) = cJSON_Array"
    and kids: "chain h 0 cs (nd_child n) = Some (xs, ts, l, 0)" and res: "cs = [] \<Longrightarrow> res = Some []"
    and loop: "\<And>a arrs. arrs a = Some (replicate (length cs) 0) \<Longrightarrow> a \<noteq> 0 \<Longrightarrow>
      items_ok pe h arrs a [] (length cs) 5 res (heap_print (pe, PrintItems (nd_child n) (depth + 1) a 0 5, h, arrs))"
  shows "print_ok pe h arrs (map_option (\<lambda>es. [0x5B] @ compose_items (pe_fmt pe) es @ [0x5D]) res)
    (heap_print (pe, Print item depth, h, arrs))"
proof -
  have count: "count_siblings 0 (nd_child n) h = Some (length cs)" using count_siblings_law [OF kids, of 0] by simp
  note unfold = heap_print.simps [of "(pe, Print item depth, h, arrs)"]
  have ty: "cJSON_Array \<noteq> cJSON_NULL" "cJSON_Array \<noteq> cJSON_False" "cJSON_Array \<noteq> cJSON_True" "cJSON_Array \<noteq> cJSON_Number"
    "cJSON_Array \<noteq> cJSON_String" by (simp_all add: cJSON_types)
  show ?thesis
  proof (cases "cs = []")
    case True
    then show ?thesis using count n ty res keeping_output [OF fresh, of h arrs "[0x5B] @ compose_items (pe_fmt pe) [] @ [0x5D]"]
      by (simp add: unfold print_array_eq)
  next
    case False
    then have len: "length cs \<noteq> 0" by simp
    show ?thesis
    proof (rule new_array_cases [OF fresh, of "length cs" arrs])
      assume "new_array (pe_aa pe) (length cs) arrs = (0, arrs)" "\<And>h. \<not> plenty pe h arrs"
      then show ?thesis using count n ty len by (simp add: unfold print_ok_def text_given_def)
    next
      fix a assume a: "a \<noteq> 0" "arrs a = None" "new_array (pe_aa pe) (length cs) arrs = (a, arrs(a \<mapsto> replicate (length cs) 0))"
      let ?arrs = "arrs(a \<mapsto> replicate (length cs) 0)"
      obtain len' h' qs where run: "heap_print (pe, PrintItems (nd_child n) (depth + 1) a 0 5, h, ?arrs) = Some (len', h', arrs(a \<mapsto> qs))"
        and qs: "length qs = length cs" "held h h' qs"
        and r: "len' = 0 \<and> (res = None \<or> \<not> plenty pe h ?arrs) \<or>
          (\<exists>es. res = Some es \<and> len' = 5 + items_size (pe_fmt pe) es \<and> those (map (text_of h') qs) = Some es)"
        using loop [of ?arrs a] a(1) unfolding items_ok_def by auto
      have "es \<noteq> []" if "those (map (text_of h') qs) = Some es" for es using length_those [OF that] qs(1) len by auto
      then have "len' = 0 \<and> (res = None \<or> \<not> plenty pe h arrs) \<or>
          (\<exists>es. res = Some es \<and> es \<noteq> [] \<and> len' = 5 + items_size (pe_fmt pe) es \<and> those (map (text_of h') qs) = Some es)"
        using r plenty_update [of pe h arrs a] by blast
      from finish_array_law [OF fresh qs(2) this] obtain out h2 where
        "finish_array (pe_al pe) (pe_fmt pe) len' qs h' = Some (out, h2)"
        "text_given (\<not> plenty pe h arrs) h (map_option (\<lambda>es. [0x5B] @ compose_items (pe_fmt pe) es @ [0x5D]) res) out h2" by blast
      moreover have "(arrs(a \<mapsto> qs))(a := None) = arrs" using a(2) by (simp add: fun_eq_iff)
      ultimately show ?thesis using count n ty len a run by (simp add: unfold print_ok_def free_array_def)
    qed
  qed
qed

lemma object_law:
  assumes fresh: "fresh_env pe" and n: "get_node item h = Some n" "take_bit 8 (nd_type n) = cJSON_Object"
    and kids: "chain h 0 cs (nd_child n) = Some (xs, ts, l, 0)" and res: "cs = [] \<Longrightarrow> res = Some []"
    and loop: "\<And>a b arrs. arrs a = Some (replicate (length cs) 0) \<Longrightarrow> arrs b = Some (replicate (length cs) 0) \<Longrightarrow> a \<noteq> 0 \<Longrightarrow> b \<noteq> 0 \<Longrightarrow>
      a \<noteq> b \<Longrightarrow> members_ok pe h arrs b a [] [] (length cs) (depth + 1) (7 + (if pe_fmt pe then depth + 1 else 0)) False res
        (heap_print (pe, PrintMembers (nd_child n) (depth + 1) a b 0 (7 + (if pe_fmt pe then depth + 1 else 0)) False, h, arrs))"
  shows "print_ok pe h arrs (map_option (object_text (pe_fmt pe) depth) res) (heap_print (pe, Print item depth, h, arrs))"
proof -
  have count: "count_siblings 0 (nd_child n) h = Some (length cs)" using count_siblings_law [OF kids, of 0] by simp
  note unfold = heap_print.simps [of "(pe, Print item depth, h, arrs)"]
  have ty: "cJSON_Object \<noteq> cJSON_NULL" "cJSON_Object \<noteq> cJSON_False" "cJSON_Object \<noteq> cJSON_True" "cJSON_Object \<noteq> cJSON_Number"
    "cJSON_Object \<noteq> cJSON_String" "cJSON_Object \<noteq> cJSON_Array" by (simp_all add: cJSON_types)
  show ?thesis
  proof (cases "cs = []")
    case True
    then show ?thesis using count n ty res keeping_output [OF fresh, of h arrs "object_text (pe_fmt pe) depth []"]
      by (simp add: unfold print_object_eq)
  next
    case False
    then have len: "length cs \<noteq> 0" by simp
    let ?zs = "replicate (length cs) 0"
    show ?thesis
    proof (rule new_array_cases [OF fresh, of "length cs" arrs])
      assume "new_array (pe_aa pe) (length cs) arrs = (0, arrs)" "\<And>h. \<not> plenty pe h arrs"
      then show ?thesis using count n ty len by (simp add: unfold print_ok_def text_given_def)
    next
      fix a assume a: "a \<noteq> 0" "arrs a = None" "new_array (pe_aa pe) (length cs) arrs = (a, arrs(a \<mapsto> ?zs))"
      show ?thesis
      proof (rule new_array_cases [OF fresh, of "length cs" "arrs(a \<mapsto> ?zs)"])
        assume b: "new_array (pe_aa pe) (length cs) (arrs(a \<mapsto> ?zs)) = (0, arrs(a \<mapsto> ?zs))" "\<And>h. \<not> plenty pe h (arrs(a \<mapsto> ?zs))"
        have "\<not> plenty pe h arrs" using b(2) plenty_update by blast
        moreover have "(arrs(a \<mapsto> ?zs))(a := None) = arrs" using a(2) by (simp add: fun_eq_iff)
        ultimately show ?thesis using count n ty len a b(1) by (simp add: unfold print_ok_def text_given_def free_array_def)
      next
        fix b assume b: "b \<noteq> 0" "(arrs(a \<mapsto> ?zs)) b = None"
          "new_array (pe_aa pe) (length cs) (arrs(a \<mapsto> ?zs)) = (b, arrs(a \<mapsto> ?zs, b \<mapsto> ?zs))"
        let ?arrs = "arrs(a \<mapsto> ?zs, b \<mapsto> ?zs)" and ?len = "7 + (if pe_fmt pe then depth + 1 else 0)"
        have ab: "a \<noteq> b" "arrs b = None" using b(2) by (auto split: if_splits)
        obtain len' h' ns es where
          run: "heap_print (pe, PrintMembers (nd_child n) (depth + 1) a b 0 ?len False, h, ?arrs) = Some (len', h', ?arrs(b \<mapsto> ns, a \<mapsto> es))"
          and qs: "length ns = length cs" "length es = length cs" "held h h' (in_turn ns es)"
          and r: "len' = 0 \<and> (res = None \<or> \<not> plenty pe h ?arrs) \<or>
            (\<exists>ms. res = Some ms \<and> len' = ?len + members_size (pe_fmt pe) (depth + 1) ms \<and>
               those (map (text_of h') ns) = Some (map fst ms) \<and> those (map (text_of h') es) = Some (map snd ms))"
          using loop [of ?arrs a b] a(1) b(1) ab(1) unfolding members_ok_def by auto
        have "ms \<noteq> []" if "those (map (text_of h') ns) = Some (map fst ms)" for ms :: "(u8 list \<times> u8 list) list"
          using length_those [OF that] qs(1) len by auto
        moreover have "plenty pe h arrs \<Longrightarrow> plenty pe h ?arrs" by (intro plenty_update)
        ultimately have "len' = 0 \<and> (res = None \<or> \<not> plenty pe h arrs) \<or>
            (\<exists>ms. res = Some ms \<and> ms \<noteq> [] \<and> len' = ?len + members_size (pe_fmt pe) (depth + 1) ms \<and>
               those (map (text_of h') ns) = Some (map fst ms) \<and> those (map (text_of h') es) = Some (map snd ms))"
          using r by blast
        from finish_object_law [OF fresh qs(3) this] obtain out h2 where
          "finish_object (pe_al pe) (pe_fmt pe) (depth + 1) len' ns es h' = Some (out, h2)"
          "text_given (\<not> plenty pe h arrs) h (map_option (object_text (pe_fmt pe) depth) res) out h2" by blast
        moreover have "(?arrs(b \<mapsto> ns, a \<mapsto> es))(b := None, a := None) = arrs" using a(2) ab by (simp add: fun_eq_iff)
        ultimately show ?thesis using count n ty len a b ab run by (simp add: unfold print_ok_def free_array_def)
      qed
    qed
  qed
qed

lemma plain_Cons: "plain (c # cs) \<longleftrightarrow> \<not> is_reference (cj_type c) \<and> plain (cj_child c) \<and> plain cs"
  by (cases c) simp

lemma heap_print_law:
  fixes pe :: "'d print_env"
  assumes fresh: "fresh_env pe" and fmts: "formats_ok (pe_pr pe)"
  shows "print_value pr c depth fmt = Some res \<Longrightarrow> pr = pe_pr pe \<Longrightarrow> fmt = pe_fmt pe \<Longrightarrow> terminated c \<Longrightarrow> plain [c] \<Longrightarrow>
      get_node item h = Some n \<Longrightarrow> node_is h prev n c \<Longrightarrow> chain h 0 (cj_child c) (nd_child n) = Some (xs, ts, l, 0) \<Longrightarrow>
      print_ok pe h arrs res (heap_print (pe, Print item depth, h, arrs))"
    and "print_items pr cs depth fmt = Some res1 \<Longrightarrow> pr = pe_pr pe \<Longrightarrow> fmt = pe_fmt pe \<Longrightarrow> \<forall>c \<in> set cs. terminated c \<Longrightarrow> plain cs \<Longrightarrow>
      chain h prev cs child = Some (xs, ts, l, 0) \<Longrightarrow> arrs a = Some (ps @ replicate (length cs) 0) \<Longrightarrow> a \<noteq> 0 \<Longrightarrow>
      items_ok pe h arrs a ps (length cs) len res1 (heap_print (pe, PrintItems child depth a (length ps) len, h, arrs))"
    and "print_members pr cs depth fmt = Some res2 \<Longrightarrow> pr = pe_pr pe \<Longrightarrow> fmt = pe_fmt pe \<Longrightarrow> \<forall>c \<in> set cs. terminated c \<Longrightarrow> plain cs \<Longrightarrow>
      chain h prev cs child = Some (xs, ts, l, 0) \<Longrightarrow> arrs a = Some (ps' @ replicate (length cs) 0) \<Longrightarrow>
      arrs b = Some (ps @ replicate (length cs) 0) \<Longrightarrow> length ps' = length ps \<Longrightarrow> a \<noteq> 0 \<Longrightarrow> b \<noteq> 0 \<Longrightarrow> a \<noteq> b \<Longrightarrow>
      members_ok pe h arrs b a ps ps' (length cs) depth len fail res2
        (heap_print (pe, PrintMembers child depth a b (length ps) len fail, h, arrs))"
proof (induction pr c depth fmt and pr cs depth fmt and pr cs depth fmt
    arbitrary: res item h n prev xs ts l arrs and res1 h prev child xs ts l arrs a ps len
      and res2 h prev child xs ts l arrs a b ps ps' len fail
    rule: print_value_print_items_print_members.induct)
  case (1 pr ty vs i d nm cs depth fmt)
  note pe = 1(4,5) and n = 1(8)
  have ty: "\<not> is_reference ty" "plain cs" using 1(7) by simp_all
  have m: "nd_type n = ty" "nd_valueint n = i" "nd_valuedouble n = d" "text_at h (nd_valuestring n) vs"
    using 1(9) ty by (simp_all add: node_is_def)
  have kids: "chain h 0 cs (nd_child n) = Some (xs, ts, l, 0)" using 1(10) by simp
  have str: "\<exists>out. print_string_ptr vs = Some out" using print_string_defined 1(6) by auto
  let ?t = "take_bit 8 ty"
  note unfold = heap_print.simps [of "(pe, Print item depth, h, arrs)"]
  have out: "print_ok pe h arrs (Some t) (keeping arrs (heap_output (pe_al pe) (Some t) h))" for t by (rule keeping_output [OF fresh])
  consider "?t = cJSON_Array" | "?t = cJSON_Object" | "?t \<noteq> cJSON_Array" "?t \<noteq> cJSON_Object" by blast
  then show ?case
  proof cases
    case arr: 1
    obtain res' where res': "print_items pr cs (depth + 1) fmt = Some res'"
      "res = map_option (\<lambda>es. [0x5B] @ compose_items fmt es @ [0x5D]) res'"
      using 1(3) arr by (auto simp: Let_def cJSON_types print_array_eq split: bind_splits option.splits)
    have "print_ok pe h arrs (map_option (\<lambda>es. [0x5B] @ compose_items (pe_fmt pe) es @ [0x5D]) res')
        (heap_print (pe, Print item depth, h, arrs))"
    proof (rule array_law [OF fresh n _ kids])
      show "take_bit 8 (nd_type n) = cJSON_Array" using arr m by simp
      show "cs = [] \<Longrightarrow> res' = Some []" using res'(1) by simp
      show "items_ok pe h arrs a [] (length cs) 5 res' (heap_print (pe, PrintItems (nd_child n) (depth + 1) a 0 5, h, arrs))"
        if "arrs a = Some (replicate (length cs) 0)" "a \<noteq> 0" for a arrs
        using 1(1) [OF refl _ _ _ _ _ arr res'(1) pe _ ty(2) kids, of arrs a "[]" 5] that arr 1(6) by (simp add: cJSON_types)
    qed
    then show ?thesis using res'(2) pe by simp
  next
    case obj: 2
    obtain res' where res': "print_members pr cs (depth + 1) fmt = Some res'" "res = map_option (object_text fmt depth) res'"
      using 1(3) obj by (auto simp: Let_def cJSON_types print_object_eq split: bind_splits option.splits)
    have "print_ok pe h arrs (map_option (object_text (pe_fmt pe) depth) res') (heap_print (pe, Print item depth, h, arrs))"
    proof (rule object_law [OF fresh n _ kids])
      show "take_bit 8 (nd_type n) = cJSON_Object" using obj m by simp
      show "cs = [] \<Longrightarrow> res' = Some []" using res'(1) by simp
      show "members_ok pe h arrs b a [] [] (length cs) (depth + 1) (7 + (if pe_fmt pe then depth + 1 else 0)) False res'
          (heap_print (pe, PrintMembers (nd_child n) (depth + 1) a b 0 (7 + (if pe_fmt pe then depth + 1 else 0)) False, h, arrs))"
        if "arrs a = Some (replicate (length cs) 0)" "arrs b = Some (replicate (length cs) 0)" "a \<noteq> 0" "b \<noteq> 0" "a \<noteq> b" for a b arrs
        using 1(2) [OF refl _ _ _ _ _ _ obj res'(1) pe _ ty(2) kids, of arrs a "[]" b "[]"] that obj 1(6) by (simp add: cJSON_types)
    qed
    then show ?thesis using res'(2) pe by simp
  next
    case 3
    obtain num where num: "print_number pr i d = Some num" using print_number_text [of pr i d] fmts pe 1(6) by auto
    obtain o' where o': "print_string_ptr vs = Some o'" using str by blast
    have num': "print_number (pe_pr pe) (nd_valueint n) (nd_valuedouble n) = Some num" using num m pe by simp
    have none: "print_ok pe h arrs None (Some (0, h, arrs))" by (simp add: print_ok_def text_given_def)
    show ?thesis
      using 1(3) 3 by (auto simp: Let_def unfold n m(1) num num' o' out none output_string_law [OF fresh m(4) o'] split: if_splits)
  qed
next
  case (2 pr depth fmt)
  then have "child = 0" "res1 = Some []" by simp_all
  then show ?case using 2 items_none [of pe h arrs a ps len]
    by (simp add: heap_print.simps [of "(pe, PrintItems 0 depth a (length ps) len, h, arrs)"] fun_upd_idem)
next
  case (3 pr c cs depth fmt)
  obtain n ks kt k bs us where n: "get_node child h = Some n" "node_is h prev n c"
    and ks: "if is_reference (cj_type c) then ks = [] \<and> kt = [] else chain h 0 (cj_child c) (nd_child n) = Some (ks, kt, k, 0)"
    and cs: "chain h child cs (nd_next n) = Some (bs, us, l, 0)"
    by (rule chain_ConsE [OF 3(8)])
  have plain: "plain [c]" "plain cs" "\<not> is_reference (cj_type c)" using 3(7) by (simp_all add: plain_Cons)
  have ends: "terminated c" "\<forall>c \<in> set cs. terminated c" using 3(6) by simp_all
  have kids: "chain h 0 (cj_child c) (nd_child n) = Some (ks, kt, k, 0)" using ks plain(3) by simp
  obtain val where val: "print_value pr c depth fmt = Some val" using 3(3) by (auto split: bind_splits)
  obtain p h1 where run: "heap_print (pe, Print child depth, h, arrs) = Some (p, h1, arrs)" and p: "text_given (\<not> plenty pe h arrs) h val p h1"
    using 3(1) [OF val 3(4,5) ends(1) plain(1) n kids, of arrs] unfolding print_ok_def by blast
  have child: "child \<noteq> 0" using n(1) by (simp add: get_node_Some)
  have next_entry: "set_entry a (length ps) p arrs = Some (arrs(a \<mapsto> (ps @ [p]) @ replicate (length cs) 0))"
    using 3(9,10) by (intro set_entry_next) simp_all
  note unfold = heap_print.simps [of "(pe, PrintItems child depth a (length ps) len, h, arrs)"]
  show ?case
  proof (cases "p = 0")
    case True
    then have "h1 = h" "val = None \<or> \<not> plenty pe h arrs" using p by (auto simp: text_given_def)
    moreover from this have "res1 = None \<or> \<not> plenty pe h arrs" using 3(3) val by auto
    then have "items_ok pe h arrs a ps (Suc (length cs)) len res1 (Some (0, h, arrs(a \<mapsto> (ps @ [0]) @ replicate (length cs) 0)))"
      by (rule items_failed)
    ultimately show ?thesis using True child run next_entry by (simp add: unfold)
  next
    case False
    then obtain e where e: "val = Some e" using p by (auto simp: text_given_def)
    obtain res' where res': "print_items pr cs depth fmt = Some res'" "res1 = map_option ((#) e) res'"
      using 3(3) val e by (auto split: bind_splits)
    have nz: "0 \<notin> set e" using print_nonzero(1) [of pr c depth fmt e] fmts 3(4) ends(1) val e by simp
    note held = text_given_held [OF p]
    let ?arrs = "arrs(a \<mapsto> (ps @ [p]) @ replicate (length cs) 0)" and ?len = "len + length e + 2 + (if pe_fmt pe then 1 else 0)"
    have "items_ok pe h1 ?arrs a (ps @ [p]) (length cs) ?len res'
        (heap_print (pe, PrintItems (nd_next n) depth a (length (ps @ [p])) ?len, h1, ?arrs))"
      by (rule 3(2) [OF val e res'(1) 3(4,5) ends(2) plain(2) held_chain [OF held cs] _ 3(10)]) simp
    from items_step [OF p [unfolded e] False nz this, of arrs] have "items_ok pe h arrs a ps (Suc (length cs)) len res1
        (heap_print (pe, PrintItems (nd_next n) depth a (length (ps @ [p])) ?len, h1, ?arrs))" using res'(2) by simp
    moreover have "text_of h1 p = Some e" by (rule text_given_text [OF p [unfolded e] False nz])
    moreover have "get_node child h1 = Some n" by (rule held_node [OF held n(1)])
    ultimately show ?thesis using False child run next_entry by (simp add: unfold)
  qed
next
  case (4 pr depth fmt)
  then have "child = 0" "res2 = Some []" by simp_all
  then show ?case using 4 members_none [of pe h arrs b a ps ps' depth len fail]
    by (simp add: heap_print.simps [of "(pe, PrintMembers 0 depth a b (length ps) len fail, h, arrs)"] fun_upd_idem)
next
  case (5 pr c cs depth fmt)
  obtain n ks kt k bs us where n: "get_node child h = Some n" "node_is h prev n c"
    and ks: "if is_reference (cj_type c) then ks = [] \<and> kt = [] else chain h 0 (cj_child c) (nd_child n) = Some (ks, kt, k, 0)"
    and cs: "chain h child cs (nd_next n) = Some (bs, us, l, 0)"
    by (rule chain_ConsE [OF 5(8)])
  have plain: "plain [c]" "plain cs" "\<not> is_reference (cj_type c)" using 5(7) by (simp_all add: plain_Cons)
  have ends: "terminated c" "\<forall>c \<in> set cs. terminated c" using 5(6) by simp_all
  have kids: "chain h 0 (cj_child c) (nd_child n) = Some (ks, kt, k, 0)" using ks plain(3) by simp
  obtain out val res' where val: "print_string_ptr (cj_string c) = Some out" "print_value pr c depth fmt = Some val"
      "print_members pr cs depth fmt = Some res'"
    and res2: "res2 = (case (val, res') of (Some e, Some es) \<Rightarrow> Some ((cstr out, e) # es) | _ \<Rightarrow> None)"
    using 5(3) by (auto split: bind_splits)
  have child: "child \<noteq> 0" using n(1) by (simp add: get_node_Some)
  have name: "text_at h (nd_string n) (cj_string c)" using n(2) by (simp add: node_is_def)
  obtain p h1 where p: "heap_print_string_ptr (pe_al pe) (nd_string n) h = Some (p, h1)" "text_given (\<not> plenty pe h arrs) h (Some (cstr out)) p h1"
    using output_string_law [OF fresh name val(1)] output_law [OF fresh] by metis
  note held1 = text_given_held [OF p(2)]
  let ?zs = "replicate (length cs) 0"
  let ?arrs1 = "arrs(b \<mapsto> (ps @ [p]) @ ?zs)"
  have next_name: "set_entry b (length ps) p arrs = Some ?arrs1" using 5(10,13) by (intro set_entry_next) simp_all
  have n1: "get_node child h1 = Some n" "node_is h1 prev n c" "chain h1 0 (cj_child c) (nd_child n) = Some (ks, kt, k, 0)"
  proof -
    show 1: "get_node child h1 = Some n" by (rule held_node [OF held1 n(1)])
    show "chain h1 0 (cj_child c) (nd_child n) = Some (ks, kt, k, 0)" by (rule held_chain [OF held1 kids])
    have "chain h1 prev (c # cs) child = Some (xs, ts, l, 0)" by (rule held_chain [OF held1 5(8)])
    then show "node_is h1 prev n c" unfolding chain_Cons using 1 by auto
  qed
  obtain q h2 where run: "heap_print (pe, Print child depth, h1, ?arrs1) = Some (q, h2, ?arrs1)"
    and q: "text_given (\<not> plenty pe h1 ?arrs1) h1 val q h2"
    using 5(1) [OF val(1,2) 5(4,5) ends(1) plain(1) n1, of ?arrs1] unfolding print_ok_def by blast
  note held2 = text_given_held [OF q]
  let ?arrs = "?arrs1(a \<mapsto> (ps' @ [q]) @ ?zs)"
  have next_entry: "set_entry a (length ps) q ?arrs1 = Some ?arrs"
    using 5(9,11,12,14) by (metis (no_types, lifting) set_entry_next fun_upd_other length_Cons)
  have nz: "\<And>e. val = Some e \<Longrightarrow> 0 \<notin> set e" using print_nonzero(1) [of pr c depth fmt] fmts 5(4) ends(1) val(2) by simp
  have next_node: "chain h2 child cs (nd_next n) = Some (bs, us, l, 0)" by (rule held_chain [OF held2 held_chain [OF held1 cs]])
  let ?len = "if p \<noteq> 0 \<and> q \<noteq> 0 then len + length (the val) + length (cstr out) + 2 + (if pe_fmt pe then 2 + depth else 0) else len"
  let ?fail = "if p \<noteq> 0 \<and> q \<noteq> 0 then fail else True"
  have "members_ok pe h2 ?arrs b a (ps @ [p]) (ps' @ [q]) (length cs) depth ?len ?fail res'
      (heap_print (pe, PrintMembers (nd_next n) depth a b (length (ps @ [p])) ?len ?fail, h2, ?arrs))"
    using 5(11-14) by (intro 5(2) [OF val 5(4,5) ends(2) plain(2) next_node]) simp_all
  then have "members_ok pe h arrs b a ps ps' (Suc (length cs)) depth len fail res2
      (heap_print (pe, PrintMembers (nd_next n) depth a b (length (ps @ [p])) ?len ?fail, h2, ?arrs))"
    unfolding res2
    by (rule members_step [OF p(2) cstr_nonzero _ q nz, rotated 3]) (simp_all add: fun_upd_twist 5(14))
  moreover have "p \<noteq> 0 \<and> q \<noteq> 0 \<Longrightarrow> text_of h2 p = Some (cstr out) \<and> (\<exists>e. val = Some e \<and> text_of h2 q = Some e)"
    using held_text [OF held2 text_given_text [OF p(2) _ cstr_nonzero]] q nz text_given_text [of _ h1 _ q h2] by (auto simp: text_given_def)
  ultimately show ?case using child n(1) p(1) next_name run next_entry
    by (cases "p \<noteq> 0 \<and> q \<noteq> 0")
      (auto simp: heap_print.simps [of "(pe, PrintMembers child depth a b (length ps) len fail, h, arrs)"])
qed

lemma heap_print_item:
  assumes "fresh_env pe" and "formats_ok (pe_pr pe)" and "chain h prev (c # cs) p = Some (xs, ts, l, e)" and "plain [c]" and "terminated c"
  shows "\<exists>res q h'. print_value (pe_pr pe) c depth (pe_fmt pe) = Some res \<and>
    heap_print (pe, Print p depth, h, arrs) = Some (q, h', arrs) \<and> text_given (\<not> plenty pe h arrs) h res q h'"
proof -
  obtain res where res: "print_value (pe_pr pe) c depth (pe_fmt pe) = Some res" using print_defined(1) [OF assms(2,5)] by blast
  obtain n ks kt k where n: "get_node p h = Some n" "node_is h prev n c" "chain h 0 (cj_child c) (nd_child n) = Some (ks, kt, k, 0)"
    using assms(3,4) unfolding chain_Cons by (auto simp: plain_Cons)
  show ?thesis using heap_print_law(1) [OF assms(1,2) res refl refl assms(5,4) n] res unfolding print_ok_def by blast
qed

end
