(* ===== verification/Cjson_Heap_Properties.thy ===== *)
theory Cjson_Heap_Properties
  imports Cjson_Heap_Parse Cjson_Heap_Print Cjson_Properties
begin

text \<open>
  The properties of the JSON library in memory, each with a witness on an object with one member.
\<close>

unbundle bit_operations_syntax

section \<open>An example\<close>

text \<open>The object at 1 has the member at 2 under the name at 1, and the number at 3 belongs to nothing yet.\<close>

definition ex_node :: "int \<Rightarrow> nat \<Rightarrow> int \<Rightarrow> nat \<Rightarrow> int node" where
  "ex_node ty child d name = \<lparr>nd_next = 0, nd_prev = 0, nd_child = child, nd_type = ty, nd_valuestring = 0,
     nd_valueint = d, nd_valuedouble = d, nd_string = name\<rparr>"

definition ex_heap :: "int heap" where
  "ex_heap = \<lparr>hp_nodes = [1 \<mapsto> ex_node 6 2 0 0, 2 \<mapsto> ex_node 3 0 5 1, 3 \<mapsto> ex_node 3 0 7 0], hp_texts = [1 \<mapsto> ascii ''a'' @ [0]]\<rparr>"

definition ex_member :: "int cjson" where
  "ex_member = CJSON 3 None 5 5 (Some (ascii ''a'' @ [0])) []"

definition ex_object :: "int cjson" where
  "ex_object = CJSON 6 None 0 0 None [ex_member]"

definition ex_number :: "int cjson" where
  "ex_number = CJSON 3 None 7 7 None []"

text \<open>The allocator gives out the least address that is free.\<close>

definition least_free :: "(nat \<Rightarrow> 'a option) \<Rightarrow> nat" where
  "least_free f = (if \<exists>p. p \<noteq> 0 \<and> f p = None then LEAST p. p \<noteq> 0 \<and> f p = None else 0)"

definition ex_alloc :: "'d allocator" where
  "ex_alloc = \<lparr>al_node = least_free, al_text = least_free\<rparr>"

lemma ex_types: "\<not> is_reference 3" "\<not> is_reference 6"
  by (simp_all add: is_reference_def cJSON_IsReference_def)

lemma ex_items: "item_at ex_heap 1 ex_object [1, 2] [1]" "item_at ex_heap 3 ex_number [3] []"
  "chain ex_heap 0 [ex_number] 3 = Some ([3], [], 3, 0)" "get_node 3 ex_heap = Some (ex_node 3 0 7 0)"
  by (simp_all add: item_at_def ex_heap_def ex_object_def ex_member_def ex_number_def ex_node_def get_node_def node_is_def
      node_texts_def text_at_def ptr_def ex_types)

lemma least_free_laws: "least_free f \<noteq> 0 \<Longrightarrow> f (least_free f) = None" "finite (dom f) \<Longrightarrow> least_free f \<noteq> 0"
proof -
  show "f (least_free f) = None" if "least_free f \<noteq> 0"
  proof -
    have "\<exists>p. p \<noteq> 0 \<and> f p = None" using that unfolding least_free_def by metis
    then show ?thesis using LeastI_ex [of "\<lambda>p. p \<noteq> 0 \<and> f p = None"] unfolding least_free_def by simp
  qed
  assume "finite (dom f)"
  then have "finite (insert 0 (dom f))" by simp
  then obtain p where "p \<notin> insert 0 (dom f)" using ex_new_if_finite infinite_UNIV_nat by blast
  then have "\<exists>p. p \<noteq> 0 \<and> f p = None" by auto
  then show "least_free f \<noteq> 0"
    using LeastI_ex [of "\<lambda>p. p \<noteq> 0 \<and> f p = None"] by (simp add: least_free_def)
qed

lemma ex_alloc_ok: "fresh_laws ex_alloc" "has_memory ex_alloc" "ample ex_alloc ex_heap"
proof -
  show "fresh_laws ex_alloc" by (simp add: fresh_laws_def ex_alloc_def least_free_laws(1))
  show "has_memory ex_alloc" by (simp add: has_memory_def ex_alloc_def least_free_laws(2) del: neq0_conv)
  then show "ample ex_alloc ex_heap" by (simp add: ample_def ex_heap_def)
qed

section \<open>Editing\<close>

text \<open>
C17. Adding to, deleting from and replacing in an array or object in memory has a defined result, whatever the index, and
does to the tree that the linked nodes stand for what the operations on trees do. Of what belonged to the array and the new
item, exactly what still does is left, each node and string else freed; no other node or string of the heap changes.
\<close>

theorem json_memory_refines_trees:
  assumes arr: "item_at h a t xs ss" "\<not> is_reference (cj_type t)" and item: "item_at h p c bs ts"
    and dis: "set xs \<inter> set bs = {}" "set ss \<inter> set ts = {}"
  shows "(\<exists>h'. heap_AddItemToArray a p h = Some h' \<and> item_at h' a (cJSON_AddItemToArray t (Some c)) (xs @ bs) (ss @ ts) \<and>
      balanced (xs @ bs) (ss @ ts) (xs @ bs) (ss @ ts) h h') \<and>
    (\<exists>h' xs' ss'. heap_DeleteItemFromArray a which h = Some h' \<and> item_at h' a (cJSON_DeleteItemFromArray t which) xs' ss' \<and>
      balanced xs ss xs' ss' h h') \<and>
    (if cj_child t \<noteq> [] \<and> which < int (length (cj_child t))
     then \<exists>h' xs' ss'. heap_ReplaceItemInArray a which p h = Some h' \<and> item_at h' a (cJSON_ReplaceItemInArray t which c) xs' ss' \<and>
       balanced (xs @ bs) (ss @ ts) xs' ss' h h'
     else heap_ReplaceItemInArray a which p h = Some h \<and> cJSON_ReplaceItemInArray t which c = t)"
proof (intro conjI)
  show "\<exists>h'. heap_AddItemToArray a p h = Some h' \<and> item_at h' a (cJSON_AddItemToArray t (Some c)) (xs @ bs) (ss @ ts) \<and>
      balanced (xs @ bs) (ss @ ts) (xs @ bs) (ss @ ts) h h'" using tree_add [OF arr item dis] by blast
  show "\<exists>h' xs' ss'. heap_DeleteItemFromArray a which h = Some h' \<and> item_at h' a (cJSON_DeleteItemFromArray t which) xs' ss' \<and>
      balanced xs ss xs' ss' h h'" using tree_delete [OF arr, of which] by blast
  have within: "detach_at (cj_child t) which \<noteq> None \<longleftrightarrow> cj_child t \<noteq> [] \<and> which < int (length (cj_child t))"
    using detach_at_cases [of "cj_child t" which] by (auto split: option.splits)
  obtain as us where "array_at h a t as us" by (rule array_of_item [OF arr])
  then have beyond: "detach_at (cj_child t) which = None \<Longrightarrow>
      heap_ReplaceItemInArray a which p h = Some h \<and> cJSON_ReplaceItemInArray t which c = t" by (rule replace_item_beyond)
  then show "if cj_child t \<noteq> [] \<and> which < int (length (cj_child t))
     then \<exists>h' xs' ss'. heap_ReplaceItemInArray a which p h = Some h' \<and> item_at h' a (cJSON_ReplaceItemInArray t which c) xs' ss' \<and>
       balanced (xs @ bs) (ss @ ts) xs' ss' h h'
     else heap_ReplaceItemInArray a which p h = Some h \<and> cJSON_ReplaceItemInArray t which c = t"
  proof (cases "detach_at (cj_child t) which = None")
    case False
    then show ?thesis using tree_replace [OF arr item dis False] within by simp
  qed (use within beyond in auto)
qed

theorem json_memory_refines_trees_witness:
  "\<exists>h' xs' ss'. heap_ReplaceItemInArray 1 0 3 ex_heap = Some h' \<and>
     item_at h' 1 (CJSON 6 None 0 0 None [ex_number]) xs' ss' \<and> balanced [1, 2, 3] [1] xs' ss' ex_heap h'"
  using json_memory_refines_trees [OF ex_items(1) _ ex_items(2), of 0]
  by (simp add: ex_object_def ex_types cJSON_ReplaceItemInArray_def)

text \<open>
C35. With memory for the name, adding an item to an object under a name in memory gives the object that adding to the tree gives,
and the name that the item had before is freed; deleting a member by its name gives the tree without it, and frees exactly what
belonged to the member.
\<close>

theorem json_memory_objects:
  assumes arr: "item_at h a t xs ss" "\<not> is_reference (cj_type t)" and item: "item_at h p c bs ts"
    and dis: "set xs \<inter> set bs = {}" "set ss \<inter> set ts = {}" and al: "fresh_laws al" "ample al h"
  shows "(\<forall>t'. cJSON_AddItemToObject t str (Some c) = Some t' \<longrightarrow>
      (\<exists>h' ss'. heap_AddItemToObject al a str p h = Some h' \<and> item_at h' a t' (xs @ bs) ss' \<and>
        balanced (xs @ bs) (ss @ ts) (xs @ bs) ss' h h')) \<and>
    (\<forall>t'. cJSON_DeleteItemFromObject t str = Some t' \<longrightarrow>
      (\<exists>h' xs' ss'. heap_DeleteItemFromObject a str h = Some h' \<and> item_at h' a t' xs' ss' \<and> balanced xs ss xs' ss' h h'))"
  using tree_add_object [OF arr item dis al(1)] tree_delete_object [OF arr] al(2) unfolding ample_def by blast

theorem json_memory_objects_witness:
  "\<exists>h' ss'. heap_AddItemToObject ex_alloc 1 (ascii ''b'' @ [0]) 3 ex_heap = Some h' \<and>
     item_at h' 1 (CJSON 6 None 0 0 None [ex_member, rename_item (ascii ''b'' @ [0]) ex_number]) [1, 2, 3] ss' \<and>
     balanced [1, 2, 3] [1] [1, 2, 3] ss' ex_heap h'"
proof -
  have "cJSON_AddItemToObject ex_object (ascii ''b'' @ [0]) (Some ex_number) =
      Some (CJSON 6 None 0 0 None [ex_member, rename_item (ascii ''b'' @ [0]) ex_number])"
    by (simp add: cJSON_AddItemToObject_def cJSON_AddItemToArray_def cJSON_strdup_def ex_object_def cstr_def ascii_def)
  with json_memory_objects [OF ex_items(1) _ ex_items(2) _ _ ex_alloc_ok(1,3), of "ascii ''b'' @ [0]"]
  show ?thesis by (simp add: ex_object_def ex_types)
qed

text \<open>
\<open>cJSON_ReplaceItemInObject\<close> does not free the name that the new item had before: the string is still allocated, and does not
belong to the object.
\<close>

theorem json_replace_keeps_old_name:
  assumes arr: "item_at h a t xs ss" "\<not> is_reference (cj_type t)" and item: "item_at h p c bs ts"
    and dis: "set xs \<inter> set bs = {}" "set ss \<inter> set ts = {}" and al: "fresh_laws al" "ample al h"
    and str: "cJSON_strdup str = Some copy" and find: "find_index str 0 (cj_child t) = Some (Some i)"
    and old: "cj_string c = Some old"
  shows "\<exists>h' xs' ss' s. heap_ReplaceItemInObject al a str p h = Some h' \<and>
    item_at h' a (cJSON_ReplaceItemInArray t i (rename_item copy c)) xs' ss' \<and> hp_texts h' s = Some old \<and> s \<notin> set ss'"
proof -
  obtain n where n: "get_node p h = Some n" "node_is h 0 n c" using item unfolding item_at_def chain_Cons by auto
  have s: "hp_texts h (nd_string n) = Some old" using n(2) old by (simp add: node_is_def text_at_def)
  obtain h' xs' ss' where h': "heap_ReplaceItemInObject al a str p h = Some h'"
    "item_at h' a (cJSON_ReplaceItemInArray t i (rename_item copy c)) xs' ss'" "nd_string n \<notin> set ss'"
    "balanced (xs @ bs) (filter (\<lambda>s. s \<noteq> nd_string n) (ss @ ts)) xs' ss' h h'"
    using tree_replace_object [OF arr item n(1) dis al(1) _ _ str find] al(2) unfolding ample_def by blast
  then have "hp_texts h' (nd_string n) = Some old" using s by (simp add: balanced_def)
  then show ?thesis using h' by blast
qed

section \<open>Parsing\<close>

text \<open>
C18. The parser in memory has a defined result whenever the parser of trees has one, however often memory runs out. It returns a
root that stands for the tree of the text, made of nodes and strings that were not in use, so that \<open>cJSON_Delete\<close> gives all of
them back; or the null pointer with the heap as it was before, because the text is malformed, at the place that \<open>ep\<close> then names,
or because there was no memory.
\<close>

theorem json_parse_memory:
  assumes "fresh_laws al" and "cJSON_ParseWithOpts ar text req = Some s"
  shows "\<exists>r h'. heap_ParseWithOpts ar al text req h = Some (r, h') \<and>
    (case r of
       Inl None \<Rightarrow> h' = h \<and> \<not> ample al h
     | Inl (Some ep) \<Rightarrow> h' = h \<and> s = Inl ep
     | Inr (p, q) \<Rightarrow> \<exists>c xs us. s = Inr (c, q) \<and> item_at h' p c xs us \<and> grown h h' xs us \<and> heap_Delete p h' = Some h)"
proof -
  obtain r h' where run: "heap_ParseWithOpts ar al text req h = Some (r, h')"
    and ok: "case r of Inl None \<Rightarrow> h' = h \<and> \<not> ample al h | Inl (Some ep) \<Rightarrow> h' = h \<and> s = Inl ep
      | Inr (c, q) \<Rightarrow> \<exists>t xs us. s = Inr (t, q) \<and> item_at h' c t xs us \<and> grown h h' xs us"
    using heap_ParseWithOpts_law [OF assms] by blast
  show ?thesis
  proof (cases r)
    case (Inl ep)
    then show ?thesis using run ok by (cases ep) auto
  next
    case (Inr cq)
    then obtain c q t xs us where r: "r = Inr (c, q)" "s = Inr (t, q)" "item_at h' c t xs us" "grown h h' xs us"
      using ok by (cases cq) auto
    then show ?thesis using run give_up [OF r(3,4)] by auto
  qed
qed

theorem json_parse_memory_witness:
  "\<exists>p h' xs us. heap_ParseWithOpts int_arith ex_alloc (ascii ''{\"a\":true}'' @ [0]) True ex_heap = Some (Inr (p, [0]), h') \<and>
     item_at h' p (CJSON 6 None 0 0 None [CJSON 1 None 1 0 (Some (ascii ''a'' @ [0])) []]) xs us \<and> heap_Delete p h' = Some ex_heap"
proof -
  let ?t = "CJSON 6 None 0 0 None [CJSON 1 None 1 0 (Some (ascii ''a'' @ [0])) []] :: int cjson"
  let ?s = "Inr (?t, [0]) :: u8 list + int cjson \<times> u8 list"
  have "cJSON_ParseWithOpts int_arith (ascii ''{\"a\":true}'' @ [0]) True = Some ?s" by code_simp
  from json_parse_memory [OF ex_alloc_ok(1) this, of ex_heap] obtain r h' where
    run: "heap_ParseWithOpts int_arith ex_alloc (ascii ''{\"a\":true}'' @ [0]) True ex_heap = Some (r, h')"
    and ok: "case r of Inl None \<Rightarrow> h' = ex_heap \<and> \<not> ample ex_alloc ex_heap
      | Inl (Some ep) \<Rightarrow> h' = ex_heap \<and> ?s = Inl ep
      | Inr (p, q) \<Rightarrow> \<exists>c xs us. ?s = Inr (c, q) \<and> item_at h' p c xs us \<and>
          grown ex_heap h' xs us \<and> heap_Delete p h' = Some ex_heap"
    by blast
  show ?thesis
  proof (cases r)
    case (Inl ep)
    then show ?thesis using ok ex_alloc_ok(3) by (cases ep) simp_all
  next
    case (Inr pq)
    then show ?thesis using run ok by (cases pq) auto
  qed
qed

section \<open>Printing\<close>

text \<open>
C19. Printing an item without references and with terminated strings, formatted or not, always comes back, and writes only inside
what it has allocated. With memory for all that it asks for, it returns the text that the printer of trees gives, with its NUL, in a
string that was not in use; otherwise it may return the null pointer. In either case the texts of the elements and the arrays that
held them have been freed, and nothing else has changed.
\<close>

theorem json_print_memory:
  assumes "fresh_env pe" and "formats_ok (pe_pr pe)" and "chain h prev (c # cs) p = Some (xs, ts, l, e)" and "plain [c]" and "terminated c"
  shows "(\<exists>res q h'. cJSON_Print (pe_pr pe) c = Some res \<and>
      heap_Print (pe_pr pe) (pe_al pe) (pe_aa pe) p h arrs = Some (q, h', arrs) \<and>
      (q = 0 \<and> h' = h \<and> (res = None \<or> \<not> plenty pe h arrs) \<or>
       q \<noteq> 0 \<and> hp_texts h q = None \<and> (\<exists>t. res = Some t \<and> h' = h\<lparr>hp_texts := (hp_texts h)(q \<mapsto> t @ [0])\<rparr>))) \<and>
    (\<exists>res q h'. cJSON_PrintUnformatted (pe_pr pe) c = Some res \<and>
      heap_PrintUnformatted (pe_pr pe) (pe_al pe) (pe_aa pe) p h arrs = Some (q, h', arrs) \<and>
      (q = 0 \<and> h' = h \<and> (res = None \<or> \<not> plenty pe h arrs) \<or>
       q \<noteq> 0 \<and> hp_texts h q = None \<and> (\<exists>t. res = Some t \<and> h' = h\<lparr>hp_texts := (hp_texts h)(q \<mapsto> t @ [0])\<rparr>)))"
proof -
  have *: "\<exists>res q h'. print_value (pe_pr pe) c 0 fmt = Some res \<and>
      heap_print (\<lparr>pe_pr = pe_pr pe, pe_al = pe_al pe, pe_aa = pe_aa pe, pe_fmt = fmt\<rparr>, Print p 0, h, arrs) = Some (q, h', arrs) \<and> text_given (\<not> plenty pe h arrs) h res q h'" for fmt
    using heap_print_item [of "\<lparr>pe_pr = pe_pr pe, pe_al = pe_al pe, pe_aa = pe_aa pe, pe_fmt = fmt\<rparr>"] assms by (simp add: fresh_env_def plenty_def)
  have "p \<noteq> 0" using chain_first [OF assms(3)] by simp
  then show ?thesis using * [of True] * [of False]
    unfolding heap_Print_def heap_PrintUnformatted_def cJSON_Print_def cJSON_PrintUnformatted_def text_given_def by simp
qed

theorem json_print_memory_witness:
  "\<exists>q. q \<noteq> 0 \<and> heap_PrintUnformatted int_printer ex_alloc least_free 1 ex_heap Map.empty =
     Some (q, ex_heap\<lparr>hp_texts := (hp_texts ex_heap)(q \<mapsto> ascii ''{\"a\":5}'' @ [0])\<rparr>, Map.empty)"
proof -
  let ?pe = "\<lparr>pe_pr = int_printer, pe_al = ex_alloc, pe_aa = least_free, pe_fmt = True\<rparr>"
  have "fresh_env ?pe" "plenty ?pe ex_heap Map.empty"
    using ex_alloc_ok by (simp_all add: fresh_env_def plenty_def least_free_laws del: neq0_conv)
  moreover have "chain ex_heap 0 [ex_object] 1 = Some ([1, 2], [1], 1, 0)" using ex_items(1) by (simp add: item_at_def)
  moreover have "plain [ex_object]" "terminated ex_object"
    by (simp_all add: ex_object_def ex_member_def ex_types str_ok_def)
  moreover have "cJSON_PrintUnformatted int_printer ex_object = Some (Some (ascii ''{\"a\":5}''))" by code_simp
  ultimately show ?thesis
    using json_print_memory [of ?pe ex_heap 0 ex_object "[]" 1] int_printer_ok(1) by fastforce
qed

section \<open>Sharing and copying\<close>

text \<open>
C21. A reference to an item, added to an array, shares the children and the string of the item, which stays as it is; and
deleting the array afterwards, or any one of its items, the reference as well, frees nothing of the item.
\<close>

theorem json_reference_survives:
  assumes arr: "item_at h a t xs ss" "\<not> is_reference (cj_type t)"
    and item: "chain h prev (c # cs) p = Some (bs, ts, l, e)" "get_node p h = Some m"
    and dis: "set xs \<inter> set bs = {}" "set ss \<inter> set ts = {}" and al: "fresh_laws al" "ample al h"
  shows "\<exists>ref h' k. heap_AddItemReferenceToArray ar al a p h = Some h' \<and>
    item_at h' a (cJSON_AddItemToArray t (Some (shared c))) (xs @ [ref]) ss \<and>
    get_node ref h' = Some k \<and> nd_child k = nd_child m \<and> nd_valuestring k = nd_valuestring m \<and>
    chain h' prev (c # cs) p = Some (bs, ts, l, e) \<and>
    (\<exists>h2. heap_Delete a h' = Some h2 \<and> (\<forall>q \<in> set xs \<union> {ref}. hp_nodes h2 q = None) \<and>
      chain h2 prev (c # cs) p = Some (bs, ts, l, e)) \<and>
    (\<exists>h2. heap_DeleteItemFromArray a which h' = Some h2 \<and> chain h2 prev (c # cs) p = Some (bs, ts, l, e))"
proof -
  have "al_node al (hp_nodes h) \<noteq> 0" using al(2) unfolding ample_def has_memory_def by blast
  then obtain ref h' k where run: "heap_AddItemReferenceToArray ar al a p h = Some h'"
    and t': "item_at h' a (cJSON_AddItemToArray t (Some (shared c))) (xs @ [ref]) ss" and new: "hp_nodes h ref = None"
    and k: "get_node ref h' = Some k" "nd_child k = nd_child m" "nd_valuestring k = nd_valuestring m"
    and c: "chain h' prev (c # cs) p = Some (bs, ts, l, e)"
    by (rule add_reference_law [where ar = ar, OF arr item dis al(1)]) (rule that)
  have "ref \<notin> set bs" using new item(1) chain_nodes by blast
  then have xs: "set (xs @ [ref]) \<inter> set bs = {}" using dis(1) by auto
  have "heap_Delete a h' = Some (without h' (xs @ [ref]) ss)" by (rule delete_item [OF t'])
  moreover have "chain (without h' (xs @ [ref]) ss) prev (c # cs) p = Some (bs, ts, l, e)"
    by (rule chain_frame [OF c without_same [OF xs dis(2)]])
  ultimately have del: "\<exists>h2. heap_Delete a h' = Some h2 \<and> (\<forall>q \<in> set xs \<union> {ref}. hp_nodes h2 q = None) \<and>
      chain h2 prev (c # cs) p = Some (bs, ts, l, e)" by auto
  have "\<not> is_reference (cj_type (cJSON_AddItemToArray t (Some (shared c))))"
    using arr(2) by (simp add: cJSON_AddItemToArray_def)
  from tree_delete [OF t' this, of which] obtain h2 xs' ss' where h2: "heap_DeleteItemFromArray a which h' = Some h2"
    "balanced (xs @ [ref]) ss xs' ss' h' h2" "set xs' \<subseteq> set (xs @ [ref])" "set ss' \<subseteq> set ss" by blast
  have "chain h2 prev (c # cs) p = Some (bs, ts, l, e)"
    using xs dis(2) h2(3,4) by (intro chain_frame [OF c balanced_same [OF h2(2)]]) auto
  then show ?thesis using run t' k c del h2(1) by blast
qed

theorem json_reference_survives_witness:
  "\<exists>ref h' h2. heap_AddItemReferenceToArray int_arith ex_alloc 1 3 ex_heap = Some h' \<and>
     item_at h' 1 (CJSON 6 None 0 0 None [ex_member, CJSON 259 None 7 7 None []]) [1, 2, ref] [1] \<and>
     heap_Delete 1 h' = Some h2 \<and> chain h2 0 [ex_number] 3 = Some ([3], [], 3, 0)"
proof -
  have "cJSON_AddItemToArray ex_object (Some (shared ex_number)) = CJSON 6 None 0 0 None [ex_member, CJSON 259 None 7 7 None []]"
    by (simp add: cJSON_AddItemToArray_def ex_object_def shared_def ex_number_def cJSON_IsReference_def)
  with json_reference_survives [OF ex_items(1) _ ex_items(3,4) _ _ ex_alloc_ok(1,3), of int_arith]
  show ?thesis by (simp add: ex_object_def ex_types) blast
qed

text \<open>
C20. Duplicating an item without references, with or without its children, always comes back, and has either made the tree that
\<open>cJSON_Duplicate\<close> makes, in nodes and strings that were not in use before, or has run out of memory: then it returns the null
pointer and the heap is what it was, whatever had been allocated on the way.
\<close>

theorem json_duplicate_or_unchanged:
  assumes "fresh_laws al" and "chain h prev (c # cs) p = Some (as, ss, l, e)" and "plain [c]"
    and "cJSON_Duplicate c recurse = Some c'"
  shows "\<exists>new h'. heap_Duplicate ar al p recurse h = Some (new, h') \<and>
    (new = 0 \<and> h' = h \<and> \<not> ample al h \<or>
     (\<exists>xs us. item_at h' new c' xs us \<and> set xs \<inter> set as = {} \<and> set us \<inter> set ss = {} \<and>
       (\<forall>q. if q \<in> set xs then hp_nodes h q = None else hp_nodes h' q = hp_nodes h q) \<and>
       (\<forall>q. if q \<in> set us then hp_texts h q = None else hp_texts h' q = hp_texts h q)))"
proof -
  obtain new h' where run: "heap_Duplicate ar al p recurse h = Some (new, h')" and copied: "copied al h c' (new, h')"
    using heap_Duplicate_law [where ar = ar, OF assms] by auto
  show ?thesis
  proof (rule copied_cases [OF copied])
    fix q k xs us assume r: "(new, h') = (q, k)" "item_at k q c' xs us" and g: "grown h k xs us"
    note apart = grown_apart(1,2) [OF g assms(2)]
    show ?thesis using run r g [unfolded grown_def] apart by (intro exI conjI disjI2) auto
  qed (use run in auto)
qed

theorem json_duplicate_or_unchanged_witness:
  "\<exists>new h' xs us. heap_Duplicate int_arith ex_alloc 1 True ex_heap = Some (new, h') \<and> item_at h' new ex_object xs us \<and>
     set xs \<inter> {1, 2} = {} \<and> set us \<inter> {1} = {}"
proof -
  have "chain ex_heap 0 (ex_object # []) 1 = Some ([1, 2], [1], 1, 0)" using ex_items(1) by (simp add: item_at_def)
  moreover have "plain [ex_object]" by (simp add: ex_object_def ex_member_def ex_types)
  moreover have "(6 AND NOT 256) = (6 :: int)" "(3 AND NOT 256) = (3 :: int)" by simp_all
  then have "cJSON_Duplicate ex_object True = Some ex_object"
    by (simp add: ex_object_def ex_member_def dup_string_def cJSON_strdup_def cstr_def ascii_def cJSON_IsReference_def)
  ultimately have "\<exists>new h'. heap_Duplicate int_arith ex_alloc 1 True ex_heap = Some (new, h') \<and>
    (new = 0 \<and> h' = ex_heap \<and> \<not> ample ex_alloc ex_heap \<or>
     (\<exists>xs us. item_at h' new ex_object xs us \<and> set xs \<inter> set [1, 2] = {} \<and> set us \<inter> set [1] = {} \<and>
       (\<forall>q. if q \<in> set xs then hp_nodes ex_heap q = None else hp_nodes h' q = hp_nodes ex_heap q) \<and>
       (\<forall>q. if q \<in> set us then hp_texts ex_heap q = None else hp_texts h' q = hp_texts ex_heap q)))"
    by (rule json_duplicate_or_unchanged [OF ex_alloc_ok(1)])
  then show ?thesis using ex_alloc_ok(3) by auto
qed

end
