(* ===== verification/Ctrl_Client.thy ===== *)
theory Ctrl_Client
  imports Agent Cjson_Print
begin

text \<open>
  The command line client of the agent (\<open>src/admlink-ctrl/admlink_ctrl.c\<close>, \<open>admlink_ctrl_sock.c\<close>): it
  connects to the socket of the control interface, sends its arguments as one datagram and waits for the
  reply. It is a process of its own, with a world of its own.
\<close>

subsection \<open>State and world\<close>

text \<open>A connection is in memory that \<open>malloc\<close> has given: \<open>ac_ptr\<close> is the address of the struct.\<close>

record admlink_ctrl =
  ac_ptr :: nat
  ac_s :: int
  ac_local :: cstring
  ac_dest :: cstring

text \<open>
  \<open>ci_counter\<close> is the static counter of \<open>admlink_ctrl_open\<close>, which is taken not to overflow, \<open>ci_conn\<close> the
  global \<open>ctrl_conn\<close>.
\<close>

record 'e client_state =
  ci_counter :: int
  ci_conn :: "admlink_ctrl option"
  ci_ext :: 'e

text \<open>
  The calls of the operating system and of the allocator. \<open>cx_malloc\<close> gives the address of a new block,
  or 0 when there is no memory, and \<open>cx_free\<close> gives a block back. \<open>cx_select\<close> tells whether the descriptor is in the set after \<open>select\<close>,
  \<open>cx_recv\<close> what \<open>recv\<close> has read (or that it has failed), \<open>cx_readdir\<close> the names in a directory, if it can
  be opened. \<open>cx_stack\<close> is what is in the buffer for the reply before it is used.
\<close>

record 'e client_env =
  cx_getpid :: int
  cx_stack :: "u8 list"
  cx_malloc :: "'e \<Rightarrow> nat \<times> 'e"
  cx_free :: "nat \<Rightarrow> 'e \<Rightarrow> 'e"
  cx_socket :: "'e \<Rightarrow> int \<times> 'e"
  cx_bind :: "int \<Rightarrow> cstring \<Rightarrow> 'e \<Rightarrow> bool \<times> 'e"
  cx_connect :: "int \<Rightarrow> cstring \<Rightarrow> 'e \<Rightarrow> bool \<times> 'e"
  cx_send :: "int \<Rightarrow> u8 list \<Rightarrow> 'e \<Rightarrow> bool \<times> 'e"
  cx_select :: "int \<Rightarrow> nat \<Rightarrow> 'e \<Rightarrow> bool \<times> 'e"
  cx_recv :: "int \<Rightarrow> nat \<Rightarrow> 'e \<Rightarrow> u8 list option \<times> 'e"
  cx_close :: "int \<Rightarrow> 'e \<Rightarrow> 'e"
  cx_unlink :: "cstring \<Rightarrow> 'e \<Rightarrow> 'e"
  cx_readdir :: "cstring \<Rightarrow> 'e \<Rightarrow> cstring list option \<times> 'e"
  cx_sleep :: "nat \<Rightarrow> 'e \<Rightarrow> 'e"
  cx_print :: "u8 list \<Rightarrow> 'e \<Rightarrow> 'e"

definition sys_call :: "('e \<Rightarrow> 'a \<times> 'e) \<Rightarrow> 'e client_state \<Rightarrow> 'a \<times> 'e client_state" where
  "sys_call f st = (case f (ci_ext st) of (r, e) \<Rightarrow> (r, st\<lparr>ci_ext := e\<rparr>))"

definition sys_do :: "('e \<Rightarrow> 'e) \<Rightarrow> 'e client_state \<Rightarrow> 'e client_state" where
  "sys_do f st = st\<lparr>ci_ext := f (ci_ext st)\<rparr>"

definition STR_REPLY_ERROR :: cstring where
  "STR_REPLY_ERROR = ascii ''error'' @ [0x0A]"

subsection \<open>The connection\<close>

definition SUN_PATH_SIZE :: nat where "SUN_PATH_SIZE = 108"

definition admlink_ctrl_open :: "'e client_env \<Rightarrow> cstring \<Rightarrow> 'e client_state \<Rightarrow> admlink_ctrl option \<times> 'e client_state" where
  "admlink_ctrl_open X ctrl_path st =
     (let (ctrl, st) = sys_call (cx_malloc X) st
      in if ctrl = 0 then (None, st)
         else let (s, st) = sys_call (cx_socket X) st
              in if s < 0 then (None, sys_do (cx_free X ctrl) st)
                 else let local = snprintf SUN_PATH_SIZE
                        (ascii ''/var/admlink_ctrl_'' @ decimal (cx_getpid X) @ ascii ''-'' @ decimal (ci_counter st));
                          (ok, st) = sys_call (cx_bind X s local) (st\<lparr>ci_counter := ci_counter st + 1\<rparr>)
                      in if \<not> ok then (None, sys_do (cx_free X ctrl) (sys_do (cx_close X s) st))
                         else let dest = snprintf SUN_PATH_SIZE ctrl_path;
                                  (ok, st) = sys_call (cx_connect X s dest) st
                              in if \<not> ok
                                 then (None, sys_do (cx_free X ctrl) (sys_do (cx_unlink X local) (sys_do (cx_close X s) st)))
                                 else (Some \<lparr>ac_ptr = ctrl, ac_s = s, ac_local = local, ac_dest = dest\<rparr>, st))"

definition admlink_ctrl_close :: "'e client_env \<Rightarrow> admlink_ctrl \<Rightarrow> 'e client_state \<Rightarrow> 'e client_state" where
  "admlink_ctrl_close X ctrl st =
     sys_do (cx_free X (ac_ptr ctrl)) (sys_do (cx_close X (ac_s ctrl)) (sys_do (cx_unlink X (ac_local ctrl)) st))"

text \<open>
  The loop of \<open>admlink_ctrl_request\<close> that waits for the reply; what starts with \<open><\<close> goes to the callback
  instead. The loop ends when there is a reply or nothing comes for 42 seconds. The results are the
  status, the buffer, and the length of the reply.
\<close>

partial_function (option) request_loop ::
  "'e client_env \<Rightarrow> int \<Rightarrow> (u8 list \<Rightarrow> 'e client_state \<Rightarrow> 'e client_state) option \<Rightarrow> u8 list \<Rightarrow> nat \<Rightarrow> 'e client_state \<Rightarrow>
   (int \<times> u8 list \<times> nat \<times> 'e client_state) option" where
  [code]: "request_loop X s msg_cb reply reply_len st =
     (if s < 0 \<or> s \<ge> FD_SETSIZE then None
      else let (ready, st) = sys_call (cx_select X s 42) st
           in if \<not> ready then Some (- 2, reply, reply_len, st)
              else let (r, st) = sys_call (cx_recv X s reply_len) st
                   in case r of None \<Rightarrow> Some (- 1, reply, reply_len, st)
                      | Some bs \<Rightarrow>
                          if length bs > reply_len \<or> length bs > length reply then None
                          else let reply = overwrite reply 0 bs
                               in if bs \<noteq> [] \<and> hd bs = 0x3C
                                  then (case msg_cb of None \<Rightarrow> request_loop X s msg_cb reply reply_len st
                                    | Some cb \<Rightarrow> do {
                                        reply \<leftarrow> poke reply (if length bs = reply_len then reply_len - 1 else length bs) 0;
                                        request_loop X s msg_cb reply reply_len (cb (cstr reply) st)
                                      })
                                  else Some (0, reply, length bs, st))"

definition admlink_ctrl_request ::
  "'e client_env \<Rightarrow> admlink_ctrl \<Rightarrow> u8 list \<Rightarrow> u8 list \<Rightarrow> nat \<Rightarrow>
   (u8 list \<Rightarrow> 'e client_state \<Rightarrow> 'e client_state) option \<Rightarrow> 'e client_state \<Rightarrow>
   (int \<times> u8 list \<times> nat \<times> 'e client_state) option" where
  "admlink_ctrl_request X ctrl cmd reply reply_len msg_cb st =
     (let (ok, st) = sys_call (cx_send X (ac_s ctrl) cmd) st
      in if \<not> ok then Some (- 1, reply, reply_len, st) else request_loop X (ac_s ctrl) msg_cb reply reply_len st)"

subsection \<open>The program\<close>

definition admlink_cli_open_connection :: "'e client_env \<Rightarrow> cstring \<Rightarrow> cstring option \<Rightarrow> 'e client_state \<Rightarrow> 'e client_state" where
  "admlink_cli_open_connection X ctrl_iface_dir ifname st = (case ifname of None \<Rightarrow> st\<lparr>ci_conn := None\<rparr>
     | Some name \<Rightarrow>
         let flen = length ctrl_iface_dir + length name + 2;
             (cfile, st) = sys_call (cx_malloc X) st
         in if cfile = 0 then st\<lparr>ci_conn := None\<rparr>
            else let (ctrl, st) = admlink_ctrl_open X (snprintf flen (ctrl_iface_dir @ ascii ''/'' @ name)) st
                 in (sys_do (cx_free X cfile) st)\<lparr>ci_conn := ctrl\<rparr>)"

definition admlink_cli_close_connection :: "'e client_env \<Rightarrow> 'e client_state \<Rightarrow> 'e client_state" where
  "admlink_cli_close_connection X st = (case ci_conn st of None \<Rightarrow> st
     | Some ctrl \<Rightarrow> (admlink_ctrl_close X ctrl st)\<lparr>ci_conn := None\<rparr>)"

definition admlink_cli_msg_cb :: "'e client_env \<Rightarrow> u8 list \<Rightarrow> 'e client_state \<Rightarrow> 'e client_state" where
  "admlink_cli_msg_cb X msg st = sys_do (cx_print X (msg @ [0x0A])) st"

text \<open>\<open>_admlink_ctrl_command\<close>, which is always called with \<open>print\<close> set.\<close>

definition admlink_ctrl_command :: "'e client_env \<Rightarrow> u8 list \<Rightarrow> 'e client_state \<Rightarrow> (int \<times> 'e client_state) option" where
  "admlink_ctrl_command X cmd st = (case ci_conn st of
     None \<Rightarrow> Some (- 1, sys_do (cx_print X (ascii ''Not connected to admlink - command dropped.'' @ [0x0A])) st)
   | Some ctrl \<Rightarrow> do {
       (ret, buf, len, st) \<leftarrow> admlink_ctrl_request X ctrl cmd (cx_stack X) 1023 (Some (admlink_cli_msg_cb X)) st;
       if ret = - 2 then Some (- 2, sys_do (cx_print X ([0x27] @ cmd @ [0x27] @ ascii '' command timed out.'' @ [0x0A])) st)
       else if ret < 0 then Some (- 1, sys_do (cx_print X ([0x27] @ cmd @ [0x27] @ ascii '' command failed.'' @ [0x0A])) st)
       else do {
         buf \<leftarrow> poke buf len 0;
         let ret = (if take (length STR_REPLY_ERROR) buf = STR_REPLY_ERROR then - 10 else ret);
         Some (ret, sys_do (cx_print X (ascii ''['' @ cstr buf @ ascii '']'' @ [0x0A])) st)
       }
     })"

text \<open>The arguments, with a blank between them, in a buffer of 1024 bytes.\<close>

fun append_args :: "u8 list \<Rightarrow> cstring list \<Rightarrow> u8 list option" where
  "append_args buf [] = Some buf"
| "append_args buf (a # as) = do { buf \<leftarrow> sprintf 1024 (buf @ ascii '' '' @ a); append_args buf as }"

definition sysconf_request :: "'e client_env \<Rightarrow> cstring list \<Rightarrow> 'e client_state \<Rightarrow> (int \<times> 'e client_state) option" where
  "sysconf_request X args st = (case args of [] \<Rightarrow> None
     | a # as \<Rightarrow> do {
         buf \<leftarrow> sprintf 1024 a;
         buf \<leftarrow> append_args buf as;
         admlink_ctrl_command X buf st
       })"

text \<open>The options that \<open>getopt\<close> finds: what ends the program, or the interface and the directory.\<close>

fun cli_options :: "(char \<times> cstring) list \<Rightarrow> cstring option \<Rightarrow> cstring \<Rightarrow> int + cstring option \<times> cstring" where
  "cli_options [] ifname dir = Inr (ifname, dir)"
| "cli_options ((c, optarg) # opts) ifname dir =
     (if c = CHR ''v'' then Inl 0
      else if c = CHR ''i'' then cli_options opts (Some optarg) dir
      else if c = CHR ''p'' then cli_options opts ifname optarg
      else Inl (- 1))"

text \<open>The first name in the directory that is not \<open>.\<close> or \<open>..\<close>.\<close>

fun first_name :: "cstring list \<Rightarrow> cstring option" where
  "first_name [] = None"
| "first_name (n # ns) = (if n = ascii ''.'' \<or> n = ascii ''..'' then first_name ns else Some n)"

definition find_ifname :: "'e client_env \<Rightarrow> cstring \<Rightarrow> cstring option \<Rightarrow> 'e client_state \<Rightarrow> cstring option \<times> 'e client_state" where
  "find_ifname X dir ifname st = (case ifname of Some name \<Rightarrow> (ifname, st)
     | None \<Rightarrow> let (names, st) = sys_call (cx_readdir X dir) st
               in (case names of None \<Rightarrow> None | Some ns \<Rightarrow> first_name ns, st))"

text \<open>
  The loop that connects: with a command to send it tries once. \<open>False\<close> when it has given up (what
  \<open>perror\<close> writes then is left out). A name is kept from one attempt to the next; the copy that
  \<open>strdup\<close> makes of it, and its \<open>free\<close> at the end of \<open>main\<close>, are not modelled.
\<close>

partial_function (option) connect_agent ::
  "'e client_env \<Rightarrow> bool \<Rightarrow> cstring \<Rightarrow> cstring option \<Rightarrow> bool \<Rightarrow> 'e client_state \<Rightarrow> (bool \<times> 'e client_state) option" where
  [code]: "connect_agent X interactive dir ifname warned st =
     (let (ifname, st) = find_ifname X dir ifname st;
          st = admlink_cli_open_connection X dir ifname st
      in if ci_conn st \<noteq> None
         then Some (True, if warned then sys_do (cx_print X (ascii ''Connection established.'' @ [0x0A])) st else st)
         else if \<not> interactive then Some (False, st)
         else connect_agent X interactive dir ifname True (sys_do (cx_sleep X 1)
           (if warned then st
            else sys_do (cx_print X (ascii ''Could not connect to admlink - re-trying'' @ [0x0A])) st)))"

definition cli_main :: "'e client_env \<Rightarrow> (char \<times> cstring) list \<Rightarrow> cstring list \<Rightarrow> 'e client_state \<Rightarrow> (int \<times> 'e client_state) option" where
  "cli_main X opts args st = (case cli_options opts None CTRL_INTERFACE of
     Inl ret \<Rightarrow> Some (ret, st)
   | Inr (ifname, dir) \<Rightarrow> do {
       (ok, st) \<leftarrow> connect_agent X (args = []) dir ifname False st;
       if \<not> ok then Some (- 1, st)
       else do {
         (ret, st) \<leftarrow> (if args = [] then Some (- 999, st) else sysconf_request X args st);
         Some (ret, admlink_cli_close_connection X st)
       }
     })"

end
