(* ===== verification/Ctrl_Properties.thy ===== *)
theory Ctrl_Properties
  imports Ctrl_Client
begin

text \<open>
  The properties of the command line client, with witnesses in a concrete world.
\<close>

section \<open>A world to apply the properties to\<close>

text \<open>
  An agent that answers every datagram with a note and then \<open>OK\<close>, one descriptor, two blocks of memory,
  and no trouble.
\<close>

record client_world =
  cw_inbox :: "u8 list list"
  cw_printed :: "u8 list"
  cw_socks :: "int set"
  cw_paths :: "cstring set"
  cw_blocks :: "nat set"

definition busy_note :: "u8 list" where "busy_note = 0x3C # ascii ''note''"

definition echo_client :: "client_world client_env" where
  "echo_client = \<lparr>cx_getpid = 7, cx_stack = replicate 1024 0,
     cx_malloc = (\<lambda>e. if 1 \<notin> cw_blocks e then (1, e\<lparr>cw_blocks := insert 1 (cw_blocks e)\<rparr>)
       else if 2 \<notin> cw_blocks e then (2, e\<lparr>cw_blocks := insert 2 (cw_blocks e)\<rparr>) else (0, e)),
     cx_free = (\<lambda>p e. e\<lparr>cw_blocks := cw_blocks e - {p}\<rparr>),
     cx_socket = (\<lambda>e. if 3 \<in> cw_socks e then (- 1, e) else (3, e\<lparr>cw_socks := insert 3 (cw_socks e)\<rparr>)),
     cx_bind = (\<lambda>s p e. if p \<in> cw_paths e then (False, e) else (True, e\<lparr>cw_paths := insert p (cw_paths e)\<rparr>)),
     cx_connect = (\<lambda>s p e. (True, e)), cx_send = (\<lambda>s bs e. (True, e\<lparr>cw_inbox := [busy_note, ascii ''OK'']\<rparr>)),
     cx_select = (\<lambda>s secs e. (cw_inbox e \<noteq> [], e)),
     cx_recv = (\<lambda>s n e. case cw_inbox e of [] \<Rightarrow> (None, e) | m # ms \<Rightarrow> (Some (take n m), e\<lparr>cw_inbox := ms\<rparr>)),
     cx_close = (\<lambda>s e. e\<lparr>cw_socks := cw_socks e - {s}\<rparr>), cx_unlink = (\<lambda>p e. e\<lparr>cw_paths := cw_paths e - {p}\<rparr>),
     cx_readdir = (\<lambda>d e. (Some [ascii ''if0''], e)), cx_sleep = (\<lambda>n e. e),
     cx_print = (\<lambda>bs e. e\<lparr>cw_printed := cw_printed e @ bs\<rparr>)\<rparr>"

definition idle_client :: "client_world client_state" where
  "idle_client = \<lparr>ci_counter = 0, ci_conn = None, ci_ext = \<lparr>cw_inbox = [], cw_printed = [], cw_socks = {}, cw_paths = {}, cw_blocks = {}\<rparr>\<rparr>"

definition waiting_client :: "client_world client_state" where
  "waiting_client = idle_client\<lparr>ci_conn := Some \<lparr>ac_ptr = 1, ac_s = 3, ac_local = ascii ''/var/c'', ac_dest = ascii ''/var/d''\<rparr>,
     ci_ext := (ci_ext idle_client)\<lparr>cw_inbox := [busy_note, ascii ''OK'']\<rparr>\<rparr>"

section \<open>Waiting for the reply\<close>

text \<open>
  A datagram socket: \<open>inbox\<close> is what waits to be read, \<open>printed\<close> what the program has written. \<open>select\<close> tells
  whether something waits, \<open>recv\<close> reads one datagram and drops what does not fit.
\<close>

definition socket_laws :: "'e client_env \<Rightarrow> ('e \<Rightarrow> u8 list list) \<Rightarrow> ('e \<Rightarrow> u8 list) \<Rightarrow> bool" where
  "socket_laws X inbox printed \<longleftrightarrow>
     (\<forall>s secs e. fst (cx_select X s secs e) = (inbox e \<noteq> []) \<and> inbox (snd (cx_select X s secs e)) = inbox e \<and>
        printed (snd (cx_select X s secs e)) = printed e) \<and>
     (\<forall>s n e m ms. inbox e = m # ms \<longrightarrow> fst (cx_recv X s n e) = Some (take n m) \<and> inbox (snd (cx_recv X s n e)) = ms \<and>
        printed (snd (cx_recv X s n e)) = printed e) \<and>
     (\<forall>bs e. inbox (cx_print X bs e) = inbox e \<and> printed (cx_print X bs e) = printed e @ bs)"

definition unsolicited :: "u8 list \<Rightarrow> bool" where
  "unsolicited m \<longleftrightarrow> m \<noteq> [] \<and> hd m = 0x3C"

lemma echo_socket: "socket_laws echo_client cw_inbox cw_printed"
  by (auto simp: socket_laws_def echo_client_def)

lemma socket_select:
  assumes "socket_laws X inbox printed"
  shows "\<exists>e'. cx_select X s secs e = (inbox e \<noteq> [], e') \<and> inbox e' = inbox e \<and> printed e' = printed e"
proof -
  have "fst (cx_select X s secs e) = (inbox e \<noteq> []) \<and> inbox (snd (cx_select X s secs e)) = inbox e \<and>
      printed (snd (cx_select X s secs e)) = printed e" using assms unfolding socket_laws_def by blast
  then show ?thesis by (cases "cx_select X s secs e") simp
qed

lemma socket_recv:
  assumes "socket_laws X inbox printed" and "inbox e = m # ms"
  shows "\<exists>e'. cx_recv X s n e = (Some (take n m), e') \<and> inbox e' = ms \<and> printed e' = printed e"
proof -
  have "fst (cx_recv X s n e) = Some (take n m) \<and> inbox (snd (cx_recv X s n e)) = ms \<and>
      printed (snd (cx_recv X s n e)) = printed e" using assms unfolding socket_laws_def by blast
  then show ?thesis by (cases "cx_recv X s n e") simp
qed

text \<open>One datagram of the loop.\<close>

lemma request_step:
  assumes laws: "socket_laws X inbox printed" and s: "0 \<le> s" "s < FD_SETSIZE" and n: "0 < n" "n \<le> length reply"
    and inb: "inbox (ci_ext st) = m # ms"
  shows "\<exists>st'. inbox (ci_ext st') = ms \<and> printed (ci_ext st') = printed (ci_ext st) \<and>
    request_loop X s (Some cb) reply n st =
      (if unsolicited m
       then request_loop X s (Some cb) ((overwrite reply 0 (take n m))[min (length m) (n - 1) := 0]) n
         (cb (cstr (take (n - 1) m)) st')
       else Some (0, overwrite reply 0 (take n m), min (length m) n, st'))"
proof -
  obtain e1 where sel: "cx_select X s 42 (ci_ext st) = (True, e1)" "inbox e1 = m # ms" "printed e1 = printed (ci_ext st)"
    using socket_select [OF laws, of s 42 "ci_ext st"] inb by auto
  obtain e2 where rec: "cx_recv X s n e1 = (Some (take n m), e2)" "inbox e2 = ms" "printed e2 = printed (ci_ext st)"
    using socket_recv [OF laws sel(2), of s n] sel(3) by auto
  let ?reply = "overwrite reply 0 (take n m)" and ?res = "min (length m) (n - 1)"
  have res: "(if length (take n m) = n then n - 1 else length (take n m)) = ?res" using n by auto
  have poke: "poke ?reply ?res 0 = Some (?reply[?res := 0])" using n by (simp add: poke_def)
  have "cstr (?reply[?res := 0]) = cstr (take ?res ?reply)"
  proof -
    have "?reply[?res := 0] = take ?res ?reply @ 0 # drop (Suc ?res) ?reply" using n by (intro upd_conv_take_nth_drop) simp
    moreover have "cstr (xs @ 0 # ys) = cstr xs" for xs ys by (induction xs) (simp_all add: cstr_def)
    ultimately show ?thesis by metis
  qed
  moreover have "take ?res ?reply = take (n - 1) m" using n by (auto simp: overwrite_def min_def)
  ultimately have str: "cstr (?reply[?res := 0]) = cstr (take (n - 1) m)" by simp
  have un: "unsolicited m \<longleftrightarrow> take n m \<noteq> [] \<and> hd (take n m) = 0x3C" using n by (auto simp: unsolicited_def)
  let ?st = "st\<lparr>ci_ext := e2\<rparr>"
  obtain bs where bs: "bs = take n m" by simp
  have "request_loop X s (Some cb) reply n st =
      (if bs \<noteq> [] \<and> hd bs = 0x3C
       then do { reply \<leftarrow> poke (overwrite reply 0 bs) (if length bs = n then n - 1 else length bs) 0;
         request_loop X s (Some cb) reply n (cb (cstr reply) ?st) }
       else Some (0, overwrite reply 0 bs, length bs, ?st))"
    using s n sel(1) rec(1) unfolding bs [symmetric]
    by (subst request_loop.simps) (simp add: sys_call_def Let_def bs)
  also have "\<dots> = (if unsolicited m then request_loop X s (Some cb) (?reply[?res := 0]) n (cb (cstr (take (n - 1) m)) ?st)
      else Some (0, ?reply, length bs, ?st))"
    unfolding un res poke bs by (simp only: bind.simps str)
  finally show ?thesis using rec(2,3) by (intro exI [of _ ?st]) (simp add: bs min.commute)
qed

text \<open>The messages that come before the reply, each with its NUL to the callback.\<close>

lemma request_drains:
  assumes laws: "socket_laws X inbox printed" and s: "0 \<le> s" "s < FD_SETSIZE" and n: "0 < n" "n \<le> length reply"
    and msgs: "\<forall>m \<in> set ms. unsolicited m" and inb: "inbox (ci_ext st) = ms @ rest"
  shows "\<exists>reply' st'. request_loop X s (Some (admlink_cli_msg_cb X)) reply n st =
      request_loop X s (Some (admlink_cli_msg_cb X)) reply' n st' \<and>
    length reply' = length reply \<and> inbox (ci_ext st') = rest \<and>
    printed (ci_ext st') = printed (ci_ext st) @ concat (map (\<lambda>m. cstr (take (n - 1) m) @ [0x0A]) ms)"
  using msgs inb n(2)
proof (induction ms arbitrary: reply st)
  case Nil
  then show ?case by (intro exI [of _ reply] exI [of _ st]) simp
next
  case (Cons m ms)
  let ?reply = "(overwrite reply 0 (take n m))[min (length m) (n - 1) := 0]"
  obtain st1 where 1: "inbox (ci_ext st1) = ms @ rest" "printed (ci_ext st1) = printed (ci_ext st)"
    "request_loop X s (Some (admlink_cli_msg_cb X)) reply n st =
      request_loop X s (Some (admlink_cli_msg_cb X)) ?reply n (admlink_cli_msg_cb X (cstr (take (n - 1) m)) st1)"
    using request_step [OF laws s n(1) Cons.prems(3), of st m "ms @ rest" "admlink_cli_msg_cb X"] Cons.prems(1,2) by auto
  let ?st = "admlink_cli_msg_cb X (cstr (take (n - 1) m)) st1"
  have st: "inbox (ci_ext ?st) = ms @ rest" "printed (ci_ext ?st) = printed (ci_ext st) @ cstr (take (n - 1) m) @ [0x0A]"
    using laws 1(1,2) by (simp_all add: socket_laws_def admlink_cli_msg_cb_def sys_do_def)
  have len: "length ?reply = length reply" using Cons.prems(3) by simp
  then have "n \<le> length ?reply" using Cons.prems(3) by simp
  from Cons.IH [OF _ st(1) this] Cons.prems(1) 1(3) st(2) len show ?case by simp
qed

text \<open>The datagram that ends the loop.\<close>

lemma request_ends:
  assumes "socket_laws X inbox printed" and "0 \<le> s" "s < FD_SETSIZE" and "0 < n" "n \<le> length reply"
    and "inbox (ci_ext st) = r # rs" and "\<not> unsolicited r"
  shows "\<exists>reply' st'. request_loop X s (Some cb) reply n st = Some (0, reply', min (length r) n, st') \<and>
    length reply' = length reply \<and> take (min (length r) n) reply' = take n r \<and> inbox (ci_ext st') = rs \<and>
    printed (ci_ext st') = printed (ci_ext st)"
proof -
  obtain st' where "inbox (ci_ext st') = rs" "printed (ci_ext st') = printed (ci_ext st)"
    "request_loop X s (Some cb) reply n st = Some (0, overwrite reply 0 (take n r), min (length r) n, st')"
    using request_step [OF assms(1-6), of cb] assms(7) by auto
  moreover have "take (min (length r) n) (overwrite reply 0 (take n r)) = take n r" by (auto simp: overwrite_def min_def)
  ultimately show ?thesis using assms(5) by (intro exI [of _ "overwrite reply 0 (take n r)"] exI [of _ st']) simp
qed

text \<open>
C31. The request to the agent ends with the first datagram that is no unsolicited message as the reply,
cut to the size of the buffer, and hands every message before it, each with its NUL, to the callback; when
nothing else comes it ends with the status of a timeout.
\<close>

theorem request_returns_reply:
  assumes laws: "socket_laws X inbox printed" and s: "0 \<le> s" "s < FD_SETSIZE" and n: "0 < n" "n \<le> length reply"
    and msgs: "\<forall>m \<in> set ms. unsolicited m" and inb: "inbox (ci_ext st) = ms @ rest"
    and rest: "rest = [] \<or> \<not> unsolicited (hd rest)"
  shows "\<exists>reply' len st'. length reply' = length reply \<and>
    request_loop X s (Some (admlink_cli_msg_cb X)) reply n st = Some (if rest = [] then - 2 else 0, reply', len, st') \<and>
    (rest \<noteq> [] \<longrightarrow> len = min (length (hd rest)) n \<and> take len reply' = take n (hd rest)) \<and>
    inbox (ci_ext st') = tl rest \<and>
    printed (ci_ext st') = printed (ci_ext st) @ concat (map (\<lambda>m. cstr (take (n - 1) m) @ [0x0A]) ms)"
proof -
  obtain reply1 st1 where 1: "request_loop X s (Some (admlink_cli_msg_cb X)) reply n st =
      request_loop X s (Some (admlink_cli_msg_cb X)) reply1 n st1" "length reply1 = length reply" "inbox (ci_ext st1) = rest"
    "printed (ci_ext st1) = printed (ci_ext st) @ concat (map (\<lambda>m. cstr (take (n - 1) m) @ [0x0A]) ms)"
    using request_drains [OF laws s n msgs inb] by blast
  show ?thesis
  proof (cases rest)
    case Nil
    obtain e where "cx_select X s 42 (ci_ext st1) = (False, e)" "printed e = printed (ci_ext st1)" "inbox e = []"
      using socket_select [OF laws, of s 42 "ci_ext st1"] 1(3) Nil by auto
    then show ?thesis using s Nil 1
      by (intro exI [of _ reply1] exI [of _ n] exI [of _ "st1\<lparr>ci_ext := e\<rparr>"])
        (simp, subst request_loop.simps, simp add: sys_call_def)
  next
    case (Cons r rs)
    then have "n \<le> length reply1" "inbox (ci_ext st1) = r # rs" "\<not> unsolicited r" using n 1 rest by simp_all
    from request_ends [OF laws s n(1) this, of "admlink_cli_msg_cb X"] 1 Cons show ?thesis by auto
  qed
qed

theorem request_returns_reply_witness:
  "\<exists>reply st. request_loop echo_client 3 (Some (admlink_cli_msg_cb echo_client)) (replicate 8 0) 8 waiting_client = Some (0, reply, 2, st) \<and>
     take 2 reply = ascii ''OK'' \<and> cw_printed (ci_ext st) = busy_note @ [0x0A]"
proof -
  have "\<not> unsolicited (ascii ''OK'')" "unsolicited busy_note" by (simp_all add: unsolicited_def ascii_def busy_note_def)
  moreover have "cstr (take 7 busy_note) = busy_note" "take 8 (ascii ''OK'') = ascii ''OK''"
    "length (ascii ''OK'') = 2" by (simp_all add: busy_note_def ascii_def cstr_def)
  ultimately show ?thesis
    using request_returns_reply [OF echo_socket, of 3 8 "replicate 8 0" "[busy_note]" waiting_client "[ascii ''OK'']"]
    by (auto simp: FD_SETSIZE_def waiting_client_def idle_client_def)
qed

section \<open>Opening and closing\<close>

text \<open>
  What the program holds of the system: the sockets that are open, the paths in the file system, and the
  blocks of memory. Every call changes them as its manual page says; \<open>socket\<close> and \<open>malloc\<close> give something
  that is not in use, and \<open>bind\<close> only makes a path that is not there.
\<close>

definition resource_laws ::
  "'e client_env \<Rightarrow> ('e \<Rightarrow> int set) \<Rightarrow> ('e \<Rightarrow> cstring set) \<Rightarrow> ('e \<Rightarrow> nat set) \<Rightarrow> bool" where
  "resource_laws X socks paths blocks \<longleftrightarrow>
     (\<forall>e p e'. cx_malloc X e = (p, e') \<longrightarrow> socks e' = socks e \<and> paths e' = paths e \<and>
        (if p = 0 then blocks e' = blocks e else p \<notin> blocks e \<and> blocks e' = insert p (blocks e))) \<and>
     (\<forall>p e. socks (cx_free X p e) = socks e \<and> paths (cx_free X p e) = paths e \<and>
        blocks (cx_free X p e) = blocks e - {p}) \<and>
     (\<forall>e s e'. cx_socket X e = (s, e') \<longrightarrow> paths e' = paths e \<and> blocks e' = blocks e \<and>
        (if s < 0 then socks e' = socks e else s \<notin> socks e \<and> socks e' = insert s (socks e))) \<and>
     (\<forall>s p e ok e'. cx_bind X s p e = (ok, e') \<longrightarrow> socks e' = socks e \<and> blocks e' = blocks e \<and>
        (if ok then p \<notin> paths e \<and> paths e' = insert p (paths e) else paths e' = paths e)) \<and>
     (\<forall>s p e ok e'. cx_connect X s p e = (ok, e') \<longrightarrow> socks e' = socks e \<and> paths e' = paths e \<and> blocks e' = blocks e) \<and>
     (\<forall>s e. socks (cx_close X s e) = socks e - {s} \<and> paths (cx_close X s e) = paths e \<and> blocks (cx_close X s e) = blocks e) \<and>
     (\<forall>p e. socks (cx_unlink X p e) = socks e \<and> paths (cx_unlink X p e) = paths e - {p} \<and> blocks (cx_unlink X p e) = blocks e)"

lemma resource_calls:
  assumes "resource_laws X socks paths blocks"
  shows "cx_malloc X e = (p, e') \<Longrightarrow> socks e' = socks e \<and> paths e' = paths e \<and>
        (if p = 0 then blocks e' = blocks e else p \<notin> blocks e \<and> blocks e' = insert p (blocks e))"
    and "cx_socket X e = (s, e') \<Longrightarrow> paths e' = paths e \<and> blocks e' = blocks e \<and>
        (if s < 0 then socks e' = socks e else s \<notin> socks e \<and> socks e' = insert s (socks e))"
    and "cx_bind X s q e = (ok, e') \<Longrightarrow> socks e' = socks e \<and> blocks e' = blocks e \<and>
        (if ok then q \<notin> paths e \<and> paths e' = insert q (paths e) else paths e' = paths e)"
    and "cx_connect X s q e = (ok, e') \<Longrightarrow> socks e' = socks e \<and> paths e' = paths e \<and> blocks e' = blocks e"
    and "socks (cx_free X p e) = socks e \<and> paths (cx_free X p e) = paths e \<and> blocks (cx_free X p e) = blocks e - {p}"
    and "socks (cx_close X s e) = socks e - {s} \<and> paths (cx_close X s e) = paths e \<and> blocks (cx_close X s e) = blocks e"
    and "socks (cx_unlink X q e) = socks e \<and> paths (cx_unlink X q e) = paths e - {q} \<and> blocks (cx_unlink X q e) = blocks e"
  subgoal by (rule assms [unfolded resource_laws_def, THEN conjunct1, rule_format])
  subgoal by (rule assms [unfolded resource_laws_def, THEN conjunct2, THEN conjunct2, THEN conjunct1, rule_format])
  subgoal by (rule assms [unfolded resource_laws_def, THEN conjunct2, THEN conjunct2, THEN conjunct2, THEN conjunct1, rule_format])
  subgoal by (rule assms [unfolded resource_laws_def, THEN conjunct2, THEN conjunct2, THEN conjunct2, THEN conjunct2, THEN conjunct1, rule_format])
  subgoal by (rule assms [unfolded resource_laws_def, THEN conjunct2, THEN conjunct1, rule_format])
  subgoal by (rule assms [unfolded resource_laws_def, THEN conjunct2, THEN conjunct2, THEN conjunct2, THEN conjunct2, THEN conjunct2, THEN conjunct1, rule_format])
  subgoal by (rule assms [unfolded resource_laws_def, THEN conjunct2, THEN conjunct2, THEN conjunct2, THEN conjunct2, THEN conjunct2, THEN conjunct2, rule_format])
  done

text \<open>The three together, and what opening a connection does to them.\<close>

definition resources :: "('e \<Rightarrow> int set) \<Rightarrow> ('e \<Rightarrow> cstring set) \<Rightarrow> ('e \<Rightarrow> nat set) \<Rightarrow> 'e client_state \<Rightarrow> int set \<times> cstring set \<times> nat set" where
  "resources socks paths blocks st = (socks (ci_ext st), paths (ci_ext st), blocks (ci_ext st))"

lemma ctrl_open_resources:
  assumes laws: "resource_laws X socks paths blocks" and o: "admlink_ctrl_open X path st = (ctrl, st')"
  shows "case ctrl of
      None \<Rightarrow> resources socks paths blocks st' = resources socks paths blocks st
    | Some c \<Rightarrow> ac_s c \<notin> socks (ci_ext st) \<and> ac_local c \<notin> paths (ci_ext st) \<and> ac_ptr c \<notin> blocks (ci_ext st) \<and>
        resources socks paths blocks st' =
          (insert (ac_s c) (socks (ci_ext st)), insert (ac_local c) (paths (ci_ext st)), insert (ac_ptr c) (blocks (ci_ext st)))"
proof -
  obtain p e1 where 1: "cx_malloc X (ci_ext st) = (p, e1)" by fastforce
  obtain s e2 where 2: "cx_socket X e1 = (s, e2)" by fastforce
  let ?local = "snprintf SUN_PATH_SIZE (ascii ''/var/admlink_ctrl_'' @ decimal (cx_getpid X) @ ascii ''-'' @ decimal (ci_counter st))"
  obtain ok3 e3 where 3: "cx_bind X s ?local e2 = (ok3, e3)" by fastforce
  obtain ok4 e4 where 4: "cx_connect X s (snprintf SUN_PATH_SIZE path) e3 = (ok4, e4)" by fastforce
  have f1: "socks e1 = socks (ci_ext st)" "paths e1 = paths (ci_ext st)"
    "if p = 0 then blocks e1 = blocks (ci_ext st) else p \<notin> blocks (ci_ext st) \<and> blocks e1 = insert p (blocks (ci_ext st))"
    using resource_calls(1) [OF laws 1] by simp_all
  have f2: "paths e2 = paths e1" "blocks e2 = blocks e1"
    "if s < 0 then socks e2 = socks e1 else s \<notin> socks e1 \<and> socks e2 = insert s (socks e1)"
    using resource_calls(2) [OF laws 2] by simp_all
  have f3: "socks e3 = socks e2" "blocks e3 = blocks e2"
    "if ok3 then ?local \<notin> paths e2 \<and> paths e3 = insert ?local (paths e2) else paths e3 = paths e2"
    using resource_calls(3) [OF laws 3] by simp_all
  have f4: "socks e4 = socks e3" "paths e4 = paths e3" "blocks e4 = blocks e3"
    using resource_calls(4) [OF laws 4] by simp_all
  note f5 = resource_calls(5-7) [OF laws]
  note calls = 1 2 3 4 sys_call_def sys_do_def Let_def admlink_ctrl_open_def
  consider "p = 0" | "p \<noteq> 0" "s < 0" | "p \<noteq> 0" "\<not> s < 0" "\<not> ok3" | "p \<noteq> 0" "\<not> s < 0" "ok3" "\<not> ok4"
    | "p \<noteq> 0" "\<not> s < 0" "ok3" "ok4" by blast
  then show ?thesis
  proof cases
    case 1
    then have "ctrl = None" "ci_ext st' = e1" using o by (auto simp: calls)
    then show ?thesis using f1 1 by (simp add: resources_def)
  next
    case 2
    then have "ctrl = None" "ci_ext st' = cx_free X p e2" using o by (auto simp: calls)
    then show ?thesis using f1 f2 f5 2 by (simp add: resources_def)
  next
    case 3
    then have "ctrl = None" "ci_ext st' = cx_free X p (cx_close X s e3)" using o by (auto simp: calls)
    then show ?thesis using f1 f2 f3 f5 3 by (simp add: resources_def)
  next
    case 4
    then have "ctrl = None" "ci_ext st' = cx_free X p (cx_unlink X ?local (cx_close X s e4))" using o by (auto simp: calls)
    then show ?thesis using f1 f2 f3 f4 f5 4 by (simp add: resources_def)
  next
    case 5
    then have "ctrl = Some \<lparr>ac_ptr = p, ac_s = s, ac_local = ?local, ac_dest = snprintf SUN_PATH_SIZE path\<rparr>" "ci_ext st' = e4"
      using o by (auto simp: calls)
    then show ?thesis using f1 f2 f3 f4 5 by (simp add: resources_def)
  qed
qed

lemma ctrl_close_resources:
  assumes "resource_laws X socks paths blocks"
  shows "resources socks paths blocks (admlink_ctrl_close X c st) =
    (socks (ci_ext st) - {ac_s c}, paths (ci_ext st) - {ac_local c}, blocks (ci_ext st) - {ac_ptr c})"
  using resource_calls(5-7) [OF assms] by (simp add: resources_def admlink_ctrl_close_def sys_do_def)

text \<open>The client: it also takes a block for the path, and gives it back at once.\<close>

lemma cli_open_close_resources:
  assumes laws: "resource_laws X socks paths blocks"
  shows "resources socks paths blocks (admlink_cli_close_connection X (admlink_cli_open_connection X dir ifname st)) =
    resources socks paths blocks st"
proof (cases ifname)
  case None
  then show ?thesis by (simp add: admlink_cli_open_connection_def admlink_cli_close_connection_def resources_def)
next
  case (Some name)
  obtain p e1 where 1: "cx_malloc X (ci_ext st) = (p, e1)" by fastforce
  have f1: "socks e1 = socks (ci_ext st)" "paths e1 = paths (ci_ext st)"
    "if p = 0 then blocks e1 = blocks (ci_ext st) else p \<notin> blocks (ci_ext st) \<and> blocks e1 = insert p (blocks (ci_ext st))"
    using resource_calls(1) [OF laws 1] by simp_all
  note free = resource_calls(5) [OF laws]
  obtain fp where fp: "snprintf (length dir + length name + 2) (dir @ ascii ''/'' @ name) = fp" by simp
  obtain ctrl st2 where 2: "admlink_ctrl_open X fp (st\<lparr>ci_ext := e1\<rparr>) = (ctrl, st2)" by fastforce
  note opened = ctrl_open_resources [OF laws 2]
  have open_conn: "admlink_cli_open_connection X dir ifname st =
      (if p = 0 then st\<lparr>ci_ext := e1, ci_conn := None\<rparr> else (sys_do (cx_free X p) st2)\<lparr>ci_conn := ctrl\<rparr>)"
    unfolding admlink_cli_open_connection_def Some option.case Let_def fp by (simp add: sys_call_def 1 2)
  note defs = open_conn admlink_cli_close_connection_def
  show ?thesis
  proof (cases "p = 0")
    case True
    then show ?thesis using f1 by (simp add: defs resources_def)
  next
    case False
    show ?thesis
    proof (cases ctrl)
      case None
      then show ?thesis using False f1 opened free by (simp add: defs sys_do_def resources_def)
    next
      case (Some c)
      let ?st = "(sys_do (cx_free X p) st2)\<lparr>ci_conn := Some c\<rparr>"
      have "resources socks paths blocks (admlink_ctrl_close X c ?st) =
          (socks (ci_ext ?st) - {ac_s c}, paths (ci_ext ?st) - {ac_local c}, blocks (ci_ext ?st) - {ac_ptr c})"
        by (rule ctrl_close_resources [OF laws])
      moreover have "ci_ext ?st = cx_free X p (ci_ext st2)" by (simp add: sys_do_def)
      ultimately have "resources socks paths blocks (admlink_ctrl_close X c ?st) = resources socks paths blocks st"
        using opened f1 free False Some by (auto simp: resources_def)
      then show ?thesis using False Some by (simp add: defs resources_def)
    qed
  qed
qed

text \<open>
C32. Opening the control connection leaves no socket, no path and no memory behind when it fails. When it
works it has taken one socket, one path and one block of memory that were not in use, and closing the
connection gives back exactly these. The client, which also allocates the path it opens, holds nothing of
the three after it has opened and closed its connection.
\<close>

theorem ctrl_open_close_balanced:
  assumes laws: "resource_laws X socks paths blocks" and o: "admlink_ctrl_open X path st = (ctrl, st')"
  shows "(case ctrl of
      None \<Rightarrow> resources socks paths blocks st' = resources socks paths blocks st
    | Some c \<Rightarrow> ac_s c \<notin> socks (ci_ext st) \<and> ac_local c \<notin> paths (ci_ext st) \<and> ac_ptr c \<notin> blocks (ci_ext st) \<and>
        resources socks paths blocks st' =
          (insert (ac_s c) (socks (ci_ext st)), insert (ac_local c) (paths (ci_ext st)), insert (ac_ptr c) (blocks (ci_ext st))) \<and>
        resources socks paths blocks (admlink_ctrl_close X c st') = resources socks paths blocks st) \<and>
    resources socks paths blocks (admlink_cli_close_connection X (admlink_cli_open_connection X dir ifname st)) =
      resources socks paths blocks st"
  using ctrl_open_resources [OF laws o] ctrl_close_resources [OF laws, of _ st'] cli_open_close_resources [OF laws, of dir ifname st]
  by (cases ctrl) (auto simp: resources_def)

lemma echo_resources: "resource_laws echo_client cw_socks cw_paths cw_blocks"
  by (auto simp: resource_laws_def echo_client_def split: if_splits)

theorem ctrl_open_close_balanced_witness:
  "\<exists>c st'. admlink_ctrl_open echo_client (ascii ''/var/admlink_if/if0'') idle_client = (Some c, st') \<and>
     resources cw_socks cw_paths cw_blocks st' = ({3}, {ac_local c}, {1}) \<and>
     resources cw_socks cw_paths cw_blocks (admlink_ctrl_close echo_client c st') = ({}, {}, {})"
proof -
  obtain ctrl st' where o: "admlink_ctrl_open echo_client (ascii ''/var/admlink_if/if0'') idle_client = (ctrl, st')" by fastforce
  then have "\<exists>c. ctrl = Some c \<and> ac_s c = 3 \<and> ac_ptr c = 1"
    by (auto simp: admlink_ctrl_open_def echo_client_def idle_client_def sys_call_def Let_def)
  then obtain c where "ctrl = Some c" "ac_s c = 3" "ac_ptr c = 1" by blast
  with ctrl_open_close_balanced [OF echo_resources o] o show ?thesis by (auto simp: idle_client_def resources_def)
qed

text \<open>What the program does with the reply of the agent, for the arguments it was called with.\<close>

lemma sysconf_reply:
  assumes laws: "socket_laws C inbox printed" and c: "ci_conn st = Some c" "0 \<le> ac_s c" "ac_s c < FD_SETSIZE"
    and stack: "length (cx_stack C) = 1024" and buf: "(case args of [] \<Rightarrow> None | a # as \<Rightarrow> sprintf 1024 a \<bind> (\<lambda>b. append_args b as)) = Some buf"
    and sent: "cx_send C (ac_s c) buf (ci_ext st) = (True, e)" "inbox e = ms @ reply # rest"
    and msgs: "\<forall>m \<in> set ms. unsolicited m" and reply: "\<not> unsolicited reply" "length reply < 1024" "0 \<notin> set reply"
  shows "\<exists>st'. sysconf_request C args st = Some (if take 6 reply = STR_REPLY_ERROR then - 10 else 0, st') \<and>
    printed (ci_ext st') = printed e @ concat (map (\<lambda>m. cstr (take 1022 m) @ [0x0A]) ms) @ [0x5B] @ reply @ [0x5D, 0x0A]"
proof -
  obtain buf1 st1 where 1: "request_loop C (ac_s c) (Some (admlink_cli_msg_cb C)) (cx_stack C) 1023 (st\<lparr>ci_ext := e\<rparr>) =
      request_loop C (ac_s c) (Some (admlink_cli_msg_cb C)) buf1 1023 st1" "length buf1 = 1024" "inbox (ci_ext st1) = reply # rest"
    "printed (ci_ext st1) = printed e @ concat (map (\<lambda>m. cstr (take 1022 m) @ [0x0A]) ms)"
    using request_drains [OF laws c(2,3), of 1023 "cx_stack C" ms "st\<lparr>ci_ext := e\<rparr>" "reply # rest"] stack msgs sent(2) by auto
  obtain buf' st2 where 2: "request_loop C (ac_s c) (Some (admlink_cli_msg_cb C)) buf1 1023 st1 = Some (0, buf', length reply, st2)"
    "length buf' = 1024" "take (length reply) buf' = reply" "printed (ci_ext st2) = printed (ci_ext st1)"
    using request_ends [OF laws c(2,3), of 1023 buf1 st1 reply rest "admlink_cli_msg_cb C"] 1(2,3) reply by auto
  note loop = 1(1) 2(1,2,3) 2(4) 1(4)
  have "buf'[length reply := 0] = take (length reply) buf' @ 0 # drop (Suc (length reply)) buf'"
    using 2(2) reply(2) by (intro upd_conv_take_nth_drop) simp
  then have b: "buf'[length reply := 0] = reply @ 0 # drop (Suc (length reply)) buf'" using 2(3) by simp
  have "cstr (reply @ 0 # ys) = reply" for ys using reply(3) by (induction reply) (auto simp: cstr_def)
  moreover have "(take 6 (reply @ 0 # ys) = STR_REPLY_ERROR) = (take 6 reply = STR_REPLY_ERROR)" for ys
  proof (cases "length reply < 6")
    case True
    have "0 \<notin> set STR_REPLY_ERROR" "length STR_REPLY_ERROR = 6" by (simp_all add: STR_REPLY_ERROR_def ascii_def)
    moreover have "0 \<in> set (take 6 (reply @ 0 # ys))" using True by (simp add: take_Cons')
    moreover have "length (take 6 reply) \<noteq> 6" using True by simp
    ultimately show ?thesis by metis
  qed simp
  moreover have "length STR_REPLY_ERROR = 6" by (simp add: STR_REPLY_ERROR_def ascii_def)
  moreover have "sysconf_request C args st = admlink_ctrl_command C buf st"
    using buf by (cases args) (auto simp: sysconf_request_def split: bind_splits)
  moreover have "poke buf' (length reply) 0 = Some (reply @ 0 # drop (Suc (length reply)) buf')"
    using 2(2) reply(2) b by (simp add: poke_def)
  moreover have "printed (cx_print C bs x) = printed x @ bs" for bs x using laws by (simp add: socket_laws_def)
  moreover have "ascii ''['' = [0x5B]" "ascii '']'' = [0x5D]" by (simp_all add: ascii_def)
  ultimately show ?thesis
    using sent(1) loop by (simp add: admlink_ctrl_command_def c(1) admlink_ctrl_request_def sys_call_def sys_do_def)
qed

end
