(* ===== verification/Spec2Isabelle.thy ===== *)
theory Spec2Isabelle
  imports Mqtt_Properties Eloop_Properties Agent_Properties Cjson_Properties Cjson_Heap_Properties Ctrl_Properties
begin

text \<open>
  Verification library of mq_cloud_agent, an agent that links a device to a cloud service over MQTT
  and TLS. This file imports the whole development.

  \<^bold>\<open>The program.\<close> The agent (\<open>admlink_*.c\<close>) runs an event loop (\<open>src/eloop.c\<close>) over two
  connections: one receives remote commands, the other uploads events. A timer checks the connections,
  one per connection syncs its MQTT client, and a socket takes commands from a command line client
  (\<open>admlink-ctrl/\<close>). Messages are JSON texts (\<open>src/cJSON.c\<close>).
  \<open>src/mqtt.c\<close> with \<open>include/mqtt.h\<close> is the MQTT client: packers and unpackers
  of the wire format, a queue of outgoing packets in the send buffer, and the client that queues
  requests, sends what is due (\<open>__mqtt_send\<close>), answers the broker (\<open>__mqtt_recv\<close>) and does both in
  \<open>mqtt_sync\<close>. \<open>src/mqtt_pal.c\<close> moves the bytes through an OpenSSL BIO. The event loop keeps timeouts,
  read sockets and signals.

  \<^bold>\<open>Theories.\<close>
  \<^item> \<open>Prelude\<close>: machine integers, byte memory with bounds-checked access.
  \<^item> \<open>Mqtt_Types\<close>: control packet types and error codes (\<open>mqtt.h\<close>), \<open>mqtt_error_str\<close>.
  \<^item> \<open>Mqtt_Wire\<close>: fixed header, 16-bit integers and strings; the fixed header is proved against the
    reference encoding \<open>varint\<close> of the remaining length.
  \<^item> \<open>Mqtt_Requests\<close>: the packers; each is proved to write exactly the packet of its specification
    (\<open>publish_packet\<close>, \<open>connect_packet\<close>, ...) or to report that it does not fit.
  \<^item> \<open>Mqtt_Responses\<close>: the unpackers, with safety and round trip lemmas.
  \<^item> \<open>Mqtt_Queue\<close>: \<open>mqtt_mq_init\<close>, \<open>register\<close>, \<open>clean\<close>, \<open>find\<close>; the locale \<open>packet_queue\<close> is the contract
    the client relies on, interpreted on these definitions as \<open>mq\<close>. \<open>mq_view\<close> abstracts a queue to
    the list of its packets.
  \<^item> \<open>Mqtt_Pid\<close>: \<open>__mqtt_next_pid\<close> and the period of its shift register.
  \<^item> \<open>Mqtt_Pal\<close>: the loops of \<open>mqtt_pal_sendall\<close> and \<open>mqtt_pal_recvall\<close>; they may spin, so they are
    partial functions, and that they return is proved from \<open>bio_unblocks\<close>.
  \<^item> \<open>Mqtt_Pal_Variants\<close>: the transports that the program is not built with, over mbedTLS, wolfSSL, BearSSL, POSIX and
    Windows sockets, and the contract that all keep (\<open>transport_contract\<close>).
  \<^item> \<open>Mqtt_Client\<close>: the client record, initialisers and requests; \<open>submit\<close> is what all requests share.
  \<^item> \<open>Mqtt_Sync\<close>: \<open>__mqtt_send\<close>, \<open>__mqtt_recv\<close>, \<open>mqtt_sync\<close>; \<open>Mqtt_Send\<close> and \<open>Mqtt_Recv\<close> hold their
    facts. \<open>queue_pass\<close> specifies a send pass over the abstract queue, with the bytes that reach the BIO (\<open>bio_sends\<close>)
    and the clock readings; it is proved to leave no choice.
  \<^item> \<open>Mqtt_World\<close>: the locale \<open>world_frame\<close>, a relation on worlds that every call of the outside keeps is kept
    by \<open>mqtt_sync\<close>; \<open>Agent_Facts\<close> interprets it on the agent as \<open>sw\<close>. \<open>Mqtt_Socket\<close>: no request changes the
    socket of the client.
  \<^item> \<open>Mqtt_Properties\<close>: the properties of the MQTT client, with an example client for the witnesses.
  \<^item> \<open>Eloop\<close>: the event loop; timeouts are linked nodes in an explicit heap, as the code has them.
  \<^item> \<open>Eloop_Timers\<close>: what registering, cancelling, taking and destroying do to the list of timers; the
    locale \<open>timer_queue\<close> is their contract, interpreted on the model as \<open>tq\<close>.
  \<^item> \<open>Eloop_Run\<close>: the invariant \<open>eloop_ok\<close>, what a handler may do (\<open>eloop_call\<close>), the loop.
  \<^item> \<open>Eloop_World\<close>: the locale \<open>loop_world\<close>, an invariant of the world that all handlers keep holds
    after any number of passes; \<open>Agent_Conns\<close> interprets it on the agent as \<open>al\<close>.
  \<^item> \<open>Eloop_Properties\<close>: the properties of the event loop.
  \<^item> \<open>Cjson\<close>: C strings, JSON nodes, parser and lookup; \<open>Cjson_Facts\<close>: the parser stays inside its text
    (\<open>safe_text\<close>), and reads back what the printer writes for a string.
  \<^item> \<open>Cjson_Print\<close>: printer and \<open>cJSON_Minify\<close>; \<open>Cjson_Print_Facts\<close>: they stay inside what is allocated;
    \<open>Cjson_Roundtrip\<close>: printing and parsing, printing and minifying.
  \<^item> \<open>Cjson_Shape\<close>: the types of parsed trees; \<open>Cjson_Edit\<close>: constructors, editing, duplication.
  \<^item> \<open>Cjson_Object\<close>: the locale \<open>object_map\<close>, objects as maps from names to items, interpreted on the library
    as \<open>jo\<close>.
  \<^item> \<open>Cjson_Properties\<close>: the properties of the JSON library.
  \<^item> \<open>Cjson_Heap\<close>: the nodes of the JSON library in memory: freeing, linking, references, duplicating, the hooks of the
    allocator. \<open>Cjson_Owned\<close>: the chain of nodes that stands for a list of trees (\<open>chain\<close>), and what belongs to it;
    \<open>Cjson_Links\<close>: adding, taking out, deleting and replacing simulate \<open>Cjson_Edit\<close>; \<open>Cjson_Memory\<close>: objects and the
    names of their members; \<open>Cjson_Copies\<close>: references and duplicates.
  \<^item> \<open>Cjson_Heap_Parse\<close>, \<open>Cjson_Heap_Print\<close>: parser and printer in memory, with the nodes and strings they allocate and
    give back; each loop of the code is a case of one partial function over the calls. They refine the parser and
    printer of trees (\<open>parse_gives\<close>, \<open>text_given\<close>). \<open>Cjson_Heap_Properties\<close>: the properties of the JSON library in memory.
  \<^item> \<open>Agent_State\<close>: the records of the agent and the world around it; \<open>Agent_Msg\<close>: remote commands,
    events, queued publishes; \<open>Agent\<close>: connections, state machine, control interface, start and exit.
  \<^item> \<open>Agent_Facts\<close>: the laws of the calls the handlers share; \<open>Agent_Loop\<close>: every handler keeps the event
    loop; \<open>Agent_Events\<close>: messages fit their buffers and are queued; \<open>Agent_Conns\<close>: the connections.
  \<^item> \<open>Agent_Properties\<close>: the properties of the agent.
  \<^item> \<open>Ctrl_Client\<close>: the command line client; \<open>Ctrl_Properties\<close>: its properties.

  \<^bold>\<open>Conventions.\<close> A function of the code is a function into \<open>option\<close> where it may have no defined
  result: \<open>None\<close> is an access outside a buffer, a lock that is not granted, or a loop that does not
  end. Integers keep their width (\<open>u8\<close>, \<open>u16\<close>, \<open>u32\<close>); lengths and pointers are natural numbers
  (offsets into a buffer), \<open>ssize_t\<close> and time are integers. The descriptors at the end of the send
  buffer are a list, and their size counts against the free bytes. The mutex is a flag: the model is
  that of one thread, and locking twice has no defined result. C strings are lists of bytes without
  their NUL, memory that holds one is the list of all its bytes. The agent's two connections are named
  by \<open>conn_id\<close>; the set of open BIOs and the queued publishes are part of its state \<open>sys\<close>, so using a
  freed one has no defined result. A function that may end the process returns an \<open>outcome\<close>.
  The command line client is a process of its own, with its own state and world.

  \<^bold>\<open>Loops.\<close> Loops over data are structural recursions, and those that skip ahead have a measure. The
  receive and send loops of the transport, the loop of the event loop, the connect loop and the client's
  wait for a reply may run for ever and are partial functions, so that not ending is \<open>None\<close>;
  \<open>run_passes\<close> counts passes of the event loop. No fuel is used in the model.

  \<^bold>\<open>What is assumed.\<close> The record \<open>mqtt_env\<close> is the outside world: clock, BIO and the application
  callback. \<open>bio_laws\<close> says, as \<open>net_laws\<close> does of the other
  transports, that the BIO never reports more bytes than it was given, \<open>bio_unblocks\<close>
  that it blocks a bounded number of times in a row. \<open>callback_laws\<close> says what the inspector and
  reconnect callbacks have to keep. \<open>eloop_env\<close> is the world of the event loop: clock, allocator,
  \<open>select\<close>, \<open>alarm\<close>, \<open>signal\<close> and the handlers. \<open>alloc_laws\<close> says that the allocator gives out no
  address in use, \<open>clock_laws\<close> that nanoseconds are less than a second, \<open>handler_laws\<close> that handlers
  return and work on the loop by its operations only. Signals are taken to come in during \<open>select\<close>.
  \<open>agent_env\<close> is the world of the agent: clock, allocator, OpenSSL and sockets; \<open>agent_laws\<close> says that
  what is newly allocated was not in use, \<open>allocates\<close> that there is memory. \<open>client_env\<close> is that of the
  command line client; \<open>socket_laws\<close> says what \<open>select\<close> and \<open>recv\<close> do to the datagrams that wait,
  \<open>resource_laws\<close> what opens and closes sockets, makes and removes paths, and allocates and frees memory. \<open>bear_laws\<close> says
  that the socket below BearSSL stores no more than it is asked for. \<open>allocator\<close> is that of the JSON library, \<open>fresh_laws\<close> says
  that what it gives out is not in use, \<open>has_memory\<close> that it has memory; \<open>arith\<close> and \<open>printer\<close> are the operations on
  \<open>double\<close>; \<open>formats_ok\<close> bounds what the formats write, \<open>exact_arith\<close> and \<open>prints_ints\<close> say that small
  integers are exact. The conversion of a \<open>double\<close> to \<open>int\<close> is taken to have a result for every \<open>double\<close>; in C it is
  undefined outside the range of \<open>int\<close>.

  \<^bold>\<open>Properties.\<close> \<open>Mqtt_Properties\<close> states, for requests, that each queues exactly its packet or
  fails without losing a queued one, and that packet ids are fresh; for traffic, which packets a send pass
  hands to the transport and which it leaves alone, how each answer of the broker moves the queue on, and the invariant over \<open>mqtt_sync\<close>; for the
  wire format round trips, memory safety and three inputs on which the code goes wrong; then the
  refinement of the queue and the progress of the transport. \<open>Eloop_Properties\<close> states that timers
  are kept in the order of their times and all run, that cancelling removes exactly what matches,
  that handlers and passes keep the loop well formed and free of bad accesses, and that an event
  loop must not be used once destroyed. \<open>Cjson_Properties\<close> states memory safety of parser and printer,
  the types of parsed trees, that parsing undoes printing, and what minifying, editing and duplicating
  keep. \<open>Cjson_Heap_Properties\<close> states that editing linked nodes does to their trees what the operations on trees do, and
  frees exactly what is no longer in use, that references outlive the array that holds them, and that parser, printer and
  \<open>cJSON_Duplicate\<close> do what they do on trees or, out of memory, leave the heap as it was. \<open>Agent_Properties\<close> states what remote and control commands do, the invariant of the connections
  over the event loop, and two ways in which the agent loses track of its state. \<open>Ctrl_Properties\<close>
  states how the client waits for its reply and gives back every socket, path and block of memory it has taken. This file joins the
  client and the agent.

  \<^bold>\<open>Not modelled.\<close> Interference of threads; signal handlers running between any two steps; of the agent, what it
  prints for diagnosis (\<open>dbg_printf\<close>, the hex dump of \<open>admlink_ctrl_if.c\<close>), code that is compiled out and
  callbacks of a download library that are never used; \<open>getopt\<close>, of which the client's model takes the
  result, and the copies the client makes of names with \<open>strdup\<close>. Failing allocations are modelled where the code tests for them; in
  \<open>cJSON.c\<close> they are for what works on nodes in memory (\<open>Cjson_Heap\<close>, \<open>Cjson_Heap_Parse\<close>, \<open>Cjson_Heap_Print\<close>), while
  the definitions on trees are taken to have memory.
\<close>

section \<open>A control command, from the command line to the event loop and back\<close>

text \<open>
C10. A command that the client is called with and that reaches the agent is answered. While the device is
about to restart or to update its firmware the answer is \<open>ok\<close> and nothing else happens. At any other time
the agent notes the time of the command, and then \<open>stop\<close> puts the exit of the agent into the event loop
and \<open>sendtest\<close> the publish of the test message of that time, and both are answered with \<open>OK\<close>; a command
the agent does not know is answered with \<open>UNKNOWNCMD\<close>, and the noted time is all that it changes. When the
answer reaches the client, after any number of unsolicited messages, the client prints them and it, and
ends with 0 in either case.
\<close>

theorem control_command_end_to_end:
  assumes agent: "agent_laws X" "allocates X" "eloop_ok (fst w)" "finite_heaps w"
    and date: "\<And>t. length (x_date X t) \<le> 100" and dev: "length (ag_devid (sy_agent (snd w))) < 128"
    and topic: "length (mc_topicsend (ag_mqupld (sy_agent (snd w)))) < 128"
    and text_of: "(case args of [] \<Rightarrow> None | a # as \<Rightarrow> sprintf 1024 a \<bind> (\<lambda>b. append_args b as)) = Some buf"
    and fits: "length buf \<le> 255" "0 \<notin> set buf"
    and received: "do_ext (x_recvfrom X sock 255) w = (Some buf, w1)"
    and noted: "noted = (let (t, v) = do_ext (x_time X) w1 in set_agent (\<lambda>ag. ag\<lparr>ag_tinfo := Some t\<rparr>) v)"
    and client: "socket_laws C inbox printed" "ci_conn st = Some c" "0 \<le> ac_s c" "ac_s c < FD_SETSIZE" "length (cx_stack C) = 1024"
    and busy: "busy \<longleftrightarrow> ag_agstatus (sy_agent (snd w)) = isReboot \<or> ag_agstatus (sy_agent (snd w)) = isFwup"
    and known: "reply = (if busy then STR_REPLY_OK
      else if take 4 buf = ascii ''stop'' \<or> take 8 buf = ascii ''sendtest'' then ascii ''OK'' else ascii ''UNKNOWNCMD'')"
  shows "(\<exists>w2. admlink_ctrl_iface_receive X sock w = Some (snd (do_ext (\<lambda>e. ((), x_sendto X sock reply e)) w2)) \<and>
      (if busy then w2 = w1
       else if take 4 buf = ascii ''stop'' then armed H_exit 0 (fst w) (fst w2) \<and> sy_agent (snd w2) = sy_agent (snd noted)
       else if take 8 buf = ascii ''sendtest''
       then \<exists>msg. sendtest_msg X (sy_agent (snd noted)) = Some msg \<and> length msg < 512 \<and>
         queued (pub_of MQUPLD (mc_topicsend (ag_mqupld (sy_agent (snd w)))) msg MQTT_PUBLISH_QOS_1) w w2
       else w2 = noted)) \<and>
    (\<forall>e ms. cx_send C (ac_s c) buf (ci_ext st) = (True, e) \<and> inbox e = ms @ [reply] \<and> (\<forall>m \<in> set ms. unsolicited m) \<longrightarrow>
       (\<exists>st'. sysconf_request C args st = Some (0, st') \<and>
          printed (ci_ext st') = printed e @ concat (map (\<lambda>m. cstr (take 1022 m) @ [0x0A]) ms) @ [0x5B] @ reply @ [0x5D, 0x0A]))"
proof (intro conjI allI impI)
  have f: "fst w1 = fst w" "sy_agent (snd w1) = sy_agent (snd w)" "sy_pubs (snd w1) = sy_pubs (snd w)"
    using do_ext_same [OF received] same_sys_fields [of "snd w" "snd w1"] by auto
  have ok: "eloop_ok (fst w1)" "finite_heaps w1" using agent(3,4) f by (simp_all add: finite_heaps_def)
  have buf: "sprintf 256 buf = Some buf" "cstr (buf @ [0]) = buf"
    using fits by (simp_all add: sprintf_def cstr_def takeWhile_append takeWhile_eq_all_conv)
  obtain t v where t: "do_ext (x_time X) w1 = (t, v)" by (metis surj_pair)
  then have "fst v = fst w1" "sy_pubs (snd v) = sy_pubs (snd w1)" "sy_agent (snd v) = sy_agent (snd w1)"
    using do_ext_same [OF t] same_sys_fields [of "snd w1" "snd v"] by auto
  then have g: "fst noted = fst w" "sy_pubs (snd noted) = sy_pubs (snd w)"
    "mc_topicsend (ag_mqupld (sy_agent (snd noted))) = mc_topicsend (ag_mqupld (sy_agent (snd w)))"
    using f t by (cases v; simp add: noted set_agent_def)+
  have q: "queued pub noted w2 = queued pub w w2" for pub w2 unfolding queued_def g ..
  show "\<exists>w2. admlink_ctrl_iface_receive X sock w = Some (snd (do_ext (\<lambda>e. ((), x_sendto X sock reply e)) w2)) \<and>
      (if busy then w2 = w1
       else if take 4 buf = ascii ''stop'' then armed H_exit 0 (fst w) (fst w2) \<and> sy_agent (snd w2) = sy_agent (snd noted)
       else if take 8 buf = ascii ''sendtest''
       then \<exists>msg. sendtest_msg X (sy_agent (snd noted)) = Some msg \<and> length msg < 512 \<and>
         queued (pub_of MQUPLD (mc_topicsend (ag_mqupld (sy_agent (snd w)))) msg MQTT_PUBLISH_QOS_1) w w2
       else w2 = noted)"
  proof (cases busy)
    case True
    with busy f buf show ?thesis
      by (intro exI [of _ w1]) (auto simp: admlink_ctrl_iface_receive_def received known)
  next
    case False
    have len: "length (ag_devid (sy_agent (snd w1))) < 128" "length (mc_topicsend (ag_mqupld (sy_agent (snd w1)))) < 128"
      using dev topic f by simp_all
    obtain r w2 where h: "admlink_cmd_handle X buf w1 = Some (r, w2)" and
      out: "if take 4 buf = ascii ''stop''
       then r = ascii ''OK'' \<and> armed H_exit 0 (fst w1) (fst w2) \<and> sy_agent (snd w2) = sy_agent (snd noted)
       else if take 8 buf = ascii ''sendtest''
       then r = ascii ''OK'' \<and> (\<exists>msg. sendtest_msg X (sy_agent (snd noted)) = Some msg \<and> length msg < 512 \<and>
         queued (pub_of MQUPLD (mc_topicsend (ag_mqupld (sy_agent (snd noted)))) msg MQTT_PUBLISH_QOS_1) noted w2)
       else r = ascii ''UNKNOWNCMD'' \<and> w2 = noted"
      using cmd_handled [OF agent(1,2) ok date len noted, of buf] by blast
    have "r = reply" using out known False by (simp split: if_splits)
    with False busy f buf h have "admlink_ctrl_iface_receive X sock w = Some (snd (do_ext (\<lambda>e. ((), x_sendto X sock reply e)) w2))"
      by (simp add: admlink_ctrl_iface_receive_def received)
    with out False show ?thesis unfolding q g(3) f(1) by (intro exI [of _ w2]) (simp split: if_splits)
  qed
next
  have reply: "\<not> unsolicited reply" "length reply < 1024" "0 \<notin> set reply" "take 6 reply \<noteq> STR_REPLY_ERROR"
    by (simp_all add: known unsolicited_def ascii_def STR_REPLY_ERROR_def STR_REPLY_OK_def)
  show "\<exists>st'. sysconf_request C args st = Some (0, st') \<and>
      printed (ci_ext st') = printed e @ concat (map (\<lambda>m. cstr (take 1022 m) @ [0x0A]) ms) @ [0x5B] @ reply @ [0x5D, 0x0A]"
    if "cx_send C (ac_s c) buf (ci_ext st) = (True, e) \<and> inbox e = ms @ [reply] \<and> (\<forall>m \<in> set ms. unsolicited m)" for e ms
    using sysconf_reply [OF client text_of _ _ _ reply(1-3)] that reply(4) by auto
qed

theorem control_command_end_to_end_witness:
  "(\<exists>w2. admlink_ctrl_iface_receive agent_world 3 (empty_el, dev_sys) =
      Some (snd (do_ext (\<lambda>e. ((), x_sendto agent_world 3 (ascii ''OK'') e)) w2)) \<and>
      armed H_exit 0 empty_el (fst w2)) \<and>
   (\<exists>st'. sysconf_request echo_client [ascii ''stop''] waiting_client = Some (0, st') \<and>
      cw_printed (ci_ext st') = busy_note @ [0x0A] @ [0x5B] @ ascii ''OK'' @ [0x5D, 0x0A])"
proof -
  let ?w = "(empty_el, dev_sys)" and ?c = "\<lparr>ac_ptr = 1, ac_s = 3, ac_local = ascii ''/var/c'', ac_dest = ascii ''/var/d''\<rparr>"
  have sent: "cx_send echo_client (ac_s ?c) (ascii ''stop'') (ci_ext waiting_client) =
      (True, (ci_ext waiting_client)\<lparr>cw_inbox := [busy_note] @ [ascii ''OK'']\<rparr>)" by (simp add: echo_client_def)
  have busy: "unsolicited busy_note" "cstr (take 1022 busy_note) = busy_note"
    by (simp_all add: unsolicited_def ascii_def busy_note_def cstr_def)
  have rec: "do_ext (x_recvfrom agent_world 3 255) ?w = (Some (ascii ''stop''), ?w)"
    by (simp add: do_ext_def ext_def agent_world_def)
  have stop: "take 4 (ascii ''stop'') = ascii ''stop''" "length (ascii ''stop'') \<le> 255" "0 \<notin> set (ascii ''stop'')"
    by (simp_all add: ascii_def)
  have all: "ci_conn waiting_client = Some ?c" "length (cx_stack echo_client) = 1024" "eloop_ok (fst ?w)"
    "\<not> (ag_agstatus (sy_agent (snd ?w)) = isReboot \<or> ag_agstatus (sy_agent (snd ?w)) = isFwup)"
    "length (ag_devid (sy_agent (snd ?w))) < 128" "length (mc_topicsend (ag_mqupld (sy_agent (snd ?w)))) < 128"
    "sprintf 1024 (ascii ''stop'') = Some (ascii ''stop'')"
    using empty_el_ok by (simp_all add: waiting_client_def echo_client_def dev_sys_def dev_agent_def new_conn_def isReboot_def
        isFwup_def ascii_def sprintf_def)
  have date: "length (x_date agent_world t) \<le> 100" for t by (simp add: agent_world_def)
  note e2e = control_command_end_to_end [OF agent_world_laws all(3) dev_state(1) date all(5,6) _ stop(2,3) rec refl echo_socket
      all(1) _ _ all(2) refl refl, of "[ascii ''stop'']"]
  show ?thesis using e2e sent busy all(4,7) stop(1) by (auto simp: FD_SETSIZE_def waiting_client_def idle_client_def)
qed

end
